(* ===== verification/Prelude.thy ===== *)
theory Prelude
  imports Main "HOL-Library.Word"
begin

unbundle bit_operations_syntax

text \<open>
  Shared vocabulary of the development: the machine types of the node, byte strings and their
  little- and big-endian readings (the library facts behind \<open>compat/endian.h\<close>), the two collections
  of rewrite rules the component theories extend, and generic facts on lists, natural numbers and words.
\<close>

type_synonym u8 = "8 word"
type_synonym u16 = "16 word"
type_synonym u32 = "32 word"
type_synonym u64 = "64 word"
type_synonym bytes = "8 word list"

text \<open>
  A reader consumes a prefix of the bytes still to be read. \<^term>\<open>None\<close> is the exception
  \<open>std::ios_base::failure\<close> that the readers of \<open>serialize.h\<close> and \<open>streams.h\<close> throw.
\<close>

type_synonym 'a reader = "bytes \<Rightarrow> ('a \<times> bytes) option"

definition rret :: "'a \<Rightarrow> 'a reader" where
  "rret x bs = Some (x, bs)"

definition rfail :: "'a reader" where
  "rfail bs = None"

definition rbind :: "'a reader \<Rightarrow> ('a \<Rightarrow> 'b reader) \<Rightarrow> 'b reader" where
  "rbind r f bs = (case r bs of None \<Rightarrow> None | Some (x, bs') \<Rightarrow> f x bs')"

named_theorems codec_simps "encodings and decodings of the wire format"
named_theorems step_simps "one step of a modelled loop or machine"

lemma rret_apply [simp, codec_simps]: "rret x bs = Some (x, bs)"
  by (simp add: rret_def)

lemma rfail_apply [simp, codec_simps]: "rfail bs = None"
  by (simp add: rfail_def)

lemma rbind_Some [codec_simps]: "r bs = Some (x, bs') \<Longrightarrow> rbind r f bs = f x bs'"
  by (simp add: rbind_def)

lemma rbind_None [codec_simps]: "r bs = None \<Longrightarrow> rbind r f bs = None"
  by (simp add: rbind_def)

lemma rbind_eq_Some_iff:
  "rbind r f bs = Some (y, rest) \<longleftrightarrow> (\<exists>x bs'. r bs = Some (x, bs') \<and> f x bs' = Some (y, rest))"
  by (auto simp: rbind_def split: option.splits)

lemma rbindE:
  assumes "rbind r f bs = Some (y, rest)"
  obtains x bs' where "r bs = Some (x, bs')" and "f x bs' = Some (y, rest)"
  using assms by (auto simp: rbind_eq_Some_iff)

subsection \<open>Little- and big-endian byte strings\<close>

primrec le_bytes :: "nat \<Rightarrow> nat \<Rightarrow> bytes" where
  "le_bytes 0 v = []"
| "le_bytes (Suc n) v = word_of_nat (v mod 256) # le_bytes n (v div 256)"

primrec le_val :: "bytes \<Rightarrow> nat" where
  "le_val [] = 0"
| "le_val (b # bs) = unat b + 256 * le_val bs"

definition be_bytes :: "nat \<Rightarrow> nat \<Rightarrow> bytes" where
  "be_bytes n v = rev (le_bytes n v)"

definition be_val :: "bytes \<Rightarrow> nat" where
  "be_val bs = le_val (rev bs)"

lemma unat_u8_less [simp]: "unat (b :: u8) < 256"
  using unsigned_less [of b] by simp

lemma u8_le_255 [simp]: "unat (b :: u8) \<le> 255"
  using unat_u8_less [of b] by linarith

lemma unat_u16_less [simp]: "unat (m :: u16) < 0x10000"
  using unsigned_less [of m] by simp

lemma unat_u32_less [simp]: "unat (m :: u32) < 0x100000000"
  using unsigned_less [of m] by simp

lemma unat_u64_less [simp]: "unat (m :: u64) < 0x10000000000000000"
  using unsigned_less [of m] by simp

lemma unat_of_nat_mod_256 [simp]: "unat (word_of_nat (v mod 256) :: u8) = v mod 256"
  by (simp add: unat_of_nat)

lemma mod_128_high: "128 \<le> (x::nat) \<Longrightarrow> x < 256 \<Longrightarrow> x mod 128 + 128 = x"
  by (simp add: le_mod_geq)

lemma length_le_bytes [simp]: "length (le_bytes n v) = n"
  by (induction n arbitrary: v) simp_all

lemma length_be_bytes [simp]: "length (be_bytes n v) = n"
  by (simp add: be_bytes_def)

lemma le_val_less: "le_val bs < 256 ^ length bs"
proof (induction bs)
  case Nil
  then show ?case by simp
next
  case (Cons b bs)
  have "unat b \<le> 255" by simp
  moreover from Cons.IH have "256 * le_val bs + 256 \<le> 256 * 256 ^ length bs" by linarith
  ultimately have "unat b + 256 * le_val bs < 256 * 256 ^ length bs" by linarith
  then show ?case by simp
qed

lemma le_val_le_bytes: "le_val (le_bytes n v) = v mod 256 ^ n"
proof (induction n arbitrary: v)
  case 0
  then show ?case by simp
next
  case (Suc n)
  then show ?case by (simp add: mod_mult2_eq)
qed

lemma le_bytes_le_val [simp]: "le_bytes (length bs) (le_val bs) = bs"
proof (induction bs)
  case Nil
  then show ?case by simp
next
  case (Cons b bs)
  have "(unat b + 256 * le_val bs) mod 256 = unat b" by simp
  moreover have "(unat b + 256 * le_val bs) div 256 = le_val bs" by simp
  ultimately show ?case using Cons.IH by simp
qed

lemma le_bytes_le_val': "length bs = n \<Longrightarrow> le_bytes n (le_val bs) = bs"
  by (metis le_bytes_le_val)

lemma le_val_append: "le_val (xs @ ys) = le_val xs + 256 ^ length xs * le_val ys"
  by (induction xs) (simp_all add: algebra_simps)

lemma le_val_inj: "length xs = length ys \<Longrightarrow> le_val xs = le_val ys \<Longrightarrow> xs = ys"
  by (metis le_bytes_le_val)

lemma le_val_le_bytes_small: "v < 256 ^ n \<Longrightarrow> le_val (le_bytes n v) = v"
  by (simp add: le_val_le_bytes)

subsection \<open>Single bits of bytes and integers\<close>

lemma u8_bit7: "bit (b :: u8) 7 \<longleftrightarrow> 0x80 \<le> unat b"
proof -
  have "bit b 7 \<longleftrightarrow> bit (unat b) 7" by (simp add: bit_unsigned_iff)
  also have "\<dots> \<longleftrightarrow> odd (unat b div 128)" by (simp add: bit_iff_odd)
  also have "\<dots> \<longleftrightarrow> 0x80 \<le> unat b"
  proof (cases "unat b < 128")
    case False
    then have "unat b div 128 = 1" using unat_u8_less [of b] by (intro div_nat_eqI) simp_all
    with False show ?thesis by simp
  qed simp
  finally show ?thesis .
qed

lemma u8_and_80_eq_0: "(b :: u8) AND 0x80 = 0 \<longleftrightarrow> unat b < 0x80"
  using and_exp_eq_0_iff_not_bit [of b 7] u8_bit7 [of b] by (simp add: not_le)

lemma unat_u8_and_7f: "unat ((b :: u8) AND 0x7f) = unat b mod 128"
proof -
  have "b AND 0x7f = b AND mask 7" by (simp add: mask_eq_exp_minus_1)
  also have "\<dots> = b mod 128" by (simp add: take_bit_eq_mod flip: take_bit_eq_mask)
  finally have "b AND 0x7f = b mod 128" .
  then show ?thesis by (simp add: unat_mod_distrib)
qed

lemma unat_u8_or_80: "unat b < 0x80 \<Longrightarrow> unat ((b :: u8) OR 0x80) = unat b + 0x80"
proof -
  assume "unat b < 0x80"
  then have "b AND 0x80 = 0" by (simp add: u8_and_80_eq_0)
  then have "b OR 0x80 = b + 0x80" by (simp add: disjunctive_add_eq_or)
  then show ?thesis using \<open>unat b < 0x80\<close> by (simp add: unat_word_ariths)
qed

lemma int_or_push_bit: 
  assumes "0 \<le> x" "x < 2 ^ k"
  shows "(x::int) OR push_bit k y = x + y * 2 ^ k"
proof -
  have "\<not> bit x n" if "k \<le> n" for n
    using assms that by (metis bit_take_bit_iff not_le take_bit_int_eq_self)
  then have "x AND push_bit k y = 0"
    by (intro bit_eqI) (auto simp: bit_and_iff bit_push_bit_iff)
  then have "x OR push_bit k y = x + push_bit k y" by (rule disjunctive_add_eq_or [symmetric])
  then show ?thesis by (simp add: push_bit_eq_mult)
qed

lemma int_and_not_push_bit:
  "bit (x::int) k \<Longrightarrow> x AND NOT (push_bit k 1) = x - 2 ^ k"
proof -
  assume "bit x k"
  then have "(x AND NOT (push_bit k 1)) OR push_bit k 1 = x"
    by (intro bit_eqI) (auto simp: bit_simps)
  moreover have "(x AND NOT (push_bit k 1)) AND push_bit k 1 = 0"
    by (intro bit_eqI) (auto simp: bit_simps)
  ultimately have "(x AND NOT (push_bit k 1)) + push_bit k 1 = x"
    by (metis disjunctive_add_eq_or)
  then show ?thesis by (simp add: push_bit_eq_mult)
qed

subsection \<open>Lists and options\<close>

lemma take_length_append [simp]: "length xs = n \<Longrightarrow> take n (xs @ ys) = xs"
  by simp

lemma drop_length_append [simp]: "length xs = n \<Longrightarrow> drop n (xs @ ys) = ys"
  by simp

lemma Cons_nth_drop: "i < length xs \<Longrightarrow> drop i xs = xs ! i # drop (Suc i) xs"
  by (simp add: Cons_nth_drop_Suc)

text \<open>Bounds-checked access, the model of \<open>std::vector::at\<close>: \<^term>\<open>None\<close> is \<open>std::out_of_range\<close>.\<close>

definition nth_opt :: "'a list \<Rightarrow> nat \<Rightarrow> 'a option" where
  "nth_opt xs i = (if i < length xs then Some (xs ! i) else None)"

lemma nth_opt_Some_iff: "nth_opt xs i = Some x \<longleftrightarrow> i < length xs \<and> xs ! i = x"
  by (simp add: nth_opt_def)

lemma nth_opt_None_iff [simp]: "nth_opt xs i = None \<longleftrightarrow> length xs \<le> i"
  by (auto simp add: nth_opt_def)

lemma nth_opt_in_set: "nth_opt xs i = Some x \<Longrightarrow> x \<in> set xs"
  by (auto simp: nth_opt_Some_iff)

lemma nth_opt_simps [simp]:
  "nth_opt [] i = None"
  "nth_opt (x # xs) 0 = Some x"
  "nth_opt (x # xs) (Suc i) = nth_opt xs i"
  by (simp_all add: nth_opt_def)

end
