(* ===== verification/Serialize.thy ===== *)
theory Serialize
  imports Prelude
begin

text \<open>
  The wire format of \<open>src/src/serialize.h\<close> over the byte stream of \<open>src/src/streams.h\<close>: fixed-width
  integers, \<open>CompactSize\<close> and \<open>VarInt\<close> lengths, byte vectors (read in blocks of 5,000,000 bytes so that
  a bogus length cannot exhaust the memory), vectors of objects, strings and pairs. A writer is the byte
  string it appends to the stream; a reader consumes a prefix of the bytes still to be read. Lengths are
  natural numbers below \<open>2 ^ 64\<close>, the range of the \<open>uint64_t\<close> parameters.

  The interface between the format and the types written in it is the locale \<open>codec\<close> (what is written can
  be read back) and its extension \<open>canonical_codec\<close> (whatever is read was written that way: the format has
  one encoding per value). Later theories interpret it for outpoints, inputs, outputs and witness stacks.
\<close>

section \<open>Definitions\<close>

definition MAX_SIZE :: nat where
  "MAX_SIZE = 0x02000000"

definition stream_read :: "nat \<Rightarrow> bytes reader" where
  "stream_read nSize vch =
     (if nSize = 0 then Some ([], vch)
      else if nSize > length vch then None
      else Some (take nSize vch, drop nSize vch))"

subsection \<open>Fixed-width integers\<close>

definition ser_writedata8 :: "u8 \<Rightarrow> bytes" where
  "ser_writedata8 obj = [obj]"

definition ser_writedata16 :: "u16 \<Rightarrow> bytes" where
  "ser_writedata16 obj = le_bytes 2 (unat obj)"

definition ser_writedata32 :: "u32 \<Rightarrow> bytes" where
  "ser_writedata32 obj = le_bytes 4 (unat obj)"

definition ser_writedata32be :: "u32 \<Rightarrow> bytes" where
  "ser_writedata32be obj = be_bytes 4 (unat obj)"

definition ser_writedata64 :: "u64 \<Rightarrow> bytes" where
  "ser_writedata64 obj = le_bytes 8 (unat obj)"

definition ser_readdata8 :: "u8 reader" where
  "ser_readdata8 = rbind (stream_read 1) (\<lambda>d. rret (hd d))"

definition ser_readdata16 :: "u16 reader" where
  "ser_readdata16 = rbind (stream_read 2) (\<lambda>d. rret (word_of_nat (le_val d)))"

definition ser_readdata32 :: "u32 reader" where
  "ser_readdata32 = rbind (stream_read 4) (\<lambda>d. rret (word_of_nat (le_val d)))"

definition ser_readdata32be :: "u32 reader" where
  "ser_readdata32be = rbind (stream_read 4) (\<lambda>d. rret (word_of_nat (be_val d)))"

definition ser_readdata64 :: "u64 reader" where
  "ser_readdata64 = rbind (stream_read 8) (\<lambda>d. rret (word_of_nat (le_val d)))"

subsection \<open>CompactSize\<close>

definition GetSizeOfCompactSize :: "nat \<Rightarrow> nat" where
  "GetSizeOfCompactSize nSize =
     (if nSize < 253 then 1
      else if nSize \<le> 0xffff then 1 + 2
      else if nSize \<le> 0xffffffff then 1 + 4
      else 1 + 8)"

definition WriteCompactSize :: "nat \<Rightarrow> bytes" where
  "WriteCompactSize nSize =
     (if nSize < 253 then ser_writedata8 (word_of_nat nSize)
      else if nSize \<le> 0xffff then ser_writedata8 253 @ ser_writedata16 (word_of_nat nSize)
      else if nSize \<le> 0xffffffff then ser_writedata8 254 @ ser_writedata32 (word_of_nat nSize)
      else ser_writedata8 255 @ ser_writedata64 (word_of_nat nSize))"

definition size_too_large :: "nat \<Rightarrow> nat reader" where
  "size_too_large nSizeRet = (if nSizeRet > MAX_SIZE then rfail else rret nSizeRet)"

definition ReadCompactSize :: "nat reader" where
  "ReadCompactSize =
     rbind ser_readdata8 (\<lambda>chSize.
       if chSize < 253 then size_too_large (unat chSize)
       else if chSize = 253 then
         rbind ser_readdata16 (\<lambda>n. if unat n < 253 then rfail else size_too_large (unat n))
       else if chSize = 254 then
         rbind ser_readdata32 (\<lambda>n. if unat n < 0x10000 then rfail else size_too_large (unat n))
       else
         rbind ser_readdata64 (\<lambda>n. if unat n < 0x100000000 then rfail else size_too_large (unat n)))"

subsection \<open>VarInt\<close>

text \<open>
  The integer type \<open>I\<close> of the templates enters through its number of value bits \<open>w\<close> (31, 32, 63 or 64):
  \<open>std::numeric_limits<I>::max()\<close> is \<open>2 ^ w - 1\<close>. \<open>varint_tmp\<close> is the first loop of \<open>WriteVarInt\<close>, which
  fills \<open>tmp[len]\<close>, \<open>tmp[len + 1]\<close>, \<open>\<dots>\<close>; its flag is \<open>len \<noteq> 0\<close>. The second loop writes \<open>tmp\<close> backwards.
\<close>

fun GetSizeOfVarInt :: "nat \<Rightarrow> nat" where
  "GetSizeOfVarInt n = (if n \<le> 0x7F then 1 else Suc (GetSizeOfVarInt (n div 128 - 1)))"

fun varint_tmp :: "bool \<Rightarrow> nat \<Rightarrow> bytes" where
  "varint_tmp cont n =
     word_of_nat (n mod 128 + (if cont then 0x80 else 0))
     # (if n \<le> 0x7F then [] else varint_tmp True (n div 128 - 1))"

definition WriteVarInt :: "nat \<Rightarrow> bytes" where
  "WriteVarInt n = rev (varint_tmp False n)"

fun readvarint_loop :: "nat \<Rightarrow> nat \<Rightarrow> nat reader" where
  "readvarint_loop w n [] = None"
| "readvarint_loop w n (chData # rest) =
     (if n > (2 ^ w - 1) div 128 then None
      else let n1 = n * 128 + unat chData mod 128
           in if unat chData \<ge> 0x80
              then if n1 = 2 ^ w - 1 then None else readvarint_loop w (n1 + 1) rest
              else Some (n1, rest))"

definition ReadVarInt :: "nat \<Rightarrow> nat reader" where
  "ReadVarInt w = readvarint_loop w 0"

subsection \<open>Byte vectors and strings\<close>

definition Serialize_bytes :: "bytes \<Rightarrow> bytes" where
  "Serialize_bytes v = WriteCompactSize (length v) @ (if v \<noteq> [] then v else [])"

function unser_bytes_loop :: "nat \<Rightarrow> nat \<Rightarrow> bytes \<Rightarrow> bytes reader" where
  "unser_bytes_loop i nSize v =
     (if i < nSize
      then let blk = min (nSize - i) (1 + 4999999)
           in rbind (stream_read blk) (\<lambda>d. unser_bytes_loop (i + blk) nSize (v @ d))
      else rret v)"
  by pat_completeness auto
termination
  by (relation "measure (\<lambda>(i, nSize, v). nSize - i)") auto

definition Unserialize_bytes :: "bytes reader" where
  "Unserialize_bytes = rbind ReadCompactSize (\<lambda>nSize. unser_bytes_loop 0 nSize [])"

definition Unserialize_string :: "bytes reader" where
  "Unserialize_string =
     rbind ReadCompactSize (\<lambda>nSize. if nSize \<noteq> 0 then stream_read nSize else rret [])"

definition Unserialize_LimitedString :: "nat \<Rightarrow> bytes reader" where
  "Unserialize_LimitedString Limit =
     rbind ReadCompactSize (\<lambda>size.
       if size > Limit then rfail
       else if size \<noteq> 0 then stream_read size else rret [])"

subsection \<open>Vectors of objects and pairs\<close>

text \<open>
  \<open>sz\<close> is \<open>sizeof(T)\<close>. The source's loop makes no progress when \<open>5000000 / sizeof(T)\<close> is 0; that
  non-termination is the result \<^term>\<open>None\<close>.
\<close>

definition Serialize_vec :: "('a \<Rightarrow> bytes) \<Rightarrow> 'a list \<Rightarrow> bytes" where
  "Serialize_vec ser v = WriteCompactSize (length v) @ concat (map ser v)"

primrec unser_n :: "'a reader \<Rightarrow> nat \<Rightarrow> 'a list reader" where
  "unser_n unser 0 = rret []"
| "unser_n unser (Suc n) = rbind unser (\<lambda>x. rbind (unser_n unser n) (\<lambda>xs. rret (x # xs)))"

function unser_vec_loop :: "nat \<Rightarrow> 'a reader \<Rightarrow> nat \<Rightarrow> nat \<Rightarrow> 'a list \<Rightarrow> 'a list reader" where
  "unser_vec_loop sz unser nMid nSize v =
     (if nMid < nSize
      then if 5000000 div sz = 0 then rfail
           else let nMid' = min (nMid + 5000000 div sz) nSize
                in rbind (unser_n unser (nMid' - nMid))
                     (\<lambda>xs. unser_vec_loop sz unser nMid' nSize (v @ xs))
      else rret v)"
  by pat_completeness auto
termination
  by (relation "measure (\<lambda>(sz, unser, nMid, nSize, v). nSize - nMid)") auto

definition Unserialize_vec :: "nat \<Rightarrow> 'a reader \<Rightarrow> 'a list reader" where
  "Unserialize_vec sz unser = rbind ReadCompactSize (\<lambda>nSize. unser_vec_loop sz unser 0 nSize [])"

definition Serialize_pair :: "('a \<Rightarrow> bytes) \<Rightarrow> ('b \<Rightarrow> bytes) \<Rightarrow> 'a \<times> 'b \<Rightarrow> bytes" where
  "Serialize_pair serK serT item = serK (fst item) @ serT (snd item)"

definition Unserialize_pair :: "'a reader \<Rightarrow> 'b reader \<Rightarrow> ('a \<times> 'b) reader" where
  "Unserialize_pair unserK unserT =
     rbind unserK (\<lambda>k. rbind unserT (\<lambda>t. rret (k, t)))"

declare GetSizeOfVarInt.simps [simp del] varint_tmp.simps [simp del]
declare unser_bytes_loop.simps [simp del] unser_vec_loop.simps [simp del]

section \<open>The codec interface\<close>

text \<open>
  What a type that travels on the wire promises: reading back what was written, with anything behind it
  in the stream left untouched. \<open>wf\<close> is the set of values the format can carry.
\<close>

locale codec =
  fixes ser :: "'a \<Rightarrow> bytes" and unser :: "'a reader" and wf :: "'a \<Rightarrow> bool"
  assumes unser_ser: "wf x \<Longrightarrow> unser (ser x @ rest) = Some (x, rest)"
begin

lemma ser_prefix_free:
  assumes "wf x" and "wf y" and "ser x @ r = ser y @ r'"
  shows "x = y \<and> r = r'"
  using unser_ser [OF assms(1), of r] unser_ser [OF assms(2), of r']
  unfolding assms(3) by simp

lemma ser_inj: "wf x \<Longrightarrow> wf y \<Longrightarrow> ser x = ser y \<Longrightarrow> x = y"
  using ser_prefix_free [of x y "[]" "[]"] by simp

lemma unser_n_ser:
  "list_all wf xs \<Longrightarrow> unser_n unser (length xs) (concat (map ser xs) @ rest) = Some (xs, rest)"
  by (induction xs) (simp_all add: rbind_def unser_ser)

end

locale canonical_codec = codec +
  assumes ser_unser: "unser bs = Some (x, rest) \<Longrightarrow> bs = ser x @ rest \<and> wf x"
begin

lemma unser_iff: "unser bs = Some (x, rest) \<longleftrightarrow> wf x \<and> bs = ser x @ rest"
  using ser_unser unser_ser by blast

lemma unser_n_iff:
  "unser_n unser n bs = Some (xs, rest)
   \<longleftrightarrow> length xs = n \<and> list_all wf xs \<and> bs = concat (map ser xs) @ rest"
proof (induction n arbitrary: bs xs)
  case 0
  then show ?case by auto
next
  case (Suc n)
  show ?case
    by (cases xs) (auto simp: rbind_eq_Some_iff Suc.IH unser_iff)
qed

end

section \<open>Fixed-width integers\<close>

lemma stream_read_append [simp, codec_simps]:
  "length d = n \<Longrightarrow> stream_read n (d @ rest) = Some (d, rest)"
  by (auto simp: stream_read_def)

lemma stream_read_iff: "stream_read n bs = Some (d, rest) \<longleftrightarrow> length d = n \<and> bs = d @ rest"
  by (auto simp: stream_read_def)

interpretation u8: canonical_codec ser_writedata8 ser_readdata8 "\<lambda>_. True"
proof unfold_locales
  fix x :: u8 and rest
  show "ser_readdata8 (ser_writedata8 x @ rest) = Some (x, rest)"
    by (simp add: ser_writedata8_def ser_readdata8_def rbind_def stream_read_def)
next
  fix bs rest and x :: u8
  assume "ser_readdata8 bs = Some (x, rest)"
  then show "bs = ser_writedata8 x @ rest \<and> True"
    by (cases bs)
      (auto simp: ser_writedata8_def ser_readdata8_def rbind_eq_Some_iff stream_read_iff
         length_Suc_conv)
qed

text \<open>The three little-endian widths and the big-endian one share one argument.\<close>

lemma le_word_roundtrip:
  fixes x :: "'a::len word"
  assumes "LENGTH('a) = 8 * n"
  shows "(word_of_nat (le_val (le_bytes n (unat x))) :: 'a word) = x"
proof -
  have "unat x < 256 ^ n"
    using unsigned_less [of x] assms by (simp add: power_mult)
  then show ?thesis by (simp add: le_val_le_bytes_small)
qed

lemma word_le_roundtrip:
  assumes "LENGTH('a::len) = 8 * n" and "length d = n"
  shows "le_bytes n (unat (word_of_nat (le_val d) :: 'a word)) = d"
proof -
  have "le_val d < 2 ^ LENGTH('a)"
    using le_val_less [of d] assms by (simp add: power_mult)
  then have "unat (word_of_nat (le_val d) :: 'a word) = le_val d"
    by (simp add: unat_of_nat)
  then show ?thesis using assms(2) by (simp add: le_bytes_le_val')
qed

lemma le_codec:
  assumes "LENGTH('a::len) = 8 * n"
  shows "canonical_codec (\<lambda>x :: 'a word. le_bytes n (unat x))
           (rbind (stream_read n) (\<lambda>d. rret (word_of_nat (le_val d)))) (\<lambda>_. True)"
proof unfold_locales
  fix x :: "'a word" and rest
  show "rbind (stream_read n) (\<lambda>d. rret (word_of_nat (le_val d))) (le_bytes n (unat x) @ rest)
        = Some (x, rest)"
    by (simp add: rbind_def le_word_roundtrip [OF assms])
next
  fix bs rest and x :: "'a word"
  assume "rbind (stream_read n) (\<lambda>d. rret (word_of_nat (le_val d))) bs = Some (x, rest)"
  then obtain d where "length d = n" "bs = d @ rest" "x = word_of_nat (le_val d)"
    by (auto elim!: rbindE simp: stream_read_iff)
  then show "bs = le_bytes n (unat x) @ rest \<and> True"
    by (simp add: word_le_roundtrip [OF assms])
qed

lemma be_codec:
  assumes "LENGTH('a::len) = 8 * n"
  shows "canonical_codec (\<lambda>x :: 'a word. be_bytes n (unat x))
           (rbind (stream_read n) (\<lambda>d. rret (word_of_nat (be_val d)))) (\<lambda>_. True)"
proof unfold_locales
  fix x :: "'a word" and rest
  show "rbind (stream_read n) (\<lambda>d. rret (word_of_nat (be_val d))) (be_bytes n (unat x) @ rest)
        = Some (x, rest)"
    by (simp add: rbind_def be_bytes_def be_val_def le_word_roundtrip [OF assms])
next
  fix bs rest and x :: "'a word"
  assume "rbind (stream_read n) (\<lambda>d. rret (word_of_nat (be_val d))) bs = Some (x, rest)"
  then obtain d where "length (rev d) = n" "bs = d @ rest" "x = word_of_nat (le_val (rev d))"
    by (auto elim!: rbindE simp: stream_read_iff be_val_def)
  then show "bs = be_bytes n (unat x) @ rest \<and> True"
    by (simp add: word_le_roundtrip [OF assms] be_bytes_def)
qed

interpretation u16: canonical_codec ser_writedata16 ser_readdata16 "\<lambda>_. True"
  using le_codec [where 'a = 16 and n = 2]
  by (simp add: ser_writedata16_def [abs_def] ser_readdata16_def)

interpretation u32: canonical_codec ser_writedata32 ser_readdata32 "\<lambda>_. True"
  using le_codec [where 'a = 32 and n = 4]
  by (simp add: ser_writedata32_def [abs_def] ser_readdata32_def)

interpretation u32be: canonical_codec ser_writedata32be ser_readdata32be "\<lambda>_. True"
  using be_codec [where 'a = 32 and n = 4]
  by (simp add: ser_writedata32be_def [abs_def] ser_readdata32be_def)

interpretation u64: canonical_codec ser_writedata64 ser_readdata64 "\<lambda>_. True"
  using le_codec [where 'a = 64 and n = 8]
  by (simp add: ser_writedata64_def [abs_def] ser_readdata64_def)

lemmas int_codecs = u8.unser_ser u16.unser_ser u32.unser_ser u32be.unser_ser u64.unser_ser
lemmas int_canonical = u8.unser_iff u16.unser_iff u32.unser_iff u64.unser_iff

declare int_codecs [codec_simps]

lemma length_ser_writedata [simp]:
  "length (ser_writedata8 a) = 1" "length (ser_writedata16 b) = 2"
  "length (ser_writedata32 c) = 4" "length (ser_writedata32be c) = 4" "length (ser_writedata64 d) = 8"
  by (simp_all add: ser_writedata8_def ser_writedata16_def ser_writedata32_def
      ser_writedata32be_def ser_writedata64_def)

section \<open>CompactSize\<close>

lemma length_WriteCompactSize: "length (WriteCompactSize n) = GetSizeOfCompactSize n"
  by (simp add: WriteCompactSize_def GetSizeOfCompactSize_def)

lemma unat_u16_of_nat: "n \<le> 0xffff \<Longrightarrow> unat (word_of_nat n :: u16) = n"
  by (simp add: unat_of_nat)

lemma unat_u32_of_nat: "n \<le> 0xffffffff \<Longrightarrow> unat (word_of_nat n :: u32) = n"
  by (simp add: unat_of_nat)

lemma ser8_Cons: "ser_writedata8 b @ bs = b # bs"
  by (simp add: ser_writedata8_def)

lemma ser_readdata8_Cons [codec_simps]: "ser_readdata8 (b # bs) = Some (b, bs)"
  using u8.unser_ser [of b bs] by (simp add: ser8_Cons)

lemma ReadCompactSize_Cons:
  "ReadCompactSize (b # bs) =
     (if b < 253 then size_too_large (unat b) bs
      else if b = 253 then
        rbind ser_readdata16 (\<lambda>n. if unat n < 253 then rfail else size_too_large (unat n)) bs
      else if b = 254 then
        rbind ser_readdata32 (\<lambda>n. if unat n < 0x10000 then rfail else size_too_large (unat n)) bs
      else
        rbind ser_readdata64 (\<lambda>n. if unat n < 0x100000000 then rfail else size_too_large (unat n)) bs)"
  by (simp add: ReadCompactSize_def rbind_def [of ser_readdata8] ser_readdata8_Cons)

lemma ReadCompactSize_Write:
  assumes "n \<le> MAX_SIZE"
  shows "ReadCompactSize (WriteCompactSize n @ rest) = Some (n, rest)"
proof -
  from assms have n: "n \<le> 0xffffffff" by (simp add: MAX_SIZE_def)
  consider "n < 253" | "253 \<le> n" "n \<le> 0xffff" | "0xffff < n" by linarith
  then show ?thesis
  proof cases
    case 1
    then have "unat (word_of_nat n :: u8) = n" by (simp add: unat_of_nat)
    moreover from this 1 have "(word_of_nat n :: u8) < 253" by (simp add: word_less_nat_alt)
    ultimately show ?thesis
      using assms 1 by (simp add: WriteCompactSize_def ser8_Cons ReadCompactSize_Cons size_too_large_def)
  next
    case 2
    then show ?thesis using assms
      by (simp add: WriteCompactSize_def ser8_Cons ReadCompactSize_Cons size_too_large_def
          rbind_def u16.unser_ser unat_u16_of_nat)
  next
    case 3
    then show ?thesis using assms n
      by (simp add: WriteCompactSize_def ser8_Cons ReadCompactSize_Cons size_too_large_def
          rbind_def u32.unser_ser unat_u32_of_nat)
  qed
qed

lemma size_too_large_iff: "size_too_large m bs = Some (n, rest) \<longleftrightarrow> n = m \<and> rest = bs \<and> n \<le> MAX_SIZE"
  by (auto simp: size_too_large_def)

lemma u8_cases_253:
  fixes b :: u8
  obtains "b < 253" | "b = 253" | "b = 254" | "b = 255"
proof -
  have "unat b \<le> 255" by simp
  then consider "unat b < 253" | "unat b = 253" | "unat b = 254" | "unat b = 255" by linarith
  then show thesis
  proof cases
    case 1
    then show thesis using that(1) by (simp add: word_less_nat_alt)
  next
    case 2
    then show thesis using that(2) by (simp add: word_unat_eq_iff)
  next
    case 3
    then show thesis using that(3) by (simp add: word_unat_eq_iff)
  next
    case 4
    then show thesis using that(4) by (simp add: word_unat_eq_iff)
  qed
qed

lemma ReadCompactSize_canonical:
  assumes "ReadCompactSize bs = Some (n, rest)"
  shows "bs = WriteCompactSize n @ rest \<and> n \<le> MAX_SIZE"
proof (cases bs)
  case Nil
  then show ?thesis using assms
    by (simp add: ReadCompactSize_def ser_readdata8_def rbind_def stream_read_def)
next
  case (Cons b cs)
  show ?thesis
  proof (cases b rule: u8_cases_253)
    case 1
    then have "unat b < 253" by (simp add: word_less_nat_alt)
    with assms Cons 1 show ?thesis
      by (simp add: ReadCompactSize_Cons size_too_large_iff WriteCompactSize_def ser8_Cons)
  next
    case 2
    with assms Cons obtain m :: u16 where "cs = ser_writedata16 m @ rest" "\<not> unat m < 253" "n = unat m"
        "n \<le> MAX_SIZE"
      by (auto simp: ReadCompactSize_Cons size_too_large_iff u16.unser_iff elim!: rbindE split: if_splits)
    moreover have "unat m \<le> 0xffff" using unat_u16_less [of m] by linarith
    ultimately show ?thesis using Cons 2 by (simp add: WriteCompactSize_def ser8_Cons)
  next
    case 3
    with assms Cons obtain m :: u32 where "cs = ser_writedata32 m @ rest" "\<not> unat m < 0x10000" "n = unat m"
        "n \<le> MAX_SIZE"
      by (auto simp: ReadCompactSize_Cons size_too_large_iff u32.unser_iff elim!: rbindE split: if_splits)
    moreover have "unat m \<le> 0xffffffff" using unat_u32_less [of m] by linarith
    ultimately show ?thesis using Cons 3 by (simp add: WriteCompactSize_def ser8_Cons)
  next
    case 4
    with assms Cons obtain m :: u64 where "\<not> unat m < 0x100000000" "n = unat m" "n \<le> MAX_SIZE"
      by (auto simp: ReadCompactSize_Cons size_too_large_iff u64.unser_iff elim!: rbindE split: if_splits)
    then show ?thesis by (simp add: MAX_SIZE_def)
  qed
qed

interpretation compact: canonical_codec WriteCompactSize ReadCompactSize "\<lambda>n. n \<le> MAX_SIZE"
  by unfold_locales (fact ReadCompactSize_Write, fact ReadCompactSize_canonical)

declare compact.unser_ser [codec_simps]

section \<open>VarInt\<close>

lemma GetSizeOfVarInt_eq_length: "length (varint_tmp c n) = GetSizeOfVarInt n"
proof (induction c n rule: varint_tmp.induct)
  case (1 c n)
  then show ?case by (simp add: varint_tmp.simps [of c n] GetSizeOfVarInt.simps [of n])
qed

text \<open>
  One digit of the reader, with the continuation bit decoded: the number accumulated so far and what the
  next byte adds to it.
\<close>

lemma readvarint_digit:
  assumes "d < 128" and "n \<le> (2 ^ w - 1) div 128"
  shows "readvarint_loop w n (word_of_nat d # rest) = Some (n * 128 + d, rest)"
    and "readvarint_loop w n (word_of_nat (d + 0x80) # rest) =
           (if n * 128 + d = 2 ^ w - 1 then None else readvarint_loop w (n * 128 + d + 1) rest)"
proof -
  from assms(1) have a: "unat (word_of_nat d :: u8) = d" by (simp add: unat_of_nat)
  from assms(1) have b: "unat (word_of_nat (d + 0x80) :: u8) = d + 0x80" by (subst unat_of_nat) simp
  show "readvarint_loop w n (word_of_nat d # rest) = Some (n * 128 + d, rest)"
    using assms by (simp add: a Let_def)
  show "readvarint_loop w n (word_of_nat (d + 0x80) # rest) =
           (if n * 128 + d = 2 ^ w - 1 then None else readvarint_loop w (n * 128 + d + 1) rest)"
    using assms by (simp only: readvarint_loop.simps b Let_def) simp
qed

text \<open>
  The reader run over the digits of \<open>n\<close> that carry the continuation bit, most significant first, arrives
  at the accumulator \<open>n + 1\<close>.
\<close>

lemma readvarint_rev_cont:
  assumes "n < 2 ^ w - 1"
  shows "readvarint_loop w 0 (rev (varint_tmp True n) @ rest) = readvarint_loop w (n + 1) rest"
  using assms
proof (induction n arbitrary: rest rule: less_induct)
  case (less n)
  show ?case
  proof (cases "n \<le> 0x7F")
    case True
    then have "n mod 128 = n" by simp
    with True less.prems show ?thesis
      using readvarint_digit(2) [of n 0 w rest] by (simp add: varint_tmp.simps [of True n])
  next
    case False
    define m where "m = n div 128 - 1"
    from False have mn: "m < n" and m1: "m + 1 = n div 128" by (auto simp: m_def div_greater_zero_iff)
    from mn less.prems have "m < 2 ^ w - 1" by linarith
    with less.IH [OF mn] have IH: "readvarint_loop w 0 (rev (varint_tmp True m) @ r)
        = readvarint_loop w (n div 128) r" for r
      by (simp flip: m1)
    have "n div 128 \<le> (2 ^ w - 1) div 128" using less.prems by (intro div_le_mono) simp
    with less.prems have "readvarint_loop w (n div 128) (word_of_nat (n mod 128 + 0x80) # rest)
        = readvarint_loop w (n + 1) rest"
      using readvarint_digit(2) [of "n mod 128" "n div 128" w rest] by simp
    then show ?thesis using False IH
      by (simp add: varint_tmp.simps [of True n] m_def)
  qed
qed

lemma ReadVarInt_Write:
  assumes "n \<le> 2 ^ w - 1"
  shows "ReadVarInt w (WriteVarInt n @ rest) = Some (n, rest)"
proof (cases "n \<le> 0x7F")
  case True
  then have "n mod 128 = n" by simp
  with True show ?thesis
    using readvarint_digit(1) [of n 0 w rest]
    by (simp add: ReadVarInt_def WriteVarInt_def varint_tmp.simps [of False n])
next
  case False
  define m where "m = n div 128 - 1"
  from False have "m < n" and m1: "m + 1 = n div 128" by (auto simp: m_def div_greater_zero_iff)
  with assms have "m < 2 ^ w - 1" by linarith
  then have "readvarint_loop w 0 (rev (varint_tmp True m) @ r) = readvarint_loop w (n div 128) r" for r
    using readvarint_rev_cont [of m w r] by (simp flip: m1)
  moreover have "n div 128 \<le> (2 ^ w - 1) div 128" using assms by (intro div_le_mono) simp
  then have "readvarint_loop w (n div 128) (word_of_nat (n mod 128) # rest) = Some (n, rest)"
    using readvarint_digit(1) [of "n mod 128" "n div 128" w rest] by simp
  ultimately show ?thesis using False
    by (simp add: ReadVarInt_def WriteVarInt_def varint_tmp.simps [of False n] m_def)
qed

lemma ReadVarInt_ser: "n < 2 ^ w \<Longrightarrow> ReadVarInt w (WriteVarInt n @ rest) = Some (n, rest)"
  by (rule ReadVarInt_Write) linarith

text \<open>
  The digits already consumed when the accumulator is \<open>acc\<close>: none at first, and those of \<open>acc - 1\<close> with
  their continuation bits afterwards.
\<close>

definition varint_prefix :: "nat \<Rightarrow> bytes" where
  "varint_prefix acc = (if acc = 0 then [] else rev (varint_tmp True (acc - 1)))"

lemma varint_prefix_snoc:
  assumes "d < 128"
  shows "varint_prefix (acc * 128 + d + 1) = varint_prefix acc @ [word_of_nat d + 0x80]"
proof -
  have "(acc * 128 + d) div 128 = acc" and "(acc * 128 + d) mod 128 = d" using assms by auto
  moreover have "acc * 128 + d \<le> 127 \<longleftrightarrow> acc = 0" using assms by auto
  ultimately show ?thesis
    by (simp add: varint_prefix_def varint_tmp.simps [of True "acc * 128 + d"])
qed

lemma WriteVarInt_snoc:
  assumes "d < 128"
  shows "WriteVarInt (acc * 128 + d) = varint_prefix acc @ [word_of_nat d]"
proof -
  have "(acc * 128 + d) div 128 = acc" and "(acc * 128 + d) mod 128 = d" using assms by auto
  moreover have "acc * 128 + d \<le> 127 \<longleftrightarrow> acc = 0" using assms by auto
  ultimately show ?thesis
    by (simp add: WriteVarInt_def varint_prefix_def varint_tmp.simps [of False "acc * 128 + d"])
qed

lemma u8_digit:
  fixes ch :: u8
  shows "unat ch < 0x80 \<Longrightarrow> word_of_nat (unat ch mod 128) = ch"
    and "0x80 \<le> unat ch \<Longrightarrow> word_of_nat (unat ch mod 128) + 0x80 = ch"
proof -
  show "word_of_nat (unat ch mod 128) = ch" if "unat ch < 0x80"
    unfolding mod_less [OF that] by simp
next
  assume "0x80 \<le> unat ch"
  then have eq: "unat ch mod 128 + 0x80 = unat ch" by (rule mod_128_high) (rule unat_u8_less)
  have "(word_of_nat (unat ch mod 128 + 0x80) :: u8) = ch" unfolding eq by simp
  then show "word_of_nat (unat ch mod 128) + 0x80 = ch"
    by (simp only: of_nat_add of_nat_numeral)
qed

lemma readvarint_canonical:
  "readvarint_loop w acc bs = Some (n, rest) \<Longrightarrow> varint_prefix acc @ bs = WriteVarInt n @ rest"
proof (induction w acc bs rule: readvarint_loop.induct)
  case (1 w n)
  then show ?case by simp
next
  case (2 w acc ch cs)
  let ?d = "unat ch mod 128"
  have d: "?d < 128" by simp
  show ?case
  proof (cases "0x80 \<le> unat ch")
    case True
    with "2.prems" have guard: "\<not> (2 ^ w - 1) div 128 < acc" "acc * 128 + ?d \<noteq> 2 ^ w - 1"
        and nxt: "readvarint_loop w (acc * 128 + ?d + 1) cs = Some (n, rest)"
      by (simp_all add: Let_def split: if_split_asm)
    from "2.IH" [OF guard(1) refl True guard(2) nxt]
    have "varint_prefix (acc * 128 + ?d + 1) @ cs = WriteVarInt n @ rest" .
    then show ?thesis
      by (simp only: varint_prefix_snoc [OF d] u8_digit(2) [OF True] append_assoc append_Cons append_Nil)
  next
    case False
    with "2.prems" have "n = acc * 128 + ?d" "rest = cs"
      by (simp_all add: Let_def split: if_split_asm)
    moreover from False have "word_of_nat ?d = ch" by (intro u8_digit(1)) simp
    ultimately show ?thesis
      by (simp only: WriteVarInt_snoc [OF d] append_assoc append_Cons append_Nil)
  qed
qed

lemma readvarint_bound:
  assumes "7 \<le> w" and "readvarint_loop w acc bs = Some (n, rest)"
  shows "n \<le> 2 ^ w - 1"
  using assms
proof (induction w acc bs rule: readvarint_loop.induct)
  case (1 w n)
  then show ?case by simp
next
  case (2 w acc ch cs)
  from "2.prems"(1) have "w = (w - 7) + 7" by simp
  then have "(2::nat) ^ w = 2 ^ (w - 7) * 2 ^ 7" by (metis power_add)
  then have pow: "(2::nat) ^ w = 2 ^ (w - 7) * 128" by simp
  have bound: "m \<le> 2 ^ w - 1" if "acc \<le> (2 ^ w - 1) div 128" "m = acc * 128 + unat ch mod 128" for m
  proof -
    have "unat ch mod 128 \<le> 127" by simp
    moreover have "(2 ^ w - 1) div 128 = (2::nat) ^ (w - 7) - 1" unfolding pow by simp
    moreover have "0 < (2::nat) ^ (w - 7)" by simp
    ultimately show ?thesis using that unfolding pow by linarith
  qed
  from "2.prems"(2) have guard: "\<not> (2 ^ w - 1) div 128 < acc" by (simp split: if_split_asm)
  show ?case
  proof (cases "0x80 \<le> unat ch")
    case True
    with "2.prems"(2) guard have "acc * 128 + unat ch mod 128 \<noteq> 2 ^ w - 1"
        and "readvarint_loop w (acc * 128 + unat ch mod 128 + 1) cs = Some (n, rest)"
      by (simp_all add: Let_def split: if_split_asm)
    then show ?thesis by (rule "2.IH" [OF guard refl True _ "2.prems"(1)])
  next
    case False
    with "2.prems"(2) guard have "n = acc * 128 + unat ch mod 128" by (simp add: Let_def)
    with guard show ?thesis by (intro bound) simp_all
  qed
qed

lemma ReadVarInt_canonical:
  assumes "7 \<le> w" and "ReadVarInt w bs = Some (n, rest)"
  shows "bs = WriteVarInt n @ rest \<and> n \<le> 2 ^ w - 1"
  using readvarint_canonical [of w 0 bs n rest] readvarint_bound [of w 0 bs n rest] assms
  by (simp add: ReadVarInt_def varint_prefix_def)

section \<open>Byte vectors, strings, vectors of objects and pairs\<close>

text \<open>Reading in blocks is reading in one go.\<close>

lemma unser_bytes_loop_eq:
  "unser_bytes_loop i nSize v bs =
     (if nSize - i \<le> length bs then Some (v @ take (nSize - i) bs, drop (nSize - i) bs) else None)"
proof (induction i nSize v arbitrary: bs rule: unser_bytes_loop.induct)
  case (1 i nSize v)
  show ?case
  proof (cases "i < nSize")
    case False
    then show ?thesis by (simp add: unser_bytes_loop.simps [of i])
  next
    case True
    define blk where "blk = min (nSize - i) (1 + 4999999)"
    from True have blk: "0 < blk" "blk \<le> nSize - i" by (auto simp: blk_def)
    have step: "unser_bytes_loop i nSize v bs
        = rbind (stream_read blk) (\<lambda>d. unser_bytes_loop (i + blk) nSize (v @ d)) bs"
      using True by (simp add: unser_bytes_loop.simps [of i nSize v] blk_def Let_def)
    show ?thesis
    proof (cases "blk \<le> length bs")
      case False
      then show ?thesis using step blk by (simp add: rbind_def stream_read_def)
    next
      case in_range: True
      define m where "m = nSize - (i + blk)"
      from blk have m: "nSize - i = blk + m" by (simp add: m_def)
      have "unser_bytes_loop (i + blk) nSize (v @ take blk bs) (drop blk bs)
          = (if m \<le> length (drop blk bs)
             then Some ((v @ take blk bs) @ take m (drop blk bs), drop m (drop blk bs)) else None)"
        unfolding m_def by (rule "1.IH" [OF True blk_def])
      with in_range blk(1) show ?thesis
        unfolding step m by (auto simp: rbind_def stream_read_def take_add add.commute)
    qed
  qed
qed

lemma Unserialize_bytes_eq_string: "Unserialize_bytes = Unserialize_string"
proof -
  have "unser_bytes_loop 0 n [] = (if n \<noteq> 0 then stream_read n else rret [])" for n
    by (rule ext) (simp add: unser_bytes_loop_eq stream_read_def)
  then show ?thesis by (simp add: Unserialize_bytes_def Unserialize_string_def)
qed

interpretation byte_vector: canonical_codec Serialize_bytes Unserialize_bytes "\<lambda>v. length v \<le> MAX_SIZE"
proof unfold_locales
  fix x :: bytes and rest
  assume "length x \<le> MAX_SIZE"
  then show "Unserialize_bytes (Serialize_bytes x @ rest) = Some (x, rest)"
    by (simp add: Unserialize_bytes_def Serialize_bytes_def rbind_def compact.unser_ser unser_bytes_loop_eq)
next
  fix bs rest and x :: bytes
  assume "Unserialize_bytes bs = Some (x, rest)"
  then obtain n cs where "ReadCompactSize bs = Some (n, cs)"
      and "n \<le> length cs" "x = take n cs" "rest = drop n cs"
    by (auto elim!: rbindE simp: Unserialize_bytes_def unser_bytes_loop_eq split: if_splits)
  then show "bs = Serialize_bytes x @ rest \<and> length x \<le> MAX_SIZE"
    by (auto simp: compact.unser_iff Serialize_bytes_def)
qed

lemma unser_n_add:
  "unser_n r (m + n) = rbind (unser_n r m) (\<lambda>xs. rbind (unser_n r n) (\<lambda>ys. rret (xs @ ys)))"
proof (induction m)
  case 0
  show ?case by (rule ext) (simp add: rbind_def split: option.splits)
next
  case (Suc m)
  then show ?case
    by (intro ext) (auto simp: rbind_def split: option.splits)
qed

text \<open>Growing the vector in steps of \<open>5000000 / sizeof(T)\<close> elements is reading \<open>nSize\<close> elements.\<close>

lemma unser_vec_loop_eq:
  assumes "0 < sz" and "sz \<le> 5000000"
  shows "unser_vec_loop sz r nMid nSize v bs
     = rbind (unser_n r (nSize - nMid)) (\<lambda>xs. rret (v @ xs)) bs"
  using assms
proof (induction sz r nMid nSize v arbitrary: bs rule: unser_vec_loop.induct)
  case (1 sz r nMid nSize v)
  show ?case
  proof (cases "nMid < nSize")
    case False
    then show ?thesis by (simp add: unser_vec_loop.simps [of sz] rbind_def)
  next
    case True
    define k where "k = min (nMid + 5000000 div sz) nSize"
    from "1.prems" have pos: "5000000 div sz \<noteq> 0" by (simp add: div_greater_zero_iff)
    have k: "nSize - nMid = (k - nMid) + (nSize - k)" using True pos by (auto simp: k_def)
    have "unser_vec_loop sz r nMid nSize v bs
        = rbind (unser_n r (k - nMid)) (\<lambda>xs. unser_vec_loop sz r k nSize (v @ xs)) bs"
      using True pos by (simp add: unser_vec_loop.simps [of sz r nMid] k_def Let_def)
    also have "\<dots> = rbind (unser_n r (k - nMid))
        (\<lambda>xs. rbind (unser_n r (nSize - k)) (\<lambda>ys. rret ((v @ xs) @ ys))) bs"
      using "1.IH" [OF True pos k_def "1.prems"] by (simp add: rbind_def split: option.splits)
    also have "\<dots> = rbind (unser_n r (nSize - nMid)) (\<lambda>xs. rret (v @ xs)) bs"
      unfolding k unser_n_add by (simp add: rbind_def split: option.splits)
    finally show ?thesis .
  qed
qed

lemma Unserialize_vec_eq:
  assumes "0 < sz" and "sz \<le> 5000000"
  shows "Unserialize_vec sz r = rbind ReadCompactSize (unser_n r)"
  by (rule ext)
    (simp add: Unserialize_vec_def rbind_def unser_vec_loop_eq [OF assms] split: option.splits)

context codec
begin

lemma vec_codec:
  assumes "0 < sz" and "sz \<le> 5000000"
  shows "codec (Serialize_vec ser) (Unserialize_vec sz unser)
           (\<lambda>v. length v \<le> MAX_SIZE \<and> list_all wf v)"
  by unfold_locales
    (simp add: Unserialize_vec_eq [OF assms] Serialize_vec_def rbind_def compact.unser_ser unser_n_ser)

end

context canonical_codec
begin

lemma vec_canonical_codec:
  assumes "0 < sz" and "sz \<le> 5000000"
  shows "canonical_codec (Serialize_vec ser) (Unserialize_vec sz unser)
           (\<lambda>v. length v \<le> MAX_SIZE \<and> list_all wf v)"
proof -
  have "bs = Serialize_vec ser v @ rest \<and> length v \<le> MAX_SIZE \<and> list_all wf v"
    if "Unserialize_vec sz unser bs = Some (v, rest)" for bs v rest
  proof -
    from that obtain n cs where "ReadCompactSize bs = Some (n, cs)" "unser_n unser n cs = Some (v, rest)"
      unfolding Unserialize_vec_eq [OF assms] by (rule rbindE)
    then have "bs = WriteCompactSize n @ cs" "n \<le> MAX_SIZE"
        and "length v = n" "list_all wf v" "cs = concat (map ser v) @ rest"
      by (simp_all only: compact.unser_iff unser_n_iff)
    then show ?thesis by (simp add: Serialize_vec_def)
  qed
  then show ?thesis
    by (rule canonical_codec.intro [OF vec_codec [OF assms] canonical_codec_axioms.intro])
qed

end

section \<open>Properties\<close>

text \<open>CompactSize has one encoding per length. The reader accepts a byte string exactly when it starts with
  what the writer produces for a length within \<open>MAX_SIZE\<close>, and returns that length and the rest.\<close>

theorem compact_size_canonical:
  "ReadCompactSize bs = Some (n, rest) \<longleftrightarrow> n \<le> MAX_SIZE \<and> bs = WriteCompactSize n @ rest"
  by (rule compact.unser_iff)

text \<open>The variable-length integers of the chain state database are canonical. For an integer type of at
  least 7 value bits the reader accepts exactly the writer's output for a value of the type; overflow and
  truncation are errors.\<close>

theorem varint_canonical:
  assumes "7 \<le> w"
  shows "ReadVarInt w bs = Some (n, rest) \<longleftrightarrow> n \<le> 2 ^ w - 1 \<and> bs = WriteVarInt n @ rest"
  using ReadVarInt_canonical [OF assms] ReadVarInt_Write by blast

theorem varint_canonical_witness: "ReadVarInt 64 [0x80, 0x00] = Some (128, [])"
  using varint_canonical [of 64 "[0x80, 0x00]" 128 "[]"] by (simp add: WriteVarInt_def varint_tmp.simps)

text \<open>Reading a vector in chunks of at most five million bytes of elements, which bounds the memory an
  attacker can make the reader allocate, gives what reading the announced number of elements one after the
  other gives, for every element size that allows a chunk.\<close>

theorem vector_chunks_equivalent:
  assumes "0 < sz" and "sz \<le> 5000000"
  shows "Unserialize_vec sz r = rbind ReadCompactSize (unser_n r)"
  using assms by (rule Unserialize_vec_eq)

theorem vector_chunks_equivalent_witness: "Unserialize_vec 96 ser_readdata8 [2, 7, 8, 9] = Some ([7, 8], [9])"
proof -
  have "ReadCompactSize [2, 7, 8, 9] = Some (2, [7, 8, 9])"
    using compact.unser_ser [of 2 "[7, 8, 9]"] by (simp add: MAX_SIZE_def WriteCompactSize_def ser_writedata8_def)
  moreover have "ser_readdata8 (x # xs) = Some (x, xs)" for x xs
    using u8.unser_ser [of x xs] by (simp add: ser_writedata8_def)
  ultimately show ?thesis
    using vector_chunks_equivalent [of 96 ser_readdata8] by (simp add: rbind_def rret_def numeral_2_eq_2)
qed

end
