(* ===== verification/ScriptNum.thy ===== *)
theory ScriptNum
  imports Prelude
begin

unbundle bit_operations_syntax

text \<open>
  \<open>CScriptNum\<close> of \<open>src/src/script/script.h\<close>: the numbers of the script language. A number is held in an
  \<open>int64_t\<close> and travels as a little-endian byte string whose top bit is the sign. The model keeps the
  value as an \<^typ>\<open>int\<close>; \<open>int64_ok\<close> is the range of the machine type, and the bounds below show that the
  operands the interpreter admits (at most 4 bytes, 5 for lock times) never leave it. \<^term>\<open>None\<close> is
  \<open>scriptnum_error\<close> for the decoder and a failed \<open>assert\<close> for the compound assignments.
\<close>

section \<open>Definitions\<close>

definition int64_ok :: "int \<Rightarrow> bool" where
  "int64_ok v \<longleftrightarrow> - (2 ^ 63) \<le> v \<and> v \<le> 2 ^ 63 - 1"

definition nDefaultMaxNumSize :: nat where
  "nDefaultMaxNumSize = 4"

definition set_vch :: "bytes \<Rightarrow> int" where
  "set_vch vch =
     (if vch = [] then 0
      else let result = foldl (\<lambda>r i. r OR push_bit (8 * i) (uint (vch ! i))) 0 [0..<length vch]
           in if last vch AND 0x80 \<noteq> 0
              then - (result AND NOT (push_bit (8 * (length vch - 1)) 0x80))
              else result)"

text \<open>
  The source computes in 64 bits and shifts by eight times the index, which is defined for at most eight bytes. So far the
  two agree (\<open>set_vch64_value\<close>); the callers ask for at most five.
\<close>

definition set_vch64 :: "bytes \<Rightarrow> 64 word" where
  "set_vch64 vch =
     (if vch = [] then 0
      else let result = foldl (\<lambda>r i. r OR push_bit (8 * i) (ucast (vch ! i))) 0 [0..<length vch]
           in if last vch AND 0x80 \<noteq> 0
              then - (result AND NOT (push_bit (8 * (length vch - 1)) 0x80))
              else result)"

definition CScriptNum :: "bytes \<Rightarrow> bool \<Rightarrow> nat \<Rightarrow> int option" where
  "CScriptNum vch fRequireMinimal nMaxNumSize =
     (if length vch > nMaxNumSize then None
      else if fRequireMinimal \<and> length vch > 0 \<and> last vch AND 0x7f = 0
              \<and> (length vch \<le> 1 \<or> vch ! (length vch - 2) AND 0x80 = 0)
      then None
      else Some (set_vch vch))"

fun absvalue_bytes :: "nat \<Rightarrow> bytes" where
  "absvalue_bytes absvalue =
     (if absvalue = 0 then []
      else word_of_nat (absvalue mod 256) # absvalue_bytes (absvalue div 256))"

declare absvalue_bytes.simps [simp del]

definition serialize_num :: "int \<Rightarrow> bytes" where
  "serialize_num value =
     (if value = 0 then []
      else let neg = value < 0;
               result = absvalue_bytes (nat \<bar>value\<bar>)
           in if last result AND 0x80 \<noteq> 0 then result @ [if neg then 0x80 else 0]
              else if neg then butlast result @ [last result OR 0x80]
              else result)"

definition getvch :: "int \<Rightarrow> bytes" where
  "getvch m_value = serialize_num m_value"

definition getint :: "int \<Rightarrow> int" where
  "getint m_value =
     (if m_value > 2 ^ 31 - 1 then 2 ^ 31 - 1
      else if m_value < - (2 ^ 31) then - (2 ^ 31)
      else m_value)"

definition num_add_assign :: "int \<Rightarrow> int \<Rightarrow> int option" where
  "num_add_assign m_value rhs =
     (if rhs = 0 \<or> rhs > 0 \<and> m_value \<le> (2 ^ 63 - 1) - rhs \<or> rhs < 0 \<and> m_value \<ge> - (2 ^ 63) - rhs
      then Some (m_value + rhs) else None)"

definition num_sub_assign :: "int \<Rightarrow> int \<Rightarrow> int option" where
  "num_sub_assign m_value rhs =
     (if rhs = 0 \<or> rhs > 0 \<and> m_value \<ge> - (2 ^ 63) + rhs \<or> rhs < 0 \<and> m_value \<le> (2 ^ 63 - 1) + rhs
      then Some (m_value - rhs) else None)"

text \<open>The binary operators add without an assertion; \<^term>\<open>None\<close> is signed overflow, which is undefined.\<close>

definition num_plus :: "int \<Rightarrow> int \<Rightarrow> int option" where
  "num_plus m_value rhs = (if int64_ok (m_value + rhs) then Some (m_value + rhs) else None)"

definition num_minus :: "int \<Rightarrow> int \<Rightarrow> int option" where
  "num_minus m_value rhs = (if int64_ok (m_value - rhs) then Some (m_value - rhs) else None)"

definition num_neg :: "int \<Rightarrow> int option" where
  "num_neg m_value = (if m_value \<noteq> - (2 ^ 63) then Some (- m_value) else None)"

section \<open>The decoder in arithmetic terms\<close>

lemma set_vch_Nil [simp]: "set_vch [] = 0"
  by (simp add: set_vch_def)

lemma bytes_or_le_val:
  "n \<le> length vch \<Longrightarrow>
   foldl (\<lambda>r i. r OR push_bit (8 * i) (uint (vch ! i))) 0 [0..<n] = int (le_val (take n vch))"
proof (induction n)
  case 0
  then show ?case by simp
next
  case (Suc n)
  have "le_val (take n vch) < 256 ^ n" using le_val_less [of "take n vch"] Suc.prems by simp
  then have lt: "int (le_val (take n vch)) < 2 ^ (8 * n)"
    unfolding power_mult by simp
  from Suc have "foldl (\<lambda>r i. r OR push_bit (8 * i) (uint (vch ! i))) 0 [0..<Suc n]
      = int (le_val (take n vch)) OR push_bit (8 * n) (uint (vch ! n))"
    by simp
  also have "\<dots> = int (le_val (take n vch)) + uint (vch ! n) * 2 ^ (8 * n)"
    using lt by (intro int_or_push_bit) simp_all
  also have "\<dots> = int (le_val (take (Suc n) vch))"
    using Suc.prems by (simp add: take_Suc_conv_app_nth le_val_append power_mult)
  finally show ?case .
qed

lemma le_val_snoc: "le_val (xs @ [b]) = le_val xs + 256 ^ length xs * unat b"
  by (simp add: le_val_append)

text \<open>The magnitude bits of a non-empty encoding and its sign bit, read off the last byte.\<close>

lemma set_vch_snoc:
  "set_vch (xs @ [b]) =
     (if 0x80 \<le> unat b then - int (le_val xs + 256 ^ length xs * (unat b - 0x80))
      else int (le_val xs + 256 ^ length xs * unat b))"
proof -
  let ?v = "int (le_val (xs @ [b]))"
  have r: "foldl (\<lambda>r i. r OR push_bit (8 * i) (uint ((xs @ [b]) ! i))) 0 [0..<length (xs @ [b])] = ?v"
    using bytes_or_le_val [of "length (xs @ [b])" "xs @ [b]"] by simp
  show ?thesis
  proof (cases "0x80 \<le> unat b")
    case False
    then show ?thesis
      unfolding set_vch_def r by (simp add: u8_and_80_eq_0 le_val_snoc)
  next
    case True
    let ?k = "8 * length xs"
    have pow: "(2::int) ^ ?k = 256 ^ length xs" by (simp add: power_mult)
    have v: "?v = int (le_val xs) + 256 ^ length xs * int (unat b)" by (simp add: le_val_snoc)
    have "le_val xs < 256 ^ length xs" by (rule le_val_less)
    then have "int (le_val xs) < 256 ^ length xs"
      by (metis of_nat_less_iff of_nat_power of_nat_numeral)
    then have "?v div 2 ^ ?k = int (unat b)" unfolding v pow by simp
    moreover have "unat b div 128 = 1" using True unat_u8_less [of b] by (intro div_nat_eqI) simp_all
    then have "int (unat b) div 128 = 1" by (metis of_nat_1 of_nat_numeral zdiv_int)
    ultimately have "?v div 2 ^ (?k + 7) = 1"
      unfolding power_add by (subst zdiv_zmult2_eq) simp_all
    then have "bit ?v (?k + 7)" unfolding bit_iff_odd by simp
    then have "?v AND NOT (push_bit (?k + 7) 1) = ?v - 2 ^ (?k + 7)"
      by (rule int_and_not_push_bit)
    moreover have "push_bit ?k (0x80 :: int) = push_bit (?k + 7) 1"
      by (simp add: push_bit_eq_mult power_add)
    ultimately have "?v AND NOT (push_bit ?k 0x80) = ?v - 256 ^ length xs * 128"
      unfolding power_add pow by simp
    also have "\<dots> = int (le_val xs + 256 ^ length xs * (unat b - 0x80))"
    proof -
      from True obtain m where m: "unat b = 0x80 + m" by (metis le_add_diff_inverse)
      show ?thesis unfolding v m by (simp add: algebra_simps)
    qed
    finally show ?thesis using True unfolding set_vch_def r by (simp add: u8_and_80_eq_0)
  qed
qed

section \<open>The encoder\<close>

lemma absvalue_bytes_0 [simp]: "absvalue_bytes 0 = []"
  by (simp add: absvalue_bytes.simps)

lemma absvalue_bytes_eq_Nil_iff [simp]: "absvalue_bytes n = [] \<longleftrightarrow> n = 0"
  by (simp add: absvalue_bytes.simps [of n])

lemma le_val_absvalue_bytes [simp]: "le_val (absvalue_bytes n) = n"
proof (induction n rule: absvalue_bytes.induct)
  case (1 n)
  then show ?case by (cases "n = 0") (simp_all add: absvalue_bytes.simps [of n])
qed

lemma last_absvalue_bytes: "n \<noteq> 0 \<Longrightarrow> last (absvalue_bytes n) \<noteq> 0"
proof (induction n rule: absvalue_bytes.induct)
  case (1 n)
  show ?case
  proof (cases "n div 256 = 0")
    case True
    then have "n < 256" by (simp add: div_eq_0_iff)
    with 1 have "unat (word_of_nat (n mod 256) :: u8) \<noteq> 0" by (simp add: unat_of_nat)
    then have "(word_of_nat (n mod 256) :: u8) \<noteq> 0" by (metis unat_0)
    with 1 True show ?thesis by (simp add: absvalue_bytes.simps [of n])
  next
    case False
    with 1 show ?thesis by (simp add: absvalue_bytes.simps [of n])
  qed
qed

lemma absvalue_bytes_le_val: "bs \<noteq> [] \<Longrightarrow> last bs \<noteq> 0 \<Longrightarrow> absvalue_bytes (le_val bs) = bs"
proof (induction bs)
  case Nil
  then show ?case by simp
next
  case (Cons b bs)
  have mod: "(unat b + 256 * le_val bs) mod 256 = unat b" by simp
  have div: "(unat b + 256 * le_val bs) div 256 = le_val bs" by simp
  have "absvalue_bytes (le_val bs) = bs"
  proof (cases "bs = []")
    case False
    with Cons show ?thesis by simp
  qed simp
  moreover have "le_val (b # bs) \<noteq> 0"
  proof (cases "bs = []")
    case True
    with Cons.prems show ?thesis by (simp add: unat_eq_zero)
  next
    case False
    with \<open>absvalue_bytes (le_val bs) = bs\<close> have "le_val bs \<noteq> 0" by (metis absvalue_bytes_0)
    then show ?thesis by simp
  qed
  ultimately show ?case
    unfolding absvalue_bytes.simps [of "le_val (b # bs)"] by (simp add: mod div)
qed

lemma absvalue_bytes_snocE:
  assumes "n \<noteq> 0"
  obtains xs b where "absvalue_bytes n = xs @ [b]" and "b \<noteq> 0"
    and "n = le_val xs + 256 ^ length xs * unat b"
proof -
  from assms have "absvalue_bytes n \<noteq> []" by simp
  then obtain xs b where eq: "absvalue_bytes n = xs @ [b]" by (metis append_butlast_last_id)
  moreover have "b \<noteq> 0" using last_absvalue_bytes [OF assms] by (simp add: eq)
  moreover have "n = le_val xs + 256 ^ length xs * unat b"
    using le_val_absvalue_bytes [of n] by (simp add: eq le_val_snoc)
  ultimately show thesis by (rule that)
qed

lemma serialize_num_0 [simp]: "serialize_num 0 = []"
  by (simp add: serialize_num_def)

lemma serialize_num_snoc:
  assumes "v \<noteq> 0" and "absvalue_bytes (nat \<bar>v\<bar>) = xs @ [b]"
  shows "serialize_num v =
    (if 0x80 \<le> unat b then xs @ [b] @ [if v < 0 then 0x80 else 0]
     else if v < 0 then xs @ [b OR 0x80] else xs @ [b])"
  using assms by (auto simp: serialize_num_def Let_def u8_and_80_eq_0)

text \<open>Decoding an encoded number gives it back, whatever its size.\<close>

lemma set_vch_serialize: "set_vch (serialize_num v) = v"
proof (cases "v = 0")
  case True
  then show ?thesis by (simp add: set_vch_def)
next
  case False
  then have "nat \<bar>v\<bar> \<noteq> 0" by simp
  then obtain xs b where eq: "absvalue_bytes (nat \<bar>v\<bar>) = xs @ [b]"
      and n: "nat \<bar>v\<bar> = le_val xs + 256 ^ length xs * unat b"
    by (rule absvalue_bytes_snocE)
  have v: "v = (if v < 0 then - int (nat \<bar>v\<bar>) else int (nat \<bar>v\<bar>))" by simp
  consider "0x80 \<le> unat b" | "unat b < 0x80" "v < 0" | "unat b < 0x80" "\<not> v < 0" by linarith
  then show ?thesis
  proof cases
    case 1
    with serialize_num_snoc [OF False eq]
    have "serialize_num v = (xs @ [b]) @ [if v < 0 then 0x80 else 0]" by simp
    then have "set_vch (serialize_num v) = (if v < 0 then - int (nat \<bar>v\<bar>) else int (nat \<bar>v\<bar>))"
      by (simp only: set_vch_snoc n le_val_snoc) simp
    with v show ?thesis by simp
  next
    case 2
    with serialize_num_snoc [OF False eq] have "serialize_num v = xs @ [b OR 0x80]" by simp
    then have "set_vch (serialize_num v) = - int (nat \<bar>v\<bar>)"
      using 2(1) by (simp only: set_vch_snoc n unat_u8_or_80) simp
    with v 2 show ?thesis by simp
  next
    case 3
    with serialize_num_snoc [OF False eq] have "serialize_num v = xs @ [b]" by simp
    then have "set_vch (serialize_num v) = int (nat \<bar>v\<bar>)"
      using 3(1) by (simp only: set_vch_snoc n) simp
    with v 3 show ?thesis by simp
  qed
qed

text \<open>The minimality test of the decoder accepts every encoding the encoder makes.\<close>

lemma CScriptNum_serialize:
  assumes "length (serialize_num v) \<le> k"
  shows "CScriptNum (serialize_num v) fRequireMinimal k = Some v"
proof -
  have "\<not> (last vch AND 0x7f = 0 \<and> (length vch \<le> 1 \<or> vch ! (length vch - 2) AND 0x80 = 0))"
    if ne: "v \<noteq> 0" and vch: "vch = serialize_num v" for vch
  proof -
    from ne have "nat \<bar>v\<bar> \<noteq> 0" by simp
    then obtain xs b where eq: "absvalue_bytes (nat \<bar>v\<bar>) = xs @ [b]" and "b \<noteq> 0"
      by (rule absvalue_bytes_snocE)
    from \<open>b \<noteq> 0\<close> have b0: "unat b \<noteq> 0" by (simp add: unat_eq_zero)
    show ?thesis
    proof (cases "0x80 \<le> unat b")
      case True
      with serialize_num_snoc [OF ne eq] vch
      have "vch = xs @ [b] @ [if v < 0 then 0x80 else 0]" by simp
      with True show ?thesis by (simp add: nth_append u8_and_80_eq_0)
    next
      case False
      with serialize_num_snoc [OF ne eq] vch
      have "vch = xs @ [if v < 0 then b OR 0x80 else b]" by simp
      moreover have "unat ((if v < 0 then b OR 0x80 else b) AND 0x7f) = unat b"
        using False by (simp add: unat_u8_and_7f unat_u8_or_80)
      ultimately show ?thesis using b0 by (metis last_snoc unat_0)
    qed
  qed
  then show ?thesis using assms
    by (cases "v = 0") (auto simp: CScriptNum_def set_vch_serialize)
qed

lemma u8_sign_split:
  fixes b :: u8
  shows "0x80 \<le> unat b \<Longrightarrow> word_of_nat (unat b mod 128) OR 0x80 = b"
    and "unat b < 0x80 \<Longrightarrow> word_of_nat (unat b mod 128) = b"
proof -
  define m where "m = unat b mod 128"
  have m: "m < 128" by (simp add: m_def)
  then have w: "unat (word_of_nat m :: u8) = m" by (simp add: unat_of_nat)
  show "word_of_nat (unat b mod 128) OR 0x80 = b" if "0x80 \<le> unat b"
  proof -
    from that have "unat b = m + 0x80" using mod_128_high [OF that unat_u8_less] by (simp add: m_def)
    then show ?thesis
      using m w unat_u8_or_80 [of "word_of_nat m"] unfolding m_def [symmetric] word_unat_eq_iff by simp
  qed
  show "word_of_nat (unat b mod 128) = b" if "unat b < 0x80"
    unfolding mod_less [OF that] by simp
qed

text \<open>Conversely, with \<open>fRequireMinimal\<close> nothing but the encoder's output is accepted.\<close>

lemma CScriptNum_minimal:
  assumes "CScriptNum vch True k = Some v"
  shows "vch = serialize_num v"
proof (cases vch rule: rev_cases)
  case Nil
  with assms show ?thesis by (simp add: CScriptNum_def set_vch_def split: if_splits)
next
  case (snoc xs b)
  define m where "m = unat b mod 128"
  have m128: "m < 128" by (simp add: m_def)
  define n where "n = le_val xs + 256 ^ length xs * m"
  from assms snoc have "v = set_vch (xs @ [b])" by (simp add: CScriptNum_def split: if_split_asm)
  moreover have "unat b - 0x80 = m" if "0x80 \<le> unat b"
    using mod_128_high [OF that unat_u8_less] unfolding m_def by linarith
  moreover have "unat b = m" if "\<not> 0x80 \<le> unat b"
    using that by (simp add: m_def)
  ultimately have v: "v = (if 0x80 \<le> unat b then - int n else int n)"
    unfolding set_vch_snoc n_def by (metis (full_types))
  have w: "unat (word_of_nat m :: u8) = m" using m128 by (simp add: unat_of_nat)
  show ?thesis
  proof (cases "m = 0")
    case False
    then have "(word_of_nat m :: u8) \<noteq> 0" using w by (metis unat_0)
    moreover have "n = le_val (xs @ [word_of_nat m])" by (simp add: n_def le_val_snoc w)
    ultimately have abs: "absvalue_bytes n = xs @ [word_of_nat m]"
      by (simp add: absvalue_bytes_le_val)
    then have n0: "n \<noteq> 0" by (metis absvalue_bytes_0 snoc_eq_iff_butlast)
    show ?thesis
    proof (cases "0x80 \<le> unat b")
      case True
      with v n0 abs have "serialize_num v = xs @ [word_of_nat m OR 0x80]"
        using serialize_num_snoc [of v xs "word_of_nat m"] m128 w by simp
      then show ?thesis using snoc u8_sign_split(1) [OF True] by (simp add: m_def)
    next
      case False
      with v n0 abs have "serialize_num v = xs @ [word_of_nat m]"
        using serialize_num_snoc [of v xs "word_of_nat m"] m128 w by simp
      then show ?thesis using snoc u8_sign_split(2) [of b] False by (simp add: m_def)
    qed
  next
    case True
    then have "b AND 0x7f = 0" by (simp add: word_unat_eq_iff unat_u8_and_7f m_def)
    with assms snoc have xs: "xs \<noteq> []" "(xs @ [b]) ! (length xs - 1) AND 0x80 \<noteq> 0"
      by (auto simp: CScriptNum_def split: if_splits)
    then obtain ys c where c: "xs = ys @ [c]" "0x80 \<le> unat c"
      by (cases xs rule: rev_cases) (auto simp: nth_append u8_and_80_eq_0)
    then have "c \<noteq> 0" by auto
    with c True have abs: "absvalue_bytes n = ys @ [c]"
      by (simp add: n_def absvalue_bytes_le_val)
    then have n0: "n \<noteq> 0" by (metis absvalue_bytes_0 snoc_eq_iff_butlast)
    have "b = (if v < 0 then 0x80 else 0)"
    proof (cases "0x80 \<le> unat b")
      case b: True
      then have "b = 0x80" using u8_sign_split(1) [OF b] True by (simp add: m_def)
      with v b n0 show ?thesis by simp
    next
      case b: False
      with True have "unat b = 0" by (simp add: m_def)
      then have "b = 0" by (simp add: unat_eq_zero)
      with v b show ?thesis by simp
    qed
    moreover have "serialize_num v = (ys @ [c]) @ [if v < 0 then 0x80 else 0]"
      using serialize_num_snoc [of v ys c] v n0 abs c by (simp split: if_splits)
    ultimately show ?thesis using snoc c by simp
  qed
qed

text \<open>Sizes: \<open>k\<close> bytes carry the magnitudes below \<open>128 * 256 ^ (k - 1)\<close>, and these need no more than \<open>k\<close> bytes.\<close>

lemma set_vch_bound:
  assumes "length vch \<le> Suc k"
  shows "\<bar>set_vch vch\<bar> < 128 * 256 ^ k"
proof (cases vch rule: rev_cases)
  case Nil
  then show ?thesis by (simp add: set_vch_def)
next
  case (snoc xs b)
  define m where "m = (if 0x80 \<le> unat b then unat b - 0x80 else unat b)"
  have "unat b < 256" by (rule unat_u8_less)
  then have m: "m \<le> 127" unfolding m_def by (simp only: split: if_split) linarith
  have "set_vch vch = (if 0x80 \<le> unat b then - int (le_val xs + 256 ^ length xs * m)
      else int (le_val xs + 256 ^ length xs * m))"
    unfolding snoc set_vch_snoc m_def by (simp only: split: if_split) auto
  then have "\<bar>set_vch vch\<bar> = int (le_val xs + 256 ^ length xs * m)"
    by (simp only: abs_minus_cancel abs_of_nat split: if_split) simp
  also have "\<dots> < int (128 * 256 ^ length xs)"
  proof -
    have "256 ^ length xs * m \<le> 256 ^ length xs * 127" using m by simp
    with le_val_less [of xs] have "le_val xs + 256 ^ length xs * m < 128 * 256 ^ length xs" by linarith
    then show ?thesis by (simp only: of_nat_less_iff)
  qed
  also have "\<dots> \<le> 128 * 256 ^ k"
  proof -
    have "(256::int) ^ length xs \<le> 256 ^ k" using assms snoc by (intro power_increasing) simp_all
    then show ?thesis by simp
  qed
  finally show ?thesis .
qed

lemma length_absvalue_bytes: "n < 256 ^ k \<Longrightarrow> length (absvalue_bytes n) \<le> k"
proof (induction n arbitrary: k rule: absvalue_bytes.induct)
  case (1 n)
  show ?case
  proof (cases "n = 0")
    case False
    with "1.prems" obtain j where k: "k = Suc j" by (cases k) auto
    with "1.prems" have "n div 256 < 256 ^ j" by (simp add: less_mult_imp_div_less mult.commute)
    with "1.IH" [OF False, of j] False k show ?thesis by (simp add: absvalue_bytes.simps [of n])
  qed simp
qed

lemma set_vch64_of_int: "set_vch64 vch = of_int (set_vch vch)"
proof -
  have step: "of_int k OR push_bit (8 * i) (ucast b) = (of_int (k OR push_bit (8 * i) (uint b)) :: 64 word)" for k i and b :: u8
    by (simp add: of_int_or_eq of_int_push_bit)
  have "foldl (\<lambda>r i. r OR push_bit (8 * i) (ucast (vch ! i))) (of_int k) xs
      = (of_int (foldl (\<lambda>r i. r OR push_bit (8 * i) (uint (vch ! i))) k xs) :: 64 word)" for k xs
    by (induction xs arbitrary: k) (simp_all add: step)
  from this [of 0] show ?thesis
    by (simp add: set_vch64_def set_vch_def Let_def of_int_and_eq of_int_not_eq of_int_push_bit)
qed

lemma set_vch64_value: "length vch \<le> 8 \<Longrightarrow> sint (set_vch64 vch) = set_vch vch"
  using set_vch_bound [of vch 7] by (simp add: set_vch64_of_int signed_of_int signed_take_bit_int_eq_self)

lemma length_serialize_num:
  assumes "\<bar>v\<bar> < 128 * 256 ^ k"
  shows "length (serialize_num v) \<le> Suc k"
proof (cases "v = 0")
  case False
  define n where "n = nat \<bar>v\<bar>"
  from assms have n: "n < 128 * 256 ^ k" by (simp add: n_def nat_less_iff)
  from False obtain xs b where eq: "absvalue_bytes n = xs @ [b]" and b: "b \<noteq> 0"
      and nv: "n = le_val xs + 256 ^ length xs * unat b"
    using absvalue_bytes_snocE [of n] by (auto simp: n_def)
  have ser: "length (serialize_num v) = Suc (length xs) + (if 0x80 \<le> unat b then 1 else 0)"
    using serialize_num_snoc [OF False eq [unfolded n_def]] by simp
  have "n < 256 ^ Suc k" using n by simp
  then have "Suc (length xs) \<le> Suc k" using length_absvalue_bytes [of n "Suc k"] eq by simp
  moreover have "length xs \<noteq> k" if "0x80 \<le> unat b"
  proof
    assume "length xs = k"
    then have "128 * 256 ^ k \<le> n" using that unfolding nv by (simp add: trans_le_add2)
    with n show False by simp
  qed
  ultimately show ?thesis using ser by auto
qed simp

text \<open>The default four-byte operands and the sums, differences and negations the interpreter forms.\<close>

lemma CScriptNum_range:
  "CScriptNum vch fRequireMinimal 4 = Some v \<Longrightarrow> \<bar>v\<bar> \<le> 2 ^ 31 - 1"
  "CScriptNum vch fRequireMinimal 5 = Some v \<Longrightarrow> \<bar>v\<bar> \<le> 2 ^ 39 - 1"
  using set_vch_bound [of vch 3] set_vch_bound [of vch 4]
  by (auto simp: CScriptNum_def split: if_splits)

lemma num_ops_defined:
  assumes "\<bar>v\<bar> \<le> 2 ^ 31 - 1"
  shows "num_add_assign v 1 = Some (v + 1)" "num_sub_assign v 1 = Some (v - 1)" "num_neg v = Some (- v)"
  using assms by (auto simp: num_add_assign_def num_sub_assign_def num_neg_def)

section \<open>Properties\<close>

text \<open>C30: Script numbers have one minimal encoding. With minimality required and a limit of at most eight bytes, a byte
  vector is accepted exactly when it is the encoding \<open>serialize\<close> gives its value and is no longer than the limit; and
  the value is the one computed in 64 bits.\<close>

theorem scriptnum_canonical:
  assumes "k \<le> 8"
  shows "(CScriptNum vch True k = Some v \<longleftrightarrow> vch = serialize_num v \<and> length vch \<le> k)
    \<and> (CScriptNum vch True k = Some v \<longrightarrow> sint (set_vch64 vch) = v)"
  using CScriptNum_minimal [of vch k v] CScriptNum_serialize [of v k True] set_vch64_value [of vch] assms
  by (auto simp: CScriptNum_def split: if_splits)

theorem scriptnum_canonical_witness:
  "CScriptNum [0xff, 0] True 4 = Some 255 \<and> [0xff, 0] = serialize_num 255 \<and> sint (set_vch64 [0xff, 0]) = 255"
proof -
  have "CScriptNum [0xff, 0] True 4 = Some 255" by code_simp
  moreover have "(4 :: nat) \<le> 8" by simp
  ultimately show ?thesis using scriptnum_canonical [of 4 "[0xff, 0]" 255] by blast
qed

end
