(* ===== verification/Script.thy ===== *)
theory Script
  imports ScriptNum
begin

unbundle bit_operations_syntax

text \<open>
  \<open>CScript\<close> of \<open>src/src/script/script.h\<close> and \<open>script.cpp\<close>: the opcodes, the instruction decoder \<open>GetOp2\<close>,
  the builders, and the predicates the consensus code asks of a script (its template, its signature
  operation count, whether it is an asset script). A script is its byte string and a \<open>const_iterator\<close> into
  it is the suffix of bytes from there to \<open>end()\<close>; \<open>end() - pc\<close> is the length of the suffix. An opcode is a
  byte, as the enumeration \<open>opcodetype\<close> is a set of byte values.
\<close>

section \<open>Opcodes\<close>

abbreviation OP_0 :: u8 where "OP_0 \<equiv> 0x00"
abbreviation OP_FALSE :: u8 where "OP_FALSE \<equiv> OP_0"
abbreviation OP_PUSHDATA1 :: u8 where "OP_PUSHDATA1 \<equiv> 0x4c"
abbreviation OP_PUSHDATA2 :: u8 where "OP_PUSHDATA2 \<equiv> 0x4d"
abbreviation OP_PUSHDATA4 :: u8 where "OP_PUSHDATA4 \<equiv> 0x4e"
abbreviation OP_1NEGATE :: u8 where "OP_1NEGATE \<equiv> 0x4f"
abbreviation OP_RESERVED :: u8 where "OP_RESERVED \<equiv> 0x50"
abbreviation OP_1 :: u8 where "OP_1 \<equiv> 0x51"
abbreviation OP_TRUE :: u8 where "OP_TRUE \<equiv> OP_1"
abbreviation OP_2 :: u8 where "OP_2 \<equiv> 0x52"
abbreviation OP_3 :: u8 where "OP_3 \<equiv> 0x53"
abbreviation OP_4 :: u8 where "OP_4 \<equiv> 0x54"
abbreviation OP_5 :: u8 where "OP_5 \<equiv> 0x55"
abbreviation OP_6 :: u8 where "OP_6 \<equiv> 0x56"
abbreviation OP_7 :: u8 where "OP_7 \<equiv> 0x57"
abbreviation OP_8 :: u8 where "OP_8 \<equiv> 0x58"
abbreviation OP_9 :: u8 where "OP_9 \<equiv> 0x59"
abbreviation OP_10 :: u8 where "OP_10 \<equiv> 0x5a"
abbreviation OP_11 :: u8 where "OP_11 \<equiv> 0x5b"
abbreviation OP_12 :: u8 where "OP_12 \<equiv> 0x5c"
abbreviation OP_13 :: u8 where "OP_13 \<equiv> 0x5d"
abbreviation OP_14 :: u8 where "OP_14 \<equiv> 0x5e"
abbreviation OP_15 :: u8 where "OP_15 \<equiv> 0x5f"
abbreviation OP_16 :: u8 where "OP_16 \<equiv> 0x60"
abbreviation OP_NOP :: u8 where "OP_NOP \<equiv> 0x61"
abbreviation OP_VER :: u8 where "OP_VER \<equiv> 0x62"
abbreviation OP_IF :: u8 where "OP_IF \<equiv> 0x63"
abbreviation OP_NOTIF :: u8 where "OP_NOTIF \<equiv> 0x64"
abbreviation OP_VERIF :: u8 where "OP_VERIF \<equiv> 0x65"
abbreviation OP_VERNOTIF :: u8 where "OP_VERNOTIF \<equiv> 0x66"
abbreviation OP_ELSE :: u8 where "OP_ELSE \<equiv> 0x67"
abbreviation OP_ENDIF :: u8 where "OP_ENDIF \<equiv> 0x68"
abbreviation OP_VERIFY :: u8 where "OP_VERIFY \<equiv> 0x69"
abbreviation OP_RETURN :: u8 where "OP_RETURN \<equiv> 0x6a"
abbreviation OP_TOALTSTACK :: u8 where "OP_TOALTSTACK \<equiv> 0x6b"
abbreviation OP_FROMALTSTACK :: u8 where "OP_FROMALTSTACK \<equiv> 0x6c"
abbreviation OP_2DROP :: u8 where "OP_2DROP \<equiv> 0x6d"
abbreviation OP_2DUP :: u8 where "OP_2DUP \<equiv> 0x6e"
abbreviation OP_3DUP :: u8 where "OP_3DUP \<equiv> 0x6f"
abbreviation OP_2OVER :: u8 where "OP_2OVER \<equiv> 0x70"
abbreviation OP_2ROT :: u8 where "OP_2ROT \<equiv> 0x71"
abbreviation OP_2SWAP :: u8 where "OP_2SWAP \<equiv> 0x72"
abbreviation OP_IFDUP :: u8 where "OP_IFDUP \<equiv> 0x73"
abbreviation OP_DEPTH :: u8 where "OP_DEPTH \<equiv> 0x74"
abbreviation OP_DROP :: u8 where "OP_DROP \<equiv> 0x75"
abbreviation OP_DUP :: u8 where "OP_DUP \<equiv> 0x76"
abbreviation OP_NIP :: u8 where "OP_NIP \<equiv> 0x77"
abbreviation OP_OVER :: u8 where "OP_OVER \<equiv> 0x78"
abbreviation OP_PICK :: u8 where "OP_PICK \<equiv> 0x79"
abbreviation OP_ROLL :: u8 where "OP_ROLL \<equiv> 0x7a"
abbreviation OP_ROT :: u8 where "OP_ROT \<equiv> 0x7b"
abbreviation OP_SWAP :: u8 where "OP_SWAP \<equiv> 0x7c"
abbreviation OP_TUCK :: u8 where "OP_TUCK \<equiv> 0x7d"
abbreviation OP_CAT :: u8 where "OP_CAT \<equiv> 0x7e"
abbreviation OP_SUBSTR :: u8 where "OP_SUBSTR \<equiv> 0x7f"
abbreviation OP_LEFT :: u8 where "OP_LEFT \<equiv> 0x80"
abbreviation OP_RIGHT :: u8 where "OP_RIGHT \<equiv> 0x81"
abbreviation OP_SIZE :: u8 where "OP_SIZE \<equiv> 0x82"
abbreviation OP_INVERT :: u8 where "OP_INVERT \<equiv> 0x83"
abbreviation OP_AND :: u8 where "OP_AND \<equiv> 0x84"
abbreviation OP_OR :: u8 where "OP_OR \<equiv> 0x85"
abbreviation OP_XOR :: u8 where "OP_XOR \<equiv> 0x86"
abbreviation OP_EQUAL :: u8 where "OP_EQUAL \<equiv> 0x87"
abbreviation OP_EQUALVERIFY :: u8 where "OP_EQUALVERIFY \<equiv> 0x88"
abbreviation OP_RESERVED1 :: u8 where "OP_RESERVED1 \<equiv> 0x89"
abbreviation OP_RESERVED2 :: u8 where "OP_RESERVED2 \<equiv> 0x8a"
abbreviation OP_1ADD :: u8 where "OP_1ADD \<equiv> 0x8b"
abbreviation OP_1SUB :: u8 where "OP_1SUB \<equiv> 0x8c"
abbreviation OP_2MUL :: u8 where "OP_2MUL \<equiv> 0x8d"
abbreviation OP_2DIV :: u8 where "OP_2DIV \<equiv> 0x8e"
abbreviation OP_NEGATE :: u8 where "OP_NEGATE \<equiv> 0x8f"
abbreviation OP_ABS :: u8 where "OP_ABS \<equiv> 0x90"
abbreviation OP_NOT :: u8 where "OP_NOT \<equiv> 0x91"
abbreviation OP_0NOTEQUAL :: u8 where "OP_0NOTEQUAL \<equiv> 0x92"
abbreviation OP_ADD :: u8 where "OP_ADD \<equiv> 0x93"
abbreviation OP_SUB :: u8 where "OP_SUB \<equiv> 0x94"
abbreviation OP_MUL :: u8 where "OP_MUL \<equiv> 0x95"
abbreviation OP_DIV :: u8 where "OP_DIV \<equiv> 0x96"
abbreviation OP_MOD :: u8 where "OP_MOD \<equiv> 0x97"
abbreviation OP_LSHIFT :: u8 where "OP_LSHIFT \<equiv> 0x98"
abbreviation OP_RSHIFT :: u8 where "OP_RSHIFT \<equiv> 0x99"
abbreviation OP_BOOLAND :: u8 where "OP_BOOLAND \<equiv> 0x9a"
abbreviation OP_BOOLOR :: u8 where "OP_BOOLOR \<equiv> 0x9b"
abbreviation OP_NUMEQUAL :: u8 where "OP_NUMEQUAL \<equiv> 0x9c"
abbreviation OP_NUMEQUALVERIFY :: u8 where "OP_NUMEQUALVERIFY \<equiv> 0x9d"
abbreviation OP_NUMNOTEQUAL :: u8 where "OP_NUMNOTEQUAL \<equiv> 0x9e"
abbreviation OP_LESSTHAN :: u8 where "OP_LESSTHAN \<equiv> 0x9f"
abbreviation OP_GREATERTHAN :: u8 where "OP_GREATERTHAN \<equiv> 0xa0"
abbreviation OP_LESSTHANOREQUAL :: u8 where "OP_LESSTHANOREQUAL \<equiv> 0xa1"
abbreviation OP_GREATERTHANOREQUAL :: u8 where "OP_GREATERTHANOREQUAL \<equiv> 0xa2"
abbreviation OP_MIN :: u8 where "OP_MIN \<equiv> 0xa3"
abbreviation OP_MAX :: u8 where "OP_MAX \<equiv> 0xa4"
abbreviation OP_WITHIN :: u8 where "OP_WITHIN \<equiv> 0xa5"
abbreviation OP_RIPEMD160 :: u8 where "OP_RIPEMD160 \<equiv> 0xa6"
abbreviation OP_SHA1 :: u8 where "OP_SHA1 \<equiv> 0xa7"
abbreviation OP_SHA256 :: u8 where "OP_SHA256 \<equiv> 0xa8"
abbreviation OP_HASH160 :: u8 where "OP_HASH160 \<equiv> 0xa9"
abbreviation OP_HASH256 :: u8 where "OP_HASH256 \<equiv> 0xaa"
abbreviation OP_CODESEPARATOR :: u8 where "OP_CODESEPARATOR \<equiv> 0xab"
abbreviation OP_CHECKSIG :: u8 where "OP_CHECKSIG \<equiv> 0xac"
abbreviation OP_CHECKSIGVERIFY :: u8 where "OP_CHECKSIGVERIFY \<equiv> 0xad"
abbreviation OP_CHECKMULTISIG :: u8 where "OP_CHECKMULTISIG \<equiv> 0xae"
abbreviation OP_CHECKMULTISIGVERIFY :: u8 where "OP_CHECKMULTISIGVERIFY \<equiv> 0xaf"
abbreviation OP_NOP1 :: u8 where "OP_NOP1 \<equiv> 0xb0"
abbreviation OP_CHECKLOCKTIMEVERIFY :: u8 where "OP_CHECKLOCKTIMEVERIFY \<equiv> 0xb1"
abbreviation OP_NOP2 :: u8 where "OP_NOP2 \<equiv> OP_CHECKLOCKTIMEVERIFY"
abbreviation OP_CHECKSEQUENCEVERIFY :: u8 where "OP_CHECKSEQUENCEVERIFY \<equiv> 0xb2"
abbreviation OP_NOP3 :: u8 where "OP_NOP3 \<equiv> OP_CHECKSEQUENCEVERIFY"
abbreviation OP_NOP4 :: u8 where "OP_NOP4 \<equiv> 0xb3"
abbreviation OP_NOP5 :: u8 where "OP_NOP5 \<equiv> 0xb4"
abbreviation OP_NOP6 :: u8 where "OP_NOP6 \<equiv> 0xb5"
abbreviation OP_NOP7 :: u8 where "OP_NOP7 \<equiv> 0xb6"
abbreviation OP_NOP8 :: u8 where "OP_NOP8 \<equiv> 0xb7"
abbreviation OP_NOP9 :: u8 where "OP_NOP9 \<equiv> 0xb8"
abbreviation OP_NOP10 :: u8 where "OP_NOP10 \<equiv> 0xb9"
abbreviation OP_HVN_ASSET :: u8 where "OP_HVN_ASSET \<equiv> 0xc0"
abbreviation OP_SMALLINTEGER :: u8 where "OP_SMALLINTEGER \<equiv> 0xfa"
abbreviation OP_PUBKEYS :: u8 where "OP_PUBKEYS \<equiv> 0xfb"
abbreviation OP_PUBKEYHASH :: u8 where "OP_PUBKEYHASH \<equiv> 0xfd"
abbreviation OP_PUBKEY :: u8 where "OP_PUBKEY \<equiv> 0xfe"
abbreviation OP_INVALIDOPCODE :: u8 where "OP_INVALIDOPCODE \<equiv> 0xff"

abbreviation MAX_SCRIPT_ELEMENT_SIZE :: nat where "MAX_SCRIPT_ELEMENT_SIZE \<equiv> 520"
abbreviation MAX_OPS_PER_SCRIPT :: nat where "MAX_OPS_PER_SCRIPT \<equiv> 201"
abbreviation MAX_PUBKEYS_PER_MULTISIG :: nat where "MAX_PUBKEYS_PER_MULTISIG \<equiv> 20"
abbreviation MAX_SCRIPT_SIZE :: nat where "MAX_SCRIPT_SIZE \<equiv> 10000"
abbreviation MAX_STACK_SIZE :: nat where "MAX_STACK_SIZE \<equiv> 1000"
abbreviation MAX_OPCODE :: u8 where "MAX_OPCODE \<equiv> OP_NOP10"

section \<open>Decoding one instruction\<close>

text \<open>
  What \<open>GetOp2\<close> leaves behind: its result, the instruction, the operand and the position of the iterator,
  which has moved past what was read also when the instruction turns out to be truncated.
\<close>

record getop =
  op_ok :: bool
  opcodeRet :: u8
  vchRet :: bytes
  op_pc :: bytes

definition getop_fail :: "bytes \<Rightarrow> getop" where
  "getop_fail pc = \<lparr>op_ok = False, opcodeRet = OP_INVALIDOPCODE, vchRet = [], op_pc = pc\<rparr>"

definition getop_size :: "u8 \<Rightarrow> bytes \<Rightarrow> (nat \<times> bytes) option" where
  "getop_size opcode pc =
     (if opcode < OP_PUSHDATA1 then Some (unat opcode, pc)
      else if opcode = OP_PUSHDATA1
        then if length pc < 1 then None else Some (unat (hd pc), drop 1 pc)
      else if opcode = OP_PUSHDATA2
        then if length pc < 2 then None else Some (le_val (take 2 pc), drop 2 pc)
      else if length pc < 4 then None else Some (le_val (take 4 pc), drop 4 pc))"

definition GetOp2 :: "bytes \<Rightarrow> getop" where
  "GetOp2 pc0 =
     (case pc0 of
        [] \<Rightarrow> getop_fail []
      | opcode # pc \<Rightarrow>
          if opcode \<le> OP_PUSHDATA4 then
            (case getop_size opcode pc of
               None \<Rightarrow> getop_fail pc
             | Some (nSize, pc) \<Rightarrow>
                 if length pc < nSize then getop_fail pc
                 else \<lparr>op_ok = True, opcodeRet = opcode, vchRet = take nSize pc, op_pc = drop nSize pc\<rparr>)
          else if opcode = OP_HVN_ASSET then
            \<lparr>op_ok = True, opcodeRet = opcode, vchRet = pc, op_pc = []\<rparr>
          else \<lparr>op_ok = True, opcodeRet = opcode, vchRet = [], op_pc = pc\<rparr>)"

lemma GetOp2_decreases: "op_ok (GetOp2 pc) \<Longrightarrow> length (op_pc (GetOp2 pc)) < length pc"
  by (auto simp: GetOp2_def getop_fail_def getop_size_def split: list.splits option.splits if_splits)

lemma GetOp2_advances: "pc \<noteq> [] \<Longrightarrow> length (op_pc (GetOp2 pc)) < length pc"
  by (auto simp: GetOp2_def getop_fail_def getop_size_def split: list.splits option.splits if_splits)

section \<open>Building scripts\<close>

definition push_data :: "bytes \<Rightarrow> bytes" where
  "push_data b =
     (if length b < unat OP_PUSHDATA1 then [word_of_nat (length b)]
      else if length b \<le> 0xff then [OP_PUSHDATA1, word_of_nat (length b)]
      else if length b \<le> 0xffff then OP_PUSHDATA2 # le_bytes 2 (length b)
      else OP_PUSHDATA4 # le_bytes 4 (length b)) @ b"

definition push_int64 :: "int \<Rightarrow> bytes" where
  "push_int64 n =
     (if n = -1 \<or> (n \<ge> 1 \<and> n \<le> 16) then [word_of_int (n + (uint OP_1 - 1))]
      else if n = 0 then [OP_0]
      else push_data (serialize_num n))"

definition DecodeOP_N :: "u8 \<Rightarrow> nat option" where
  "DecodeOP_N opcode =
     (if opcode = OP_0 then Some 0
      else if opcode \<ge> OP_1 \<and> opcode \<le> OP_16 then Some (unat opcode - unat (OP_1 - 1))
      else None)"

definition EncodeOP_N :: "int \<Rightarrow> u8 option" where
  "EncodeOP_N n =
     (if n \<ge> 0 \<and> n \<le> 16 then Some (if n = 0 then OP_0 else OP_1 + word_of_int n - 1) else None)"

section \<open>Loops over the instructions\<close>

text \<open>
  The inner loop of \<open>FindAndDelete\<close>: skip the occurrences of \<open>b\<close> at \<open>pc\<close>. The function returns early on an
  empty \<open>b\<close>, for which the loop would not end.
\<close>

definition equal_at :: "bytes \<Rightarrow> bytes \<Rightarrow> bool" where
  "equal_at b pc \<longleftrightarrow> b \<noteq> [] \<and> length b \<le> length pc \<and> take (length b) pc = b"

lemma equal_at_decreases: "equal_at b pc \<Longrightarrow> length pc - length b < length pc"
  by (cases b) (auto simp: equal_at_def)

function fad_skip :: "bytes \<Rightarrow> bytes \<Rightarrow> nat \<Rightarrow> bytes \<times> nat" where
  "fad_skip b pc nFound =
     (if equal_at b pc
      then fad_skip b (drop (length b) pc) (nFound + 1)
      else (pc, nFound))"
  by pat_completeness auto
termination
  by (relation "measure (\<lambda>(b, pc, nFound). length pc)") (auto simp: equal_at_decreases)

declare fad_skip.simps [simp del]

lemma fad_skip_length: "length (fst (fad_skip b pc nFound)) \<le> length pc"
proof (induction b pc nFound rule: fad_skip.induct)
  case (1 b pc nFound)
  then show ?case by (subst fad_skip.simps) auto
qed

function fad_loop :: "bytes \<Rightarrow> bytes \<Rightarrow> bytes \<Rightarrow> bytes \<Rightarrow> nat \<Rightarrow> bytes \<times> bytes \<times> nat" where
  "fad_loop b result pc2 pc nFound =
     (let result = result @ take (length pc2 - length pc) pc2;
          pc' = fst (fad_skip b pc nFound);
          nFound' = snd (fad_skip b pc nFound);
          r = GetOp2 pc'
      in if op_ok r then fad_loop b result pc' (op_pc r) nFound'
         else (result, pc', nFound'))"
  by pat_completeness auto
termination
proof (relation "measure (\<lambda>(b, result, pc2, pc, nFound). length pc)", goal_cases)
  case 1
  then show ?case by simp
next
  case (2 b result pc2 pc nFound res pc' nFound' r)
  then show ?case
    using GetOp2_decreases [of pc'] fad_skip_length [of b pc nFound] by simp
qed

declare fad_loop.simps [simp del]

text \<open>\<open>FindAndDelete\<close> returns the script it leaves and the number of occurrences it removed.\<close>

definition FindAndDelete :: "bytes \<Rightarrow> bytes \<Rightarrow> bytes \<times> nat" where
  "FindAndDelete script b =
     (if b = [] then (script, 0)
      else case fad_loop b [] script script 0 of
             (result, pc2, nFound) \<Rightarrow> if nFound > 0 then (result @ pc2, nFound) else (script, nFound))"

function Find_loop :: "u8 \<Rightarrow> bytes \<Rightarrow> nat \<Rightarrow> nat" where
  "Find_loop op pc nFound =
     (if pc \<noteq> [] \<and> op_ok (GetOp2 pc)
      then Find_loop op (op_pc (GetOp2 pc)) (if opcodeRet (GetOp2 pc) = op then nFound + 1 else nFound)
      else nFound)"
  by pat_completeness auto
termination
  by (relation "measure (\<lambda>(op, pc, nFound). length pc)") (auto simp: GetOp2_decreases)

definition Find :: "bytes \<Rightarrow> u8 \<Rightarrow> nat" where
  "Find script op = Find_loop op script 0"

definition sigop_inc :: "bool \<Rightarrow> u8 \<Rightarrow> u8 \<Rightarrow> nat" where
  "sigop_inc fAccurate lastOpcode opcode =
     (if opcode = OP_CHECKSIG \<or> opcode = OP_CHECKSIGVERIFY then 1
      else if opcode = OP_CHECKMULTISIG \<or> opcode = OP_CHECKMULTISIGVERIFY
      then if fAccurate \<and> lastOpcode \<ge> OP_1 \<and> lastOpcode \<le> OP_16
           then the (DecodeOP_N lastOpcode)
           else MAX_PUBKEYS_PER_MULTISIG
      else 0)"

function sigop_loop :: "bool \<Rightarrow> u8 \<Rightarrow> bytes \<Rightarrow> nat \<Rightarrow> nat" where
  "sigop_loop fAccurate lastOpcode pc n =
     (if pc = [] \<or> \<not> op_ok (GetOp2 pc) then n
      else sigop_loop fAccurate (opcodeRet (GetOp2 pc)) (op_pc (GetOp2 pc))
             (n + sigop_inc fAccurate lastOpcode (opcodeRet (GetOp2 pc))))"
  by pat_completeness auto
termination
  by (relation "measure (\<lambda>(fAccurate, lastOpcode, pc, n). length pc)") (auto simp: GetOp2_decreases)

definition GetSigOpCount :: "bytes \<Rightarrow> bool \<Rightarrow> nat" where
  "GetSigOpCount script fAccurate = sigop_loop fAccurate OP_INVALIDOPCODE script 0"

function IsPushOnly :: "bytes \<Rightarrow> bool" where
  "IsPushOnly pc =
     (if pc = [] then True
      else if \<not> op_ok (GetOp2 pc) then False
      else if opcodeRet (GetOp2 pc) > OP_16 then False
      else IsPushOnly (op_pc (GetOp2 pc)))"
  by pat_completeness auto
termination
  by (relation "measure length") (auto simp: GetOp2_decreases)

function HasValidOps :: "bytes \<Rightarrow> bool" where
  "HasValidOps it =
     (if it = [] then True
      else if \<not> op_ok (GetOp2 it) \<or> opcodeRet (GetOp2 it) > MAX_OPCODE
              \<or> length (vchRet (GetOp2 it)) > MAX_SCRIPT_ELEMENT_SIZE then False
      else HasValidOps (op_pc (GetOp2 it)))"
  by pat_completeness auto
termination
  by (relation "measure length") (auto simp: GetOp2_decreases)

declare Find_loop.simps [simp del] sigop_loop.simps [simp del]
declare IsPushOnly.simps [simp del] HasValidOps.simps [simp del]

section \<open>Templates\<close>

definition IsPayToPublicKeyHash :: "bytes \<Rightarrow> bool" where
  "IsPayToPublicKeyHash s \<longleftrightarrow>
     length s = 25 \<and> s ! 0 = OP_DUP \<and> s ! 1 = OP_HASH160 \<and> s ! 2 = 0x14
     \<and> s ! 23 = OP_EQUALVERIFY \<and> s ! 24 = OP_CHECKSIG"

definition IsPayToScriptHash :: "bytes \<Rightarrow> bool" where
  "IsPayToScriptHash s \<longleftrightarrow>
     length s = 23 \<and> s ! 0 = OP_HASH160 \<and> s ! 1 = 0x14 \<and> s ! 22 = OP_EQUAL"

definition IsPayToWitnessScriptHash :: "bytes \<Rightarrow> bool" where
  "IsPayToWitnessScriptHash s \<longleftrightarrow> length s = 34 \<and> s ! 0 = OP_0 \<and> s ! 1 = 0x20"

definition IsWitnessProgram :: "bytes \<Rightarrow> (nat \<times> bytes) option" where
  "IsWitnessProgram s =
     (if length s < 4 \<or> length s > 42 then None
      else if s ! 0 \<noteq> OP_0 \<and> (s ! 0 < OP_1 \<or> s ! 0 > OP_16) then None
      else if unat (s ! 1) + 2 = length s then Some (the (DecodeOP_N (s ! 0)), drop 2 s)
      else None)"

definition IsPayToPublicKey :: "bytes \<Rightarrow> bool" where
  "IsPayToPublicKey s \<longleftrightarrow>
     (if length s = 35 then (s ! 1 = 0x02 \<or> s ! 1 = 0x03) \<and> s ! 34 = OP_CHECKSIG
      else if length s = 67 then s ! 1 = 0x04 \<and> s ! 66 = OP_CHECKSIG
      else False)"

text \<open>
  The P2SH count: \<open>vData\<close> is the operand of the last instruction of \<open>scriptSig\<close>; \<^term>\<open>None\<close> is one of
  the two \<open>return 0\<close> inside the loop.
\<close>

function lastpush_loop :: "bytes \<Rightarrow> bytes \<Rightarrow> bytes option" where
  "lastpush_loop pc vData =
     (if pc = [] then Some vData
      else if \<not> op_ok (GetOp2 pc) then None
      else if opcodeRet (GetOp2 pc) > OP_16 then None
      else lastpush_loop (op_pc (GetOp2 pc)) (vchRet (GetOp2 pc)))"
  by pat_completeness auto
termination
  by (relation "measure (\<lambda>(pc, vData). length pc)") (auto simp: GetOp2_decreases)

declare lastpush_loop.simps [simp del]

definition GetSigOpCount_P2SH :: "bytes \<Rightarrow> bytes \<Rightarrow> nat" where
  "GetSigOpCount_P2SH script scriptSig =
     (if \<not> IsPayToScriptHash script then GetSigOpCount script True
      else case lastpush_loop scriptSig [] of
             None \<Rightarrow> 0
           | Some vData \<Rightarrow> GetSigOpCount vData True)"

section \<open>Asset scripts\<close>

datatype txnouttype =
    TX_NONSTANDARD | TX_PUBKEY | TX_PUBKEYHASH | TX_SCRIPTHASH | TX_MULTISIG | TX_NULL_DATA
  | TX_WITNESS_V0_SCRIPTHASH | TX_WITNESS_V0_KEYHASH
  | TX_NEW_ASSET | TX_REISSUE_ASSET | TX_TRANSFER_ASSET | TX_RESTRICTED_ASSET_DATA

abbreviation HVN_H :: u8 where "HVN_H \<equiv> 114"
abbreviation HVN_V :: u8 where "HVN_V \<equiv> 118"
abbreviation HVN_N :: u8 where "HVN_N \<equiv> 110"
abbreviation HVN_Q :: u8 where "HVN_Q \<equiv> 113"
abbreviation HVN_T :: u8 where "HVN_T \<equiv> 116"
abbreviation HVN_O :: u8 where "HVN_O \<equiv> 111"

text \<open>
  The three results of \<open>IsAssetScript\<close> that callers read when it returns true: the kind of asset
  operation, the owner flag (false on entry in every caller) and the index where the asset data begins.
\<close>

definition asset_marker_index :: "bytes \<Rightarrow> nat option" where
  "asset_marker_index s =
     (if s ! 27 = HVN_H
      then if s ! 28 = HVN_V \<and> s ! 29 = HVN_N then Some 30 else None
      else if s ! 28 = HVN_H \<and> s ! 29 = HVN_V \<and> s ! 30 = HVN_N then Some 31
      else None)"

definition IsAssetScript :: "bytes \<Rightarrow> (txnouttype \<times> bool \<times> nat) option" where
  "IsAssetScript s =
     (if length s > 31 \<and> s ! 25 = OP_HVN_ASSET
      then case asset_marker_index s of
             None \<Rightarrow> None
           | Some index \<Rightarrow>
               let nStartingIndex = index + 1
               in if s ! index = HVN_T then Some (TX_TRANSFER_ASSET, False, nStartingIndex)
                  else if s ! index = HVN_Q \<and> length s > 39 then Some (TX_NEW_ASSET, False, nStartingIndex)
                  else if s ! index = HVN_O then Some (TX_NEW_ASSET, True, nStartingIndex)
                  else if s ! index = HVN_H then Some (TX_REISSUE_ASSET, False, nStartingIndex)
                  else None
      else None)"

definition IsNewAsset :: "bytes \<Rightarrow> bool" where
  "IsNewAsset s = (case IsAssetScript s of
     Some (nType, fIsOwner, _) \<Rightarrow> \<not> fIsOwner \<and> nType = TX_NEW_ASSET | None \<Rightarrow> False)"

definition IsOwnerAsset :: "bytes \<Rightarrow> bool" where
  "IsOwnerAsset s = (case IsAssetScript s of
     Some (nType, fIsOwner, _) \<Rightarrow> fIsOwner \<and> nType = TX_NEW_ASSET | None \<Rightarrow> False)"

definition IsReissueAsset :: "bytes \<Rightarrow> bool" where
  "IsReissueAsset s = (case IsAssetScript s of
     Some (nType, fIsOwner, _) \<Rightarrow> nType = TX_REISSUE_ASSET | None \<Rightarrow> False)"

definition IsTransferAsset :: "bytes \<Rightarrow> bool" where
  "IsTransferAsset s = (case IsAssetScript s of
     Some (nType, fIsOwner, _) \<Rightarrow> nType = TX_TRANSFER_ASSET | None \<Rightarrow> False)"

definition IsNullAssetTxDataScript :: "bytes \<Rightarrow> bool" where
  "IsNullAssetTxDataScript s \<longleftrightarrow> length s > 23 \<and> s ! 0 = OP_HVN_ASSET \<and> s ! 1 = 0x14"

definition IsNullGlobalRestrictionAssetTxDataScript :: "bytes \<Rightarrow> bool" where
  "IsNullGlobalRestrictionAssetTxDataScript s \<longleftrightarrow>
     length s > 6 \<and> s ! 0 = OP_HVN_ASSET \<and> s ! 1 = OP_RESERVED \<and> s ! 2 = OP_RESERVED"

definition IsNullAssetVerifierTxDataScript :: "bytes \<Rightarrow> bool" where
  "IsNullAssetVerifierTxDataScript s \<longleftrightarrow>
     length s > 3 \<and> s ! 0 = OP_HVN_ASSET \<and> s ! 1 = OP_RESERVED \<and> s ! 2 \<noteq> OP_RESERVED"

definition IsNullAsset :: "bytes \<Rightarrow> bool" where
  "IsNullAsset s \<longleftrightarrow> IsNullAssetTxDataScript s \<or> IsNullGlobalRestrictionAssetTxDataScript s
     \<or> IsNullAssetVerifierTxDataScript s"

definition ScriptNewAsset :: "bytes \<Rightarrow> nat option" where
  "ScriptNewAsset scriptPubKey = (case IsAssetScript scriptPubKey of
     Some (nType, fIsOwner, nStartingIndex) \<Rightarrow>
       if nType = TX_NEW_ASSET \<and> \<not> fIsOwner then Some nStartingIndex else None
   | None \<Rightarrow> None)"

definition ScriptTransferAsset :: "bytes \<Rightarrow> nat option" where
  "ScriptTransferAsset scriptPubKey = (case IsAssetScript scriptPubKey of
     Some (nType, fIsOwner, nStartingIndex) \<Rightarrow>
       if nType = TX_TRANSFER_ASSET then Some nStartingIndex else None
   | None \<Rightarrow> None)"

definition ScriptReissueAsset :: "bytes \<Rightarrow> nat option" where
  "ScriptReissueAsset scriptPubKey = (case IsAssetScript scriptPubKey of
     Some (nType, fIsOwner, nStartingIndex) \<Rightarrow>
       if nType = TX_REISSUE_ASSET then Some nStartingIndex else None
   | None \<Rightarrow> None)"

section \<open>The decoder\<close>

lemma op_pc_suffix: "\<exists>c. pc = c @ op_pc (GetOp2 pc)"
proof (cases pc)
  case (Cons opcode rest)
  have "\<exists>c. rest = c @ snd sp" if "getop_size opcode rest = Some sp" for sp
    using that by (auto simp: getop_size_def split: if_splits intro: append_take_drop_id [symmetric])
      (metis append_take_drop_id append_Nil)+
  then show ?thesis
    using Cons by (auto simp: GetOp2_def getop_fail_def split: option.splits if_splits)
      (metis append_Cons append_assoc append_take_drop_id snd_conv)+
qed (simp add: GetOp2_def getop_fail_def)

lemma op_pc_split: "take (length pc - length (op_pc (GetOp2 pc))) pc @ op_pc (GetOp2 pc) = pc"
proof -
  have "take (length pc - length q) pc @ q = pc" if "pc = c @ q" for c q :: bytes
    using that by simp
  then show ?thesis using op_pc_suffix by blast
qed

lemma GetOp2_Nil [simp]: "op_ok (GetOp2 []) = False" "op_pc (GetOp2 []) = []" "vchRet (GetOp2 []) = []"
  by (simp_all add: GetOp2_def getop_fail_def)

lemma GetOp2_single:
  "OP_PUSHDATA4 < opcode \<Longrightarrow> opcode \<noteq> OP_HVN_ASSET \<Longrightarrow>
   GetOp2 (opcode # pc) = \<lparr>op_ok = True, opcodeRet = opcode, vchRet = [], op_pc = pc\<rparr>"
  by (simp add: GetOp2_def not_le [symmetric])

lemma length_vchRet: "length (vchRet (GetOp2 pc)) \<le> length pc"
  by (auto simp: GetOp2_def getop_fail_def getop_size_def split: list.splits option.splits if_splits)

text \<open>Whatever \<open>operator<<\<close> pushes, \<open>GetOp2\<close> reads back, and stops right after it.\<close>

definition push_opcode_of :: "bytes \<Rightarrow> u8" where
  "push_opcode_of b =
     (if length b < 0x4c then word_of_nat (length b) else if length b \<le> 0xff then OP_PUSHDATA1
      else if length b \<le> 0xffff then OP_PUSHDATA2 else OP_PUSHDATA4)"

lemma GetOp2_push_data:
  assumes "length b < 2 ^ 32"
  shows "GetOp2 (push_data b @ rest) =
           \<lparr>op_ok = True, opcodeRet = push_opcode_of b, vchRet = b, op_pc = rest\<rparr>"
proof -
  consider "length b < 0x4c" | "0x4c \<le> length b" "length b \<le> 0xff"
    | "0xff < length b" "length b \<le> 0xffff" | "0xffff < length b" by linarith
  then show ?thesis
  proof cases
    case 1
    then have "unat (word_of_nat (length b) :: u8) = length b" by (simp add: unat_of_nat)
    with 1 show ?thesis
      by (simp add: push_data_def push_opcode_of_def GetOp2_def getop_size_def word_less_nat_alt word_le_nat_alt)
  next
    case 2
    then have "unat (word_of_nat (length b) :: u8) = length b" by (simp add: unat_of_nat)
    with 2 show ?thesis
      by (simp add: push_data_def push_opcode_of_def GetOp2_def getop_size_def)
  next
    case 3
    then have "le_val (le_bytes 2 (length b)) = length b" by (intro le_val_le_bytes_small) simp
    with 3 show ?thesis
      by (simp add: push_data_def push_opcode_of_def GetOp2_def getop_size_def length_le_bytes)
  next
    case 4
    then have "le_val (le_bytes 4 (length b)) = length b" using assms by (intro le_val_le_bytes_small) simp
    with 4 show ?thesis
      by (simp add: push_data_def push_opcode_of_def GetOp2_def getop_size_def length_le_bytes)
  qed
qed

lemma push_opcode_of_le: "push_opcode_of b \<le> OP_PUSHDATA4"
  by (auto simp: push_opcode_of_def word_le_nat_alt unat_of_nat)

text \<open>The seventeen small constants, checked one by one.\<close>

lemma small_constants:
  "\<forall>k\<in>set [0..<17]. EncodeOP_N (int k) = Some (if k = 0 then 0 else word_of_nat (k + 80))
     \<and> Option.bind (EncodeOP_N (int k)) DecodeOP_N = Some k"
  by (simp add: EncodeOP_N_def DecodeOP_N_def upt_rec)

lemma DecodeOP_N_EncodeOP_N: "0 \<le> n \<Longrightarrow> n \<le> 16 \<Longrightarrow> Option.bind (EncodeOP_N n) DecodeOP_N = Some (nat n)"
proof -
  assume "0 \<le> n" "n \<le> 16"
  then have "nat n \<in> set [0..<17]" and "int (nat n) = n" by auto
  then show ?thesis using bspec [OF small_constants] by metis
qed

section \<open>\<open>FindAndDelete\<close> against its meaning\<close>

text \<open>
  The meaning: walk over the script instruction by instruction and drop \<open>b\<close> wherever it stands at an
  instruction boundary, keeping the bytes from the first undecodable instruction on.
\<close>

function fad_ref :: "bytes \<Rightarrow> bytes \<Rightarrow> bytes" where
  "fad_ref b s =
     (if equal_at b s then fad_ref b (drop (length b) s)
      else if op_ok (GetOp2 s)
        then take (length s - length (op_pc (GetOp2 s))) s @ fad_ref b (op_pc (GetOp2 s))
      else s)"
  by pat_completeness auto
termination
  by (relation "measure (\<lambda>(b, s). length s)") (auto simp: GetOp2_decreases equal_at_decreases)

declare fad_ref.simps [simp del]

lemma fad_skip_ref: "fad_ref b (fst (fad_skip b pc n)) = fad_ref b pc"
proof (induction b pc n rule: fad_skip.induct)
  case (1 b pc n)
  show ?case
  proof (cases "equal_at b pc")
    case True
    then show ?thesis
      using 1 [OF True] by (simp add: fad_skip.simps [of b pc n] fad_ref.simps [of b pc])
  qed (simp add: fad_skip.simps [of b pc n])
qed

lemma fad_skip_done:
  "\<not> equal_at b (fst (fad_skip b pc n))"
proof (induction b pc n rule: fad_skip.induct)
  case (1 b pc n)
  show ?case
  proof (cases "equal_at b pc")
    case True
    then show ?thesis using 1 [OF True] by (simp add: fad_skip.simps [of b pc n])
  qed (simp add: fad_skip.simps [of b pc n])
qed

lemma fad_skip_count:
  "length pc + n * length b = length (fst (fad_skip b pc n)) + snd (fad_skip b pc n) * length b"
proof (induction b pc n rule: fad_skip.induct)
  case (1 b pc n)
  show ?case
  proof (cases "equal_at b pc")
    case True
    then show ?thesis using 1 [OF True] by (simp add: fad_skip.simps [of b pc n] equal_at_def)
  qed (simp add: fad_skip.simps [of b pc n])
qed

lemma fad_loop_ref:
  "fad_loop b result pc2 pc n = (r, p, m) \<Longrightarrow>
     r @ p = result @ take (length pc2 - length pc) pc2 @ fad_ref b pc
     \<and> length r + length p + m * length b
         = length (result @ take (length pc2 - length pc) pc2) + length pc + n * length b"
proof (induction b result pc2 pc n arbitrary: r p m rule: fad_loop.induct)
  case (1 b result pc2 pc n)
  let ?pc' = "fst (fad_skip b pc n)" and ?n' = "snd (fad_skip b pc n)"
  have ref: "fad_ref b pc = (if op_ok (GetOp2 ?pc')
      then take (length ?pc' - length (op_pc (GetOp2 ?pc'))) ?pc' @ fad_ref b (op_pc (GetOp2 ?pc')) else ?pc')"
    using fad_skip_ref [of b pc n] fad_skip_done [of b pc n] fad_ref.simps [of b ?pc'] by simp
  show ?case
  proof (cases "op_ok (GetOp2 ?pc')")
    case True
    then have "length (op_pc (GetOp2 ?pc')) \<le> length ?pc'"
      using GetOp2_decreases [of ?pc'] by simp
    moreover have "fad_loop b (result @ take (length pc2 - length pc) pc2) ?pc' (op_pc (GetOp2 ?pc')) ?n' = (r, p, m)"
      using 1(2) True fad_loop.simps [of b result pc2 pc n] by (simp add: Let_def)
    ultimately show ?thesis
      using 1(1) [OF refl refl refl refl True, of r p m] fad_skip_count [of pc n b] ref True by simp
  next
    case False
    then have "r = result @ take (length pc2 - length pc) pc2" "p = ?pc'" "m = ?n'"
      using 1(2) fad_loop.simps [of b result pc2 pc n] by (simp_all add: Let_def)
    then show ?thesis using fad_skip_count [of pc n b] ref False by simp
  qed
qed

lemma length_fad_ref: "length (fad_ref b s) \<le> length s"
proof (induction b s rule: fad_ref.induct)
  case (1 b s)
  then show ?case
    using fad_ref.simps [of b s] GetOp2_decreases [of s] by (auto split: if_splits)
qed

lemma fad_ref_same: "length (fad_ref b s) = length s \<Longrightarrow> fad_ref b s = s"
proof (induction b s rule: fad_ref.induct)
  case (1 b s)
  show ?case
  proof (cases "equal_at b s")
    case True
    then have "length (fad_ref b s) < length s"
      using length_fad_ref [of b "drop (length b) s"] fad_ref.simps [of b s] equal_at_decreases [OF True]
      by simp
    with 1(3) show ?thesis by simp
  next
    case False
    show ?thesis
    proof (cases "op_ok (GetOp2 s)")
      case True
      then have "length (fad_ref b (op_pc (GetOp2 s))) = length (op_pc (GetOp2 s))"
        using 1(3) False fad_ref.simps [of b s] GetOp2_decreases [of s] by simp
      then have "fad_ref b (op_pc (GetOp2 s)) = op_pc (GetOp2 s)" by (rule 1(2) [OF False True])
      then show ?thesis
        using True False by (simp add: fad_ref.simps [of b s] op_pc_split)
    qed (simp add: fad_ref.simps [of b s] False)
  qed
qed

lemma FindAndDelete_eq_ref: "b \<noteq> [] \<Longrightarrow> fst (FindAndDelete s b) = fad_ref b s"
proof -
  assume b: "b \<noteq> []"
  obtain r p m where loop: "fad_loop b [] s s 0 = (r, p, m)" by (cases "fad_loop b [] s s 0")
  have ref: "r @ p = fad_ref b s" and len: "length r + length p + m * length b = length s"
    using fad_loop_ref [OF loop, THEN conjunct1] fad_loop_ref [OF loop, THEN conjunct2] by simp_all
  have "fad_ref b s = s" if "m = 0"
    using fad_ref_same [of b s] ref [symmetric] len that by simp
  with b loop ref show ?thesis by (auto simp: FindAndDelete_def)
qed

lemma FindAndDelete_count:
  "length (fst (FindAndDelete s b)) + snd (FindAndDelete s b) * length b = length s"
proof -
  obtain r p m where loop: "fad_loop b [] s s 0 = (r, p, m)" by (cases "fad_loop b [] s s 0")
  show ?thesis
    using fad_loop_ref [OF loop, THEN conjunct2] loop by (simp add: FindAndDelete_def)
qed

section \<open>Counting signature operations\<close>

lemma sigop_inc_le: "sigop_inc acc lst opcode \<le> MAX_PUBKEYS_PER_MULTISIG"
  by (auto simp: sigop_inc_def DecodeOP_N_def word_le_nat_alt)

lemma sigop_inc_mono: "sigop_inc True lst opcode \<le> sigop_inc False lst' opcode"
  using sigop_inc_le [of True lst opcode] by (auto simp: sigop_inc_def)

lemma sigop_loop_bound:
  "n \<le> sigop_loop acc lst pc n \<and> sigop_loop acc lst pc n \<le> n + MAX_PUBKEYS_PER_MULTISIG * length pc"
proof (induction acc lst pc n rule: sigop_loop.induct)
  case (1 acc lst pc n)
  then show ?case
    using sigop_inc_le [of acc lst "opcodeRet (GetOp2 pc)"] GetOp2_decreases [of pc]
    by (auto simp: sigop_loop.simps [of acc lst pc n])
qed

lemma sigop_loop_mono: "n \<le> m \<Longrightarrow> sigop_loop True lst pc n \<le> sigop_loop False lst' pc m"
proof (induction True lst pc n arbitrary: lst' m rule: sigop_loop.induct)
  case (1 lst pc n)
  then show ?case
    by (simp add: sigop_loop.simps [of True lst pc n] sigop_loop.simps [of False lst' pc m]
        add_mono sigop_inc_mono)
qed

section \<open>Push-only scripts\<close>

lemma IsPushOnly_Nil [simp]: "IsPushOnly []"
  by (simp add: IsPushOnly.simps)

lemma push_data_not_Nil [simp]: "push_data b \<noteq> []"
  by (auto simp: push_data_def)

lemma push_opcode_of_not_gt: "\<not> OP_16 < push_opcode_of b"
  using push_opcode_of_le [of b] by (simp add: word_le_nat_alt word_less_nat_alt)

lemma IsPushOnly_push_data:
  "length b < 2 ^ 32 \<Longrightarrow> IsPushOnly (push_data b @ rest) = IsPushOnly rest"
  by (subst IsPushOnly.simps) (simp add: GetOp2_push_data push_opcode_of_not_gt)

lemma lastpush_loop_push_data:
  "length b < 2 ^ 32 \<Longrightarrow> lastpush_loop (push_data b @ rest) v = lastpush_loop rest b"
  by (subst lastpush_loop.simps) (simp add: GetOp2_push_data push_opcode_of_not_gt)

lemma lastpush_loop_pushes:
  "\<forall>b\<in>set bs. length b < 2 ^ 32 \<Longrightarrow>
   lastpush_loop (concat (map push_data bs)) v = Some (if bs = [] then v else last bs)"
proof (induction bs arbitrary: v)
  case Nil
  then show ?case by (simp add: lastpush_loop.simps)
next
  case (Cons b bs)
  then show ?case by (simp add: lastpush_loop_push_data)
qed

lemma lastpush_loop_Some_iff: "(\<exists>v'. lastpush_loop pc v = Some v') = IsPushOnly pc"
proof (induction pc v rule: lastpush_loop.induct)
  case (1 pc v)
  then show ?case by (subst lastpush_loop.simps, subst IsPushOnly.simps) simp
qed


section \<open>Templates as concatenations\<close>

lemma split3: "m + n \<le> length s \<Longrightarrow>
   s = map ((!) s) [0..<m] @ take n (drop m s) @ map ((!) s) [m + n..<length s]" for s :: bytes
  by (rule nth_equalityI) (auto simp: nth_append not_less)

lemma IsPayToScriptHash_iff:
  "IsPayToScriptHash s \<longleftrightarrow> (\<exists>h. length h = 20 \<and> s = [OP_HASH160, 0x14] @ h @ [OP_EQUAL])"
proof
  assume s: "IsPayToScriptHash s"
  then have "s = [OP_HASH160, 0x14] @ take 20 (drop 2 s) @ [OP_EQUAL]"
    using split3 [of 2 20 s] by (simp add: IsPayToScriptHash_def upt_conv_Cons del: append_Cons)
  then show "\<exists>h. length h = 20 \<and> s = [OP_HASH160, 0x14] @ h @ [OP_EQUAL]"
    using s by (intro exI [of _ "take 20 (drop 2 s)"]) (simp add: IsPayToScriptHash_def)
qed (auto simp: IsPayToScriptHash_def nth_append)

lemma IsPayToPublicKeyHash_iff:
  "IsPayToPublicKeyHash s \<longleftrightarrow>
   (\<exists>h. length h = 20 \<and> s = [OP_DUP, OP_HASH160, 0x14] @ h @ [OP_EQUALVERIFY, OP_CHECKSIG])"
proof
  assume s: "IsPayToPublicKeyHash s"
  then have "s = [OP_DUP, OP_HASH160, 0x14] @ take 20 (drop 3 s) @ [OP_EQUALVERIFY, OP_CHECKSIG]"
    using split3 [of 3 20 s] by (simp add: IsPayToPublicKeyHash_def upt_conv_Cons numeral_2_eq_2)
  then show "\<exists>h. length h = 20 \<and> s = [OP_DUP, OP_HASH160, 0x14] @ h @ [OP_EQUALVERIFY, OP_CHECKSIG]"
    using s by (intro exI [of _ "take 20 (drop 3 s)"]) (simp add: IsPayToPublicKeyHash_def)
qed (auto simp: IsPayToPublicKeyHash_def nth_append)

lemma EncodeOP_N_DecodeOP_N: "DecodeOP_N op = Some n \<Longrightarrow> n \<le> 16 \<and> EncodeOP_N (int n) = Some op"
proof -
  assume d: "DecodeOP_N op = Some n"
  then have n: "n \<le> 16" and op: "op = word_of_nat (if n = 0 then 0 else n + 80)"
    by (auto simp: DecodeOP_N_def word_le_nat_alt split: if_splits)
  then have "n \<in> set [0..<17]" by simp
  then have "EncodeOP_N (int n) = Some (if n = 0 then 0 else word_of_nat (n + 80))"
    using small_constants by blast
  then show ?thesis using n op by (simp del: of_nat_add)
qed

text \<open>A witness program is a version opcode followed by a direct push of 2 to 40 bytes, and nothing else.\<close>

lemma IsWitnessProgram_Some_iff:
  "IsWitnessProgram s = Some (version, program) \<longleftrightarrow>
     2 \<le> length program \<and> length program \<le> 40 \<and> version \<le> 16
     \<and> s = the (EncodeOP_N (int version)) # push_data program"
  (is "?lhs \<longleftrightarrow> ?rhs")
proof
  assume ?lhs
  then obtain op len where s: "s = op # len # program" and op: "op = OP_0 \<or> OP_1 \<le> op \<and> op \<le> OP_16"
    and len: "unat len = length program" "2 \<le> length program" "length program \<le> 40"
    and v: "version = the (DecodeOP_N op)"
    by (cases s; cases "tl s") (auto simp: IsWitnessProgram_def not_less split: if_splits)
  have "len = word_of_nat (length program)" by (simp add: len(1) [symmetric])
  then have "s = op # push_data program" using s len by (simp add: push_data_def)
  moreover have "version \<le> 16 \<and> op = the (EncodeOP_N (int version))"
    using op v EncodeOP_N_DecodeOP_N [of op version] by (auto simp: DecodeOP_N_def)
  ultimately show ?rhs using len by simp
next
  assume ?rhs
  then obtain op where op: "s = op # push_data program" "op = the (EncodeOP_N (int version))"
    and b: "2 \<le> length program" "length program \<le> 40" "version \<le> 16" by blast
  have "op = OP_0 \<or> OP_1 \<le> op \<and> op \<le> OP_16" "the (DecodeOP_N op) = version"
    using DecodeOP_N_EncodeOP_N [of "int version"] op(2) b(3)
    by (auto simp: EncodeOP_N_def DecodeOP_N_def split: if_splits)
  moreover have "unat (word_of_nat (length program) :: u8) = length program"
    using b by (simp add: unat_of_nat)
  ultimately show ?lhs
    using op(1) b by (auto simp: IsWitnessProgram_def push_data_def)
qed

section \<open>Properties\<close>

text \<open>C31: \<open>FindAndDelete\<close> removes exactly the occurrences of its argument that stand at instruction boundaries,
  as the reference walk \<open>fad_ref\<close> does, and returns how many it removed.\<close>

theorem FindAndDelete_meaning:
  assumes "b \<noteq> []"
  shows "fst (FindAndDelete s b) = fad_ref b s
    \<and> length (fst (FindAndDelete s b)) + snd (FindAndDelete s b) * length b = length s"
  using FindAndDelete_eq_ref [OF assms] FindAndDelete_count [of s b] by (intro conjI)

theorem FindAndDelete_meaning_witness:
  "fst (FindAndDelete [OP_CODESEPARATOR, 0x01, OP_CODESEPARATOR, OP_DUP] [OP_CODESEPARATOR])
     = [0x01, OP_CODESEPARATOR, OP_DUP]"
  using FindAndDelete_meaning [of "[OP_CODESEPARATOR]" "[OP_CODESEPARATOR, 0x01, OP_CODESEPARATOR, OP_DUP]"]
  by (simp add: fad_ref.simps equal_at_def GetOp2_def getop_size_def getop_fail_def)

text \<open>Whatever bytes are pushed with \<open>operator<<\<close>, \<open>GetOp2\<close> reads them back and stops right after them.\<close>

theorem push_roundtrip:
  assumes "length b < 2 ^ 32"
  shows "op_ok (GetOp2 (push_data b @ rest)) \<and> vchRet (GetOp2 (push_data b @ rest)) = b
    \<and> op_pc (GetOp2 (push_data b @ rest)) = rest"
  using GetOp2_push_data [OF assms, of rest] by simp

theorem push_roundtrip_witness: "vchRet (GetOp2 (push_data [1, 2, 3] @ [OP_DUP])) = [1, 2, 3]"
  using push_roundtrip [of "[1, 2, 3]" "[OP_DUP]"] by simp

text \<open>The accurate count of signature operations never exceeds the legacy count, and the legacy count is at
  most twenty per byte of script, so it fits an \<open>unsigned int\<close> for every script a block can hold.\<close>

theorem sigop_count_bounds:
  "GetSigOpCount s True \<le> GetSigOpCount s False \<and> GetSigOpCount s False \<le> MAX_PUBKEYS_PER_MULTISIG * length s"
  using sigop_loop_mono [of 0 0 OP_INVALIDOPCODE s OP_INVALIDOPCODE] sigop_loop_bound [of 0 False OP_INVALIDOPCODE s]
  by (simp add: GetSigOpCount_def)

text \<open>The signature operations of a pay-to-script-hash spend are those of the last element pushed.\<close>

theorem p2sh_sigops:
  assumes "IsPayToScriptHash s" and "bs \<noteq> []" and "\<forall>b\<in>set bs. length b < 2 ^ 32"
  shows "GetSigOpCount_P2SH s (concat (map push_data bs)) = GetSigOpCount (last bs) True"
  using assms lastpush_loop_pushes [OF assms(3), of "[]"] by (simp add: GetSigOpCount_P2SH_def)

theorem p2sh_sigops_witness:
  "GetSigOpCount_P2SH ([OP_HASH160, 0x14] @ replicate 20 0 @ [OP_EQUAL]) (push_data [OP_1, OP_CHECKMULTISIG])
     = GetSigOpCount [OP_1, OP_CHECKMULTISIG] True"
proof -
  have "IsPayToScriptHash ([OP_HASH160, 0x14] @ replicate 20 0 @ [OP_EQUAL])"
    unfolding IsPayToScriptHash_iff by (rule exI [of _ "replicate 20 0"]) simp
  from p2sh_sigops [OF this, of "[[OP_1, OP_CHECKMULTISIG]]"] show ?thesis by simp
qed

text \<open>A script is recognised as a witness program exactly when it is a version opcode followed by one direct
  push of 2 to 40 bytes; the version and the program are read back.\<close>

theorem witness_program_canonical:
  "IsWitnessProgram s = Some (version, program) \<longleftrightarrow>
     2 \<le> length program \<and> length program \<le> 40 \<and> version \<le> 16
     \<and> s = the (EncodeOP_N (int version)) # push_data program"
  by (rule IsWitnessProgram_Some_iff)

end
