(* ===== verification/Transaction.thy ===== *)
theory Transaction
  imports Serialize Script
begin

unbundle bit_operations_syntax

text \<open>
  Transactions: \<open>src/src/primitives/transaction.h\<close> and \<open>transaction.cpp\<close>, with the amounts of \<open>src/src/amount.h\<close>. A
  \<open>uint256\<close> is its 32 bytes in memory order, the signed 32-bit \<open>nVersion\<close> is its two's complement word and a
  \<open>CAmount\<close> is an integer in the range of \<open>int64_t\<close>. Outpoints, inputs, outputs and witness stacks interpret
  the codec interface of the theory \<open>Serialize\<close>; the transaction format, with its two variants, is proved on top.
\<close>

section \<open>Amounts\<close>

definition COIN :: int where "COIN = 100000000"
definition MAX_MONEY :: int where "MAX_MONEY = 21000000000 * COIN"

definition MoneyRange :: "int \<Rightarrow> bool" where
  "MoneyRange nValue \<longleftrightarrow> nValue \<ge> 0 \<and> nValue \<le> MAX_MONEY"

definition ser_int64 :: "int \<Rightarrow> bytes" where
  "ser_int64 v = ser_writedata64 (word_of_int v)"

definition unser_int64 :: "int reader" where
  "unser_int64 = rbind ser_readdata64 (\<lambda>w. rret (sint w))"

section \<open>Data\<close>

record COutPoint =
  outp_hash :: bytes
  outp_n :: u32

record CTxIn =
  txin_prevout :: COutPoint
  txin_scriptSig :: bytes
  txin_nSequence :: u32
  txin_scriptWitness :: "bytes list"

record CTxOut =
  txo_nValue :: int
  txo_scriptPubKey :: bytes

record CTransaction =
  tx_nVersion :: u32
  tx_vin :: "CTxIn list"
  tx_vout :: "CTxOut list"
  tx_nLockTime :: u32

definition SEQUENCE_FINAL :: u32 where "SEQUENCE_FINAL = 0xffffffff"

definition COutPoint_IsNull :: "COutPoint \<Rightarrow> bool" where
  "COutPoint_IsNull p \<longleftrightarrow> (\<forall>b\<in>set (outp_hash p). b = 0) \<and> outp_n p = - 1"

definition IsCoinBase :: "CTransaction \<Rightarrow> bool" where
  "IsCoinBase tx \<longleftrightarrow> length (tx_vin tx) = 1 \<and> COutPoint_IsNull (txin_prevout (tx_vin tx ! 0))"

definition HasWitness :: "CTransaction \<Rightarrow> bool" where
  "HasWitness tx \<longleftrightarrow> (\<exists>i\<in>set (tx_vin tx). txin_scriptWitness i \<noteq> [])"

section \<open>Serialization\<close>

definition ser_uint256 :: "bytes \<Rightarrow> bytes" where
  "ser_uint256 h = h"

definition unser_uint256 :: "bytes reader" where
  "unser_uint256 = stream_read 32"

definition ser_COutPoint :: "COutPoint \<Rightarrow> bytes" where
  "ser_COutPoint p = ser_uint256 (outp_hash p) @ ser_writedata32 (outp_n p)"

definition unser_COutPoint :: "COutPoint reader" where
  "unser_COutPoint =
     rbind unser_uint256 (\<lambda>h. rbind ser_readdata32 (\<lambda>k. rret \<lparr>outp_hash = h, outp_n = k\<rparr>))"

definition ser_CTxIn :: "CTxIn \<Rightarrow> bytes" where
  "ser_CTxIn i = ser_COutPoint (txin_prevout i) @ Serialize_bytes (txin_scriptSig i) @ ser_writedata32 (txin_nSequence i)"

definition unser_CTxIn :: "CTxIn reader" where
  "unser_CTxIn =
     rbind unser_COutPoint (\<lambda>p. rbind Unserialize_bytes (\<lambda>sc. rbind ser_readdata32 (\<lambda>q.
       rret \<lparr>txin_prevout = p, txin_scriptSig = sc, txin_nSequence = q, txin_scriptWitness = []\<rparr>)))"

definition ser_CTxOut :: "CTxOut \<Rightarrow> bytes" where
  "ser_CTxOut t = ser_int64 (txo_nValue t) @ Serialize_bytes (txo_scriptPubKey t)"

definition unser_CTxOut :: "CTxOut reader" where
  "unser_CTxOut =
     rbind unser_int64 (\<lambda>v. rbind Unserialize_bytes (\<lambda>sc. rret \<lparr>txo_nValue = v, txo_scriptPubKey = sc\<rparr>))"

text \<open>The vectors of the format; 96, 40 and 24 are the sizes of the element types in memory.\<close>

abbreviation ser_vin :: "CTxIn list \<Rightarrow> bytes" where "ser_vin \<equiv> Serialize_vec ser_CTxIn"
abbreviation unser_vin :: "CTxIn list reader" where "unser_vin \<equiv> Unserialize_vec 96 unser_CTxIn"
abbreviation ser_vout :: "CTxOut list \<Rightarrow> bytes" where "ser_vout \<equiv> Serialize_vec ser_CTxOut"
abbreviation unser_vout :: "CTxOut list reader" where "unser_vout \<equiv> Unserialize_vec 40 unser_CTxOut"
abbreviation ser_witness :: "bytes list \<Rightarrow> bytes" where "ser_witness \<equiv> Serialize_vec Serialize_bytes"
abbreviation unser_witness :: "bytes list reader" where "unser_witness \<equiv> Unserialize_vec 24 Unserialize_bytes"

primrec unser_witnesses :: "CTxIn list \<Rightarrow> CTxIn list reader" where
  "unser_witnesses [] = rret []"
| "unser_witnesses (i # is) =
     rbind unser_witness (\<lambda>w. rbind (unser_witnesses is) (\<lambda>is'. rret (i\<lparr>txin_scriptWitness := w\<rparr> # is')))"

text \<open>The part of \<open>UnserializeTransaction\<close> between the version and the witnesses: \<open>vin\<close>, \<open>vout\<close> and the flags.\<close>

definition unser_body :: "bool \<Rightarrow> (CTxIn list \<times> CTxOut list \<times> u8) reader" where
  "unser_body fAllowWitness =
     rbind unser_vin (\<lambda>vin.
       if vin = [] \<and> fAllowWitness then
         rbind ser_readdata8 (\<lambda>flags.
           if flags \<noteq> 0 then rbind unser_vin (\<lambda>vin. rbind unser_vout (\<lambda>vout. rret (vin, vout, flags)))
           else rret (vin, [], flags))
       else rbind unser_vout (\<lambda>vout. rret (vin, vout, 0)))"

definition UnserializeTransaction :: "bool \<Rightarrow> CTransaction reader" where
  "UnserializeTransaction fAllowWitness =
     rbind ser_readdata32 (\<lambda>nVersion.
     rbind (unser_body fAllowWitness) (\<lambda>(vin, vout, flags).
     rbind (if flags AND 1 \<noteq> 0 \<and> fAllowWitness
            then rbind (unser_witnesses vin) (\<lambda>vin. rret (vin, flags XOR 1)) else rret (vin, flags)) (\<lambda>(vin, flags).
       if flags \<noteq> 0 then rfail
       else rbind ser_readdata32 (\<lambda>nLockTime.
         rret \<lparr>tx_nVersion = nVersion, tx_vin = vin, tx_vout = vout, tx_nLockTime = nLockTime\<rparr>))))"

definition SerializeTransaction :: "bool \<Rightarrow> CTransaction \<Rightarrow> bytes" where
  "SerializeTransaction fAllowWitness tx =
     (let flags = (if fAllowWitness \<and> HasWitness tx then 1 else 0 :: u8)
      in ser_writedata32 (tx_nVersion tx)
         @ (if flags \<noteq> 0 then ser_vin [] @ ser_writedata8 flags else [])
         @ ser_vin (tx_vin tx) @ ser_vout (tx_vout tx)
         @ (if flags AND 1 \<noteq> 0 then concat (map (\<lambda>i. ser_witness (txin_scriptWitness i)) (tx_vin tx)) else [])
         @ ser_writedata32 (tx_nLockTime tx))"

section \<open>Values and hashes\<close>

text \<open>
  \<open>GetValueOut\<close>: \<^term>\<open>None\<close> is the exception. The running sum is an unbounded integer here; the source adds a
  value to it before it tests the range of either, so a value near the ends of \<open>int64_t\<close> overflows first.
\<close>

fun value_out_loop :: "bool \<Rightarrow> int \<Rightarrow> CTxOut list \<Rightarrow> int option" where
  "value_out_loop fAreEnforcedValues nValueOut [] = Some nValueOut"
| "value_out_loop fAreEnforcedValues nValueOut (t # ts) =
     (if \<not> fAreEnforcedValues \<and> IsAssetScript (txo_scriptPubKey t) \<noteq> None
      then value_out_loop fAreEnforcedValues nValueOut ts
      else let nValueOut = nValueOut + txo_nValue t
           in if \<not> MoneyRange (txo_nValue t) \<or> \<not> MoneyRange nValueOut then None
              else value_out_loop fAreEnforcedValues nValueOut ts)"

definition GetValueOut :: "CTransaction \<Rightarrow> bool \<Rightarrow> int option" where
  "GetValueOut tx fAreEnforcedValues = value_out_loop fAreEnforcedValues 0 (tx_vout tx)"

definition ComputeHash :: "(bytes \<Rightarrow> bytes) \<Rightarrow> CTransaction \<Rightarrow> bytes" where
  "ComputeHash hash256 tx = hash256 (SerializeTransaction False tx)"

definition GetWitnessHash :: "(bytes \<Rightarrow> bytes) \<Rightarrow> CTransaction \<Rightarrow> bytes" where
  "GetWitnessHash hash256 tx =
     (if \<not> HasWitness tx then ComputeHash hash256 tx else hash256 (SerializeTransaction True tx))"

definition GetTotalSize :: "CTransaction \<Rightarrow> nat" where
  "GetTotalSize tx = length (SerializeTransaction True tx)"

section \<open>The codecs\<close>

definition outpoint_ok :: "COutPoint \<Rightarrow> bool" where
  "outpoint_ok p \<longleftrightarrow> length (outp_hash p) = 32"

definition txin_ok :: "CTxIn \<Rightarrow> bool" where
  "txin_ok i \<longleftrightarrow> outpoint_ok (txin_prevout i) \<and> length (txin_scriptSig i) \<le> MAX_SIZE \<and> txin_scriptWitness i = []"

definition txout_ok :: "CTxOut \<Rightarrow> bool" where
  "txout_ok t \<longleftrightarrow> - (2 ^ 63) \<le> txo_nValue t \<and> txo_nValue t < 2 ^ 63 \<and> length (txo_scriptPubKey t) \<le> MAX_SIZE"

interpretation uint256: canonical_codec ser_uint256 unser_uint256 "\<lambda>h. length h = 32"
  by unfold_locales (auto simp: ser_uint256_def unser_uint256_def stream_read_iff)

interpretation int64: canonical_codec ser_int64 unser_int64 "\<lambda>v. - (2 ^ 63) \<le> v \<and> v < 2 ^ 63"
proof unfold_locales
  fix x :: int and rest
  assume "- (2 ^ 63) \<le> x \<and> x < 2 ^ 63"
  then have "sint (word_of_int x :: u64) = x"
    by (simp add: sint_sbintrunc' signed_take_bit_int_eq_self)
  then show "unser_int64 (ser_int64 x @ rest) = Some (x, rest)"
    by (simp add: unser_int64_def ser_int64_def rbind_def u64.unser_ser)
next
  fix bs rest and x :: int
  assume "unser_int64 bs = Some (x, rest)"
  then show "bs = ser_int64 x @ rest \<and> - (2 ^ 63) \<le> x \<and> x < 2 ^ 63"
    using sint_greater_eq [where 'a = 64] sint_less [where 'a = 64]
    by (auto simp: unser_int64_def ser_int64_def rbind_eq_Some_iff u64.unser_iff)
qed

interpretation outpoint: canonical_codec ser_COutPoint unser_COutPoint outpoint_ok
  by (unfold_locales,
      simp add: ser_COutPoint_def unser_COutPoint_def outpoint_ok_def rbind_def uint256.unser_ser u32.unser_ser rret_def,
      auto simp: ser_COutPoint_def unser_COutPoint_def outpoint_ok_def rbind_eq_Some_iff rret_def
        uint256.unser_iff u32.unser_iff)

interpretation txin: canonical_codec ser_CTxIn unser_CTxIn txin_ok
  by (unfold_locales,
      simp add: ser_CTxIn_def unser_CTxIn_def txin_ok_def rbind_def outpoint.unser_ser u32.unser_ser
        byte_vector.unser_ser rret_def,
      auto simp: ser_CTxIn_def unser_CTxIn_def txin_ok_def rbind_eq_Some_iff rret_def
        outpoint.unser_iff u32.unser_iff byte_vector.unser_iff)

interpretation txout: canonical_codec ser_CTxOut unser_CTxOut txout_ok
  by (unfold_locales,
      simp add: ser_CTxOut_def unser_CTxOut_def txout_ok_def rbind_def int64.unser_ser byte_vector.unser_ser rret_def,
      auto simp: ser_CTxOut_def unser_CTxOut_def txout_ok_def rbind_eq_Some_iff rret_def
        int64.unser_iff byte_vector.unser_iff)

interpretation vin: canonical_codec ser_vin unser_vin "\<lambda>v. length v \<le> MAX_SIZE \<and> list_all txin_ok v"
  by (rule txin.vec_canonical_codec) simp_all

interpretation vout: canonical_codec ser_vout unser_vout "\<lambda>v. length v \<le> MAX_SIZE \<and> list_all txout_ok v"
  by (rule txout.vec_canonical_codec) simp_all

interpretation witness: canonical_codec ser_witness unser_witness
    "\<lambda>v. length v \<le> MAX_SIZE \<and> list_all (\<lambda>x. length x \<le> MAX_SIZE) v"
  by (rule byte_vector.vec_canonical_codec) simp_all

lemmas tx_iffs = vin.unser_iff vout.unser_iff witness.unser_iff u32.unser_iff u8.unser_iff

section \<open>The transaction format\<close>

definition strip_witness :: "CTxIn \<Rightarrow> CTxIn" where
  "strip_witness i = i\<lparr>txin_scriptWitness := []\<rparr>"

definition witness_ok :: "bytes list \<Rightarrow> bool" where
  "witness_ok w \<longleftrightarrow> length w \<le> MAX_SIZE \<and> list_all (\<lambda>x. length x \<le> MAX_SIZE) w"

definition tx_ok :: "CTransaction \<Rightarrow> bool" where
  "tx_ok tx \<longleftrightarrow> length (tx_vin tx) \<le> MAX_SIZE \<and> list_all (\<lambda>i. txin_ok (strip_witness i)) (tx_vin tx)
     \<and> list_all (\<lambda>i. witness_ok (txin_scriptWitness i)) (tx_vin tx)
     \<and> length (tx_vout tx) \<le> MAX_SIZE \<and> list_all txout_ok (tx_vout tx)"

lemma ser_vin_strip: "ser_vin (map strip_witness v) = ser_vin v"
  by (simp add: Serialize_vec_def ser_CTxIn_def [abs_def] strip_witness_def o_def)

lemma unser_vin_ser:
  "length v \<le> MAX_SIZE \<Longrightarrow> list_all (\<lambda>i. txin_ok (strip_witness i)) v \<Longrightarrow>
   unser_vin (ser_vin v @ rest) = Some (map strip_witness v, rest)"
  using vin.unser_ser [of "map strip_witness v" rest] by (simp add: ser_vin_strip list_all_iff)

lemma unser_witnesses_ser:
  "list_all (\<lambda>i. witness_ok (txin_scriptWitness i)) v \<Longrightarrow>
   unser_witnesses (map strip_witness v) (concat (map (\<lambda>i. ser_witness (txin_scriptWitness i)) v) @ rest)
     = Some (v, rest)"
  by (induction v)
    (simp_all add: rret_def rbind_def witness_ok_def witness.unser_ser strip_witness_def)

lemma ser_vin_Nil: "ser_vin [] = [0]"
  by (simp add: Serialize_vec_def WriteCompactSize_def ser_writedata8_def)

lemma no_witness_strip: "\<not> HasWitness tx \<Longrightarrow> map strip_witness (tx_vin tx) = tx_vin tx"
  by (auto simp: HasWitness_def strip_witness_def intro!: map_idI)

lemma UnserializeTransaction_plain:
  assumes "tx_ok tx" "f \<longrightarrow> tx_vin tx \<noteq> []"
  shows "UnserializeTransaction f (ser_writedata32 (tx_nVersion tx) @ ser_vin (tx_vin tx) @ ser_vout (tx_vout tx)
            @ ser_writedata32 (tx_nLockTime tx) @ rest)
         = Some (tx\<lparr>tx_vin := map strip_witness (tx_vin tx)\<rparr>, rest)"
  using assms
  by (auto simp: UnserializeTransaction_def unser_body_def rbind_def u32.unser_ser unser_vin_ser vout.unser_ser tx_ok_def
      rret_def)

lemma UnserializeTransaction_empty:
  "UnserializeTransaction True (ser_writedata32 v @ ser_vin [] @ ser_vout [] @ ser_writedata32 l @ rest)
     = Some (\<lparr>tx_nVersion = v, tx_vin = [], tx_vout = [], tx_nLockTime = l\<rparr>, rest)"
proof -
  have "ser_vout [] = ser_writedata8 0"
    by (simp add: Serialize_vec_def WriteCompactSize_def)
  then show ?thesis
    by (simp add: UnserializeTransaction_def unser_body_def rbind_def u32.unser_ser u8.unser_ser vin.unser_ser rret_def)
qed

lemma UnserializeTransaction_witness:
  assumes "tx_ok tx"
  shows "UnserializeTransaction True (ser_writedata32 (tx_nVersion tx) @ ser_vin [] @ ser_writedata8 1
            @ ser_vin (tx_vin tx) @ ser_vout (tx_vout tx)
            @ concat (map (\<lambda>i. ser_witness (txin_scriptWitness i)) (tx_vin tx)) @ ser_writedata32 (tx_nLockTime tx) @ rest)
         = Some (tx, rest)"
  using assms
  by (simp add: UnserializeTransaction_def unser_body_def rbind_def u32.unser_ser u8.unser_ser vin.unser_ser unser_vin_ser
      vout.unser_ser unser_witnesses_ser tx_ok_def rret_def)

definition tx_full_ok :: "CTransaction \<Rightarrow> bool" where
  "tx_full_ok tx \<longleftrightarrow> tx_ok tx \<and> (tx_vin tx = [] \<longrightarrow> tx_vout tx = [])"

definition tx_plain_ok :: "CTransaction \<Rightarrow> bool" where
  "tx_plain_ok tx \<longleftrightarrow> tx_ok tx \<and> \<not> HasWitness tx"

interpretation tx_full: codec "SerializeTransaction True" "UnserializeTransaction True" tx_full_ok
proof unfold_locales
  fix tx :: CTransaction and rest
  assume ok: "tx_full_ok tx"
  show "UnserializeTransaction True (SerializeTransaction True tx @ rest) = Some (tx, rest)"
  proof (cases "HasWitness tx")
    case True
    then show ?thesis
      using ok UnserializeTransaction_witness [of tx rest] by (simp add: SerializeTransaction_def tx_full_ok_def)
  next
    case False
    show ?thesis
    proof (cases "tx_vin tx = []")
      case True
      then show ?thesis
        using ok False UnserializeTransaction_empty [of "tx_nVersion tx" "tx_nLockTime tx" rest]
        by (simp add: SerializeTransaction_def tx_full_ok_def)
    next
      case vin: False
      then show ?thesis
        using ok False UnserializeTransaction_plain [of tx True rest] no_witness_strip [OF False]
        by (simp add: SerializeTransaction_def tx_full_ok_def)
    qed
  qed
qed

interpretation tx_plain: canonical_codec "SerializeTransaction False" "UnserializeTransaction False" tx_plain_ok
proof unfold_locales
  fix tx :: CTransaction and rest
  assume "tx_plain_ok tx"
  then show "UnserializeTransaction False (SerializeTransaction False tx @ rest) = Some (tx, rest)"
    using UnserializeTransaction_plain [of tx False rest] no_witness_strip [of tx]
    by (simp add: SerializeTransaction_def tx_plain_ok_def)
next
  fix bs rest and tx :: CTransaction
  assume "UnserializeTransaction False bs = Some (tx, rest)"
  then show "bs = SerializeTransaction False tx @ rest \<and> tx_plain_ok tx"
    by (auto simp: UnserializeTransaction_def unser_body_def rbind_eq_Some_iff rret_def SerializeTransaction_def tx_iffs
        tx_plain_ok_def tx_ok_def HasWitness_def list_all_iff txin_ok_def strip_witness_def witness_ok_def split: prod.splits)
qed

section \<open>Values\<close>

definition counted_values :: "bool \<Rightarrow> CTxOut list \<Rightarrow> int list" where
  "counted_values enforced ts =
     map txo_nValue (filter (\<lambda>t. enforced \<or> IsAssetScript (txo_scriptPubKey t) = None) ts)"

lemma counted_values_simps [simp]:
  "counted_values e [] = []"
  "counted_values e (t # ts) =
     (if \<not> e \<and> IsAssetScript (txo_scriptPubKey t) \<noteq> None then counted_values e ts
      else txo_nValue t # counted_values e ts)"
  by (auto simp: counted_values_def)

lemma value_out_loop_Some_iff:
  "MoneyRange acc \<Longrightarrow>
   value_out_loop e acc ts = Some v \<longleftrightarrow>
     v = acc + sum_list (counted_values e ts) \<and> (\<forall>x\<in>set (counted_values e ts). MoneyRange x) \<and> MoneyRange v"
proof (induction e acc ts rule: value_out_loop.induct)
  case (1 e acc)
  then show ?case by auto
next
  case (2 e acc t ts)
  have nonneg: "0 \<le> sum_list xs" if "\<forall>x\<in>set xs. MoneyRange x" for xs
    using that by (induction xs) (auto simp: MoneyRange_def)
  show ?case
  proof (cases "\<not> e \<and> IsAssetScript (txo_scriptPubKey t) \<noteq> None")
    case True
    then show ?thesis using 2(1) [OF True 2(3)] by simp
  next
    case False
    show ?thesis
    proof (cases "MoneyRange (txo_nValue t) \<and> MoneyRange (acc + txo_nValue t)")
      case True
      then show ?thesis using 2(2) [OF False refl] False by (auto simp: Let_def)
    next
      case neg: False
      have "\<not> ((\<forall>x\<in>set (counted_values e ts). MoneyRange x) \<and> MoneyRange (txo_nValue t) \<and> MoneyRange v)"
        if "v = acc + (txo_nValue t + sum_list (counted_values e ts))"
        using neg that nonneg [of "counted_values e ts"] 2(3) by (auto simp: MoneyRange_def)
      then show ?thesis using False neg by (auto simp: Let_def)
    qed
  qed
qed

section \<open>Properties\<close>

text \<open>A transaction of one input with a witness and one output, to evaluate the properties on.\<close>

definition demo_tx :: CTransaction where
  "demo_tx =
     \<lparr>tx_nVersion = 2,
      tx_vin = [\<lparr>txin_prevout = \<lparr>outp_hash = replicate 32 9, outp_n = 0\<rparr>, txin_scriptSig = [0x51],
                 txin_nSequence = 0xfffffffe, txin_scriptWitness = [[1], [2]]\<rparr>],
      tx_vout = [\<lparr>txo_nValue = 5, txo_scriptPubKey = [0x51]\<rparr>], tx_nLockTime = 7\<rparr>"

lemma demo_tx_ok: "tx_ok demo_tx"
  by (simp add: demo_tx_def tx_ok_def txin_ok_def outpoint_ok_def txout_ok_def witness_ok_def MAX_SIZE_def strip_witness_def)

text \<open>C6: A transaction of the network format is read back from what is written for it, witnesses included, for every
  transaction with an input, and for the one with neither inputs nor outputs.\<close>

theorem transaction_roundtrip:
  assumes "tx_full_ok tx"
  shows "UnserializeTransaction True (SerializeTransaction True tx @ rest) = Some (tx, rest)"
  using assms by (rule tx_full.unser_ser)

theorem transaction_roundtrip_witness:
  "UnserializeTransaction True (SerializeTransaction True demo_tx @ [1]) = Some (demo_tx, [1])"
proof -
  have "tx_full_ok demo_tx" by (simp add: tx_full_ok_def demo_tx_ok) (simp add: demo_tx_def)
  then show ?thesis by (rule transaction_roundtrip)
qed

text \<open>The format that is hashed into a transaction id is canonical. A byte string reads as a transaction exactly
  when it is what the writer produces for that transaction without witness, so two byte strings with the same id
  preimage are the same transaction.\<close>

theorem transaction_id_canonical:
  "UnserializeTransaction False bs = Some (tx, rest) \<longleftrightarrow> tx_plain_ok tx \<and> bs = SerializeTransaction False tx @ rest"
  by (rule tx_plain.unser_iff)

text \<open>\<open>GetValueOut\<close> returns the sum of the counted outputs, and throws exactly when one of them, or the sum, is
  outside the money range. Outputs of asset scripts are not counted before the values are enforced.\<close>

theorem GetValueOut_sum:
  "GetValueOut tx e = Some v \<longleftrightarrow>
     v = sum_list (counted_values e (tx_vout tx)) \<and> MoneyRange v \<and> list_all MoneyRange (counted_values e (tx_vout tx))"
  using value_out_loop_Some_iff [of 0 e "tx_vout tx" v]
  by (auto simp: GetValueOut_def MoneyRange_def MAX_MONEY_def COIN_def list_all_iff)

end
