(* ===== verification/SigEncoding.thy ===== *)
theory SigEncoding
  imports Script
begin

unbundle bit_operations_syntax

text \<open>
  The encoding rules of \<open>src/src/script/interpreter.cpp\<close> for public keys, signatures and pushes, the verification
  flags of \<open>interpreter.h\<close> and the error codes of \<open>script_error.h\<close>. A check that reports through \<open>serror\<close> is a
  value of the result type \<open>res\<close> below. The elliptic curve library and the hash functions are the fields of
  the record \<open>crypto\<close>.
\<close>

section \<open>Results\<close>

datatype ScriptError =
    SCRIPT_ERR_OK | SCRIPT_ERR_UNKNOWN_ERROR | SCRIPT_ERR_EVAL_FALSE | SCRIPT_ERR_OP_RETURN
  | SCRIPT_ERR_SCRIPT_SIZE | SCRIPT_ERR_PUSH_SIZE | SCRIPT_ERR_OP_COUNT | SCRIPT_ERR_STACK_SIZE
  | SCRIPT_ERR_SIG_COUNT | SCRIPT_ERR_PUBKEY_COUNT
  | SCRIPT_ERR_VERIFY | SCRIPT_ERR_EQUALVERIFY | SCRIPT_ERR_CHECKMULTISIGVERIFY
  | SCRIPT_ERR_CHECKSIGVERIFY | SCRIPT_ERR_NUMEQUALVERIFY
  | SCRIPT_ERR_BAD_OPCODE | SCRIPT_ERR_DISABLED_OPCODE | SCRIPT_ERR_INVALID_STACK_OPERATION
  | SCRIPT_ERR_INVALID_ALTSTACK_OPERATION | SCRIPT_ERR_UNBALANCED_CONDITIONAL
  | SCRIPT_ERR_NEGATIVE_LOCKTIME | SCRIPT_ERR_UNSATISFIED_LOCKTIME
  | SCRIPT_ERR_SIG_HASHTYPE | SCRIPT_ERR_SIG_DER | SCRIPT_ERR_MINIMALDATA | SCRIPT_ERR_SIG_PUSHONLY
  | SCRIPT_ERR_SIG_HIGH_S | SCRIPT_ERR_SIG_NULLDUMMY | SCRIPT_ERR_PUBKEYTYPE | SCRIPT_ERR_CLEANSTACK
  | SCRIPT_ERR_MINIMALIF | SCRIPT_ERR_SIG_NULLFAIL
  | SCRIPT_ERR_DISCOURAGE_UPGRADABLE_NOPS | SCRIPT_ERR_DISCOURAGE_UPGRADABLE_WITNESS_PROGRAM
  | SCRIPT_ERR_WITNESS_PROGRAM_WRONG_LENGTH | SCRIPT_ERR_WITNESS_PROGRAM_WITNESS_EMPTY
  | SCRIPT_ERR_WITNESS_PROGRAM_MISMATCH | SCRIPT_ERR_WITNESS_MALLEATED
  | SCRIPT_ERR_WITNESS_MALLEATED_P2SH | SCRIPT_ERR_WITNESS_UNEXPECTED | SCRIPT_ERR_WITNESS_PUBKEYTYPE

text \<open>
  How a piece of the interpreter ends: it goes on with a value, it returns false with \<open>serror\<close> set, it throws
  (a \<open>scriptnum_error\<close>, the \<open>out_of_range\<close> of \<open>vector::at\<close> or the \<open>runtime_error\<close> of \<open>popstack\<close>), or the process
  is stopped by a failed assertion.
\<close>

datatype exn = ScriptNumError | OutOfRange | StackEmpty

datatype 'a res = Ok 'a | Err ScriptError | Throw exn | Abort

fun bnd :: "'a res \<Rightarrow> ('a \<Rightarrow> 'b res) \<Rightarrow> 'b res" where
  "bnd (Ok x) f = f x"
| "bnd (Err e) f = Err e"
| "bnd (Throw e) f = Throw e"
| "bnd Abort f = Abort"

definition require :: "bool \<Rightarrow> ScriptError \<Rightarrow> unit res" where
  "require c e = (if c then Ok () else Err e)"

section \<open>Flags\<close>

abbreviation SIGHASH_ALL :: u32 where "SIGHASH_ALL \<equiv> 1"
abbreviation SIGHASH_NONE :: u32 where "SIGHASH_NONE \<equiv> 2"
abbreviation SIGHASH_SINGLE :: u32 where "SIGHASH_SINGLE \<equiv> 3"
abbreviation SIGHASH_ANYONECANPAY :: u32 where "SIGHASH_ANYONECANPAY \<equiv> 0x80"

datatype script_flag =
    SCRIPT_VERIFY_P2SH | SCRIPT_VERIFY_STRICTENC | SCRIPT_VERIFY_DERSIG | SCRIPT_VERIFY_LOW_S
  | SCRIPT_VERIFY_NULLDUMMY | SCRIPT_VERIFY_SIGPUSHONLY | SCRIPT_VERIFY_MINIMALDATA
  | SCRIPT_VERIFY_DISCOURAGE_UPGRADABLE_NOPS | SCRIPT_VERIFY_CLEANSTACK
  | SCRIPT_VERIFY_CHECKLOCKTIMEVERIFY | SCRIPT_VERIFY_CHECKSEQUENCEVERIFY | SCRIPT_VERIFY_WITNESS
  | SCRIPT_VERIFY_DISCOURAGE_UPGRADABLE_WITNESS_PROGRAM | SCRIPT_VERIFY_MINIMALIF
  | SCRIPT_VERIFY_NULLFAIL | SCRIPT_VERIFY_WITNESS_PUBKEYTYPE

text \<open>The bit of each flag, and \<open>flags & f\<close> on the \<open>unsigned int\<close> that holds them.\<close>

primrec flag_bit :: "script_flag \<Rightarrow> nat" where
  "flag_bit SCRIPT_VERIFY_P2SH = 0"
| "flag_bit SCRIPT_VERIFY_STRICTENC = 1"
| "flag_bit SCRIPT_VERIFY_DERSIG = 2"
| "flag_bit SCRIPT_VERIFY_LOW_S = 3"
| "flag_bit SCRIPT_VERIFY_NULLDUMMY = 4"
| "flag_bit SCRIPT_VERIFY_SIGPUSHONLY = 5"
| "flag_bit SCRIPT_VERIFY_MINIMALDATA = 6"
| "flag_bit SCRIPT_VERIFY_DISCOURAGE_UPGRADABLE_NOPS = 7"
| "flag_bit SCRIPT_VERIFY_CLEANSTACK = 8"
| "flag_bit SCRIPT_VERIFY_CHECKLOCKTIMEVERIFY = 9"
| "flag_bit SCRIPT_VERIFY_CHECKSEQUENCEVERIFY = 10"
| "flag_bit SCRIPT_VERIFY_WITNESS = 11"
| "flag_bit SCRIPT_VERIFY_DISCOURAGE_UPGRADABLE_WITNESS_PROGRAM = 12"
| "flag_bit SCRIPT_VERIFY_MINIMALIF = 13"
| "flag_bit SCRIPT_VERIFY_NULLFAIL = 14"
| "flag_bit SCRIPT_VERIFY_WITNESS_PUBKEYTYPE = 15"

definition has_flag :: "u32 \<Rightarrow> script_flag \<Rightarrow> bool" where
  "has_flag flags f \<longleftrightarrow> flags AND push_bit (flag_bit f) 1 \<noteq> 0"

datatype SigVersion = SIGVERSION_BASE | SIGVERSION_WITNESS_V0

section \<open>Cryptography used by the interpreter\<close>

record crypto =
  RIPEMD160 :: "bytes \<Rightarrow> bytes"
  SHA1 :: "bytes \<Rightarrow> bytes"
  SHA256 :: "bytes \<Rightarrow> bytes"
  CheckLowS :: "bytes \<Rightarrow> bool"

definition Hash160 :: "crypto \<Rightarrow> bytes \<Rightarrow> bytes" where
  "Hash160 cr b = RIPEMD160 cr (SHA256 cr b)"

definition Hash256 :: "crypto \<Rightarrow> bytes \<Rightarrow> bytes" where
  "Hash256 cr b = SHA256 cr (SHA256 cr b)"

section \<open>Public keys\<close>

definition IsCompressedOrUncompressedPubKey :: "bytes \<Rightarrow> bool" where
  "IsCompressedOrUncompressedPubKey vchPubKey =
     (if length vchPubKey < 33 then False
      else if vchPubKey ! 0 = 0x04 then length vchPubKey = 65
      else if vchPubKey ! 0 = 0x02 \<or> vchPubKey ! 0 = 0x03 then length vchPubKey = 33
      else False)"

definition IsCompressedPubKey :: "bytes \<Rightarrow> bool" where
  "IsCompressedPubKey vchPubKey =
     (if length vchPubKey \<noteq> 33 then False
      else if vchPubKey ! 0 \<noteq> 0x02 \<and> vchPubKey ! 0 \<noteq> 0x03 then False
      else True)"

section \<open>Signatures\<close>

definition high_bit :: "u8 \<Rightarrow> bool" where
  "high_bit b \<longleftrightarrow> b AND 0x80 \<noteq> 0"

definition IsValidSignatureEncoding :: "bytes \<Rightarrow> bool" where
  "IsValidSignatureEncoding sig =
     (if length sig < 9 then False
      else if length sig > 73 then False
      else if sig ! 0 \<noteq> 0x30 then False
      else if unat (sig ! 1) \<noteq> length sig - 3 then False
      else
        let lenR = unat (sig ! 3)
        in if 5 + lenR \<ge> length sig then False
           else
             let lenS = unat (sig ! (5 + lenR))
             in if lenR + lenS + 7 \<noteq> length sig then False
                else if sig ! 2 \<noteq> 0x02 then False
                else if lenR = 0 then False
                else if high_bit (sig ! 4) then False
                else if lenR > 1 \<and> sig ! 4 = 0x00 \<and> \<not> high_bit (sig ! 5) then False
                else if sig ! (lenR + 4) \<noteq> 0x02 then False
                else if lenS = 0 then False
                else if high_bit (sig ! (lenR + 6)) then False
                else if lenS > 1 \<and> sig ! (lenR + 6) = 0x00 \<and> \<not> high_bit (sig ! (lenR + 7)) then False
                else True)"

definition IsLowDERSignature :: "crypto \<Rightarrow> bytes \<Rightarrow> unit res" where
  "IsLowDERSignature cr vchSig =
     (if \<not> IsValidSignatureEncoding vchSig then Err SCRIPT_ERR_SIG_DER
      else if \<not> CheckLowS cr (take (length vchSig - 1) vchSig) then Err SCRIPT_ERR_SIG_HIGH_S
      else Ok ())"

definition IsDefinedHashtypeSignature :: "bytes \<Rightarrow> bool" where
  "IsDefinedHashtypeSignature vchSig =
     (if length vchSig = 0 then False
      else let nHashType = vchSig ! (length vchSig - 1) AND NOT 0x80
           in \<not> (nHashType < 1 \<or> nHashType > 3))"

definition CheckSignatureEncoding :: "crypto \<Rightarrow> bytes \<Rightarrow> u32 \<Rightarrow> unit res" where
  "CheckSignatureEncoding cr vchSig flags =
     (if length vchSig = 0 then Ok ()
      else if (has_flag flags SCRIPT_VERIFY_DERSIG \<or> has_flag flags SCRIPT_VERIFY_LOW_S
               \<or> has_flag flags SCRIPT_VERIFY_STRICTENC) \<and> \<not> IsValidSignatureEncoding vchSig
        then Err SCRIPT_ERR_SIG_DER
      else if has_flag flags SCRIPT_VERIFY_LOW_S \<and> IsLowDERSignature cr vchSig \<noteq> Ok ()
        then IsLowDERSignature cr vchSig
      else if has_flag flags SCRIPT_VERIFY_STRICTENC \<and> \<not> IsDefinedHashtypeSignature vchSig
        then Err SCRIPT_ERR_SIG_HASHTYPE
      else Ok ())"

definition CheckPubKeyEncoding :: "bytes \<Rightarrow> u32 \<Rightarrow> SigVersion \<Rightarrow> unit res" where
  "CheckPubKeyEncoding vchPubKey flags sigversion =
     (if has_flag flags SCRIPT_VERIFY_STRICTENC \<and> \<not> IsCompressedOrUncompressedPubKey vchPubKey
        then Err SCRIPT_ERR_PUBKEYTYPE
      else if has_flag flags SCRIPT_VERIFY_WITNESS_PUBKEYTYPE \<and> sigversion = SIGVERSION_WITNESS_V0
              \<and> \<not> IsCompressedPubKey vchPubKey
        then Err SCRIPT_ERR_WITNESS_PUBKEYTYPE
      else Ok ())"

section \<open>Pushes\<close>

definition CheckMinimalPush :: "bytes \<Rightarrow> u8 \<Rightarrow> bool" where
  "CheckMinimalPush data opcode =
     (if length data = 0 then opcode = OP_0
      else if length data = 1 \<and> data ! 0 \<ge> 1 \<and> data ! 0 \<le> 16 then opcode = OP_1 + (data ! 0 - 1)
      else if length data = 1 \<and> data ! 0 = 0x81 then opcode = OP_1NEGATE
      else if length data \<le> 75 then unat opcode = length data
      else if length data \<le> 255 then opcode = OP_PUSHDATA1
      else if length data \<le> 65535 then opcode = OP_PUSHDATA2
      else True)"

section \<open>Stack access\<close>

definition CastToBool :: "bytes \<Rightarrow> bool" where
  "CastToBool vch = (case dropWhile (\<lambda>b. b = 0) vch of
     [] \<Rightarrow> False
   | b # rest \<Rightarrow> \<not> (rest = [] \<and> b = 0x80))"

text \<open>A stack is a list whose head is the \<open>back()\<close> of the vector; \<open>stacktop(-k)\<close> is \<open>at(size() - k)\<close>.\<close>

definition stacktop :: "nat \<Rightarrow> bytes list \<Rightarrow> bytes res" where
  "stacktop k st = (if 1 \<le> k \<and> k \<le> length st then Ok (st ! (k - 1)) else Throw OutOfRange)"

definition popstack :: "bytes list \<Rightarrow> bytes list res" where
  "popstack st = (case st of [] \<Rightarrow> Throw StackEmpty | _ # st' \<Rightarrow> Ok st')"

definition num_arg :: "bytes \<Rightarrow> bool \<Rightarrow> nat \<Rightarrow> int res" where
  "num_arg vch fRequireMinimal nMaxNumSize =
     (case CScriptNum vch fRequireMinimal nMaxNumSize of None \<Rightarrow> Throw ScriptNumError | Some n \<Rightarrow> Ok n)"

definition asserted :: "'a option \<Rightarrow> 'a res" where
  "asserted x = (case x of None \<Rightarrow> Abort | Some y \<Rightarrow> Ok y)"

section \<open>Laws\<close>

lemma bnd_assoc: "bnd (bnd m f) g = bnd m (\<lambda>x. bnd (f x) g)"
  by (cases m) auto

lemma bnd_Ok_right [simp]: "bnd m Ok = m"
  by (cases m) auto

end
