(* ===== verification/Interpreter.thy ===== *)
theory Interpreter
  imports SigEncoding
begin

unbundle bit_operations_syntax

text \<open>
  \<open>EvalScript\<close> of \<open>src/src/script/interpreter.cpp\<close>: the state of the stack machine, one definition per group of
  opcodes of its switch, the step that reads and executes one instruction, and the loop. The position
  \<open>pc\<close> is the suffix of the script still to be executed and is passed along with the state; \<open>pbegincodehash\<close>
  is such a suffix too. Stacks, and the vector \<open>vfExec\<close> of open conditionals, have their \<open>back()\<close> at the head
  of a list. Where an opcode only needs its operands to be there, the size test is the pattern match on the
  stack; \<open>OP_PICK\<close>, \<open>OP_ROLL\<close> and \<open>OP_CHECKMULTISIG\<close> index the stack by computed positions and do so through
  \<open>stacktop\<close>, which throws out of range.
\<close>

section \<open>State\<close>

record BaseSignatureChecker =
  CheckSig :: "bytes \<Rightarrow> bytes \<Rightarrow> bytes \<Rightarrow> SigVersion \<Rightarrow> bool res"
  CheckLockTime :: "int \<Rightarrow> bool"
  CheckSequence :: "int \<Rightarrow> bool"

record evalctx =
  ctx_flags :: u32
  ctx_checker :: BaseSignatureChecker
  ctx_sigversion :: SigVersion
  ctx_crypto :: crypto

record evalstate =
  ev_stack :: "bytes list"
  ev_altstack :: "bytes list"
  ev_vfExec :: "bool list"
  ev_pbegincodehash :: bytes
  ev_nOpCount :: nat

abbreviation flag :: "evalctx \<Rightarrow> script_flag \<Rightarrow> bool" where
  "flag c f \<equiv> has_flag (ctx_flags c) f"

abbreviation fRequireMinimal :: "evalctx \<Rightarrow> bool" where
  "fRequireMinimal c \<equiv> flag c SCRIPT_VERIFY_MINIMALDATA"

definition vchFalse :: bytes where "vchFalse = []"
definition vchTrue :: bytes where "vchTrue = [1]"

definition bool_vch :: "bool \<Rightarrow> bytes" where
  "bool_vch b = (if b then vchTrue else vchFalse)"

abbreviation with_stack :: "evalstate \<Rightarrow> bytes list \<Rightarrow> evalstate" where
  "with_stack s st \<equiv> s\<lparr>ev_stack := st\<rparr>"

abbreviation ERR_STACK :: "'a res" where
  "ERR_STACK \<equiv> Err SCRIPT_ERR_INVALID_STACK_OPERATION"

section \<open>Constants and control flow\<close>

definition op_push_value :: "u8 \<Rightarrow> bytes list \<Rightarrow> bytes list res" where
  "op_push_value opcode st = Ok (getvch (uint opcode - (uint OP_1 - 1)) # st)"

definition upgradable_nop :: "evalctx \<Rightarrow> bytes list \<Rightarrow> bytes list res" where
  "upgradable_nop c st =
     (if flag c SCRIPT_VERIFY_DISCOURAGE_UPGRADABLE_NOPS
      then Err SCRIPT_ERR_DISCOURAGE_UPGRADABLE_NOPS else Ok st)"

definition SEQUENCE_LOCKTIME_DISABLE_FLAG :: int where
  "SEQUENCE_LOCKTIME_DISABLE_FLAG = 2 ^ 31"

definition op_checklocktimeverify :: "evalctx \<Rightarrow> bytes list \<Rightarrow> bytes list res" where
  "op_checklocktimeverify c st =
     (if \<not> flag c SCRIPT_VERIFY_CHECKLOCKTIMEVERIFY then upgradable_nop c st
      else case st of
        [] \<Rightarrow> ERR_STACK
      | vch # _ \<Rightarrow> bnd (num_arg vch (fRequireMinimal c) 5) (\<lambda>nLockTime.
          if nLockTime < 0 then Err SCRIPT_ERR_NEGATIVE_LOCKTIME
          else if \<not> CheckLockTime (ctx_checker c) nLockTime then Err SCRIPT_ERR_UNSATISFIED_LOCKTIME
          else Ok st))"

definition op_checksequenceverify :: "evalctx \<Rightarrow> bytes list \<Rightarrow> bytes list res" where
  "op_checksequenceverify c st =
     (if \<not> flag c SCRIPT_VERIFY_CHECKSEQUENCEVERIFY then upgradable_nop c st
      else case st of
        [] \<Rightarrow> ERR_STACK
      | vch # _ \<Rightarrow> bnd (num_arg vch (fRequireMinimal c) 5) (\<lambda>nSequence.
          if nSequence < 0 then Err SCRIPT_ERR_NEGATIVE_LOCKTIME
          else if nSequence AND SEQUENCE_LOCKTIME_DISABLE_FLAG \<noteq> 0 then Ok st
          else if \<not> CheckSequence (ctx_checker c) nSequence then Err SCRIPT_ERR_UNSATISFIED_LOCKTIME
          else Ok st))"

definition minimal_if :: "bytes \<Rightarrow> bool" where
  "minimal_if vch \<longleftrightarrow> \<not> (length vch > 1 \<or> (length vch = 1 \<and> vch ! 0 \<noteq> 1))"

definition op_if :: "evalctx \<Rightarrow> u8 \<Rightarrow> bool \<Rightarrow> evalstate \<Rightarrow> evalstate res" where
  "op_if c opcode fExec s =
     (if fExec then
        (case ev_stack s of
           [] \<Rightarrow> Err SCRIPT_ERR_UNBALANCED_CONDITIONAL
         | vch # st \<Rightarrow>
             if ctx_sigversion c = SIGVERSION_WITNESS_V0 \<and> flag c SCRIPT_VERIFY_MINIMALIF \<and> \<not> minimal_if vch
             then Err SCRIPT_ERR_MINIMALIF
             else Ok (s\<lparr>ev_stack := st,
                        ev_vfExec := (if opcode = OP_NOTIF then \<not> CastToBool vch else CastToBool vch) # ev_vfExec s\<rparr>))
      else Ok (s\<lparr>ev_vfExec := False # ev_vfExec s\<rparr>))"

definition op_else :: "evalstate \<Rightarrow> evalstate res" where
  "op_else s = (case ev_vfExec s of
     [] \<Rightarrow> Err SCRIPT_ERR_UNBALANCED_CONDITIONAL
   | b # bs \<Rightarrow> Ok (s\<lparr>ev_vfExec := (\<not> b) # bs\<rparr>))"

definition op_endif :: "evalstate \<Rightarrow> evalstate res" where
  "op_endif s = (case ev_vfExec s of
     [] \<Rightarrow> Err SCRIPT_ERR_UNBALANCED_CONDITIONAL
   | b # bs \<Rightarrow> Ok (s\<lparr>ev_vfExec := bs\<rparr>))"

definition op_verify :: "bytes list \<Rightarrow> bytes list res" where
  "op_verify st = (case st of
     [] \<Rightarrow> ERR_STACK
   | vch # st' \<Rightarrow> if CastToBool vch then Ok st' else Err SCRIPT_ERR_VERIFY)"

section \<open>Stack operations\<close>

definition op_toaltstack :: "evalstate \<Rightarrow> evalstate res" where
  "op_toaltstack s = (case ev_stack s of
     [] \<Rightarrow> ERR_STACK
   | vch # st \<Rightarrow> Ok (s\<lparr>ev_stack := st, ev_altstack := vch # ev_altstack s\<rparr>))"

definition op_fromaltstack :: "evalstate \<Rightarrow> evalstate res" where
  "op_fromaltstack s = (case ev_altstack s of
     [] \<Rightarrow> Err SCRIPT_ERR_INVALID_ALTSTACK_OPERATION
   | vch # alt \<Rightarrow> Ok (s\<lparr>ev_stack := vch # ev_stack s, ev_altstack := alt\<rparr>))"

fun op_2drop :: "bytes list \<Rightarrow> bytes list res" where
  "op_2drop (x2 # x1 # st) = Ok st"
| "op_2drop st = ERR_STACK"

fun op_2dup :: "bytes list \<Rightarrow> bytes list res" where
  "op_2dup (x2 # x1 # st) = Ok (x2 # x1 # x2 # x1 # st)"
| "op_2dup st = ERR_STACK"

fun op_3dup :: "bytes list \<Rightarrow> bytes list res" where
  "op_3dup (x3 # x2 # x1 # st) = Ok (x3 # x2 # x1 # x3 # x2 # x1 # st)"
| "op_3dup st = ERR_STACK"

fun op_2over :: "bytes list \<Rightarrow> bytes list res" where
  "op_2over (x4 # x3 # x2 # x1 # st) = Ok (x2 # x1 # x4 # x3 # x2 # x1 # st)"
| "op_2over st = ERR_STACK"

fun op_2rot :: "bytes list \<Rightarrow> bytes list res" where
  "op_2rot (x6 # x5 # x4 # x3 # x2 # x1 # st) = Ok (x2 # x1 # x6 # x5 # x4 # x3 # st)"
| "op_2rot st = ERR_STACK"

fun op_2swap :: "bytes list \<Rightarrow> bytes list res" where
  "op_2swap (x4 # x3 # x2 # x1 # st) = Ok (x2 # x1 # x4 # x3 # st)"
| "op_2swap st = ERR_STACK"

fun op_ifdup :: "bytes list \<Rightarrow> bytes list res" where
  "op_ifdup (x # st) = Ok (if CastToBool x then x # x # st else x # st)"
| "op_ifdup [] = ERR_STACK"

definition op_depth :: "bytes list \<Rightarrow> bytes list res" where
  "op_depth st = Ok (getvch (int (length st)) # st)"

fun op_drop :: "bytes list \<Rightarrow> bytes list res" where
  "op_drop (x # st) = Ok st"
| "op_drop [] = ERR_STACK"

fun op_dup :: "bytes list \<Rightarrow> bytes list res" where
  "op_dup (x # st) = Ok (x # x # st)"
| "op_dup [] = ERR_STACK"

fun op_nip :: "bytes list \<Rightarrow> bytes list res" where
  "op_nip (x2 # x1 # st) = Ok (x2 # st)"
| "op_nip st = ERR_STACK"

fun op_over :: "bytes list \<Rightarrow> bytes list res" where
  "op_over (x2 # x1 # st) = Ok (x1 # x2 # x1 # st)"
| "op_over st = ERR_STACK"

text \<open>\<open>stack.erase(stack.end() - n - 1)\<close> and \<open>stacktop(-n - 1)\<close>, after the count has been popped.\<close>

definition stack_erase :: "nat \<Rightarrow> bytes list \<Rightarrow> bytes list" where
  "stack_erase n st = take n st @ drop (n + 1) st"

definition op_pick_roll :: "evalctx \<Rightarrow> u8 \<Rightarrow> bytes list \<Rightarrow> bytes list res" where
  "op_pick_roll c opcode st =
     (if length st < 2 then ERR_STACK
      else bnd (stacktop 1 st) (\<lambda>vch. bnd (num_arg vch (fRequireMinimal c) nDefaultMaxNumSize) (\<lambda>bn.
           let n = getint bn
           in bnd (popstack st) (\<lambda>st.
                if n < 0 \<or> n \<ge> int (length st) then ERR_STACK
                else bnd (stacktop (nat n + 1) st) (\<lambda>vch.
                     Ok (vch # (if opcode = OP_ROLL then stack_erase (nat n) st else st)))))))"

fun op_rot :: "bytes list \<Rightarrow> bytes list res" where
  "op_rot (x3 # x2 # x1 # st) = Ok (x1 # x3 # x2 # st)"
| "op_rot st = ERR_STACK"

fun op_swap :: "bytes list \<Rightarrow> bytes list res" where
  "op_swap (x2 # x1 # st) = Ok (x1 # x2 # st)"
| "op_swap st = ERR_STACK"

fun op_tuck :: "bytes list \<Rightarrow> bytes list res" where
  "op_tuck (x2 # x1 # st) = Ok (x2 # x1 # x2 # st)"
| "op_tuck st = ERR_STACK"

fun op_size :: "bytes list \<Rightarrow> bytes list res" where
  "op_size (x # st) = Ok (getvch (int (length x)) # x # st)"
| "op_size [] = ERR_STACK"

section \<open>Comparison, arithmetic and hashing\<close>

fun op_equal :: "u8 \<Rightarrow> bytes list \<Rightarrow> bytes list res" where
  "op_equal opcode (x2 # x1 # st) =
     (if opcode = OP_EQUALVERIFY
      then if x1 = x2 then Ok st else Err SCRIPT_ERR_EQUALVERIFY
      else Ok (bool_vch (x1 = x2) # st))"
| "op_equal opcode st = ERR_STACK"

definition int_of_bool :: "bool \<Rightarrow> int" where
  "int_of_bool b = (if b then 1 else 0)"

definition unary_num :: "u8 \<Rightarrow> int \<Rightarrow> int res" where
  "unary_num opcode bn =
     (if opcode = OP_1ADD then asserted (num_add_assign bn 1)
      else if opcode = OP_1SUB then asserted (num_sub_assign bn 1)
      else if opcode = OP_NEGATE then asserted (num_neg bn)
      else if opcode = OP_ABS then if bn < 0 then asserted (num_neg bn) else Ok bn
      else if opcode = OP_NOT then Ok (int_of_bool (bn = 0))
      else if opcode = OP_0NOTEQUAL then Ok (int_of_bool (bn \<noteq> 0))
      else Abort)"

definition op_unary :: "evalctx \<Rightarrow> u8 \<Rightarrow> bytes list \<Rightarrow> bytes list res" where
  "op_unary c opcode st = (case st of
     [] \<Rightarrow> ERR_STACK
   | vch # st' \<Rightarrow> bnd (num_arg vch (fRequireMinimal c) nDefaultMaxNumSize) (\<lambda>bn.
       bnd (unary_num opcode bn) (\<lambda>bn. Ok (getvch bn # st'))))"

definition binary_num :: "u8 \<Rightarrow> int \<Rightarrow> int \<Rightarrow> int res" where
  "binary_num opcode bn1 bn2 =
     (if opcode = OP_ADD then asserted (num_plus bn1 bn2)
      else if opcode = OP_SUB then asserted (num_minus bn1 bn2)
      else if opcode = OP_BOOLAND then Ok (int_of_bool (bn1 \<noteq> 0 \<and> bn2 \<noteq> 0))
      else if opcode = OP_BOOLOR then Ok (int_of_bool (bn1 \<noteq> 0 \<or> bn2 \<noteq> 0))
      else if opcode = OP_NUMEQUAL then Ok (int_of_bool (bn1 = bn2))
      else if opcode = OP_NUMEQUALVERIFY then Ok (int_of_bool (bn1 = bn2))
      else if opcode = OP_NUMNOTEQUAL then Ok (int_of_bool (bn1 \<noteq> bn2))
      else if opcode = OP_LESSTHAN then Ok (int_of_bool (bn1 < bn2))
      else if opcode = OP_GREATERTHAN then Ok (int_of_bool (bn1 > bn2))
      else if opcode = OP_LESSTHANOREQUAL then Ok (int_of_bool (bn1 \<le> bn2))
      else if opcode = OP_GREATERTHANOREQUAL then Ok (int_of_bool (bn1 \<ge> bn2))
      else if opcode = OP_MIN then Ok (if bn1 < bn2 then bn1 else bn2)
      else if opcode = OP_MAX then Ok (if bn1 > bn2 then bn1 else bn2)
      else Abort)"

fun op_binary :: "evalctx \<Rightarrow> u8 \<Rightarrow> bytes list \<Rightarrow> bytes list res" where
  "op_binary c opcode (x2 # x1 # st) =
     bnd (num_arg x1 (fRequireMinimal c) nDefaultMaxNumSize) (\<lambda>bn1.
     bnd (num_arg x2 (fRequireMinimal c) nDefaultMaxNumSize) (\<lambda>bn2.
     bnd (binary_num opcode bn1 bn2) (\<lambda>bn.
       if opcode = OP_NUMEQUALVERIFY
       then if CastToBool (getvch bn) then Ok st else Err SCRIPT_ERR_NUMEQUALVERIFY
       else Ok (getvch bn # st))))"
| "op_binary c opcode st = ERR_STACK"

fun op_within :: "evalctx \<Rightarrow> bytes list \<Rightarrow> bytes list res" where
  "op_within c (x3 # x2 # x1 # st) =
     bnd (num_arg x1 (fRequireMinimal c) nDefaultMaxNumSize) (\<lambda>bn1.
     bnd (num_arg x2 (fRequireMinimal c) nDefaultMaxNumSize) (\<lambda>bn2.
     bnd (num_arg x3 (fRequireMinimal c) nDefaultMaxNumSize) (\<lambda>bn3.
       Ok (bool_vch (bn2 \<le> bn1 \<and> bn1 < bn3) # st))))"
| "op_within c st = ERR_STACK"

definition op_hash :: "evalctx \<Rightarrow> u8 \<Rightarrow> bytes list \<Rightarrow> bytes list res" where
  "op_hash c opcode st = (case st of
     [] \<Rightarrow> ERR_STACK
   | vch # st' \<Rightarrow>
       let cr = ctx_crypto c
       in Ok ((if opcode = OP_RIPEMD160 then RIPEMD160 cr vch
               else if opcode = OP_SHA1 then SHA1 cr vch
               else if opcode = OP_SHA256 then SHA256 cr vch
               else if opcode = OP_HASH160 then Hash160 cr vch
               else Hash256 cr vch) # st'))"

section \<open>Signature checks\<close>

definition op_checksig :: "evalctx \<Rightarrow> u8 \<Rightarrow> evalstate \<Rightarrow> evalstate res" where
  "op_checksig c opcode s = (case ev_stack s of
     vchPubKey # vchSig # st \<Rightarrow>
       (let scriptCode = (if ctx_sigversion c = SIGVERSION_BASE
                          then fst (FindAndDelete (ev_pbegincodehash s) (push_data vchSig))
                          else ev_pbegincodehash s)
        in bnd (CheckSignatureEncoding (ctx_crypto c) vchSig (ctx_flags c)) (\<lambda>_.
           bnd (CheckPubKeyEncoding vchPubKey (ctx_flags c) (ctx_sigversion c)) (\<lambda>_.
           bnd (CheckSig (ctx_checker c) vchSig vchPubKey scriptCode (ctx_sigversion c)) (\<lambda>fSuccess.
             if \<not> fSuccess \<and> flag c SCRIPT_VERIFY_NULLFAIL \<and> length vchSig \<noteq> 0
             then Err SCRIPT_ERR_SIG_NULLFAIL
             else if opcode = OP_CHECKSIGVERIFY
             then if fSuccess then Ok (with_stack s st) else Err SCRIPT_ERR_CHECKSIGVERIFY
             else Ok (with_stack s (bool_vch fSuccess # st))))))
   | _ \<Rightarrow> ERR_STACK)"

text \<open>The three loops of \<open>OP_CHECKMULTISIG\<close>: dropping the signatures from the script code, matching the
  signatures against the keys, and cleaning up the stack.\<close>

fun multisig_drop_sigs :: "evalctx \<Rightarrow> bytes list \<Rightarrow> nat \<Rightarrow> nat \<Rightarrow> bytes \<Rightarrow> bytes res" where
  "multisig_drop_sigs c st isig 0 scriptCode = Ok scriptCode"
| "multisig_drop_sigs c st isig (Suc n) scriptCode =
     bnd (stacktop isig st) (\<lambda>vchSig.
       multisig_drop_sigs c st (isig + 1) n
         (if ctx_sigversion c = SIGVERSION_BASE
          then fst (FindAndDelete scriptCode (push_data vchSig)) else scriptCode))"

lemma bnd_cong [fundef_cong]:
  "m = m' \<Longrightarrow> (\<And>x. m' = Ok x \<Longrightarrow> f x = f' x) \<Longrightarrow> bnd m f = bnd m' f'"
  by (cases m') auto

function multisig_loop ::
  "evalctx \<Rightarrow> bytes list \<Rightarrow> bytes \<Rightarrow> nat \<Rightarrow> nat \<Rightarrow> int \<Rightarrow> int \<Rightarrow> bool \<Rightarrow> bool res" where
  "multisig_loop c st scriptCode isig ikey nSigsCount nKeysCount fSuccess =
     (if fSuccess \<and> nSigsCount > 0 then
        bnd (stacktop isig st) (\<lambda>vchSig.
        bnd (stacktop ikey st) (\<lambda>vchPubKey.
        bnd (CheckSignatureEncoding (ctx_crypto c) vchSig (ctx_flags c)) (\<lambda>_.
        bnd (CheckPubKeyEncoding vchPubKey (ctx_flags c) (ctx_sigversion c)) (\<lambda>_.
        bnd (CheckSig (ctx_checker c) vchSig vchPubKey scriptCode (ctx_sigversion c)) (\<lambda>fOk.
          let isig' = (if fOk then isig + 1 else isig);
              nSigsCount' = (if fOk then nSigsCount - 1 else nSigsCount);
              ikey' = ikey + 1;
              nKeysCount' = nKeysCount - 1
          in multisig_loop c st scriptCode isig' ikey' nSigsCount' nKeysCount'
               (\<not> nSigsCount' > nKeysCount'))))))
      else Ok fSuccess)"
  by pat_completeness auto
termination
  by (relation "measure (\<lambda>(c, st, sc, isig, ikey, nS, nK, f). if f then nat (nK + 1) + 1 else 0)") auto

declare multisig_loop.simps [simp del]

fun multisig_cleanup :: "evalctx \<Rightarrow> bool \<Rightarrow> nat \<Rightarrow> nat \<Rightarrow> bytes list \<Rightarrow> bytes list res" where
  "multisig_cleanup c fSuccess 0 ikey2 st = Ok st"
| "multisig_cleanup c fSuccess (Suc n) ikey2 st =
     bnd (if \<not> fSuccess \<and> flag c SCRIPT_VERIFY_NULLFAIL \<and> ikey2 = 0
          then bnd (stacktop 1 st) (\<lambda>vch. require (length vch = 0) SCRIPT_ERR_SIG_NULLFAIL)
          else Ok ()) (\<lambda>_.
     bnd (popstack st) (\<lambda>st. multisig_cleanup c fSuccess n (ikey2 - 1) st))"

definition multisig_finish :: "evalctx \<Rightarrow> u8 \<Rightarrow> bool \<Rightarrow> bytes list \<Rightarrow> bytes list res" where
  "multisig_finish c opcode fSuccess st = (case st of
     [] \<Rightarrow> ERR_STACK
   | dummy # st' \<Rightarrow>
       if flag c SCRIPT_VERIFY_NULLDUMMY \<and> length dummy \<noteq> 0 then Err SCRIPT_ERR_SIG_NULLDUMMY
       else if opcode = OP_CHECKMULTISIGVERIFY
       then if fSuccess then Ok st' else Err SCRIPT_ERR_CHECKMULTISIGVERIFY
       else Ok (bool_vch fSuccess # st'))"

definition op_checkmultisig :: "evalctx \<Rightarrow> u8 \<Rightarrow> evalstate \<Rightarrow> evalstate res" where
  "op_checkmultisig c opcode s =
     (let st = ev_stack s in
      if length st < 1 then ERR_STACK
      else bnd (stacktop 1 st) (\<lambda>vch. bnd (num_arg vch (fRequireMinimal c) nDefaultMaxNumSize) (\<lambda>bnKeys.
        let nKeysCount = getint bnKeys in
        if nKeysCount < 0 \<or> nKeysCount > int MAX_PUBKEYS_PER_MULTISIG then Err SCRIPT_ERR_PUBKEY_COUNT
        else let nOpCount = ev_nOpCount s + nat nKeysCount in
        if nOpCount > MAX_OPS_PER_SCRIPT then Err SCRIPT_ERR_OP_COUNT
        else let ikey = 2; ikey2 = nat nKeysCount + 2; i = 2 + nat nKeysCount in
        if length st < i then ERR_STACK
        else bnd (stacktop i st) (\<lambda>nsig. bnd (num_arg nsig (fRequireMinimal c) nDefaultMaxNumSize) (\<lambda>bnSigs.
        let nSigsCount = getint bnSigs in
        if nSigsCount < 0 \<or> nSigsCount > nKeysCount then Err SCRIPT_ERR_SIG_COUNT
        else let isig = i + 1; i = i + 1 + nat nSigsCount in
        if length st < i then ERR_STACK
        else bnd (multisig_drop_sigs c st isig (nat nSigsCount) (ev_pbegincodehash s)) (\<lambda>scriptCode.
        bnd (multisig_loop c st scriptCode isig ikey nSigsCount nKeysCount True) (\<lambda>fSuccess.
        bnd (multisig_cleanup c fSuccess (i - 1) ikey2 st) (\<lambda>st.
        bnd (multisig_finish c opcode fSuccess st) (\<lambda>st.
          Ok (s\<lparr>ev_stack := st, ev_nOpCount := nOpCount\<rparr>))))))))))"

section \<open>The switch\<close>

text \<open>The cases that read and write the main stack only; \<^term>\<open>None\<close> for an opcode outside this group.\<close>

definition is_disabled :: "u8 \<Rightarrow> bool" where
  "is_disabled opcode \<longleftrightarrow>
     opcode \<in> {OP_CAT, OP_SUBSTR, OP_LEFT, OP_RIGHT, OP_INVERT, OP_AND, OP_OR, OP_XOR, OP_2MUL, OP_2DIV,
               OP_MUL, OP_DIV, OP_MOD, OP_LSHIFT, OP_RSHIFT}"

definition stack_switch1 :: "evalctx \<Rightarrow> u8 \<Rightarrow> (bytes list \<Rightarrow> bytes list res) option" where
  "stack_switch1 c opcode =
     (if opcode = OP_1NEGATE \<or> OP_1 \<le> opcode \<and> opcode \<le> OP_16 then Some (op_push_value opcode)
      else if opcode = OP_NOP then Some Ok
      else if opcode = OP_CHECKLOCKTIMEVERIFY then Some (op_checklocktimeverify c)
      else if opcode = OP_CHECKSEQUENCEVERIFY then Some (op_checksequenceverify c)
      else if opcode \<in> {OP_NOP1, OP_NOP4, OP_NOP5, OP_NOP6, OP_NOP7, OP_NOP8, OP_NOP9, OP_NOP10}
        then Some (upgradable_nop c)
      else if opcode = OP_VERIFY then Some op_verify
      else if opcode = OP_RETURN then Some (\<lambda>_. Err SCRIPT_ERR_OP_RETURN)
      else if opcode = OP_2DROP then Some op_2drop
      else if opcode = OP_2DUP then Some op_2dup
      else if opcode = OP_3DUP then Some op_3dup
      else if opcode = OP_2OVER then Some op_2over
      else if opcode = OP_2ROT then Some op_2rot
      else if opcode = OP_2SWAP then Some op_2swap
      else if opcode = OP_IFDUP then Some op_ifdup
      else if opcode = OP_DEPTH then Some op_depth
      else if opcode = OP_DROP then Some op_drop
      else if opcode = OP_DUP then Some op_dup
      else None)"

definition stack_switch2 :: "evalctx \<Rightarrow> u8 \<Rightarrow> (bytes list \<Rightarrow> bytes list res) option" where
  "stack_switch2 c opcode =
     (if opcode = OP_NIP then Some op_nip
      else if opcode = OP_OVER then Some op_over
      else if opcode = OP_PICK \<or> opcode = OP_ROLL then Some (op_pick_roll c opcode)
      else if opcode = OP_ROT then Some op_rot
      else if opcode = OP_SWAP then Some op_swap
      else if opcode = OP_TUCK then Some op_tuck
      else if opcode = OP_SIZE then Some op_size
      else if opcode = OP_EQUAL \<or> opcode = OP_EQUALVERIFY then Some (op_equal opcode)
      else if opcode \<in> {OP_1ADD, OP_1SUB, OP_NEGATE, OP_ABS, OP_NOT, OP_0NOTEQUAL} then Some (op_unary c opcode)
      else if opcode \<in> {OP_ADD, OP_SUB, OP_BOOLAND, OP_BOOLOR, OP_NUMEQUAL, OP_NUMEQUALVERIFY, OP_NUMNOTEQUAL,
                         OP_LESSTHAN, OP_GREATERTHAN, OP_LESSTHANOREQUAL, OP_GREATERTHANOREQUAL, OP_MIN, OP_MAX}
        then Some (op_binary c opcode)
      else if opcode = OP_WITHIN then Some (op_within c)
      else if opcode \<in> {OP_RIPEMD160, OP_SHA1, OP_SHA256, OP_HASH160, OP_HASH256} then Some (op_hash c opcode)
      else if opcode = OP_HVN_ASSET then Some Ok
      else None)"

text \<open>The whole switch; \<open>pc\<close> is the position after the instruction, where \<open>OP_CODESEPARATOR\<close> puts the code hash.\<close>

definition exec_op :: "evalctx \<Rightarrow> u8 \<Rightarrow> bytes \<Rightarrow> bool \<Rightarrow> evalstate \<Rightarrow> evalstate res" where
  "exec_op c opcode pc fExec s =
     (case stack_switch1 c opcode of
        Some f \<Rightarrow> bnd (f (ev_stack s)) (\<lambda>st. Ok (with_stack s st))
      | None \<Rightarrow>
     (case stack_switch2 c opcode of
        Some f \<Rightarrow> bnd (f (ev_stack s)) (\<lambda>st. Ok (with_stack s st))
      | None \<Rightarrow>
          if opcode = OP_IF \<or> opcode = OP_NOTIF then op_if c opcode fExec s
          else if opcode = OP_ELSE then op_else s
          else if opcode = OP_ENDIF then op_endif s
          else if opcode = OP_TOALTSTACK then op_toaltstack s
          else if opcode = OP_FROMALTSTACK then op_fromaltstack s
          else if opcode = OP_CODESEPARATOR then Ok (s\<lparr>ev_pbegincodehash := pc\<rparr>)
          else if opcode = OP_CHECKSIG \<or> opcode = OP_CHECKSIGVERIFY then op_checksig c opcode s
          else if opcode = OP_CHECKMULTISIG \<or> opcode = OP_CHECKMULTISIGVERIFY then op_checkmultisig c opcode s
          else Err SCRIPT_ERR_BAD_OPCODE))"

section \<open>One instruction, and the loop\<close>

definition exec_push :: "evalctx \<Rightarrow> u8 \<Rightarrow> bytes \<Rightarrow> evalstate \<Rightarrow> evalstate res" where
  "exec_push c opcode vchPushValue s =
     (if fRequireMinimal c \<and> \<not> CheckMinimalPush vchPushValue opcode then Err SCRIPT_ERR_MINIMALDATA
      else Ok (with_stack s (vchPushValue # ev_stack s)))"

definition eval_step :: "evalctx \<Rightarrow> bytes \<Rightarrow> evalstate \<Rightarrow> evalstate res" where
  "eval_step c pc s =
     (let fExec = (False \<notin> set (ev_vfExec s)); g = GetOp2 pc; opcode = opcodeRet g in
      if \<not> op_ok g then Err SCRIPT_ERR_BAD_OPCODE
      else if length (vchRet g) > MAX_SCRIPT_ELEMENT_SIZE then Err SCRIPT_ERR_PUSH_SIZE
      else
        let s = (if opcode > OP_16 then s\<lparr>ev_nOpCount := ev_nOpCount s + 1\<rparr> else s) in
        if opcode > OP_16 \<and> ev_nOpCount s > MAX_OPS_PER_SCRIPT then Err SCRIPT_ERR_OP_COUNT
        else if is_disabled opcode then Err SCRIPT_ERR_DISABLED_OPCODE
        else bnd (if fExec \<and> opcode \<le> OP_PUSHDATA4 then exec_push c opcode (vchRet g) s
                  else if fExec \<or> (OP_IF \<le> opcode \<and> opcode \<le> OP_ENDIF)
                    then exec_op c opcode (op_pc g) fExec s
                  else Ok s) (\<lambda>s.
             if length (ev_stack s) + length (ev_altstack s) > MAX_STACK_SIZE then Err SCRIPT_ERR_STACK_SIZE
             else Ok s))"

function eval_loop :: "evalctx \<Rightarrow> bytes \<Rightarrow> evalstate \<Rightarrow> evalstate res" where
  "eval_loop c pc s =
     (if pc = [] then Ok s
      else bnd (eval_step c pc s) (\<lambda>s. eval_loop c (op_pc (GetOp2 pc)) s))"
  by pat_completeness auto
termination
proof (relation "measure (\<lambda>(c, pc, s). length pc)", goal_cases)
  case (2 c pc s s')
  then have "op_ok (GetOp2 pc)" by (auto simp: eval_step_def Let_def split: if_splits)
  then show ?case by (simp add: GetOp2_decreases)
qed simp

declare eval_loop.simps [simp del]

lemma eval_loop_Nil [simp]: "eval_loop c [] s = Ok s"
  by (simp add: eval_loop.simps)

lemma eval_loop_step:
  "pc \<noteq> [] \<Longrightarrow> eval_loop c pc s = bnd (eval_step c pc s) (\<lambda>s. eval_loop c (op_pc (GetOp2 pc)) s)"
  by (simp add: eval_loop.simps [of c pc s])

definition init_state :: "bytes list \<Rightarrow> bytes \<Rightarrow> evalstate" where
  "init_state stack script =
     \<lparr>ev_stack = stack, ev_altstack = [], ev_vfExec = [], ev_pbegincodehash = script, ev_nOpCount = 0\<rparr>"

definition EvalScript :: "evalctx \<Rightarrow> bytes list \<Rightarrow> bytes \<Rightarrow> bytes list res" where
  "EvalScript c stack script =
     (if length script > MAX_SCRIPT_SIZE then Err SCRIPT_ERR_SCRIPT_SIZE
      else case eval_loop c script (init_state stack script) of
             Ok s \<Rightarrow> if ev_vfExec s \<noteq> [] then Err SCRIPT_ERR_UNBALANCED_CONDITIONAL else Ok (ev_stack s)
           | Err e \<Rightarrow> Err e
           | Throw _ \<Rightarrow> Err SCRIPT_ERR_UNKNOWN_ERROR
           | Abort \<Rightarrow> Abort)"

end
