(* ===== verification/SigHash.thy ===== *)
theory SigHash
  imports Transaction Interpreter
begin

unbundle bit_operations_syntax

text \<open>
  The signature hash and the transaction checker of \<open>src/src/script/interpreter.cpp\<close>. The bytes a
  \<open>CTransactionSignatureSerializer\<close> or the segregated-witness branch of \<open>SignatureHash\<close> feeds to the hash writer
  are the \<open>preimage\<close>; the double SHA-256 is the parameter \<open>hash256\<close>. The signature verification of
  \<open>CPubKey::Verify\<close> is the parameter \<open>verify\<close>. An assertion that fails is \<^term>\<open>None\<close>.
\<close>

section \<open>The script code without its code separators\<close>

function count_codeseparators :: "bytes \<Rightarrow> nat" where
  "count_codeseparators it =
     (if op_ok (GetOp2 it)
      then (if opcodeRet (GetOp2 it) = OP_CODESEPARATOR then 1 else 0) + count_codeseparators (op_pc (GetOp2 it))
      else 0)"
  by pat_completeness auto
termination
  by (relation "measure length") (auto simp: GetOp2_decreases)

function write_code :: "bytes \<Rightarrow> bytes \<Rightarrow> bytes" where
  "write_code it itBegin =
     (let it' = op_pc (GetOp2 it) in
      if op_ok (GetOp2 it)
      then if opcodeRet (GetOp2 it) = OP_CODESEPARATOR
           then take (length itBegin - length it' - 1) itBegin @ write_code it' it'
           else write_code it' itBegin
      else if itBegin \<noteq> [] then take (length itBegin - length it') itBegin else [])"
  by pat_completeness auto
termination
  by (relation "measure (\<lambda>(it, itBegin). length it)") (auto simp: GetOp2_decreases)

declare count_codeseparators.simps [simp del] write_code.simps [simp del]

definition SerializeScriptCode :: "bytes \<Rightarrow> bytes" where
  "SerializeScriptCode scriptCode =
     WriteCompactSize (length scriptCode - count_codeseparators scriptCode) @ write_code scriptCode scriptCode"

section \<open>The serializer of the original signature hash\<close>

definition fAnyoneCanPay :: "u32 \<Rightarrow> bool" where
  "fAnyoneCanPay nHashType \<longleftrightarrow> nHashType AND SIGHASH_ANYONECANPAY \<noteq> 0"

definition fHashSingle :: "u32 \<Rightarrow> bool" where
  "fHashSingle nHashType \<longleftrightarrow> nHashType AND 0x1f = SIGHASH_SINGLE"

definition fHashNone :: "u32 \<Rightarrow> bool" where
  "fHashNone nHashType \<longleftrightarrow> nHashType AND 0x1f = SIGHASH_NONE"

definition SerializeInput :: "CTransaction \<Rightarrow> bytes \<Rightarrow> nat \<Rightarrow> u32 \<Rightarrow> nat \<Rightarrow> bytes" where
  "SerializeInput txTo scriptCode nIn ht nInput0 =
     (let nInput = (if fAnyoneCanPay ht then nIn else nInput0) in
      ser_COutPoint (txin_prevout (tx_vin txTo ! nInput))
      @ (if nInput \<noteq> nIn then Serialize_bytes [] else SerializeScriptCode scriptCode)
      @ (if nInput \<noteq> nIn \<and> (fHashSingle ht \<or> fHashNone ht) then ser_writedata32 0
         else ser_writedata32 (txin_nSequence (tx_vin txTo ! nInput))))"

definition SerializeOutput :: "CTransaction \<Rightarrow> nat \<Rightarrow> u32 \<Rightarrow> nat \<Rightarrow> bytes" where
  "SerializeOutput txTo nIn ht nOutput =
     (if fHashSingle ht \<and> nOutput \<noteq> nIn then ser_CTxOut \<lparr>txo_nValue = - 1, txo_scriptPubKey = []\<rparr>
      else ser_CTxOut (tx_vout txTo ! nOutput))"

definition SerializeSig :: "CTransaction \<Rightarrow> bytes \<Rightarrow> nat \<Rightarrow> u32 \<Rightarrow> bytes" where
  "SerializeSig txTo scriptCode nIn ht =
     (let nInputs = (if fAnyoneCanPay ht then 1 else length (tx_vin txTo));
          nOutputs = (if fHashNone ht then 0 else if fHashSingle ht then nIn + 1 else length (tx_vout txTo))
      in ser_writedata32 (tx_nVersion txTo)
         @ WriteCompactSize nInputs @ concat (map (SerializeInput txTo scriptCode nIn ht) [0..<nInputs])
         @ WriteCompactSize nOutputs @ concat (map (SerializeOutput txTo nIn ht) [0..<nOutputs])
         @ ser_writedata32 (tx_nLockTime txTo))"

section \<open>The segregated-witness hash\<close>

definition GetPrevoutHash :: "(bytes \<Rightarrow> bytes) \<Rightarrow> CTransaction \<Rightarrow> bytes" where
  "GetPrevoutHash hash256 txTo = hash256 (concat (map (\<lambda>i. ser_COutPoint (txin_prevout i)) (tx_vin txTo)))"

definition GetSequenceHash :: "(bytes \<Rightarrow> bytes) \<Rightarrow> CTransaction \<Rightarrow> bytes" where
  "GetSequenceHash hash256 txTo = hash256 (concat (map (\<lambda>i. ser_writedata32 (txin_nSequence i)) (tx_vin txTo)))"

definition GetOutputsHash :: "(bytes \<Rightarrow> bytes) \<Rightarrow> CTransaction \<Rightarrow> bytes" where
  "GetOutputsHash hash256 txTo = hash256 (concat (map ser_CTxOut (tx_vout txTo)))"

record PrecomputedTransactionData =
  hashPrevouts :: bytes
  hashSequence :: bytes
  hashOutputs :: bytes
  ready :: bool

definition uint256_zero :: bytes where "uint256_zero = replicate 32 0"
definition uint256_one :: bytes where "uint256_one = 1 # replicate 31 0"

definition PrecomputedTransactionData_of :: "(bytes \<Rightarrow> bytes) \<Rightarrow> CTransaction \<Rightarrow> PrecomputedTransactionData" where
  "PrecomputedTransactionData_of hash256 txTo =
     (if HasWitness txTo
      then \<lparr>hashPrevouts = GetPrevoutHash hash256 txTo, hashSequence = GetSequenceHash hash256 txTo,
            hashOutputs = GetOutputsHash hash256 txTo, ready = True\<rparr>
      else \<lparr>hashPrevouts = uint256_zero, hashSequence = uint256_zero, hashOutputs = uint256_zero, ready = False\<rparr>)"

definition cached ::
  "PrecomputedTransactionData option \<Rightarrow> (PrecomputedTransactionData \<Rightarrow> bytes) \<Rightarrow> bytes \<Rightarrow> bytes" where
  "cached cache f h = (case cache of Some d \<Rightarrow> if ready d then f d else h | None \<Rightarrow> h)"

definition witness_preimage ::
  "(bytes \<Rightarrow> bytes) \<Rightarrow> bytes \<Rightarrow> CTransaction \<Rightarrow> nat \<Rightarrow> u32 \<Rightarrow> int \<Rightarrow> PrecomputedTransactionData option \<Rightarrow> bytes" where
  "witness_preimage hash256 scriptCode txTo nIn ht amount cache =
     (let single = (ht AND 0x1f = SIGHASH_SINGLE); none = (ht AND 0x1f = SIGHASH_NONE);
          acp = (ht AND SIGHASH_ANYONECANPAY \<noteq> 0);
          hPrevouts = (if \<not> acp then cached cache hashPrevouts (GetPrevoutHash hash256 txTo) else uint256_zero);
          hSequence = (if \<not> acp \<and> \<not> single \<and> \<not> none
                       then cached cache hashSequence (GetSequenceHash hash256 txTo) else uint256_zero);
          hOutputs = (if \<not> single \<and> \<not> none then cached cache hashOutputs (GetOutputsHash hash256 txTo)
                      else if single \<and> nIn < length (tx_vout txTo) then hash256 (ser_CTxOut (tx_vout txTo ! nIn))
                      else uint256_zero)
      in ser_writedata32 (tx_nVersion txTo) @ ser_uint256 hPrevouts @ ser_uint256 hSequence
         @ ser_COutPoint (txin_prevout (tx_vin txTo ! nIn)) @ Serialize_bytes scriptCode @ ser_int64 amount
         @ ser_writedata32 (txin_nSequence (tx_vin txTo ! nIn)) @ ser_uint256 hOutputs
         @ ser_writedata32 (tx_nLockTime txTo) @ ser_writedata32 ht)"

definition SignatureHash ::
  "(bytes \<Rightarrow> bytes) \<Rightarrow> bytes \<Rightarrow> CTransaction \<Rightarrow> nat \<Rightarrow> u32 \<Rightarrow> int \<Rightarrow> SigVersion \<Rightarrow>
   PrecomputedTransactionData option \<Rightarrow> bytes option" where
  "SignatureHash hash256 scriptCode txTo nIn ht amount sigversion cache =
     (if \<not> nIn < length (tx_vin txTo) then None
      else if sigversion = SIGVERSION_WITNESS_V0
        then Some (hash256 (witness_preimage hash256 scriptCode txTo nIn ht amount cache))
      else if ht AND 0x1f = SIGHASH_SINGLE \<and> nIn \<ge> length (tx_vout txTo) then Some uint256_one
      else Some (hash256 (SerializeSig txTo scriptCode nIn ht @ ser_writedata32 ht)))"

section \<open>The transaction checker\<close>

definition CPubKey_GetLen :: "u8 \<Rightarrow> nat" where
  "CPubKey_GetLen chHeader =
     (if chHeader = 2 \<or> chHeader = 3 then 33
      else if chHeader = 4 \<or> chHeader = 6 \<or> chHeader = 7 then 65
      else 0)"

text \<open>\<open>CPubKey::Set\<close>; \<^term>\<open>None\<close> is the invalid key, so \<open>IsValid\<close> is being \<^term>\<open>Some\<close>.\<close>

definition CPubKey_Set :: "bytes \<Rightarrow> bytes option" where
  "CPubKey_Set vch =
     (let len = (if vch = [] then 0 else CPubKey_GetLen (hd vch))
      in if len \<noteq> 0 \<and> len = length vch then Some vch else None)"

record TransactionSignatureChecker =
  chk_txTo :: CTransaction
  chk_nIn :: nat
  chk_amount :: int
  chk_txdata :: "PrecomputedTransactionData option"

definition Checker_CheckSig ::
  "(bytes \<Rightarrow> bytes) \<Rightarrow> (bytes \<Rightarrow> bytes \<Rightarrow> bytes \<Rightarrow> bool) \<Rightarrow> TransactionSignatureChecker \<Rightarrow>
   bytes \<Rightarrow> bytes \<Rightarrow> bytes \<Rightarrow> SigVersion \<Rightarrow> bool res" where
  "Checker_CheckSig hash256 verify chk vchSigIn vchPubKey scriptCode sigversion =
     (case CPubKey_Set vchPubKey of
        None \<Rightarrow> Ok False
      | Some pubkey \<Rightarrow>
          if vchSigIn = [] then Ok False
          else let nHashType = ucast (last vchSigIn); vchSig = butlast vchSigIn
               in case SignatureHash hash256 scriptCode (chk_txTo chk) (chk_nIn chk) nHashType (chk_amount chk)
                         sigversion (chk_txdata chk) of
                    None \<Rightarrow> Abort
                  | Some sighash \<Rightarrow> Ok (verify pubkey sighash vchSig))"

definition LOCKTIME_THRESHOLD :: int where "LOCKTIME_THRESHOLD = 500000000"

definition Checker_CheckLockTime :: "TransactionSignatureChecker \<Rightarrow> int \<Rightarrow> bool" where
  "Checker_CheckLockTime chk nLockTime =
     (let txLock = uint (tx_nLockTime (chk_txTo chk)) in
      if \<not> ((txLock < LOCKTIME_THRESHOLD \<and> nLockTime < LOCKTIME_THRESHOLD)
            \<or> (txLock \<ge> LOCKTIME_THRESHOLD \<and> nLockTime \<ge> LOCKTIME_THRESHOLD)) then False
      else if nLockTime > txLock then False
      else if SEQUENCE_FINAL = txin_nSequence (tx_vin (chk_txTo chk) ! chk_nIn chk) then False
      else True)"

definition SEQUENCE_LOCKTIME_TYPE_FLAG :: int where "SEQUENCE_LOCKTIME_TYPE_FLAG = 2 ^ 22"
definition SEQUENCE_LOCKTIME_MASK :: int where "SEQUENCE_LOCKTIME_MASK = 0x0000ffff"

definition Checker_CheckSequence :: "TransactionSignatureChecker \<Rightarrow> int \<Rightarrow> bool" where
  "Checker_CheckSequence chk nSequence =
     (let txToSequence = uint (txin_nSequence (tx_vin (chk_txTo chk) ! chk_nIn chk)) in
      if tx_nVersion (chk_txTo chk) < 2 then False
      else if txToSequence AND SEQUENCE_LOCKTIME_DISABLE_FLAG \<noteq> 0 then False
      else
        let nLockTimeMask = SEQUENCE_LOCKTIME_TYPE_FLAG OR SEQUENCE_LOCKTIME_MASK;
            txToSequenceMasked = txToSequence AND nLockTimeMask;
            nSequenceMasked = nSequence AND nLockTimeMask
        in if \<not> ((txToSequenceMasked < SEQUENCE_LOCKTIME_TYPE_FLAG \<and> nSequenceMasked < SEQUENCE_LOCKTIME_TYPE_FLAG)
                \<or> (txToSequenceMasked \<ge> SEQUENCE_LOCKTIME_TYPE_FLAG \<and> nSequenceMasked \<ge> SEQUENCE_LOCKTIME_TYPE_FLAG))
           then False
           else if nSequenceMasked > txToSequenceMasked then False
           else True)"

definition tx_checker ::
  "(bytes \<Rightarrow> bytes) \<Rightarrow> (bytes \<Rightarrow> bytes \<Rightarrow> bytes \<Rightarrow> bool) \<Rightarrow> TransactionSignatureChecker \<Rightarrow> BaseSignatureChecker" where
  "tx_checker hash256 verify chk =
     \<lparr>CheckSig = Checker_CheckSig hash256 verify chk, CheckLockTime = Checker_CheckLockTime chk,
      CheckSequence = Checker_CheckSequence chk\<rparr>"

section \<open>The script code, against \<open>FindAndDelete\<close>\<close>

function decodes :: "bytes \<Rightarrow> bool" where
  "decodes pc =
     (if pc = [] then True
      else if op_ok (GetOp2 pc) then decodes (op_pc (GetOp2 pc))
      else False)"
  by pat_completeness auto
termination
  by (relation "measure length") (auto simp: GetOp2_decreases)

declare decodes.simps [simp del]

lemma opcodeRet_hd: "op_ok (GetOp2 pc) \<Longrightarrow> pc \<noteq> [] \<and> opcodeRet (GetOp2 pc) = hd pc"
  by (auto simp: GetOp2_def getop_fail_def split: list.splits option.splits if_splits)

lemma equal_at_codeseparator:
  "op_ok (GetOp2 pc) \<Longrightarrow> equal_at [b] pc \<longleftrightarrow> opcodeRet (GetOp2 pc) = b"
  using opcodeRet_hd [of pc] by (cases pc) (auto simp: equal_at_def)

lemma GetOp2_codeseparator:
  "op_ok (GetOp2 pc) \<Longrightarrow> opcodeRet (GetOp2 pc) = OP_CODESEPARATOR \<Longrightarrow> pc = OP_CODESEPARATOR # op_pc (GetOp2 pc)"
  using opcodeRet_hd [of pc] by (cases pc) (auto simp: GetOp2_single)

lemma write_code_fad_ref:
  "decodes it \<Longrightarrow> write_code it (pre @ it) = pre @ fad_ref [OP_CODESEPARATOR] it
     \<and> length (fad_ref [OP_CODESEPARATOR] it) + count_codeseparators it = length it"
proof (induction it arbitrary: pre rule: decodes.induct)
  case (1 it)
  show ?case
  proof (cases "it = []")
    case True
    then show ?thesis
      by (simp add: write_code.simps fad_ref.simps count_codeseparators.simps equal_at_def)
  next
    case False
    with 1(2) have ok: "op_ok (GetOp2 it)" and dec: "decodes (op_pc (GetOp2 it))"
      by (simp_all add: decodes.simps [of it] split: if_splits)
    let ?it' = "op_pc (GetOp2 it)"
    define c where "c = take (length it - length ?it') it"
    have c: "it = c @ ?it'" unfolding c_def by (rule op_pc_split [symmetric])
    note IH = 1(1) [OF False ok dec]
    show ?thesis
    proof (cases "opcodeRet (GetOp2 it) = OP_CODESEPARATOR")
      case True
      from GetOp2_codeseparator [OF ok True] obtain it' where it': "it = OP_CODESEPARATOR # it'" "?it' = it'" by blast
      have "write_code it (pre @ it) = pre @ write_code it' it'"
        using ok True it' by (simp add: write_code.simps [of "OP_CODESEPARATOR # it'"])
      moreover have "fad_ref [OP_CODESEPARATOR] it = fad_ref [OP_CODESEPARATOR] it'"
        using equal_at_codeseparator [OF ok] True it'(1)
        by (simp add: fad_ref.simps [of _ "OP_CODESEPARATOR # it'"])
      moreover have "count_codeseparators it = Suc (count_codeseparators it')"
        using ok True it'(2) by (simp add: count_codeseparators.simps [of it])
      ultimately show ?thesis using IH [of "[]"] it' by simp
    next
      case False
      have "write_code it (pre @ it) = write_code ?it' ((pre @ c) @ ?it')"
        using ok False c by (simp add: write_code.simps [of it])
      moreover have "fad_ref [OP_CODESEPARATOR] it = c @ fad_ref [OP_CODESEPARATOR] ?it'"
        using equal_at_codeseparator [OF ok] False ok by (simp add: fad_ref.simps [of _ it] c_def)
      moreover have "count_codeseparators it = count_codeseparators ?it'"
        using ok False by (simp add: count_codeseparators.simps [of it])
      moreover have "length it = length c + length ?it'" using c by (metis length_append)
      ultimately show ?thesis using IH [of "pre @ c"] by simp
    qed
  qed
qed

lemma SerializeScriptCode_eq:
  "decodes code \<Longrightarrow> SerializeScriptCode code = Serialize_bytes (fst (FindAndDelete code [OP_CODESEPARATOR]))"
proof -
  assume "decodes code"
  from write_code_fad_ref [OF this, of "[]"]
  have "write_code code code = fad_ref [OP_CODESEPARATOR] code"
    and "length code - count_codeseparators code = length (fad_ref [OP_CODESEPARATOR] code)" by auto
  then show ?thesis by (simp add: SerializeScriptCode_def Serialize_bytes_def FindAndDelete_eq_ref)
qed

section \<open>The preimage as a serialized transaction\<close>

text \<open>
  The transaction whose plain serialization the signature serializer writes: the scripts of the other inputs
  are blanked, the script of the signed input is the script code, and inputs and outputs are reduced as the hash
  type says.
\<close>

definition sig_input :: "bytes \<Rightarrow> nat \<Rightarrow> u32 \<Rightarrow> nat \<Rightarrow> CTxIn \<Rightarrow> CTxIn" where
  "sig_input code nIn ht k i =
     \<lparr>txin_prevout = txin_prevout i, txin_scriptSig = (if k = nIn then code else []),
      txin_nSequence = (if k \<noteq> nIn \<and> (fHashSingle ht \<or> fHashNone ht) then 0 else txin_nSequence i),
      txin_scriptWitness = []\<rparr>"

definition sig_vin :: "CTransaction \<Rightarrow> bytes \<Rightarrow> nat \<Rightarrow> u32 \<Rightarrow> CTxIn list" where
  "sig_vin tx code nIn ht =
     (if fAnyoneCanPay ht then [sig_input code nIn ht nIn (tx_vin tx ! nIn)]
      else map (\<lambda>k. sig_input code nIn ht k (tx_vin tx ! k)) [0..<length (tx_vin tx)])"

definition null_txout :: CTxOut where
  "null_txout = \<lparr>txo_nValue = - 1, txo_scriptPubKey = []\<rparr>"

definition sig_vout :: "CTransaction \<Rightarrow> nat \<Rightarrow> u32 \<Rightarrow> CTxOut list" where
  "sig_vout tx nIn ht =
     (if fHashNone ht then []
      else if fHashSingle ht then replicate nIn null_txout @ [tx_vout tx ! nIn]
      else tx_vout tx)"

definition sig_tx :: "CTransaction \<Rightarrow> bytes \<Rightarrow> nat \<Rightarrow> u32 \<Rightarrow> CTransaction" where
  "sig_tx tx code nIn ht =
     tx\<lparr>tx_vin := sig_vin tx code nIn ht, tx_vout := sig_vout tx nIn ht\<rparr>"

lemma SerializeInput_eq:
  "decodes code \<Longrightarrow> fAnyoneCanPay ht \<longrightarrow> k = nIn \<Longrightarrow>
   SerializeInput tx code nIn ht k =
     ser_CTxIn (sig_input (fst (FindAndDelete code [OP_CODESEPARATOR])) nIn ht k (tx_vin tx ! k))"
  by (auto simp: SerializeInput_def sig_input_def ser_CTxIn_def SerializeScriptCode_eq Let_def)

lemma ser_inputs:
  assumes "decodes code"
  shows "WriteCompactSize (if fAnyoneCanPay ht then 1 else length (tx_vin tx))
      @ concat (map (SerializeInput tx code nIn ht) [0..<if fAnyoneCanPay ht then 1 else length (tx_vin tx)])
    = ser_vin (sig_vin tx (fst (FindAndDelete code [OP_CODESEPARATOR])) nIn ht)"
proof (cases "fAnyoneCanPay ht")
  case True
  then have "SerializeInput tx code nIn ht 0 = SerializeInput tx code nIn ht nIn"
    by (simp add: SerializeInput_def)
  with True assms show ?thesis
    by (simp add: Serialize_vec_def sig_vin_def SerializeInput_eq)
next
  case False
  then have "map (SerializeInput tx code nIn ht) [0..<length (tx_vin tx)] =
      map ser_CTxIn (sig_vin tx (fst (FindAndDelete code [OP_CODESEPARATOR])) nIn ht)"
    using assms by (simp add: sig_vin_def SerializeInput_eq)
  then have "concat (map (SerializeInput tx code nIn ht) [0..<length (tx_vin tx)]) =
      concat (map ser_CTxIn (sig_vin tx (fst (FindAndDelete code [OP_CODESEPARATOR])) nIn ht))"
    by (rule arg_cong)
  moreover have "length (sig_vin tx c nIn ht) = length (tx_vin tx)" for c
    using False by (simp add: sig_vin_def)
  ultimately show ?thesis using False by (simp add: Serialize_vec_def)
qed

lemma ser_outputs:
  assumes "fHashSingle ht \<longrightarrow> nIn < length (tx_vout tx)"
  shows "(let n = (if fHashNone ht then 0 else if fHashSingle ht then nIn + 1 else length (tx_vout tx))
          in WriteCompactSize n @ concat (map (SerializeOutput tx nIn ht) [0..<n]))
    = ser_vout (sig_vout tx nIn ht)"
proof -
  have "map (SerializeOutput tx nIn ht) [0..<nIn] = map ser_CTxOut (replicate nIn null_txout)" if "fHashSingle ht"
    using that by (auto simp: SerializeOutput_def null_txout_def map_replicate_const intro!: nth_equalityI)
  moreover have "map (SerializeOutput tx nIn ht) [0..<length (tx_vout tx)] = map ser_CTxOut (tx_vout tx)"
    if "\<not> fHashSingle ht"
    using that by (auto simp: SerializeOutput_def intro!: nth_equalityI)
  ultimately show ?thesis
    by (auto simp: sig_vout_def Serialize_vec_def Let_def SerializeOutput_def)
qed

lemma SerializeSig_eq:
  assumes "decodes code" "fHashSingle ht \<longrightarrow> nIn < length (tx_vout tx)"
  shows "SerializeSig tx code nIn ht =
    SerializeTransaction False (sig_tx tx (fst (FindAndDelete code [OP_CODESEPARATOR])) nIn ht)"
  using ser_inputs [OF assms(1), of ht tx nIn] ser_outputs [of ht nIn tx] assms(2)
  unfolding SerializeSig_def SerializeTransaction_def Let_def sig_tx_def
  by simp

section \<open>What a signature hash depends on\<close>

definition same_skeleton :: "CTransaction \<Rightarrow> CTransaction \<Rightarrow> bool" where
  "same_skeleton tx tx' \<longleftrightarrow>
     tx_nVersion tx = tx_nVersion tx' \<and> tx_vout tx = tx_vout tx' \<and> tx_nLockTime tx = tx_nLockTime tx'
     \<and> map (\<lambda>i. (txin_prevout i, txin_nSequence i)) (tx_vin tx) = map (\<lambda>i. (txin_prevout i, txin_nSequence i)) (tx_vin tx')"

lemma same_skeleton_vin:
  assumes "same_skeleton tx tx'"
  shows "length (tx_vin tx) = length (tx_vin tx')"
    and "k < length (tx_vin tx) \<Longrightarrow> txin_prevout (tx_vin tx ! k) = txin_prevout (tx_vin tx' ! k)"
    and "k < length (tx_vin tx) \<Longrightarrow> txin_nSequence (tx_vin tx ! k) = txin_nSequence (tx_vin tx' ! k)"
proof -
  have eq: "map (\<lambda>i. (txin_prevout i, txin_nSequence i)) (tx_vin tx) = map (\<lambda>i. (txin_prevout i, txin_nSequence i)) (tx_vin tx')"
    using assms by (simp add: same_skeleton_def)
  then show len: "length (tx_vin tx) = length (tx_vin tx')" by (rule map_eq_imp_length_eq)
  show "txin_prevout (tx_vin tx ! k) = txin_prevout (tx_vin tx' ! k)" if "k < length (tx_vin tx)"
    using arg_cong [OF eq, of "\<lambda>xs. fst (xs ! k)"] that len by simp
  show "txin_nSequence (tx_vin tx ! k) = txin_nSequence (tx_vin tx' ! k)" if "k < length (tx_vin tx)"
    using arg_cong [OF eq, of "\<lambda>xs. snd (xs ! k)"] that len by simp
qed

lemma SerializeSig_skeleton:
  assumes sk: "same_skeleton tx tx'" and n: "nIn < length (tx_vin tx)"
  shows "SerializeSig tx code nIn ht = SerializeSig tx' code nIn ht"
proof -
  note vin = same_skeleton_vin [OF sk]
  have "SerializeInput tx code nIn ht k = SerializeInput tx' code nIn ht k" if "fAnyoneCanPay ht \<or> k < length (tx_vin tx)" for k
    using that n vin by (auto simp: SerializeInput_def Let_def)
  then have inputs: "map (SerializeInput tx code nIn ht) [0..<if fAnyoneCanPay ht then 1 else length (tx_vin tx)]
      = map (SerializeInput tx' code nIn ht) [0..<if fAnyoneCanPay ht then 1 else length (tx_vin tx)]"
    by (intro map_cong) (auto split: if_splits)
  have outputs: "SerializeOutput tx nIn ht = SerializeOutput tx' nIn ht"
    using sk by (simp add: fun_eq_iff SerializeOutput_def same_skeleton_def)
  have rest: "tx_nVersion tx = tx_nVersion tx'" "tx_vout tx = tx_vout tx'" "tx_nLockTime tx = tx_nLockTime tx'"
    using sk by (simp_all add: same_skeleton_def)
  show ?thesis
    unfolding SerializeSig_def Let_def outputs rest vin(1) inputs [unfolded vin(1)] ..
qed

lemma witness_preimage_skeleton:
  assumes sk: "same_skeleton tx tx'" and n: "nIn < length (tx_vin tx)"
  shows "witness_preimage h code tx nIn ht amount None = witness_preimage h code tx' nIn ht amount None"
proof -
  have eq: "map (\<lambda>i. (txin_prevout i, txin_nSequence i)) (tx_vin tx) = map (\<lambda>i. (txin_prevout i, txin_nSequence i)) (tx_vin tx')"
    using sk by (simp add: same_skeleton_def)
  have "map (\<lambda>i. ser_COutPoint (txin_prevout i)) (tx_vin tx) = map (\<lambda>i. ser_COutPoint (txin_prevout i)) (tx_vin tx')"
    using arg_cong [OF eq, of "map (\<lambda>p. ser_COutPoint (fst p))"] by (simp add: o_def)
  moreover have "map (\<lambda>i. ser_writedata32 (txin_nSequence i)) (tx_vin tx) = map (\<lambda>i. ser_writedata32 (txin_nSequence i)) (tx_vin tx')"
    using arg_cong [OF eq, of "map (\<lambda>p. ser_writedata32 (snd p))"] by (simp add: o_def)
  ultimately show ?thesis
    using sk same_skeleton_vin [OF sk] n
    by (simp add: witness_preimage_def cached_def GetPrevoutHash_def GetSequenceHash_def GetOutputsHash_def Let_def
        same_skeleton_def)
qed

lemma SignatureHash_skeleton:
  "same_skeleton tx tx' \<Longrightarrow>
   SignatureHash h code tx nIn ht amount sv None = SignatureHash h code tx' nIn ht amount sv None"
proof -
  assume sk: "same_skeleton tx tx'"
  have vout: "tx_vout tx = tx_vout tx'" and len: "length (tx_vin tx) = length (tx_vin tx')"
    using sk same_skeleton_vin(1) [OF sk] by (simp_all add: same_skeleton_def)
  show ?thesis
  proof (cases "nIn < length (tx_vin tx)")
    case True
    show ?thesis
      unfolding SignatureHash_def SerializeSig_skeleton [OF sk True] witness_preimage_skeleton [OF sk True] vout len ..
  qed (simp add: SignatureHash_def len)
qed

lemma SignatureHash_cache:
  "SignatureHash h code tx nIn ht amount sv (Some (PrecomputedTransactionData_of h tx)) =
   SignatureHash h code tx nIn ht amount sv None"
proof -
  have "cached (Some (PrecomputedTransactionData_of h tx)) hashPrevouts (GetPrevoutHash h tx) = GetPrevoutHash h tx"
    "cached (Some (PrecomputedTransactionData_of h tx)) hashSequence (GetSequenceHash h tx) = GetSequenceHash h tx"
    "cached (Some (PrecomputedTransactionData_of h tx)) hashOutputs (GetOutputsHash h tx) = GetOutputsHash h tx"
    by (simp_all add: cached_def PrecomputedTransactionData_of_def)
  then show ?thesis
    unfolding SignatureHash_def witness_preimage_def Let_def by (simp add: cached_def [of None])
qed

section \<open>What the original hash commits to\<close>

definition hash_all :: "u32 \<Rightarrow> bool" where
  "hash_all ht \<longleftrightarrow> \<not> fAnyoneCanPay ht \<and> \<not> fHashSingle ht \<and> \<not> fHashNone ht"

lemma sig_tx_plain_ok:
  assumes "tx_ok tx" "hash_all ht" "length code \<le> MAX_SIZE"
  shows "tx_plain_ok (sig_tx tx code nIn ht)"
  using assms
  by (auto simp: tx_plain_ok_def tx_ok_def sig_tx_def sig_vin_def sig_vout_def hash_all_def HasWitness_def list_all_iff
      sig_input_def txin_ok_def strip_witness_def witness_ok_def)

lemma sig_tx_inj:
  assumes ht: "hash_all ht" and n: "nIn < length (tx_vin tx)" and eq: "sig_tx tx c nIn ht = sig_tx tx' c' nIn ht"
  shows "same_skeleton tx tx' \<and> c = c'"
proof -
  have vin: "map (\<lambda>k. sig_input c nIn ht k (tx_vin tx ! k)) [0..<length (tx_vin tx)] =
      map (\<lambda>k. sig_input c' nIn ht k (tx_vin tx' ! k)) [0..<length (tx_vin tx')]"
    using arg_cong [OF eq, of tx_vin] ht by (simp add: sig_tx_def sig_vin_def hash_all_def)
  have len: "length (tx_vin tx) = length (tx_vin tx')" using arg_cong [OF vin, of length] by simp
  have k: "sig_input c nIn ht k (tx_vin tx ! k) = sig_input c' nIn ht k (tx_vin tx' ! k)" if "k < length (tx_vin tx)" for k
    using arg_cong [OF vin, of "\<lambda>xs. xs ! k"] that len by simp
  have "c = c'" using k [OF n] by (simp add: sig_input_def)
  moreover have "map (\<lambda>i. (txin_prevout i, txin_nSequence i)) (tx_vin tx) = map (\<lambda>i. (txin_prevout i, txin_nSequence i)) (tx_vin tx')"
  proof (rule nth_equalityI)
    fix j assume "j < length (map (\<lambda>i. (txin_prevout i, txin_nSequence i)) (tx_vin tx))"
    then have j: "j < length (tx_vin tx)" by simp
    show "map (\<lambda>i. (txin_prevout i, txin_nSequence i)) (tx_vin tx) ! j = map (\<lambda>i. (txin_prevout i, txin_nSequence i)) (tx_vin tx') ! j"
      using k [OF j] j len ht by (simp add: sig_input_def hash_all_def)
  qed (simp add: len)
  moreover have "tx_vout tx = tx_vout tx'"
    using arg_cong [OF eq, of tx_vout] ht by (simp add: sig_tx_def sig_vout_def hash_all_def)
  moreover have "tx_nVersion tx = tx_nVersion tx'" using arg_cong [OF eq, of tx_nVersion] by (simp add: sig_tx_def)
  moreover have "tx_nLockTime tx = tx_nLockTime tx'" using arg_cong [OF eq, of tx_nLockTime] by (simp add: sig_tx_def)
  ultimately show ?thesis by (simp add: same_skeleton_def)
qed

lemma length_FindAndDelete_le: "length (fst (FindAndDelete s b)) \<le> length s"
  using FindAndDelete_count [of s b] by linarith

lemma SerializeSig_commits:
  assumes ht: "hash_all ht" and tx: "tx_ok tx" "tx_ok tx'" and n: "nIn < length (tx_vin tx)"
    and code: "decodes code" "decodes code'" "length code \<le> MAX_SIZE" "length code' \<le> MAX_SIZE"
    and eq: "SerializeSig tx code nIn ht = SerializeSig tx' code' nIn ht"
  shows "same_skeleton tx tx'
    \<and> fst (FindAndDelete code [OP_CODESEPARATOR]) = fst (FindAndDelete code' [OP_CODESEPARATOR])"
proof -
  let ?c = "fst (FindAndDelete code [OP_CODESEPARATOR])" and ?c' = "fst (FindAndDelete code' [OP_CODESEPARATOR])"
  have single: "fHashSingle ht \<longrightarrow> nIn < length (tx_vout t)" for t using ht by (simp add: hash_all_def)
  have len: "length ?c \<le> MAX_SIZE" "length ?c' \<le> MAX_SIZE"
    using length_FindAndDelete_le [of code "[OP_CODESEPARATOR]"] length_FindAndDelete_le [of code' "[OP_CODESEPARATOR]"]
      code(3,4) by linarith+
  have "SerializeTransaction False (sig_tx tx ?c nIn ht) = SerializeTransaction False (sig_tx tx' ?c' nIn ht)"
    using eq SerializeSig_eq [OF code(1) single, of tx] SerializeSig_eq [OF code(2) single, of tx'] by simp
  then have "sig_tx tx ?c nIn ht = sig_tx tx' ?c' nIn ht"
    by (rule tx_plain.ser_inj [OF sig_tx_plain_ok [OF tx(1) ht len(1)] sig_tx_plain_ok [OF tx(2) ht len(2)]])
  then show ?thesis by (rule sig_tx_inj [OF ht n])
qed

section \<open>The checker\<close>

lemma tx_checker_CheckSig_returns:
  "chk_nIn chk < length (tx_vin (chk_txTo chk)) \<Longrightarrow> \<exists>b. CheckSig (tx_checker h verify chk) sig pk code sv = Ok b"
  by (auto simp: tx_checker_def Checker_CheckSig_def SignatureHash_def Let_def split: option.split)

section \<open>Properties\<close>

text \<open>C29: What the original signature hash is taken of. For a script code that decodes, the bytes written by the
  signature serializer are the plain serialization of the transaction whose scripts are blanked, with the script
  code stripped of its code separators in the signed input, and inputs and outputs reduced as the hash type says.\<close>

theorem SerializeSig_is_transaction:
  assumes "decodes code" and "fHashSingle ht \<longrightarrow> nIn < length (tx_vout tx)"
  shows "SerializeSig tx code nIn ht =
    SerializeTransaction False (sig_tx tx (fst (FindAndDelete code [OP_CODESEPARATOR])) nIn ht)"
  using assms by (rule SerializeSig_eq)

theorem SerializeSig_is_transaction_witness:
  "SerializeSig demo_tx [OP_CODESEPARATOR, OP_DUP] 0 3 =
    SerializeTransaction False (sig_tx demo_tx (fst (FindAndDelete [OP_CODESEPARATOR, OP_DUP] [OP_CODESEPARATOR])) 0 3)"
proof -
  have "decodes [OP_CODESEPARATOR, OP_DUP]"
    by (simp add: decodes.simps GetOp2_def getop_size_def getop_fail_def)
  then show ?thesis
    using SerializeSig_is_transaction [of "[OP_CODESEPARATOR, OP_DUP]" 3 0 demo_tx] by (simp add: demo_tx_def)
qed

text \<open>A signature hash does not depend on signature scripts or witnesses, so inputs can be signed in any order.\<close>

theorem SignatureHash_ignores_signatures:
  assumes "same_skeleton tx tx'"
  shows "SignatureHash h code tx nIn ht amount sv None = SignatureHash h code tx' nIn ht amount sv None"
  using assms by (rule SignatureHash_skeleton)

theorem SignatureHash_ignores_signatures_witness:
  "SignatureHash (take 32) [] demo_tx 0 1 5 SIGVERSION_WITNESS_V0 None =
   SignatureHash (take 32) [] (demo_tx\<lparr>tx_vin := map strip_witness (tx_vin demo_tx)\<rparr>) 0 1 5 SIGVERSION_WITNESS_V0 None"
  by (rule SignatureHash_ignores_signatures) (simp add: same_skeleton_def demo_tx_def strip_witness_def)

text \<open>C7: A signature of type ALL commits to the whole transaction apart from signatures. Two serializer outputs
  agree only for transactions with the same version, outpoints, sequence numbers, outputs and lock time, and for
  script codes that agree up to code separators.\<close>

theorem sighash_all_commits:
  assumes "hash_all ht" and "tx_ok tx" and "tx_ok tx'" and "nIn < length (tx_vin tx)"
    and "decodes code" and "decodes code'" and "length code \<le> MAX_SIZE" and "length code' \<le> MAX_SIZE"
    and "SerializeSig tx code nIn ht = SerializeSig tx' code' nIn ht"
  shows "same_skeleton tx tx'
    \<and> fst (FindAndDelete code [OP_CODESEPARATOR]) = fst (FindAndDelete code' [OP_CODESEPARATOR])"
  using assms by (rule SerializeSig_commits)

theorem sighash_all_commits_witness:
  "same_skeleton demo_tx (demo_tx\<lparr>tx_vin := map strip_witness (tx_vin demo_tx)\<rparr>)
    \<and> fst (FindAndDelete [] [OP_CODESEPARATOR]) = fst (FindAndDelete [] [OP_CODESEPARATOR])"
proof (rule sighash_all_commits)
  let ?tx' = "demo_tx\<lparr>tx_vin := map strip_witness (tx_vin demo_tx)\<rparr>"
  show "hash_all 1" by (simp add: hash_all_def fAnyoneCanPay_def fHashSingle_def fHashNone_def)
  show "tx_ok demo_tx" by (rule demo_tx_ok)
  show "tx_ok ?tx'"
    using demo_tx_ok by (simp add: tx_ok_def demo_tx_def strip_witness_def witness_ok_def)
  show "0 < length (tx_vin demo_tx)" by (simp add: demo_tx_def)
  show "SerializeSig demo_tx [] 0 1 = SerializeSig ?tx' [] 0 1"
    by (rule SerializeSig_skeleton) (simp_all add: same_skeleton_def demo_tx_def strip_witness_def)
qed (simp_all add: decodes.simps)

text \<open>The precomputed hashes change nothing: with the data computed for the same transaction the signature hash is
  the one computed from scratch.\<close>

theorem SignatureHash_precomputed:
  "SignatureHash h code tx nIn ht amount sv (Some (PrecomputedTransactionData_of h tx)) =
   SignatureHash h code tx nIn ht amount sv None"
  by (rule SignatureHash_cache)

end
