(* ===== verification/Multisig.thy ===== *)
theory Multisig
  imports SigHash "HOL-Library.Sublist"
begin

text \<open>
  What \<open>OP_CHECKMULTISIG\<close> decides (\<open>src/src/script/interpreter.cpp\<close>). Its loop tries each signature against the
  next key, in one pass and with an early exit once fewer keys than signatures are left. When no encoding rule
  intervenes, it succeeds exactly when the signatures are valid, in order, for some subsequence of the keys.
\<close>

section \<open>The specification and the greedy algorithm\<close>

definition matches :: "('s \<Rightarrow> 'k \<Rightarrow> bool) \<Rightarrow> 's list \<Rightarrow> 'k list \<Rightarrow> bool" where
  "matches ok sigs keys \<longleftrightarrow> (\<exists>ks. subseq ks keys \<and> list_all2 ok sigs ks)"

fun greedy :: "('s \<Rightarrow> 'k \<Rightarrow> bool) \<Rightarrow> 's list \<Rightarrow> 'k list \<Rightarrow> bool" where
  "greedy ok [] ks = True"
| "greedy ok (s # ss) [] = False"
| "greedy ok (s # ss) (k # ks) = (if ok s k then greedy ok ss ks else greedy ok (s # ss) ks)"

lemma matches_Nil [simp]: "matches ok [] keys" "\<not> matches ok (s # ss) []"
  by (auto simp: matches_def list_all2_Cons1)

lemma matches_skip: "matches ok ss ks \<Longrightarrow> matches ok ss (k # ks)"
  by (auto simp: matches_def)

lemma matches_take: "ok s k \<Longrightarrow> matches ok ss ks \<Longrightarrow> matches ok (s # ss) (k # ks)"
  unfolding matches_def by (metis list_all2_Cons subseq_Cons2)

lemma matches_ConsE:
  assumes "matches ok (s # ss) (k # ks)"
  shows "matches ok ss ks" and "\<not> ok s k \<Longrightarrow> matches ok (s # ss) ks"
proof -
  obtain k' ks' where sub: "subseq (k' # ks') (k # ks)" and ok: "ok s k'" "list_all2 ok ss ks'"
    using assms by (auto simp: matches_def list_all2_Cons1)
  have "subseq ks' ks" using sub by (auto simp: subseq_Cons2_iff dest: subseq_Cons' split: if_splits)
  with ok show "matches ok ss ks" by (auto simp: matches_def)
  show "matches ok (s # ss) ks" if "\<not> ok s k"
  proof -
    have "k' \<noteq> k" using that ok(1) by auto
    then have "subseq (k' # ks') ks" using sub by simp
    with ok show ?thesis unfolding matches_def by (intro exI [of _ "k' # ks'"]) simp
  qed
qed

lemma greedy_matches: "greedy ok ss ks = matches ok ss ks"
proof (induction ok ss ks rule: greedy.induct)
  case (3 ok s ss k ks)
  then show ?case
    using matches_ConsE [of ok s ss k ks] by (auto intro: matches_take matches_skip)
qed simp_all

lemma greedy_length: "length ks < length ss \<Longrightarrow> \<not> greedy ok ss ks"
  by (induction ok ss ks rule: greedy.induct) auto

section \<open>The loop\<close>

lemma multisig_loop_step:
  assumes "0 < nSigs" "stacktop isig st = Ok sig" "stacktop ikey st = Ok pk"
    "CheckSignatureEncoding (ctx_crypto c) sig (ctx_flags c) = Ok ()"
    "CheckPubKeyEncoding pk (ctx_flags c) (ctx_sigversion c) = Ok ()"
    "CheckSig (ctx_checker c) sig pk code (ctx_sigversion c) = Ok b"
  shows "multisig_loop c st code isig ikey nSigs nKeys True =
    (if b then multisig_loop c st code (isig + 1) (ikey + 1) (nSigs - 1) (nKeys - 1) (nSigs \<le> nKeys)
     else multisig_loop c st code isig (ikey + 1) nSigs (nKeys - 1) (nSigs < nKeys))"
proof -
  have "(\<not> nKeys - 1 < nSigs - 1) = (nSigs \<le> nKeys)" "(\<not> nKeys - 1 < nSigs) = (nSigs < nKeys)" by linarith+
  then show ?thesis by (subst multisig_loop.simps) (simp add: assms Let_def)
qed

lemma multisig_loop_stop: "\<not> (b \<and> 0 < nSigs) \<Longrightarrow> multisig_loop c st code isig ikey nSigs nKeys b = Ok b"
  by (subst multisig_loop.simps) auto

lemma multisig_loop_greedy:
  assumes "\<And>s k. s \<in> set ss \<Longrightarrow> k \<in> set ks \<Longrightarrow> CheckSig (ctx_checker c) s k code (ctx_sigversion c) = Ok (ok s k)"
    and "drop i st = ss @ r1" "drop j st = ks @ r2"
    and "\<And>s. s \<in> set ss \<Longrightarrow> CheckSignatureEncoding (ctx_crypto c) s (ctx_flags c) = Ok ()"
    and "\<And>k. k \<in> set ks \<Longrightarrow> CheckPubKeyEncoding k (ctx_flags c) (ctx_sigversion c) = Ok ()"
  shows "multisig_loop c st code (Suc i) (Suc j) (int (length ss)) (int (length ks)) (length ss \<le> length ks)
           = Ok (greedy ok ss ks)"
  using assms
proof (induction ks arbitrary: ss i j)
  case Nil
  show ?case by (cases ss) (simp_all add: multisig_loop_stop)
next
  case (Cons k ks)
  show ?case
  proof (cases "ss \<noteq> [] \<and> length ss \<le> length (k # ks)")
    case True
    then obtain s ss' where ss: "ss = s # ss'" by (cases ss) auto
    have i: "i < length st" "st ! i = s" "drop (Suc i) st = ss' @ r1"
      using Cons.prems(2) unfolding ss
      by (metis append_Cons drop_all list.distinct(1) not_le_imp_less,
          metis append_Cons nth_via_drop, metis append_Cons drop_Suc list.sel(3) tl_drop)
    have j: "j < length st" "st ! j = k" "drop (Suc j) st = ks @ r2"
      using Cons.prems(3)
      by (metis append_Cons drop_all list.distinct(1) not_le_imp_less,
          metis append_Cons nth_via_drop, metis append_Cons drop_Suc list.sel(3) tl_drop)
    have e: "CheckSignatureEncoding (ctx_crypto c) s (ctx_flags c) = Ok ()"
      "CheckPubKeyEncoding k (ctx_flags c) (ctx_sigversion c) = Ok ()"
      using Cons.prems(4,5) by (simp_all add: ss)
    have tops: "stacktop (Suc i) st = Ok s" "stacktop (Suc j) st = Ok k"
      using i j by (simp_all add: stacktop_def)
    have le: "length ss \<le> length (k # ks)" using True by simp
    have chk: "CheckSig (ctx_checker c) s k code (ctx_sigversion c) = Ok (ok s k)" using Cons.prems(1) by (simp add: ss)
    show ?thesis
      using multisig_loop_step [OF _ tops e chk, of "int (length ss)" "int (length (k # ks))"] le
        Cons.IH [OF _ i(3) j(3)] Cons.IH [OF _ Cons.prems(2) j(3)] Cons.prems(1,4,5)
      by (auto simp: ss Suc_le_eq)
  next
    case False
    then show ?thesis
      using greedy_length [of "k # ks" ss ok] by (cases "ss = []") (auto simp: multisig_loop_stop)
  qed
qed

section \<open>The operation\<close>

lemma multisig_cleanup_drop:
  "n \<le> length st \<Longrightarrow> b \<or> \<not> flag c SCRIPT_VERIFY_NULLFAIL \<Longrightarrow> multisig_cleanup c b n k st = Ok (drop n st)"
proof (induction n arbitrary: k st)
  case (Suc n)
  then obtain x st' where "st = x # st'" by (cases st) auto
  with Suc show ?case by (auto simp: popstack_def)
qed simp

text \<open>The script code that the signatures are checked with: in scripts of the original kind they are cut out of it.\<close>

definition multisig_code :: "evalctx \<Rightarrow> bytes list \<Rightarrow> bytes \<Rightarrow> bytes" where
  "multisig_code c sigs scriptCode =
     (if ctx_sigversion c = SIGVERSION_BASE then fold (\<lambda>sig code. fst (FindAndDelete code (push_data sig))) sigs scriptCode else scriptCode)"

lemma multisig_drop_sigs_code:
  "drop i st = ss @ r \<Longrightarrow> multisig_drop_sigs c st (Suc i) (length ss) code = Ok (multisig_code c ss code)"
proof (induction ss arbitrary: i code)
  case (Cons s ss)
  then have "i < length st" "st ! i = s" "drop (Suc i) st = ss @ r"
    by (metis append_Cons drop_all list.distinct(1) not_le_imp_less,
        metis append_Cons nth_via_drop, metis append_Cons drop_Suc list.sel(3) tl_drop)
  then show ?case using Cons.IH [of "Suc i"] by (simp add: stacktop_def multisig_code_def)
qed (simp add: multisig_code_def)

lemma num_arg_getvch: "\<bar>n\<bar> < 2 ^ 31 \<Longrightarrow> num_arg (getvch n) b nDefaultMaxNumSize = Ok n"
  using length_serialize_num [of n 3] CScriptNum_serialize [of n 4 b]
  by (simp add: num_arg_def getvch_def nDefaultMaxNumSize_def)

lemma getint_small: "\<bar>n\<bar> < 2 ^ 31 \<Longrightarrow> getint n = n"
  by (auto simp: getint_def)

text \<open>The operands in stack order, top first: the number of keys, the keys, the number of signatures, the
  signatures, and the extra element the operation also consumes.\<close>

definition multisig_operands :: "bytes list \<Rightarrow> bytes list \<Rightarrow> bytes \<Rightarrow> bytes list" where
  "multisig_operands keys sigs dummy =
     getvch (int (length keys)) # keys @ getvch (int (length sigs)) # sigs @ [dummy]"

lemma checkmultisig_matches:
  assumes st: "ev_stack s = multisig_operands keys sigs dummy @ rest"
    and n: "length keys \<le> MAX_PUBKEYS_PER_MULTISIG" "length sigs \<le> length keys"
      "ev_nOpCount s + length keys \<le> MAX_OPS_PER_SCRIPT"
    and chk: "\<And>sig pk. sig \<in> set sigs \<Longrightarrow> pk \<in> set keys \<Longrightarrow>
      CheckSig (ctx_checker c) sig pk (multisig_code c sigs (ev_pbegincodehash s)) (ctx_sigversion c) = Ok (ok sig pk)"
    and enc: "\<And>s. s \<in> set sigs \<Longrightarrow> CheckSignatureEncoding (ctx_crypto c) s (ctx_flags c) = Ok ()"
      "\<And>k. k \<in> set keys \<Longrightarrow> CheckPubKeyEncoding k (ctx_flags c) (ctx_sigversion c) = Ok ()"
    and nf: "matches ok sigs keys \<or> \<not> flag c SCRIPT_VERIFY_NULLFAIL"
    and nd: "dummy = [] \<or> \<not> flag c SCRIPT_VERIFY_NULLDUMMY"
  shows "op_checkmultisig c OP_CHECKMULTISIG s =
    Ok (s\<lparr>ev_stack := bool_vch (matches ok sigs keys) # rest, ev_nOpCount := ev_nOpCount s + length keys\<rparr>)"
proof -
  let ?st = "multisig_operands keys sigs dummy @ rest"
  let ?n = "length keys" and ?m = "length sigs"
  have len: "length ?st = ?n + ?m + 3 + length rest" by (simp add: multisig_operands_def)
  have tops: "stacktop 1 ?st = Ok (getvch (int ?n))" "stacktop (2 + ?n) ?st = Ok (getvch (int ?m))"
    by (simp_all add: stacktop_def multisig_operands_def nth_append)
  have small: "\<bar>int ?n\<bar> < 2 ^ 31" "\<bar>int ?m\<bar> < 2 ^ 31" using n by simp_all
  let ?code = "multisig_code c sigs (ev_pbegincodehash s)"
  have st1: "drop (2 + ?n) ?st = sigs @ (dummy # rest)" and st2: "drop 1 ?st = keys @ (getvch (int ?m) # sigs @ dummy # rest)"
    by (simp_all add: multisig_operands_def)
  have code: "multisig_drop_sigs c ?st (3 + ?n) ?m (ev_pbegincodehash s) = Ok ?code"
    using multisig_drop_sigs_code [OF st1, of c "ev_pbegincodehash s"] by (simp add: numeral_3_eq_3 numeral_2_eq_2)
  from multisig_loop_greedy [OF chk st1 st2 enc]
  have loop: "multisig_loop c ?st ?code (3 + ?n) 2 (int ?m) (int ?n) True = Ok (matches ok sigs keys)"
    using n by (simp add: greedy_matches numeral_3_eq_3 numeral_2_eq_2)
  have clean: "multisig_cleanup c (matches ok sigs keys) (2 + ?n + ?m) (?n + 2) ?st = Ok (dummy # rest)"
    using multisig_cleanup_drop [OF _ nf, of "2 + ?n + ?m" ?st "?n + 2"] len by (simp add: multisig_operands_def)
  have fin: "multisig_finish c OP_CHECKMULTISIG (matches ok sigs keys) (dummy # rest) =
      Ok (bool_vch (matches ok sigs keys) # rest)"
    using nd by (auto simp: multisig_finish_def)
  have i: "3 + ?n + ?m - 1 = 2 + ?n + ?m" "2 + ?n + 1 = 3 + ?n" by simp_all
  have conds: "(length ?st < 1) = False" "(int ?n < 0 \<or> int MAX_PUBKEYS_PER_MULTISIG < int ?n) = False"
    "(MAX_OPS_PER_SCRIPT < ev_nOpCount s + ?n) = False" "(length ?st < 2 + ?n) = False"
    "(int ?m < 0 \<or> int ?n < int ?m) = False" "(length ?st < 3 + ?n + ?m) = False"
    using n unfolding len by simp_all
  show ?thesis
    unfolding op_checkmultisig_def Let_def st
    by (simp only: tops bnd.simps num_arg_getvch [OF small(1)] num_arg_getvch [OF small(2)]
        getint_small [OF small(1)] getint_small [OF small(2)] nat_int i conds if_False code loop clean fin)
qed

section \<open>Properties\<close>

text \<open>C5: \<open>OP_CHECKMULTISIG\<close> decides the m-of-n condition. On well-formed operands it pushes true exactly when the
  checker accepts the signatures, in order, for some subsequence of the keys, although its loop runs once and never
  backtracks; it consumes all its operands and counts the keys as operations. The signatures are checked with the script
  code from which they have been cut, where the kind of script asks for it. It is asked that the checker returns on these
  signatures and keys, that they pass the rules of encoding, and that the rules on failed signatures and on the extra
  operand are met or not in force.\<close>

theorem checkmultisig_m_of_n:
  assumes "ev_stack s = multisig_operands keys sigs dummy @ rest"
    and "length keys \<le> MAX_PUBKEYS_PER_MULTISIG" and "length sigs \<le> length keys"
    and "ev_nOpCount s + length keys \<le> MAX_OPS_PER_SCRIPT"
    and "code = multisig_code c sigs (ev_pbegincodehash s)"
    and "ok = (\<lambda>sig pk. CheckSig (ctx_checker c) sig pk code (ctx_sigversion c) = Ok True)"
    and "\<And>sig pk. sig \<in> set sigs \<Longrightarrow> pk \<in> set keys \<Longrightarrow> \<exists>b. CheckSig (ctx_checker c) sig pk code (ctx_sigversion c) = Ok b"
    and "\<And>sig. sig \<in> set sigs \<Longrightarrow> CheckSignatureEncoding (ctx_crypto c) sig (ctx_flags c) = Ok ()"
    and "\<And>pk. pk \<in> set keys \<Longrightarrow> CheckPubKeyEncoding pk (ctx_flags c) (ctx_sigversion c) = Ok ()"
    and "matches ok sigs keys \<or> \<not> flag c SCRIPT_VERIFY_NULLFAIL"
    and "dummy = [] \<or> \<not> flag c SCRIPT_VERIFY_NULLDUMMY"
  shows "op_checkmultisig c OP_CHECKMULTISIG s =
    Ok (s\<lparr>ev_stack := bool_vch (matches ok sigs keys) # rest, ev_nOpCount := ev_nOpCount s + length keys\<rparr>)"
proof (rule checkmultisig_matches [OF assms(1-4) _ assms(8-11)])
  show "CheckSig (ctx_checker c) sig pk (multisig_code c sigs (ev_pbegincodehash s)) (ctx_sigversion c) = Ok (ok sig pk)"
    if "sig \<in> set sigs" "pk \<in> set keys" for sig pk
    using assms(7) [OF that] unfolding assms(5,6) by auto
qed

text \<open>
  The checker of an input of a transaction, with a stand-in for the elliptic curve that compares a byte of the key with the
  signature.
\<close>

definition demo_multisig_ctx :: evalctx where
  "demo_multisig_ctx =
     \<lparr>ctx_flags = 0,
      ctx_checker = tx_checker (take 32) (\<lambda>pk h sig. sig = [pk ! 1]) \<lparr>chk_txTo = demo_tx, chk_nIn = 0, chk_amount = 5, chk_txdata = None\<rparr>,
      ctx_sigversion = SIGVERSION_BASE,
      ctx_crypto = \<lparr>RIPEMD160 = (\<lambda>_. []), SHA1 = (\<lambda>_. []), SHA256 = (\<lambda>_. []), CheckLowS = (\<lambda>_. True)\<rparr>\<rparr>"

abbreviation demo_multisig_key :: "u8 \<Rightarrow> bytes" where "demo_multisig_key k \<equiv> 2 # replicate 32 k"

abbreviation demo_multisig_state :: evalstate where
  "demo_multisig_state \<equiv> init_state (multisig_operands (map demo_multisig_key [1, 2, 3]) [[1, 1], [3, 1]] [] @ []) []"

theorem checkmultisig_m_of_n_witness:
  "op_checkmultisig demo_multisig_ctx OP_CHECKMULTISIG demo_multisig_state =
     Ok (demo_multisig_state\<lparr>ev_stack := [bool_vch True], ev_nOpCount := 0 + 3\<rparr>)"
proof -
  let ?code = "multisig_code demo_multisig_ctx [[1, 1], [3, 1]] (ev_pbegincodehash demo_multisig_state)" and ?keys = "map demo_multisig_key [1, 2, 3]"
  let ?ok = "\<lambda>sig pk. CheckSig (ctx_checker demo_multisig_ctx) sig pk ?code (ctx_sigversion demo_multisig_ctx) = Ok True"
  have check: "CheckSig (ctx_checker demo_multisig_ctx) [j, 1] (demo_multisig_key k) code (ctx_sigversion demo_multisig_ctx) = Ok (j = k)" for j k code
    by (simp add: demo_multisig_ctx_def tx_checker_def Checker_CheckSig_def CPubKey_Set_def CPubKey_GetLen_def SignatureHash_def demo_tx_def)
  have m: "matches ?ok [[1, 1], [3, 1]] ?keys" using check by (simp add: greedy_matches [symmetric])
  have "op_checkmultisig demo_multisig_ctx OP_CHECKMULTISIG demo_multisig_state =
    Ok (demo_multisig_state\<lparr>ev_stack := bool_vch (matches ?ok [[1, 1], [3, 1]] ?keys) # [], ev_nOpCount := ev_nOpCount demo_multisig_state + length ?keys\<rparr>)"
    by (rule checkmultisig_m_of_n [OF _ _ _ _ refl refl])
      (use check m in \<open>auto simp: init_state_def CheckSignatureEncoding_def CheckPubKeyEncoding_def has_flag_def demo_multisig_ctx_def\<close>)
  then show ?thesis using m by (simp add: init_state_def)
qed

end
