(* ===== verification/ArithUint256.thy ===== *)
theory ArithUint256
  imports Prelude
begin

unbundle bit_operations_syntax

text \<open>
  The 256-bit integers of \<open>src/src/arith_uint256.h\<close> and \<open>arith_uint256.cpp\<close>. The array \<open>pn\<close> is the list of its
  eight 32-bit limbs, least significant first; the loops over it are recursions over the list or folds over the
  indices. Every operation is shown to compute on the value \<open>lval\<close> of the limbs what its name says, modulo
  \<open>2 ^ 256\<close>; these equations are the interface the proof-of-work code is verified against.
\<close>

type_synonym limbs = "u32 list"

section \<open>Definitions\<close>

definition WIDTH :: nat where "WIDTH = 8"

definition uint_zero :: limbs where "uint_zero = replicate WIDTH 0"

definition uint_of_u64 :: "u64 \<Rightarrow> limbs" where
  "uint_of_u64 b = ucast b # ucast (drop_bit 32 b) # replicate (WIDTH - 2) 0"

definition uint_is_zero :: "limbs \<Rightarrow> bool" where
  "uint_is_zero a \<longleftrightarrow> (\<forall>p\<in>set a. p = 0)"

definition uint_not :: "limbs \<Rightarrow> limbs" where
  "uint_not a = map (\<lambda>p. NOT p) a"

definition uint_xor :: "limbs \<Rightarrow> limbs \<Rightarrow> limbs" where
  "uint_xor a b = map2 (XOR) a b"

definition uint_and :: "limbs \<Rightarrow> limbs \<Rightarrow> limbs" where
  "uint_and a b = map2 (AND) a b"

definition uint_or :: "limbs \<Rightarrow> limbs \<Rightarrow> limbs" where
  "uint_or a b = map2 (OR) a b"

fun add_loop :: "u64 \<Rightarrow> limbs \<Rightarrow> limbs \<Rightarrow> limbs" where
  "add_loop carry (p # pn) (q # b) =
     (let n = carry + ucast p + ucast q in ucast (n AND 0xffffffff) # add_loop (drop_bit 32 n) pn b)"
| "add_loop carry _ _ = []"

definition uint_add :: "limbs \<Rightarrow> limbs \<Rightarrow> limbs" where
  "uint_add a b = add_loop 0 a b"

primrec uint_inc :: "limbs \<Rightarrow> limbs" where
  "uint_inc [] = []"
| "uint_inc (p # pn) = (if p + 1 = 0 then (p + 1) # uint_inc pn else (p + 1) # pn)"

primrec uint_dec :: "limbs \<Rightarrow> limbs" where
  "uint_dec [] = []"
| "uint_dec (p # pn) = (if p - 1 = - 1 then (p - 1) # uint_dec pn else (p - 1) # pn)"

definition uint_neg :: "limbs \<Rightarrow> limbs" where
  "uint_neg a = uint_inc (uint_not a)"

definition uint_sub :: "limbs \<Rightarrow> limbs \<Rightarrow> limbs" where
  "uint_sub a b = uint_add a (uint_neg b)"

primrec mul32_loop :: "u64 \<Rightarrow> u32 \<Rightarrow> limbs \<Rightarrow> limbs" where
  "mul32_loop carry b32 [] = []"
| "mul32_loop carry b32 (p # pn) =
     (let n = carry + ucast b32 * ucast p in ucast (n AND 0xffffffff) # mul32_loop (drop_bit 32 n) b32 pn)"

definition uint_mul32 :: "limbs \<Rightarrow> u32 \<Rightarrow> limbs" where
  "uint_mul32 a b32 = mul32_loop 0 b32 a"

text \<open>The inner loop of the long multiplication, on the limbs from position \<open>j\<close> on.\<close>

fun mul_row :: "u64 \<Rightarrow> u32 \<Rightarrow> limbs \<Rightarrow> limbs \<Rightarrow> limbs" where
  "mul_row carry aj (p # pn) (q # b) =
     (let n = carry + ucast p + ucast aj * ucast q in ucast (n AND 0xffffffff) # mul_row (drop_bit 32 n) aj pn b)"
| "mul_row carry aj _ _ = []"

definition uint_mul :: "limbs \<Rightarrow> limbs \<Rightarrow> limbs" where
  "uint_mul a b =
     foldl (\<lambda>pn j. take j pn @ mul_row 0 (a ! j) (drop j pn) b) uint_zero [0..<WIDTH]"

definition shl_step :: "limbs \<Rightarrow> nat \<Rightarrow> nat \<Rightarrow> limbs \<Rightarrow> nat \<Rightarrow> limbs" where
  "shl_step a k s pn i =
     (let pn = (if i + k + 1 < WIDTH \<and> s \<noteq> 0
                then pn[i + k + 1 := pn ! (i + k + 1) OR drop_bit (32 - s) (a ! i)] else pn)
      in if i + k < WIDTH then pn[i + k := pn ! (i + k) OR push_bit s (a ! i)] else pn)"

definition uint_shl :: "limbs \<Rightarrow> nat \<Rightarrow> limbs" where
  "uint_shl a n = foldl (shl_step a (n div 32) (n mod 32)) uint_zero [0..<WIDTH]"

definition shr_step :: "limbs \<Rightarrow> nat \<Rightarrow> nat \<Rightarrow> limbs \<Rightarrow> nat \<Rightarrow> limbs" where
  "shr_step a k s pn i =
     (let pn = (if k + 1 \<le> i \<and> s \<noteq> 0
                then pn[i - k - 1 := pn ! (i - k - 1) OR push_bit (32 - s) (a ! i)] else pn)
      in if k \<le> i then pn[i - k := pn ! (i - k) OR drop_bit s (a ! i)] else pn)"

definition uint_shr :: "limbs \<Rightarrow> nat \<Rightarrow> limbs" where
  "uint_shr a n = foldl (shr_step a (n div 32) (n mod 32)) uint_zero [0..<WIDTH]"

text \<open>\<open>CompareTo\<close> goes from the most significant limb down; the recursion takes the reversed limbs.\<close>

fun compare_loop :: "limbs \<Rightarrow> limbs \<Rightarrow> int" where
  "compare_loop (p # pn) (q # b) = (if p < q then - 1 else if p > q then 1 else compare_loop pn b)"
| "compare_loop _ _ = 0"

definition CompareTo :: "limbs \<Rightarrow> limbs \<Rightarrow> int" where
  "CompareTo a b = compare_loop (rev a) (rev b)"

definition EqualTo :: "limbs \<Rightarrow> u64 \<Rightarrow> bool" where
  "EqualTo a b =
     (if \<exists>p\<in>set (drop 2 a). p \<noteq> 0 then False
      else if ucast (a ! 1) \<noteq> drop_bit 32 b then False
      else if ucast (a ! 0) \<noteq> b AND 0xffffffff then False
      else True)"

primrec limb_bits :: "u32 \<Rightarrow> nat \<Rightarrow> nat" where
  "limb_bits p 0 = 1"
| "limb_bits p (Suc nbits) = (if p AND push_bit (Suc nbits) 1 \<noteq> 0 then Suc nbits + 1 else limb_bits p nbits)"

primrec bits_loop :: "limbs \<Rightarrow> nat \<Rightarrow> nat" where
  "bits_loop a 0 = 0"
| "bits_loop a (Suc pos) = (if a ! pos \<noteq> 0 then 32 * pos + limb_bits (a ! pos) 31 else bits_loop a pos)"

definition bits :: "limbs \<Rightarrow> nat" where
  "bits a = bits_loop a WIDTH"

text \<open>The loop of the long division: \<open>n\<close> is \<open>shift + 1\<close>, the number of bits still to decide.\<close>

primrec div_loop :: "nat \<Rightarrow> limbs \<Rightarrow> limbs \<Rightarrow> limbs \<Rightarrow> limbs \<times> limbs" where
  "div_loop 0 num dv q = (q, num)"
| "div_loop (Suc shift) num dv q =
     (if CompareTo num dv \<ge> 0
      then div_loop shift (uint_sub num dv) (uint_shr dv 1)
             (q[shift div 32 := q ! (shift div 32) OR push_bit (shift mod 32) 1])
      else div_loop shift num (uint_shr dv 1) q)"

text \<open>\<^term>\<open>None\<close> is the exception \<open>uint_error\<close> of a division by zero.\<close>

definition uint_div :: "limbs \<Rightarrow> limbs \<Rightarrow> limbs option" where
  "uint_div a b =
     (let num_bits = bits a; div_bits = bits b in
      if div_bits = 0 then None
      else if div_bits > num_bits then Some uint_zero
      else let shift = num_bits - div_bits
           in Some (fst (div_loop (shift + 1) a (uint_shl b shift) uint_zero)))"

definition GetLow64 :: "limbs \<Rightarrow> u64" where
  "GetLow64 a = ucast (a ! 0) OR push_bit 32 (ucast (a ! 1))"

definition ArithToUint256 :: "limbs \<Rightarrow> bytes" where
  "ArithToUint256 a = concat (map (\<lambda>p. le_bytes 4 (unat p)) a)"

definition UintToArith256 :: "bytes \<Rightarrow> limbs" where
  "UintToArith256 h = map (\<lambda>x. word_of_nat (le_val (take 4 (drop (x * 4) h)))) [0..<WIDTH]"

section \<open>Values\<close>

primrec lval :: "limbs \<Rightarrow> nat" where
  "lval [] = 0"
| "lval (p # pn) = unat p + 2 ^ 32 * lval pn"

definition uint_ok :: "limbs \<Rightarrow> bool" where
  "uint_ok a \<longleftrightarrow> length a = WIDTH"

lemma lval_less: "lval a < 2 ^ (32 * length a)"
proof (induction a)
  case (Cons p a)
  have "unat p < 2 ^ 32" using unat_u32_less [of p] by simp
  moreover have "2 ^ 32 * (lval a + 1) \<le> 2 ^ 32 * 2 ^ (32 * length a)" using Cons by (intro mult_le_mono2) simp
  ultimately have "unat p + 2 ^ 32 * lval a < 2 ^ 32 * 2 ^ (32 * length a)" by (simp only: distrib_left mult_1_right)
  then show ?case by (simp add: power_add)
qed simp

lemma lval_256: "uint_ok a \<Longrightarrow> lval a < 2 ^ 256"
  using lval_less [of a] by (simp add: uint_ok_def WIDTH_def)

lemma lval_append: "lval (a @ b) = lval a + 2 ^ (32 * length a) * lval b"
  by (induction a) (simp_all add: power_add algebra_simps)

lemma lval_replicate_0 [simp]: "lval (replicate n 0) = 0"
  by (induction n) simp_all

lemma lval_zero [simp]: "lval uint_zero = 0" "uint_ok uint_zero"
  by (simp_all add: uint_zero_def uint_ok_def)

lemma lval_eq_0_iff: "lval a = 0 \<longleftrightarrow> (\<forall>p\<in>set a. p = 0)"
  by (induction a) (auto simp: unat_eq_0)

text \<open>The split of a 64-bit accumulator into the limb stored and the carry.\<close>

lemma unat_low32: "unat (ucast (n AND 0xffffffff :: u64) :: u32) = unat n mod 2 ^ 32"
proof -
  have "n AND 0xffffffff = take_bit 32 n" by (simp add: take_bit_eq_mask mask_eq_exp_minus_1)
  then show ?thesis
    by (simp only: unsigned_ucast_eq unsigned_take_bit_eq) (simp add: take_bit_eq_mod)
qed

lemma u32_le: "unat (p :: u32) \<le> 0xffffffff"
  using unat_u32_less [of p] by linarith

lemma unat_high32: "unat (drop_bit 32 n :: u64) = unat n div 2 ^ 32"
  by (simp only: unsigned_drop_bit_eq) (simp add: drop_bit_eq_div take_bit_eq_mod)

lemma unat_ucast64 [simp]: "unat (ucast (p :: u32) :: u64) = unat p"
  using u32_le [of p] by (simp add: unsigned_ucast_eq take_bit_eq_mod)

lemma unat_acc_add:
  assumes "unat c < 2 ^ 32"
  shows "unat (c + ucast p + ucast q :: u64) = unat c + unat (p :: u32) + unat (q :: u32)"
proof -
  have "unat c + unat p + unat q < 2 ^ 64" using assms u32_le [of p] u32_le [of q] by simp
  then show ?thesis by (simp add: unat_word_ariths)
qed

lemma mul_u32_le: "unat (p :: u32) * unat (q :: u32) \<le> (2 ^ 32 - 1) * (2 ^ 32 - 1)"
  using u32_le [of p] u32_le [of q] by (intro mult_le_mono) simp_all

lemma unat_acc_mul:
  assumes "unat c < 2 ^ 32"
  shows "unat (c + ucast p + ucast a * ucast q :: u64) = unat c + unat (p :: u32) + unat (a :: u32) * unat (q :: u32)"
proof -
  have "unat (ucast a * ucast q :: u64) = unat a * unat q"
    using mul_u32_le [of a q] by (simp add: unat_word_ariths)
  moreover have "unat c + unat p + unat a * unat q < 2 ^ 64"
    using assms u32_le [of p] mul_u32_le [of a q] by simp
  ultimately show ?thesis by (simp add: unat_word_ariths(1))
qed

lemma div_2_32_less: "n < 2 ^ 64 \<Longrightarrow> n div 2 ^ 32 < (2 ^ 32 :: nat)"
  by (simp add: div_less_iff_less_mult flip: power_add)

lemma unat_high32_less: "unat (drop_bit 32 n :: u64) < 2 ^ 32"
  using div_2_32_less [of "unat n"] unat_u64_less [of n] by (simp add: unat_high32)

text \<open>Writing back one limb and carrying the rest computes modulo the width.\<close>

lemma limb_step: "(n mod 2 ^ 32 + 2 ^ 32 * ((m + n div 2 ^ 32) mod 2 ^ k)) = (n + 2 ^ 32 * m) mod 2 ^ (32 + k)" for n m :: nat
proof -
  have "(n + 2 ^ 32 * m) mod (2 ^ 32 * 2 ^ k) =
      2 ^ 32 * ((n + 2 ^ 32 * m) div 2 ^ 32 mod 2 ^ k) + (n + 2 ^ 32 * m) mod 2 ^ 32"
    by (rule mod_mult2_eq)
  also have "(n + 2 ^ 32 * m) div 2 ^ 32 = m + n div 2 ^ 32" by simp
  finally show ?thesis by (simp add: power_add)
qed

lemma length_add_loop [simp]: "length (add_loop c a b) = min (length a) (length b)"
  by (induction c a b rule: add_loop.induct) (simp_all add: Let_def)

lemma lval_add_loop:
  "length a = length b \<Longrightarrow> unat c < 2 ^ 32 \<Longrightarrow>
   lval (add_loop c a b) = (unat c + lval a + lval b) mod 2 ^ (32 * length a)"
proof (induction c a b rule: add_loop.induct)
  case (1 c p pn q b)
  let ?n = "c + ucast p + ucast q :: u64"
  have "lval (add_loop (drop_bit 32 ?n) pn b) = (unat ?n div 2 ^ 32 + lval pn + lval b) mod 2 ^ (32 * length pn)"
    using "1.IH" [OF refl _ unat_high32_less] "1.prems" by (simp add: unat_high32)
  then have "lval (add_loop c (p # pn) (q # b)) =
      unat ?n mod 2 ^ 32 + 2 ^ 32 * ((lval pn + lval b + unat ?n div 2 ^ 32) mod 2 ^ (32 * length pn))"
    by (simp add: Let_def unat_low32 add_ac)
  also have "\<dots> = (unat ?n + 2 ^ 32 * (lval pn + lval b)) mod 2 ^ (32 + 32 * length pn)" by (rule limb_step)
  also have "unat ?n + 2 ^ 32 * (lval pn + lval b) = unat c + lval (p # pn) + lval (q # b)"
    unfolding unat_acc_add [OF "1.prems"(2)] by (simp add: algebra_simps)
  finally show ?case by simp
qed auto

lemma lval_add: "uint_ok a \<Longrightarrow> uint_ok b \<Longrightarrow> lval (uint_add a b) = (lval a + lval b) mod 2 ^ 256 \<and> uint_ok (uint_add a b)"
  using lval_add_loop [of a b 0] by (simp add: uint_add_def uint_ok_def WIDTH_def)

lemma mod_split_high: "x < 2 ^ m \<Longrightarrow> x + 2 ^ m * (y mod 2 ^ k) = (x + 2 ^ m * y) mod 2 ^ (m + k)" for x y :: nat
proof -
  assume "x < 2 ^ m"
  then have "(x + 2 ^ m * y) mod 2 ^ m = x" "(x + 2 ^ m * y) div 2 ^ m = y" by simp_all
  then show ?thesis using mod_mult2_eq [of "x + 2 ^ m * y" "2 ^ m" "2 ^ k"] by (simp add: power_add)
qed

lemma length_uint_inc [simp]: "length (uint_inc a) = length a"
  by (induction a) simp_all

lemma lval_inc: "lval (uint_inc a) = (lval a + 1) mod 2 ^ (32 * length a)"
proof (induction a)
  case (Cons p a)
  show ?case
  proof (cases "p + 1 = 0")
    case True
    then have "p = - 1" by (simp add: eq_neg_iff_add_eq_0)
    then have p: "unat p = 2 ^ 32 - 1" by (simp add: unsigned_minus_1_eq_mask mask_eq_exp_minus_1)
    have "lval (uint_inc (p # a)) = 0 + 2 ^ 32 * ((lval a + 1) mod 2 ^ (32 * length a))"
      using True Cons by simp
    also have "\<dots> = (0 + 2 ^ 32 * (lval a + 1)) mod 2 ^ (32 + 32 * length a)" by (rule mod_split_high) simp
    also have "0 + 2 ^ 32 * (lval a + 1) = lval (p # a) + 1" using p by simp
    finally show ?thesis by simp
  next
    case False
    then have "unat (p + 1) = unat p + 1" by (metis Suc_eq_plus1 add.commute unatSuc)
    then have "lval (uint_inc (p # a)) = lval (p # a) + 1" using False by simp
    then show ?thesis using lval_less [of "uint_inc (p # a)"] by (metis length_uint_inc mod_less)
  qed
qed simp

lemma unat_not: "unat (NOT p :: u32) = 2 ^ 32 - 1 - unat p"
proof -
  have "NOT p = - 1 - p" by (simp add: not_eq_complement)
  then show ?thesis using u32_le [of p] by (simp add: unat_sub_if' unsigned_minus_1_eq_mask mask_eq_exp_minus_1 word_le_nat_alt)
qed

lemma lval_not: "lval (uint_not a) + lval a + 1 = 2 ^ (32 * length a)"
proof (induction a)
  case (Cons p a)
  have "unat (NOT p) + unat p + 1 = 2 ^ 32" using u32_le [of p] by (simp add: unat_not)
  moreover have "lval (uint_not (p # a)) + lval (p # a) + 1 =
      unat (NOT p) + unat p + 1 + 2 ^ 32 * (lval (uint_not a) + lval a)"
    by (simp add: uint_not_def algebra_simps)
  ultimately have "lval (uint_not (p # a)) + lval (p # a) + 1 = 2 ^ 32 * (lval (uint_not a) + lval a + 1)"
    by (simp add: algebra_simps)
  then show ?case using Cons by (simp add: power_add)
qed (simp add: uint_not_def)

lemma lval_neg: "uint_ok a \<Longrightarrow> lval (uint_neg a) = (2 ^ 256 - lval a) mod 2 ^ 256 \<and> uint_ok (uint_neg a)"
proof -
  assume a: "uint_ok a"
  have "lval (uint_neg a) = (lval (uint_not a) + 1) mod 2 ^ (32 * length a)"
    using lval_inc [of "uint_not a"] by (simp add: uint_neg_def uint_not_def)
  moreover have "lval (uint_not a) + 1 = 2 ^ (32 * length a) - lval a" using lval_not [of a] by linarith
  ultimately show ?thesis using a by (simp add: uint_ok_def WIDTH_def uint_neg_def uint_not_def)
qed

lemma lval_sub:
  assumes "uint_ok a" "uint_ok b"
  shows "lval (uint_sub a b) = (lval a + (2 ^ 256 - lval b)) mod 2 ^ 256" "uint_ok (uint_sub a b)"
    and "lval b \<le> lval a \<Longrightarrow> lval (uint_sub a b) = lval a - lval b"
proof -
  show eq: "lval (uint_sub a b) = (lval a + (2 ^ 256 - lval b)) mod 2 ^ 256" and "uint_ok (uint_sub a b)"
    using lval_add [of a "uint_neg b"] lval_neg [of b] assms by (simp_all add: uint_sub_def mod_add_right_eq)
  assume "lval b \<le> lval a"
  then have "lval a + (2 ^ 256 - lval b) = 2 ^ 256 + (lval a - lval b)" using lval_256 [OF assms(2)] by simp
  then show "lval (uint_sub a b) = lval a - lval b" using eq lval_256 [OF assms(1)] by simp
qed

section \<open>Multiplication\<close>

lemma length_mul32_loop [simp]: "length (mul32_loop c b a) = length a"
  by (induction a arbitrary: c) (simp_all add: Let_def)

lemma lval_mul32_loop:
  "unat c < 2 ^ 32 \<Longrightarrow> lval (mul32_loop c b a) = (unat c + unat b * lval a) mod 2 ^ (32 * length a)"
proof (induction a arbitrary: c)
  case (Cons p a)
  let ?n = "c + ucast b * ucast p :: u64"
  have n: "unat ?n = unat c + unat b * unat p"
    using unat_acc_mul [OF Cons.prems, of 0 b p] by simp
  have "lval (mul32_loop c b (p # a)) =
      unat ?n mod 2 ^ 32 + 2 ^ 32 * ((unat b * lval a + unat ?n div 2 ^ 32) mod 2 ^ (32 * length a))"
    using Cons.IH [OF unat_high32_less, of ?n] by (simp add: Let_def unat_low32 unat_high32 add_ac)
  also have "\<dots> = (unat ?n + 2 ^ 32 * (unat b * lval a)) mod 2 ^ (32 + 32 * length a)" by (rule limb_step)
  finally show ?case unfolding n by (simp add: algebra_simps)
qed simp

lemma lval_mul32: "uint_ok a \<Longrightarrow> lval (uint_mul32 a b) = (lval a * unat b) mod 2 ^ 256 \<and> uint_ok (uint_mul32 a b)"
  using lval_mul32_loop [of 0 b a] by (simp add: uint_mul32_def uint_ok_def WIDTH_def mult.commute)

lemma length_mul_row [simp]: "length (mul_row c aj a b) = min (length a) (length b)"
  by (induction c aj a b rule: mul_row.induct) (simp_all add: Let_def)

lemma lval_mul_row:
  "length a \<le> length b \<Longrightarrow> unat c < 2 ^ 32 \<Longrightarrow>
   lval (mul_row c aj a b) = (unat c + lval a + unat aj * lval b) mod 2 ^ (32 * length a)"
proof (induction c aj a b rule: mul_row.induct)
  case (1 c aj p pn q b)
  let ?n = "c + ucast p + ucast aj * ucast q :: u64"
  have "lval (mul_row (drop_bit 32 ?n) aj pn b) =
      (unat ?n div 2 ^ 32 + lval pn + unat aj * lval b) mod 2 ^ (32 * length pn)"
    using "1.IH" [OF refl _ unat_high32_less] "1.prems" by (simp add: unat_high32)
  then have "lval (mul_row c aj (p # pn) (q # b)) =
      unat ?n mod 2 ^ 32 + 2 ^ 32 * ((lval pn + unat aj * lval b + unat ?n div 2 ^ 32) mod 2 ^ (32 * length pn))"
    by (simp add: Let_def unat_low32 add_ac)
  also have "\<dots> = (unat ?n + 2 ^ 32 * (lval pn + unat aj * lval b)) mod 2 ^ (32 + 32 * length pn)"
    by (rule limb_step)
  also have "unat ?n + 2 ^ 32 * (lval pn + unat aj * lval b) = unat c + lval (p # pn) + unat aj * lval (q # b)"
    unfolding unat_acc_mul [OF "1.prems"(2)] by (simp add: algebra_simps)
  finally show ?case by simp
qed auto

lemma lval_take_Suc: "j < length a \<Longrightarrow> lval (take (Suc j) a) = lval (take j a) + 2 ^ (32 * j) * unat (a ! j)"
  by (simp add: take_Suc_conv_app_nth lval_append min_def)

lemma lval_mul_step:
  assumes "length pn = n" "length b = n" "j < n"
  shows "lval (take j pn @ mul_row 0 aj (drop j pn) b) = (lval pn + 2 ^ (32 * j) * (unat aj * lval b)) mod 2 ^ (32 * n)"
proof -
  have "lval (take j pn @ mul_row 0 aj (drop j pn) b) =
      lval (take j pn) + 2 ^ (32 * j) * ((lval (drop j pn) + unat aj * lval b) mod 2 ^ (32 * (n - j)))"
    using assms lval_mul_row [of "drop j pn" b 0 aj] by (simp add: lval_append min_def)
  also have "\<dots> = (lval (take j pn) + 2 ^ (32 * j) * (lval (drop j pn) + unat aj * lval b)) mod 2 ^ (32 * j + 32 * (n - j))"
    using assms lval_less [of "take j pn"] by (intro mod_split_high) (simp add: min_def)
  also have "lval (take j pn) + 2 ^ (32 * j) * (lval (drop j pn) + unat aj * lval b) =
      lval (take j pn @ drop j pn) + 2 ^ (32 * j) * (unat aj * lval b)"
    using assms by (simp add: lval_append min_def algebra_simps del: append_take_drop_id)
  also have "32 * j + 32 * (n - j) = 32 * n" using assms(3) by simp
  finally show ?thesis by simp
qed

lemma lval_mul_fold:
  assumes "uint_ok a" "uint_ok b" "n \<le> WIDTH"
  shows "let pn = foldl (\<lambda>pn j. take j pn @ mul_row 0 (a ! j) (drop j pn) b) uint_zero [0..<n]
         in uint_ok pn \<and> lval pn = (lval (take n a) * lval b) mod 2 ^ 256"
  using assms(3)
proof (induction n)
  case 0
  then show ?case by simp
next
  case (Suc n)
  define pn where "pn = foldl (\<lambda>pn j. take j pn @ mul_row 0 (a ! j) (drop j pn) b) uint_zero [0..<n]"
  have IH: "uint_ok pn" "lval pn = (lval (take n a) * lval b) mod 2 ^ 256" and n: "n < 8"
    using Suc by (simp_all add: pn_def Let_def WIDTH_def)
  have "lval (take n pn @ mul_row 0 (a ! n) (drop n pn) b) = (lval pn + 2 ^ (32 * n) * (unat (a ! n) * lval b)) mod 2 ^ 256"
    using lval_mul_step [of pn 8 b n "a ! n"] IH(1) assms(2) n by (simp add: uint_ok_def WIDTH_def)
  also have "\<dots> = (lval (take n a) * lval b + 2 ^ (32 * n) * (unat (a ! n) * lval b)) mod 2 ^ 256"
    unfolding IH(2) by (rule mod_add_left_eq)
  also have "lval (take n a) * lval b + 2 ^ (32 * n) * (unat (a ! n) * lval b) = lval (take (Suc n) a) * lval b"
    using assms(1) n by (simp add: lval_take_Suc uint_ok_def WIDTH_def algebra_simps)
  finally show ?case
    using IH(1) assms(2) n by (simp add: uint_ok_def WIDTH_def min_def flip: pn_def)
qed

lemma lval_mul: "uint_ok a \<Longrightarrow> uint_ok b \<Longrightarrow> lval (uint_mul a b) = (lval a * lval b) mod 2 ^ 256 \<and> uint_ok (uint_mul a b)"
  using lval_mul_fold [of a b WIDTH] by (simp add: uint_mul_def Let_def uint_ok_def)

section \<open>Bits of the value\<close>

lemma bit_add_high: "x < 2 ^ k \<Longrightarrow> bit (x + 2 ^ k * y) n \<longleftrightarrow> (if n < k then bit x n else bit y (n - k))" for x y :: nat
proof -
  assume x: "x < 2 ^ k"
  let ?z = "x + 2 ^ k * y"
  have "take_bit k ?z = x" "drop_bit k ?z = y" using x by (simp_all add: take_bit_eq_mod drop_bit_eq_div)
  moreover have "bit ?z n = (if n < k then bit (take_bit k ?z) n else bit (drop_bit k ?z) (n - k))"
    by (simp add: bit_take_bit_iff bit_drop_bit_eq)
  ultimately show ?thesis by simp
qed

lemma bit_lval: "bit (lval a) n \<longleftrightarrow> n < 32 * length a \<and> bit (a ! (n div 32)) (n mod 32)"
proof (induction a arbitrary: n)
  case (Cons p a)
  have "unat p < 2 ^ 32" using unat_u32_less [of p] by simp
  then have "bit (lval (p # a)) n \<longleftrightarrow> (if n < 32 then bit (unat p) n else bit (lval a) (n - 32))"
    using bit_add_high [of "unat p" 32 "lval a" n] by simp
  then show ?case
  proof (cases "n < 32")
    case False
    then obtain m where "n = 32 + m" using le_Suc_ex not_less by blast
    then show ?thesis using Cons [of m] \<open>bit (lval (p # a)) n = _\<close> by (simp add: div_add_self1)
  qed (simp add: bit_unsigned_iff)
qed simp

lemma lval_bitI:
  assumes "\<And>n. n < 32 * length a \<Longrightarrow> bit (a ! (n div 32)) (n mod 32) \<longleftrightarrow> bit v n"
    and "\<And>n. 32 * length a \<le> n \<Longrightarrow> \<not> bit v n"
  shows "lval a = v"
proof (rule bit_eqI)
  fix n
  show "bit (lval a) n = bit v n" using assms [of n] bit_lval [of a n] by (cases "n < 32 * length a") auto
qed

lemma lval_eqI:
  assumes "\<And>n. n < 32 * length a \<Longrightarrow> bit (a ! (n div 32)) (n mod 32) \<longleftrightarrow> bit v n" "v < 2 ^ (32 * length a)"
  shows "lval a = v"
proof (rule lval_bitI [OF assms(1)])
  fix n assume "32 * length a \<le> n"
  then show "\<not> bit v n" using assms(2) by (metis bit_take_bit_iff not_le take_bit_nat_eq_self)
qed

section \<open>Shifts\<close>

lemma length_shl_step [simp]: "length (shl_step a k s pn i) = length pn"
  by (simp add: shl_step_def Let_def)

lemma shl_fold:
  assumes "n \<le> WIDTH"
  shows "let pn = foldl (shl_step a k s) uint_zero [0..<n] in length pn = WIDTH \<and>
    (\<forall>m<WIDTH. pn ! m = (if k \<le> m \<and> m - k < n then push_bit s (a ! (m - k)) else 0)
       OR (if k + 1 \<le> m \<and> m - k - 1 < n \<and> s \<noteq> 0 then drop_bit (32 - s) (a ! (m - k - 1)) else 0))"
  using assms
proof (induction n)
  case 0
  then show ?case by (simp add: uint_zero_def)
next
  case (Suc n)
  define pn where "pn = foldl (shl_step a k s) uint_zero [0..<n]"
  have len: "length pn = WIDTH" and IH: "\<And>m. m < WIDTH \<Longrightarrow>
      pn ! m = (if k \<le> m \<and> m - k < n then push_bit s (a ! (m - k)) else 0)
       OR (if k + 1 \<le> m \<and> m - k - 1 < n \<and> s \<noteq> 0 then drop_bit (32 - s) (a ! (m - k - 1)) else 0)"
    using Suc by (simp_all add: pn_def Let_def)
  have "shl_step a k s pn n ! m = (if k \<le> m \<and> m - k < Suc n then push_bit s (a ! (m - k)) else 0)
       OR (if k + 1 \<le> m \<and> m - k - 1 < Suc n \<and> s \<noteq> 0 then drop_bit (32 - s) (a ! (m - k - 1)) else 0)"
    if m: "m < WIDTH" for m
  proof -
    consider "m = n + k + 1" | "m = n + k" | "m \<noteq> n + k + 1" "m \<noteq> n + k" by blast
    then show ?thesis
    proof cases
      case 1
      have "pn ! m = 0" using IH [OF m] by (simp add: 1)
      then show ?thesis using m by (simp add: shl_step_def Let_def nth_list_update len 1)
    next
      case 2
      then show ?thesis using m IH [OF m] by (simp add: shl_step_def Let_def nth_list_update len or.commute [of _ "push_bit _ _"])
    next
      case 3
      then have c: "k \<le> m \<and> m - k < Suc n \<longleftrightarrow> k \<le> m \<and> m - k < n"
        "k + 1 \<le> m \<and> m - k - 1 < Suc n \<and> s \<noteq> 0 \<longleftrightarrow> k + 1 \<le> m \<and> m - k - 1 < n \<and> s \<noteq> 0"
        by linarith+
      have "shl_step a k s pn n ! m = pn ! m" using 3 by (simp add: shl_step_def Let_def nth_list_update)
      then show ?thesis unfolding c IH [OF m] .
    qed
  qed
  then show ?case using len by (simp flip: pn_def)
qed

lemma bit_lval_limb: "r < 32 \<Longrightarrow> bit (lval a) (32 * m + r) \<longleftrightarrow> m < length a \<and> bit (a ! m) r"
  by (auto simp: bit_lval)

lemma bit_lval_minus:
  assumes "r < 32" "s < 32" "m < length a"
  shows "32 * k + s \<le> 32 * m + r \<and> bit (lval a) (32 * m + r - (32 * k + s)) \<longleftrightarrow>
    (if s \<le> r then k \<le> m \<and> bit (a ! (m - k)) (r - s) else k < m \<and> bit (a ! (m - k - 1)) (32 + r - s))"
proof (cases "s \<le> r")
  case True
  have "32 * m + r - (32 * k + s) = 32 * (m - k) + (r - s)" if "k \<le> m" using that True by simp
  moreover have "32 * k + s \<le> 32 * m + r \<longleftrightarrow> k \<le> m" using assms True by linarith
  ultimately show ?thesis using True assms bit_lval_limb [of "r - s" a "m - k"] by auto
next
  case False
  have "32 * m + r - (32 * k + s) = 32 * (m - k - 1) + (32 + r - s)" if "k < m" using that False assms by simp
  moreover have "32 * k + s \<le> 32 * m + r \<longleftrightarrow> k < m" using assms False by linarith
  ultimately show ?thesis using False assms bit_lval_limb [of "32 + r - s" a "m - k - 1"] by auto
qed

lemma not_bit_u32: "32 \<le> l \<Longrightarrow> \<not> bit (p :: u32) l"
  using bit_imp_le_length [of p l] by auto

lemma bit_shl_limb:
  assumes "r < 32" "s < 32"
  shows "bit ((if k \<le> m \<and> m - k < w then push_bit s (a ! (m - k)) else 0)
       OR (if k + 1 \<le> m \<and> m - k - 1 < w \<and> s \<noteq> 0 then drop_bit (32 - s) (a ! (m - k - 1)) else 0) :: u32) r
    \<longleftrightarrow> (if s \<le> r then k \<le> m \<and> m - k < w \<and> bit (a ! (m - k)) (r - s)
         else k < m \<and> m - k - 1 < w \<and> bit (a ! (m - k - 1)) (32 + r - s))"
  using assms not_bit_u32 [of "32 - s + r"]
  by (auto simp: bit_or_iff bit_push_bit_iff bit_drop_bit_eq Suc_le_eq)

lemma lval_shl: "uint_ok a \<Longrightarrow> lval (uint_shl a n) = (lval a * 2 ^ n) mod 2 ^ 256 \<and> uint_ok (uint_shl a n)"
proof -
  assume a: "uint_ok a"
  define k s where "k = n div 32" and "s = n mod 32"
  have n: "n = 32 * k + s" "s < 32" by (simp_all add: k_def s_def)
  define pn where "pn = uint_shl a n"
  have len: "length pn = WIDTH" and nth: "\<And>m. m < WIDTH \<Longrightarrow>
      pn ! m = (if k \<le> m \<and> m - k < WIDTH then push_bit s (a ! (m - k)) else 0)
       OR (if k + 1 \<le> m \<and> m - k - 1 < WIDTH \<and> s \<noteq> 0 then drop_bit (32 - s) (a ! (m - k - 1)) else 0)"
    using shl_fold [of WIDTH a k s] by (simp_all add: pn_def uint_shl_def Let_def k_def s_def)
  have "lval pn = take_bit 256 (push_bit n (lval a))"
  proof (rule lval_eqI)
    fix i assume "i < 32 * length pn"
    define m r where "m = i div 32" and "r = i mod 32"
    have i: "i = 32 * m + r" "r < 32" "i < 256" "m < WIDTH"
      using \<open>i < 32 * length pn\<close> by (simp_all add: m_def r_def len WIDTH_def)
    have "bit (pn ! m) r \<longleftrightarrow> n \<le> i \<and> bit (lval a) (i - n)"
      unfolding nth [OF i(4)] bit_shl_limb [OF i(2) n(2)] i(1) n(1)
      using bit_lval_minus [OF i(2) n(2), of m a k] a i(4) by (auto simp: uint_ok_def)
    then show "bit (pn ! (i div 32)) (i mod 32) = bit (take_bit 256 (push_bit n (lval a))) i"
      using i(3) by (simp add: bit_take_bit_iff bit_push_bit_iff flip: m_def r_def)
  next
    have "32 * length pn = 256" by (simp add: len WIDTH_def)
    then show "take_bit 256 (push_bit n (lval a)) < 2 ^ (32 * length pn)" using take_bit_nat_less_exp by metis
  qed
  then show ?thesis using len by (simp add: pn_def uint_ok_def take_bit_eq_mod push_bit_eq_mult)
qed

lemma length_shr_step [simp]: "length (shr_step a k s pn i) = length pn"
  by (simp add: shr_step_def Let_def)

lemma shr_fold:
  assumes "n \<le> WIDTH"
  shows "let pn = foldl (shr_step a k s) uint_zero [0..<n] in length pn = WIDTH \<and>
    (\<forall>m<WIDTH. pn ! m = (if m + k < n then drop_bit s (a ! (m + k)) else 0)
       OR (if m + k + 1 < n \<and> s \<noteq> 0 then push_bit (32 - s) (a ! (m + k + 1)) else 0))"
  using assms
proof (induction n)
  case 0
  then show ?case by (simp add: uint_zero_def)
next
  case (Suc n)
  define pn where "pn = foldl (shr_step a k s) uint_zero [0..<n]"
  have len: "length pn = WIDTH" and n: "n < WIDTH" and IH: "\<And>m. m < WIDTH \<Longrightarrow>
      pn ! m = (if m + k < n then drop_bit s (a ! (m + k)) else 0)
       OR (if m + k + 1 < n \<and> s \<noteq> 0 then push_bit (32 - s) (a ! (m + k + 1)) else 0)"
    using Suc by (simp_all add: pn_def Let_def)
  have "shr_step a k s pn n ! m = (if m + k < Suc n then drop_bit s (a ! (m + k)) else 0)
       OR (if m + k + 1 < Suc n \<and> s \<noteq> 0 then push_bit (32 - s) (a ! (m + k + 1)) else 0)"
    if m: "m < WIDTH" for m
  proof -
    consider "n = m + k + 1" | "n = m + k" | "n \<noteq> m + k + 1" "n \<noteq> m + k" by blast
    then show ?thesis
    proof cases
      case 1
      then have "pn ! m = drop_bit s (a ! (m + k))" using IH [OF m] by simp
      then show ?thesis using m n by (simp add: shr_step_def Let_def nth_list_update len 1)
    next
      case 2
      then have "pn ! m = 0" using IH [OF m] by simp
      then show ?thesis using m n by (cases m) (simp_all add: shr_step_def Let_def nth_list_update len 2)
    next
      case 3
      then have c: "m + k < Suc n \<longleftrightarrow> m + k < n"
        "m + k + 1 < Suc n \<and> s \<noteq> 0 \<longleftrightarrow> m + k + 1 < n \<and> s \<noteq> 0" by linarith+
      have "k + 1 \<le> n \<Longrightarrow> n - k - 1 \<noteq> m" "k \<le> n \<Longrightarrow> n - k \<noteq> m" using 3 by linarith+
      then have "shr_step a k s pn n ! m = pn ! m" by (simp add: shr_step_def Let_def nth_list_update)
      then show ?thesis unfolding c IH [OF m] .
    qed
  qed
  then show ?case using len by (simp flip: pn_def)
qed

lemma bit_lval_plus:
  assumes "r < 32" "s < 32"
  shows "bit (lval a) (32 * m + r + (32 * k + s)) \<longleftrightarrow>
    (if r + s < 32 then m + k < length a \<and> bit (a ! (m + k)) (r + s)
     else m + k + 1 < length a \<and> bit (a ! (m + k + 1)) (r + s - 32))"
proof (cases "r + s < 32")
  case True
  have "32 * m + r + (32 * k + s) = 32 * (m + k) + (r + s)" by simp
  then show ?thesis using True bit_lval_limb [of "r + s" a "m + k"] by (simp only: if_True)
next
  case False
  then have "32 * m + r + (32 * k + s) = 32 * (m + k + 1) + (r + s - 32)" by simp
  moreover have "r + s - 32 < 32" using assms by simp
  ultimately show ?thesis using False bit_lval_limb [of "r + s - 32" a "m + k + 1"] by (simp only: if_False)
qed

lemma bit_shr_limb:
  assumes "r < 32" "s < 32"
  shows "bit ((if m + k < w then drop_bit s (a ! (m + k)) else 0)
       OR (if m + k + 1 < w \<and> s \<noteq> 0 then push_bit (32 - s) (a ! (m + k + 1)) else 0) :: u32) r
    \<longleftrightarrow> (if r + s < 32 then m + k < w \<and> bit (a ! (m + k)) (r + s)
         else m + k + 1 < w \<and> bit (a ! (m + k + 1)) (r + s - 32))"
  using assms not_bit_u32 [of "r + s"]
  by (auto simp: bit_or_iff bit_push_bit_iff bit_drop_bit_eq add.commute [of s r])

lemma lval_shr: "uint_ok a \<Longrightarrow> lval (uint_shr a n) = lval a div 2 ^ n \<and> uint_ok (uint_shr a n)"
proof -
  assume a: "uint_ok a"
  define k s where "k = n div 32" and "s = n mod 32"
  have n: "n = 32 * k + s" "s < 32" by (simp_all add: k_def s_def)
  define pn where "pn = uint_shr a n"
  have len: "length pn = WIDTH" and nth: "\<And>m. m < WIDTH \<Longrightarrow>
      pn ! m = (if m + k < WIDTH then drop_bit s (a ! (m + k)) else 0)
       OR (if m + k + 1 < WIDTH \<and> s \<noteq> 0 then push_bit (32 - s) (a ! (m + k + 1)) else 0)"
    using shr_fold [of WIDTH a k s] by (simp_all add: pn_def uint_shr_def Let_def k_def s_def)
  have "lval pn = drop_bit n (lval a)"
  proof (rule lval_eqI)
    fix i assume "i < 32 * length pn"
    define m r where "m = i div 32" and "r = i mod 32"
    have i: "i = 32 * m + r" "r < 32" "m < WIDTH"
      using \<open>i < 32 * length pn\<close> by (simp_all add: m_def r_def len WIDTH_def)
    have "bit (pn ! m) r \<longleftrightarrow> bit (lval a) (i + n)"
      unfolding nth [OF i(3)] bit_shr_limb [OF i(2) n(2)] i(1) n(1)
      using bit_lval_plus [OF i(2) n(2), of a m k] a by (simp add: uint_ok_def)
    then show "bit (pn ! (i div 32)) (i mod 32) = bit (drop_bit n (lval a)) i"
      by (simp add: bit_drop_bit_eq add.commute flip: m_def r_def)
  next
    have "drop_bit n (lval a) \<le> lval a" by (simp add: drop_bit_eq_div)
    also have "\<dots> < 2 ^ (32 * length pn)" using lval_less [of a] a len by (simp add: uint_ok_def)
    finally show "drop_bit n (lval a) < 2 ^ (32 * length pn)" .
  qed
  then show ?thesis using len by (simp add: pn_def uint_ok_def drop_bit_eq_div)
qed

section \<open>Comparison\<close>

lemma lval_snoc_less:
  assumes "length a = length b" "unat p < unat q"
  shows "lval (a @ [p]) < lval (b @ [q])"
proof -
  let ?k = "2 ^ (32 * length a) :: nat"
  have "lval (a @ [p]) < ?k + ?k * unat p" using lval_less [of a] by (simp add: lval_append)
  also have "\<dots> = ?k * Suc (unat p)" by simp
  also have "\<dots> \<le> ?k * unat q" using assms(2) by (intro mult_le_mono2) simp
  also have "\<dots> \<le> lval (b @ [q])" using assms(1) by (simp add: lval_append)
  finally show ?thesis .
qed

lemma compare_loop_lval:
  "length a = length b \<Longrightarrow>
   compare_loop (rev a) (rev b) = (if lval a < lval b then - 1 else if lval a > lval b then 1 else 0)"
proof (induction a arbitrary: b rule: rev_induct)
  case (snoc p a)
  then obtain q b' where b: "b = b' @ [q]" "length a = length b'" by (cases b rule: rev_cases) auto
  consider "unat p < unat q" | "unat q < unat p" | "p = q" by (metis linorder_cases word_unat_eq_iff)
  then show ?case
  proof cases
    case 1
    then show ?thesis using lval_snoc_less [OF b(2) 1] by (simp add: b word_less_nat_alt)
  next
    case 2
    then show ?thesis using lval_snoc_less [OF b(2) [symmetric] 2] by (simp add: b word_less_nat_alt)
  next
    case 3
    then show ?thesis using snoc.IH [OF b(2)] by (simp add: b lval_append)
  qed
qed simp

lemma CompareTo_lval:
  "uint_ok a \<Longrightarrow> uint_ok b \<Longrightarrow> CompareTo a b = (if lval a < lval b then - 1 else if lval a > lval b then 1 else 0)"
  by (simp add: CompareTo_def compare_loop_lval uint_ok_def)

section \<open>The number of bits\<close>

lemma and_push_bit_eq_0: "p AND push_bit n 1 \<noteq> 0 \<longleftrightarrow> bit p n" for p :: u32
  by (simp add: push_bit_of_1 and_exp_eq_0_iff_not_bit)

lemma bit_top: "x < 2 ^ Suc m \<Longrightarrow> bit x m \<longleftrightarrow> 2 ^ m \<le> x" for x :: nat
proof -
  assume "x < 2 ^ Suc m"
  then have "x div 2 ^ m < 2" by (simp add: div_less_iff_less_mult)
  then have "odd (x div 2 ^ m) \<longleftrightarrow> x div 2 ^ m \<noteq> 0" by (auto simp: less_2_cases_iff)
  moreover have "x div 2 ^ m \<noteq> 0 \<longleftrightarrow> 2 ^ m \<le> x" by (simp add: div_eq_0_iff not_less)
  ultimately show ?thesis by (simp add: bit_iff_odd)
qed

lemma limb_bits_bounds:
  "p \<noteq> 0 \<Longrightarrow> unat p < 2 ^ Suc n \<Longrightarrow> n < 32 \<Longrightarrow>
   1 \<le> limb_bits p n \<and> limb_bits p n \<le> Suc n \<and> 2 ^ (limb_bits p n - 1) \<le> unat p \<and> unat p < 2 ^ limb_bits p n"
proof (induction n)
  case 0
  then show ?case using unat_gt_0 [of p] by simp
next
  case (Suc n)
  have "bit p (Suc n) \<longleftrightarrow> 2 ^ Suc n \<le> unat p"
    using bit_top [OF Suc.prems(2)] Suc.prems(3) by (simp add: bit_unsigned_iff)
  moreover have "limb_bits p (Suc n) = (if bit p (Suc n) then Suc n + 1 else limb_bits p n)"
    by (simp only: limb_bits.simps and_push_bit_eq_0)
  ultimately show ?case using Suc by (auto simp: not_le)
qed

text \<open>\<open>n\<close> is the length of \<open>v\<close> in binary.\<close>

definition is_bits :: "nat \<Rightarrow> nat \<Rightarrow> bool" where
  "is_bits n v \<longleftrightarrow> v < 2 ^ n \<and> (n \<noteq> 0 \<longrightarrow> 2 ^ (n - 1) \<le> v)"

lemma bits_loop_is_bits: "n \<le> length a \<Longrightarrow> is_bits (bits_loop a n) (lval (take n a)) \<and> bits_loop a n \<le> 32 * n"
proof (induction n)
  case 0
  then show ?case by (simp add: is_bits_def)
next
  case (Suc n)
  have v: "lval (take (Suc n) a) = lval (take n a) + 2 ^ (32 * n) * unat (a ! n)"
    using Suc.prems by (intro lval_take_Suc) simp
  show ?case
  proof (cases "a ! n = 0")
    case True
    then show ?thesis using Suc v by simp
  next
    case False
    let ?l = "limb_bits (a ! n) 31"
    have l: "1 \<le> ?l" "?l \<le> 32" "2 ^ (?l - 1) \<le> unat (a ! n)" "Suc (unat (a ! n)) \<le> 2 ^ ?l"
      using limb_bits_bounds [OF False, of 31] unat_u32_less [of "a ! n"] by auto
    have "lval (take n a) < 2 ^ (32 * n)" using lval_less [of "take n a"] Suc.prems by (simp add: min_def)
    then have "lval (take (Suc n) a) < 2 ^ (32 * n) * Suc (unat (a ! n))" using v by simp
    also have "\<dots> \<le> 2 ^ (32 * n) * 2 ^ ?l" using l(4) by (rule mult_le_mono2)
    finally have up: "lval (take (Suc n) a) < 2 ^ (32 * n + ?l)" by (simp add: power_add)
    have "2 ^ (32 * n) * 2 ^ (?l - 1) \<le> 2 ^ (32 * n) * unat (a ! n)" using l(3) by (rule mult_le_mono2)
    then have "2 ^ (32 * n + ?l - 1) \<le> lval (take (Suc n) a)" using v l(1) by (simp flip: power_add)
    then show ?thesis using False up l by (simp add: is_bits_def)
  qed
qed

lemma bits_is_bits: "uint_ok a \<Longrightarrow> is_bits (bits a) (lval a) \<and> bits a \<le> 256"
  using bits_loop_is_bits [of WIDTH a] by (simp add: bits_def uint_ok_def WIDTH_def)

lemma bits_eq_0_iff: "uint_ok a \<Longrightarrow> bits a = 0 \<longleftrightarrow> lval a = 0"
proof -
  assume "uint_ok a"
  then have b: "is_bits (bits a) (lval a)" using bits_is_bits by blast
  show ?thesis
  proof (cases "bits a = 0")
    case False
    have "0 < (2 :: nat) ^ (bits a - 1)" by simp
    also have "\<dots> \<le> lval a" using b False by (simp add: is_bits_def)
    finally show ?thesis using False by simp
  qed (use b in \<open>simp add: is_bits_def\<close>)
qed

section \<open>Division\<close>

lemma bit_dvd: "2 ^ Suc n dvd x \<Longrightarrow> \<not> bit x n" for x :: nat
  by (auto simp: bit_iff_odd dvd_def)

lemma lval_set_bit:
  assumes q: "uint_ok q" and n: "n < 256" and d: "2 ^ Suc n dvd lval q"
  shows "lval (q[n div 32 := q ! (n div 32) OR push_bit (n mod 32) 1]) = lval q + 2 ^ n"
proof -
  let ?q = "q[n div 32 := q ! (n div 32) OR push_bit (n mod 32) 1]"
  have len: "length q = 8" using q by (simp add: uint_ok_def WIDTH_def)
  have "lval ?q = lval q OR 2 ^ n"
  proof (rule lval_bitI)
    fix i assume i: "i < 32 * length ?q"
    have eq: "i = n \<longleftrightarrow> i div 32 = n div 32 \<and> i mod 32 = n mod 32" by (metis div_mult_mod_eq)
    have "bit (lval q) i \<longleftrightarrow> bit (q ! (i div 32)) (i mod 32)" using i bit_lval [of q i] by simp
    then show "bit (?q ! (i div 32)) (i mod 32) = bit (lval q OR 2 ^ n) i"
      using i n len eq
      by (cases "i div 32 = n div 32")
        (auto simp: bit_or_iff bit_push_bit_iff bit_exp_iff nth_list_update bit_1_iff)
  next
    fix i assume "32 * length ?q \<le> i"
    then show "\<not> bit (lval q OR 2 ^ n) i" using n len by (auto simp: bit_or_iff bit_exp_iff bit_lval)
  qed
  moreover have "lval q AND 2 ^ n = 0" using bit_dvd [OF d] by (simp add: and_exp_eq_0_iff_not_bit)
  ultimately show ?thesis by (simp add: disjunctive_add_eq_or)
qed

lemma div_loop_lval:
  assumes "D \<noteq> 0"
  shows "n \<le> 256 \<Longrightarrow> uint_ok num \<Longrightarrow> uint_ok dv \<Longrightarrow> uint_ok q \<Longrightarrow> lval num < D * 2 ^ n \<Longrightarrow>
    (n \<noteq> 0 \<Longrightarrow> lval dv = D * 2 ^ (n - 1)) \<Longrightarrow> 2 ^ n dvd lval q \<Longrightarrow>
    (case div_loop n num dv q of (q', num') \<Rightarrow>
       uint_ok q' \<and> uint_ok num' \<and> lval q' = lval q + lval num div D \<and> lval num' = lval num mod D)"
proof (induction n arbitrary: num dv q)
  case 0
  then show ?case by simp
next
  case (Suc n)
  have dv: "lval dv = D * 2 ^ n" using Suc.prems(6) by simp
  let ?dv = "uint_shr dv 1"
  have dv': "uint_ok ?dv" "n \<noteq> 0 \<Longrightarrow> lval ?dv = D * 2 ^ (n - 1)"
    using lval_shr [OF Suc.prems(3), of 1] dv by (auto simp: gr0_conv_Suc)
  have d: "2 ^ n dvd lval q" using Suc.prems(7) by (metis dvd_mult_left power_Suc2)
  show ?case
  proof (cases "lval dv \<le> lval num")
    case True
    let ?num = "uint_sub num dv" and ?q = "q[n div 32 := q ! (n div 32) OR push_bit (n mod 32) 1]"
    have num: "uint_ok ?num" "lval num = lval ?num + 2 ^ n * D"
      using lval_sub [OF Suc.prems(2,3)] True dv by (simp_all add: mult.commute)
    have q: "uint_ok ?q" "lval ?q = lval q + 2 ^ n"
      using lval_set_bit [OF Suc.prems(4) _ Suc.prems(7)] Suc.prems(1,4) by (simp_all add: uint_ok_def)
    have "lval ?num < D * 2 ^ n" using num(2) Suc.prems(5) by (simp add: mult.commute)
    from Suc.IH [OF _ num(1) dv'(1) q(1) this dv'(2)] Suc.prems(1) d q(2)
    have "case div_loop n ?num ?dv ?q of (q', num') \<Rightarrow>
       uint_ok q' \<and> uint_ok num' \<and> lval q' = lval ?q + lval ?num div D \<and> lval num' = lval ?num mod D" by simp
    moreover have "lval num div D = 2 ^ n + lval ?num div D" "lval num mod D = lval ?num mod D"
      using assms by (simp_all add: num(2))
    moreover have "CompareTo num dv \<ge> 0" using True Suc.prems(2,3) by (simp add: CompareTo_lval)
    ultimately show ?thesis using q(2) by (simp split: prod.splits)
  next
    case False
    then have "\<not> CompareTo num dv \<ge> 0" using Suc.prems(2,3) by (simp add: CompareTo_lval)
    moreover have "lval num < D * 2 ^ n" using False dv by simp
    ultimately show ?thesis
      using Suc.IH [OF _ Suc.prems(2) dv'(1) Suc.prems(4) _ dv'(2) d] Suc.prems(1) by simp
  qed
qed

lemma lval_div:
  assumes a: "uint_ok a" and b: "uint_ok b"
  shows "lval b = 0 \<Longrightarrow> uint_div a b = None"
    and "lval b \<noteq> 0 \<Longrightarrow> \<exists>q. uint_div a b = Some q \<and> uint_ok q \<and> lval q = lval a div lval b"
proof -
  show "lval b = 0 \<Longrightarrow> uint_div a b = None" using b by (simp add: uint_div_def bits_eq_0_iff)
next
  assume D: "lval b \<noteq> 0"
  have ba: "lval a < 2 ^ bits a" "bits a \<le> 256" and bb: "2 ^ (bits b - 1) \<le> lval b" "lval b < 2 ^ bits b" "bits b \<noteq> 0"
    using bits_is_bits [OF a] bits_is_bits [OF b] bits_eq_0_iff [OF b] D by (auto simp: is_bits_def)
  show "\<exists>q. uint_div a b = Some q \<and> uint_ok q \<and> lval q = lval a div lval b"
  proof (cases "bits b > bits a")
    case True
    then have "(2 :: nat) ^ bits a \<le> 2 ^ (bits b - 1)" by (intro power_increasing) auto
    then have "lval a < lval b" using ba(1) bb(1) by linarith
    then show ?thesis using True bb(3) by (simp add: uint_div_def)
  next
    case False
    let ?s = "bits a - bits b"
    have "lval b * 2 ^ ?s < 2 ^ bits b * 2 ^ ?s" using bb(2) by simp
    also have "\<dots> = 2 ^ bits a" using False by (simp flip: power_add)
    also have "\<dots> \<le> 2 ^ 256" using ba(2) by (intro power_increasing) auto
    finally have sh: "uint_ok (uint_shl b ?s)" "lval (uint_shl b ?s) = lval b * 2 ^ ?s"
      using lval_shl [OF b, of ?s] by simp_all
    have "bits b - 1 + (?s + 1) = bits a" using bb(3) False by simp
    then have "lval a < 2 ^ (bits b - 1) * 2 ^ (?s + 1)" using ba(1) by (metis power_add)
    also have "\<dots> \<le> lval b * 2 ^ (?s + 1)" using bb(1) by (rule mult_le_mono1)
    finally have lt: "lval a < lval b * 2 ^ (?s + 1)" .
    have "?s + 1 \<le> 256" using bb(3) ba(2) False by linarith
    from div_loop_lval [OF D this a sh(1) lval_zero(2) lt] sh(2)
    show ?thesis using False bb(3) by (auto simp: uint_div_def Let_def split: prod.splits)
  qed
qed

section \<open>Conversions\<close>

lemma lval_of_u64: "lval (uint_of_u64 b) = unat b" "uint_ok (uint_of_u64 b)"
proof -
  have "unat (ucast b :: u32) = unat b mod 2 ^ 32" by (simp add: unsigned_ucast_eq take_bit_eq_mod)
  moreover have "unat (ucast (drop_bit 32 b) :: u32) = unat b div 2 ^ 32"
    using unat_high32_less [of b] by (simp add: unsigned_ucast_eq take_bit_eq_mod unat_high32)
  ultimately show "lval (uint_of_u64 b) = unat b" by (simp add: uint_of_u64_def)
qed (simp add: uint_of_u64_def uint_ok_def WIDTH_def)

lemma GetLow64_lval: "uint_ok a \<Longrightarrow> unat (GetLow64 a) = lval a mod 2 ^ 64"
proof -
  assume "uint_ok a"
  then obtain p q r where a: "a = p # q # r"
    by (auto simp: uint_ok_def WIDTH_def numeral_eq_Suc length_Suc_conv)
  let ?p = "ucast p :: u64" and ?q = "ucast q :: u64"
  have "\<not> (bit ?p n \<and> bit (push_bit 32 ?q) n)" for n
    using not_bit_u32 [of n p] by (auto simp: bit_push_bit_iff bit_ucast_iff)
  then have "?p AND push_bit 32 ?q = 0" by (intro bit_eqI) (simp add: bit_and_iff)
  then have "GetLow64 a = ?p + push_bit 32 ?q" by (simp add: GetLow64_def a disjunctive_add_eq_or)
  moreover have "unat (push_bit 32 ?q) = 2 ^ 32 * unat q"
    using u32_le [of q] by (simp add: push_bit_eq_mult unat_word_ariths mult.commute)
  ultimately have "unat (GetLow64 a) = unat p + 2 ^ 32 * unat q"
    using u32_le [of p] u32_le [of q] by (simp add: unat_word_ariths)
  moreover have "lval a = unat p + 2 ^ 32 * unat q + 2 ^ 64 * lval r" by (simp add: a)
  ultimately show ?thesis using u32_le [of p] u32_le [of q] by simp
qed

lemma EqualTo_lval: "uint_ok a \<Longrightarrow> EqualTo a b \<longleftrightarrow> lval a = unat b"
proof -
  assume "uint_ok a"
  then obtain p q r where a: "a = p # q # r"
    by (auto simp: uint_ok_def WIDTH_def numeral_eq_Suc length_Suc_conv)
  have q: "ucast q = drop_bit 32 b \<longleftrightarrow> unat q = unat b div 2 ^ 32"
    by (simp add: word_unat_eq_iff unat_high32)
  have "unat (b AND 0xffffffff) = unat b mod 2 ^ 32"
  proof -
    have "b AND 0xffffffff = take_bit 32 b" by (simp add: take_bit_eq_mask mask_eq_exp_minus_1)
    then show ?thesis by (simp only: unsigned_take_bit_eq) (simp add: take_bit_eq_mod)
  qed
  then have p: "ucast p = b AND 0xffffffff \<longleftrightarrow> unat p = unat b mod 2 ^ 32" by (simp add: word_unat_eq_iff)
  have "lval a = unat b \<longleftrightarrow> lval r = 0 \<and> unat q = unat b div 2 ^ 32 \<and> unat p = unat b mod 2 ^ 32"
  proof
    assume eq: "lval a = unat b"
    define x where "x = unat q + 2 ^ 32 * lval r"
    have "unat b = unat p + 2 ^ 32 * x" by (simp add: a x_def flip: eq)
    then have d: "unat b div 2 ^ 32 = unat q + 2 ^ 32 * lval r" "unat b mod 2 ^ 32 = unat p"
      unfolding x_def [symmetric] using u32_le [of p] by simp_all
    have "unat b div 2 ^ 32 < 2 ^ 32" using unat_high32_less [of b] by (simp add: unat_high32)
    then have "lval r = 0" using d(1) by (cases "lval r") simp_all
    then show "lval r = 0 \<and> unat q = unat b div 2 ^ 32 \<and> unat p = unat b mod 2 ^ 32" using d by simp
  qed (simp add: a)
  moreover have "EqualTo a b \<longleftrightarrow> lval r = 0 \<and> ucast q = drop_bit 32 b \<and> ucast p = b AND 0xffffffff"
    by (simp add: EqualTo_def a lval_eq_0_iff)
  ultimately show ?thesis using p q by simp
qed

lemma ArithToUint256_val: "le_val (ArithToUint256 a) = lval a \<and> length (ArithToUint256 a) = 4 * length a"
proof (induction a)
  case (Cons p a)
  have "le_val (le_bytes 4 (unat p)) = unat p" using u32_le [of p] by (simp add: le_val_le_bytes)
  then show ?case using Cons by (simp add: ArithToUint256_def le_val_append)
qed (simp add: ArithToUint256_def)

lemma UintToArith256_ok: "uint_ok (UintToArith256 h)"
  by (simp add: UintToArith256_def uint_ok_def)

lemma map_chunks_val:
  "length h = 4 * n \<Longrightarrow> lval (map (\<lambda>x. word_of_nat (le_val (take 4 (drop (x * 4) h)))) [0..<n]) = le_val h"
proof (induction n arbitrary: h)
  case (Suc n)
  have four: "length (take 4 h) = 4" using Suc.prems by simp
  have le: "le_val (take 4 h) < 2 ^ 32" using le_val_less [of "take 4 h"] four by simp
  have tl: "map (\<lambda>x. word_of_nat (le_val (take 4 (drop (x * 4) h)))) [Suc 0..<Suc n] =
      (map (\<lambda>x. word_of_nat (le_val (take 4 (drop (x * 4) (drop 4 h))))) [0..<n] :: limbs)"
    by (simp add: o_def add.commute del: upt_Suc flip: map_Suc_upt)
  have "lval (map (\<lambda>x. word_of_nat (le_val (take 4 (drop (x * 4) h)))) [0..<Suc n]) =
      unat (word_of_nat (le_val (take 4 h)) :: u32) + 2 ^ 32 * le_val (drop 4 h)"
    using Suc.IH [of "drop 4 h"] Suc.prems tl by (simp add: upt_conv_Cons del: upt_Suc)
  also have "\<dots> = le_val (take 4 h @ drop 4 h)"
    using le four by (simp add: le_val_append unat_of_nat del: append_take_drop_id)
  finally show ?case by simp
qed simp

lemma UintToArith256_val: "length h = 32 \<Longrightarrow> lval (UintToArith256 h) = le_val h"
  using map_chunks_val [of h 8] by (simp add: UintToArith256_def WIDTH_def)

section \<open>The interface of modular integers\<close>

text \<open>
  What the difficulty and work computations need of the integers: operations on representations that compute
  modulo a power of two on their values. The lemmas of the retargeting code are proved from these laws alone.
\<close>

locale modular_uint =
  fixes val :: "'a \<Rightarrow> nat" and ok :: "'a \<Rightarrow> bool" and w :: nat
    and add :: "'a \<Rightarrow> 'a \<Rightarrow> 'a" and neg :: "'a \<Rightarrow> 'a" and compl :: "'a \<Rightarrow> 'a"
    and mul :: "'a \<Rightarrow> 'a \<Rightarrow> 'a" and divide :: "'a \<Rightarrow> 'a \<Rightarrow> 'a option" and compare :: "'a \<Rightarrow> 'a \<Rightarrow> int"
  assumes val_less: "ok a \<Longrightarrow> val a < 2 ^ w"
    and add_ok: "ok a \<Longrightarrow> ok b \<Longrightarrow> ok (add a b)" and add_val: "ok a \<Longrightarrow> ok b \<Longrightarrow> val (add a b) = (val a + val b) mod 2 ^ w"
    and neg_ok: "ok a \<Longrightarrow> ok (neg a)" and neg_val: "ok a \<Longrightarrow> val (neg a) = (2 ^ w - val a) mod 2 ^ w"
    and compl_ok: "ok a \<Longrightarrow> ok (compl a)" and compl_val: "ok a \<Longrightarrow> val (compl a) + val a + 1 = 2 ^ w"
    and mul_ok: "ok a \<Longrightarrow> ok b \<Longrightarrow> ok (mul a b)" and mul_val: "ok a \<Longrightarrow> ok b \<Longrightarrow> val (mul a b) = (val a * val b) mod 2 ^ w"
    and div_zero: "ok a \<Longrightarrow> ok b \<Longrightarrow> val b = 0 \<Longrightarrow> divide a b = None"
    and div_val: "ok a \<Longrightarrow> ok b \<Longrightarrow> val b \<noteq> 0 \<Longrightarrow> \<exists>q. divide a b = Some q \<and> ok q \<and> val q = val a div val b"
    and compare_val: "ok a \<Longrightarrow> ok b \<Longrightarrow> compare a b = (if val a < val b then - 1 else if val a > val b then 1 else 0)"
begin

lemma compare_iff:
  "ok a \<Longrightarrow> ok b \<Longrightarrow> compare a b > 0 \<longleftrightarrow> val b < val a"
  "ok a \<Longrightarrow> ok b \<Longrightarrow> compare a b < 0 \<longleftrightarrow> val a < val b"
  by (simp_all add: compare_val)

text \<open>Scaling by a fraction, where the product does not leave the range.\<close>

lemma scale_val:
  assumes "ok a" "ok n" "ok d" "val d \<noteq> 0" "val a * val n < 2 ^ w"
  shows "\<exists>q. divide (mul a n) d = Some q \<and> ok q \<and> val q = val a * val n div val d"
  using div_val [OF mul_ok [OF assms(1,2)] assms(3,4)] mul_val [OF assms(1,2)] assms(5) by auto

text \<open>The number of attempts a target stands for, \<open>2 ^ w div (t + 1)\<close>, without leaving the range.\<close>

lemma work_val:
  assumes a: "ok t" "ok one" "val one = 1" and t: "val t \<noteq> 0" "val t + 1 < 2 ^ w"
  shows "\<exists>q. divide (compl t) (add t one) = Some q \<and> ok q \<and> ok (add q one) \<and> val (add q one) = 2 ^ w div (val t + 1)"
proof -
  have s: "ok (add t one)" "val (add t one) = val t + 1" using a t(2) by (simp_all add: add_ok add_val)
  obtain q where q: "divide (compl t) (add t one) = Some q" "ok q" "val q = val (compl t) div (val t + 1)"
    using div_val [OF compl_ok [OF a(1)] s(1)] s(2) by auto
  have "2 ^ w = val (compl t) + (val t + 1)" using compl_val [OF a(1)] by simp
  moreover have "(val (compl t) + (val t + 1)) div (val t + 1) = val (compl t) div (val t + 1) + 1"
    by (rule div_add_self2) simp
  ultimately have e: "2 ^ w div (val t + 1) = val q + 1" by (simp only: q(3))
  have "2 ^ w div (val t + 1) \<le> 2 ^ w div 2" using t(1) by (intro div_le_mono2) auto
  also have "\<dots> < 2 ^ w" by simp
  finally show ?thesis using q(1,2) a e by (simp add: add_ok add_val)
qed

end

interpretation u256: modular_uint lval uint_ok 256 uint_add uint_neg uint_not uint_mul uint_div CompareTo
proof unfold_locales
  show "lval (uint_not a) + lval a + 1 = 2 ^ 256" if "uint_ok a" for a
    using lval_not [of a] that by (simp add: uint_ok_def WIDTH_def)
  show "uint_ok (uint_not a)" if "uint_ok a" for a using that by (simp add: uint_ok_def uint_not_def)
  show "lval a < 2 ^ 256" if "uint_ok a" for a using that by (rule lval_256)
qed (simp_all add: lval_add lval_neg lval_mul lval_div CompareTo_lval)

section \<open>Properties\<close>

text \<open>C39: The limb loops compute modulo \<open>2 ^ 256\<close>. Addition, subtraction, both multiplications, the shifts, the
  comparison and the length in bits of 256-bit integers are those of their values.\<close>

theorem arith_uint256_refines:
  assumes "uint_ok a" and "uint_ok b"
  shows "lval (uint_add a b) = (lval a + lval b) mod 2 ^ 256
    \<and> lval (uint_sub a b) = (lval a + (2 ^ 256 - lval b)) mod 2 ^ 256
    \<and> lval (uint_mul a b) = lval a * lval b mod 2 ^ 256
    \<and> lval (uint_mul32 a k) = lval a * unat k mod 2 ^ 256
    \<and> lval (uint_shl a n) = lval a * 2 ^ n mod 2 ^ 256
    \<and> lval (uint_shr a n) = lval a div 2 ^ n
    \<and> CompareTo a b = (if lval a < lval b then - 1 else if lval a > lval b then 1 else 0)
    \<and> is_bits (bits a) (lval a)"
  by (intro conjI)
    (rule conjunct1 [OF lval_add [OF assms]] lval_sub(1) [OF assms] conjunct1 [OF lval_mul [OF assms]]
      conjunct1 [OF lval_mul32 [OF assms(1)]] conjunct1 [OF lval_shl [OF assms(1)]]
      conjunct1 [OF lval_shr [OF assms(1)]] CompareTo_lval [OF assms] conjunct1 [OF bits_is_bits [OF assms(1)]])+

theorem arith_uint256_refines_witness:
  "lval (uint_mul (uint_of_u64 7) (uint_of_u64 6)) = 42 \<and> lval (uint_shl (uint_of_u64 7) 1) = 14"
  using arith_uint256_refines [of "uint_of_u64 7" "uint_of_u64 6" 0 1] by (simp add: lval_of_u64)

text \<open>The long division of 256-bit integers returns the quotient, for every divisor but zero, which throws. Its
  loop shifts and subtracts; the bits it sets are exactly those of the quotient.\<close>

theorem arith_uint256_division:
  assumes "uint_ok a" and "uint_ok b"
  shows "(uint_div a b = None \<longleftrightarrow> lval b = 0) \<and> (\<forall>q. uint_div a b = Some q \<longrightarrow> lval q = lval a div lval b)"
  using lval_div [OF assms] by (cases "lval b = 0") auto

theorem arith_uint256_division_witness:
  "uint_div (uint_of_u64 7) (uint_of_u64 0) = None \<and> (\<exists>q. uint_div (uint_of_u64 17) (uint_of_u64 5) = Some q \<and> lval q = 3)"
  using arith_uint256_division [OF lval_of_u64(2) lval_of_u64(2), of 17 5]
    arith_uint256_division [OF lval_of_u64(2) lval_of_u64(2), of 7 0]
  by (simp add: lval_of_u64) (metis not_None_eq)

end
