(* ===== verification/CompactTarget.thy ===== *)
theory CompactTarget
  imports ArithUint256
begin

unbundle bit_operations_syntax

text \<open>
  The compact form of difficulty targets (\<open>SetCompact\<close> and \<open>GetCompact\<close> of \<open>src/src/arith_uint256.cpp\<close>): a 32-bit
  word with an exponent of base 256 in its top byte, a sign bit and a mantissa of 23 bits.
\<close>

section \<open>Definitions\<close>

record compact_result =
  cr_value :: limbs
  cr_fNegative :: bool
  cr_fOverflow :: bool

definition SetCompact :: "u32 \<Rightarrow> compact_result" where
  "SetCompact nCompact =
     (let nSize = unat (drop_bit 24 nCompact);
          nWord0 = nCompact AND 0x007fffff;
          nWord = (if nSize \<le> 3 then drop_bit (8 * (3 - nSize)) nWord0 else nWord0)
      in \<lparr>cr_value = (if nSize \<le> 3 then uint_of_u64 (ucast nWord) else uint_shl (uint_of_u64 (ucast nWord)) (8 * (nSize - 3))),
          cr_fNegative = (nWord \<noteq> 0 \<and> nCompact AND 0x00800000 \<noteq> 0),
          cr_fOverflow = (nWord \<noteq> 0 \<and> (nSize > 34 \<or> (nWord > 0xff \<and> nSize > 33) \<or> (nWord > 0xffff \<and> nSize > 32)))\<rparr>)"

text \<open>\<^term>\<open>None\<close> is an assertion that fails. The 64-bit value is truncated to \<open>nCompact\<close>.\<close>

definition GetCompact :: "limbs \<Rightarrow> bool \<Rightarrow> u32 option" where
  "GetCompact a fNegative =
     (let nSize0 = (bits a + 7) div 8;
          nCompact0 = (if nSize0 \<le> 3 then ucast (push_bit (8 * (3 - nSize0)) (GetLow64 a))
                       else ucast (GetLow64 (uint_shr a (8 * (nSize0 - 3)))) :: u32);
          nCompact = (if nCompact0 AND 0x00800000 \<noteq> 0 then drop_bit 8 nCompact0 else nCompact0);
          nSize = (if nCompact0 AND 0x00800000 \<noteq> 0 then nSize0 + 1 else nSize0)
      in if nCompact AND NOT 0x007fffff \<noteq> 0 then None
         else if \<not> nSize < 256 then None
         else let nCompact = nCompact OR push_bit 24 (word_of_nat nSize)
              in Some (nCompact OR (if fNegative \<and> nCompact AND 0x007fffff \<noteq> 0 then 0x00800000 else 0)))"

section \<open>The compact form\<close>

text \<open>A difficulty as an exponent and a mantissa of 23 bits, and its value.\<close>

definition compact_size :: "u32 \<Rightarrow> nat" where
  "compact_size c = unat (drop_bit 24 c)"

definition compact_mantissa :: "u32 \<Rightarrow> nat" where
  "compact_mantissa c = unat (c AND 0x007fffff)"

definition compact_value :: "nat \<Rightarrow> nat \<Rightarrow> nat" where
  "compact_value sz mantissa = (if sz \<le> 3 then mantissa div 256 ^ (3 - sz) else mantissa * 256 ^ (sz - 3))"

lemma pow_256: "(2 :: nat) ^ (8 * n) = 256 ^ n"
  by (simp add: power_mult)

lemma compact_mantissa_less: "compact_mantissa c < 2 ^ 23"
proof -
  have "c AND 0x007fffff = take_bit 23 c" by (simp add: take_bit_eq_mask mask_eq_exp_minus_1)
  then show ?thesis unfolding compact_mantissa_def by (simp only: unsigned_take_bit_eq take_bit_nat_less_exp)
qed

lemma compact_size_less: "compact_size c < 256"
proof -
  have "unat c div 2 ^ 24 < 256" using u32_le [of c] by (simp add: div_less_iff_less_mult)
  then show ?thesis unfolding compact_size_def by (simp only: unsigned_drop_bit_eq) (simp add: drop_bit_eq_div take_bit_eq_mod)
qed

lemma SetCompact_value: "lval (cr_value (SetCompact c)) = compact_value (compact_size c) (compact_mantissa c) mod 2 ^ 256"
  "uint_ok (cr_value (SetCompact c))"
proof -
  let ?m = "c AND 0x007fffff" and ?z = "compact_size c"
  have m: "unat ?m < 2 ^ 23" using compact_mantissa_less [of c] by (simp add: compact_mantissa_def)
  have small: "lval (uint_of_u64 (ucast (drop_bit (8 * (3 - ?z)) ?m))) = unat ?m div 256 ^ (3 - ?z)"
    by (simp only: lval_of_u64 unat_ucast64 unsigned_drop_bit_eq) (simp add: drop_bit_eq_div take_bit_eq_mod pow_256 m)
  have "unat ?m div 256 ^ (3 - ?z) < 2 ^ 256"
  proof -
    have "unat ?m div 256 ^ (3 - ?z) \<le> unat ?m" by (rule div_le_dividend)
    also have "\<dots> < 2 ^ 23" by (rule m)
    also have "\<dots> < 2 ^ 256" by simp
    finally show ?thesis .
  qed
  then show "lval (cr_value (SetCompact c)) = compact_value ?z (compact_mantissa c) mod 2 ^ 256"
    using small lval_shl [OF lval_of_u64(2), of "ucast ?m" "8 * (?z - 3)"] m
    by (simp add: SetCompact_def Let_def compact_value_def compact_mantissa_def lval_of_u64 pow_256 flip: compact_size_def)
  show "uint_ok (cr_value (SetCompact c))"
    using lval_shl [OF lval_of_u64(2), of "ucast ?m" "8 * (?z - 3)"]
    by (simp add: SetCompact_def Let_def lval_of_u64 flip: compact_size_def)
qed

lemma compact_value_overflow_iff:
  assumes "m < 2 ^ 23"
  shows "2 ^ 256 \<le> compact_value sz m \<longleftrightarrow> m \<noteq> 0 \<and> (sz > 34 \<or> (m > 0xff \<and> sz > 33) \<or> (m > 0xffff \<and> sz > 32))"
proof -
  have p: "(2 :: nat) ^ 256 = 256 ^ 32" using pow_256 [of 32] by simp
  have lo: "2 ^ 256 \<le> m * 256 ^ (sz - 3)" if "256 ^ k \<le> m" "32 \<le> k + (sz - 3)" for k
  proof -
    have "(256 :: nat) ^ 32 \<le> 256 ^ (k + (sz - 3))" using that(2) by (intro power_increasing) auto
    also have "\<dots> \<le> m * 256 ^ (sz - 3)" using that(1) by (simp add: power_add)
    finally show ?thesis by (simp only: p)
  qed
  have hi: "m * 256 ^ (sz - 3) < 2 ^ 256" if "m < 256 ^ k" "k + (sz - 3) \<le> 32" for k
  proof -
    have "m * 256 ^ (sz - 3) < 256 ^ (k + (sz - 3))" using that(1) by (simp add: power_add)
    also have "\<dots> \<le> 256 ^ 32" using that(2) by (intro power_increasing) auto
    finally show ?thesis by (simp only: p)
  qed
  consider "sz \<le> 3" | "3 < sz" "sz \<le> 32" | "sz = 33" | "sz = 34" | "34 < sz" by linarith
  then show ?thesis
  proof cases
    case 1
    have "compact_value sz m \<le> m" using 1 by (simp add: compact_value_def)
    then have "compact_value sz m < 2 ^ 256" using assms by simp
    then show ?thesis using 1 by (simp only: not_le [symmetric]) simp
  next
    case 2
    then show ?thesis using hi [of 3] assms by (simp add: compact_value_def not_le)
  next
    case 3
    then show ?thesis using hi [of 2] lo [of 2] by (cases "m > 0xffff") (simp_all add: compact_value_def not_le not_less)
  next
    case 4
    then show ?thesis using hi [of 1] lo [of 1] by (cases "m > 0xff") (simp_all add: compact_value_def not_le not_less)
  next
    case 5
    then show ?thesis using lo [of 0] by (cases "m = 0") (simp_all add: compact_value_def Suc_le_eq)
  qed
qed

lemma SetCompact_flags:
  "cr_fOverflow (SetCompact c) \<longleftrightarrow> 2 ^ 256 \<le> compact_value (compact_size c) (compact_mantissa c)"
  "\<not> bit c 23 \<Longrightarrow> \<not> cr_fNegative (SetCompact c)"
proof -
  let ?m = "c AND 0x007fffff"
  have ov: "cr_fOverflow (SetCompact c) \<longleftrightarrow> 3 < compact_size c \<and> ?m \<noteq> 0 \<and>
      (compact_size c > 34 \<or> (?m > 0xff \<and> compact_size c > 33) \<or> (?m > 0xffff \<and> compact_size c > 32))"
    by (auto simp: SetCompact_def Let_def compact_size_def)
  show "cr_fOverflow (SetCompact c) \<longleftrightarrow> 2 ^ 256 \<le> compact_value (compact_size c) (compact_mantissa c)"
    unfolding ov compact_value_overflow_iff [OF compact_mantissa_less]
    by (auto simp: compact_mantissa_def unat_eq_0 word_less_nat_alt)
  have "c AND 0x00800000 = 0 \<longleftrightarrow> \<not> bit c 23" using and_exp_eq_0_iff_not_bit [of c 23] by simp
  then show "\<not> bit c 23 \<Longrightarrow> \<not> cr_fNegative (SetCompact c)" by (simp add: SetCompact_def Let_def)
qed

text \<open>The normal form \<open>GetCompact\<close> computes.\<close>

definition compact_form :: "nat \<Rightarrow> nat \<Rightarrow> nat \<Rightarrow> bool" where
  "compact_form v sz m \<longleftrightarrow>
     (if sz \<le> 3 then m = v * 256 ^ (3 - sz) else m = v div 256 ^ (sz - 3)) \<and> m < 2 ^ 23 \<and> (v \<noteq> 0 \<longrightarrow> 2 ^ 15 \<le> m)
     \<and> (v = 0 \<longrightarrow> sz = 0) \<and> sz \<le> 33"

lemma compact_form_mono: "compact_form v sz m \<Longrightarrow> compact_form v sz' m' \<Longrightarrow> v \<noteq> 0 \<Longrightarrow> \<not> sz < sz'"
proof
  assume c: "compact_form v sz m" "compact_form v sz' m'" "v \<noteq> 0" and lt: "sz < sz'"
  have b: "m < 2 ^ 23" "2 ^ 15 \<le> m'" "m' < 2 ^ 23" "2 ^ 15 \<le> m" using c by (auto simp: compact_form_def)
  consider "sz' \<le> 3" | "sz \<le> 3" "3 < sz'" | "3 < sz" using lt by linarith
  then have "256 * m' \<le> m"
  proof cases
    case 1
    then have "m = m' * 256 ^ (sz' - sz)"
      using c lt by (simp add: compact_form_def mult.assoc flip: power_add)
    moreover have "(256 :: nat) ^ 1 \<le> 256 ^ (sz' - sz)" using lt by (intro power_increasing) auto
    ultimately show ?thesis by (simp add: mult.commute)
  next
    case 2
    then have "m' = v div 256 ^ (sz' - 3)" "m = v * 256 ^ (3 - sz)" using c by (auto simp: compact_form_def)
    have "256 * m' \<le> 256 ^ (sz' - 3) * m'" using 2 by (simp add: self_le_power)
    also have "\<dots> \<le> v" using \<open>m' = _\<close> by simp
    also have "\<dots> \<le> m" using \<open>m = _\<close> by simp
    finally show ?thesis .
  next
    case 3
    then have "m' = v div 256 ^ (sz' - 3)" "m = v div 256 ^ (sz - 3)" using c lt by (auto simp: compact_form_def)
    moreover have "(256 :: nat) ^ (sz' - 3) = 256 ^ (sz - 3) * 256 ^ (sz' - sz)" using 3 lt by (simp flip: power_add)
    ultimately have "m' = m div 256 ^ (sz' - sz)" by (simp add: div_mult2_eq)
    moreover have "256 * m' \<le> 256 ^ (sz' - sz) * m'" using lt by (simp add: self_le_power)
    ultimately show ?thesis by (metis le_trans times_div_less_eq_dividend)
  qed
  then show False using b by simp
qed

lemma compact_form_unique:
  assumes "compact_form v sz m" "compact_form v sz' m'"
  shows "sz = sz' \<and> m = m'"
proof -
  have "sz = sz'"
  proof (cases "v = 0")
    case False
    then show ?thesis using compact_form_mono assms by (metis linorder_neqE_nat)
  qed (use assms in \<open>simp add: compact_form_def\<close>)
  then show ?thesis using assms by (auto simp: compact_form_def split: if_splits)
qed

lemma compact_form_value:
  assumes "compact_form v sz m"
  shows "compact_value sz m \<le> v" "v < compact_value sz m + 256 ^ (sz - 3)" "compact_form (compact_value sz m) sz m"
proof -
  show le: "compact_value sz m \<le> v" and "v < compact_value sz m + 256 ^ (sz - 3)"
    using assms dividend_less_times_div [of "256 ^ (sz - 3)" v]
    by (auto simp: compact_form_def compact_value_def mult.commute split: if_splits)
  have "compact_value sz m = v" if "sz \<le> 3" using that assms by (simp add: compact_form_def compact_value_def)
  then show "compact_form (compact_value sz m) sz m"
    using assms le by (cases "sz \<le> 3") (auto simp: compact_form_def compact_value_def)
qed

lemma byte_size:
  assumes "is_bits b v"
  shows "v < 256 ^ ((b + 7) div 8)" "v \<noteq> 0 \<Longrightarrow> 256 ^ ((b + 7) div 8 - 1) \<le> v" "v = 0 \<Longrightarrow> (b + 7) div 8 = 0"
proof -
  let ?z = "(b + 7) div 8"
  have "b \<le> 8 * ?z" by simp
  then have "(2 :: nat) ^ b \<le> 2 ^ (8 * ?z)" by (intro power_increasing) auto
  moreover have "v < 2 ^ b" using assms by (simp add: is_bits_def)
  ultimately show "v < 256 ^ ?z" unfolding pow_256 [symmetric] by linarith
  show "256 ^ (?z - 1) \<le> v" if "v \<noteq> 0"
  proof -
    have b: "b \<noteq> 0" using assms that by (cases b) (auto simp: is_bits_def)
    have "8 * (?z - 1) \<le> b - 1" by linarith
    then have "(2 :: nat) ^ (8 * (?z - 1)) \<le> 2 ^ (b - 1)" by (intro power_increasing) auto
    also have "\<dots> \<le> v" using assms b by (simp add: is_bits_def)
    finally show ?thesis unfolding pow_256 .
  qed
  show "?z = 0" if "v = 0" using assms that by (cases "b = 0") (auto simp: is_bits_def)
qed

text \<open>The mantissa before normalisation.\<close>

definition mantissa0 :: "nat \<Rightarrow> nat \<Rightarrow> nat" where
  "mantissa0 v z = (if z \<le> 3 then v * 256 ^ (3 - z) else v div 256 ^ (z - 3))"

lemma mantissa0_bounds:
  assumes "v < 256 ^ z" "v \<noteq> 0 \<Longrightarrow> 256 ^ (z - 1) \<le> v" "v = 0 \<Longrightarrow> z = 0"
  shows "mantissa0 v z < 2 ^ 24" "v \<noteq> 0 \<Longrightarrow> 2 ^ 16 \<le> mantissa0 v z"
proof -
  have p: "(2 :: nat) ^ 24 = 256 ^ 3" "(2 :: nat) ^ 16 = 256 ^ 2" by simp_all
  show "mantissa0 v z < 2 ^ 24"
  proof (cases "z \<le> 3")
    case True
    have "v * 256 ^ (3 - z) < 256 ^ z * 256 ^ (3 - z)" using assms(1) by simp
    also have "\<dots> = 256 ^ 3" using True by (simp flip: power_add)
    finally show ?thesis unfolding p using True by (simp only: mantissa0_def if_True)
  next
    case False
    then have "z = z - 3 + 3" by simp
    then have "(256 :: nat) ^ z = 256 ^ (z - 3) * 256 ^ 3" by (metis power_add)
    then have "v div 256 ^ (z - 3) < 256 ^ 3" using assms(1) by (metis less_mult_imp_div_less mult.commute)
    then show ?thesis unfolding p using False by (simp only: mantissa0_def if_False)
  qed
  assume v: "v \<noteq> 0"
  then have z: "z \<noteq> 0" using assms(1) by (cases z) auto
  show "2 ^ 16 \<le> mantissa0 v z"
  proof (cases "z \<le> 3")
    case True
    have "z - 1 + (3 - z) = 2" using True z by simp
    then have "(256 :: nat) ^ 2 = 256 ^ (z - 1) * 256 ^ (3 - z)" by (simp flip: power_add)
    also have "\<dots> \<le> v * 256 ^ (3 - z)" using assms(2) [OF v] by (rule mult_le_mono1)
    finally show ?thesis unfolding p using True by (simp only: mantissa0_def if_True)
  next
    case False
    have "2 + (z - 3) = z - 1" using False by simp
    then have "(256 :: nat) ^ 2 * 256 ^ (z - 3) \<le> v" using assms(2) [OF v] by (metis power_add)
    then have "256 ^ 2 \<le> v div 256 ^ (z - 3)" by (simp add: less_eq_div_iff_mult_less_eq)
    then show ?thesis unfolding p using False by (simp only: mantissa0_def if_False)
  qed
qed

lemma compact_form_normalise:
  assumes "mantissa0 v z < 2 ^ 24" "v \<noteq> 0 \<Longrightarrow> 2 ^ 16 \<le> mantissa0 v z" "v = 0 \<Longrightarrow> z = 0" "z \<le> 32"
  shows "compact_form v (if 2 ^ 23 \<le> mantissa0 v z then z + 1 else z)
    (if 2 ^ 23 \<le> mantissa0 v z then mantissa0 v z div 256 else mantissa0 v z)"
proof (cases "2 ^ 23 \<le> mantissa0 v z")
  case True
  consider "z \<le> 2" | "z = 3" | "3 < z" by linarith
  then have "if z + 1 \<le> 3 then mantissa0 v z div 256 = v * 256 ^ (3 - (z + 1))
      else mantissa0 v z div 256 = v div 256 ^ (z + 1 - 3)"
  proof cases
    case 1
    then have "3 - z = 3 - (z + 1) + 1" by simp
    then have "(256 :: nat) ^ (3 - z) = 256 ^ (3 - (z + 1)) * 256" by (metis power_add power_one_right)
    then show ?thesis using 1 by (simp add: mantissa0_def)
  next
    case 2
    then show ?thesis by (simp add: mantissa0_def)
  next
    case 3
    then have "z + 1 - 3 = z - 3 + 1" by simp
    then have "(256 :: nat) ^ (z + 1 - 3) = 256 ^ (z - 3) * 256" by (metis power_add power_one_right)
    then show ?thesis using 3 by (simp add: mantissa0_def div_mult2_eq)
  qed
  moreover have "v \<noteq> 0" using True by (cases "v = 0"; cases "z \<le> 3") (simp_all add: mantissa0_def)
  ultimately show ?thesis using True assms(1,4) by (auto simp: compact_form_def less_eq_div_iff_mult_less_eq)
next
  case False
  then show ?thesis using assms(2-4) by (auto simp: compact_form_def mantissa0_def)
qed

lemma unat_shl_low:
  assumes "unat (x :: u64) * 2 ^ n < 2 ^ 24"
  shows "unat (ucast (push_bit n x) :: u32) = unat x * 2 ^ n"
proof -
  have "unat (push_bit n x) = unat x * 2 ^ n"
    by (simp only: unsigned_push_bit_eq) (use assms in \<open>simp add: take_bit_eq_mod push_bit_eq_mult\<close>)
  then show ?thesis using assms by (simp add: unsigned_ucast_eq take_bit_eq_mod)
qed

lemma unat_low_small: "unat (x :: u64) < 2 ^ 24 \<Longrightarrow> unat (ucast x :: u32) = unat x"
  by (simp add: unsigned_ucast_eq take_bit_eq_mod)

lemma mantissa0_word:
  assumes a: "uint_ok a" and z: "z = (bits a + 7) div 8"
  shows "unat (if z \<le> 3 then ucast (push_bit (8 * (3 - z)) (GetLow64 a))
               else ucast (GetLow64 (uint_shr a (8 * (z - 3)))) :: u32) = mantissa0 (lval a) z"
    and "mantissa0 (lval a) z < 2 ^ 24" and "lval a \<noteq> 0 \<Longrightarrow> 2 ^ 16 \<le> mantissa0 (lval a) z"
    and "lval a = 0 \<Longrightarrow> z = 0" and "z \<le> 32"
proof -
  have ib: "is_bits (bits a) (lval a)" and le: "bits a \<le> 256" using bits_is_bits [OF a] by simp_all
  note bs = byte_size [OF ib, folded z]
  show m: "mantissa0 (lval a) z < 2 ^ 24" and "lval a \<noteq> 0 \<Longrightarrow> 2 ^ 16 \<le> mantissa0 (lval a) z"
    by (rule mantissa0_bounds [OF bs]; assumption)+
  show "lval a = 0 \<Longrightarrow> z = 0" by (rule bs(3))
  show "z \<le> 32" using le z by simp
  show "unat (if z \<le> 3 then ucast (push_bit (8 * (3 - z)) (GetLow64 a))
               else ucast (GetLow64 (uint_shr a (8 * (z - 3)))) :: u32) = mantissa0 (lval a) z"
  proof (cases "z \<le> 3")
    case True
    have "(256 :: nat) ^ z \<le> 256 ^ 3" using True by (intro power_increasing) auto
    then have "lval a < 2 ^ 64" using bs(1) by simp
    then have low: "unat (GetLow64 a) = lval a" using GetLow64_lval [OF a] by simp
    then have "unat (GetLow64 a) * 2 ^ (8 * (3 - z)) < 2 ^ 24"
      using m True by (simp only: mantissa0_def if_True pow_256 low)
    from unat_shl_low [OF this] show ?thesis using True by (simp only: mantissa0_def if_True pow_256 low)
  next
    case False
    have "unat (GetLow64 (uint_shr a (8 * (z - 3)))) = mantissa0 (lval a) z mod 2 ^ 64"
      using GetLow64_lval lval_shr [OF a, of "8 * (z - 3)"] False by (simp add: mantissa0_def pow_256)
    then have "unat (GetLow64 (uint_shr a (8 * (z - 3)))) = mantissa0 (lval a) z" using m by simp
    then show ?thesis using m False unat_low_small by simp
  qed
qed

lemma unat_compact_word:
  assumes "unat m < 2 ^ 23" "n < 256"
  shows "unat (m OR push_bit 24 (word_of_nat n) :: u32) = unat m + 2 ^ 24 * n"
    and "compact_size (m OR push_bit 24 (word_of_nat n)) = n"
    and "compact_mantissa (m OR push_bit 24 (word_of_nat n)) = unat m"
    and "\<not> bit (m OR push_bit 24 (word_of_nat n)) 23"
proof -
  let ?c = "m OR push_bit 24 (word_of_nat n) :: u32"
  have mb: "\<not> bit m i" if "23 \<le> i" for i
  proof
    assume "bit m i"
    then have "bit (unat m) i" by (simp add: bit_unsigned_iff bit_imp_le_length)
    moreover have "take_bit 23 (unat m) = unat m" using assms(1) by (simp add: take_bit_nat_eq_self)
    ultimately show False using that by (metis bit_take_bit_iff not_le)
  qed
  then have "m AND push_bit 24 (word_of_nat n) = 0"
    by (intro bit_eqI) (auto simp: bit_and_iff bit_push_bit_iff)
  then have "?c = m + push_bit 24 (word_of_nat n)" by (simp add: disjunctive_add_eq_or)
  moreover have "unat (push_bit 24 (word_of_nat n :: u32)) = 2 ^ 24 * n"
    by (simp only: unsigned_push_bit_eq)
      (use assms(2) in \<open>simp add: take_bit_eq_mod push_bit_eq_mult unat_of_nat\<close>)
  ultimately show c: "unat ?c = unat m + 2 ^ 24 * n" using assms by (simp add: unat_word_ariths)
  show "compact_size ?c = n"
    unfolding compact_size_def unsigned_drop_bit_eq c using assms by (simp add: drop_bit_eq_div take_bit_eq_mod)
  have "?c AND 0x007fffff = take_bit 23 ?c" by (simp add: take_bit_eq_mask mask_eq_exp_minus_1)
  then have "compact_mantissa ?c = take_bit 23 (unat ?c)"
    unfolding compact_mantissa_def by (simp only: unsigned_take_bit_eq)
  also have "\<dots> = unat ?c mod 2 ^ 23" by (rule take_bit_eq_mod)
  also have "unat ?c mod 2 ^ 23 = (unat m + 2 ^ 23 * (2 * n)) mod 2 ^ 23" unfolding c by (simp add: mult.assoc)
  also have "\<dots> = unat m mod 2 ^ 23" by (rule mod_mult_self2)
  finally show "compact_mantissa ?c = unat m" using assms by simp
  show "\<not> bit ?c 23" using mb by (simp add: bit_or_iff bit_push_bit_iff)
qed

lemma GetCompact_form:
  assumes a: "uint_ok a"
  shows "\<exists>c. GetCompact a False = Some c \<and> compact_form (lval a) (compact_size c) (compact_mantissa c)
    \<and> unat c = compact_mantissa c + 2 ^ 24 * compact_size c \<and> \<not> bit c 23"
proof -
  define z where "z = (bits a + 7) div 8"
  define w where "w = (if z \<le> 3 then ucast (push_bit (8 * (3 - z)) (GetLow64 a))
               else ucast (GetLow64 (uint_shr a (8 * (z - 3)))) :: u32)"
  note mw = mantissa0_word [OF a z_def, folded w_def]
  define m where "m = (if w AND 0x00800000 \<noteq> 0 then drop_bit 8 w else w)"
  define n where "n = (if w AND 0x00800000 \<noteq> 0 then z + 1 else z)"
  have "w AND 0x00800000 \<noteq> 0 \<longleftrightarrow> bit (unat w) 23"
    using and_exp_eq_0_iff_not_bit [of w 23] by (simp add: bit_unsigned_iff)
  also have "\<dots> \<longleftrightarrow> 2 ^ 23 \<le> unat w" using bit_top [of "unat w" 23] mw(1,2) by simp
  finally have hi: "w AND 0x00800000 \<noteq> 0 \<longleftrightarrow> 2 ^ 23 \<le> mantissa0 (lval a) z" using mw(1) by simp
  have m: "unat m = (if 2 ^ 23 \<le> mantissa0 (lval a) z then mantissa0 (lval a) z div 256 else mantissa0 (lval a) z)"
    unfolding m_def hi mw(1) [symmetric] by (simp only: if_distrib [of unat] unsigned_drop_bit_eq) (simp add: drop_bit_eq_div take_bit_eq_mod)
  have n: "n = (if 2 ^ 23 \<le> mantissa0 (lval a) z then z + 1 else z)" unfolding n_def hi ..
  have form: "compact_form (lval a) n (unat m)"
    unfolding m n by (rule compact_form_normalise [OF mw(2-5)])
  then have le: "unat m < 2 ^ 23" "n < 256" by (simp_all add: compact_form_def)
  have "m AND NOT 0x007fffff = 0"
  proof -
    have "m = take_bit 23 m"
      using le(1) by (metis take_bit_nat_eq_self unsigned_take_bit_eq word_unat_eq_iff)
    then have "m = m AND 0x007fffff" by (simp add: take_bit_eq_mask mask_eq_exp_minus_1)
    then show ?thesis by (metis and.assoc and.comm_neutral and.right_idem bit.conj_cancel_right and_zero_eq)
  qed
  then have "GetCompact a False = Some (m OR push_bit 24 (word_of_nat n))"
    using le(2) unfolding GetCompact_def Let_def z_def [symmetric] w_def [symmetric] m_def [symmetric] n_def [symmetric]
    by simp
  then show ?thesis using unat_compact_word [OF le] form by (intro exI conjI) auto
qed

lemma compact_word_unique:
  "unat c = compact_mantissa c + 2 ^ 24 * compact_size c \<Longrightarrow> unat c' = compact_mantissa c' + 2 ^ 24 * compact_size c' \<Longrightarrow>
   compact_size c = compact_size c' \<Longrightarrow> compact_mantissa c = compact_mantissa c' \<Longrightarrow> c = c'"
  by (simp add: word_unat_eq_iff)

lemma SetCompact_GetCompact:
  assumes a: "uint_ok a"
  shows "\<exists>c. GetCompact a False = Some c \<and> \<not> cr_fNegative (SetCompact c) \<and> \<not> cr_fOverflow (SetCompact c)
    \<and> lval (cr_value (SetCompact c)) \<le> lval a
    \<and> lval a < lval (cr_value (SetCompact c)) + 256 ^ (compact_size c - 3)
    \<and> GetCompact (cr_value (SetCompact c)) False = Some c"
proof -
  obtain c where c: "GetCompact a False = Some c" "compact_form (lval a) (compact_size c) (compact_mantissa c)"
    "unat c = compact_mantissa c + 2 ^ 24 * compact_size c" "\<not> bit c 23"
    using GetCompact_form [OF a] by blast
  let ?v = "compact_value (compact_size c) (compact_mantissa c)"
  have v: "?v \<le> lval a" "lval a < ?v + 256 ^ (compact_size c - 3)"
    "compact_form ?v (compact_size c) (compact_mantissa c)"
    using compact_form_value [OF c(2)] by auto
  have lt: "?v < 2 ^ 256" using v(1) lval_256 [OF a] by linarith
  have s: "lval (cr_value (SetCompact c)) = ?v" "uint_ok (cr_value (SetCompact c))"
    using SetCompact_value [of c] lt by simp_all
  obtain c' where c': "GetCompact (cr_value (SetCompact c)) False = Some c'"
    "compact_form ?v (compact_size c') (compact_mantissa c')" "unat c' = compact_mantissa c' + 2 ^ 24 * compact_size c'"
    using GetCompact_form [OF s(2)] s(1) by auto
  have "c' = c"
    using compact_form_unique [OF c'(2) v(3)] c'(3) c(3) compact_word_unique [of c' c] by simp
  moreover have "\<not> cr_fOverflow (SetCompact c)" using lt by (simp only: SetCompact_flags(1) not_le)
  ultimately show ?thesis using c(1,4) c'(1) v(1,2) s(1) SetCompact_flags(2) by auto
qed

section \<open>Properties\<close>

text \<open>The compact form of a difficulty target. Every 256-bit integer has one, no assertion of \<open>GetCompact\<close>
  fails, the form reads back without the negative or the overflow flag, as the integer rounded down to a 23-bit
  mantissa, and encoding what was read gives the same form again.\<close>

theorem compact_roundtrip:
  assumes "uint_ok a"
  shows "\<exists>c. GetCompact a False = Some c \<and> \<not> cr_fNegative (SetCompact c) \<and> \<not> cr_fOverflow (SetCompact c)
    \<and> lval (cr_value (SetCompact c)) \<le> lval a
    \<and> lval a < lval (cr_value (SetCompact c)) + 256 ^ (compact_size c - 3)
    \<and> GetCompact (cr_value (SetCompact c)) False = Some c"
  using assms by (rule SetCompact_GetCompact)

theorem compact_roundtrip_witness:
  "\<exists>c. GetCompact (uint_of_u64 0x1234567890) False = Some c \<and> GetCompact (cr_value (SetCompact c)) False = Some c"
  using compact_roundtrip [OF lval_of_u64(2), of "0x1234567890"] by blast

text \<open>The overflow flag of \<open>SetCompact\<close> is set exactly when the number a compact form stands for does not fit
  256 bits; otherwise the value is that number.\<close>

theorem SetCompact_overflow_exact:
  "cr_fOverflow (SetCompact c) \<longleftrightarrow> 2 ^ 256 \<le> compact_value (compact_size c) (compact_mantissa c)"
  by (rule SetCompact_flags)

end
