(* ===== verification/Chain.thy ===== *)
theory Chain
  imports CompactTarget
begin

unbundle bit_operations_syntax

text \<open>
  The block index (\<open>src/src/chain.h\<close>, \<open>chain.cpp\<close>): the tree of block headers, in which every entry points to its
  predecessor and to one ancestor further back, and the active chain as a vector of pointers. The entries live in
  a store from pointers to records, since the code compares pointers; a dereference is an application of the
  store. Heights are natural numbers. The loops that follow predecessors take the number of steps they may make;
  running out of it, like a failing assertion, is \<^term>\<open>None\<close>, and the lemmas show that it does not happen.
\<close>

type_synonym ptr = nat

record CBlockIndex =
  bi_phashBlock :: bytes
  bi_pprev :: "ptr option"
  bi_pskip :: "ptr option"
  bi_nHeight :: nat
  bi_nChainWork :: limbs
  bi_nVersion :: u32
  bi_nTime :: u32
  bi_nBits :: u32
  bi_nTimeMax :: u32

type_synonym store = "ptr \<Rightarrow> CBlockIndex"

section \<open>Ancestors\<close>

definition InvertLowestOne :: "nat \<Rightarrow> nat" where
  "InvertLowestOne n = n AND (n - 1)"

definition GetSkipHeight :: "nat \<Rightarrow> nat" where
  "GetSkipHeight height =
     (if height < 2 then 0
      else if odd height then InvertLowestOne (InvertLowestOne (height - 1)) + 1
      else InvertLowestOne height)"

lemma InvertLowestOne_le: "InvertLowestOne n \<le> n - 1"
proof -
  have "int n AND int (n - 1) \<le> int (n - 1)" by (rule AND_upper2) simp
  then show ?thesis unfolding InvertLowestOne_def by (simp add: of_nat_and_eq [symmetric] del: of_nat_and_eq)
qed

lemma GetSkipHeight_less: "0 < h \<Longrightarrow> GetSkipHeight h < h"
  using InvertLowestOne_le [of h] InvertLowestOne_le [of "h - 1"] InvertLowestOne_le [of "InvertLowestOne (h - 1)"]
  by (auto simp: GetSkipHeight_def)

text \<open>Whether the walk takes the skip pointer.\<close>

definition takes_skip :: "nat \<Rightarrow> nat \<Rightarrow> bool" where
  "takes_skip heightWalk height =
     (let heightSkip = GetSkipHeight heightWalk; heightSkipPrev = GetSkipHeight (heightWalk - 1)
      in heightSkip = height \<or> (heightSkip > height \<and> \<not> (heightSkipPrev + 2 < heightSkip \<and> heightSkipPrev \<ge> height)))"

function ancestor_walk :: "store \<Rightarrow> ptr \<Rightarrow> nat \<Rightarrow> nat \<Rightarrow> ptr option" where
  "ancestor_walk s pindexWalk heightWalk height =
     (if heightWalk > height then
        (if bi_pskip (s pindexWalk) \<noteq> None \<and> takes_skip heightWalk height
         then ancestor_walk s (the (bi_pskip (s pindexWalk))) (GetSkipHeight heightWalk) height
         else case bi_pprev (s pindexWalk) of
                None \<Rightarrow> None
              | Some pprev \<Rightarrow> ancestor_walk s pprev (heightWalk - 1) height)
      else Some pindexWalk)"
  by pat_completeness auto
termination
  by (relation "measure (\<lambda>(s, p, heightWalk, height). heightWalk)") (auto intro: GetSkipHeight_less)

declare ancestor_walk.simps [simp del]

text \<open>The outer \<^term>\<open>None\<close> is a failed assertion, the inner one the null pointer.\<close>

definition GetAncestor :: "store \<Rightarrow> ptr \<Rightarrow> int \<Rightarrow> ptr option option" where
  "GetAncestor s p height =
     (if height > int (bi_nHeight (s p)) \<or> height < 0 then Some None
      else map_option Some (ancestor_walk s p (bi_nHeight (s p)) (nat height)))"

definition BuildSkip :: "store \<Rightarrow> ptr \<Rightarrow> store option" where
  "BuildSkip s p =
     (case bi_pprev (s p) of
        None \<Rightarrow> Some s
      | Some pprev \<Rightarrow>
          map_option (\<lambda>a. s(p := (s p)\<lparr>bi_pskip := a\<rparr>)) (GetAncestor s pprev (int (GetSkipHeight (bi_nHeight (s p))))))"

section \<open>Time and work\<close>

definition GetBlockTime :: "store \<Rightarrow> ptr \<Rightarrow> int" where
  "GetBlockTime s p = uint (bi_nTime (s p))"

definition nMedianTimeSpan :: nat where "nMedianTimeSpan = 11"

primrec past_times :: "nat \<Rightarrow> store \<Rightarrow> ptr option \<Rightarrow> int list" where
  "past_times 0 s pindex = []"
| "past_times (Suc n) s pindex =
     (case pindex of None \<Rightarrow> [] | Some p \<Rightarrow> GetBlockTime s p # past_times n s (bi_pprev (s p)))"

definition GetMedianTimePast :: "store \<Rightarrow> ptr \<Rightarrow> int" where
  "GetMedianTimePast s p = (let ts = sort (past_times nMedianTimeSpan s (Some p)) in ts ! (length ts div 2))"

text \<open>The division cannot throw, since the divisor \<open>bnTarget + 1\<close> is not zero; \<^term>\<open>None\<close> would be the exception.\<close>

definition GetBlockProof :: "u32 \<Rightarrow> limbs option" where
  "GetBlockProof nBits =
     (let r = SetCompact nBits; bnTarget = cr_value r in
      if cr_fNegative r \<or> cr_fOverflow r \<or> EqualTo bnTarget 0 then Some uint_zero
      else map_option (\<lambda>q. uint_add q (uint_of_u64 1)) (uint_div (uint_not bnTarget) (uint_add bnTarget (uint_of_u64 1))))"

definition GetBlockProofEquivalentTime :: "limbs \<Rightarrow> limbs \<Rightarrow> u32 \<Rightarrow> int \<Rightarrow> int option" where
  "GetBlockProofEquivalentTime to_nChainWork from_nChainWork tip_nBits nPowTargetSpacing =
     (let gt = CompareTo to_nChainWork from_nChainWork > 0;
          r = (if gt then uint_sub to_nChainWork from_nChainWork else uint_sub from_nChainWork to_nChainWork);
          sign = (if gt then 1 else - 1 :: int)
      in case GetBlockProof tip_nBits of
           None \<Rightarrow> None
         | Some proof \<Rightarrow>
             map_option (\<lambda>r. if bits r > 63 then sign * (2 ^ 63 - 1) else sign * uint (GetLow64 r))
               (uint_div (uint_mul r (uint_of_u64 (word_of_int nPowTargetSpacing))) proof))"

section \<open>The active chain\<close>

type_synonym chain = "ptr option list"

definition chain_at :: "chain \<Rightarrow> int \<Rightarrow> ptr option" where
  "chain_at vChain nHeight = (if nHeight < 0 \<or> nHeight \<ge> int (length vChain) then None else vChain ! nat nHeight)"

definition Genesis :: "chain \<Rightarrow> ptr option" where
  "Genesis vChain = (if length vChain > 0 then vChain ! 0 else None)"

definition Tip :: "chain \<Rightarrow> ptr option" where
  "Tip vChain = (if length vChain > 0 then vChain ! (length vChain - 1) else None)"

definition Contains :: "store \<Rightarrow> chain \<Rightarrow> ptr \<Rightarrow> bool" where
  "Contains s vChain pindex \<longleftrightarrow> chain_at vChain (int (bi_nHeight (s pindex))) = Some pindex"

definition Next :: "store \<Rightarrow> chain \<Rightarrow> ptr \<Rightarrow> ptr option" where
  "Next s vChain pindex =
     (if Contains s vChain pindex then chain_at vChain (int (bi_nHeight (s pindex)) + 1) else None)"

definition Height :: "chain \<Rightarrow> int" where
  "Height vChain = int (length vChain) - 1"

definition resize :: "nat \<Rightarrow> chain \<Rightarrow> chain" where
  "resize n v = take n v @ replicate (n - length v) None"

primrec set_tip_loop :: "nat \<Rightarrow> store \<Rightarrow> ptr option \<Rightarrow> chain \<Rightarrow> chain option" where
  "set_tip_loop 0 s pindex vChain = None"
| "set_tip_loop (Suc fuel) s pindex vChain =
     (case pindex of
        None \<Rightarrow> Some vChain
      | Some p \<Rightarrow>
          if vChain ! bi_nHeight (s p) \<noteq> Some p
          then set_tip_loop fuel s (bi_pprev (s p)) (vChain[bi_nHeight (s p) := Some p])
          else Some vChain)"

definition SetTip :: "store \<Rightarrow> ptr option \<Rightarrow> chain \<Rightarrow> chain option" where
  "SetTip s pindex vChain =
     (case pindex of
        None \<Rightarrow> Some []
      | Some p \<Rightarrow> set_tip_loop (bi_nHeight (s p) + 2) s pindex (resize (bi_nHeight (s p) + 1) vChain))"

primrec find_fork_loop :: "nat \<Rightarrow> store \<Rightarrow> chain \<Rightarrow> ptr option \<Rightarrow> ptr option option" where
  "find_fork_loop 0 s vChain pindex = None"
| "find_fork_loop (Suc fuel) s vChain pindex =
     (case pindex of
        None \<Rightarrow> Some None
      | Some p \<Rightarrow> if \<not> Contains s vChain p then find_fork_loop fuel s vChain (bi_pprev (s p)) else Some (Some p))"

definition FindFork :: "store \<Rightarrow> chain \<Rightarrow> ptr option \<Rightarrow> ptr option option" where
  "FindFork s vChain pindex =
     (case pindex of
        None \<Rightarrow> Some None
      | Some p \<Rightarrow>
          if int (bi_nHeight (s p)) > Height vChain
          then Option.bind (GetAncestor s p (Height vChain)) (find_fork_loop (bi_nHeight (s p) + 2) s vChain)
          else find_fork_loop (bi_nHeight (s p) + 2) s vChain (Some p))"

primrec locator_loop :: "nat \<Rightarrow> store \<Rightarrow> chain \<Rightarrow> int \<Rightarrow> ptr option \<Rightarrow> bytes list \<Rightarrow> bytes list option" where
  "locator_loop 0 s vChain nStep pindex vHave = None"
| "locator_loop (Suc fuel) s vChain nStep pindex vHave =
     (case pindex of
        None \<Rightarrow> Some vHave
      | Some p \<Rightarrow>
          let vHave = vHave @ [bi_phashBlock (s p)] in
          if bi_nHeight (s p) = 0 then Some vHave
          else
            let nHeight = max (int (bi_nHeight (s p)) - nStep) 0;
                nStep' = (if length vHave > 10 then nStep * 2 else nStep)
            in if Contains s vChain p then locator_loop fuel s vChain nStep' (chain_at vChain nHeight) vHave
               else Option.bind (GetAncestor s p nHeight) (\<lambda>a. locator_loop fuel s vChain nStep' a vHave))"

definition GetLocator :: "store \<Rightarrow> chain \<Rightarrow> ptr option \<Rightarrow> bytes list option" where
  "GetLocator s vChain pindex =
     (let pindex = (if pindex = None then Tip vChain else pindex)
      in case pindex of
           None \<Rightarrow> Some []
         | Some p \<Rightarrow> locator_loop (bi_nHeight (s p) + 2) s vChain 1 (Some p) [])"

text \<open>\<open>FindEarliestAtLeast\<close>: the binary search of \<open>std::lower_bound\<close> for the first block that does not compare less.\<close>

function lower_bound :: "('a \<Rightarrow> bool) \<Rightarrow> 'a list \<Rightarrow> nat \<Rightarrow> nat \<Rightarrow> nat" where
  "lower_bound lt xs first count =
     (if count > 0 then
        let step = count div 2; it = first + step in
        if lt (xs ! it) then lower_bound lt xs (it + 1) (count - (step + 1))
        else lower_bound lt xs first step
      else first)"
  by pat_completeness auto
termination
  by (relation "measure (\<lambda>(lt, xs, first, count). count)") auto

declare lower_bound.simps [simp del]

definition FindEarliestAtLeast :: "store \<Rightarrow> chain \<Rightarrow> int \<Rightarrow> ptr option" where
  "FindEarliestAtLeast s vChain nTime =
     (let lower = lower_bound (\<lambda>p. uint (bi_nTimeMax (s (the p))) < nTime) vChain 0 (length vChain)
      in if lower = length vChain then None else vChain ! lower)"

primrec common_loop :: "nat \<Rightarrow> store \<Rightarrow> ptr option \<Rightarrow> ptr option \<Rightarrow> ptr option option" where
  "common_loop 0 s pa pb = None"
| "common_loop (Suc fuel) s pa pb =
     (if pa \<noteq> pb \<and> pa \<noteq> None \<and> pb \<noteq> None
      then common_loop fuel s (bi_pprev (s (the pa))) (bi_pprev (s (the pb)))
      else if pa = pb then Some pa else None)"

definition LastCommonAncestor :: "store \<Rightarrow> ptr \<Rightarrow> ptr \<Rightarrow> ptr option option" where
  "LastCommonAncestor s pa pb =
     (let ha = bi_nHeight (s pa); hb = bi_nHeight (s pb) in
      Option.bind (if ha > hb then GetAncestor s pa (int hb) else Some (Some pa)) (\<lambda>a.
      Option.bind (if \<not> ha > hb \<and> hb > ha then GetAncestor s pb (int ha) else Some (Some pb)) (\<lambda>b.
        common_loop (min ha hb + 2) s a b)))"

section \<open>A well-formed index\<close>

primrec prev_n :: "nat \<Rightarrow> store \<Rightarrow> ptr \<Rightarrow> ptr option" where
  "prev_n 0 s p = Some p"
| "prev_n (Suc n) s p = (case bi_pprev (s p) of None \<Rightarrow> None | Some q \<Rightarrow> prev_n n s q)"

definition index_ok :: "store \<Rightarrow> ptr set \<Rightarrow> bool" where
  "index_ok s V \<longleftrightarrow> (\<forall>p\<in>V.
     (case bi_pprev (s p) of None \<Rightarrow> bi_nHeight (s p) = 0
        | Some q \<Rightarrow> q \<in> V \<and> bi_nHeight (s p) = Suc (bi_nHeight (s q)))
     \<and> (\<forall>q. bi_pskip (s p) = Some q \<longrightarrow>
          prev_n (bi_nHeight (s p) - GetSkipHeight (bi_nHeight (s p))) s p = Some q))"

lemma prev_n_add: "prev_n (m + n) s p = Option.bind (prev_n m s p) (prev_n n s)"
  by (induction m arbitrary: p) (simp_all split: option.split)

lemma index_pprev:
  assumes "index_ok s V" "p \<in> V"
  shows "bi_pprev (s p) = None \<Longrightarrow> bi_nHeight (s p) = 0"
    and "bi_pprev (s p) = Some q \<Longrightarrow> q \<in> V \<and> bi_nHeight (s p) = Suc (bi_nHeight (s q))"
    and "bi_nHeight (s p) \<noteq> 0 \<Longrightarrow> \<exists>q\<in>V. bi_pprev (s p) = Some q \<and> bi_nHeight (s p) = Suc (bi_nHeight (s q))"
    and "bi_nHeight (s p) = 0 \<Longrightarrow> bi_pprev (s p) = None"
  using assms by (fastforce simp: index_ok_def split: option.splits)+

lemma prev_n_Some:
  assumes ok: "index_ok s V"
  shows "p \<in> V \<Longrightarrow> n \<le> bi_nHeight (s p) \<Longrightarrow>
    \<exists>q\<in>V. prev_n n s p = Some q \<and> bi_nHeight (s q) = bi_nHeight (s p) - n"
proof (induction n arbitrary: p)
  case (Suc n)
  then obtain r where r: "r \<in> V" "bi_pprev (s p) = Some r" "bi_nHeight (s p) = Suc (bi_nHeight (s r))"
    using index_pprev(3) [OF ok] by force
  then show ?case using Suc.IH [of r] Suc.prems by auto
qed auto

lemma ancestor_walk_prev_n:
  assumes ok: "index_ok s V"
  shows "p \<in> V \<Longrightarrow> h = bi_nHeight (s p) \<Longrightarrow> height \<le> h \<Longrightarrow> ancestor_walk s p h height = prev_n (h - height) s p"
proof (induction h arbitrary: p rule: less_induct)
  case (less h)
  show ?case
  proof (cases "height < h")
    case False
    then show ?thesis using less.prems by (subst ancestor_walk.simps) simp
  next
    case True
    show ?thesis
    proof (cases "bi_pskip (s p) \<noteq> None \<and> takes_skip h height")
      case skip: True
      then obtain q where q: "bi_pskip (s p) = Some q" by blast
      let ?k = "GetSkipHeight h"
      have k: "?k < h" "height \<le> ?k"
        using GetSkipHeight_less [of h] True skip by (auto simp: takes_skip_def Let_def)
      have pq: "prev_n (h - ?k) s p = Some q"
        using ok less.prems(1,2) q by (auto simp: index_ok_def)
      then have "q \<in> V" "bi_nHeight (s q) = ?k"
        using prev_n_Some [OF ok less.prems(1), of "h - ?k"] less.prems(2) k by auto
      then have "ancestor_walk s q ?k height = prev_n (?k - height) s q"
        using less.IH [OF k(1) _ _ k(2), of q] by simp
      moreover have "prev_n (h - height) s p = prev_n (?k - height) s q"
        using prev_n_add [of "h - ?k" "?k - height" s p] pq k by simp
      ultimately show ?thesis using skip True q by (simp add: ancestor_walk.simps [of s p h])
    next
      case noskip: False
      obtain r where r: "r \<in> V" "bi_pprev (s p) = Some r" "h = Suc (bi_nHeight (s r))"
        using index_pprev(3) [OF ok less.prems(1)] less.prems(2) True by auto
      then have "ancestor_walk s r (h - 1) height = prev_n (h - 1 - height) s r"
        using less.IH [of "h - 1" r] True by simp
      moreover have "h - height = Suc (h - 1 - height)" using True by simp
      ultimately show ?thesis
        using noskip True r(2) by (subst ancestor_walk.simps) auto
    qed
  qed
qed

lemma GetAncestor_prev_n:
  assumes "index_ok s V" "p \<in> V"
  shows "GetAncestor s p height =
    Some (if 0 \<le> height \<and> height \<le> int (bi_nHeight (s p)) then prev_n (bi_nHeight (s p) - nat height) s p else None)"
proof (cases "0 \<le> height \<and> height \<le> int (bi_nHeight (s p))")
  case True
  then have "ancestor_walk s p (bi_nHeight (s p)) (nat height) = prev_n (bi_nHeight (s p) - nat height) s p"
    using assms by (intro ancestor_walk_prev_n) auto
  moreover obtain q where "prev_n (bi_nHeight (s p) - nat height) s p = Some q"
    using prev_n_Some [OF assms, of "bi_nHeight (s p) - nat height"] by auto
  ultimately show ?thesis using True by (simp add: GetAncestor_def)
qed (auto simp: GetAncestor_def)

section \<open>Adding a block\<close>

lemma prev_n_in: "index_ok s V \<Longrightarrow> p \<in> V \<Longrightarrow> prev_n n s p = Some q \<Longrightarrow> q \<in> V \<and> n + bi_nHeight (s q) = bi_nHeight (s p)"
proof (induction n arbitrary: p)
  case (Suc n)
  then obtain r where r: "bi_pprev (s p) = Some r" "prev_n n s r = Some q" by (auto split: option.splits)
  then have "r \<in> V" "bi_nHeight (s p) = Suc (bi_nHeight (s r))" using index_pprev(2) [OF Suc.prems(1,2)] by auto
  then show ?case using Suc.IH [OF Suc.prems(1) _ r(2)] by simp
qed simp

lemma prev_n_cong:
  assumes "index_ok s V" "\<And>q. q \<in> V \<Longrightarrow> s' q = s q"
  shows "r \<in> V \<Longrightarrow> prev_n n s' r = prev_n n s r"
proof (induction n arbitrary: r)
  case (Suc n)
  then show ?case using assms(2) index_pprev(2) [OF assms(1) Suc.prems] by (auto split: option.split)
qed simp

lemma BuildSkip_index_ok:
  assumes ok: "index_ok s V" and p: "p \<notin> V" "bi_pprev (s p) = Some q" "q \<in> V"
    "bi_nHeight (s p) = Suc (bi_nHeight (s q))"
  shows "\<exists>s'. BuildSkip s p = Some s' \<and> index_ok s' (insert p V)"
proof -
  let ?h = "bi_nHeight (s p)" and ?k = "GetSkipHeight (bi_nHeight (s p))"
  have k: "?k < ?h" using p(4) by (intro GetSkipHeight_less) simp
  have "GetAncestor s q (int ?k) = Some (prev_n (?h - 1 - ?k) s q)"
    using GetAncestor_prev_n [OF ok p(3), of "int ?k"] k p(4) by simp
  moreover define s' where "s' = s(p := (s p)\<lparr>bi_pskip := prev_n (?h - 1 - ?k) s q\<rparr>)"
  ultimately have b: "BuildSkip s p = Some s'" using p(2) by (simp add: BuildSkip_def)
  have same: "s' r = s r" if "r \<noteq> p" for r using that by (simp add: s'_def)
  have at_p: "bi_pprev (s' p) = Some q" "bi_nHeight (s' p) = ?h" "bi_pskip (s' p) = prev_n (?h - 1 - ?k) s q"
    using p(2) by (simp_all add: s'_def)
  have pn: "prev_n n s' r = prev_n n s r" if "r \<in> V" for n r
    by (rule prev_n_cong [OF ok _ that]) (use same p(1) in metis)
  have "?h - ?k = Suc (?h - 1 - ?k)" using k by simp
  then have new: "prev_n (?h - ?k) s' p = prev_n (?h - 1 - ?k) s q" using at_p(1) pn [OF p(3)] by simp
  have "index_ok s' (insert p V)"
    unfolding index_ok_def
  proof (intro ballI)
    fix r assume "r \<in> insert p V"
    show "(case bi_pprev (s' r) of None \<Rightarrow> bi_nHeight (s' r) = 0
        | Some q \<Rightarrow> q \<in> insert p V \<and> bi_nHeight (s' r) = Suc (bi_nHeight (s' q)))
     \<and> (\<forall>q. bi_pskip (s' r) = Some q \<longrightarrow>
          prev_n (bi_nHeight (s' r) - GetSkipHeight (bi_nHeight (s' r))) s' r = Some q)"
    proof (cases "r = p")
      case True
      have "s' q = s q" using p(1,3) same by metis
      then show ?thesis unfolding True at_p new using p by simp
    next
      case False
      then have r: "r \<in> V" using \<open>r \<in> insert p V\<close> by simp
      have "bi_pprev (s r) = Some x \<Longrightarrow> s' x = s x" for x using index_pprev(2) [OF ok r] p(1) same by metis
      then show ?thesis using ok r same [OF False] pn [OF r] by (auto simp: index_ok_def split: option.splits)
    qed
  qed
  then show ?thesis using b by blast
qed

section \<open>Chains\<close>

definition ancestors :: "store \<Rightarrow> ptr \<Rightarrow> chain" where
  "ancestors s p = map (\<lambda>h. prev_n (bi_nHeight (s p) - h) s p) [0..<bi_nHeight (s p) + 1]"

definition chain_ok :: "store \<Rightarrow> ptr set \<Rightarrow> chain \<Rightarrow> bool" where
  "chain_ok s V v \<longleftrightarrow> v = [] \<or> (\<exists>p\<in>V. v = ancestors s p)"

lemma length_ancestors [simp]: "length (ancestors s p) = bi_nHeight (s p) + 1"
  by (simp add: ancestors_def)

lemma nth_ancestors: "k \<le> bi_nHeight (s p) \<Longrightarrow> ancestors s p ! k = prev_n (bi_nHeight (s p) - k) s p"
  by (simp add: ancestors_def nth_append del: upt_Suc)

lemma ancestors_snoc:
  assumes "index_ok s V" "p \<in> V" "bi_pprev (s p) = Some q"
  shows "ancestors s p = ancestors s q @ [Some p]"
proof -
  have h: "bi_nHeight (s p) = Suc (bi_nHeight (s q))" using index_pprev(2) [OF assms(1,2)] assms(3) by simp
  show ?thesis
  proof (rule nth_equalityI)
    fix k assume "k < length (ancestors s p)"
    then have "k \<le> Suc (bi_nHeight (s q))" using h by simp
    then show "ancestors s p ! k = (ancestors s q @ [Some p]) ! k"
      using h assms(3) by (cases "k = Suc (bi_nHeight (s q))") (auto simp: nth_ancestors nth_append Suc_diff_le)
  qed (simp add: h)
qed

lemma ancestors_genesis: "bi_nHeight (s p) = 0 \<Longrightarrow> ancestors s p = [Some p]"
  by (simp add: ancestors_def)

lemma ancestors_take:
  assumes ok: "index_ok s V" "p \<in> V" and k: "k \<le> bi_nHeight (s p)" "ancestors s p ! k = Some q"
  shows "take (Suc k) (ancestors s p) = ancestors s q" "bi_nHeight (s q) = k" "q \<in> V"
proof -
  have pq: "prev_n (bi_nHeight (s p) - k) s p = Some q" using k by (simp add: nth_ancestors)
  then show q: "bi_nHeight (s q) = k" "q \<in> V" using prev_n_in [OF ok pq] k(1) by auto
  show "take (Suc k) (ancestors s p) = ancestors s q"
  proof (rule nth_equalityI)
    fix j assume "j < length (take (Suc k) (ancestors s p))"
    then have j: "j \<le> k" using k(1) by simp
    have "prev_n (bi_nHeight (s p) - j) s p = prev_n (k - j) s q"
      using prev_n_add [of "bi_nHeight (s p) - k" "k - j" s p] pq j k(1) by simp
    then show "take (Suc k) (ancestors s p) ! j = ancestors s q ! j"
      using j k(1) q by (simp add: nth_ancestors)
  qed (use k(1) q in simp)
qed

lemma set_tip_loop_ancestors:
  assumes ok: "index_ok s V"
  shows "c \<in> V \<Longrightarrow> k = bi_nHeight (s c) \<Longrightarrow> k < length v \<Longrightarrow> k + 2 \<le> fuel \<Longrightarrow>
    (\<And>j q. j \<le> k \<Longrightarrow> v ! j = Some q \<Longrightarrow> take (Suc j) v = ancestors s q) \<Longrightarrow>
    \<exists>v'. set_tip_loop fuel s (Some c) v = Some v' \<and> take (Suc k) v' = ancestors s c
      \<and> drop (Suc k) v' = drop (Suc k) v \<and> length v' = length v"
proof (induction k arbitrary: c v fuel)
  case 0
  obtain f where f: "fuel = Suc (Suc f)" using 0(4) by (cases fuel; cases "fuel - 1") auto
  have h: "bi_nHeight (s c) = 0" using 0(2) by simp
  have "bi_pprev (s c) = None" using index_pprev(4) [OF ok 0(1) h] .
  moreover obtain x vs where v: "v = x # vs" using 0(3) by (cases v) auto
  ultimately show ?case using h f by (cases "x = Some c") (simp_all add: ancestors_genesis)
next
  case (Suc k)
  obtain f where f: "fuel = Suc f" "k + 2 \<le> f" using Suc.prems(4) by (cases fuel) auto
  obtain c' where c': "c' \<in> V" "bi_pprev (s c) = Some c'" "k = bi_nHeight (s c')"
    using index_pprev(3) [OF ok Suc.prems(1)] Suc.prems(2) by auto
  show ?case
  proof (cases "v ! Suc k = Some c")
    case True
    then show ?thesis using Suc.prems(2,5) f(1) by auto
  next
    case False
    let ?v = "v[Suc k := Some c]"
    have pre: "take (Suc j) ?v = ancestors s q" if "j \<le> k" "?v ! j = Some q" for j q
      using Suc.prems(5) [of j q] that by simp
    obtain v' where v': "set_tip_loop f s (Some c') ?v = Some v'" "take (Suc k) v' = ancestors s c'"
      "drop (Suc k) v' = drop (Suc k) ?v" "length v' = length ?v"
      using Suc.IH [OF c'(1,3) _ f(2) pre] Suc.prems(3) by auto
    have d: "drop (Suc k) v' = Some c # drop (Suc (Suc k)) v"
      using v'(3) Suc.prems(3) by (simp add: Cons_nth_drop drop_update_swap)
    have "v' ! Suc k = Some c" using d v'(4) Suc.prems(3) hd_drop_conv_nth [of "Suc k" v'] by simp
    then have "take (Suc (Suc k)) v' = take (Suc k) v' @ [Some c]"
      using take_Suc_conv_app_nth [of "Suc k" v'] v'(4) Suc.prems(3) by simp
    moreover have "drop (Suc (Suc k)) v' = drop (Suc (Suc k)) v" using arg_cong [OF d, of tl] by (simp add: drop_Suc tl_drop)
    ultimately show ?thesis
      using v'(1,2,4) f(1) False Suc.prems(2) c'(2) ancestors_snoc [OF ok Suc.prems(1) c'(2)]
      by (intro exI [of _ v']) auto
  qed
qed

lemma nth_resize: "j < n \<Longrightarrow> resize n v ! j = (if j < length v then v ! j else None)"
  by (simp add: resize_def nth_append)

lemma SetTip_ancestors:
  assumes ok: "index_ok s V" and v: "chain_ok s V v" and p: "p \<in> V"
  shows "SetTip s (Some p) v = Some (ancestors s p)"
proof -
  let ?h = "bi_nHeight (s p)" and ?v = "resize (bi_nHeight (s p) + 1) v"
  have len: "length ?v = ?h + 1" by (simp add: resize_def)
  have pre: "take (Suc j) ?v = ancestors s q" if "j \<le> ?h" "?v ! j = Some q" for j q
  proof -
    have j: "j < length v" "v ! j = Some q"
      using that nth_resize [of j "?h + 1" v] by (auto split: if_splits)
    then obtain t where t: "t \<in> V" "v = ancestors s t" using v by (auto simp: chain_ok_def)
    have "take (Suc j) ?v = take (Suc j) v" using that(1) j(1) by (simp add: resize_def min_def)
    then show ?thesis using ancestors_take(1) [OF ok t(1), of j q] j t(2) by simp
  qed
  obtain v' where "set_tip_loop (?h + 2) s (Some p) ?v = Some v'" "take (Suc ?h) v' = ancestors s p" "length v' = ?h + 1"
    using set_tip_loop_ancestors [OF ok p refl _ order_refl pre] len by auto
  then show ?thesis by (simp add: SetTip_def)
qed

section \<open>Forks\<close>

text \<open>\<open>r\<close> is the highest of the ancestors of \<open>p\<close>, itself included, in the chain; none if there is none.\<close>

definition is_fork :: "store \<Rightarrow> chain \<Rightarrow> ptr \<Rightarrow> ptr option \<Rightarrow> bool" where
  "is_fork s v p r \<longleftrightarrow>
     (case r of
        None \<Rightarrow> \<forall>n q. prev_n n s p = Some q \<longrightarrow> \<not> Contains s v q
      | Some f \<Rightarrow> Contains s v f \<and> (\<exists>n. prev_n n s p = Some f \<and> (\<forall>m<n. \<forall>q. prev_n m s p = Some q \<longrightarrow> \<not> Contains s v q)))"

lemma is_fork_step:
  assumes "\<not> Contains s v p" "case bi_pprev (s p) of None \<Rightarrow> r = None | Some q \<Rightarrow> is_fork s v q r"
  shows "is_fork s v p r"
proof (cases r)
  case None
  have "\<not> Contains s v q" if "prev_n n s p = Some q" for n q
    using that assms None by (cases n) (auto simp: is_fork_def split: option.splits)
  then show ?thesis using None by (simp add: is_fork_def)
next
  case (Some f)
  then obtain q where q: "bi_pprev (s p) = Some q" "is_fork s v q r" using assms(2) by (auto split: option.splits)
  then obtain n where n: "prev_n n s q = Some f" "Contains s v f"
    "\<forall>m<n. \<forall>x. prev_n m s q = Some x \<longrightarrow> \<not> Contains s v x" using Some by (auto simp: is_fork_def)
  have "\<not> Contains s v x" if "m < Suc n" "prev_n m s p = Some x" for m x
    using that n(3) q(1) assms(1) by (cases m) auto
  then show ?thesis using Some n(1,2) q(1) by (auto simp: is_fork_def intro!: exI [of _ "Suc n"])
qed

lemma find_fork_loop_is_fork:
  assumes ok: "index_ok s V"
  shows "p \<in> V \<Longrightarrow> bi_nHeight (s p) + 2 \<le> fuel \<Longrightarrow> \<exists>r. find_fork_loop fuel s v (Some p) = Some r \<and> is_fork s v p r"
proof (induction "bi_nHeight (s p)" arbitrary: p fuel)
  case 0
  obtain f where f: "fuel = Suc (Suc f)" using 0(3) by (cases fuel; cases "fuel - 1") auto
  have "bi_pprev (s p) = None" using index_pprev(4) [OF ok 0(2)] 0(1) by simp
  then show ?case
    using f is_fork_step [of s v p None] by (cases "Contains s v p") (auto simp: is_fork_def intro: exI [of _ 0])
next
  case (Suc k)
  obtain f where f: "fuel = Suc f" using Suc.prems(2) by (cases fuel) auto
  obtain q where q: "q \<in> V" "bi_pprev (s p) = Some q" "k = bi_nHeight (s q)"
    using index_pprev(3) [OF ok Suc.prems(1)] Suc.hyps(2) by auto
  show ?case
  proof (cases "Contains s v p")
    case True
    then show ?thesis using f by (auto simp: is_fork_def intro: exI [of _ 0])
  next
    case False
    obtain r where "find_fork_loop f s v (Some q) = Some r" "is_fork s v q r"
      using Suc.hyps(1) [OF q(3) q(1)] Suc.prems(2) Suc.hyps(2) f q(3) by auto
    then show ?thesis using f False q(2) is_fork_step [OF False, of r] by auto
  qed
qed

lemma not_Contains_high: "int (length v) \<le> int (bi_nHeight (s q)) \<Longrightarrow> \<not> Contains s v q"
  by (simp add: Contains_def chain_at_def)

lemma is_fork_prev:
  assumes "prev_n n s p = Some q" "\<And>m x. m < n \<Longrightarrow> prev_n m s p = Some x \<Longrightarrow> \<not> Contains s v x" "is_fork s v q r"
  shows "is_fork s v p r"
proof (cases r)
  case None
  have "\<not> Contains s v x" if "prev_n k s p = Some x" for k x
  proof (cases "k < n")
    case False
    then have "prev_n (k - n) s q = Some x" using that prev_n_add [of n "k - n" s p] assms(1) by simp
    then show ?thesis using assms(3) None by (auto simp: is_fork_def)
  qed (use that assms(2) in blast)
  then show ?thesis using None by (simp add: is_fork_def)
next
  case (Some f)
  then obtain k where k: "prev_n k s q = Some f" "Contains s v f"
    "\<forall>m<k. \<forall>x. prev_n m s q = Some x \<longrightarrow> \<not> Contains s v x" using assms(3) by (auto simp: is_fork_def)
  have "\<not> Contains s v x" if "m < n + k" "prev_n m s p = Some x" for m x
  proof (cases "m < n")
    case False
    then have "prev_n (m - n) s q = Some x" using that prev_n_add [of n "m - n" s p] assms(1) by simp
    moreover have "m - n < k" using that(1) False by simp
    ultimately show ?thesis using k(3) by blast
  qed (use that assms(2) in blast)
  moreover have "prev_n (n + k) s p = Some f" using prev_n_add [of n k s p] assms(1) k(1) by simp
  ultimately show ?thesis using Some k(2) by (auto simp: is_fork_def)
qed

lemma FindFork_is_fork:
  assumes ok: "index_ok s V" and p: "p \<in> V"
  shows "\<exists>r. FindFork s v (Some p) = Some r \<and> is_fork s v p r"
proof (cases "int (bi_nHeight (s p)) > Height v")
  case False
  then show ?thesis using find_fork_loop_is_fork [OF ok p order_refl] by (simp add: FindFork_def)
next
  case True
  have high: "\<not> Contains s v x" if "prev_n m s p = Some x" "int (length v) + int m \<le> int (bi_nHeight (s p))" for m x
    using prev_n_in [OF ok p that(1)] that(2) by (intro not_Contains_high) linarith
  show ?thesis
  proof (cases "v = []")
    case empty: True
    have "GetAncestor s p (Height v) = Some None" using empty by (simp add: GetAncestor_def Height_def)
    moreover have "is_fork s v p None"
      unfolding is_fork_def option.case
    proof (intro allI impI)
      fix n q assume "prev_n n s p = Some q"
      show "\<not> Contains s v q" by (rule not_Contains_high) (simp add: empty)
    qed
    ultimately show ?thesis using True by (auto simp: FindFork_def)
  next
    case False
    let ?n = "bi_nHeight (s p) - (length v - 1)"
    obtain q where q: "q \<in> V" "prev_n ?n s p = Some q" "bi_nHeight (s q) = bi_nHeight (s p) - ?n"
      using prev_n_Some [OF ok p, of ?n] by auto
    have "nat (Height v) = length v - 1" using False by (simp add: Height_def nat_diff_distrib)
    then have "GetAncestor s p (Height v) = Some (Some q)"
      using GetAncestor_prev_n [OF ok p, of "Height v"] True False q(2) by (cases v) (auto simp: Height_def)
    moreover obtain r where r: "find_fork_loop (bi_nHeight (s p) + 2) s v (Some q) = Some r" "is_fork s v q r"
      using find_fork_loop_is_fork [OF ok q(1), of "bi_nHeight (s p) + 2" v] q(3) by auto
    moreover have "is_fork s v p r"
    proof (rule is_fork_prev [OF q(2) _ r(2)])
      fix m x assume "m < ?n" "prev_n m s p = Some x"
      then show "\<not> Contains s v x" using high [of m x] False by (cases v) auto
    qed
    ultimately show ?thesis using True by (auto simp: FindFork_def)
  qed
qed

lemma common_loop_meets:
  assumes ok: "index_ok s V"
  shows "a \<in> V \<Longrightarrow> b \<in> V \<Longrightarrow> bi_nHeight (s a) = k \<Longrightarrow> bi_nHeight (s b) = k \<Longrightarrow> k + 2 \<le> fuel \<Longrightarrow>
    prev_n k s a = prev_n k s b \<Longrightarrow>
    \<exists>c n. common_loop fuel s (Some a) (Some b) = Some (Some c) \<and> n \<le> k \<and> prev_n n s a = Some c \<and> prev_n n s b = Some c
      \<and> (\<forall>m<n. prev_n m s a \<noteq> prev_n m s b)"
proof (induction k arbitrary: a b fuel)
  case 0
  then have "a = b" by simp
  then show ?case using 0(5) by (cases fuel) auto
next
  case (Suc k)
  obtain f where f: "fuel = Suc f" "k + 2 \<le> f" using Suc.prems(5) by (cases fuel) auto
  show ?case
  proof (cases "a = b")
    case True
    then show ?thesis using f(1) by auto
  next
    case False
    obtain a' where a': "a' \<in> V" "bi_pprev (s a) = Some a'" "bi_nHeight (s a') = k"
      using index_pprev(3) [OF ok Suc.prems(1)] Suc.prems(3) by auto
    obtain b' where b': "b' \<in> V" "bi_pprev (s b) = Some b'" "bi_nHeight (s b') = k"
      using index_pprev(3) [OF ok Suc.prems(2)] Suc.prems(4) by auto
    have "prev_n k s a' = prev_n k s b'" using Suc.prems(6) a'(2) b'(2) by simp
    then obtain c n where c: "common_loop f s (Some a') (Some b') = Some (Some c)" "n \<le> k" "prev_n n s a' = Some c"
      "prev_n n s b' = Some c" "\<forall>m<n. prev_n m s a' \<noteq> prev_n m s b'"
      using Suc.IH [OF a'(1) b'(1) a'(3) b'(3) f(2)] by blast
    have "prev_n m s a \<noteq> prev_n m s b" if "m < Suc n" for m
      using that c(5) a'(2) b'(2) False by (cases m) auto
    then show ?thesis using c(1-4) f(1) False a'(2) b'(2) by (intro exI [of _ c] exI [of _ "Suc n"]) auto
  qed
qed

text \<open>\<open>c\<close> is the last block that is an ancestor of both, where ancestors are compared at equal heights.\<close>

definition last_common :: "store \<Rightarrow> ptr \<Rightarrow> ptr \<Rightarrow> ptr \<Rightarrow> bool" where
  "last_common s a b c \<longleftrightarrow>
     (\<exists>n. prev_n n s a = Some c) \<and> (\<exists>n. prev_n n s b = Some c)
     \<and> (\<forall>m n x. prev_n m s a = Some x \<longrightarrow> prev_n n s b = Some x \<longrightarrow> bi_nHeight (s x) \<le> bi_nHeight (s c))"

lemma last_common_sym: "last_common s a b c \<Longrightarrow> last_common s b a c"
  by (auto simp: last_common_def)

lemma common_loop_last:
  assumes ok: "index_ok s V" and ab: "a \<in> V" "b \<in> V" "bi_nHeight (s a) = bi_nHeight (s b)"
    and g: "prev_n (bi_nHeight (s a)) s a = prev_n (bi_nHeight (s a)) s b" and f: "bi_nHeight (s a) + 2 \<le> fuel"
  shows "\<exists>c. common_loop fuel s (Some a) (Some b) = Some (Some c) \<and> last_common s a b c"
proof -
  obtain c n where c: "common_loop fuel s (Some a) (Some b) = Some (Some c)" "n \<le> bi_nHeight (s a)"
    "prev_n n s a = Some c" "prev_n n s b = Some c" "\<forall>m<n. prev_n m s a \<noteq> prev_n m s b"
    using common_loop_meets [OF ok ab(1,2) refl ab(3) [symmetric] f g] by blast
  have "bi_nHeight (s x) \<le> bi_nHeight (s c)" if x: "prev_n m s a = Some x" "prev_n k s b = Some x" for m k x
  proof -
    have "m = k" using prev_n_in [OF ok ab(1) x(1)] prev_n_in [OF ok ab(2) x(2)] ab(3) by linarith
    then have "\<not> m < n" using x c(5) by auto
    then show ?thesis using prev_n_in [OF ok ab(1) x(1)] prev_n_in [OF ok ab(1) c(3)] by linarith
  qed
  then show ?thesis using c(1,3,4) by (auto simp: last_common_def)
qed

lemma last_common_lift:
  assumes ok: "index_ok s V" and a: "a \<in> V" "b \<in> V" and p: "prev_n k s a = Some a'" "bi_nHeight (s a') = bi_nHeight (s b)"
    and c: "last_common s a' b c"
  shows "last_common s a b c"
proof -
  obtain n where "prev_n n s a' = Some c" using c by (auto simp: last_common_def)
  then have 1: "prev_n (k + n) s a = Some c" using p(1) by (simp add: prev_n_add)
  have "bi_nHeight (s x) \<le> bi_nHeight (s c)" if x: "prev_n m s a = Some x" "prev_n j s b = Some x" for m j x
  proof -
    have "k \<le> m" using prev_n_in [OF ok a(1) x(1)] prev_n_in [OF ok a(2) x(2)] prev_n_in [OF ok a(1) p(1)] p(2) by linarith
    then have "prev_n (m - k) s a' = Some x" using prev_n_add [of k "m - k" s a] x(1) p(1) by simp
    then show ?thesis using c x(2) by (auto simp: last_common_def)
  qed
  then show ?thesis using 1 c by (auto simp: last_common_def)
qed

lemma LastCommonAncestor_last:
  assumes ok: "index_ok s V" and ab: "a \<in> V" "b \<in> V"
    and g: "prev_n (bi_nHeight (s a)) s a = prev_n (bi_nHeight (s b)) s b"
  shows "\<exists>c. LastCommonAncestor s a b = Some (Some c) \<and> last_common s a b c"
proof -
  have main: "\<exists>c. common_loop (bi_nHeight (s y) + 2) s (Some x') (Some y) = Some (Some c) \<and> last_common s x y c \<and>
      common_loop (bi_nHeight (s y) + 2) s (Some y) (Some x') = Some (Some c) \<and> GetAncestor s x (int (bi_nHeight (s y))) = Some (Some x')"
    if xy: "x \<in> V" "y \<in> V" "bi_nHeight (s y) \<le> bi_nHeight (s x)" "prev_n (bi_nHeight (s x) - bi_nHeight (s y)) s x = Some x'"
      "prev_n (bi_nHeight (s x)) s x = prev_n (bi_nHeight (s y)) s y" for x y x'
  proof -
    have x': "x' \<in> V" "bi_nHeight (s x') = bi_nHeight (s y)" using prev_n_in [OF ok xy(1,4)] xy(3) by auto
    have e: "prev_n (bi_nHeight (s x')) s x' = prev_n (bi_nHeight (s x')) s y"
      using prev_n_add [of "bi_nHeight (s x) - bi_nHeight (s y)" "bi_nHeight (s y)" s x] xy(3-5) x'(2) by simp
    obtain c where c: "common_loop (bi_nHeight (s y) + 2) s (Some x') (Some y) = Some (Some c)" "last_common s x' y c"
      using common_loop_last [OF ok x'(1) xy(2) x'(2) e, of "bi_nHeight (s y) + 2"] x'(2) by auto
    obtain d where d: "common_loop (bi_nHeight (s y) + 2) s (Some y) (Some x') = Some (Some d)" "last_common s y x' d"
      using common_loop_last [OF ok xy(2) x'(1) x'(2) [symmetric], of "bi_nHeight (s y) + 2"] e x'(2) by auto
    have "common_loop n s (Some y) (Some x') = common_loop n s (Some x') (Some y)" for n
    proof -
      have "common_loop n s u w = common_loop n s w u" for u w by (induction n arbitrary: u w) auto
      then show ?thesis .
    qed
    then show ?thesis
      using c d last_common_lift [OF ok xy(1,2,4) x'(2) c(2)] GetAncestor_prev_n [OF ok xy(1), of "int (bi_nHeight (s y))"] xy(3,4)
      by auto
  qed
  consider "bi_nHeight (s a) > bi_nHeight (s b)" | "bi_nHeight (s b) > bi_nHeight (s a)" | "bi_nHeight (s a) = bi_nHeight (s b)"
    by linarith
  then show ?thesis
  proof cases
    case 1
    obtain a' where "prev_n (bi_nHeight (s a) - bi_nHeight (s b)) s a = Some a'"
      using prev_n_Some [OF ok ab(1), of "bi_nHeight (s a) - bi_nHeight (s b)"] by auto
    from main [OF ab _ this g] 1 show ?thesis by (auto simp: LastCommonAncestor_def Let_def min_def)
  next
    case 2
    obtain b' where "prev_n (bi_nHeight (s b) - bi_nHeight (s a)) s b = Some b'"
      using prev_n_Some [OF ok ab(2), of "bi_nHeight (s b) - bi_nHeight (s a)"] by auto
    from main [OF ab(2,1) _ this g [symmetric]] 2 show ?thesis
      by (auto simp: LastCommonAncestor_def Let_def min_def intro: last_common_sym)
  next
    case 3
    then show ?thesis
      using common_loop_last [OF ok ab 3, of "bi_nHeight (s b) + 2"] g
      by (simp add: LastCommonAncestor_def Let_def del: common_loop.simps add_2_eq_Suc')
  qed
qed

section \<open>Locators\<close>

text \<open>The hashes of the ancestors of \<open>p\<close> at the given heights.\<close>

definition hashes_at :: "store \<Rightarrow> ptr \<Rightarrow> nat list \<Rightarrow> bytes list" where
  "hashes_at s p hs = map (\<lambda>h. bi_phashBlock (s (the (prev_n (bi_nHeight (s p) - h) s p)))) hs"

lemma Contains_chain_at:
  assumes ok: "index_ok s V" and v: "chain_ok s V v" and p: "Contains s v p" "h \<le> bi_nHeight (s p)"
  shows "chain_at v (int h) = prev_n (bi_nHeight (s p) - h) s p"
proof -
  obtain t where t: "t \<in> V" "v = ancestors s t"
    using v p by (auto simp: chain_ok_def Contains_def chain_at_def split: if_splits)
  have "bi_nHeight (s p) \<le> bi_nHeight (s t)" "ancestors s t ! bi_nHeight (s p) = Some p"
    using p(1) t(2) by (auto simp: Contains_def chain_at_def split: if_splits)
  then have "take (Suc (bi_nHeight (s p))) v = ancestors s p" using ancestors_take(1) [OF ok t(1)] t(2) by simp
  then have "v ! h = ancestors s p ! h" using p(2) by (metis le_imp_less_Suc nth_take)
  then show ?thesis
    using p(2) t(2) \<open>bi_nHeight (s p) \<le> bi_nHeight (s t)\<close> by (simp add: chain_at_def nth_ancestors)
qed

lemma hashes_at_prev:
  assumes ok: "index_ok s V" "p \<in> V" and q: "prev_n k s p = Some q" and hs: "\<forall>h\<in>set hs. h \<le> bi_nHeight (s q)"
  shows "hashes_at s q hs = hashes_at s p hs"
proof -
  have "prev_n (bi_nHeight (s q) - h) s q = prev_n (bi_nHeight (s p) - h) s p" if "h \<in> set hs" for h
    using prev_n_add [of k "bi_nHeight (s q) - h" s p] q prev_n_in [OF ok q] hs that by simp
  then show ?thesis by (simp add: hashes_at_def)
qed

lemma locator_loop_hashes:
  assumes ok: "index_ok s V" and v: "chain_ok s V v"
  shows "p \<in> V \<Longrightarrow> k = bi_nHeight (s p) \<Longrightarrow> 1 \<le> nStep \<Longrightarrow> k + 2 \<le> fuel \<Longrightarrow>
    \<exists>hs. locator_loop fuel s v nStep (Some p) acc = Some (acc @ hashes_at s p (k # hs))
      \<and> sorted_wrt (>) (k # hs) \<and> last (k # hs) = 0"
proof (induction k arbitrary: p nStep fuel acc rule: less_induct)
  case (less k)
  obtain f where f: "fuel = Suc f" using less.prems(4) by (cases fuel) auto
  show ?case
  proof (cases "k = 0")
    case True
    then show ?thesis using f less.prems(2) by (intro exI [of _ "[]"]) (simp add: hashes_at_def Let_def)
  next
    case False
    define h where "h = nat (max (int k - nStep) 0)"
    have h: "h < k" "int h = max (int k - nStep) 0" using False less.prems(3) by (auto simp: h_def)
    define acc' where "acc' = acc @ [bi_phashBlock (s p)]"
    define step' where "step' = (if length acc' > 10 then nStep * 2 else nStep)"
    obtain q where q: "prev_n (k - h) s p = Some q" "q \<in> V" "h = bi_nHeight (s q)"
      using prev_n_Some [OF ok less.prems(1), of "k - h"] less.prems(2) h(1) by auto
    have next1: "chain_at v (int h) = Some q" if "Contains s v p"
      using Contains_chain_at [OF ok v that, of h] q(1) less.prems(2) h(1) by simp
    have next2: "GetAncestor s p (int h) = Some (Some q)"
      using GetAncestor_prev_n [OF ok less.prems(1), of "int h"] q(1) less.prems(2) h(1) by simp
    have step: "locator_loop fuel s v nStep (Some p) acc = locator_loop f s v step' (Some q) acc'"
      using f False less.prems(2) next1 next2 h(2)
      by (cases "Contains s v p") (simp_all add: Let_def acc'_def step'_def flip: h(2))
    have "1 \<le> step'" using less.prems(3) by (simp add: step'_def)
    moreover have "h + 2 \<le> f" using less.prems(4) h(1) f by simp
    ultimately obtain hs where hs: "locator_loop f s v step' (Some q) acc' = Some (acc' @ hashes_at s q (h # hs))"
      "sorted_wrt (>) (h # hs)" "last (h # hs) = 0"
      using less.IH [OF h(1) q(2,3)] by blast
    have "hashes_at s q (h # hs) = hashes_at s p (h # hs)"
      using hs(2) q(3) by (intro hashes_at_prev [OF ok less.prems(1) q(1)]) auto
    then have "acc' @ hashes_at s q (h # hs) = acc @ hashes_at s p (k # h # hs)"
      using less.prems(2) by (simp add: acc'_def hashes_at_def)
    moreover have "sorted_wrt (>) (k # h # hs)" using hs(2) h(1) by auto
    ultimately show ?thesis using step hs(1,3) by (intro exI [of _ "h # hs"]) simp
  qed
qed

section \<open>Search by time\<close>

lemma lower_bound_bounds:
  assumes mono: "\<And>i j. i \<le> j \<Longrightarrow> j < length xs \<Longrightarrow> lt (xs ! j) \<Longrightarrow> lt (xs ! i)"
  shows "first + count \<le> length xs \<Longrightarrow> (\<And>i. i < first \<Longrightarrow> lt (xs ! i)) \<Longrightarrow>
    (\<And>i. first + count \<le> i \<Longrightarrow> i < length xs \<Longrightarrow> \<not> lt (xs ! i)) \<Longrightarrow>
    lower_bound lt xs first count \<le> length xs \<and>
    (\<forall>i<length xs. lt (xs ! i) \<longleftrightarrow> i < lower_bound lt xs first count)"
proof (induction count arbitrary: first rule: less_induct)
  case (less count)
  show ?case
  proof (cases "count = 0")
    case True
    then have "lower_bound lt xs first count = first" by (subst lower_bound.simps) simp
    then show ?thesis using less.prems True by (metis add_0_right not_less)
  next
    case False
    let ?step = "count div 2" and ?it = "first + count div 2"
    have it: "?it < length xs" "?it < first + count" using False less.prems(1) by auto
    show ?thesis
    proof (cases "lt (xs ! ?it)")
      case True
      have eq: "lower_bound lt xs first count = lower_bound lt xs (?it + 1) (count - (?step + 1))"
        using False True by (subst lower_bound.simps) (simp add: Let_def)
      have sum: "?it + 1 + (count - (?step + 1)) = first + count" using False by simp
      show ?thesis
        unfolding eq
      proof (rule less.IH)
        show "count - (?step + 1) < count" using False by simp
        show "?it + 1 + (count - (?step + 1)) \<le> length xs" unfolding sum by (rule less.prems(1))
        show "lt (xs ! i)" if "i < ?it + 1" for i by (rule mono [OF _ it(1) True]) (use that in simp)
        show "\<not> lt (xs ! i)" if "?it + 1 + (count - (?step + 1)) \<le> i" "i < length xs" for i
          by (rule less.prems(3) [OF that [unfolded sum]])
      qed
    next
      case nlt: False
      have eq: "lower_bound lt xs first count = lower_bound lt xs first ?step"
        using False nlt by (subst lower_bound.simps) (simp add: Let_def)
      show ?thesis
        unfolding eq
      proof (rule less.IH)
        show "?step < count" using False by simp
        show "?it \<le> length xs" using it(1) by simp
        show "lt (xs ! i)" if "i < first" for i by (rule less.prems(2) [OF that])
        show "\<not> lt (xs ! i)" if "?it \<le> i" "i < length xs" for i using mono [OF that] nlt by blast
      qed
    qed
  qed
qed

section \<open>Work\<close>

lemma compact_value_not_max:
  assumes "m < 2 ^ 23"
  shows "compact_value sz m + 1 \<noteq> 2 ^ 256"
proof (cases "sz \<le> 3")
  case True
  then have "compact_value sz m \<le> m" by (simp add: compact_value_def)
  then show ?thesis using assms by simp
next
  case False
  then have "even (compact_value sz m)" by (simp add: compact_value_def)
  moreover have "even ((2 :: nat) ^ 256)" by simp
  ultimately show ?thesis by (metis even_plus_one_iff)
qed

definition target :: "u32 \<Rightarrow> nat" where
  "target nBits = compact_value (compact_size nBits) (compact_mantissa nBits)"

definition target_valid :: "u32 \<Rightarrow> bool" where
  "target_valid nBits \<longleftrightarrow> \<not> cr_fNegative (SetCompact nBits) \<and> target nBits < 2 ^ 256 \<and> target nBits \<noteq> 0"

lemma SetCompact_target: "\<not> cr_fOverflow (SetCompact c) \<Longrightarrow> lval (cr_value (SetCompact c)) = target c"
  using SetCompact_value(1) [of c] SetCompact_flags(1) [of c] by (simp only: target_def not_le mod_less)

lemma GetBlockProof_val:
  "\<exists>r. GetBlockProof nBits = Some r \<and> uint_ok r \<and> lval r = (if target_valid nBits then 2 ^ 256 div (target nBits + 1) else 0)"
proof (cases "target_valid nBits")
  case True
  let ?t = "cr_value (SetCompact nBits)"
  have ov: "\<not> cr_fOverflow (SetCompact nBits)"
    using True by (simp only: SetCompact_flags(1) target_valid_def target_def not_le)
  have t: "lval ?t = target nBits" "uint_ok ?t" using SetCompact_target [OF ov] SetCompact_value(2) by auto
  have "target nBits + 1 \<noteq> 2 ^ 256" unfolding target_def by (rule compact_value_not_max [OF compact_mantissa_less])
  moreover have "target nBits < 2 ^ 256" using True by (simp only: target_valid_def)
  ultimately have "lval ?t + 1 < 2 ^ 256" using t(1) by linarith
  then obtain q where "uint_div (uint_not ?t) (uint_add ?t (uint_of_u64 1)) = Some q"
    "uint_ok (uint_add q (uint_of_u64 1))" "lval (uint_add q (uint_of_u64 1)) = 2 ^ 256 div (lval ?t + 1)"
    using u256.work_val [OF t(2) lval_of_u64(2) [of 1]] True t(1) by (auto simp: lval_of_u64 target_valid_def)
  moreover have "\<not> EqualTo ?t 0" using True t by (simp add: EqualTo_lval target_valid_def)
  ultimately show ?thesis using True ov t(1) by (simp only: GetBlockProof_def Let_def target_valid_def) simp
next
  case False
  have "cr_fNegative (SetCompact nBits) \<or> cr_fOverflow (SetCompact nBits) \<or> EqualTo (cr_value (SetCompact nBits)) 0"
  proof (cases "cr_fOverflow (SetCompact nBits)")
    case no: False
    then have "lval (cr_value (SetCompact nBits)) = target nBits" by (rule SetCompact_target)
    moreover have "target nBits < 2 ^ 256" using no by (simp only: SetCompact_flags(1) target_def not_le)
    ultimately show ?thesis
      using False SetCompact_value(2) [of nBits] by (simp only: target_valid_def) (auto simp: EqualTo_lval)
  qed simp
  then show ?thesis using False by (simp add: GetBlockProof_def Let_def)
qed

section \<open>Properties\<close>

text \<open>A chain of four blocks with its skip pointers, to evaluate the properties on.\<close>

definition demo_store :: store where
  "demo_store p =
     \<lparr>bi_phashBlock = [word_of_nat p], bi_pprev = (if p = 0 then None else Some (p - 1)),
      bi_pskip = (if p = 0 then None else if p = 3 then Some 1 else Some 0), bi_nHeight = p,
      bi_nChainWork = uint_zero, bi_nVersion = 0x20000000, bi_nTime = word_of_nat (1000 + 60 * p), bi_nBits = 0x1e00ffff,
      bi_nTimeMax = word_of_nat (1000 + 60 * p)\<rparr>"

lemma demo_index_ok: "index_ok demo_store {0, 1, 2, 3}"
proof -
  have "GetSkipHeight 1 = 0" "GetSkipHeight 2 = 0" "GetSkipHeight 3 = 1" by code_simp+
  moreover have "prev_n 1 demo_store 1 = Some 0" "prev_n 2 demo_store 2 = Some 0" "prev_n 2 demo_store 3 = Some 1"
    by code_simp+
  moreover have "bi_pprev (demo_store p) = (if p = 0 then None else Some (p - 1))" "bi_nHeight (demo_store p) = p"
    "bi_pskip (demo_store p) = (if p = 0 then None else if p = 3 then Some 1 else Some 0)" for p
    by (simp_all add: demo_store_def)
  ultimately show ?thesis by (simp add: index_ok_def del: prev_n.simps)
qed

text \<open>C38: The skip list finds ancestors. In a well-formed block index \<open>GetAncestor\<close> returns the block reached by
  following predecessors down to the height asked for, whichever skip pointers it takes on the way; its assertion
  never fails, and a height out of range gives the null pointer.\<close>

theorem GetAncestor_correct:
  assumes "index_ok s V" and "p \<in> V"
  shows "GetAncestor s p height =
    Some (if 0 \<le> height \<and> height \<le> int (bi_nHeight (s p)) then prev_n (bi_nHeight (s p) - nat height) s p else None)"
  using assms by (rule GetAncestor_prev_n)

theorem GetAncestor_correct_witness: "GetAncestor demo_store 3 1 = Some (Some 1)"
proof -
  have "prev_n 2 demo_store 3 = Some 1" "bi_nHeight (demo_store 3) = 3" by code_simp+
  then show ?thesis using GetAncestor_correct [OF demo_index_ok, of 3 1] by (simp del: prev_n.simps)
qed

text \<open>\<open>BuildSkip\<close> keeps the block index well-formed: a new entry whose predecessor is in the index gets a skip
  pointer to its ancestor at the skip height, without a failing assertion.\<close>

theorem BuildSkip_preserves:
  assumes "index_ok s V" and "p \<notin> V" and "bi_pprev (s p) = Some q" and "q \<in> V"
    and "bi_nHeight (s p) = Suc (bi_nHeight (s q))"
  shows "\<exists>s'. BuildSkip s p = Some s' \<and> index_ok s' (insert p V)"
  using assms by (rule BuildSkip_index_ok)

theorem BuildSkip_preserves_witness:
  "\<exists>s'. BuildSkip demo_store 4 = Some s' \<and> index_ok s' (insert 4 {0, 1, 2, 3})"
  using BuildSkip_preserves [OF demo_index_ok, of 4 3] by (simp add: demo_store_def)

text \<open>\<open>SetTip\<close> makes the vector of the active chain exactly the ancestors of the new tip by height, although it
  stops at the first entry that is already right: what is below it belonged to the old chain.\<close>

theorem SetTip_correct:
  assumes "index_ok s V" and "chain_ok s V v" and "p \<in> V"
  shows "SetTip s (Some p) v = Some (ancestors s p)"
  using assms by (rule SetTip_ancestors)

theorem SetTip_correct_witness: "SetTip demo_store (Some 3) (ancestors demo_store 1) = Some (ancestors demo_store 3)"
proof -
  have "chain_ok demo_store {0, 1, 2, 3} (ancestors demo_store 1)" by (auto simp: chain_ok_def)
  then show ?thesis using SetTip_correct [OF demo_index_ok, of "ancestors demo_store 1" 3] by simp
qed

text \<open>\<open>FindFork\<close> returns the last block of the active chain among a block and its ancestors, and the null pointer
  exactly when there is none; it terminates and no assertion fails.\<close>

theorem FindFork_correct:
  assumes "index_ok s V" and "p \<in> V"
  shows "\<exists>r. FindFork s v (Some p) = Some r \<and> is_fork s v p r"
  using assms by (rule FindFork_is_fork)

theorem FindFork_correct_witness: "\<exists>r. FindFork demo_store [Some 0, Some 1] (Some 3) = Some r \<and> is_fork demo_store [Some 0, Some 1] 3 r"
  using FindFork_correct [OF demo_index_ok, of 3] by simp

text \<open>\<open>LastCommonAncestor\<close> of two blocks over the same genesis block returns their common ancestor of greatest
  height; its assertion holds.\<close>

theorem LastCommonAncestor_correct:
  assumes "index_ok s V" and "a \<in> V" and "b \<in> V"
    and "prev_n (bi_nHeight (s a)) s a = prev_n (bi_nHeight (s b)) s b"
  shows "\<exists>c. LastCommonAncestor s a b = Some (Some c) \<and> last_common s a b c"
  using assms by (rule LastCommonAncestor_last)

theorem LastCommonAncestor_correct_witness: "\<exists>c. LastCommonAncestor demo_store 3 1 = Some (Some c) \<and> last_common demo_store 3 1 c"
proof -
  have "prev_n 3 demo_store 3 = Some 0" "prev_n 1 demo_store 1 = Some 0" "bi_nHeight (demo_store 3) = 3"
    "bi_nHeight (demo_store 1) = 1" by code_simp+
  then show ?thesis using LastCommonAncestor_correct [OF demo_index_ok, of 3 1] by (simp del: prev_n.simps)
qed

text \<open>A block locator starts at the block, ends at the genesis block and names ancestors at strictly decreasing
  heights, so the loop that builds it ends.\<close>

theorem GetLocator_correct:
  assumes "index_ok s V" and "chain_ok s V v" and "p \<in> V"
  shows "\<exists>hs. GetLocator s v (Some p) = Some (hashes_at s p (bi_nHeight (s p) # hs))
    \<and> sorted_wrt (>) (bi_nHeight (s p) # hs) \<and> last (bi_nHeight (s p) # hs) = 0"
  using locator_loop_hashes [OF assms(1,2,3) refl, of 1 "bi_nHeight (s p) + 2" "[]"] by (simp add: GetLocator_def)

theorem GetLocator_correct_witness:
  "\<exists>hs. GetLocator demo_store [] (Some 3) = Some (hashes_at demo_store 3 (3 # hs))
    \<and> sorted_wrt (>) (3 # hs) \<and> last (3 # hs) = 0"
  using GetLocator_correct [OF demo_index_ok, of "[]" 3] by (simp add: demo_store_def chain_ok_def)

text \<open>The work of a block is \<open>2 ^ 256 div (target + 1)\<close>, computed without leaving 256 bits and without dividing by
  zero; a negative, zero or overflowing target has no work.\<close>

theorem GetBlockProof_correct:
  "\<exists>r. GetBlockProof nBits = Some r \<and> lval r = (if target_valid nBits then 2 ^ 256 div (target nBits + 1) else 0)"
  using GetBlockProof_val [of nBits] by blast

end
