(* ===== verification/Pow.thy ===== *)
theory Pow
  imports Chain
begin

unbundle bit_operations_syntax

text \<open>
  The proof of work (\<open>src/src/pow.cpp\<close>): the next difficulty by the moving average of 180 blocks ("dark gravity
  wave") or by the retargeting at intervals, and the check of a block hash against its target. The time spans are positive, so that the
  division of C, which truncates, is \<^term>\<open>(div)\<close>. The consensus
  parameters are those of \<open>src/src/consensus/params.h\<close> that the code reads; the activation time of the KawPow
  algorithm and the activation height of the moving average are arguments. A failing assertion or an exception of
  the integers is \<^term>\<open>None\<close>.
\<close>

section \<open>Definitions\<close>

record Params =
  powLimit :: bytes
  kawpowLimit :: bytes
  fPowAllowMinDifficultyBlocks :: bool
  fPowNoRetargeting :: bool
  nPowTargetSpacing :: int
  nPowTargetTimespan :: int

definition DifficultyAdjustmentInterval :: "Params \<Rightarrow> int" where
  "DifficultyAdjustmentInterval params = nPowTargetTimespan params div nPowTargetSpacing params"

definition nPastBlocks :: nat where "nPastBlocks = 180"

text \<open>The last block that was not mined by the rule for minimal difficulty.\<close>

primrec last_non_special :: "nat \<Rightarrow> store \<Rightarrow> Params \<Rightarrow> u32 \<Rightarrow> ptr \<Rightarrow> ptr option" where
  "last_non_special 0 s params nProofOfWorkLimit pindex = None"
| "last_non_special (Suc fuel) s params nProofOfWorkLimit pindex =
     (case bi_pprev (s pindex) of
        None \<Rightarrow> Some pindex
      | Some pprev \<Rightarrow>
          if int (bi_nHeight (s pindex)) mod DifficultyAdjustmentInterval params \<noteq> 0 \<and> bi_nBits (s pindex) = nProofOfWorkLimit
          then last_non_special fuel s params nProofOfWorkLimit pprev
          else Some pindex)"

definition min_difficulty_bits :: "store \<Rightarrow> Params \<Rightarrow> u32 \<Rightarrow> ptr \<Rightarrow> u32 \<Rightarrow> u32 option" where
  "min_difficulty_bits s params pblock_nTime pindexLast nProofOfWorkLimit =
     (if uint pblock_nTime > GetBlockTime s pindexLast + nPowTargetSpacing params * 2 then Some nProofOfWorkLimit
      else map_option (\<lambda>p. bi_nBits (s p))
             (last_non_special (bi_nHeight (s pindexLast) + 1) s params nProofOfWorkLimit pindexLast))"

text \<open>One iteration of the loop over the past blocks: the block, the average and the number of KawPow blocks.\<close>

definition dgw_step :: "store \<Rightarrow> u32 \<Rightarrow> nat \<Rightarrow> ptr \<times> limbs \<times> nat \<Rightarrow> (ptr \<times> limbs \<times> nat) option" where
  "dgw_step s nKAWPOWActivationTime nCountBlocks st =
     (case st of (pindex, bnPastTargetAvg, nKAWPOWBlocksFound) \<Rightarrow>
        let bnTarget = cr_value (SetCompact (bi_nBits (s pindex))) in
        case (if nCountBlocks = 1 then Some bnTarget
              else uint_div (uint_add (uint_mul32 bnPastTargetAvg (word_of_nat nCountBlocks)) bnTarget)
                     (uint_of_u64 (word_of_nat (nCountBlocks + 1)))) of
          None \<Rightarrow> None
        | Some avg \<Rightarrow>
            let found = (if bi_nTime (s pindex) \<ge> nKAWPOWActivationTime then nKAWPOWBlocksFound + 1 else nKAWPOWBlocksFound)
            in if nCountBlocks \<noteq> nPastBlocks
               then map_option (\<lambda>pprev. (pprev, avg, found)) (bi_pprev (s pindex))
               else Some (pindex, avg, found))"

primrec dgw_loop :: "store \<Rightarrow> u32 \<Rightarrow> nat \<Rightarrow> nat \<Rightarrow> ptr \<times> limbs \<times> nat \<Rightarrow> (ptr \<times> limbs \<times> nat) option" where
  "dgw_loop s kaw 0 nCountBlocks st = Some st"
| "dgw_loop s kaw (Suc n) nCountBlocks st =
     Option.bind (dgw_step s kaw nCountBlocks st) (dgw_loop s kaw n (nCountBlocks + 1))"

text \<open>
  The end of the function: the average is scaled by the actual over the intended time span, both clamped. The
  multiplication is the one by a 32-bit integer, to which the 64-bit time span is converted.
\<close>

definition clamp :: "int \<Rightarrow> int \<Rightarrow> int \<Rightarrow> int" where
  "clamp lo hi x = (let x = (if x < lo then lo else x) in if x > hi then hi else x)"

definition retarget :: "limbs \<Rightarrow> int \<Rightarrow> int \<Rightarrow> limbs \<Rightarrow> u32 option" where
  "retarget bn nActualTimespan nTargetTimespan bnPowLimit =
     Option.bind (uint_div (uint_mul32 bn (word_of_int nActualTimespan)) (uint_of_u64 (word_of_int nTargetTimespan)))
       (\<lambda>bnNew. GetCompact (if CompareTo bnNew bnPowLimit > 0 then bnPowLimit else bnNew) False)"

definition DarkGravityWave :: "store \<Rightarrow> ptr \<Rightarrow> u32 \<Rightarrow> Params \<Rightarrow> u32 \<Rightarrow> u32 option" where
  "DarkGravityWave s pindexLast pblock_nTime params nKAWPOWActivationTime =
     (let bnPowLimit = UintToArith256 (powLimit params) in
      Option.bind (GetCompact bnPowLimit False) (\<lambda>nProofOfWorkLimit.
      if bi_nHeight (s pindexLast) < nPastBlocks then GetCompact bnPowLimit False
      else if fPowAllowMinDifficultyBlocks params \<and> fPowNoRetargeting params
        then min_difficulty_bits s params pblock_nTime pindexLast nProofOfWorkLimit
      else
        Option.bind (dgw_loop s nKAWPOWActivationTime nPastBlocks 1 (pindexLast, uint_zero, 0))
          (\<lambda>(pindex, bnPastTargetAvg, nKAWPOWBlocksFound).
            if pblock_nTime \<ge> nKAWPOWActivationTime \<and> nKAWPOWBlocksFound \<noteq> nPastBlocks
            then GetCompact (UintToArith256 (kawpowLimit params)) False
            else
              let nTargetTimespan = int nPastBlocks * nPowTargetSpacing params
              in retarget bnPastTargetAvg
                   (clamp (nTargetTimespan div 3) (nTargetTimespan * 3) (GetBlockTime s pindexLast - GetBlockTime s pindex))
                   nTargetTimespan bnPowLimit)))"

definition CalculateNextWorkRequired :: "store \<Rightarrow> ptr \<Rightarrow> int \<Rightarrow> Params \<Rightarrow> u32 option" where
  "CalculateNextWorkRequired s pindexLast nFirstBlockTime params =
     (if fPowNoRetargeting params then Some (bi_nBits (s pindexLast))
      else retarget (cr_value (SetCompact (bi_nBits (s pindexLast))))
             (clamp (nPowTargetTimespan params div 4) (nPowTargetTimespan params * 4)
                (GetBlockTime s pindexLast - nFirstBlockTime))
             (nPowTargetTimespan params) (UintToArith256 (powLimit params)))"

definition GetNextWorkRequiredBTC :: "store \<Rightarrow> ptr \<Rightarrow> u32 \<Rightarrow> Params \<Rightarrow> u32 option" where
  "GetNextWorkRequiredBTC s pindexLast pblock_nTime params =
     Option.bind (GetCompact (UintToArith256 (powLimit params)) False) (\<lambda>nProofOfWorkLimit.
     if int (bi_nHeight (s pindexLast) + 1) mod DifficultyAdjustmentInterval params \<noteq> 0 then
       (if fPowAllowMinDifficultyBlocks params then min_difficulty_bits s params pblock_nTime pindexLast nProofOfWorkLimit
        else Some (bi_nBits (s pindexLast)))
     else
       let nHeightFirst = int (bi_nHeight (s pindexLast)) - (DifficultyAdjustmentInterval params - 1)
       in if \<not> nHeightFirst \<ge> 0 then None
          else case GetAncestor s pindexLast nHeightFirst of
                 Some (Some pindexFirst) \<Rightarrow> CalculateNextWorkRequired s pindexLast (GetBlockTime s pindexFirst) params
               | _ \<Rightarrow> None)"

definition GetNextWorkRequired :: "store \<Rightarrow> ptr \<Rightarrow> u32 \<Rightarrow> Params \<Rightarrow> u32 \<Rightarrow> nat \<Rightarrow> u32 option" where
  "GetNextWorkRequired s pindexLast pblock_nTime params nKAWPOWActivationTime nDGWActivationBlock =
     (if bi_nHeight (s pindexLast) + 1 \<ge> nDGWActivationBlock
      then DarkGravityWave s pindexLast pblock_nTime params nKAWPOWActivationTime
      else GetNextWorkRequiredBTC s pindexLast pblock_nTime params)"

definition CheckProofOfWork :: "bytes \<Rightarrow> u32 \<Rightarrow> Params \<Rightarrow> bool" where
  "CheckProofOfWork hash nBits params =
     (let r = SetCompact nBits; bnTarget = cr_value r in
      if cr_fNegative r \<or> EqualTo bnTarget 0 \<or> cr_fOverflow r \<or> CompareTo bnTarget (UintToArith256 (powLimit params)) > 0
        then False
      else if CompareTo (UintToArith256 hash) bnTarget > 0 then False
      else True)"

section \<open>The check\<close>

lemma CheckProofOfWork_val:
  assumes "length hash = 32" "length (powLimit params) = 32"
  shows "CheckProofOfWork hash nBits params \<longleftrightarrow>
    target_valid nBits \<and> target nBits \<le> le_val (powLimit params) \<and> le_val hash \<le> target nBits"
proof (cases "cr_fOverflow (SetCompact nBits)")
  case True
  then have "\<not> target nBits < 2 ^ 256" by (simp only: SetCompact_flags(1) target_def not_less)
  then show ?thesis using True by (simp only: target_valid_def) (simp add: CheckProofOfWork_def Let_def)
next
  case False
  let ?t = "cr_value (SetCompact nBits)"
  have t: "lval ?t = target nBits" "uint_ok ?t" using SetCompact_target [OF False] SetCompact_value(2) by auto
  have lt: "target nBits < 2 ^ 256" using False by (simp only: SetCompact_flags(1) target_def not_le)
  have "CompareTo ?t (UintToArith256 (powLimit params)) > 0 \<longleftrightarrow> le_val (powLimit params) < target nBits"
    "CompareTo (UintToArith256 hash) ?t > 0 \<longleftrightarrow> target nBits < le_val hash"
    using u256.compare_iff(1) [OF t(2) UintToArith256_ok, of "powLimit params"]
      u256.compare_iff(1) [OF UintToArith256_ok t(2), of hash] t(1) assms by (simp_all add: UintToArith256_val)
  then show ?thesis
    using False lt t by (simp only: CheckProofOfWork_def Let_def target_valid_def) (auto simp: EqualTo_lval)
qed

section \<open>Retargeting\<close>

lemma target_le_of_GetCompact:
  assumes "uint_ok a" "GetCompact a False = Some c"
  shows "target c \<le> lval a" "target c < 2 ^ 256" "\<not> cr_fNegative (SetCompact c)"
    "lval a < target c + 256 ^ (compact_size c - 3)"
proof -
  obtain c' where c': "GetCompact a False = Some c'" "\<not> cr_fNegative (SetCompact c')" "\<not> cr_fOverflow (SetCompact c')"
    "lval (cr_value (SetCompact c')) \<le> lval a" "lval a < lval (cr_value (SetCompact c')) + 256 ^ (compact_size c' - 3)"
    using SetCompact_GetCompact [OF assms(1)] by blast
  then show "target c \<le> lval a" "target c < 2 ^ 256" "\<not> cr_fNegative (SetCompact c)"
    "lval a < target c + 256 ^ (compact_size c - 3)"
    using assms(2) SetCompact_target [of c'] lval_256 [OF assms(1)] by auto
qed

lemma GetCompact_total: "uint_ok a \<Longrightarrow> \<exists>c. GetCompact a False = Some c"
  using SetCompact_GetCompact by blast

text \<open>The value \<open>retarget\<close> computes, before it is rounded to the compact form.\<close>

definition retarget_value :: "nat \<Rightarrow> int \<Rightarrow> int \<Rightarrow> nat \<Rightarrow> nat" where
  "retarget_value v actual intended limit =
     min limit (v * nat (actual mod 2 ^ 32) mod 2 ^ 256 div nat (intended mod 2 ^ 64))"

lemma unat_word_of_int32: "unat (word_of_int x :: u32) = nat (x mod 2 ^ 32)"
  by (simp add: unsigned_of_int take_bit_eq_mod)

lemma unat_word_of_int64: "unat (word_of_int x :: u64) = nat (x mod 2 ^ 64)"
  by (simp add: unsigned_of_int take_bit_eq_mod)

lemma retarget_compact:
  assumes bn: "uint_ok bn" "uint_ok lim" and t: "intended mod 2 ^ 64 \<noteq> 0"
  shows "\<exists>m. retarget bn actual intended lim = GetCompact m False \<and> uint_ok m
    \<and> lval m = retarget_value (lval bn) actual intended (lval lim)"
proof -
  let ?n = "uint_mul32 bn (word_of_int actual)" and ?d = "uint_of_u64 (word_of_int intended)"
  have n: "uint_ok ?n" "lval ?n = lval bn * nat (actual mod 2 ^ 32) mod 2 ^ 256"
    using lval_mul32 [OF bn(1), of "word_of_int actual"] by (simp_all only: unat_word_of_int32)
  have d: "uint_ok ?d" "lval ?d = nat (intended mod 2 ^ 64)" by (simp_all only: lval_of_u64 unat_word_of_int64)
  have "lval ?d \<noteq> 0" using t d(2) by (simp add: order_less_le)
  then obtain q where q: "uint_div ?n ?d = Some q" "uint_ok q" "lval q = lval ?n div lval ?d"
    using lval_div(2) [OF n(1) d(1)] by blast
  let ?m = "if CompareTo q lim > 0 then lim else q"
  have "lval ?m = min (lval lim) (lval q)"
    using u256.compare_iff(1) [OF q(2) bn(2)] by (simp add: min_def)
  then have "lval ?m = retarget_value (lval bn) actual intended (lval lim)"
    by (simp only: retarget_value_def q(3) n(2) d(2))
  then show ?thesis using q(1,2) bn(2) by (intro exI [of _ ?m]) (simp add: retarget_def)
qed

lemma retarget_limit:
  assumes "uint_ok bn" "uint_ok lim" "intended mod 2 ^ 64 \<noteq> 0"
  shows "\<exists>c. retarget bn actual intended lim = Some c \<and> target c \<le> lval lim \<and> target c < 2 ^ 256
    \<and> \<not> cr_fNegative (SetCompact c)"
proof -
  obtain m where m: "retarget bn actual intended lim = GetCompact m False" "uint_ok m"
    "lval m = retarget_value (lval bn) actual intended (lval lim)" using retarget_compact [OF assms] by blast
  obtain c where c: "GetCompact m False = Some c" using GetCompact_total [OF m(2)] by blast
  have "lval m \<le> lval lim" by (simp add: m(3) retarget_value_def)
  then show ?thesis using target_le_of_GetCompact [OF m(2) c] m(1) c by auto
qed


section \<open>The moving average\<close>

lemma unat_count:
  assumes "c \<le> nPastBlocks"
  shows "unat (word_of_nat (c + 1) :: u64) = c + 1" "unat (word_of_nat c :: u32) = c"
  using assms by (simp_all only: nPastBlocks_def unsigned_of_nat take_bit_eq_mod) simp_all

lemma dgw_step_eq:
  assumes "(if c = 1 then Some (cr_value (SetCompact (bi_nBits (s p))))
            else uint_div (uint_add (uint_mul32 avg (word_of_nat c)) (cr_value (SetCompact (bi_nBits (s p)))))
                   (uint_of_u64 (word_of_nat (c + 1)))) = Some a"
  shows "dgw_step s kaw c (p, avg, k) =
    map_option (\<lambda>q. (q, a, if bi_nTime (s p) \<ge> kaw then k + 1 else k)) (prev_n (if c = nPastBlocks then 0 else 1) s p)"
  by (cases "bi_pprev (s p)") (simp_all only: dgw_step_def Let_def prod.case assms option.case, simp_all)

lemma dgw_step_total:
  assumes ok: "index_ok s V" "p \<in> V" and avg: "uint_ok avg" and c: "0 < c" "c \<le> nPastBlocks"
    and h: "c \<noteq> nPastBlocks \<Longrightarrow> bi_nHeight (s p) \<noteq> 0"
  shows "\<exists>q avg' k'. dgw_step s kaw c (p, avg, k) = Some (q, avg', k') \<and> q \<in> V \<and> uint_ok avg'
    \<and> prev_n (if c = nPastBlocks then 0 else 1) s p = Some q"
proof -
  let ?t = "cr_value (SetCompact (bi_nBits (s p)))"
  let ?n = "uint_add (uint_mul32 avg (word_of_nat c)) ?t" and ?d = "uint_of_u64 (word_of_nat (c + 1))"
  have t: "uint_ok ?t" by (rule SetCompact_value(2))
  have n: "uint_ok ?n" using lval_mul32(1) [OF avg] lval_add(1) t by blast
  have "unat (word_of_nat (c + 1) :: u64) = c + 1" using c(2) by (rule unat_count)
  then have "lval ?d \<noteq> 0" by (simp only: lval_of_u64)
  then obtain q where q: "uint_div ?n ?d = Some q" "uint_ok q"
    using lval_div(2) [OF n lval_of_u64(2)] by blast
  obtain a where a: "(if c = 1 then Some ?t else uint_div ?n ?d) = Some a" "uint_ok a"
    using q t by (cases "c = 1") auto
  have "\<exists>q\<in>V. prev_n (if c = nPastBlocks then 0 else 1) s p = Some q"
    using index_pprev(3) [OF ok] h ok(2) by (cases "c = nPastBlocks") auto
  then show ?thesis using dgw_step_eq [of c s p avg a kaw k, OF a(1)] a(2) by auto
qed

lemma dgw_loop_total:
  assumes ok: "index_ok s V"
  shows "p \<in> V \<Longrightarrow> uint_ok avg \<Longrightarrow> 0 < c \<Longrightarrow> n + c = nPastBlocks + 1 \<Longrightarrow> n \<le> Suc (bi_nHeight (s p)) \<Longrightarrow>
    \<exists>q avg' k'. dgw_loop s kaw n c (p, avg, k) = Some (q, avg', k') \<and> q \<in> V \<and> uint_ok avg'"
proof (induction n arbitrary: p avg c k)
  case (Suc n)
  have h: "bi_nHeight (s p) \<noteq> 0" if "c \<noteq> nPastBlocks" using that Suc.prems(4,5) by simp
  obtain q avg' k' where q: "dgw_step s kaw c (p, avg, k) = Some (q, avg', k')" "q \<in> V" "uint_ok avg'"
    "prev_n (if c = nPastBlocks then 0 else 1) s p = Some q"
    using dgw_step_total [OF ok Suc.prems(1,2,3) _ h] Suc.prems(4) by (metis Suc_eq_plus1 add_Suc le_add2 Suc_inject)
  have "n \<le> Suc (bi_nHeight (s q))"
    using prev_n_in [OF ok Suc.prems(1) q(4)] Suc.prems(4,5) by (auto split: if_splits)
  then have "\<exists>x avg'' k''. dgw_loop s kaw n (c + 1) (q, avg', k') = Some (x, avg'', k'') \<and> x \<in> V \<and> uint_ok avg''"
    using Suc.IH [OF q(2,3)] Suc.prems(4) by simp
  then show ?case by (simp add: q(1))
qed auto

lemma last_non_special_total:
  assumes ok: "index_ok s V"
  shows "p \<in> V \<Longrightarrow> bi_nHeight (s p) < fuel \<Longrightarrow> \<exists>q\<in>V. last_non_special fuel s params lim p = Some q"
proof (induction fuel arbitrary: p)
  case (Suc fuel)
  show ?case
  proof (cases "bi_pprev (s p)")
    case (Some q)
    then have "q \<in> V" "bi_nHeight (s q) < fuel" using index_pprev(2) [OF ok Suc.prems(1) Some] Suc.prems(2) by auto
    then show ?thesis using Suc.IH Suc.prems(1) Some by simp
  qed (use Suc.prems in simp)
qed simp

text \<open>Parameters the code is run with: limits of 32 bytes, and time spans that fit their integers.\<close>

definition params_ok :: "Params \<Rightarrow> bool" where
  "params_ok params \<longleftrightarrow> length (powLimit params) = 32 \<and> length (kawpowLimit params) = 32
     \<and> le_val (kawpowLimit params) \<le> le_val (powLimit params)
     \<and> 0 < nPowTargetSpacing params \<and> 540 * nPowTargetSpacing params < 2 ^ 32
     \<and> nPowTargetSpacing params \<le> nPowTargetTimespan params \<and> 4 * nPowTargetTimespan params < 2 ^ 32"

text \<open>Difficulty bits that \<open>CheckProofOfWork\<close> may accept.\<close>

definition bits_ok :: "Params \<Rightarrow> u32 \<Rightarrow> bool" where
  "bits_ok params c \<longleftrightarrow> \<not> cr_fNegative (SetCompact c) \<and> \<not> cr_fOverflow (SetCompact c) \<and> target c \<le> le_val (powLimit params)"

lemma bits_okI: "\<not> cr_fNegative (SetCompact c) \<Longrightarrow> target c < 2 ^ 256 \<Longrightarrow> target c \<le> le_val (powLimit params) \<Longrightarrow> bits_ok params c"
  by (simp only: bits_ok_def SetCompact_flags(1) target_def not_le simp_thms)

lemma le_val_256: "length b = 32 \<Longrightarrow> lval (UintToArith256 b) = le_val b"
  by (rule UintToArith256_val)

lemma limit_bits_ok:
  assumes "length b = 32" "le_val b \<le> le_val (powLimit params)"
  shows "\<exists>c. GetCompact (UintToArith256 b) False = Some c \<and> bits_ok params c"
proof -
  obtain c where c: "GetCompact (UintToArith256 b) False = Some c" using GetCompact_total [OF UintToArith256_ok] by blast
  note t = target_le_of_GetCompact [OF UintToArith256_ok c]
  have "target c \<le> le_val (powLimit params)" using t(1) assms by (simp add: le_val_256)
  then show ?thesis using c bits_okI [OF t(3,2)] by blast
qed

lemma retarget_bits_ok:
  assumes "params_ok params" "uint_ok bn" "0 < intended" "intended < 2 ^ 64"
  shows "\<exists>c. retarget bn actual intended (UintToArith256 (powLimit params)) = Some c \<and> bits_ok params c"
proof -
  have "intended mod 2 ^ 64 \<noteq> 0" using assms(3,4) by (simp only: mod_pos_pos_trivial order_less_imp_le)
  then obtain c where c: "retarget bn actual intended (UintToArith256 (powLimit params)) = Some c"
    "target c \<le> lval (UintToArith256 (powLimit params))" "target c < 2 ^ 256" "\<not> cr_fNegative (SetCompact c)"
    using retarget_limit [OF assms(2) UintToArith256_ok] by blast
  have "target c \<le> le_val (powLimit params)" using c(2) assms(1) by (simp add: le_val_256 params_ok_def)
  then show ?thesis using c(1) bits_okI [OF c(4,3)] by blast
qed

lemma min_difficulty_bits_ok:
  assumes "index_ok s V" "p \<in> V" "\<And>q. q \<in> V \<Longrightarrow> bits_ok params (bi_nBits (s q))" "bits_ok params lim"
  shows "\<exists>c. min_difficulty_bits s params t p lim = Some c \<and> bits_ok params c"
proof -
  obtain q where "q \<in> V" "last_non_special (bi_nHeight (s p) + 1) s params lim p = Some q"
    using last_non_special_total [OF assms(1,2), of "bi_nHeight (s p) + 1"] by auto
  then show ?thesis using assms(3,4) by (simp add: min_difficulty_bits_def)
qed

lemma DarkGravityWave_bits_ok:
  assumes par: "params_ok params" and ok: "index_ok s V" "p \<in> V" "\<And>q. q \<in> V \<Longrightarrow> bits_ok params (bi_nBits (s q))"
  shows "\<exists>c. DarkGravityWave s p t params kaw = Some c \<and> bits_ok params c"
proof -
  obtain lim where lim: "GetCompact (UintToArith256 (powLimit params)) False = Some lim" "bits_ok params lim"
    using limit_bits_ok [of "powLimit params" params] par by (auto simp: params_ok_def)
  obtain kl where kl: "GetCompact (UintToArith256 (kawpowLimit params)) False = Some kl" "bits_ok params kl"
    using limit_bits_ok [of "kawpowLimit params" params] par by (auto simp: params_ok_def)
  consider "bi_nHeight (s p) < nPastBlocks"
    | "\<not> bi_nHeight (s p) < nPastBlocks" "fPowAllowMinDifficultyBlocks params \<and> fPowNoRetargeting params"
    | "\<not> bi_nHeight (s p) < nPastBlocks" "\<not> (fPowAllowMinDifficultyBlocks params \<and> fPowNoRetargeting params)" by blast
  then show ?thesis
  proof cases
    case 2
    then show ?thesis using min_difficulty_bits_ok [OF ok lim(2)] lim(1) by (simp add: DarkGravityWave_def Let_def)
  next
    case 3
    obtain q avg k where q: "dgw_loop s kaw nPastBlocks 1 (p, uint_zero, 0) = Some (q, avg, k)" "uint_ok avg"
      using dgw_loop_total [OF ok(1,2) lval_zero(2), of 1 nPastBlocks kaw 0] 3(1) by auto
    have sp: "0 < int nPastBlocks * nPowTargetSpacing params" "int nPastBlocks * nPowTargetSpacing params < 2 ^ 64"
      using par by (simp_all add: nPastBlocks_def params_ok_def)
    show ?thesis using retarget_bits_ok [OF par q(2) sp] 3 q(1) lim(1) kl
      by (simp add: DarkGravityWave_def Let_def del: One_nat_def de_Morgan_conj)
  qed (use lim in \<open>simp add: DarkGravityWave_def Let_def\<close>)
qed


lemma CalculateNextWorkRequired_bits_ok:
  assumes par: "params_ok params" and p: "bits_ok params (bi_nBits (s p))"
  shows "\<exists>c. CalculateNextWorkRequired s p t params = Some c \<and> bits_ok params c"
proof -
  have "0 < nPowTargetTimespan params" "nPowTargetTimespan params < 2 ^ 64" using par by (auto simp: params_ok_def)
  then show ?thesis
    using retarget_bits_ok [OF par SetCompact_value(2)] p by (simp add: CalculateNextWorkRequired_def)
qed

lemma adjustment_interval_pos: "params_ok params \<Longrightarrow> 0 < DifficultyAdjustmentInterval params"
  by (simp add: params_ok_def DifficultyAdjustmentInterval_def pos_imp_zdiv_pos_iff)

lemma GetNextWorkRequiredBTC_bits_ok:
  assumes par: "params_ok params" and ok: "index_ok s V" "p \<in> V" "\<And>q. q \<in> V \<Longrightarrow> bits_ok params (bi_nBits (s q))"
  shows "\<exists>c. GetNextWorkRequiredBTC s p t params = Some c \<and> bits_ok params c"
proof -
  let ?i = "DifficultyAdjustmentInterval params" and ?h = "bi_nHeight (s p)"
  obtain lim where lim: "GetCompact (UintToArith256 (powLimit params)) False = Some lim" "bits_ok params lim"
    using limit_bits_ok [of "powLimit params" params] par by (auto simp: params_ok_def)
  show ?thesis
  proof (cases "int (?h + 1) mod ?i = 0")
    case True
    have i: "0 < ?i" by (rule adjustment_interval_pos [OF par])
    have "?i dvd int (?h + 1)" using True by (simp only: dvd_eq_mod_eq_0)
    then have "?i \<le> int (?h + 1)" by (intro zdvd_imp_le) simp_all
    then have h: "0 \<le> int ?h - (?i - 1)" "int ?h - (?i - 1) \<le> int ?h" using i by simp_all
    obtain q where "prev_n (?h - nat (int ?h - (?i - 1))) s p = Some q"
      using prev_n_Some [OF ok(1,2), of "?h - nat (int ?h - (?i - 1))"] by auto
    then have "GetAncestor s p (int ?h - (?i - 1)) = Some (Some q)"
      using GetAncestor_prev_n [OF ok(1,2)] h by simp
    then show ?thesis
      using CalculateNextWorkRequired_bits_ok [OF par, of s p] ok(3) [OF ok(2)] lim h True
      by (simp add: GetNextWorkRequiredBTC_def Let_def)
  next
    case False
    then show ?thesis
      using min_difficulty_bits_ok [OF ok lim(2)] ok(3) [OF ok(2)] lim(1) by (simp add: GetNextWorkRequiredBTC_def)
  qed
qed

section \<open>A steady chain\<close>

lemma dgw_step_steady:
  assumes avg: "uint_ok avg" and p: "target (bi_nBits (s p)) = T" "\<not> cr_fOverflow (SetCompact (bi_nBits (s p)))"
    and T: "T < 2 ^ 248" and c: "0 < c" "c \<le> nPastBlocks" "c \<noteq> 1 \<Longrightarrow> lval avg = T"
    and q: "prev_n (if c = nPastBlocks then 0 else 1) s p = Some q" and kaw: "kaw \<le> bi_nTime (s p)"
  shows "\<exists>avg'. dgw_step s kaw c (p, avg, k) = Some (q, avg', k + 1) \<and> uint_ok avg' \<and> lval avg' = T"
proof -
  let ?t = "cr_value (SetCompact (bi_nBits (s p)))"
  let ?n = "uint_add (uint_mul32 avg (word_of_nat c)) ?t" and ?d = "uint_of_u64 (word_of_nat (c + 1))"
  have t: "uint_ok ?t" "lval ?t = T" using SetCompact_value(2) SetCompact_target [OF p(2)] p(1) by auto
  have w: "unat (word_of_nat (c + 1) :: u64) = c + 1" "unat (word_of_nat c :: u32) = c" by (rule unat_count [OF c(2)])+
  have d: "uint_ok ?d" "lval ?d = c + 1" by (simp_all only: lval_of_u64 w)
  have "\<exists>a. (if c = 1 then Some ?t else uint_div ?n ?d) = Some a \<and> uint_ok a \<and> lval a = T"
  proof (cases "c = 1")
    case False
    have "T * (c + 1) \<le> T * 2 ^ 8" using c by (intro mult_le_mono) (simp_all add: nPastBlocks_def)
    also have "\<dots> < 2 ^ 248 * 2 ^ 8" using T by (intro mult_strict_right_mono) simp_all
    finally have lt: "T * (c + 1) < 2 ^ 256" by (simp only: power_add [symmetric]) simp
    have m: "uint_ok (uint_mul32 avg (word_of_nat c))" "lval (uint_mul32 avg (word_of_nat c)) = T * c mod 2 ^ 256"
      using lval_mul32 [OF avg, of "word_of_nat c"] c(3) [OF False] by (simp_all only: w(2))
    have "T * c mod 2 ^ 256 = T * c" by (rule mod_less) (rule le_less_trans [OF _ lt], simp)
    then have n: "uint_ok ?n" "lval ?n = T * (c + 1)"
      using lval_add [OF m(1) t(1)] m(2) t(2) lt by (simp_all only: distrib_left mult_1_right mod_less)
    obtain x where x: "uint_div ?n ?d = Some x" "uint_ok x" "lval x = lval ?n div lval ?d"
      using lval_div(2) [OF n(1) d(1)] d(2) by auto
    then have "lval x = T" unfolding n(2) d(2) using nonzero_mult_div_cancel_right [of "c + 1" T] by simp
    then show ?thesis using x False by simp
  qed (use t in simp)
  then obtain a where a: "(if c = 1 then Some ?t else uint_div ?n ?d) = Some a" "uint_ok a" "lval a = T" by blast
  then show ?thesis using dgw_step_eq [of c s p avg a kaw k, OF a(1)] q kaw by simp
qed

lemma dgw_loop_steady:
  assumes T: "T < 2 ^ 248"
  shows "uint_ok avg \<Longrightarrow> (c \<noteq> 1 \<Longrightarrow> lval avg = T) \<Longrightarrow> 0 < c \<Longrightarrow> Suc n + c = nPastBlocks + 1 \<Longrightarrow> prev_n n s p = Some q \<Longrightarrow>
    (\<And>m x. m \<le> n \<Longrightarrow> prev_n m s p = Some x \<Longrightarrow>
       target (bi_nBits (s x)) = T \<and> \<not> cr_fOverflow (SetCompact (bi_nBits (s x))) \<and> kaw \<le> bi_nTime (s x)) \<Longrightarrow>
    \<exists>avg'. dgw_loop s kaw (Suc n) c (p, avg, k) = Some (q, avg', k + Suc n) \<and> uint_ok avg' \<and> lval avg' = T"
proof (induction n arbitrary: p avg c k)
  case 0
  have c: "c = nPastBlocks" using 0(4) by simp
  obtain avg' where "dgw_step s kaw c (p, avg, k) = Some (q, avg', k + 1)" "uint_ok avg'" "lval avg' = T"
    using dgw_step_steady [OF 0(1) _ _ T 0(3) _ 0(2), of s p q kaw k] 0(6) [of 0 p] 0(5) c by auto
  then show ?case by simp
next
  case (Suc n)
  obtain r where r: "bi_pprev (s p) = Some r" "prev_n n s r = Some q" using Suc.prems(5) by (auto split: option.splits)
  have c: "c \<noteq> nPastBlocks" "c \<le> nPastBlocks" using Suc.prems(4) by auto
  have pr: "prev_n (if c = nPastBlocks then 0 else 1) s p = Some r" using c(1) r(1) by simp
  obtain avg' where st: "dgw_step s kaw c (p, avg, k) = Some (r, avg', k + 1)" "uint_ok avg'" "lval avg' = T"
    using dgw_step_steady [OF Suc.prems(1) _ _ T Suc.prems(3) c(2) Suc.prems(2) pr, of kaw k] Suc.prems(6) [of 0 p] by auto
  have "target (bi_nBits (s x)) = T \<and> \<not> cr_fOverflow (SetCompact (bi_nBits (s x))) \<and> kaw \<le> bi_nTime (s x)"
    if "m \<le> n" "prev_n m s r = Some x" for m x
    using Suc.prems(6) [of "Suc m" x] that r(1) by simp
  then have "\<exists>avg''. dgw_loop s kaw (Suc n) (c + 1) (r, avg', k + 1) = Some (q, avg'', k + Suc (Suc n)) \<and> uint_ok avg'' \<and> lval avg'' = T"
    using Suc.IH [OF st(2), of "c + 1" r "k + 1"] st(3) Suc.prems(4) r(2) by simp
  then show ?case by (subst dgw_loop.simps(2)) (simp only: st(1) Option.bind.simps)
qed

text \<open>
  The last 180 blocks up to \<open>p\<close> have the target \<open>T\<close>; the oldest of them is \<open>q\<close>.
\<close>

definition steady :: "store \<Rightarrow> u32 \<Rightarrow> nat \<Rightarrow> ptr \<Rightarrow> ptr \<Rightarrow> bool" where
  "steady s kaw T p q \<longleftrightarrow> bi_nHeight (s p) \<ge> nPastBlocks \<and> prev_n (nPastBlocks - 1) s p = Some q
     \<and> (\<forall>m<nPastBlocks. \<forall>x. prev_n m s p = Some x \<longrightarrow>
          target (bi_nBits (s x)) = T \<and> \<not> cr_fOverflow (SetCompact (bi_nBits (s x))) \<and> kaw \<le> bi_nTime (s x))"

lemma DarkGravityWave_steady_value:
  assumes par: "params_ok params" "\<not> (fPowAllowMinDifficultyBlocks params \<and> fPowNoRetargeting params)"
    and st: "steady s kaw T p q" and T: "T < 2 ^ 248"
  shows "\<exists>m. DarkGravityWave s p t params kaw = GetCompact m False \<and> uint_ok m \<and>
    lval m = retarget_value T
      (clamp (60 * nPowTargetSpacing params) (540 * nPowTargetSpacing params) (GetBlockTime s p - GetBlockTime s q))
      (180 * nPowTargetSpacing params) (le_val (powLimit params))"
proof -
  have n: "nPastBlocks = Suc 179" "nPastBlocks - 1 = 179" by (simp_all add: nPastBlocks_def)
  obtain avg where avg: "dgw_loop s kaw (Suc 179) 1 (p, uint_zero, 0) = Some (q, avg, 0 + Suc 179)" "uint_ok avg" "lval avg = T"
    using dgw_loop_steady [OF T lval_zero(2), of 1 179 s p q kaw 0] st by (auto simp: steady_def n simp flip: less_Suc_eq_le)
  obtain lim where lim: "GetCompact (UintToArith256 (powLimit params)) False = Some lim"
    using GetCompact_total [OF UintToArith256_ok] by blast
  let ?sp = "nPowTargetSpacing params"
  let ?c = "clamp (60 * ?sp) (540 * ?sp) (GetBlockTime s p - GetBlockTime s q)"
  have sp: "int nPastBlocks * ?sp = 180 * ?sp" "180 * ?sp div 3 = 60 * ?sp" "180 * ?sp * 3 = 540 * ?sp" by (simp_all add: nPastBlocks_def)
  have "DarkGravityWave s p t params kaw = retarget avg ?c (180 * ?sp) (UintToArith256 (powLimit params))"
    using avg(1) par(2) lim st by (simp add: DarkGravityWave_def Let_def steady_def sp del: de_Morgan_conj) (simp add: n)
  moreover have "180 * ?sp mod 2 ^ 64 \<noteq> 0"
    using par(1) by (subst mod_pos_pos_trivial) (auto simp: params_ok_def)
  ultimately show ?thesis
    using retarget_compact [OF avg(2) UintToArith256_ok, of "180 * ?sp" ?c "powLimit params"] avg(3) par(1)
    by (simp add: le_val_256 params_ok_def)
qed


section \<open>Properties\<close>

text \<open>The parameters of the main network.\<close>

definition main_params :: Params where
  "main_params = \<lparr>powLimit = replicate 31 0xff @ [0], kawpowLimit = replicate 31 0xff @ [0],
     fPowAllowMinDifficultyBlocks = False, fPowNoRetargeting = False, nPowTargetSpacing = 60, nPowTargetTimespan = 120960\<rparr>"

lemma le_val_replicate_ff: "le_val (replicate n 0xff :: bytes) + 1 = 256 ^ n"
  by (induction n) simp_all

lemma main_limit: "le_val (powLimit main_params) = 2 ^ 248 - 1" "le_val (kawpowLimit main_params) = 2 ^ 248 - 1"
  using le_val_replicate_ff [of 31] by (simp_all only: main_params_def Params.simps le_val_append) simp_all

lemma main_params_ok: "params_ok main_params"
  using main_limit by (simp only: params_ok_def) (simp add: main_params_def)

lemma demo_bits: "target 0x1e00ffff = 65535 * 256 ^ 27" "\<not> cr_fNegative (SetCompact 0x1e00ffff)"
  by (simp_all add: target_def compact_value_def compact_size_def compact_mantissa_def unsigned_drop_bit_eq drop_bit_eq_div)
     (rule SetCompact_flags(2), simp)

lemma demo_bits_ok: "bits_ok main_params 0x1e00ffff"
  by (rule bits_okI [OF demo_bits(2)]) (simp_all only: main_limit demo_bits(1), simp_all)

text \<open>C33: A block hash passes the proof of work exactly when the difficulty bits decode to a positive target of at most
  256 bits below the limit of the network and the hash, read as a number, is at most that target.\<close>

theorem CheckProofOfWork_correct:
  assumes "length hash = 32" and "length (powLimit params) = 32"
  shows "CheckProofOfWork hash nBits params \<longleftrightarrow>
    target_valid nBits \<and> target nBits \<le> le_val (powLimit params) \<and> le_val hash \<le> target nBits"
  using assms by (rule CheckProofOfWork_val)

theorem CheckProofOfWork_correct_witness:
  "CheckProofOfWork (replicate 28 0xff @ replicate 4 0) 0x1e00ffff main_params \<longleftrightarrow>
    target_valid 0x1e00ffff \<and> target 0x1e00ffff \<le> le_val (powLimit main_params)
    \<and> le_val (replicate 28 0xff @ replicate 4 0 :: bytes) \<le> target 0x1e00ffff"
  by (rule CheckProofOfWork_correct) (simp_all add: main_params_def)

text \<open>C32: The next difficulty is always defined and in range. Over a well-formed index whose blocks have difficulty bits in
  range, \<open>GetNextWorkRequired\<close> returns for every block: no assertion fails, no division is by zero, the walk over
  blocks of minimal difficulty ends; and the bits it returns are neither negative nor overflowing and decode to at most
  the limit, whichever of the two rules is active.\<close>

theorem GetNextWorkRequired_in_range:
  assumes "params_ok params" and "index_ok s V" and "p \<in> V" and "\<And>q. q \<in> V \<Longrightarrow> bits_ok params (bi_nBits (s q))"
  shows "\<exists>c. GetNextWorkRequired s p pblock_nTime params nKAWPOWActivationTime nDGWActivationBlock = Some c \<and> bits_ok params c"
  using DarkGravityWave_bits_ok [OF assms] GetNextWorkRequiredBTC_bits_ok [OF assms] by (simp add: GetNextWorkRequired_def)

theorem GetNextWorkRequired_in_range_witness:
  "\<exists>c. GetNextWorkRequired demo_store 3 2000 main_params 1617120000 1 = Some c \<and> bits_ok main_params c"
  by (rule GetNextWorkRequired_in_range [OF main_params_ok demo_index_ok])
     (simp_all only: demo_store_def CBlockIndex.simps demo_bits_ok, simp)

text \<open>Retargeting at the end of an interval is exact where 256 bits are enough: the new target is the old one scaled
  by the time the interval took over the intended time, that time clamped to a factor of four, at most the limit, and
  rounded down to the 24 bits of the compact form.\<close>

theorem CalculateNextWorkRequired_exact:
  assumes "params_ok params" and "\<not> fPowNoRetargeting params" and "bits_ok params (bi_nBits (s p))"
    and "span = clamp (nPowTargetTimespan params div 4) (nPowTargetTimespan params * 4) (GetBlockTime s p - nFirstBlockTime)"
    and "target (bi_nBits (s p)) * nat span < 2 ^ 256"
    and "v = min (le_val (powLimit params)) (target (bi_nBits (s p)) * nat span div nat (nPowTargetTimespan params))"
  shows "\<exists>c. CalculateNextWorkRequired s p nFirstBlockTime params = Some c
    \<and> target c \<le> v \<and> v < target c + 256 ^ (compact_size c - 3)"
proof -
  let ?t = "nPowTargetTimespan params" and ?v = "cr_value (SetCompact (bi_nBits (s p)))"
  have t: "0 < ?t" "4 * ?t < 2 ^ 32" using assms(1) by (auto simp: params_ok_def)
  then have m: "?t mod 2 ^ 64 = ?t" "?t mod 2 ^ 64 \<noteq> 0" by (subst mod_pos_pos_trivial, simp_all)+
  have "0 \<le> span" "span < 2 ^ 32" using t assms(4) by (auto simp: clamp_def Let_def)
  then have sp: "span mod 2 ^ 32 = span" by (rule mod_pos_pos_trivial)
  have ov: "\<not> cr_fOverflow (SetCompact (bi_nBits (s p)))" using assms(3) by (simp add: bits_ok_def)
  obtain x where x: "retarget ?v span ?t (UintToArith256 (powLimit params)) = GetCompact x False" "uint_ok x"
    "lval x = retarget_value (lval ?v) span ?t (lval (UintToArith256 (powLimit params)))"
    using retarget_compact [OF SetCompact_value(2) UintToArith256_ok m(2)] by blast
  have "lval x = v"
    using x(3) SetCompact_target [OF ov] assms(1,5,6)
    by (simp only: retarget_value_def sp m(1) mod_less le_val_256 params_ok_def)
  moreover obtain c where c: "GetCompact x False = Some c" using GetCompact_total [OF x(2)] by blast
  ultimately show ?thesis
    using target_le_of_GetCompact [OF x(2) c] x(1) c assms(2,4) by (simp add: CalculateNextWorkRequired_def)
qed

theorem CalculateNextWorkRequired_exact_witness:
  "\<exists>c. CalculateNextWorkRequired demo_store 3 1000 main_params = Some c
    \<and> target c \<le> 65535 * 256 ^ 27 div 4 \<and> 65535 * 256 ^ 27 div 4 < target c + 256 ^ (compact_size c - 3)"
proof -
  have d: "bi_nBits (demo_store 3) = 0x1e00ffff" "GetBlockTime demo_store 3 = 1180"
    by (simp_all add: demo_store_def GetBlockTime_def)
  have p: "nPowTargetTimespan main_params = 120960" "\<not> fPowNoRetargeting main_params" by (simp_all add: main_params_def)
  have "\<exists>c. CalculateNextWorkRequired demo_store 3 1000 main_params = Some c
      \<and> target c \<le> 65535 * 256 ^ 27 * 30240 div 120960
      \<and> 65535 * 256 ^ 27 * 30240 div 120960 < target c + 256 ^ (compact_size c - 3)"
  proof (rule CalculateNextWorkRequired_exact [OF main_params_ok p(2)])
    show "(30240 :: int) = clamp (nPowTargetTimespan main_params div 4) (nPowTargetTimespan main_params * 4)
        (GetBlockTime demo_store 3 - 1000)" unfolding p(1) d(2) by (simp add: clamp_def)
    show "bits_ok main_params (bi_nBits (demo_store 3))" unfolding d(1) by (rule demo_bits_ok)
    show "target (bi_nBits (demo_store 3)) * nat 30240 < 2 ^ 256" unfolding d(1) demo_bits(1) by simp
    show "65535 * 256 ^ 27 * 30240 div 120960 =
        min (le_val (powLimit main_params))
          (target (bi_nBits (demo_store 3)) * nat 30240 div nat (nPowTargetTimespan main_params))"
      unfolding d(1) demo_bits(1) p(1) main_limit by simp
  qed
  then show ?thesis by simp
qed

text \<open>A chain with one block a minute, all with the same difficulty bits. The bits \<open>0x20008000\<close> are the target
  \<open>2 ^ 247\<close>, half the limit of the main network.\<close>

definition minute_store :: "u32 \<Rightarrow> store" where
  "minute_store b p =
     \<lparr>bi_phashBlock = [], bi_pprev = (if p = 0 then None else Some (p - 1)), bi_pskip = None, bi_nHeight = p,
      bi_nChainWork = uint_zero, bi_nVersion = 0x20000000, bi_nTime = word_of_nat (1617120000 + 60 * p), bi_nBits = b,
      bi_nTimeMax = word_of_nat (1617120000 + 60 * p)\<rparr>"

lemma prev_n_minute: "m \<le> p \<Longrightarrow> prev_n m (minute_store b) p = Some (p - m)"
proof (induction m arbitrary: p)
  case (Suc m)
  then have "bi_pprev (minute_store b p) = Some (p - 1)" by (simp add: minute_store_def)
  then show ?case using Suc.IH [of "p - 1"] Suc.prems by simp
qed simp

lemma minute_bits: "target 0x20008000 = 2 ^ 247" "\<not> cr_fNegative (SetCompact 0x20008000)"
  by (simp_all add: target_def compact_value_def compact_size_def compact_mantissa_def unsigned_drop_bit_eq drop_bit_eq_div)
     (rule SetCompact_flags(2), simp)

lemma unat_minute: "x \<le> 180 \<Longrightarrow> unat (word_of_nat (1617120000 + 60 * x) :: u32) = 1617120000 + 60 * x"
  by (simp only: unsigned_of_nat take_bit_eq_mod) simp

lemma minute_span: "GetBlockTime (minute_store b) 180 - GetBlockTime (minute_store b) 1 = 10740"
  by (simp add: minute_store_def GetBlockTime_def)

lemma minute_steady:
  assumes "target b < 2 ^ 256"
  shows "steady (minute_store b) 1617120000 (target b) 180 1"
proof -
  have n: "nPastBlocks = 180" by (simp add: nPastBlocks_def)
  have "1617120000 \<le> bi_nTime (minute_store b x)" if "x \<le> 180" for x
    using that unat_minute by (simp add: minute_store_def word_le_nat_alt del: of_nat_add of_nat_mult)
  moreover have "bi_nBits (minute_store b x) = b" "bi_nHeight (minute_store b x) = x" for x
    by (simp_all add: minute_store_def)
  moreover have "\<not> cr_fOverflow (SetCompact b)"
    using assms by (simp only: SetCompact_flags(1) target_def not_le)
  ultimately show ?thesis by (auto simp: steady_def n prev_n_minute)
qed

text \<open>The moving average is exact where 256 bits are enough. When the last 180 blocks all have the target \<open>T\<close>, the
  average is \<open>T\<close> and the required target is \<open>T\<close> scaled by the time these blocks took over 180 intended spacings, that
  time clamped to a factor of three, at most the limit, rounded down to the compact form.\<close>

theorem DarkGravityWave_steady:
  assumes "params_ok params" and "\<not> (fPowAllowMinDifficultyBlocks params \<and> fPowNoRetargeting params)"
    and "steady s kaw T p q" and "T < 2 ^ 248"
    and "span = clamp (60 * nPowTargetSpacing params) (540 * nPowTargetSpacing params) (GetBlockTime s p - GetBlockTime s q)"
    and "T * nat span < 2 ^ 256"
    and "v = min (le_val (powLimit params)) (T * nat span div nat (180 * nPowTargetSpacing params))"
  shows "\<exists>c. DarkGravityWave s p t params kaw = Some c \<and> target c \<le> v \<and> v < target c + 256 ^ (compact_size c - 3)"
proof -
  let ?sp = "nPowTargetSpacing params"
  have pos: "0 < ?sp" "540 * ?sp < 2 ^ 32" using assms(1) by (auto simp: params_ok_def)
  then have "180 * ?sp mod 2 ^ 64 = 180 * ?sp" by (intro mod_pos_pos_trivial) simp_all
  moreover have "span mod 2 ^ 32 = span"
    using pos assms(5) by (intro mod_pos_pos_trivial) (auto simp: clamp_def Let_def)
  moreover obtain m where m: "DarkGravityWave s p t params kaw = GetCompact m False" "uint_ok m"
    "lval m = retarget_value T span (180 * ?sp) (le_val (powLimit params))"
    using DarkGravityWave_steady_value [OF assms(1-4)] assms(5) by blast
  ultimately have "lval m = v" using assms(6,7) by (simp only: retarget_value_def mod_less)
  moreover obtain c where c: "GetCompact m False = Some c" using GetCompact_total [OF m(2)] by blast
  ultimately show ?thesis using target_le_of_GetCompact [OF m(2) c] m(1) c by simp
qed

theorem DarkGravityWave_steady_witness:
  "\<exists>c. DarkGravityWave (minute_store 0x1e00ffff) 180 2000000000 main_params 1617120000 = Some c
     \<and> target c \<le> 65535 * 256 ^ 27 * 10740 div 10800
     \<and> 65535 * 256 ^ 27 * 10740 div 10800 < target c + 256 ^ (compact_size c - 3)"
proof (rule DarkGravityWave_steady [OF main_params_ok])
  show "\<not> (fPowAllowMinDifficultyBlocks main_params \<and> fPowNoRetargeting main_params)" by (simp add: main_params_def)
  show "steady (minute_store 0x1e00ffff) 1617120000 (65535 * 256 ^ 27) 180 1"
    using minute_steady [of "0x1e00ffff"] unfolding demo_bits(1) by simp
  show "(10740 :: int) = clamp (60 * nPowTargetSpacing main_params) (540 * nPowTargetSpacing main_params)
      (GetBlockTime (minute_store 0x1e00ffff) 180 - GetBlockTime (minute_store 0x1e00ffff) 1)"
    unfolding minute_span by (simp add: clamp_def main_params_def)
  show "65535 * 256 ^ 27 * 10740 div 10800 = min (le_val (powLimit main_params))
      (65535 * 256 ^ 27 * nat 10740 div nat (180 * nPowTargetSpacing main_params))"
    unfolding main_limit by (simp add: main_params_def)
qed simp_all

text \<open>C34: Near the limit of the main network the multiplication of the moving average leaves 256 bits and the difficulty
  jumps. On a chain with one block a minute, as intended, and a target of half the limit, the required target falls to
  less than a twentieth, where the exact one would be \<open>179 / 180\<close> of it and below the limit.\<close>

theorem DarkGravityWave_overflow:
  "\<exists>c. DarkGravityWave (minute_store 0x20008000) 180 t main_params 1617120000 = Some c \<and> 20 * target c < target 0x20008000
     \<and> target 0x20008000 < le_val (powLimit main_params)"
proof -
  have p: "nPowTargetSpacing main_params = 60" "\<not> fPowAllowMinDifficultyBlocks main_params" by (simp_all add: main_params_def)
  have "target 0x20008000 < 2 ^ 256" unfolding minute_bits(1) by simp
  note st = minute_steady [OF this, unfolded minute_bits(1)]
  obtain m where m: "DarkGravityWave (minute_store 0x20008000) 180 t main_params 1617120000 = GetCompact m False" "uint_ok m"
    "lval m = retarget_value (2 ^ 247) (clamp 3600 32400 10740) 10800 (2 ^ 248 - 1)"
    using DarkGravityWave_steady_value [OF main_params_ok _ st, of t] p unfolding minute_span main_limit by auto
  obtain c where c: "GetCompact m False = Some c" using GetCompact_total [OF m(2)] by blast
  have "retarget_value (2 ^ 247) (clamp 3600 32400 10740) 10800 (2 ^ 248 - 1) * 20 < 2 ^ 247"
    by (simp add: retarget_value_def clamp_def)
  then have "20 * target c < target 0x20008000"
    using target_le_of_GetCompact(1) [OF m(2) c] m(3) unfolding minute_bits(1) by linarith
  moreover have "target 0x20008000 < le_val (powLimit main_params)" unfolding minute_bits(1) main_limit by simp
  ultimately show ?thesis using m(1) c by simp
qed

end
