(* ===== verification/VersionBits.thy ===== *)
theory VersionBits
  imports Chain
begin

unbundle bit_operations_syntax

text \<open>
  The deployment of soft forks by version bits (\<open>src/src/versionbits.cpp\<close>, \<open>versionbits.h\<close>): the state of a deployment
  for the block after a given one, with the cache of the states at the ends of the periods, its statistics and the
  height it has been in a state since. The virtual functions of the abstract checker are the fields of a record; the
  checker for deployments fills it from the consensus parameters. A null pointer that is dereferenced, a failing
  assertion or too little fuel is \<^term>\<open>None\<close>.
\<close>

section \<open>Definitions\<close>

datatype ThresholdState = THRESHOLD_DEFINED | THRESHOLD_STARTED | THRESHOLD_LOCKED_IN | THRESHOLD_ACTIVE | THRESHOLD_FAILED

type_synonym cache = "ptr option \<rightharpoonup> ThresholdState"

record checker =
  ck_Condition :: "store \<Rightarrow> ptr \<Rightarrow> bool"
  ck_BeginTime :: int
  ck_EndTime :: int
  ck_Period :: int
  ck_Threshold :: int

record BIP9Stats =
  st_period :: int
  st_threshold :: int
  st_elapsed :: int
  st_count :: int
  st_possible :: bool

text \<open>The last block of the period before the one of the block after \<open>p\<close>.\<close>

definition period_end :: "store \<Rightarrow> int \<Rightarrow> ptr \<Rightarrow> ptr option option" where
  "period_end s nPeriod p = GetAncestor s p (int (bi_nHeight (s p)) - (int (bi_nHeight (s p)) + 1) mod nPeriod)"

text \<open>The walk backwards to a known state; the blocks to compute are pushed at the head of the list.\<close>

primrec find_known :: "nat \<Rightarrow> store \<Rightarrow> checker \<Rightarrow> cache \<Rightarrow> ptr option \<Rightarrow> ptr list \<Rightarrow> (cache \<times> ptr option \<times> ptr list) option" where
  "find_known 0 s ck cache pindexPrev vToCompute = None"
| "find_known (Suc fuel) s ck cache pindexPrev vToCompute =
     (if cache pindexPrev \<noteq> None then Some (cache, pindexPrev, vToCompute)
      else case pindexPrev of
             None \<Rightarrow> Some (cache(None \<mapsto> THRESHOLD_DEFINED), None, vToCompute)
           | Some p \<Rightarrow>
               if GetMedianTimePast s p < ck_BeginTime ck
               then Some (cache(Some p \<mapsto> THRESHOLD_DEFINED), Some p, vToCompute)
               else case GetAncestor s p (int (bi_nHeight (s p)) - ck_Period ck) of
                      None \<Rightarrow> None
                    | Some q \<Rightarrow> find_known fuel s ck cache q (p # vToCompute))"

primrec count_signals :: "nat \<Rightarrow> store \<Rightarrow> checker \<Rightarrow> ptr option \<Rightarrow> int \<Rightarrow> int option" where
  "count_signals 0 s ck pindexCount count = Some count"
| "count_signals (Suc n) s ck pindexCount count =
     (case pindexCount of
        None \<Rightarrow> None
      | Some p \<Rightarrow> count_signals n s ck (bi_pprev (s p)) (if ck_Condition ck s p then count + 1 else count))"

definition next_state :: "store \<Rightarrow> checker \<Rightarrow> ptr \<Rightarrow> ThresholdState \<Rightarrow> ThresholdState option" where
  "next_state s ck p state =
     (case state of
        THRESHOLD_DEFINED \<Rightarrow>
          Some (if GetMedianTimePast s p \<ge> ck_EndTime ck then THRESHOLD_FAILED
                else if GetMedianTimePast s p \<ge> ck_BeginTime ck then THRESHOLD_STARTED
                else state)
      | THRESHOLD_STARTED \<Rightarrow>
          if GetMedianTimePast s p \<ge> ck_EndTime ck then Some THRESHOLD_FAILED
          else map_option (\<lambda>count. if count \<ge> ck_Threshold ck then THRESHOLD_LOCKED_IN else state)
                 (count_signals (nat (ck_Period ck)) s ck (Some p) 0)
      | THRESHOLD_LOCKED_IN \<Rightarrow> Some THRESHOLD_ACTIVE
      | THRESHOLD_FAILED \<Rightarrow> Some state
      | THRESHOLD_ACTIVE \<Rightarrow> Some state)"

primrec compute_states :: "store \<Rightarrow> checker \<Rightarrow> ptr list \<Rightarrow> ThresholdState \<Rightarrow> cache \<Rightarrow> (ThresholdState \<times> cache) option" where
  "compute_states s ck [] state cache = Some (state, cache)"
| "compute_states s ck (p # vToCompute) state cache =
     (case next_state s ck p state of
        None \<Rightarrow> None
      | Some stateNext \<Rightarrow> compute_states s ck vToCompute stateNext (cache(Some p \<mapsto> stateNext)))"

definition GetStateFor :: "store \<Rightarrow> checker \<Rightarrow> ptr option \<Rightarrow> cache \<Rightarrow> (ThresholdState \<times> cache) option" where
  "GetStateFor s ck pindexPrev cache =
     (case (case pindexPrev of None \<Rightarrow> Some None | Some p \<Rightarrow> period_end s (ck_Period ck) p) of
        None \<Rightarrow> None
      | Some start \<Rightarrow>
          case find_known (case start of None \<Rightarrow> 1 | Some p \<Rightarrow> bi_nHeight (s p) + 2) s ck cache start [] of
            None \<Rightarrow> None
          | Some (cache', known, vToCompute) \<Rightarrow>
              (case cache' known of
                 None \<Rightarrow> None
               | Some state \<Rightarrow> compute_states s ck vToCompute state cache'))"

primrec count_back :: "nat \<Rightarrow> store \<Rightarrow> checker \<Rightarrow> nat \<Rightarrow> ptr option \<Rightarrow> int \<Rightarrow> int option" where
  "count_back 0 s ck stop currentIndex count = None"
| "count_back (Suc fuel) s ck stop currentIndex count =
     (case currentIndex of
        None \<Rightarrow> None
      | Some p \<Rightarrow>
          if stop \<noteq> bi_nHeight (s p)
          then count_back fuel s ck stop (bi_pprev (s p)) (if ck_Condition ck s p then count + 1 else count)
          else Some count)"

definition GetStateStatisticsFor :: "store \<Rightarrow> checker \<Rightarrow> ptr option \<Rightarrow> BIP9Stats option" where
  "GetStateStatisticsFor s ck pindex =
     (case pindex of
        None \<Rightarrow> Some \<lparr>st_period = ck_Period ck, st_threshold = ck_Threshold ck, st_elapsed = 0, st_count = 0, st_possible = False\<rparr>
      | Some p \<Rightarrow>
          case period_end s (ck_Period ck) p of
            Some (Some e) \<Rightarrow>
              let elapsed = int (bi_nHeight (s p)) - int (bi_nHeight (s e))
              in map_option
                   (\<lambda>count. \<lparr>st_period = ck_Period ck, st_threshold = ck_Threshold ck, st_elapsed = elapsed, st_count = count,
                      st_possible = (ck_Period ck - ck_Threshold ck \<ge> elapsed - count)\<rparr>)
                   (count_back (bi_nHeight (s p) + 1) s ck (bi_nHeight (s e)) (Some p) 0)
          | _ \<Rightarrow> None)"

primrec since_loop :: "nat \<Rightarrow> store \<Rightarrow> checker \<Rightarrow> ThresholdState \<Rightarrow> ptr \<Rightarrow> cache \<Rightarrow> (int \<times> cache) option" where
  "since_loop 0 s ck initialState p cache = None"
| "since_loop (Suc fuel) s ck initialState p cache =
     (case GetAncestor s p (int (bi_nHeight (s p)) - ck_Period ck) of
        None \<Rightarrow> None
      | Some None \<Rightarrow> Some (int (bi_nHeight (s p)) + 1, cache)
      | Some (Some previousPeriodParent) \<Rightarrow>
          case GetStateFor s ck (Some previousPeriodParent) cache of
            None \<Rightarrow> None
          | Some (state, cache') \<Rightarrow>
              if state = initialState then since_loop fuel s ck initialState previousPeriodParent cache'
              else Some (int (bi_nHeight (s p)) + 1, cache'))"

definition GetStateSinceHeightFor :: "store \<Rightarrow> checker \<Rightarrow> ptr option \<Rightarrow> cache \<Rightarrow> (int \<times> cache) option" where
  "GetStateSinceHeightFor s ck pindexPrev cache =
     (case GetStateFor s ck pindexPrev cache of
        None \<Rightarrow> None
      | Some (initialState, cache') \<Rightarrow>
          if initialState = THRESHOLD_DEFINED then Some (0, cache')
          else case pindexPrev of
                 None \<Rightarrow> None
               | Some p \<Rightarrow>
                   (case period_end s (ck_Period ck) p of
                      Some (Some e) \<Rightarrow> since_loop (bi_nHeight (s e) + 1) s ck initialState e cache'
                    | _ \<Rightarrow> None))"

section \<open>The checker for deployments\<close>

datatype DeploymentPos = DEPLOYMENT_TESTDUMMY | DEPLOYMENT_ASSETS | DEPLOYMENT_MSG_REST_ASSETS
  | DEPLOYMENT_TRANSFER_SCRIPT_SIZE | DEPLOYMENT_ENFORCE_VALUE | DEPLOYMENT_COINBASE_ASSETS

record BIP9Deployment =
  bd_bit :: nat
  bd_nStartTime :: int
  bd_nTimeout :: int
  bd_nOverrideMinerConfirmationWindow :: u32
  bd_nOverrideRuleChangeActivationThreshold :: u32

record vb_params =
  vDeployments :: "DeploymentPos \<Rightarrow> BIP9Deployment"
  nMinerConfirmationWindow :: u32
  nRuleChangeActivationThreshold :: u32

definition VersionBitsMask :: "vb_params \<Rightarrow> DeploymentPos \<Rightarrow> u32" where
  "VersionBitsMask params pos = push_bit (bd_bit (vDeployments params pos)) 1"

definition VersionBitsConditionChecker :: "vb_params \<Rightarrow> DeploymentPos \<Rightarrow> checker" where
  "VersionBitsConditionChecker params pos =
     (let d = vDeployments params pos in
      \<lparr>ck_Condition = (\<lambda>s p. bi_nVersion (s p) AND VersionBitsMask params pos \<noteq> 0),
       ck_BeginTime = bd_nStartTime d,
       ck_EndTime = bd_nTimeout d,
       ck_Period = sint (if bd_nOverrideMinerConfirmationWindow d > 0 then bd_nOverrideMinerConfirmationWindow d
                         else nMinerConfirmationWindow params),
       ck_Threshold = sint (if bd_nOverrideRuleChangeActivationThreshold d > 0 then bd_nOverrideRuleChangeActivationThreshold d
                            else nRuleChangeActivationThreshold params)\<rparr>)"

definition VersionBitsState :: "store \<Rightarrow> ptr option \<Rightarrow> vb_params \<Rightarrow> DeploymentPos \<Rightarrow> (DeploymentPos \<Rightarrow> cache)
    \<Rightarrow> (ThresholdState \<times> (DeploymentPos \<Rightarrow> cache)) option" where
  "VersionBitsState s pindexPrev params pos caches =
     map_option (\<lambda>(state, c). (state, caches(pos := c)))
       (GetStateFor s (VersionBitsConditionChecker params pos) pindexPrev (caches pos))"

definition VersionBitsStatistics :: "store \<Rightarrow> ptr option \<Rightarrow> vb_params \<Rightarrow> DeploymentPos \<Rightarrow> BIP9Stats option" where
  "VersionBitsStatistics s pindexPrev params pos = GetStateStatisticsFor s (VersionBitsConditionChecker params pos) pindexPrev"

definition VersionBitsStateSinceHeight :: "store \<Rightarrow> ptr option \<Rightarrow> vb_params \<Rightarrow> DeploymentPos \<Rightarrow> (DeploymentPos \<Rightarrow> cache)
    \<Rightarrow> (int \<times> (DeploymentPos \<Rightarrow> cache)) option" where
  "VersionBitsStateSinceHeight s pindexPrev params pos caches =
     map_option (\<lambda>(h, c). (h, caches(pos := c)))
       (GetStateSinceHeightFor s (VersionBitsConditionChecker params pos) pindexPrev (caches pos))"

definition VersionBitsCache_Clear :: "(DeploymentPos \<Rightarrow> cache) \<Rightarrow> (DeploymentPos \<Rightarrow> cache)" where
  "VersionBitsCache_Clear caches = (\<lambda>d. Map.empty)"

definition VERSIONBITS_TOP_BITS :: u32 where "VERSIONBITS_TOP_BITS = 0x20000000"
definition VERSIONBITS_TOP_BITS_ASSETS :: u32 where "VERSIONBITS_TOP_BITS_ASSETS = 0x30000000"

definition deployments :: "DeploymentPos list" where
  "deployments = [DEPLOYMENT_TESTDUMMY, DEPLOYMENT_ASSETS, DEPLOYMENT_MSG_REST_ASSETS,
     DEPLOYMENT_TRANSFER_SCRIPT_SIZE, DEPLOYMENT_ENFORCE_VALUE, DEPLOYMENT_COINBASE_ASSETS]"

primrec version_loop :: "store \<Rightarrow> ptr option \<Rightarrow> vb_params \<Rightarrow> DeploymentPos list \<Rightarrow> u32 \<Rightarrow> (DeploymentPos \<Rightarrow> cache)
    \<Rightarrow> (u32 \<times> (DeploymentPos \<Rightarrow> cache)) option" where
  "version_loop s pindexPrev params [] nVersion caches = Some (nVersion, caches)"
| "version_loop s pindexPrev params (i # is) nVersion caches =
     (case VersionBitsState s pindexPrev params i caches of
        None \<Rightarrow> None
      | Some (state, caches') \<Rightarrow>
          version_loop s pindexPrev params is
            (if state = THRESHOLD_LOCKED_IN \<or> state = THRESHOLD_STARTED then nVersion OR VersionBitsMask params i else nVersion)
            caches')"

definition ComputeBlockVersion :: "store \<Rightarrow> ptr option \<Rightarrow> vb_params \<Rightarrow> bool \<Rightarrow> (DeploymentPos \<Rightarrow> cache)
    \<Rightarrow> (u32 \<times> (DeploymentPos \<Rightarrow> cache)) option" where
  "ComputeBlockVersion s pindexPrev params AreAssetsDeployed caches =
     version_loop s pindexPrev params deployments
       (if AreAssetsDeployed then VERSIONBITS_TOP_BITS_ASSETS else VERSIONBITS_TOP_BITS) caches"


section \<open>The median time never decreases\<close>

definition median :: "int list \<Rightarrow> int" where
  "median ts = sort ts ! (length ts div 2)"

lemma sorted_nth_less_iff: "sorted zs \<Longrightarrow> k < length zs \<Longrightarrow> zs ! k < m \<longleftrightarrow> k < length (filter (\<lambda>z. z < m) zs)"
  for m :: int
proof (induction zs arbitrary: k)
  case (Cons z zs)
  show ?case
  proof (cases "z < m")
    case True
    then show ?thesis using Cons by (cases k) auto
  next
    case False
    then have "filter (\<lambda>z. z < m) (z # zs) = []" using Cons.prems(1) by (auto simp: filter_empty_conv)
    moreover have "\<not> (z # zs) ! k < m" using False Cons.prems nth_mem [of k "z # zs"] by fastforce
    ultimately show ?thesis by simp
  qed
qed simp

lemma median_less_iff: "ts \<noteq> [] \<Longrightarrow> median ts < m \<longleftrightarrow> length ts div 2 < length (filter (\<lambda>z. z < m) ts)"
proof -
  assume "ts \<noteq> []"
  then have "length ts div 2 < length (sort ts)" by (cases ts) auto
  then show ?thesis
    using sorted_nth_less_iff [of "sort ts"] by (simp add: median_def filter_sort)
qed

lemma median_append_mono:
  assumes "ts \<noteq> []" "median ts \<le> t" "length ts \<le> Suc n"
  shows "median ts \<le> median (t # take n ts)"
proof (rule ccontr)
  let ?m = "median ts" and ?ys = "t # take n ts"
  assume "\<not> ?m \<le> median ?ys"
  then have "length ?ys div 2 < length (filter (\<lambda>z. z < ?m) ?ys)" using median_less_iff [of ?ys ?m] by simp
  also have "\<dots> \<le> length (filter (\<lambda>z. z < ?m) ts)"
    using assms(2) filter_append [of "\<lambda>z. z < ?m" "take n ts" "drop n ts"] by simp
  also have "\<dots> \<le> length ts div 2" using median_less_iff [OF assms(1), of ?m] by simp
  finally show False using assms(3) by (simp add: min_def split: if_splits)
qed

lemma past_times_take: "n \<le> m \<Longrightarrow> past_times n s b = take n (past_times m s b)"
proof (induction n arbitrary: m b)
  case (Suc n)
  then obtain k where "m = Suc k" "n \<le> k" by (cases m) auto
  then show ?case using Suc.IH [of k] by (simp split: option.split)
qed simp

lemma past_times_step:
  assumes "bi_pprev (s p) = Some q"
  shows "past_times (Suc n) s (Some p) = GetBlockTime s p # take n (past_times (Suc n) s (Some q))"
  using past_times_take [of n "Suc n" s "Some q"] assms by simp

lemma length_past_times: "length (past_times n s b) \<le> n"
  by (induction n arbitrary: b) (simp_all split: option.split)

text \<open>The rule of \<open>ContextualCheckBlockHeader\<close>: the time of a block is later than the median time of its predecessor.\<close>

definition times_ok :: "store \<Rightarrow> ptr set \<Rightarrow> bool" where
  "times_ok s V \<longleftrightarrow> (\<forall>p\<in>V. \<forall>q. bi_pprev (s p) = Some q \<longrightarrow> GetMedianTimePast s q < GetBlockTime s p)"

lemma GetMedianTimePast_mono:
  assumes "times_ok s V" "p \<in> V" "bi_pprev (s p) = Some q"
  shows "GetMedianTimePast s q \<le> GetMedianTimePast s p"
proof -
  let ?ts = "past_times nMedianTimeSpan s (Some q)"
  have n: "nMedianTimeSpan = Suc 10" by (simp add: nMedianTimeSpan_def)
  have q: "GetMedianTimePast s q = median ?ts" by (simp add: GetMedianTimePast_def median_def Let_def)
  have ys: "past_times nMedianTimeSpan s (Some p) = GetBlockTime s p # take 10 ?ts"
    unfolding n by (rule past_times_step, rule assms(3))
  have "GetMedianTimePast s p = median (GetBlockTime s p # take 10 ?ts)"
    unfolding GetMedianTimePast_def median_def Let_def ys by simp
  moreover have "median ?ts \<le> GetBlockTime s p" using assms by (force simp: times_ok_def simp flip: q)
  moreover have "?ts \<noteq> []" unfolding n by (simp only: past_times.simps option.case) simp
  ultimately show ?thesis using median_append_mono [of ?ts "GetBlockTime s p" 10] length_past_times [of nMedianTimeSpan s "Some q"] n q
    by simp
qed

lemma GetMedianTimePast_prev_n:
  assumes "times_ok s V" "index_ok s V"
  shows "p \<in> V \<Longrightarrow> prev_n n s p = Some q \<Longrightarrow> GetMedianTimePast s q \<le> GetMedianTimePast s p"
proof (induction n arbitrary: p)
  case (Suc n)
  then obtain r where r: "bi_pprev (s p) = Some r" "prev_n n s r = Some q" by (auto split: option.splits)
  then show ?case
    using Suc.IH [of r] GetMedianTimePast_mono [OF assms(1) Suc.prems(1) r(1)] index_pprev(2) [OF assms(2) Suc.prems(1) r(1)]
    by simp
qed simp

section \<open>The states by definition\<close>

text \<open>The number of signalling blocks among the \<open>n\<close> blocks that end with \<open>p\<close>.\<close>

definition signals :: "store \<Rightarrow> checker \<Rightarrow> nat \<Rightarrow> ptr \<Rightarrow> nat" where
  "signals s ck n p = length (filter (\<lambda>i. case prev_n i s p of None \<Rightarrow> False | Some q \<Rightarrow> ck_Condition ck s q) [0..<n])"

text \<open>
  The state machine of version bits: what a period that ends with the block \<open>p\<close> makes of the state it had. The state
  after the \<open>n\<close>-th period follows from that after the one before it; before the first period it is
  \<^term>\<open>THRESHOLD_DEFINED\<close>.
\<close>

definition bip9_next :: "store \<Rightarrow> checker \<Rightarrow> ptr \<Rightarrow> ThresholdState \<Rightarrow> ThresholdState" where
  "bip9_next s ck p st =
     (let t = GetMedianTimePast s p in
      if st = THRESHOLD_LOCKED_IN then THRESHOLD_ACTIVE
      else if st = THRESHOLD_ACTIVE \<or> st = THRESHOLD_FAILED then st
      else if ck_EndTime ck \<le> t then THRESHOLD_FAILED
      else if st = THRESHOLD_DEFINED then (if ck_BeginTime ck \<le> t then THRESHOLD_STARTED else st)
      else if ck_Threshold ck \<le> int (signals s ck (nat (ck_Period ck)) p) then THRESHOLD_LOCKED_IN else st)"

primrec bip9_state :: "nat \<Rightarrow> store \<Rightarrow> checker \<Rightarrow> ptr option \<Rightarrow> ThresholdState" where
  "bip9_state 0 s ck b = THRESHOLD_DEFINED"
| "bip9_state (Suc n) s ck b =
     (case b of None \<Rightarrow> THRESHOLD_DEFINED
      | Some p \<Rightarrow> bip9_next s ck p (bip9_state n s ck (prev_n (nat (ck_Period ck)) s p)))"

definition deployment_state :: "store \<Rightarrow> checker \<Rightarrow> ptr option \<Rightarrow> ThresholdState" where
  "deployment_state s ck b =
     bip9_state (case b of None \<Rightarrow> 0 | Some p \<Rightarrow> (bi_nHeight (s p) + 1) div nat (ck_Period ck)) s ck b"

definition boundary :: "store \<Rightarrow> checker \<Rightarrow> ptr \<Rightarrow> bool" where
  "boundary s ck p \<longleftrightarrow> (bi_nHeight (s p) + 1) mod nat (ck_Period ck) = 0"

definition vb_ok :: "store \<Rightarrow> ptr set \<Rightarrow> checker \<Rightarrow> bool" where
  "vb_ok s V ck \<longleftrightarrow> index_ok s V \<and> times_ok s V \<and> 0 < ck_Period ck \<and> ck_BeginTime ck \<le> ck_EndTime ck"

definition cache_ok :: "store \<Rightarrow> ptr set \<Rightarrow> checker \<Rightarrow> cache \<Rightarrow> bool" where
  "cache_ok s V ck cache \<longleftrightarrow> (\<forall>b st. cache b = Some st \<longrightarrow>
     st = deployment_state s ck b \<and> (case b of None \<Rightarrow> True | Some p \<Rightarrow> p \<in> V \<and> boundary s ck p))"

lemma prev_n_None: "index_ok s V \<Longrightarrow> p \<in> V \<Longrightarrow> bi_nHeight (s p) < n \<Longrightarrow> prev_n n s p = None"
proof (induction n arbitrary: p)
  case (Suc n)
  then show ?case
  proof (cases "bi_pprev (s p)")
    case (Some q)
    then show ?thesis using Suc index_pprev(2) [OF Suc.prems(1,2) Some] by simp
  qed simp
qed simp

lemma boundary_prev:
  assumes ok: "vb_ok s V ck" "p \<in> V" "boundary s ck p" and q: "prev_n (nat (ck_Period ck)) s p = Some q"
  shows "q \<in> V" "boundary s ck q" "bi_nHeight (s q) + nat (ck_Period ck) = bi_nHeight (s p)"
proof -
  have "index_ok s V" using ok(1) by (simp add: vb_ok_def)
  from prev_n_in [OF this ok(2) q] show "q \<in> V" "bi_nHeight (s q) + nat (ck_Period ck) = bi_nHeight (s p)" by auto
  then have "bi_nHeight (s p) + 1 = bi_nHeight (s q) + 1 + nat (ck_Period ck)" by simp
  then show "boundary s ck q" using ok(3) by (simp only: boundary_def mod_add_self2)
qed

lemma deployment_state_None [simp]: "deployment_state s ck None = THRESHOLD_DEFINED"
  by (simp add: deployment_state_def)

lemma bip9_state_None: "bip9_state n s ck None = THRESHOLD_DEFINED"
  by (cases n) simp_all

lemma deployment_state_rec:
  assumes ok: "vb_ok s V ck" "p \<in> V" "boundary s ck p"
  shows "deployment_state s ck (Some p) = bip9_next s ck p (deployment_state s ck (prev_n (nat (ck_Period ck)) s p))"
proof -
  let ?P = "nat (ck_Period ck)" and ?h = "bi_nHeight (s p)"
  have P: "0 < ?P" using ok(1) by (simp add: vb_ok_def)
  have le: "?P \<le> ?h + 1" using ok(3) by (intro dvd_imp_le) (auto simp: boundary_def)
  then have d: "(?h + 1) div ?P = Suc ((?h + 1 - ?P) div ?P)" using P by (metis le_div_geq linorder_not_le)
  show ?thesis
  proof (cases "prev_n ?P s p")
    case None
    then show ?thesis by (simp only: deployment_state_def option.case d bip9_state.simps bip9_state_None)
  next
    case (Some q)
    then have "bi_nHeight (s q) + 1 = ?h + 1 - ?P" using boundary_prev(3) [OF ok Some] by simp
    then show ?thesis by (simp only: deployment_state_def option.case d bip9_state.simps Some)
  qed
qed


lemma deployment_before_start:
  assumes ok: "vb_ok s V ck"
  shows "p \<in> V \<Longrightarrow> boundary s ck p \<Longrightarrow> GetMedianTimePast s p < ck_BeginTime ck \<Longrightarrow> deployment_state s ck (Some p) = THRESHOLD_DEFINED"
proof (induction "bi_nHeight (s p)" arbitrary: p rule: less_induct)
  case less
  have "deployment_state s ck (prev_n (nat (ck_Period ck)) s p) = THRESHOLD_DEFINED"
  proof (cases "prev_n (nat (ck_Period ck)) s p")
    case (Some q)
    note b = boundary_prev [OF ok less.prems(1,2) Some]
    have "GetMedianTimePast s q \<le> GetMedianTimePast s p" "0 < nat (ck_Period ck)"
      using GetMedianTimePast_prev_n [OF _ _ less.prems(1) Some] ok by (auto simp: vb_ok_def)
    then show ?thesis using less.hyps [of q] b less.prems(3) Some by simp
  qed simp
  then show ?case
    using deployment_state_rec [OF ok less.prems(1,2)] less.prems(3) ok by (simp add: bip9_next_def vb_ok_def)
qed

section \<open>The cached computation\<close>

lemma signals_Suc:
  "signals s ck (Suc n) p = (if ck_Condition ck s p then 1 else 0) + (case bi_pprev (s p) of None \<Rightarrow> 0 | Some q \<Rightarrow> signals s ck n q)"
proof -
  have "[0..<Suc n] = 0 # map Suc [0..<n]" by (simp add: map_Suc_upt upt_conv_Cons)
  then show ?thesis by (simp add: signals_def filter_map comp_def split: option.split del: upt_Suc)
qed

lemma count_signals_eq:
  assumes ok: "index_ok s V"
  shows "p \<in> V \<Longrightarrow> n \<le> Suc (bi_nHeight (s p)) \<Longrightarrow> count_signals n s ck (Some p) c = Some (c + int (signals s ck n p))"
proof (induction n arbitrary: p c)
  case (Suc n)
  show ?case
  proof (cases "bi_pprev (s p)")
    case None
    then have "n = 0" using index_pprev(1) [OF ok Suc.prems(1)] Suc.prems(2) by simp
    then show ?thesis by (simp add: signals_Suc None)
  next
    case (Some q)
    then show ?thesis using Suc.IH [of q] Suc.prems index_pprev(2) [OF ok Suc.prems(1) Some] by (simp add: signals_Suc)
  qed
qed (simp add: signals_def)

lemma next_state_eq:
  assumes ok: "vb_ok s V ck" "p \<in> V" "boundary s ck p"
  shows "next_state s ck p st = Some (bip9_next s ck p st)"
proof -
  have "nat (ck_Period ck) \<le> bi_nHeight (s p) + 1" using ok(3) by (intro dvd_imp_le) (auto simp: boundary_def)
  then have "count_signals (nat (ck_Period ck)) s ck (Some p) 0 = Some (int (signals s ck (nat (ck_Period ck)) p))"
    using count_signals_eq [of s V p] ok(1,2) by (simp add: vb_ok_def)
  then show ?thesis by (cases st) (simp_all add: next_state_def bip9_next_def Let_def)
qed

lemma GetAncestor_period:
  assumes ok: "vb_ok s V ck" "p \<in> V"
  shows "GetAncestor s p (int (bi_nHeight (s p)) - ck_Period ck) = Some (prev_n (nat (ck_Period ck)) s p)"
proof -
  let ?P = "ck_Period ck" and ?h = "bi_nHeight (s p)"
  have i: "index_ok s V" "0 < ?P" using ok(1) by (auto simp: vb_ok_def)
  show ?thesis
  proof (cases "?P \<le> int ?h")
    case True
    then have "?h - nat (int ?h - ?P) = nat ?P" using i(2) by simp
    then show ?thesis using GetAncestor_prev_n [OF i(1) ok(2)] True i(2) by simp
  next
    case False
    then show ?thesis using GetAncestor_prev_n [OF i(1) ok(2)] prev_n_None [OF i(1) ok(2), of "nat ?P"] i(2) by simp
  qed
qed

text \<open>The blocks \<open>v\<close> are the ends of the consecutive periods after \<open>k\<close> up to \<open>e\<close>.\<close>

primrec segment :: "store \<Rightarrow> ptr set \<Rightarrow> checker \<Rightarrow> ptr option \<Rightarrow> ptr list \<Rightarrow> ptr option \<Rightarrow> bool" where
  "segment s V ck k [] e \<longleftrightarrow> k = e"
| "segment s V ck k (p # v) e \<longleftrightarrow>
     prev_n (nat (ck_Period ck)) s p = k \<and> p \<in> V \<and> boundary s ck p \<and> segment s V ck (Some p) v e"

lemma cache_ok_update:
  assumes "cache_ok s V ck cache" "st = deployment_state s ck b" "case b of None \<Rightarrow> True | Some p \<Rightarrow> p \<in> V \<and> boundary s ck p"
  shows "cache_ok s V ck (cache(b \<mapsto> st))"
  using assms by (auto simp: cache_ok_def)

lemma find_known_ok:
  assumes ok: "vb_ok s V ck" and c: "cache_ok s V ck cache"
  shows "case b of None \<Rightarrow> 0 < fuel | Some p \<Rightarrow> p \<in> V \<and> boundary s ck p \<and> bi_nHeight (s p) + 2 \<le> fuel \<Longrightarrow>
    segment s V ck b v e \<Longrightarrow>
    \<exists>c' k w. find_known fuel s ck cache b v = Some (c', k, w) \<and> cache_ok s V ck c'
      \<and> c' k = Some (deployment_state s ck k) \<and> segment s V ck k w e"
proof (induction fuel arbitrary: b v)
  case (Suc fuel)
  show ?case
  proof (cases "cache b")
    case (Some st)
    then show ?thesis using c Suc.prems(2) by (auto simp: cache_ok_def)
  next
    case None
    note new = None
    show ?thesis
    proof (cases b)
      case None
      then show ?thesis using new Suc.prems(2) cache_ok_update [OF c, of THRESHOLD_DEFINED None] by simp
    next
      case (Some p)
      have p: "p \<in> V" "boundary s ck p" "bi_nHeight (s p) + 1 \<le> fuel" using Suc.prems(1) Some by auto
      show ?thesis
      proof (cases "GetMedianTimePast s p < ck_BeginTime ck")
        case True
        then show ?thesis
          using deployment_before_start [OF ok p(1,2)] new Some Suc.prems(2) cache_ok_update [OF c, of THRESHOLD_DEFINED b] p by simp
      next
        case False
        let ?q = "prev_n (nat (ck_Period ck)) s p"
        have "0 < nat (ck_Period ck)" using ok by (simp add: vb_ok_def)
        then have "case ?q of None \<Rightarrow> 0 < fuel | Some r \<Rightarrow> r \<in> V \<and> boundary s ck r \<and> bi_nHeight (s r) + 2 \<le> fuel"
          using boundary_prev [OF ok p(1,2)] p(3) by (fastforce split: option.split)
        from Suc.IH [OF this, of "p # v"] show ?thesis
          using GetAncestor_period [OF ok p(1)] new Some False Suc.prems(2) p by simp
      qed
    qed
  qed
qed (simp split: option.splits)

lemma compute_states_ok:
  assumes ok: "vb_ok s V ck"
  shows "segment s V ck k w e \<Longrightarrow> cache_ok s V ck c \<Longrightarrow>
    \<exists>c'. compute_states s ck w (deployment_state s ck k) c = Some (deployment_state s ck e, c') \<and> cache_ok s V ck c'"
proof (induction w arbitrary: k c)
  case (Cons p w)
  have p: "prev_n (nat (ck_Period ck)) s p = k" "p \<in> V" "boundary s ck p" "segment s V ck (Some p) w e" using Cons.prems(1) by auto
  have "next_state s ck p (deployment_state s ck k) = Some (deployment_state s ck (Some p))"
    using next_state_eq [OF ok p(2,3)] deployment_state_rec [OF ok p(2,3)] p(1) by simp
  moreover have "cache_ok s V ck (c(Some p \<mapsto> deployment_state s ck (Some p)))"
    using cache_ok_update [OF Cons.prems(2) refl, of "Some p"] p by simp
  ultimately show ?case using Cons.IH [OF p(4)] by simp
qed simp

text \<open>The end of the period before the block after \<open>b\<close>.\<close>

definition last_end :: "store \<Rightarrow> checker \<Rightarrow> ptr option \<Rightarrow> ptr option" where
  "last_end s ck b = (case b of None \<Rightarrow> None | Some p \<Rightarrow> prev_n ((bi_nHeight (s p) + 1) mod nat (ck_Period ck)) s p)"

lemma period_end_eq:
  assumes ok: "vb_ok s V ck" "p \<in> V"
  shows "period_end s (ck_Period ck) p = Some (last_end s ck (Some p))"
proof -
  let ?P = "ck_Period ck" and ?h = "bi_nHeight (s p)"
  have i: "index_ok s V" "0 < ?P" using ok(1) by (auto simp: vb_ok_def)
  define r where "r = (?h + 1) mod nat ?P"
  have r: "(int ?h + 1) mod ?P = int r" using i(2) by (simp add: r_def nat_add_distrib zmod_int add.commute)
  have le: "r \<le> ?h + 1" by (simp add: r_def)
  have "prev_n r s p = None" if "r = ?h + 1" by (rule prev_n_None [OF i(1) ok(2)]) (simp add: that)
  moreover have "?h - nat (int ?h - int r) = r" if "r \<le> ?h" using that by simp
  ultimately have "GetAncestor s p (int ?h - int r) = Some (prev_n r s p)"
    unfolding GetAncestor_prev_n [OF i(1) ok(2)] using le by (cases "r = ?h + 1") auto
  then show ?thesis by (simp only: period_end_def last_end_def r option.case r_def)
qed

lemma last_end_ok:
  assumes ok: "vb_ok s V ck" "case b of None \<Rightarrow> True | Some p \<Rightarrow> p \<in> V" "last_end s ck b = Some e"
  shows "e \<in> V" "boundary s ck e"
proof -
  obtain p where p: "b = Some p" "p \<in> V" "prev_n ((bi_nHeight (s p) + 1) mod nat (ck_Period ck)) s p = Some e"
    using ok(2,3) by (auto simp: last_end_def split: option.splits)
  then have e: "e \<in> V" "(bi_nHeight (s p) + 1) mod nat (ck_Period ck) + bi_nHeight (s e) = bi_nHeight (s p)"
    using prev_n_in [OF _ p(2,3)] ok(1) by (auto simp: vb_ok_def)
  then have "bi_nHeight (s e) + 1 = bi_nHeight (s p) + 1 - (bi_nHeight (s p) + 1) mod nat (ck_Period ck)" by simp
  then have "(bi_nHeight (s e) + 1) mod nat (ck_Period ck) = 0" by (simp only: minus_mod_eq_mult_div) simp
  then show "e \<in> V" "boundary s ck e" using e(1) by (auto simp: boundary_def)
qed

lemma GetStateFor_state:
  assumes ok: "vb_ok s V ck" "cache_ok s V ck cache" "case b of None \<Rightarrow> True | Some p \<Rightarrow> p \<in> V"
  shows "\<exists>cache'. GetStateFor s ck b cache = Some (deployment_state s ck (last_end s ck b), cache') \<and> cache_ok s V ck cache'"
proof -
  let ?e = "last_end s ck b"
  let ?f = "case ?e of None \<Rightarrow> 1 | Some p \<Rightarrow> bi_nHeight (s p) + 2"
  have st: "(case b of None \<Rightarrow> Some None | Some p \<Rightarrow> period_end s (ck_Period ck) p) = Some ?e"
    using period_end_eq [OF ok(1)] ok(3) by (cases b) (simp_all add: last_end_def)
  have "case ?e of None \<Rightarrow> 0 < ?f | Some p \<Rightarrow> p \<in> V \<and> boundary s ck p \<and> bi_nHeight (s p) + 2 \<le> ?f"
    using last_end_ok [OF ok(1,3)] by (simp split: option.split)
  then obtain c k w where k: "find_known ?f s ck cache ?e [] = Some (c, k, w)" "cache_ok s V ck c"
    "c k = Some (deployment_state s ck k)" "segment s V ck k w ?e"
    using find_known_ok [OF ok(1,2), where b = ?e and fuel = ?f and v = "[]" and e = ?e] by auto
  obtain c' where "compute_states s ck w (deployment_state s ck k) c = Some (deployment_state s ck ?e, c')" "cache_ok s V ck c'"
    using compute_states_ok [OF ok(1) k(4,2)] by blast
  then show ?thesis by (simp add: GetStateFor_def st k)
qed


section \<open>How the state develops\<close>

lemma last_end_same:
  assumes ok: "vb_ok s V ck" "p \<in> V" "prev_n n s p = Some q" "n \<le> (bi_nHeight (s p) + 1) mod nat (ck_Period ck)"
  shows "last_end s ck (Some q) = last_end s ck (Some p)"
proof -
  let ?P = "nat (ck_Period ck)"
  define r where "r = (bi_nHeight (s p) + 1) mod ?P"
  have P: "0 < ?P" using ok(1) by (simp add: vb_ok_def)
  have "n + bi_nHeight (s q) = bi_nHeight (s p)" using prev_n_in [OF _ ok(2,3)] ok(1) by (simp add: vb_ok_def)
  then have "bi_nHeight (s q) + 1 = (bi_nHeight (s p) + 1) div ?P * ?P + (r - n)"
    using div_mult_mod_eq [of "bi_nHeight (s p) + 1" ?P] ok(4) unfolding r_def [symmetric] by simp
  moreover have "r - n < ?P" using mod_less_divisor [OF P, of "bi_nHeight (s p) + 1"] unfolding r_def [symmetric] by simp
  ultimately have "(bi_nHeight (s q) + 1) mod ?P = r - n" by simp
  then show ?thesis
    using prev_n_add [of n "r - n" s p] ok(3,4) by (simp add: last_end_def r_def del: One_nat_def add_Suc_right)
qed

lemma last_end_prev:
  assumes ok: "vb_ok s V ck" "p \<in> V" and e: "last_end s ck (Some p) = Some e" and q: "bi_pprev (s e) = Some q"
  shows "last_end s ck (Some q) = prev_n (nat (ck_Period ck)) s e"
proof -
  let ?P = "nat (ck_Period ck)"
  have i: "index_ok s V" and P: "0 < ?P" using ok(1) by (auto simp: vb_ok_def)
  have ev: "e \<in> V" "boundary s ck e" using last_end_ok [OF ok(1) _ e] ok(2) by auto
  have "bi_nHeight (s q) + 1 + 1 = bi_nHeight (s e) + 1" using index_pprev(2) [OF i ev(1) q] by simp
  then have "(bi_nHeight (s q) + 1 + 1) mod ?P = 0" using ev(2) by (simp only: boundary_def)
  then have "(bi_nHeight (s q) + 1) mod ?P = ?P - 1" using P by (metis Suc_eq_plus1 mod_Suc diff_Suc_1 nat.distinct(1))
  then show ?thesis using prev_n_add [of 1 "?P - 1" s e] P q by (simp add: last_end_def)
qed

lemma terminal_next: "st = THRESHOLD_ACTIVE \<or> st = THRESHOLD_FAILED \<Longrightarrow> bip9_next s ck p st = st"
  by (auto simp: bip9_next_def)

lemma terminal_state:
  assumes ok: "vb_ok s V ck" and st: "st = THRESHOLD_ACTIVE \<or> st = THRESHOLD_FAILED"
  shows "p \<in> V \<Longrightarrow> prev_n n s p = Some q \<Longrightarrow> deployment_state s ck (last_end s ck (Some q)) = st \<Longrightarrow>
    deployment_state s ck (last_end s ck (Some p)) = st"
proof (induction "bi_nHeight (s p)" arbitrary: p n rule: less_induct)
  case less
  have i: "index_ok s V" using ok by (simp add: vb_ok_def)
  define r where "r = (bi_nHeight (s p) + 1) mod nat (ck_Period ck)"
  show ?case
  proof (cases "n \<le> r")
    case True
    then show ?thesis using last_end_same [OF ok less.prems(1,2)] less.prems(3) by (simp add: r_def)
  next
    case False
    obtain e where e: "prev_n r s p = Some e" "prev_n (n - r) s e = Some q"
      using False prev_n_add [of r "n - r" s p] less.prems(2) by (cases "prev_n r s p") auto
    then have le: "last_end s ck (Some p) = Some e" by (simp add: last_end_def r_def)
    have ev: "e \<in> V" "boundary s ck e" using last_end_ok [OF ok _ le] less.prems(1) by auto
    obtain m where "n - r = Suc m" using False by (cases "n - r") auto
    then obtain x where x: "bi_pprev (s e) = Some x" "prev_n m s x = Some q" using e(2) by (auto split: option.splits)
    have "x \<in> V" "bi_nHeight (s x) < bi_nHeight (s p)"
      using index_pprev(2) [OF i ev(1) x(1)] prev_n_in [OF i less.prems(1) e(1)] by auto
    then have "deployment_state s ck (prev_n (nat (ck_Period ck)) s e) = st"
      using less.hyps [OF _ _ x(2) less.prems(3)] last_end_prev [OF ok less.prems(1) le x(1)] by simp
    then show ?thesis using deployment_state_rec [OF ok ev] terminal_next [OF st] le by simp
  qed
qed

lemma last_end_period_later:
  assumes ok: "vb_ok s V ck" "p \<in> V" "prev_n (nat (ck_Period ck)) s p = Some q"
  shows "\<exists>e. last_end s ck (Some p) = Some e \<and> prev_n (nat (ck_Period ck)) s e = last_end s ck (Some q)"
proof -
  let ?P = "nat (ck_Period ck)"
  define r where "r = (bi_nHeight (s p) + 1) mod ?P"
  have i: "index_ok s V" and P: "0 < ?P" using ok(1) by (auto simp: vb_ok_def)
  have h: "?P + bi_nHeight (s q) = bi_nHeight (s p)" using prev_n_in [OF i ok(2,3)] by simp
  have "r < ?P" using P by (simp add: r_def)
  then obtain e where e: "prev_n r s p = Some e" using prev_n_Some [OF i ok(2), of r] h by auto
  have "bi_nHeight (s p) + 1 = bi_nHeight (s q) + 1 + ?P" using h by simp
  then have "(bi_nHeight (s q) + 1) mod ?P = r" by (simp only: r_def mod_add_self2)
  moreover have "prev_n ?P s e = prev_n r s q"
    using prev_n_add [of r ?P s p] prev_n_add [of ?P r s p] e ok(3) by (simp add: add.commute)
  ultimately show ?thesis using e by (simp add: last_end_def r_def)
qed

lemma decided_after_timeout:
  assumes ok: "vb_ok s V ck" "p \<in> V" "prev_n n s p = Some q" "nat (ck_Period ck) \<le> n"
    and e: "last_end s ck (Some q) = Some e" "ck_EndTime ck \<le> GetMedianTimePast s e"
  shows "deployment_state s ck (last_end s ck (Some p)) \<in> {THRESHOLD_ACTIVE, THRESHOLD_FAILED}"
proof -
  let ?P = "nat (ck_Period ck)"
  have i: "index_ok s V" using ok(1) by (simp add: vb_ok_def)
  obtain x where x: "prev_n (n - ?P) s p = Some x" "prev_n ?P s x = Some q"
    using prev_n_add [of "n - ?P" ?P s p] ok(3,4) by (cases "prev_n (n - ?P) s p") auto
  have xv: "x \<in> V" using prev_n_in [OF i ok(2) x(1)] by simp
  obtain f where f: "last_end s ck (Some x) = Some f" "prev_n ?P s f = Some e"
    using last_end_period_later [OF ok(1) xv x(2)] e(1) by auto
  have fv: "f \<in> V" "boundary s ck f" using last_end_ok [OF ok(1) _ f(1)] xv by auto
  note ev = boundary_prev [OF ok(1) fv f(2)]
  have "deployment_state s ck (Some e) \<in> {THRESHOLD_LOCKED_IN, THRESHOLD_ACTIVE, THRESHOLD_FAILED}"
    using deployment_state_rec [OF ok(1) ev(1,2)] e(2)
    by (cases "deployment_state s ck (prev_n ?P s e)") (simp_all add: bip9_next_def)
  then have "deployment_state s ck (Some f) \<in> {THRESHOLD_ACTIVE, THRESHOLD_FAILED}"
    using deployment_state_rec [OF ok(1) fv] f(2) by (auto simp: bip9_next_def)
  then show ?thesis using terminal_state [OF ok(1) _ ok(2) x(1)] f(1) by auto
qed


section \<open>Statistics and since when\<close>

lemma count_back_eq:
  assumes ok: "index_ok s V"
  shows "p \<in> V \<Longrightarrow> n \<le> bi_nHeight (s p) \<Longrightarrow> n < fuel \<Longrightarrow>
    count_back fuel s ck (bi_nHeight (s p) - n) (Some p) c = Some (c + int (signals s ck n p))"
proof (induction n arbitrary: p c fuel)
  case 0
  then show ?case by (cases fuel) (simp_all add: signals_def)
next
  case (Suc n)
  then obtain f where f: "fuel = Suc f" "n < f" by (cases fuel) auto
  obtain q where q: "q \<in> V" "bi_pprev (s p) = Some q" "bi_nHeight (s p) = Suc (bi_nHeight (s q))"
    using index_pprev(3) [OF ok Suc.prems(1)] Suc.prems(2) by auto
  have "bi_nHeight (s q) - n \<noteq> Suc (bi_nHeight (s q))" by simp
  then show ?case using Suc.IH [OF q(1) _ f(2)] q Suc.prems(2) by (simp add: f(1) signals_Suc)
qed

lemma GetStateStatisticsFor_eq:
  assumes ok: "vb_ok s V ck" "p \<in> V" and e: "last_end s ck (Some p) \<noteq> None"
    and r: "r = (bi_nHeight (s p) + 1) mod nat (ck_Period ck)"
  shows "GetStateStatisticsFor s ck (Some p) =
    Some \<lparr>st_period = ck_Period ck, st_threshold = ck_Threshold ck, st_elapsed = int r, st_count = int (signals s ck r p),
      st_possible = (int (signals s ck r p) + (ck_Period ck - int r) \<ge> ck_Threshold ck)\<rparr>"
proof -
  have i: "index_ok s V" using ok(1) by (simp add: vb_ok_def)
  obtain x where x: "last_end s ck (Some p) = Some x" "prev_n r s p = Some x" using e r by (auto simp: last_end_def)
  have h: "r + bi_nHeight (s x) = bi_nHeight (s p)" using prev_n_in [OF i ok(2) x(2)] by simp
  then have "bi_nHeight (s p) - r = bi_nHeight (s x)" by simp
  then have "count_back (bi_nHeight (s p) + 1) s ck (bi_nHeight (s x)) (Some p) 0 = Some (int (signals s ck r p))"
    using count_back_eq [OF i ok(2), of r "bi_nHeight (s p) + 1" ck 0] h by simp
  moreover have "int (bi_nHeight (s p)) - int (bi_nHeight (s x)) = int r" using h by simp
  ultimately show ?thesis
    using period_end_eq [OF ok] x(1) by (simp add: GetStateStatisticsFor_def Let_def algebra_simps)
qed

text \<open>The block \<open>f\<close> is the end of the period before the first one of the current run of the state \<open>st\<close>, seen from \<open>e\<close>.\<close>

definition run_start :: "store \<Rightarrow> checker \<Rightarrow> ThresholdState \<Rightarrow> ptr \<Rightarrow> ptr \<Rightarrow> bool" where
  "run_start s ck st e f \<longleftrightarrow>
     (\<exists>n. prev_n (n * nat (ck_Period ck)) s e = Some f
        \<and> (\<forall>m\<le>n. deployment_state s ck (prev_n (m * nat (ck_Period ck)) s e) = st))
     \<and> deployment_state s ck (prev_n (nat (ck_Period ck)) s f) \<noteq> st"

lemma run_start_step:
  assumes q: "prev_n (nat (ck_Period ck)) s e = Some q" and e: "deployment_state s ck (Some e) = st" and r: "run_start s ck st q f"
  shows "run_start s ck st e f"
proof -
  let ?P = "nat (ck_Period ck)"
  obtain n where n: "prev_n (n * ?P) s q = Some f" "\<And>m. m \<le> n \<Longrightarrow> deployment_state s ck (prev_n (m * ?P) s q) = st"
    "deployment_state s ck (prev_n ?P s f) \<noteq> st" using r by (auto simp: run_start_def)
  have st: "prev_n (Suc m * ?P) s e = prev_n (m * ?P) s q" for m using prev_n_add [of ?P "m * ?P" s e] q by simp
  have "deployment_state s ck (prev_n (m * ?P) s e) = st" if "m \<le> Suc n" for m
    using that e n(2) st by (cases m) (simp_all del: mult_Suc)
  then show ?thesis using n(1,3) st [of n] unfolding run_start_def by metis
qed

lemma since_loop_ok:
  assumes ok: "vb_ok s V ck" and st: "st \<noteq> THRESHOLD_DEFINED"
  shows "e \<in> V \<Longrightarrow> boundary s ck e \<Longrightarrow> bi_nHeight (s e) < fuel \<Longrightarrow> deployment_state s ck (Some e) = st \<Longrightarrow> cache_ok s V ck c \<Longrightarrow>
    \<exists>f c'. since_loop fuel s ck st e c = Some (int (bi_nHeight (s f)) + 1, c') \<and> run_start s ck st e f \<and> cache_ok s V ck c'"
proof (induction fuel arbitrary: e c)
  case (Suc fuel)
  let ?P = "nat (ck_Period ck)"
  have stop: "run_start s ck st e e" if "deployment_state s ck (prev_n ?P s e) \<noteq> st"
    unfolding run_start_def using that Suc.prems(4) by (intro conjI exI [of _ 0]) simp_all
  show ?case
  proof (cases "prev_n ?P s e")
    case None
    then show ?thesis using GetAncestor_period [OF ok Suc.prems(1)] stop st Suc.prems(5) by (intro exI [of _ e]) simp
  next
    case (Some q)
    note q = boundary_prev [OF ok Suc.prems(1,2) Some]
    have "0 < ?P" using ok by (simp add: vb_ok_def)
    then have lt: "bi_nHeight (s q) < fuel" using q(3) Suc.prems(3) by simp
    have "last_end s ck (Some q) = Some q" using q(2) by (simp add: last_end_def boundary_def)
    then obtain c' where c': "GetStateFor s ck (Some q) c = Some (deployment_state s ck (Some q), c')" "cache_ok s V ck c'"
      using GetStateFor_state [OF ok Suc.prems(5), of "Some q"] q(1) by auto
    show ?thesis
    proof (cases "deployment_state s ck (Some q) = st")
      case True
      obtain f c'' where "since_loop fuel s ck st q c' = Some (int (bi_nHeight (s f)) + 1, c'')" "run_start s ck st q f"
        "cache_ok s V ck c''" using Suc.IH [OF q(1,2) lt True c'(2)] by blast
      then show ?thesis
        using GetAncestor_period [OF ok Suc.prems(1)] Some c' True run_start_step [OF Some Suc.prems(4)]
        by (intro exI [of _ f]) simp
    next
      case False
      then show ?thesis using GetAncestor_period [OF ok Suc.prems(1)] Some c' stop by (intro exI [of _ e]) simp
    qed
  qed
qed simp

lemma GetStateSinceHeightFor_ok:
  assumes ok: "vb_ok s V ck" "cache_ok s V ck cache" "p \<in> V"
    and st: "deployment_state s ck (last_end s ck (Some p)) = st" "st \<noteq> THRESHOLD_DEFINED"
  shows "\<exists>e f c'. last_end s ck (Some p) = Some e \<and> run_start s ck st e f
    \<and> GetStateSinceHeightFor s ck (Some p) cache = Some (int (bi_nHeight (s f)) + 1, c') \<and> cache_ok s V ck c'"
proof -
  obtain e where e: "last_end s ck (Some p) = Some e" using st by (cases "last_end s ck (Some p)") auto
  have ev: "e \<in> V" "boundary s ck e" using last_end_ok [OF ok(1) _ e] ok(3) by auto
  obtain c where c: "GetStateFor s ck (Some p) cache = Some (st, c)" "cache_ok s V ck c"
    using GetStateFor_state [OF ok(1,2), of "Some p"] ok(3) st(1) by auto
  obtain f c' where "since_loop (bi_nHeight (s e) + 1) s ck st e c = Some (int (bi_nHeight (s f)) + 1, c')"
    "run_start s ck st e f" "cache_ok s V ck c'"
    using since_loop_ok [OF ok(1) st(2) ev _ _ c(2)] st(1) e by fastforce
  then show ?thesis using e c(1) period_end_eq [OF ok(1,3)] st(2)
    by (intro exI [of _ e] exI [of _ f]) (simp add: GetStateSinceHeightFor_def)
qed

section \<open>The version of a new block\<close>

definition signalling :: "store \<Rightarrow> ptr option \<Rightarrow> vb_params \<Rightarrow> DeploymentPos \<Rightarrow> bool" where
  "signalling s b params pos \<longleftrightarrow>
     (let ck = VersionBitsConditionChecker params pos
      in deployment_state s ck (last_end s ck b) \<in> {THRESHOLD_STARTED, THRESHOLD_LOCKED_IN})"

lemma bit_VersionBitsMask: "n < 32 \<Longrightarrow> bit (VersionBitsMask params pos) n \<longleftrightarrow> n = bd_bit (vDeployments params pos)"
  by (auto simp: VersionBitsMask_def push_bit_eq_mult bit_exp_iff)

lemma version_loop_bits:
  assumes ok: "\<And>pos. vb_ok s V (VersionBitsConditionChecker params pos)" and b: "case b of None \<Rightarrow> True | Some p \<Rightarrow> p \<in> V"
  shows "(\<And>pos. cache_ok s V (VersionBitsConditionChecker params pos) (caches pos)) \<Longrightarrow>
    \<exists>r caches'. version_loop s b params ds v caches = Some (r, caches')
      \<and> (\<forall>n<32. bit r n \<longleftrightarrow> bit v n \<or> (\<exists>i\<in>set ds. signalling s b params i \<and> bd_bit (vDeployments params i) = n))
      \<and> (\<forall>pos. cache_ok s V (VersionBitsConditionChecker params pos) (caches' pos))"
proof (induction ds arbitrary: v caches)
  case (Cons i ds)
  let ?ck = "VersionBitsConditionChecker params i"
  let ?st = "deployment_state s ?ck (last_end s ?ck b)"
  let ?v = "if ?st = THRESHOLD_LOCKED_IN \<or> ?st = THRESHOLD_STARTED then v OR VersionBitsMask params i else v"
  obtain c where c: "GetStateFor s ?ck b (caches i) = Some (?st, c)" "cache_ok s V ?ck c"
    using GetStateFor_state [OF ok Cons.prems b] by blast
  have "cache_ok s V (VersionBitsConditionChecker params pos) ((caches(i := c)) pos)" for pos using Cons.prems c(2) by simp
  then obtain r cs where r: "version_loop s b params ds ?v (caches(i := c)) = Some (r, cs)"
    "\<And>n. n < 32 \<Longrightarrow> bit r n \<longleftrightarrow> bit ?v n \<or> (\<exists>i\<in>set ds. signalling s b params i \<and> bd_bit (vDeployments params i) = n)"
    "\<And>pos. cache_ok s V (VersionBitsConditionChecker params pos) (cs pos)"
    using Cons.IH [of "caches(i := c)" ?v] by blast
  have "signalling s b params i \<longleftrightarrow> ?st = THRESHOLD_LOCKED_IN \<or> ?st = THRESHOLD_STARTED" by (auto simp: signalling_def Let_def)
  then have "bit ?v n \<longleftrightarrow> bit v n \<or> signalling s b params i \<and> bd_bit (vDeployments params i) = n" if "n < 32" for n
    using that by (auto simp: bit_or_iff bit_VersionBitsMask)
  then have "bit r n \<longleftrightarrow> bit v n \<or> (\<exists>j\<in>set (i # ds). signalling s b params j \<and> bd_bit (vDeployments params j) = n)" if "n < 32" for n
    using r(2) that by auto
  then show ?case using r(1,3) c(1) by (simp add: VersionBitsState_def)
qed simp


section \<open>Properties\<close>

text \<open>A checker of periods of one block over the chain of four blocks.\<close>

definition demo_vb :: vb_params where
  "demo_vb = \<lparr>vDeployments = (\<lambda>_. \<lparr>bd_bit = 29, bd_nStartTime = 900, bd_nTimeout = 1060,
     bd_nOverrideMinerConfirmationWindow = 0, bd_nOverrideRuleChangeActivationThreshold = 1\<rparr>),
     nMinerConfirmationWindow = 1, nRuleChangeActivationThreshold = 2\<rparr>"

abbreviation demo_ck :: checker where
  "demo_ck \<equiv> VersionBitsConditionChecker demo_vb DEPLOYMENT_ASSETS"

lemma demo_vb_ok: "vb_ok demo_store {0, 1, 2, 3} (VersionBitsConditionChecker demo_vb pos)"
proof -
  have "GetMedianTimePast demo_store 0 < GetBlockTime demo_store 1" "GetMedianTimePast demo_store 1 < GetBlockTime demo_store 2"
    "GetMedianTimePast demo_store 2 < GetBlockTime demo_store 3" by code_simp+
  moreover have "bi_pprev (demo_store p) = (if p = 0 then None else Some (p - 1))" for p by (simp add: demo_store_def)
  ultimately have "times_ok demo_store {0, 1, 2, 3}" by (auto simp: times_ok_def split: if_splits)
  then show ?thesis using demo_index_ok by (simp add: vb_ok_def VersionBitsConditionChecker_def demo_vb_def Let_def)
qed

lemma demo_ck_fields: "nat (ck_Period demo_ck) = 1" "ck_EndTime demo_ck = 1060"
  by (simp_all add: VersionBitsConditionChecker_def demo_vb_def Let_def)

lemma demo_failed: "map_option fst (GetStateFor demo_store demo_ck (Some 1) Map.empty) = Some THRESHOLD_FAILED"
  by code_simp

lemma demo_last_end: "last_end demo_store demo_ck (Some p) = Some p"
  by (simp add: last_end_def demo_ck_fields)

lemma demo_prev: "prev_n 2 demo_store 3 = Some 1" by code_simp

lemma cache_ok_empty: "cache_ok s V ck Map.empty"
  by (simp add: cache_ok_def)

text \<open>C35: The cached computation of a deployment's state implements the state machine of version bits. Over a well-formed
  index whose block times obey the median time rule, and with a cache that holds only true states, \<open>GetStateFor\<close> returns
  the state that the machine has after the last full period, however much of it was cached and although it does not look
  at periods before the start time; and what it adds to the cache is true.\<close>

theorem GetStateFor_correct:
  assumes "vb_ok s V ck" and "cache_ok s V ck cache" and "p \<in> V"
  shows "\<exists>cache'. GetStateFor s ck (Some p) cache = Some (deployment_state s ck (last_end s ck (Some p)), cache')
    \<and> cache_ok s V ck cache'"
  using GetStateFor_state [of s V ck cache "Some p"] assms by simp

theorem GetStateFor_correct_witness:
  "\<exists>cache'. GetStateFor demo_store demo_ck (Some 3) Map.empty =
      Some (deployment_state demo_store demo_ck (last_end demo_store demo_ck (Some 3)), cache')
    \<and> cache_ok demo_store {0, 1, 2, 3} demo_ck cache'"
  using GetStateFor_correct [OF demo_vb_ok cache_ok_empty, of 3] by simp

text \<open>The terminal states are terminal. Once a deployment is active, or has failed, for a block, it is in the same
  state for every descendant, whatever the caches of the two calls hold.\<close>

theorem GetStateFor_terminal:
  assumes "vb_ok s V ck" and "cache_ok s V ck c" and "cache_ok s V ck c'" and "p \<in> V" and "prev_n n s p = Some q"
    and "map_option fst (GetStateFor s ck (Some q) c) = Some st" and "st \<in> {THRESHOLD_ACTIVE, THRESHOLD_FAILED}"
  shows "map_option fst (GetStateFor s ck (Some p) c') = Some st"
proof -
  have "q \<in> V" using prev_n_in [OF _ assms(4,5)] assms(1) by (simp add: vb_ok_def)
  then have "deployment_state s ck (last_end s ck (Some q)) = st"
    using GetStateFor_state [OF assms(1,2), of "Some q"] assms(6) by auto
  then show ?thesis
    using terminal_state [OF assms(1) _ assms(4,5)] GetStateFor_state [OF assms(1,3), of "Some p"] assms(4,7) by auto
qed

theorem GetStateFor_terminal_witness:
  "map_option fst (GetStateFor demo_store demo_ck (Some 3) Map.empty) = Some THRESHOLD_FAILED"
  using GetStateFor_terminal [OF demo_vb_ok cache_ok_empty cache_ok_empty _ demo_prev demo_failed] by simp

text \<open>C36: Every deployment is decided. When the median time at the end of a period has reached the timeout, then a period
  later the deployment is active or has failed, for good.\<close>

theorem GetStateFor_decided:
  assumes "vb_ok s V ck" and "cache_ok s V ck c" and "p \<in> V" and "prev_n n s p = Some q" and "nat (ck_Period ck) \<le> n"
    and "last_end s ck (Some q) = Some e" and "ck_EndTime ck \<le> GetMedianTimePast s e"
  shows "map_option fst (GetStateFor s ck (Some p) c) \<in> {Some THRESHOLD_ACTIVE, Some THRESHOLD_FAILED}"
  using decided_after_timeout [OF assms(1,3-7)] GetStateFor_state [OF assms(1,2), of "Some p"] assms(3) by auto

theorem GetStateFor_decided_witness:
  "map_option fst (GetStateFor demo_store demo_ck (Some 3) Map.empty) \<in> {Some THRESHOLD_ACTIVE, Some THRESHOLD_FAILED}"
proof -
  have "1060 \<le> GetMedianTimePast demo_store 1" by code_simp
  then show ?thesis
    using GetStateFor_decided [OF demo_vb_ok cache_ok_empty _ demo_prev _ demo_last_end] by (simp add: demo_ck_fields)
qed

text \<open>The statistics count the signalling blocks since the end of the last period, and call the threshold possible
  exactly when these blocks and all the remaining ones of the period would reach it.\<close>

theorem GetStateStatisticsFor_correct:
  assumes "vb_ok s V ck" and "p \<in> V" and "last_end s ck (Some p) \<noteq> None"
    and "r = (bi_nHeight (s p) + 1) mod nat (ck_Period ck)"
  shows "GetStateStatisticsFor s ck (Some p) =
    Some \<lparr>st_period = ck_Period ck, st_threshold = ck_Threshold ck, st_elapsed = int r, st_count = int (signals s ck r p),
      st_possible = (int (signals s ck r p) + (ck_Period ck - int r) \<ge> ck_Threshold ck)\<rparr>"
  using assms by (rule GetStateStatisticsFor_eq)

theorem GetStateStatisticsFor_correct_witness:
  "GetStateStatisticsFor demo_store demo_ck (Some 3) =
    Some \<lparr>st_period = ck_Period demo_ck, st_threshold = ck_Threshold demo_ck, st_elapsed = int 0,
      st_count = int (signals demo_store demo_ck 0 3),
      st_possible = (int (signals demo_store demo_ck 0 3) + (ck_Period demo_ck - int 0) \<ge> ck_Threshold demo_ck)\<rparr>"
  by (rule GetStateStatisticsFor_correct [OF demo_vb_ok]) (simp_all only: demo_last_end demo_ck_fields mod_by_1, simp_all)

text \<open>\<open>GetStateSinceHeightFor\<close> returns the height of the first block of the first period of the current run of a state
  other than \<^term>\<open>THRESHOLD_DEFINED\<close>: all periods from there on are in the state, the one before is not.\<close>

theorem GetStateSinceHeightFor_correct:
  assumes "vb_ok s V ck" and "cache_ok s V ck cache" and "p \<in> V"
    and "deployment_state s ck (last_end s ck (Some p)) = st" and "st \<noteq> THRESHOLD_DEFINED"
  shows "\<exists>e f c'. last_end s ck (Some p) = Some e \<and> run_start s ck st e f
    \<and> GetStateSinceHeightFor s ck (Some p) cache = Some (int (bi_nHeight (s f)) + 1, c') \<and> cache_ok s V ck c'"
  using assms by (rule GetStateSinceHeightFor_ok)

theorem GetStateSinceHeightFor_correct_witness:
  "\<exists>e f c'. last_end demo_store demo_ck (Some 3) = Some e \<and> run_start demo_store demo_ck THRESHOLD_FAILED e f
    \<and> GetStateSinceHeightFor demo_store demo_ck (Some 3) Map.empty = Some (int (bi_nHeight (demo_store f)) + 1, c')
    \<and> cache_ok demo_store {0, 1, 2, 3} demo_ck c'"
proof (rule GetStateSinceHeightFor_correct [OF demo_vb_ok cache_ok_empty])
  show "deployment_state demo_store demo_ck (last_end demo_store demo_ck (Some 3)) = THRESHOLD_FAILED"
    unfolding demo_last_end by code_simp
qed simp_all

text \<open>The version of a new block has, beside the bits that mark versions of this kind, exactly the bits of the
  deployments that are started or locked in; the caches stay true.\<close>

theorem ComputeBlockVersion_bits:
  assumes "\<And>pos. vb_ok s V (VersionBitsConditionChecker params pos)"
    and "\<And>pos. cache_ok s V (VersionBitsConditionChecker params pos) (caches pos)" and "p \<in> V"
    and "top_bits = (if assets then VERSIONBITS_TOP_BITS_ASSETS else VERSIONBITS_TOP_BITS)"
  shows "\<exists>r caches'. ComputeBlockVersion s (Some p) params assets caches = Some (r, caches')
      \<and> (\<forall>n<32. bit r n \<longleftrightarrow> bit top_bits n \<or>
           (\<exists>i\<in>set deployments. signalling s (Some p) params i \<and> bd_bit (vDeployments params i) = n))
      \<and> (\<forall>pos. cache_ok s V (VersionBitsConditionChecker params pos) (caches' pos))"
  using version_loop_bits [OF assms(1) _ assms(2), where b = "Some p" and v = top_bits and ds = deployments] assms(3,4)
  by (simp add: ComputeBlockVersion_def)

theorem ComputeBlockVersion_bits_witness:
  "\<exists>r caches'. ComputeBlockVersion demo_store (Some 3) demo_vb True (\<lambda>_. Map.empty) = Some (r, caches')
      \<and> (\<forall>n<32. bit r n \<longleftrightarrow> bit VERSIONBITS_TOP_BITS_ASSETS n \<or>
           (\<exists>i\<in>set deployments. signalling demo_store (Some 3) demo_vb i \<and> bd_bit (vDeployments demo_vb i) = n))
      \<and> (\<forall>pos. cache_ok demo_store {0, 1, 2, 3} (VersionBitsConditionChecker demo_vb pos) (caches' pos))"
  using ComputeBlockVersion_bits [OF demo_vb_ok cache_ok_empty, of 3 VERSIONBITS_TOP_BITS_ASSETS True] by simp

end
