(* ===== verification/Merkle.thy ===== *)
theory Merkle
  imports Prelude
begin

text \<open>
  The Merkle tree of a block (\<open>src/src/consensus/merkle.cpp\<close>): the constant-space computation of the root, of the
  mutation flag and of the branch of a leaf, and the root from a branch. The hash of the concatenation of two nodes,
  \<open>CHash256\<close>, is the parameter \<open>H\<close>. The counter and the levels are as in the code; a shift by 32 or more is
  \<^term>\<open>None\<close>.
\<close>

section \<open>Definitions\<close>

record merkle_state =
  mk_inner :: "nat \<Rightarrow> bytes"
  mk_matchlevel :: int
  mk_mutated :: bool
  mk_branch :: "bytes list"

text \<open>What a combination of \<open>inner[level]\<close> with \<open>h\<close> adds to the branch, if one is asked for.\<close>

definition branch_step :: "bool \<Rightarrow> nat \<Rightarrow> bytes \<Rightarrow> bool \<Rightarrow> merkle_state \<Rightarrow> bool \<times> bytes list" where
  "branch_step pbranch level h matchh st =
     (if pbranch then
        if matchh then (matchh, mk_branch st @ [mk_inner st level])
        else if mk_matchlevel st = int level then (True, mk_branch st @ [h])
        else (matchh, mk_branch st)
      else (matchh, mk_branch st))"

primrec merge_loop :: "nat \<Rightarrow> (bytes \<Rightarrow> bytes) \<Rightarrow> bool \<Rightarrow> u32 \<Rightarrow> nat \<Rightarrow> bytes \<Rightarrow> bool \<Rightarrow> merkle_state
    \<Rightarrow> (nat \<times> bytes \<times> bool \<times> merkle_state) option" where
  "merge_loop 0 H pbranch count level h matchh st = None"
| "merge_loop (Suc fuel) H pbranch count level h matchh st =
     (if bit count level then Some (level, h, matchh, st)
      else let (matchh', branch) = branch_step pbranch level h matchh st
           in merge_loop fuel H pbranch count (level + 1) (H (mk_inner st level @ h)) matchh'
                (st\<lparr>mk_branch := branch, mk_mutated := mk_mutated st \<or> mk_inner st level = h\<rparr>))"

primrec leaf_loop :: "(bytes \<Rightarrow> bytes) \<Rightarrow> bool \<Rightarrow> u32 \<Rightarrow> bytes list \<Rightarrow> u32 \<Rightarrow> merkle_state \<Rightarrow> (u32 \<times> merkle_state) option" where
  "leaf_loop H pbranch branchpos [] count st = Some (count, st)"
| "leaf_loop H pbranch branchpos (h # leaves) count st =
     (case merge_loop 32 H pbranch (count + 1) 0 h (count = branchpos) st of
        None \<Rightarrow> None
      | Some (level, h, matchh, st) \<Rightarrow>
          leaf_loop H pbranch branchpos leaves (count + 1)
            (st\<lparr>mk_inner := (mk_inner st)(level := h),
                mk_matchlevel := (if matchh then int level else mk_matchlevel st)\<rparr>))"

primrec lowest_level :: "nat \<Rightarrow> u32 \<Rightarrow> nat \<Rightarrow> nat option" where
  "lowest_level 0 count level = None"
| "lowest_level (Suc fuel) count level = (if bit count level then Some level else lowest_level fuel count (level + 1))"

text \<open>The propagation upwards within the final sweep, which does not test for mutation.\<close>

primrec propagate :: "nat \<Rightarrow> (bytes \<Rightarrow> bytes) \<Rightarrow> bool \<Rightarrow> u32 \<Rightarrow> nat \<Rightarrow> bytes \<Rightarrow> bool \<Rightarrow> merkle_state
    \<Rightarrow> (nat \<times> bytes \<times> bool \<times> merkle_state) option" where
  "propagate 0 H pbranch count level h matchh st = None"
| "propagate (Suc fuel) H pbranch count level h matchh st =
     (if bit count level then Some (level, h, matchh, st)
      else let (matchh', branch) = branch_step pbranch level h matchh st
           in propagate fuel H pbranch count (level + 1) (H (mk_inner st level @ h)) matchh' (st\<lparr>mk_branch := branch\<rparr>))"

primrec sweep_loop :: "nat \<Rightarrow> (bytes \<Rightarrow> bytes) \<Rightarrow> bool \<Rightarrow> u32 \<Rightarrow> nat \<Rightarrow> bytes \<Rightarrow> bool \<Rightarrow> merkle_state
    \<Rightarrow> (bytes \<times> merkle_state) option" where
  "sweep_loop 0 H pbranch count level h matchh st = None"
| "sweep_loop (Suc fuel) H pbranch count level h matchh st =
     (if count = push_bit level 1 then Some (h, st)
      else
        let st = (if pbranch \<and> matchh then st\<lparr>mk_branch := mk_branch st @ [h]\<rparr> else st);
            count = count + push_bit level 1
        in case propagate (32 - (level + 1)) H pbranch count (level + 1) (H (h @ h)) matchh st of
             None \<Rightarrow> None
           | Some (level, h, matchh, st) \<Rightarrow> sweep_loop fuel H pbranch count level h matchh st)"

definition MerkleComputation :: "(bytes \<Rightarrow> bytes) \<Rightarrow> bytes list \<Rightarrow> u32 \<Rightarrow> bool \<Rightarrow> (bytes \<times> bool \<times> bytes list) option" where
  "MerkleComputation H leaves branchpos pbranch =
     (if leaves = [] then Some (replicate 32 0, False, [])
      else
        case leaf_loop H pbranch branchpos leaves 0
               \<lparr>mk_inner = \<lambda>_. replicate 32 0, mk_matchlevel = - 1, mk_mutated = False, mk_branch = []\<rparr> of
          None \<Rightarrow> None
        | Some (count, st) \<Rightarrow>
            case lowest_level 32 count 0 of
              None \<Rightarrow> None
            | Some level \<Rightarrow>
                map_option (\<lambda>(h, st). (h, mk_mutated st, mk_branch st))
                  (sweep_loop 32 H pbranch count level (mk_inner st level) (mk_matchlevel st = int level) st))"

definition ComputeMerkleRoot :: "(bytes \<Rightarrow> bytes) \<Rightarrow> bytes list \<Rightarrow> (bytes \<times> bool) option" where
  "ComputeMerkleRoot H leaves =
     map_option (\<lambda>(root, mutated, branch). (root, mutated)) (MerkleComputation H leaves (- 1) False)"

definition ComputeMerkleBranch :: "(bytes \<Rightarrow> bytes) \<Rightarrow> bytes list \<Rightarrow> u32 \<Rightarrow> bytes list option" where
  "ComputeMerkleBranch H leaves position =
     map_option (\<lambda>(root, mutated, branch). branch) (MerkleComputation H leaves position True)"

primrec branch_loop :: "(bytes \<Rightarrow> bytes) \<Rightarrow> bytes \<Rightarrow> bytes list \<Rightarrow> u32 \<Rightarrow> bytes" where
  "branch_loop H hash [] nIndex = hash"
| "branch_loop H hash (it # vMerkleBranch) nIndex =
     branch_loop H (if bit nIndex 0 then H (it @ hash) else H (hash @ it)) vMerkleBranch (drop_bit 1 nIndex)"

definition ComputeMerkleRootFromBranch :: "(bytes \<Rightarrow> bytes) \<Rightarrow> bytes \<Rightarrow> bytes list \<Rightarrow> u32 \<Rightarrow> bytes" where
  "ComputeMerkleRootFromBranch H leaf vMerkleBranch nIndex = branch_loop H leaf vMerkleBranch nIndex"

section \<open>The tree\<close>

text \<open>
  The value of a tree of the height \<open>l\<close> over at most \<open>2 ^ l\<close> leaves: a right half without leaves repeats the left one.
\<close>

primrec node :: "(bytes \<Rightarrow> bytes) \<Rightarrow> nat \<Rightarrow> bytes list \<Rightarrow> bytes" where
  "node H 0 xs = hd xs"
| "node H (Suc l) xs =
     (if length xs \<le> 2 ^ l then H (node H l xs @ node H l xs)
      else H (node H l (take (2 ^ l) xs) @ node H l (drop (2 ^ l) xs)))"

text \<open>The height of the tree: the least one with room for all leaves.\<close>

fun tree_height :: "nat \<Rightarrow> nat" where
  "tree_height n = (if n \<le> 1 then 0 else Suc (tree_height ((n + 1) div 2)))"

declare tree_height.simps [simp del]

definition merkle_root :: "(bytes \<Rightarrow> bytes) \<Rightarrow> bytes list \<Rightarrow> bytes" where
  "merkle_root H xs = node H (tree_height (length xs)) xs"

text \<open>The \<open>2 ^ l\<close> leaves from \<open>a\<close> on, and two full siblings at level \<open>j\<close> that have the same value.\<close>

definition seg :: "bytes list \<Rightarrow> nat \<Rightarrow> nat \<Rightarrow> bytes list" where
  "seg xs a l = take (2 ^ l) (drop a xs)"

definition twins :: "(bytes \<Rightarrow> bytes) \<Rightarrow> bytes list \<Rightarrow> nat \<Rightarrow> nat \<Rightarrow> bool" where
  "twins H xs j i \<longleftrightarrow> node H j (seg xs (i * 2 ^ Suc j) j) = node H j (seg xs (i * 2 ^ Suc j + 2 ^ j) j)"

definition has_twins :: "(bytes \<Rightarrow> bytes) \<Rightarrow> bytes list \<Rightarrow> bool" where
  "has_twins H xs \<longleftrightarrow> (\<exists>j i. (i + 1) * 2 ^ Suc j \<le> length xs \<and> twins H xs j i)"


section \<open>Bits of the counter\<close>

lemma bit_u32: "bit (word_of_nat C :: u32) l \<longleftrightarrow> l < 32 \<and> bit C l"
  by (simp add: bit_of_nat_iff)

lemma dvd_next: "2 ^ l dvd C \<Longrightarrow> \<not> bit C l \<Longrightarrow> 2 ^ Suc l dvd C" for C :: nat
  by (auto simp: bit_iff_odd dvd_def)

lemma low_bits: "2 ^ l dvd C \<Longrightarrow> j < l \<Longrightarrow> \<not> bit C j" for C :: nat
proof -
  assume "2 ^ l dvd C" "j < l"
  then have "2 ^ Suc j dvd C" by (meson Suc_leI dvd_trans le_imp_power_dvd)
  then show ?thesis by (auto simp: bit_iff_odd dvd_def)
qed

lemma div_in: "m * 2 ^ l \<le> x \<Longrightarrow> x < m * 2 ^ l + 2 ^ l \<Longrightarrow> x div 2 ^ l = m" for x :: nat
  by (intro div_nat_eqI) (simp_all add: mult.commute)

lemma borrow:
  fixes C :: nat
  assumes "2 ^ Suc l dvd C" "0 < C"
  shows "bit (C - 1) l" "(C - 1) div 2 ^ Suc l * 2 ^ Suc l = C - 2 ^ Suc l"
proof -
  obtain k where k: "C = 2 ^ Suc l * Suc k" using assms by (metis dvd_def gr0_implies_Suc mult_0_right not_gr0)
  have e: "C - 1 = (2 * k + 1) * 2 ^ l + (2 ^ l - 1)" using k by (simp add: algebra_simps)
  have q: "(C - 1) div 2 ^ l = 2 * k + 1" unfolding e by (intro div_in le_add1) simp
  then show "bit (C - 1) l" by (simp add: bit_iff_odd)
  have e': "C - 1 = k * 2 ^ Suc l + (2 ^ Suc l - 1)" using k by (simp add: algebra_simps)
  have "(C - 1) div 2 ^ Suc l = k" unfolding e' by (intro div_in le_add1) simp
  then show "(C - 1) div 2 ^ Suc l * 2 ^ Suc l = C - 2 ^ Suc l" using k by simp
qed

lemma dvd_less_add: "d dvd a \<Longrightarrow> d dvd b \<Longrightarrow> a < b \<Longrightarrow> a + d \<le> b" for a :: nat
  using dvd_imp_le [of d "b - a"] dvd_diff_nat [of d b a] by simp

lemma set_bit_start:
  fixes C :: nat
  assumes "2 ^ l dvd C" "bit C l"
  shows "C div 2 ^ Suc l * 2 ^ Suc l = C - 2 ^ l"
proof -
  obtain k where k: "C = 2 ^ l * k" using assms(1) by blast
  have "odd k" using assms(2) k by (simp add: bit_iff_odd)
  then obtain m where m: "k = 2 * m + 1" by (rule oddE)
  have "C div 2 ^ Suc l = m" using k m by (intro div_in) (simp_all add: algebra_simps)
  then show ?thesis using k m by (simp add: algebra_simps)
qed

lemma bit_bound: "bit C l \<Longrightarrow> 2 ^ l \<le> C" for C :: nat
  by (rule ccontr) (simp add: bit_iff_odd)

lemma dvd_carry:
  fixes C :: nat
  assumes "2 ^ l dvd C" "bit C l"
  shows "2 ^ Suc l dvd C + 2 ^ l"
proof -
  have "C + 2 ^ l = (C div 2 ^ Suc l + 1) * 2 ^ Suc l"
    using set_bit_start [OF assms] bit_bound [OF assms(2)] by (simp add: algebra_simps)
  then show ?thesis by (metis dvd_triv_right)
qed

text \<open>A number in \<open>(C - 2 ^ l, C)\<close> has the bits of \<open>C - 2 ^ l\<close> from \<open>l\<close> on.\<close>

lemma high_div:
  fixes C :: nat
  assumes "2 ^ l dvd C" "C - 2 ^ l \<le> n" "n < C" "l \<le> j"
  shows "n div 2 ^ j = (C - 1) div 2 ^ j"
proof -
  obtain k where k: "C = 2 ^ l * k" using assms(1) by blast
  then obtain k' where k': "k = Suc k'" using assms(3) by (cases k) auto
  have C: "C = k' * 2 ^ l + 2 ^ l" using k k' by simp
  have "n div 2 ^ l = k'" "(C - 1) div 2 ^ l = k'" using assms(2,3) C by (intro div_in; simp)+
  moreover have "x div 2 ^ j = x div 2 ^ l div 2 ^ (j - l)" for x :: nat
    using assms(4) by (simp add: div_mult2_eq [symmetric] power_add [symmetric])
  ultimately show ?thesis by simp
qed

lemma tree_height_bounds: "n \<le> 2 ^ tree_height n \<and> (tree_height n \<noteq> 0 \<longrightarrow> 2 ^ (tree_height n - 1) < n)"
proof (induction n rule: tree_height.induct)
  case (1 n)
  show ?case
  proof (cases "n \<le> 1")
    case True
    then show ?thesis by (simp add: tree_height.simps)
  next
    case False
    let ?m = "(n + 1) div 2"
    have IH: "?m \<le> 2 ^ tree_height ?m" "tree_height ?m \<noteq> 0 \<Longrightarrow> 2 ^ (tree_height ?m - 1) < ?m" using 1 False by auto
    have h: "tree_height n = Suc (tree_height ?m)" using False by (subst tree_height.simps) simp
    have "2 ^ tree_height ?m < n"
    proof (cases "tree_height ?m")
      case (Suc k)
      then have "2 ^ k < ?m" using IH(2) by simp
      then have "2 * 2 ^ k < n" by linarith
      then show ?thesis using Suc by simp
    qed (use False in simp)
    then show ?thesis using IH(1) h by simp
  qed
qed

lemma tree_height_unique: "n \<le> 2 ^ l \<Longrightarrow> (2 :: nat) ^ l \<le> 2 ^ tree_height n \<Longrightarrow> l = tree_height n"
proof (rule ccontr)
  assume a: "n \<le> 2 ^ l" "(2 :: nat) ^ l \<le> 2 ^ tree_height n" "l \<noteq> tree_height n"
  then have "l \<le> tree_height n" by (simp add: power_increasing_iff)
  then have "l \<le> tree_height n - 1" "tree_height n \<noteq> 0" using a(3) by auto
  then have "(2 :: nat) ^ l \<le> 2 ^ (tree_height n - 1)" by (intro power_increasing) simp_all
  then show False using a(1) tree_height_bounds [of n] \<open>tree_height n \<noteq> 0\<close> by linarith
qed

lemma tree_height_le: "n \<le> 2 ^ l \<Longrightarrow> tree_height n \<le> l"
proof (rule ccontr)
  assume a: "n \<le> 2 ^ l" "\<not> tree_height n \<le> l"
  then have "(2 :: nat) ^ l \<le> 2 ^ (tree_height n - 1)" by (intro power_increasing) simp_all
  moreover have "2 ^ (tree_height n - 1) < n" using a(2) tree_height_bounds [of n] by auto
  ultimately show False using a(1) by linarith
qed

lemma bit_below:
  fixes C :: nat
  assumes "2 ^ l dvd C" "C - 2 ^ l < n" "n < C" "bit C l"
  shows "\<not> bit n l"
proof -
  have "Suc ((C - 1) div 2 ^ l) = C div 2 ^ l" using assms(1,3) div_Suc [of "C - 1" "2 ^ l"] by (simp add: dvd_eq_mod_eq_0)
  moreover have "n div 2 ^ l = (C - 1) div 2 ^ l" by (rule high_div [OF assms(1) less_imp_le [OF assms(2)] assms(3) order_refl])
  ultimately show ?thesis using assms(4) unfolding bit_iff_odd by (metis even_Suc)
qed

section \<open>The branch\<close>

lemma branch_loop_append:
  "branch_loop H h (br @ [x]) i =
     (if bit i (length br) then H (x @ branch_loop H h br i) else H (branch_loop H h br i @ x))"
  by (induction br arbitrary: h i) (simp_all add: bit_drop_bit_eq)


section \<open>The loop over the leaves\<close>

text \<open>
  What \<open>inner\<close> holds when \<open>c\<close> leaves are processed, which siblings have been compared, and where the leaf at the
  position asked for is: under \<open>inner[m]\<close>, of which the branch so far gives the value.
\<close>

definition inner_inv :: "(bytes \<Rightarrow> bytes) \<Rightarrow> bytes list \<Rightarrow> nat \<Rightarrow> merkle_state \<Rightarrow> bool" where
  "inner_inv H xs c st \<longleftrightarrow> (\<forall>j. bit c j \<longrightarrow> mk_inner st j = node H j (seg xs (c div 2 ^ Suc j * 2 ^ Suc j) j))"

definition twins_upto :: "(bytes \<Rightarrow> bytes) \<Rightarrow> bytes list \<Rightarrow> nat \<Rightarrow> bool" where
  "twins_upto H xs c \<longleftrightarrow> (\<exists>j i. (i + 1) * 2 ^ Suc j \<le> c \<and> twins H xs j i)"

definition lies_under :: "nat \<Rightarrow> nat \<Rightarrow> nat \<Rightarrow> bool" where
  "lies_under c pos m \<longleftrightarrow> bit c m \<and> c div 2 ^ Suc m * 2 ^ Suc m \<le> pos \<and> pos < c div 2 ^ Suc m * 2 ^ Suc m + 2 ^ m"

definition found :: "(bytes \<Rightarrow> bytes) \<Rightarrow> bytes list \<Rightarrow> nat \<Rightarrow> bytes list \<Rightarrow> nat \<Rightarrow> bytes \<Rightarrow> bool" where
  "found H xs pos br level h \<longleftrightarrow> length br = level \<and> branch_loop H (xs ! pos) br (word_of_nat pos) = h"

definition pos_inv :: "(bytes \<Rightarrow> bytes) \<Rightarrow> bytes list \<Rightarrow> nat \<Rightarrow> nat \<Rightarrow> merkle_state \<Rightarrow> bool" where
  "pos_inv H xs pos c st \<longleftrightarrow>
     (if pos < c then \<exists>m. mk_matchlevel st = int m \<and> lies_under c pos m \<and> found H xs pos (mk_branch st) m (mk_inner st m)
      else mk_matchlevel st = - 1 \<and> mk_branch st = [])"

text \<open>The position while the leaf number \<open>c\<close> is merged: in the node \<open>h\<close> that ends at \<open>C\<close>, or not yet reached.\<close>

definition pos_step :: "(bytes \<Rightarrow> bytes) \<Rightarrow> bytes list \<Rightarrow> nat \<Rightarrow> nat \<Rightarrow> nat \<Rightarrow> nat \<Rightarrow> bytes \<Rightarrow> bool \<Rightarrow> merkle_state \<Rightarrow> bool" where
  "pos_step H xs pos c C level h matchh st \<longleftrightarrow>
     (if matchh then C - 2 ^ level \<le> pos \<and> pos < C \<and> found H xs pos (mk_branch st) level h
      else if pos < c then
        \<exists>m\<ge>level. mk_matchlevel st = int m \<and> lies_under c pos m \<and> found H xs pos (mk_branch st) m (mk_inner st m)
      else C \<le> pos \<and> mk_matchlevel st = - 1 \<and> mk_branch st = [])"

lemma node_full:
  assumes "length xs \<ge> a + 2 ^ Suc l"
  shows "node H (Suc l) (seg xs a (Suc l)) = H (node H l (seg xs a l) @ node H l (seg xs (a + 2 ^ l) l))"
  using assms by (simp add: seg_def drop_take min_def add.commute)

lemma found_append:
  assumes "found H xs pos br level h" "pos < 2 ^ 32"
  shows "bit pos level \<Longrightarrow> found H xs pos (br @ [x]) (Suc level) (H (x @ h))"
    and "\<not> bit pos level \<Longrightarrow> found H xs pos (br @ [x]) (Suc level) (H (h @ x))"
    and "found H xs pos (br @ [h]) (Suc level) (H (h @ h))"
proof -
  have "bit (word_of_nat pos :: u32) level \<longleftrightarrow> bit pos level"
  proof (cases "level < 32")
    case False
    then have "pos < 2 ^ level" using assms(2) by (meson leI order_less_le_trans power_increasing one_le_numeral)
    then show ?thesis using False by (simp add: bit_u32) (simp add: bit_iff_odd)
  qed (simp add: bit_u32)
  then show "bit pos level \<Longrightarrow> found H xs pos (br @ [x]) (Suc level) (H (x @ h))"
    "\<not> bit pos level \<Longrightarrow> found H xs pos (br @ [x]) (Suc level) (H (h @ x))"
    "found H xs pos (br @ [h]) (Suc level) (H (h @ h))"
    using assms(1) by (auto simp: found_def branch_loop_append)
qed

text \<open>The bit of a position tells in which half of a node it is.\<close>

lemma bit_of_half:
  fixes C :: nat
  assumes "2 ^ Suc l dvd C" "C - 2 ^ Suc l \<le> pos" "pos < C"
  shows "bit pos l \<longleftrightarrow> C - 2 ^ l \<le> pos"
proof -
  obtain k where "C = 2 ^ Suc l * k" using assms(1) by blast
  then obtain k' where C: "C = 2 * k' * 2 ^ l + 2 ^ l + 2 ^ l" using assms(3) by (cases k) (auto simp: algebra_simps)
  show ?thesis
  proof (cases "C - 2 ^ l \<le> pos")
    case True
    then show ?thesis using div_in [of "2 * k' + 1" l pos] assms(3) C by (simp add: bit_iff_odd)
  next
    case False
    then show ?thesis using div_in [of "2 * k'" l pos] assms(2) C by (simp add: bit_iff_odd)
  qed
qed

text \<open>
  One combination: the node that ends at \<open>C\<close> joins its left sibling, which is \<open>inner[level]\<close>. It is the same step while
  leaves are merged, where \<open>c\<close> is \<open>C - 1\<close>, and in the final sweep, where \<open>c\<close> is the number of leaves.
\<close>

lemma pos_step_combine:
  assumes dvd: "2 ^ Suc level dvd C" and c: "C - 2 ^ level \<le> c" "c < C" and lt: "C \<le> 2 ^ 32"
    and pb: "pbranch \<or> C \<le> pos" and st: "pos_step H xs pos c C level h matchh st"
    and bs: "branch_step pbranch level h matchh st = (matchh', br)"
  shows "pos_step H xs pos c C (Suc level) (H (mk_inner st level @ h)) matchh' (st\<lparr>mk_branch := br, mk_mutated := u\<rparr>)"
proof -
  have le: "2 ^ Suc level \<le> C" using dvd c by (intro dvd_imp_le) simp_all
  have bc: "c div 2 ^ Suc level = (C - 1) div 2 ^ Suc level" "c div 2 ^ level = (C - 1) div 2 ^ level"
    using high_div [of level C c "Suc level"] high_div [of level C c level] dvd c by (auto elim: dvd_trans [rotated])
  have start: "c div 2 ^ Suc level * 2 ^ Suc level = C - 2 ^ Suc level"
    using borrow(2) [OF dvd] bc(1) c(2) by simp
  show ?thesis
  proof (cases matchh)
    case True
    then have p: "C - 2 ^ level \<le> pos" "pos < C" "found H xs pos (mk_branch st) level h" using st by (auto simp: pos_step_def)
    have "bit pos level" using bit_of_half [OF dvd _ p(2)] p(1) by simp
    moreover have "pbranch" "matchh'" "br = mk_branch st @ [mk_inner st level]" using pb p(2) bs True by (auto simp: branch_step_def)
    ultimately show ?thesis using p found_append(1) [OF p(3)] lt by (auto simp: pos_step_def)
  next
    case False
    show ?thesis
    proof (cases "pos < c")
      case True
      then obtain m where m: "m \<ge> level" "mk_matchlevel st = int m" "lies_under c pos m"
        "found H xs pos (mk_branch st) m (mk_inner st m)" using st False by (auto simp: pos_step_def)
      have pb': pbranch using pb True c(2) by simp
      show ?thesis
      proof (cases "m = level")
        case True
        then have p: "C - 2 ^ Suc level \<le> pos" "pos < C - 2 ^ level" using m(3) start le by (auto simp: lies_under_def)
        then have "\<not> bit pos level" using bit_of_half [OF dvd] by simp
        moreover have "matchh'" "br = mk_branch st @ [h]" using bs False True m(2) pb' by (auto simp: branch_step_def)
        ultimately show ?thesis using p m(4) True found_append(2) [of H xs pos "mk_branch st" level] lt by (auto simp: pos_step_def)
      next
        case neq: False
        then have "matchh' = False" "br = mk_branch st" using bs False m(2) by (auto simp: branch_step_def split: if_splits)
        then show ?thesis using m neq True by (auto simp: pos_step_def intro!: exI [of _ m])
      qed
    next
      case nlt: False
      then have "C \<le> pos" "mk_matchlevel st = - 1" "mk_branch st = []" using st False by (auto simp: pos_step_def)
      moreover have "matchh' = False" "br = mk_branch st" using bs False calculation(2) by (auto simp: branch_step_def split: if_splits)
      ultimately show ?thesis using nlt by (simp add: pos_step_def)
    qed
  qed
qed


lemma inner_left:
  assumes dvd: "2 ^ Suc level dvd C" and c: "C - 2 ^ level \<le> c" "c < C" and st: "inner_inv H xs c st"
  shows "mk_inner st level = node H level (seg xs (C - 2 ^ Suc level) level)"
proof -
  have d: "2 ^ level dvd C" using dvd by (auto elim: dvd_trans [rotated])
  have "bit c level" using borrow(1) [OF dvd] high_div [OF d c, of level] c(2) by (simp add: bit_iff_odd)
  moreover have "c div 2 ^ Suc level * 2 ^ Suc level = C - 2 ^ Suc level"
    using borrow(2) [OF dvd] high_div [OF d c, of "Suc level"] c(2) by simp
  ultimately show ?thesis using st unfolding inner_inv_def by metis
qed

lemma merge_loop_inv:
  fixes C :: nat
  assumes C: "C = Suc c" "C \<le> length xs" "C < 2 ^ 32" and pb: "pbranch \<or> C \<le> pos"
  shows "fuel + level = 32 \<Longrightarrow> 2 ^ level dvd C \<Longrightarrow> h = node H level (seg xs (C - 2 ^ level) level) \<Longrightarrow> inner_inv H xs c st \<Longrightarrow>
    (mk_mutated st \<longleftrightarrow> twins_upto H xs c \<or> (\<exists>j<level. twins H xs j (C div 2 ^ Suc j - 1))) \<Longrightarrow>
    pos_step H xs pos c C level h matchh st \<Longrightarrow>
    \<exists>l h' m' st'. merge_loop fuel H pbranch (word_of_nat C) level h matchh st = Some (l, h', m', st')
      \<and> 2 ^ l dvd C \<and> bit C l \<and> h' = node H l (seg xs (C - 2 ^ l) l) \<and> mk_inner st' = mk_inner st
      \<and> (mk_mutated st' \<longleftrightarrow> twins_upto H xs c \<or> (\<exists>j<l. twins H xs j (C div 2 ^ Suc j - 1)))
      \<and> pos_step H xs pos c C l h' m' st'"
proof (induction fuel arbitrary: level h matchh st)
  case 0
  then have "2 ^ 32 dvd C" by simp
  then show ?case using C dvd_imp_le [of "2 ^ 32" C] by simp
next
  case (Suc fuel)
  show ?case
  proof (cases "bit C level")
    case True
    then show ?thesis using Suc.prems by (simp add: bit_u32)
  next
    case False
    have dvd: "2 ^ Suc level dvd C" by (rule dvd_next [OF Suc.prems(2) False])
    have c: "C - 2 ^ level \<le> c" "c < C" using C(1) one_le_power [of "2 :: nat" level] by linarith+
    have le: "2 ^ Suc level \<le> C" using dvd C(1) by (intro dvd_imp_le) simp_all
    obtain m' br where bs: "branch_step pbranch level h matchh st = (m', br)" by fastforce
    let ?h = "H (mk_inner st level @ h)" and ?u = "mk_mutated st \<or> mk_inner st level = h"
    let ?st = "st\<lparr>mk_branch := br, mk_mutated := ?u\<rparr>"
    have il: "mk_inner st level = node H level (seg xs (C - 2 ^ Suc level) level)" by (rule inner_left [OF dvd c Suc.prems(4)])
    have half: "C - 2 ^ Suc level + 2 ^ level = C - 2 ^ level" using le by simp
    have h: "?h = node H (Suc level) (seg xs (C - 2 ^ Suc level) (Suc level))"
      unfolding il Suc.prems(3) by (subst node_full) (use le C(2) half in simp_all)
    have "(C div 2 ^ Suc level - 1) * 2 ^ Suc level = C - 2 ^ Suc level" using dvd by (simp add: diff_mult_distrib)
    then have "mk_inner st level = h \<longleftrightarrow> twins H xs level (C div 2 ^ Suc level - 1)"
      unfolding il Suc.prems(3) twins_def by (simp only: half)
    then have u: "?u \<longleftrightarrow> twins_upto H xs c \<or> (\<exists>j<Suc level. twins H xs j (C div 2 ^ Suc j - 1))"
      using Suc.prems(5) by (auto simp: less_Suc_eq)
    have inn: "inner_inv H xs c ?st" using Suc.prems(4) by (simp add: inner_inv_def)
    have ps: "pos_step H xs pos c C (Suc level) ?h m' ?st"
      using pos_step_combine [OF dvd c _ pb Suc.prems(6) bs] C(3) by simp
    have f: "fuel + Suc level = 32" using Suc.prems(1) by simp
    from Suc.IH [OF f dvd h inn _ ps] u show ?thesis using False by (simp add: bit_u32 bs)
  qed
qed

lemma twins_upto_Suc:
  assumes C: "C = Suc c" "2 ^ l dvd C" "bit C l"
  shows "twins_upto H xs C \<longleftrightarrow> twins_upto H xs c \<or> (\<exists>j<l. twins H xs j (C div 2 ^ Suc j - 1))"
proof -
  have "(i + 1) * 2 ^ Suc j = C \<longleftrightarrow> j < l \<and> i = C div 2 ^ Suc j - 1" for i j
  proof
    assume e: "(i + 1) * 2 ^ Suc j = C"
    then have "2 ^ Suc j dvd C" by (metis dvd_triv_right)
    then have "\<not> l < Suc j" using low_bits [of "Suc j" C l] C(3) by blast
    then show "j < l \<and> i = C div 2 ^ Suc j - 1" using e by auto
  next
    assume j: "j < l \<and> i = C div 2 ^ Suc j - 1"
    then have d: "2 ^ Suc j dvd C" using C(2) by (meson Suc_leI dvd_trans le_imp_power_dvd)
    then have "0 < C div 2 ^ Suc j" using C(1) by (simp add: div_greater_zero_iff dvd_imp_le)
    then show "(i + 1) * 2 ^ Suc j = C" using j d by simp
  qed
  then show ?thesis unfolding twins_upto_def C(1) le_Suc_eq by (metis C(1))
qed

lemma inner_inv_store:
  assumes C: "C = Suc c" "2 ^ l dvd C" "bit C l" and inn: "inner_inv H xs c st" and i: "mk_inner st' = (mk_inner st)(l := h)"
    and h: "h = node H l (seg xs (C - 2 ^ l) l)"
  shows "inner_inv H xs C st'"
proof -
  have "mk_inner st' j = node H j (seg xs (C div 2 ^ Suc j * 2 ^ Suc j) j)" if j: "bit C j" for j
  proof (cases "j = l")
    case True
    then show ?thesis using set_bit_start [OF C(2,3)] i h by simp
  next
    case False
    then have lj: "l < j" using low_bits [OF C(2)] j by (meson nat_neq_iff)
    have e: "c div 2 ^ k = C div 2 ^ k" if "l < k" for k
    proof -
      have "\<not> 2 ^ k dvd C" using that C(3) low_bits by blast
      then show ?thesis using C(1) by (simp add: div_Suc dvd_eq_mod_eq_0)
    qed
    then show ?thesis using inn j lj False e [of j] e [of "Suc j"] i by (simp add: inner_inv_def bit_iff_odd)
  qed
  then show ?thesis by (simp add: inner_inv_def)
qed

lemma under_Suc:
  assumes C: "C = Suc c" "2 ^ l dvd C" "bit C l" and u: "lies_under c pos m" "l \<le> m"
  shows "l < m" "lies_under C pos m"
proof -
  have e: "c div 2 ^ k = C div 2 ^ k" if "l < k" for k
  proof -
    have "\<not> 2 ^ k dvd C" using that C(3) low_bits by blast
    then show ?thesis using C(1) by (simp add: div_Suc dvd_eq_mod_eq_0)
  qed
  have "c div 2 ^ l = C div 2 ^ l - 1" using C(1,2) by (simp add: div_Suc dvd_eq_mod_eq_0)
  then have "\<not> bit c l" using C(3) by (auto simp: bit_iff_odd)
  then show lm: "l < m" using u by (auto simp: lies_under_def le_less)
  then show "lies_under C pos m" using u(1) e [of m] e [of "Suc m"] by (simp add: lies_under_def bit_iff_odd)
qed

lemma pos_inv_store:
  assumes C: "C = Suc c" "2 ^ l dvd C" "bit C l" and ps: "pos_step H xs pos c C l h m st"
  shows "pos_inv H xs pos C (st\<lparr>mk_inner := (mk_inner st)(l := h), mk_matchlevel := (if m then int l else mk_matchlevel st)\<rparr>)"
proof (cases m)
  case True
  then have p: "C - 2 ^ l \<le> pos" "pos < C" "found H xs pos (mk_branch st) l h" using ps by (auto simp: pos_step_def)
  have "2 ^ l \<le> C" using C(1,2) by (intro dvd_imp_le) simp_all
  then have "lies_under C pos l" using p(1,2) C(3) unfolding lies_under_def set_bit_start [OF C(2,3)] by simp
  then show ?thesis using p True by (simp add: pos_inv_def)
next
  case False
  show ?thesis
  proof (cases "pos < c")
    case True
    then obtain k where k: "k \<ge> l" "mk_matchlevel st = int k" "lies_under c pos k" "found H xs pos (mk_branch st) k (mk_inner st k)"
      using ps False by (auto simp: pos_step_def)
    then show ?thesis using under_Suc [OF C k(3,1)] True False C(1) by (auto simp: pos_inv_def)
  next
    case nlt: False
    then show ?thesis using ps False by (auto simp: pos_step_def pos_inv_def)
  qed
qed

lemma leaf_loop_inv:
  assumes len: "length xs < 2 ^ 32" and pb: "pbranch \<or> length xs \<le> pos" and pos: "pos < 2 ^ 32"
  shows "ys = drop c xs \<Longrightarrow> c \<le> length xs \<Longrightarrow> inner_inv H xs c st \<Longrightarrow> (mk_mutated st \<longleftrightarrow> twins_upto H xs c) \<Longrightarrow> pos_inv H xs pos c st \<Longrightarrow>
    \<exists>st'. leaf_loop H pbranch (word_of_nat pos) ys (word_of_nat c) st = Some (word_of_nat (length xs), st')
      \<and> inner_inv H xs (length xs) st' \<and> (mk_mutated st' \<longleftrightarrow> twins_upto H xs (length xs)) \<and> pos_inv H xs pos (length xs) st'"
proof (induction ys arbitrary: c st)
  case Nil
  then have "c = length xs" by simp
  then show ?case using Nil by simp
next
  case (Cons y ys)
  define C where "C = Suc c"
  have lt: "c < length xs" using Cons.prems(1) by (simp flip: not_le) (metis drop_all list.distinct(1))
  then have "y # ys = xs ! c # drop C xs" using Cons.prems(1) Cons_nth_drop_Suc [OF lt] by (simp only: C_def)
  then have c: "c < length xs" "y = xs ! c" "ys = drop C xs" using lt by simp_all
  have C: "C = Suc c" "C \<le> length xs" "C < 2 ^ 32" using c(1) len by (auto simp: C_def)
  have wC: "(word_of_nat c :: u32) + 1 = word_of_nat C" by (simp add: C_def)
  have m0: "(word_of_nat c :: u32) = word_of_nat pos \<longleftrightarrow> c = pos"
    using C pos by (simp add: word_of_nat_eq_iff take_bit_eq_mod)
  have ps: "pos_step H xs pos c C 0 y (c = pos) st"
    using Cons.prems(5) c(2) by (auto simp: pos_step_def pos_inv_def found_def C_def)
  have h0: "y = node H 0 (seg xs (C - 2 ^ 0) 0)" using c(1,2) by (simp add: seg_def C_def hd_drop_conv_nth take_Suc)
  obtain l h m st' where r: "merge_loop 32 H pbranch (word_of_nat C) 0 y (c = pos) st = Some (l, h, m, st')" "2 ^ l dvd C" "bit C l"
    "h = node H l (seg xs (C - 2 ^ l) l)" "mk_inner st' = mk_inner st"
    "mk_mutated st' \<longleftrightarrow> twins_upto H xs c \<or> (\<exists>j<l. twins H xs j (C div 2 ^ Suc j - 1))"
    "pos_step H xs pos c C l h m st'"
    using merge_loop_inv [OF C _ _ _ h0 Cons.prems(3) _ ps, of pbranch 32] pb c(1) Cons.prems(4) C(2) by fastforce
  define st'' where "st'' = st'\<lparr>mk_inner := (mk_inner st')(l := h), mk_matchlevel := (if m then int l else mk_matchlevel st')\<rparr>"
  have inn: "inner_inv H xs C st''"
    using inner_inv_store [OF C(1) r(2,3) Cons.prems(3) _ r(4)] r(5) by (simp add: st''_def)
  have mut: "mk_mutated st'' \<longleftrightarrow> twins_upto H xs C" using r(6) twins_upto_Suc [OF C(1) r(2,3)] by (simp add: st''_def)
  have "pos_inv H xs pos C st''" unfolding st''_def by (rule pos_inv_store [OF C(1) r(2,3,7)])
  from Cons.IH [OF c(3) C(2) inn mut this] show ?case
    unfolding leaf_loop.simps wC m0 r(1) by (simp add: st''_def)
qed


section \<open>The final sweep\<close>

lemma lowest_level_ok:
  "fuel + level = 32 \<Longrightarrow> 2 ^ level dvd C \<Longrightarrow> 0 < C \<Longrightarrow> C < 2 ^ 32 \<Longrightarrow>
    \<exists>l. lowest_level fuel (word_of_nat C) level = Some l \<and> 2 ^ l dvd C \<and> bit C l \<and> l < 32" for C :: nat
proof (induction fuel arbitrary: level)
  case 0
  then show ?case using dvd_imp_le [of "2 ^ 32" C] by simp
next
  case (Suc fuel)
  show ?case
  proof (cases "bit C level")
    case True
    then show ?thesis using Suc.prems by (simp add: bit_u32)
  next
    case False
    then show ?thesis using Suc.IH [OF _ dvd_next [OF Suc.prems(2) False]] Suc.prems by (simp add: bit_u32)
  qed
qed

lemma node_dup: "length xs \<le> 2 ^ l \<Longrightarrow> node H (Suc l) xs = H (node H l xs @ node H l xs)"
  by simp

lemma node_join:
  assumes "2 ^ Suc l \<le> C" "C - 2 ^ l < length xs"
  shows "node H (Suc l) (drop (C - 2 ^ Suc l) xs) =
    H (node H l (seg xs (C - 2 ^ Suc l) l) @ node H l (drop (C - 2 ^ l) xs))"
proof -
  have "2 ^ l + (C - 2 ^ Suc l) = C - 2 ^ l" using assms(1) by simp
  moreover have "\<not> length xs - (C - 2 ^ Suc l) \<le> 2 ^ l" using assms by simp
  ultimately show ?thesis by (simp add: seg_def)
qed

text \<open>
  The state of the sweep: \<open>h\<close> is the node of the height \<open>level\<close> over the last leaves, which would end at \<open>C\<close> if it were
  full.
\<close>

definition sweep_inv :: "(bytes \<Rightarrow> bytes) \<Rightarrow> bytes list \<Rightarrow> nat \<Rightarrow> nat \<Rightarrow> nat \<Rightarrow> bytes \<Rightarrow> bool \<Rightarrow> merkle_state \<Rightarrow> bool" where
  "sweep_inv H xs pos C level h matchh st \<longleftrightarrow>
     2 ^ level dvd C \<and> C - 2 ^ level < length xs \<and> length xs \<le> C \<and> C \<le> 2 ^ tree_height (length xs)
     \<and> h = node H level (drop (C - 2 ^ level) xs) \<and> inner_inv H xs (length xs) st
     \<and> pos_step H xs pos (length xs) C level h matchh st"

lemma sweep_inv_combine:
  assumes inv: "sweep_inv H xs pos C level h matchh st" and n: "length xs < C" and lim: "C \<le> 2 ^ 31" and pb: "pbranch \<or> C \<le> pos"
    and b: "\<not> bit C level" and bs: "branch_step pbranch level h matchh st = (matchh', br)"
  shows "sweep_inv H xs pos C (Suc level) (H (mk_inner st level @ h)) matchh' (st\<lparr>mk_branch := br\<rparr>)"
proof -
  let ?n = "length xs"
  have i: "2 ^ level dvd C" "C - 2 ^ level < ?n" "?n \<le> C" "h = node H level (drop (C - 2 ^ level) xs)" "inner_inv H xs ?n st"
    "pos_step H xs pos ?n C level h matchh st" "C \<le> 2 ^ tree_height ?n" using inv by (auto simp: sweep_inv_def)
  have dvd: "2 ^ Suc level dvd C" by (rule dvd_next [OF i(1) b])
  have le: "2 ^ Suc level \<le> C" using dvd n by (intro dvd_imp_le) simp_all
  have c: "C - 2 ^ level \<le> ?n" using i(2) by simp
  have "C - 2 ^ Suc level < ?n" using i(2) le by simp
  moreover have "H (mk_inner st level @ h) = node H (Suc level) (drop (C - 2 ^ Suc level) xs)"
    unfolding inner_left [OF dvd c n i(5)] i(4) by (rule node_join [OF le i(2), symmetric])
  moreover have "inner_inv H xs ?n (st\<lparr>mk_branch := br\<rparr>)" using i(5) by (simp add: inner_inv_def)
  moreover have "pos_step H xs pos ?n C (Suc level) (H (mk_inner st level @ h)) matchh' (st\<lparr>mk_branch := br\<rparr>)"
    using pos_step_combine [OF dvd c n _ pb i(6) bs, of "mk_mutated st"] lim by simp
  ultimately show ?thesis using dvd i(3,7) by (simp add: sweep_inv_def)
qed

lemma propagate_inv:
  assumes n: "length xs < C" and lim: "C \<le> 2 ^ 31" and pb: "pbranch \<or> C \<le> pos"
  shows "fuel + level = 32 \<Longrightarrow> sweep_inv H xs pos C level h matchh st \<Longrightarrow>
    \<exists>l h' m' st'. propagate fuel H pbranch (word_of_nat C) level h matchh st = Some (l, h', m', st') \<and> level \<le> l
      \<and> bit C l \<and> sweep_inv H xs pos C l h' m' st' \<and> mk_mutated st' = mk_mutated st"
proof (induction fuel arbitrary: level h matchh st)
  case 0
  then have "2 ^ 32 dvd C" by (simp add: sweep_inv_def)
  then show ?case using lim n dvd_imp_le [of "2 ^ 32" C] by simp
next
  case (Suc fuel)
  show ?case
  proof (cases "bit C level")
    case True
    then show ?thesis using Suc.prems by (simp add: bit_u32)
  next
    case False
    obtain m' br where bs: "branch_step pbranch level h matchh st = (m', br)" by fastforce
    have f: "fuel + Suc level = 32" using Suc.prems(1) by simp
    from Suc.IH [OF f sweep_inv_combine [OF Suc.prems(2) n lim pb False bs]] obtain l h' m'' st' where
      "propagate fuel H pbranch (word_of_nat C) (Suc level) (H (mk_inner st level @ h)) m' (st\<lparr>mk_branch := br\<rparr>) = Some (l, h', m'', st')"
      "Suc level \<le> l" "bit C l" "sweep_inv H xs pos C l h' m'' st'" "mk_mutated st' = mk_mutated st" by auto
    then show ?thesis using False by (simp add: bit_u32 bs)
  qed
qed

lemma sweep_inv_dup:
  assumes inv: "sweep_inv H xs pos C level h matchh st" and b: "bit C level" and ne: "C \<noteq> 2 ^ level"
    and ml: "\<not> matchh \<Longrightarrow> mk_matchlevel st \<noteq> int level" and lim: "length xs \<le> 2 ^ 31" and pos: "pos < 2 ^ 32"
    and pb: "if pbranch then pos < length xs else 2 ^ 31 \<le> pos"
  shows "sweep_inv H xs pos (C + 2 ^ level) (Suc level) (H (h @ h)) matchh
      (if pbranch \<and> matchh then st\<lparr>mk_branch := mk_branch st @ [h]\<rparr> else st)"
    and "C + 2 ^ level \<le> 2 ^ 31"
proof -
  let ?n = "length xs" and ?T = "tree_height (length xs)"
  let ?st = "if pbranch \<and> matchh then st\<lparr>mk_branch := mk_branch st @ [h]\<rparr> else st"
  have i: "2 ^ level dvd C" "C - 2 ^ level < ?n" "?n \<le> C" "h = node H level (drop (C - 2 ^ level) xs)" "inner_inv H xs ?n st"
    "pos_step H xs pos ?n C level h matchh st" "C \<le> 2 ^ ?T" using inv by (auto simp: sweep_inv_def)
  have le: "2 ^ level \<le> C" using i(1-3) by (intro dvd_imp_le) simp_all
  then have "(2 :: nat) ^ level \<le> 2 ^ ?T" using i(7) by (rule order_trans)
  then have "level \<le> ?T" by (simp add: power_increasing_iff)
  moreover have "level \<noteq> ?T" using ne i(7) le by (metis le_antisym)
  ultimately have lt: "level < ?T" by simp
  have "C \<noteq> 2 ^ ?T" using b lt by (auto simp: bit_exp_iff)
  then have "C < 2 ^ ?T" using i(7) by simp
  moreover have "2 ^ level dvd (2 :: nat) ^ ?T" using lt by (simp add: le_imp_power_dvd)
  ultimately have top: "C + 2 ^ level \<le> 2 ^ ?T" using dvd_less_add [OF i(1)] by blast
  have "?T \<le> 31" by (rule tree_height_le [OF lim])
  then have "(2 :: nat) ^ ?T \<le> 2 ^ 31" by (intro power_increasing) simp_all
  then show lim': "C + 2 ^ level \<le> 2 ^ 31" using top by linarith
  have eq: "C + 2 ^ level - 2 ^ Suc level = C - 2 ^ level" by simp
  have "H (h @ h) = node H (Suc level) (drop (C - 2 ^ level) xs)"
    using i(2,3) le unfolding i(4) by (subst node_dup) (simp_all add: algebra_simps)
  moreover have "pos_step H xs pos ?n (C + 2 ^ level) (Suc level) (H (h @ h)) matchh ?st"
  proof (cases matchh)
    case True
    then have p: "C - 2 ^ level \<le> pos" "pos < C" "found H xs pos (mk_branch st) level h" using i(6) by (auto simp: pos_step_def)
    then have pbranch using pb lim' by (auto split: if_splits)
    then show ?thesis using True p found_append(3) [OF p(3) pos] eq by (simp add: pos_step_def)
  next
    case False
    then show ?thesis using i(6) ml pb lim' by (auto simp: pos_step_def split: if_splits)
  qed
  moreover have "2 ^ Suc level dvd C + 2 ^ level" by (rule dvd_carry [OF i(1) b])
  ultimately show "sweep_inv H xs pos (C + 2 ^ level) (Suc level) (H (h @ h)) matchh ?st"
    using i top by (simp add: sweep_inv_def inner_inv_def)
qed


lemma sweep_loop_inv:
  assumes lim: "length xs \<le> 2 ^ 31" and pos: "pos < 2 ^ 32" and pb: "if pbranch then pos < length xs else 2 ^ 31 \<le> pos"
  shows "fuel + level \<ge> 32 \<Longrightarrow> sweep_inv H xs pos C level h matchh st \<Longrightarrow> bit C level \<Longrightarrow> C \<le> 2 ^ 31 \<Longrightarrow>
    (\<not> matchh \<Longrightarrow> mk_matchlevel st \<noteq> int level) \<Longrightarrow>
    \<exists>st'. sweep_loop fuel H pbranch (word_of_nat C) level h matchh st = Some (merkle_root H xs, st')
      \<and> mk_mutated st' = mk_mutated st \<and> (pos < length xs \<longrightarrow> found H xs pos (mk_branch st') (tree_height (length xs)) (merkle_root H xs))"
proof (induction fuel arbitrary: C level h matchh st)
  case 0
  then have "(2 :: nat) ^ 32 \<le> 2 ^ level" by (intro power_increasing) simp_all
  then show ?case using bit_bound [OF 0(3)] 0(4) by simp
next
  case (Suc fuel)
  let ?n = "length xs"
  have "(2 :: nat) ^ level \<le> 2 ^ 31" using bit_bound [OF Suc.prems(3)] Suc.prems(4) by (rule order_trans)
  then have "level \<le> 31" by (simp only: power_increasing_iff)
  then have lt: "level < 32" by simp
  have "(2 :: nat) ^ level < 2 ^ 32" using lt by (intro power_strict_increasing) simp_all
  then have w: "(word_of_nat C :: u32) = push_bit level 1 \<longleftrightarrow> C = 2 ^ level"
    using word_of_nat_eq_iff [of C "2 ^ level", where 'a = 32] Suc.prems(4) by (simp add: push_bit_eq_mult take_bit_eq_mod)
  show ?case
  proof (cases "C = 2 ^ level")
    case True
    have i: "?n \<le> C" "C \<le> 2 ^ tree_height ?n" "h = node H level (drop (C - 2 ^ level) xs)" "pos_step H xs pos ?n C level h matchh st"
      using Suc.prems(2) by (auto simp: sweep_inv_def)
    have l: "level = tree_height ?n" using tree_height_unique [of ?n level] i(1,2) True by simp
    have h: "h = merkle_root H xs" using i(3) True l by (simp add: merkle_root_def)
    moreover have "found H xs pos (mk_branch st) level h" if p: "pos < ?n"
    proof (cases matchh)
      case m: False
      then obtain k where k: "k \<ge> level" "mk_matchlevel st = int k" "lies_under ?n pos k" using i(4) p by (auto simp: pos_step_def)
      then have "2 ^ k \<le> ?n" using bit_bound [of ?n k] by (simp add: lies_under_def)
      then have "(2 :: nat) ^ k \<le> 2 ^ level" using i(1) True by linarith
      then have "k = level" using k(1) by (simp add: power_increasing_iff)
      then show ?thesis using Suc.prems(5) [OF m] k(2) by simp
    qed (use i(4) in \<open>simp add: pos_step_def\<close>)
    ultimately show ?thesis using True w l by simp
  next
    case False
    let ?C = "C + 2 ^ level" and ?st = "if pbranch \<and> matchh then st\<lparr>mk_branch := mk_branch st @ [h]\<rparr> else st"
    note dup = sweep_inv_dup [OF Suc.prems(2,3) False Suc.prems(5) lim pos pb]
    have "?n \<le> C" "0 < (2 :: nat) ^ level" using Suc.prems(2) by (simp_all add: sweep_inv_def)
    then have n: "?n < ?C" by linarith
    have f: "32 - Suc level + Suc level = 32" using lt by simp
    have pb': "pbranch \<or> ?C \<le> pos" using pb dup(2) by (auto split: if_splits)
    obtain l h' m' st' where r: "propagate (32 - Suc level) H pbranch (word_of_nat ?C) (Suc level) (H (h @ h)) matchh ?st = Some (l, h', m', st')"
      "Suc level \<le> l" "bit ?C l" "sweep_inv H xs pos ?C l h' m' st'" "mk_mutated st' = mk_mutated ?st"
      using propagate_inv [OF n dup(2) pb' f dup(1)] by blast
    have "\<not> bit ?n l" using r(3,4) n by (intro bit_below [of l ?C]) (auto simp: sweep_inv_def)
    then have "mk_matchlevel st' \<noteq> int l" if "\<not> m'"
      using r(4) that by (auto simp: sweep_inv_def pos_step_def lies_under_def split: if_splits)
    then have "\<exists>st''. sweep_loop fuel H pbranch (word_of_nat ?C) l h' m' st' = Some (merkle_root H xs, st'')
      \<and> mk_mutated st'' = mk_mutated st' \<and> (pos < ?n \<longrightarrow> found H xs pos (mk_branch st'') (tree_height ?n) (merkle_root H xs))"
      using Suc.IH [OF _ r(4,3) dup(2)] r(2) Suc.prems(1) by simp
    moreover have "(word_of_nat C :: u32) + push_bit level 1 = word_of_nat ?C" by simp
    ultimately show ?thesis using False w r(1,5) by (simp add: Let_def split: if_splits)
  qed
qed


section \<open>The computation\<close>

lemma twins_upto_length: "twins_upto H xs (length xs) \<longleftrightarrow> has_twins H xs"
  by (simp add: twins_upto_def has_twins_def)

lemma MerkleComputation_eq:
  assumes n: "xs \<noteq> []" "length xs \<le> 2 ^ 31" and pos: "pos < 2 ^ 32" and pb: "if pbranch then pos < length xs else 2 ^ 31 \<le> pos"
  shows "\<exists>br. MerkleComputation H xs (word_of_nat pos) pbranch = Some (merkle_root H xs, has_twins H xs, br)
    \<and> (pos < length xs \<longrightarrow> found H xs pos br (tree_height (length xs)) (merkle_root H xs))"
proof -
  let ?n = "length xs"
  define st0 where "st0 = \<lparr>mk_inner = \<lambda>_. replicate 32 0, mk_matchlevel = - 1, mk_mutated = False, mk_branch = []\<rparr>"
  have "inner_inv H xs 0 st0" "mk_mutated st0 \<longleftrightarrow> twins_upto H xs 0" "pos_inv H xs pos 0 st0"
    by (simp_all add: inner_inv_def twins_upto_def pos_inv_def st0_def)
  moreover have "pbranch \<or> ?n \<le> pos" "?n < 2 ^ 32" using pb n(2) by (auto split: if_splits)
  ultimately obtain st where st: "leaf_loop H pbranch (word_of_nat pos) xs 0 st0 = Some (word_of_nat ?n, st)"
    "inner_inv H xs ?n st" "mk_mutated st \<longleftrightarrow> has_twins H xs" "pos_inv H xs pos ?n st"
    using leaf_loop_inv [of xs pbranch pos xs 0 H st0] pos by (auto simp: twins_upto_length)
  obtain l where l: "lowest_level 32 (word_of_nat ?n) 0 = Some l" "2 ^ l dvd ?n" "bit ?n l" "l < 32"
    using lowest_level_ok [of 32 0 ?n] n by auto
  let ?h = "mk_inner st l"
  have h: "?h = node H l (drop (?n - 2 ^ l) xs)"
    using st(2) l(3) set_bit_start [OF l(2,3)] bit_bound [OF l(3)] by (simp add: inner_inv_def seg_def)
  have "pos_step H xs pos ?n ?n l ?h (mk_matchlevel st = int l) st"
    using st(4) l(2,3) set_bit_start [OF l(2,3)] bit_bound [OF l(3)] low_bits [OF l(2)] pb n(2)
    by (auto simp: pos_inv_def pos_step_def lies_under_def split: if_splits) (metis leI)+
  then have "sweep_inv H xs pos ?n l ?h (mk_matchlevel st = int l) st"
    using l(2) h st(2) n(1) tree_height_bounds [of ?n] by (simp add: sweep_inv_def)
  from sweep_loop_inv [OF n(2) pos pb _ this l(3) n(2), of 32] obtain st' where
    "sweep_loop 32 H pbranch (word_of_nat ?n) l ?h (mk_matchlevel st = int l) st = Some (merkle_root H xs, st')"
    "mk_mutated st' = mk_mutated st" "pos < ?n \<longrightarrow> found H xs pos (mk_branch st') (tree_height ?n) (merkle_root H xs)" by auto
  then show ?thesis using n(1) st(1,3) l(1) by (simp add: MerkleComputation_def flip: st0_def)
qed


lemma ComputeMerkleRoot_eq:
  assumes "leaves \<noteq> []" "length leaves \<le> 2 ^ 31"
  shows "ComputeMerkleRoot H leaves = Some (merkle_root H leaves, has_twins H leaves)"
proof -
  have "(- 1 :: u32) = word_of_nat (2 ^ 32 - 1)" by simp
  then show ?thesis
    using MerkleComputation_eq [OF assms, of "2 ^ 32 - 1" False H] by (auto simp: ComputeMerkleRoot_def simp del: of_nat_numeral)
qed

section \<open>What the root commits to\<close>

text \<open>The inputs of \<open>H\<close> in the computation of a node.\<close>

primrec hashed :: "(bytes \<Rightarrow> bytes) \<Rightarrow> nat \<Rightarrow> bytes list \<Rightarrow> bytes set" where
  "hashed H 0 xs = {}"
| "hashed H (Suc l) xs =
     (if length xs \<le> 2 ^ l then insert (node H l xs @ node H l xs) (hashed H l xs)
      else insert (node H l (take (2 ^ l) xs) @ node H l (drop (2 ^ l) xs))
             (hashed H l (take (2 ^ l) xs) \<union> hashed H l (drop (2 ^ l) xs)))"

text \<open>Two full siblings of equal value, by recursion on the height.\<close>

primrec twins_below :: "(bytes \<Rightarrow> bytes) \<Rightarrow> nat \<Rightarrow> bytes list \<Rightarrow> bool" where
  "twins_below H 0 xs \<longleftrightarrow> False"
| "twins_below H (Suc l) xs \<longleftrightarrow>
     (if length xs \<le> 2 ^ l then twins_below H l xs
      else twins_below H l (take (2 ^ l) xs) \<or> twins_below H l (drop (2 ^ l) xs)
        \<or> length xs = 2 ^ Suc l \<and> node H l (take (2 ^ l) xs) = node H l (drop (2 ^ l) xs))"

lemma seg_take: "a + 2 ^ j \<le> k \<Longrightarrow> seg (take k xs) a j = seg xs a j"
  by (simp add: seg_def take_drop min_def)

lemma seg_drop: "seg (drop k xs) a j = seg xs (k + a) j"
  by (simp add: seg_def add.commute)

lemma twins_below_has_twins: "twins_below H l xs \<Longrightarrow> length xs \<le> 2 ^ l \<Longrightarrow> has_twins H xs"
proof (induction l arbitrary: xs)
  case (Suc l)
  show ?case
  proof (cases "length xs \<le> 2 ^ l")
    case True
    then show ?thesis using Suc by simp
  next
    case False
    let ?a = "take (2 ^ l) xs" and ?b = "drop (2 ^ l) xs"
    have len: "length ?a \<le> 2 ^ l" "length ?b \<le> 2 ^ l" using Suc.prems(2) by auto
    consider "has_twins H ?a" | "has_twins H ?b" | "length xs = 2 ^ Suc l" "node H l ?a = node H l ?b"
      using Suc.prems(1) Suc.IH [OF _ len(1)] Suc.IH [OF _ len(2)] False by auto
    then show ?thesis
    proof cases
      case 1
      then obtain j i where ji: "(i + 1) * 2 ^ Suc j \<le> length ?a" "twins H ?a j i" by (auto simp: has_twins_def)
      then have le: "(i + 1) * 2 ^ Suc j \<le> 2 ^ l" using False by simp
      then have "twins H xs j i" using ji(2) seg_take [of "i * 2 ^ Suc j" j "2 ^ l" xs] seg_take [of "i * 2 ^ Suc j + 2 ^ j" j "2 ^ l" xs]
        by (simp add: twins_def algebra_simps)
      then show ?thesis using le False unfolding has_twins_def by (meson le_trans nat_le_linear)
    next
      case 2
      then obtain j i where ji: "(i + 1) * 2 ^ Suc j \<le> length ?b" "twins H ?b j i" by (auto simp: has_twins_def)
      then have "2 ^ Suc j \<le> (2 :: nat) ^ l" using len(2) by (simp add: algebra_simps)
      then have "Suc j \<le> l" by (simp only: power_increasing_iff one_less_numeral_iff semiring_norm)
      then obtain d where d: "(2 :: nat) ^ l = d * 2 ^ Suc j" by (metis le_add_diff_inverse2 power_add)
      then have e: "(d + i) * 2 ^ Suc j = 2 ^ l + i * 2 ^ Suc j" by (simp add: algebra_simps)
      have "twins H xs j (d + i)" using ji(2) unfolding twins_def seg_drop e by (simp only: add.assoc)
      moreover have "(d + i + 1) * 2 ^ Suc j \<le> length xs" using ji(1) d False by (simp add: algebra_simps)
      ultimately show ?thesis unfolding has_twins_def by blast
    next
      case 3
      then have "twins H xs l 0" by (simp add: twins_def seg_def)
      then show ?thesis using 3(1) unfolding has_twins_def by (metis add_0 le_refl mult_1)
    qed
  qed
qed simp

lemma node_length:
  assumes "\<And>x. length (H x) = 32" "\<forall>x\<in>set xs. length x = 32" "xs \<noteq> []"
  shows "length (node H l xs) = 32"
  using assms by (cases l) auto

text \<open>The two halves whose nodes are hashed together.\<close>

definition left_half :: "nat \<Rightarrow> bytes list \<Rightarrow> bytes list" where
  "left_half l zs = (if length zs \<le> 2 ^ l then zs else take (2 ^ l) zs)"

definition right_half :: "nat \<Rightarrow> bytes list \<Rightarrow> bytes list" where
  "right_half l zs = (if length zs \<le> 2 ^ l then zs else drop (2 ^ l) zs)"

lemma halves_node:
  "node H (Suc l) zs = H (node H l (left_half l zs) @ node H l (right_half l zs))"
  "hashed H (Suc l) zs = insert (node H l (left_half l zs) @ node H l (right_half l zs))
     (hashed H l (left_half l zs) \<union> hashed H l (right_half l zs))"
  by (simp_all add: left_half_def right_half_def)

lemma halves_ok:
  assumes "zs \<noteq> []" "length zs \<le> 2 ^ Suc l" "\<not> twins_below H (Suc l) zs" "c \<in> {left_half l zs, right_half l zs}"
  shows "c \<noteq> [] \<and> length c \<le> 2 ^ l \<and> set c \<subseteq> set zs \<and> \<not> twins_below H l c \<and> hashed H l c \<subseteq> hashed H (Suc l) zs"
  using assms set_take_subset [of "2 ^ l" zs] set_drop_subset [of "2 ^ l" zs]
  by (auto simp: left_half_def right_half_def split: if_splits)

lemma halves_equal:
  assumes "left_half l zs = right_half l zs" "\<not> twins_below H (Suc l) zs"
  shows "left_half l zs = zs"
proof (rule ccontr)
  assume "left_half l zs \<noteq> zs"
  then have gt: "\<not> length zs \<le> 2 ^ l" by (auto simp: left_half_def)
  then have e: "take (2 ^ l) zs = drop (2 ^ l) zs" using assms(1) by (simp add: left_half_def right_half_def)
  have "length (take (2 ^ l) zs) = length (drop (2 ^ l) zs)" by (simp only: e)
  then have "length zs = 2 ^ Suc l" using gt by simp
  then show False using assms(2) e gt by simp
qed

lemma halves_whole:
  assumes "left_half l xs = left_half l ys" "right_half l xs = right_half l ys"
    "\<not> twins_below H (Suc l) xs" "\<not> twins_below H (Suc l) ys"
  shows "xs = ys"
proof (cases "left_half l xs = xs \<longleftrightarrow> left_half l ys = ys")
  case True
  have app: "left_half l zs @ right_half l zs = zs" if "left_half l zs \<noteq> zs" for zs
    using that by (simp add: left_half_def right_half_def split: if_splits)
  show ?thesis
  proof (cases "left_half l xs = xs")
    case False
    then show ?thesis using app [of xs] app [of ys] assms(1,2) True by simp
  qed (use assms(1) True in simp)
next
  case False
  have "left_half l zs = right_half l zs" if "left_half l zs = zs" for zs
    using that by (simp add: left_half_def right_half_def split: if_splits)
  then have "left_half l xs = right_half l xs" using False assms(1,2) by metis
  then show ?thesis using halves_equal assms False by metis
qed

lemma node_inj:
  assumes len: "\<And>x. length (H x) = 32"
  shows "node H l xs = node H l ys \<Longrightarrow> xs \<noteq> [] \<Longrightarrow> ys \<noteq> [] \<Longrightarrow> length xs \<le> 2 ^ l \<Longrightarrow> length ys \<le> 2 ^ l \<Longrightarrow>
    \<forall>x\<in>set xs \<union> set ys. length x = 32 \<Longrightarrow> \<not> twins_below H l xs \<Longrightarrow> \<not> twins_below H l ys \<Longrightarrow>
    inj_on H (hashed H l xs \<union> hashed H l ys) \<Longrightarrow> xs = ys"
proof (induction l arbitrary: xs ys)
  case 0
  then show ?case by (cases xs; cases ys) auto
next
  case (Suc l)
  let ?lx = "left_half l xs" and ?rx = "right_half l xs" and ?ly = "left_half l ys" and ?ry = "right_half l ys"
  have X: "c \<noteq> [] \<and> length c \<le> 2 ^ l \<and> set c \<subseteq> set xs \<and> \<not> twins_below H l c \<and> hashed H l c \<subseteq> hashed H (Suc l) xs" if "c \<in> {?lx, ?rx}" for c
    by (rule halves_ok [OF Suc.prems(2,4,7) that])
  have Y: "c \<noteq> [] \<and> length c \<le> 2 ^ l \<and> set c \<subseteq> set ys \<and> \<not> twins_below H l c \<and> hashed H l c \<subseteq> hashed H (Suc l) ys" if "c \<in> {?ly, ?ry}" for c
    by (rule halves_ok [OF Suc.prems(3,5,8) that])
  have app: "node H l ?lx @ node H l ?rx = node H l ?ly @ node H l ?ry"
    by (rule inj_onD [OF Suc.prems(9)]) (use Suc.prems(1) in \<open>simp_all only: halves_node Un_iff insert_iff simp_thms\<close>)
  have "length (node H l ?lx) = 32" "length (node H l ?ly) = 32"
    using node_length [of H ?lx l] node_length [of H ?ly l] len X [of ?lx] Y [of ?ly] Suc.prems(6) by blast+
  then have eq: "node H l ?lx = node H l ?ly" "node H l ?rx = node H l ?ry" using app append_eq_append_conv by auto
  have IH: "a = b" if e: "node H l a = node H l b" and a: "a \<in> {?lx, ?rx}" and b: "b \<in> {?ly, ?ry}" for a b
  proof (rule Suc.IH [OF e])
    show "inj_on H (hashed H l a \<union> hashed H l b)" by (rule inj_on_subset [OF Suc.prems(9)]) (use X [OF a] Y [OF b] in blast)
    show "\<forall>x\<in>set a \<union> set b. length x = 32" using X [OF a] Y [OF b] Suc.prems(6) by blast
  qed (use X [OF a] Y [OF b] in simp_all)
  show ?case by (rule halves_whole [OF IH [OF eq(1)] IH [OF eq(2)] Suc.prems(7,8)]) simp_all
qed

section \<open>Properties\<close>

text \<open>A hash of 32 bytes for evaluation, and two leaves.\<close>

definition demo_hash :: "bytes \<Rightarrow> bytes" where
  "demo_hash x = take 32 (drop 16 x @ replicate 32 0)"

definition demo_leaves :: "bytes list" where
  "demo_leaves = [replicate 32 1, replicate 32 2, replicate 32 3]"

lemma demo_hash_length: "length (demo_hash x) = 32"
  by (simp add: demo_hash_def)

lemma demo_leaves_facts: "demo_leaves \<noteq> []" "length demo_leaves = 3" "length demo_leaves \<le> 2 ^ 31" "tree_height 3 = 2"
  by (simp_all add: demo_leaves_def tree_height.simps)

text \<open>C37: The constant-space computation of the Merkle root is right. For any number of leaves from one to \<open>2 ^ 31\<close> it
  returns the value of the tree in which a missing right half repeats the left one, and it reports a mutation exactly
  when two full siblings at some level have the same value.\<close>

theorem ComputeMerkleRoot_correct:
  assumes "leaves \<noteq> []" and "length leaves \<le> 2 ^ 31"
  shows "ComputeMerkleRoot H leaves = Some (merkle_root H leaves, has_twins H leaves)"
  using assms by (rule ComputeMerkleRoot_eq)

theorem ComputeMerkleRoot_correct_witness:
  "ComputeMerkleRoot demo_hash demo_leaves = Some (merkle_root demo_hash demo_leaves, has_twins demo_hash demo_leaves)"
  by (rule ComputeMerkleRoot_correct [OF demo_leaves_facts(1,3)])

text \<open>A branch proves its leaf. The branch computed for a position has as many entries as the tree is high, and
  hashing the leaf with it along the bits of the position gives the Merkle root.\<close>

theorem ComputeMerkleBranch_correct:
  assumes "length leaves \<le> 2 ^ 31" and "pos < length leaves"
  shows "\<exists>branch. ComputeMerkleBranch H leaves (word_of_nat pos) = Some branch \<and> length branch = tree_height (length leaves)
    \<and> ComputeMerkleRootFromBranch H (leaves ! pos) branch (word_of_nat pos) = merkle_root H leaves"
proof -
  have "leaves \<noteq> []" "pos < 2 ^ 32" using assms by auto
  then show ?thesis using MerkleComputation_eq [of leaves pos True H] assms
    by (auto simp: ComputeMerkleBranch_def ComputeMerkleRootFromBranch_def found_def)
qed

theorem ComputeMerkleBranch_correct_witness:
  "\<exists>branch. ComputeMerkleBranch demo_hash demo_leaves (word_of_nat 2) = Some branch \<and> length branch = 2
    \<and> ComputeMerkleRootFromBranch demo_hash (demo_leaves ! 2) branch (word_of_nat 2) = merkle_root demo_hash demo_leaves"
  using ComputeMerkleBranch_correct [OF demo_leaves_facts(3), of 2 demo_hash] by (simp add: demo_leaves_facts)

text \<open>An unmutated root commits to the list of leaves. If two lists whose trees have the same height give the same root,
  neither is reported as mutated and the hash has no collision among what is hashed for the two, then they are the same
  list; so repeating leaves cannot go unnoticed.\<close>

theorem merkle_root_commits:
  assumes "\<And>x. length (H x) = 32" and "\<forall>x\<in>set xs \<union> set ys. length x = 32"
    and "xs \<noteq> []" and "ys \<noteq> []" and "length xs \<le> 2 ^ 31" and "length ys \<le> 2 ^ 31"
    and "ComputeMerkleRoot H xs = Some (r, False)" and "ComputeMerkleRoot H ys = Some (r, False)"
    and "tree_height (length xs) = l" and "tree_height (length ys) = l"
    and "inj_on H (hashed H l xs \<union> hashed H l ys)"
  shows "xs = ys"
proof (rule node_inj [OF assms(1)])
  have x: "r = node H l xs" "\<not> has_twins H xs" and y: "r = node H l ys" "\<not> has_twins H ys"
    using assms(3-10) ComputeMerkleRoot_eq [of xs H] ComputeMerkleRoot_eq [of ys H] by (auto simp: merkle_root_def)
  then show "node H l xs = node H l ys" by simp
  show len: "length xs \<le> 2 ^ l" "length ys \<le> 2 ^ l"
    using tree_height_bounds [of "length xs"] tree_height_bounds [of "length ys"] assms(9,10) by auto
  show "\<not> twins_below H l xs" "\<not> twins_below H l ys" using x(2) y(2) twins_below_has_twins len by blast+
qed (use assms in auto)

theorem merkle_root_commits_witness: "[replicate 32 1, replicate 32 2] = [replicate 32 1, replicate 32 (2 :: 8 word)]"
proof (rule merkle_root_commits [OF demo_hash_length])
  let ?xs = "[replicate 32 1, replicate 32 (2 :: 8 word)]"
  show "ComputeMerkleRoot demo_hash ?xs = Some (replicate 16 1 @ replicate 16 2, False)"
    "ComputeMerkleRoot demo_hash ?xs = Some (replicate 16 1 @ replicate 16 2, False)" by code_simp+
  show "tree_height (length ?xs) = 1" "tree_height (length ?xs) = 1" by (simp_all add: tree_height.simps)
qed simp_all

end
