(* ===== verification/Block.thy ===== *)
theory Block
  imports Transaction Merkle
begin

text \<open>
  Blocks (\<open>src/src/primitives/block.h\<close>, \<open>block.cpp\<close>, and \<open>CDiskBlockIndex\<close> of \<open>chain.h\<close>): the header with its two
  formats, before and after the activation time of the KawPow algorithm, the block with its transactions, block
  locators, the entry of the block index on disk, the choice of the hash algorithm and the Merkle roots of a block. The
  activation time is an argument; so are the hash algorithms.
\<close>

section \<open>Definitions\<close>

record CBlockHeader =
  hdr_nVersion :: u32
  hdr_hashPrevBlock :: bytes
  hdr_hashMerkleRoot :: bytes
  hdr_nTime :: u32
  hdr_nBits :: u32
  hdr_nNonce :: u32
  hdr_nHeight :: u32
  hdr_nNonce64 :: u64
  hdr_mix_hash :: bytes

definition uint256_null :: bytes where "uint256_null = replicate 32 0"

definition CBlockHeader_SetNull :: CBlockHeader where
  "CBlockHeader_SetNull =
     \<lparr>hdr_nVersion = 0, hdr_hashPrevBlock = uint256_null, hdr_hashMerkleRoot = uint256_null, hdr_nTime = 0, hdr_nBits = 0,
      hdr_nNonce = 0, hdr_nHeight = 0, hdr_nNonce64 = 0, hdr_mix_hash = uint256_null\<rparr>"

definition CBlockHeader_IsNull :: "CBlockHeader \<Rightarrow> bool" where
  "CBlockHeader_IsNull h \<longleftrightarrow> hdr_nBits h = 0"

definition ser_CBlockHeader :: "u32 \<Rightarrow> CBlockHeader \<Rightarrow> bytes" where
  "ser_CBlockHeader nKAWPOWActivationTime h =
     ser_writedata32 (hdr_nVersion h) @ ser_uint256 (hdr_hashPrevBlock h) @ ser_uint256 (hdr_hashMerkleRoot h)
     @ ser_writedata32 (hdr_nTime h) @ ser_writedata32 (hdr_nBits h)
     @ (if hdr_nTime h < nKAWPOWActivationTime then ser_writedata32 (hdr_nNonce h)
        else ser_writedata32 (hdr_nHeight h) @ ser_writedata64 (hdr_nNonce64 h) @ ser_uint256 (hdr_mix_hash h))"

text \<open>Reading starts from an object that is null, so the fields that are not read stay null.\<close>

definition unser_CBlockHeader :: "u32 \<Rightarrow> CBlockHeader reader" where
  "unser_CBlockHeader nKAWPOWActivationTime =
     rbind ser_readdata32 (\<lambda>nVersion.
     rbind unser_uint256 (\<lambda>hashPrevBlock.
     rbind unser_uint256 (\<lambda>hashMerkleRoot.
     rbind ser_readdata32 (\<lambda>nTime.
     rbind ser_readdata32 (\<lambda>nBits.
       let h = CBlockHeader_SetNull
                 \<lparr>hdr_nVersion := nVersion, hdr_hashPrevBlock := hashPrevBlock, hdr_hashMerkleRoot := hashMerkleRoot,
                  hdr_nTime := nTime, hdr_nBits := nBits\<rparr>
       in if nTime < nKAWPOWActivationTime then rbind ser_readdata32 (\<lambda>nNonce. rret (h\<lparr>hdr_nNonce := nNonce\<rparr>))
          else rbind ser_readdata32 (\<lambda>nHeight.
               rbind ser_readdata64 (\<lambda>nNonce64.
               rbind unser_uint256 (\<lambda>mix_hash.
                 rret (h\<lparr>hdr_nHeight := nHeight, hdr_nNonce64 := nNonce64, hdr_mix_hash := mix_hash\<rparr>)))))))))"

record CBlock =
  blk_header :: CBlockHeader
  blk_vtx :: "CTransaction list"

text \<open>The element type of the vector of transactions is a shared pointer of 16 bytes.\<close>

definition ser_CBlock :: "u32 \<Rightarrow> CBlock \<Rightarrow> bytes" where
  "ser_CBlock nKAWPOWActivationTime b =
     ser_CBlockHeader nKAWPOWActivationTime (blk_header b) @ Serialize_vec (SerializeTransaction True) (blk_vtx b)"

definition unser_CBlock :: "u32 \<Rightarrow> CBlock reader" where
  "unser_CBlock nKAWPOWActivationTime =
     rbind (unser_CBlockHeader nKAWPOWActivationTime) (\<lambda>h.
     rbind (Unserialize_vec 16 (UnserializeTransaction True)) (\<lambda>vtx.
       rret \<lparr>blk_header = h, blk_vtx = vtx\<rparr>))"

definition ser_CBlockLocator :: "bool \<Rightarrow> u32 \<Rightarrow> bytes list \<Rightarrow> bytes" where
  "ser_CBlockLocator gethash nVersion vHave =
     (if \<not> gethash then ser_writedata32 nVersion else []) @ Serialize_vec ser_uint256 vHave"

definition unser_CBlockLocator :: "bool \<Rightarrow> (bytes list) reader" where
  "unser_CBlockLocator gethash =
     (if \<not> gethash then rbind ser_readdata32 (\<lambda>nVersion. Unserialize_vec 32 unser_uint256)
      else Unserialize_vec 32 unser_uint256)"

section \<open>Hashes\<close>

record BlockNetwork =
  fOnTestnet :: bool
  fOnRegtest :: bool

definition BlockNetwork_new :: BlockNetwork where
  "BlockNetwork_new = \<lparr>fOnTestnet = False, fOnRegtest = False\<rparr>"

definition SetNetwork :: "string \<Rightarrow> BlockNetwork \<Rightarrow> BlockNetwork" where
  "SetNetwork net b =
     (if net = ''test'' then b\<lparr>fOnTestnet := True\<rparr>
      else if net = ''regtest'' then b\<lparr>fOnRegtest := True\<rparr>
      else b)"

definition MAINNET_X16RV2ACTIVATIONTIME :: u32 where "MAINNET_X16RV2ACTIVATIONTIME = 1569945600"
definition TESTNET_X16RV2ACTIVATIONTIME :: u32 where "TESTNET_X16RV2ACTIVATIONTIME = 1567533600"
definition REGTEST_X16RV2ACTIVATIONTIME :: u32 where "REGTEST_X16RV2ACTIVATIONTIME = 1569931200"

text \<open>The memory from \<open>nVersion\<close> to the end of \<open>nNonce\<close>, on a little-endian machine.\<close>

definition header_memory :: "CBlockHeader \<Rightarrow> bytes" where
  "header_memory h =
     ser_writedata32 (hdr_nVersion h) @ hdr_hashPrevBlock h @ hdr_hashMerkleRoot h
     @ ser_writedata32 (hdr_nTime h) @ ser_writedata32 (hdr_nBits h) @ ser_writedata32 (hdr_nNonce h)"

text \<open>\<open>HashX16R\<close> and \<open>HashX16RV2\<close> take the bytes of the header and the hash of the previous block.\<close>

type_synonym header_hash = "bytes \<Rightarrow> bytes \<Rightarrow> bytes"

definition GetX16RHash :: "header_hash \<Rightarrow> CBlockHeader \<Rightarrow> bytes" where
  "GetX16RHash HashX16R h = HashX16R (header_memory h) (hdr_hashPrevBlock h)"

definition GetX16RV2Hash :: "header_hash \<Rightarrow> CBlockHeader \<Rightarrow> bytes" where
  "GetX16RV2Hash HashX16RV2 h = HashX16RV2 (header_memory h) (hdr_hashPrevBlock h)"

definition nTimeToUse :: "BlockNetwork \<Rightarrow> u32" where
  "nTimeToUse bNetwork =
     (if fOnTestnet bNetwork then TESTNET_X16RV2ACTIVATIONTIME
      else if fOnRegtest bNetwork then REGTEST_X16RV2ACTIVATIONTIME
      else MAINNET_X16RV2ACTIVATIONTIME)"

definition GetHash ::
  "header_hash \<Rightarrow> header_hash \<Rightarrow> (CBlockHeader \<Rightarrow> bytes) \<Rightarrow> BlockNetwork \<Rightarrow> u32 \<Rightarrow> CBlockHeader \<Rightarrow> bytes" where
  "GetHash HashX16R HashX16RV2 KAWPOWHash_OnlyMix bNetwork nKAWPOWActivationTime h =
     (if hdr_nTime h < nKAWPOWActivationTime then
        if hdr_nTime h \<ge> nTimeToUse bNetwork then HashX16RV2 (header_memory h) (hdr_hashPrevBlock h)
        else HashX16R (header_memory h) (hdr_hashPrevBlock h)
      else KAWPOWHash_OnlyMix h)"

text \<open>\<open>GetHashFull\<close> takes the mix hash by reference: \<open>KAWPOWHash\<close> returns the hash and the mix hash it stores.\<close>

definition GetHashFull ::
  "header_hash \<Rightarrow> header_hash \<Rightarrow> (CBlockHeader \<Rightarrow> bytes \<times> bytes) \<Rightarrow> BlockNetwork \<Rightarrow> u32 \<Rightarrow> CBlockHeader \<Rightarrow> bytes \<Rightarrow> bytes \<times> bytes" where
  "GetHashFull HashX16R HashX16RV2 KAWPOWHash bNetwork nKAWPOWActivationTime h mix_hash =
     (if hdr_nTime h < nKAWPOWActivationTime then
        (if hdr_nTime h \<ge> nTimeToUse bNetwork then HashX16RV2 (header_memory h) (hdr_hashPrevBlock h)
         else HashX16R (header_memory h) (hdr_hashPrevBlock h), mix_hash)
      else KAWPOWHash h)"

definition ser_CKAWPOWInput :: "CBlockHeader \<Rightarrow> bytes" where
  "ser_CKAWPOWInput h =
     ser_writedata32 (hdr_nVersion h) @ ser_uint256 (hdr_hashPrevBlock h) @ ser_uint256 (hdr_hashMerkleRoot h)
     @ ser_writedata32 (hdr_nTime h) @ ser_writedata32 (hdr_nBits h) @ ser_writedata32 (hdr_nHeight h)"

definition GetKAWPOWHeaderHash :: "(bytes \<Rightarrow> bytes) \<Rightarrow> CBlockHeader \<Rightarrow> bytes" where
  "GetKAWPOWHeaderHash hash256 h = hash256 (ser_CKAWPOWInput h)"

section \<open>Merkle roots\<close>

definition BlockMerkleRoot :: "(bytes \<Rightarrow> bytes) \<Rightarrow> CBlock \<Rightarrow> (bytes \<times> bool) option" where
  "BlockMerkleRoot hash256 block = ComputeMerkleRoot hash256 (map (ComputeHash hash256) (blk_vtx block))"

text \<open>Without transactions, \<open>leaves[0]\<close> is outside the vector.\<close>

definition BlockWitnessMerkleRoot :: "(bytes \<Rightarrow> bytes) \<Rightarrow> CBlock \<Rightarrow> (bytes \<times> bool) option" where
  "BlockWitnessMerkleRoot hash256 block =
     (case blk_vtx block of
        [] \<Rightarrow> None
      | _ # txs \<Rightarrow> ComputeMerkleRoot hash256 (uint256_null # map (GetWitnessHash hash256) txs))"

definition BlockMerkleBranch :: "(bytes \<Rightarrow> bytes) \<Rightarrow> CBlock \<Rightarrow> u32 \<Rightarrow> bytes list option" where
  "BlockMerkleBranch hash256 block position = ComputeMerkleBranch hash256 (map (ComputeHash hash256) (blk_vtx block)) position"

section \<open>The block index on disk\<close>

record CDiskBlockIndex =
  dbi_nHeight :: nat
  dbi_nStatus :: nat
  dbi_nTx :: nat
  dbi_nFile :: nat
  dbi_nDataPos :: nat
  dbi_nUndoPos :: nat
  dbi_nVersion :: u32
  dbi_hashPrev :: bytes
  dbi_hashMerkleRoot :: bytes
  dbi_nTime :: u32
  dbi_nBits :: u32
  dbi_nNonce :: u32
  dbi_nNonce64 :: u64
  dbi_mix_hash :: bytes

definition has_data :: "nat \<Rightarrow> bool" where "has_data nStatus \<longleftrightarrow> bit nStatus 3"
definition has_undo :: "nat \<Rightarrow> bool" where "has_undo nStatus \<longleftrightarrow> bit nStatus 4"

text \<open>The version is that of the stream; it is read and dropped.\<close>

definition ser_CDiskBlockIndex :: "bool \<Rightarrow> u32 \<Rightarrow> nat \<Rightarrow> CDiskBlockIndex \<Rightarrow> bytes" where
  "ser_CDiskBlockIndex gethash nKAWPOWActivationTime version d =
     (if \<not> gethash then WriteVarInt version else []) @ WriteVarInt (dbi_nHeight d) @ WriteVarInt (dbi_nStatus d) @ WriteVarInt (dbi_nTx d)
     @ (if has_data (dbi_nStatus d) \<or> has_undo (dbi_nStatus d) then WriteVarInt (dbi_nFile d) else [])
     @ (if has_data (dbi_nStatus d) then WriteVarInt (dbi_nDataPos d) else [])
     @ (if has_undo (dbi_nStatus d) then WriteVarInt (dbi_nUndoPos d) else [])
     @ ser_writedata32 (dbi_nVersion d) @ ser_uint256 (dbi_hashPrev d) @ ser_uint256 (dbi_hashMerkleRoot d)
     @ ser_writedata32 (dbi_nTime d) @ ser_writedata32 (dbi_nBits d)
     @ (if dbi_nTime d < nKAWPOWActivationTime then ser_writedata32 (dbi_nNonce d)
        else ser_writedata64 (dbi_nNonce64 d) @ ser_uint256 (dbi_mix_hash d))"

text \<open>The heights, the file number and the version are signed 32-bit integers, the other numbers unsigned ones.\<close>

definition unser_CDiskBlockIndex :: "bool \<Rightarrow> u32 \<Rightarrow> nat \<Rightarrow> CDiskBlockIndex reader" where
  "unser_CDiskBlockIndex gethash nKAWPOWActivationTime version =
     rbind (if \<not> gethash then ReadVarInt 31 else rret version) (\<lambda>_. rbind (ReadVarInt 31) (\<lambda>nHeight. rbind (ReadVarInt 32) (\<lambda>nStatus. rbind (ReadVarInt 32) (\<lambda>nTx.
     rbind (if has_data nStatus \<or> has_undo nStatus then ReadVarInt 31 else rret 0) (\<lambda>nFile.
     rbind (if has_data nStatus then ReadVarInt 32 else rret 0) (\<lambda>nDataPos.
     rbind (if has_undo nStatus then ReadVarInt 32 else rret 0) (\<lambda>nUndoPos.
     rbind ser_readdata32 (\<lambda>nVersion. rbind unser_uint256 (\<lambda>hashPrev. rbind unser_uint256 (\<lambda>hashMerkleRoot.
     rbind ser_readdata32 (\<lambda>nTime. rbind ser_readdata32 (\<lambda>nBits.
     rbind (if nTime < nKAWPOWActivationTime then rbind ser_readdata32 (\<lambda>nNonce. rret (nNonce, 0, uint256_null))
            else rbind ser_readdata64 (\<lambda>nNonce64. rbind unser_uint256 (\<lambda>mix_hash. rret (0, nNonce64, mix_hash))))
       (\<lambda>(nNonce, nNonce64, mix_hash).
         rret \<lparr>dbi_nHeight = nHeight, dbi_nStatus = nStatus, dbi_nTx = nTx, dbi_nFile = nFile, dbi_nDataPos = nDataPos,
               dbi_nUndoPos = nUndoPos, dbi_nVersion = nVersion, dbi_hashPrev = hashPrev,
               dbi_hashMerkleRoot = hashMerkleRoot, dbi_nTime = nTime, dbi_nBits = nBits, dbi_nNonce = nNonce,
               dbi_nNonce64 = nNonce64, dbi_mix_hash = mix_hash\<rparr>)))))))))))))"

definition CDiskBlockIndex_header :: "CDiskBlockIndex \<Rightarrow> CBlockHeader" where
  "CDiskBlockIndex_header d =
     \<lparr>hdr_nVersion = dbi_nVersion d, hdr_hashPrevBlock = dbi_hashPrev d, hdr_hashMerkleRoot = dbi_hashMerkleRoot d,
      hdr_nTime = dbi_nTime d, hdr_nBits = dbi_nBits d, hdr_nNonce = dbi_nNonce d,
      hdr_nHeight = word_of_nat (dbi_nHeight d), hdr_nNonce64 = dbi_nNonce64 d, hdr_mix_hash = dbi_mix_hash d\<rparr>"

section \<open>The codecs\<close>

definition header_ok :: "u32 \<Rightarrow> CBlockHeader \<Rightarrow> bool" where
  "header_ok nKAWPOWActivationTime h \<longleftrightarrow> length (hdr_hashPrevBlock h) = 32 \<and> length (hdr_hashMerkleRoot h) = 32
     \<and> (if hdr_nTime h < nKAWPOWActivationTime
        then hdr_nHeight h = 0 \<and> hdr_nNonce64 h = 0 \<and> hdr_mix_hash h = uint256_null
        else hdr_nNonce h = 0 \<and> length (hdr_mix_hash h) = 32)"

lemmas header_simps = rbind_def rret_def uint256.unser_ser u32.unser_ser u64.unser_ser
lemmas header_iffs = rbind_eq_Some_iff rret_def uint256.unser_iff u32.unser_iff u64.unser_iff

interpretation header: canonical_codec "ser_CBlockHeader kaw" "unser_CBlockHeader kaw" "header_ok kaw" for kaw
proof unfold_locales
  fix h rest assume "header_ok kaw h"
  then show "unser_CBlockHeader kaw (ser_CBlockHeader kaw h @ rest) = Some (h, rest)"
    by (cases h) (auto simp: ser_CBlockHeader_def unser_CBlockHeader_def header_simps header_ok_def Let_def CBlockHeader_SetNull_def)
next
  fix bs h rest assume "unser_CBlockHeader kaw bs = Some (h, rest)"
  then show "bs = ser_CBlockHeader kaw h @ rest \<and> header_ok kaw h"
    by (auto simp: ser_CBlockHeader_def unser_CBlockHeader_def header_iffs header_ok_def Let_def CBlockHeader_SetNull_def
        split: if_splits)
qed

interpretation txs: codec "Serialize_vec (SerializeTransaction True)" "Unserialize_vec 16 (UnserializeTransaction True)"
    "\<lambda>v. length v \<le> MAX_SIZE \<and> list_all tx_full_ok v"
  by (rule tx_full.vec_codec) simp_all

definition block_ok :: "u32 \<Rightarrow> CBlock \<Rightarrow> bool" where
  "block_ok kaw b \<longleftrightarrow> header_ok kaw (blk_header b) \<and> length (blk_vtx b) \<le> MAX_SIZE \<and> list_all tx_full_ok (blk_vtx b)"

interpretation block: codec "ser_CBlock kaw" "unser_CBlock kaw" "block_ok kaw" for kaw
  by unfold_locales (simp add: ser_CBlock_def unser_CBlock_def rbind_def rret_def header.unser_ser txs.unser_ser block_ok_def)

interpretation hashes: canonical_codec "Serialize_vec ser_uint256" "Unserialize_vec 32 unser_uint256"
    "\<lambda>v. length v \<le> MAX_SIZE \<and> list_all (\<lambda>h. length h = 32) v"
  by (rule uint256.vec_canonical_codec) simp_all

interpretation locator: codec "ser_CBlockLocator gh nVersion" "unser_CBlockLocator gh"
    "\<lambda>v. length v \<le> MAX_SIZE \<and> list_all (\<lambda>h. length h = 32) v" for gh nVersion
  by unfold_locales
    (simp add: ser_CBlockLocator_def unser_CBlockLocator_def rbind_def u32.unser_ser hashes.unser_ser)

definition disk_ok :: "u32 \<Rightarrow> CDiskBlockIndex \<Rightarrow> bool" where
  "disk_ok kaw d \<longleftrightarrow> dbi_nHeight d < 2 ^ 31 \<and> dbi_nStatus d < 2 ^ 32 \<and> dbi_nTx d < 2 ^ 32
     \<and> dbi_nFile d < 2 ^ 31 \<and> (has_data (dbi_nStatus d) \<or> has_undo (dbi_nStatus d) \<or> dbi_nFile d = 0)
     \<and> dbi_nDataPos d < 2 ^ 32 \<and> (has_data (dbi_nStatus d) \<or> dbi_nDataPos d = 0)
     \<and> dbi_nUndoPos d < 2 ^ 32 \<and> (has_undo (dbi_nStatus d) \<or> dbi_nUndoPos d = 0)
     \<and> length (dbi_hashPrev d) = 32 \<and> length (dbi_hashMerkleRoot d) = 32
     \<and> (if dbi_nTime d < kaw then dbi_nNonce64 d = 0 \<and> dbi_mix_hash d = uint256_null
        else dbi_nNonce d = 0 \<and> length (dbi_mix_hash d) = 32)"

interpretation disk: codec "ser_CDiskBlockIndex gh kaw version" "unser_CDiskBlockIndex gh kaw version"
    "\<lambda>d. disk_ok kaw d \<and> version < 2 ^ 31" for gh kaw version
  by unfold_locales
    (auto simp: ser_CDiskBlockIndex_def unser_CDiskBlockIndex_def header_simps disk_ok_def ReadVarInt_ser)

section \<open>What the roots of a block commit to\<close>

definition tx_strip :: "CTransaction \<Rightarrow> CTransaction" where
  "tx_strip tx = tx\<lparr>tx_vin := map strip_witness (tx_vin tx)\<rparr>"

lemma ser_tx_strip: "SerializeTransaction False (tx_strip tx) = SerializeTransaction False tx"
  by (simp add: SerializeTransaction_def tx_strip_def ser_vin_strip)

lemma tx_strip_ok: "tx_ok tx \<Longrightarrow> tx_plain_ok (tx_strip tx)"
  by (auto simp: tx_plain_ok_def tx_ok_def tx_strip_def HasWitness_def list_all_iff strip_witness_def witness_ok_def)

lemma ser_tx_inj:
  assumes "tx_ok s" "tx_ok t" "SerializeTransaction False s = SerializeTransaction False t"
  shows "tx_strip s = tx_strip t"
  by (rule tx_plain.ser_inj) (simp_all add: assms tx_strip_ok ser_tx_strip)

lemma GetWitnessHash_eq: "GetWitnessHash H tx = H (SerializeTransaction True tx)"
  by (simp add: GetWitnessHash_def ComputeHash_def SerializeTransaction_def)

lemma map_hash_inj:
  assumes "map (\<lambda>x. H (f x)) xs = map (\<lambda>x. H (f x)) ys" and "inj_on H (f ` set xs \<union> f ` set ys)"
    and "\<And>x y. x \<in> set xs \<Longrightarrow> y \<in> set ys \<Longrightarrow> f x = f y \<Longrightarrow> g x = g y"
  shows "map g xs = map g ys"
proof (rule nth_equalityI)
  show len: "length (map g xs) = length (map g ys)" using map_eq_imp_length_eq [OF assms(1)] by simp
  fix i assume i: "i < length (map g xs)"
  then have "H (f (xs ! i)) = H (f (ys ! i))" using assms(1) len by (metis length_map nth_map)
  moreover have "xs ! i \<in> set xs" "ys ! i \<in> set ys" using i len by auto
  ultimately have "g (xs ! i) = g (ys ! i)" using assms(2,3) by (auto dest: inj_onD)
  then show "map g xs ! i = map g ys ! i" using i len by simp
qed

text \<open>The inputs of the hash function in the computation of the two roots.\<close>

definition block_hashed :: "(bytes \<Rightarrow> bytes) \<Rightarrow> CBlock \<Rightarrow> bytes set" where
  "block_hashed H b = SerializeTransaction False ` set (blk_vtx b)
     \<union> hashed H (tree_height (length (blk_vtx b))) (map (ComputeHash H) (blk_vtx b))"

definition block_witness_hashed :: "(bytes \<Rightarrow> bytes) \<Rightarrow> CBlock \<Rightarrow> bytes set" where
  "block_witness_hashed H b = SerializeTransaction True ` set (tl (blk_vtx b))
     \<union> hashed H (tree_height (length (blk_vtx b))) (uint256_null # map (GetWitnessHash H) (tl (blk_vtx b)))"

text \<open>A block of two transactions.\<close>

definition demo_small_tx :: "u32 \<Rightarrow> CTransaction" where
  "demo_small_tx n =
     \<lparr>tx_nVersion = 1,
      tx_vin = [\<lparr>txin_prevout = \<lparr>outp_hash = replicate 32 9, outp_n = n\<rparr>, txin_scriptSig = [], txin_nSequence = 0,
                 txin_scriptWitness = [[1]]\<rparr>],
      tx_vout = [\<lparr>txo_nValue = 5, txo_scriptPubKey = [0x51]\<rparr>], tx_nLockTime = 0\<rparr>"

definition demo_block :: CBlock where
  "demo_block = \<lparr>blk_header = CBlockHeader_SetNull\<lparr>hdr_nTime := 5\<rparr>, blk_vtx = [demo_small_tx 1, demo_small_tx 2]\<rparr>"

lemma demo_block_ok: "list_all tx_full_ok (blk_vtx demo_block)" "list_all tx_ok (blk_vtx demo_block)"
  by (simp_all add: demo_block_def demo_small_tx_def tx_full_ok_def tx_ok_def txin_ok_def outpoint_ok_def txout_ok_def
      witness_ok_def MAX_SIZE_def strip_witness_def)

section \<open>Properties\<close>

text \<open>A header is read from a byte string exactly when the string starts with what is written for it: 80 bytes
  before the activation time of KawPow and 120 bytes from then on, with the fields of the other format null.\<close>

theorem block_header_canonical:
  "unser_CBlockHeader kaw bs = Some (h, rest) \<longleftrightarrow>
     header_ok kaw h \<and> bs = ser_CBlockHeader kaw h @ rest \<and> length bs = length rest + (if hdr_nTime h < kaw then 80 else 120)"
  unfolding header.unser_iff by (auto simp: ser_CBlockHeader_def header_ok_def ser_uint256_def)

text \<open>A block is read back from what is written for it, in either format of the header.\<close>

theorem block_roundtrip:
  assumes "block_ok kaw b"
  shows "unser_CBlock kaw (ser_CBlock kaw b @ rest) = Some (b, rest)"
  using assms by (rule block.unser_ser)

theorem block_roundtrip_witness: "unser_CBlock 6 (ser_CBlock 6 demo_block @ [1]) = Some (demo_block, [1])"
proof (rule block_roundtrip)
  have "header_ok 6 (blk_header demo_block)"
    by (simp add: demo_block_def header_ok_def CBlockHeader_SetNull_def uint256_null_def)
  moreover have "length (blk_vtx demo_block) \<le> MAX_SIZE" by (simp add: demo_block_def MAX_SIZE_def)
  ultimately show "block_ok 6 demo_block" using demo_block_ok(1) by (simp add: block_ok_def)
qed

text \<open>C19: The Merkle root in the header commits to the transactions of the block. Two blocks with the root of the same
  header, neither reported as mutated and with trees of the same height, hold the same transactions in the same order,
  witnesses aside, unless the hash has a collision among the strings that were hashed for them.\<close>

theorem block_commits:
  assumes "\<And>x. length (H x) = 32" and "list_all tx_ok (blk_vtx a)" and "list_all tx_ok (blk_vtx b)"
    and "blk_vtx a \<noteq> []" and "blk_vtx b \<noteq> []" and "length (blk_vtx a) \<le> 2 ^ 31" and "length (blk_vtx b) \<le> 2 ^ 31"
    and "BlockMerkleRoot H a = Some (hdr_hashMerkleRoot h, False)"
    and "BlockMerkleRoot H b = Some (hdr_hashMerkleRoot h, False)"
    and "tree_height (length (blk_vtx a)) = tree_height (length (blk_vtx b))"
    and "inj_on H (block_hashed H a \<union> block_hashed H b)"
  shows "map tx_strip (blk_vtx a) = map tx_strip (blk_vtx b)"
proof (rule map_hash_inj [of H "SerializeTransaction False"])
  have "map (ComputeHash H) (blk_vtx a) = map (ComputeHash H) (blk_vtx b)"
  proof (rule merkle_root_commits [OF assms(1)])
    show "inj_on H (hashed H (tree_height (length (blk_vtx b))) (map (ComputeHash H) (blk_vtx a))
        \<union> hashed H (tree_height (length (blk_vtx b))) (map (ComputeHash H) (blk_vtx b)))"
      by (rule inj_on_subset [OF assms(11)]) (auto simp: block_hashed_def assms(10))
    show "ComputeMerkleRoot H (map (ComputeHash H) (blk_vtx a)) = Some (hdr_hashMerkleRoot h, False)"
      "ComputeMerkleRoot H (map (ComputeHash H) (blk_vtx b)) = Some (hdr_hashMerkleRoot h, False)"
      using assms(8,9) by (simp_all only: BlockMerkleRoot_def)
  qed (use assms(4-7,10) in \<open>simp_all add: ComputeHash_def assms(1) ball_Un\<close>)
  then show "map (\<lambda>x. H (SerializeTransaction False x)) (blk_vtx a) = map (\<lambda>x. H (SerializeTransaction False x)) (blk_vtx b)"
    by (simp add: ComputeHash_def [abs_def])
  show "inj_on H (SerializeTransaction False ` set (blk_vtx a) \<union> SerializeTransaction False ` set (blk_vtx b))"
    by (rule inj_on_subset [OF assms(11)]) (auto simp: block_hashed_def)
  show "tx_strip x = tx_strip y"
    if "x \<in> set (blk_vtx a)" "y \<in> set (blk_vtx b)" "SerializeTransaction False x = SerializeTransaction False y" for x y
    using that assms(2,3) by (intro ser_tx_inj) (simp_all add: list_all_iff)
qed

lemma demo_block_root:
  "BlockMerkleRoot demo_hash demo_block = Some (node demo_hash 1 (map (ComputeHash demo_hash) (blk_vtx demo_block)), False)"
  "inj_on demo_hash (block_hashed demo_hash demo_block)"
  by code_simp+

theorem block_commits_witness: "map tx_strip (blk_vtx demo_block) = map tx_strip (blk_vtx demo_block)"
proof (rule block_commits [OF demo_hash_length demo_block_ok(2,2)])
  let ?h = "CBlockHeader_SetNull\<lparr>hdr_hashMerkleRoot := node demo_hash 1 (map (ComputeHash demo_hash) (blk_vtx demo_block))\<rparr>"
  show "BlockMerkleRoot demo_hash demo_block = Some (hdr_hashMerkleRoot ?h, False)"
    "BlockMerkleRoot demo_hash demo_block = Some (hdr_hashMerkleRoot ?h, False)" by (simp_all add: demo_block_root)
  show "inj_on demo_hash (block_hashed demo_hash demo_block \<union> block_hashed demo_hash demo_block)" by (simp add: demo_block_root)
qed (simp_all add: demo_block_def)

text \<open>The witness root commits to the witnesses too: two blocks with the same witness root, neither reported as
  mutated and with trees of the same height, hold the same transactions after the first, unless the hash has a collision
  among the strings that were hashed for them. The first transaction counts as zero, whatever it is.\<close>

theorem block_witness_commits:
  assumes "\<And>x. length (H x) = 32" and "list_all tx_full_ok (blk_vtx a)" and "list_all tx_full_ok (blk_vtx b)"
    and "length (blk_vtx a) \<le> 2 ^ 31" and "length (blk_vtx b) \<le> 2 ^ 31"
    and "BlockWitnessMerkleRoot H a = Some (r, False)" and "BlockWitnessMerkleRoot H b = Some (r, False)"
    and "tree_height (length (blk_vtx a)) = tree_height (length (blk_vtx b))"
    and "inj_on H (block_witness_hashed H a \<union> block_witness_hashed H b)"
  shows "tl (blk_vtx a) = tl (blk_vtx b)"
proof -
  obtain s ss t ts where vtx: "blk_vtx a = s # ss" "blk_vtx b = t # ts"
    using assms(6,7) by (auto simp: BlockWitnessMerkleRoot_def split: list.splits)
  let ?xs = "\<lambda>ss. uint256_null # map (GetWitnessHash H) ss"
  have "?xs ss = ?xs ts"
  proof (rule merkle_root_commits [OF assms(1)])
    show "ComputeMerkleRoot H (?xs ss) = Some (r, False)" "ComputeMerkleRoot H (?xs ts) = Some (r, False)"
      using assms(6,7) by (simp_all add: BlockWitnessMerkleRoot_def vtx)
    show "inj_on H (hashed H (tree_height (Suc (length ts))) (?xs ss) \<union> hashed H (tree_height (Suc (length ts))) (?xs ts))"
      by (rule inj_on_subset [OF assms(9)]) (use assms(8) in \<open>auto simp: block_witness_hashed_def vtx\<close>)
  qed (use assms(4,5,8) in \<open>simp_all add: vtx GetWitnessHash_eq assms(1) ball_Un uint256_null_def\<close>)
  then have e: "map (\<lambda>x. H (SerializeTransaction True x)) ss = map (\<lambda>x. H (SerializeTransaction True x)) ts"
    by (simp add: GetWitnessHash_eq [abs_def])
  have i: "inj_on H (SerializeTransaction True ` set ss \<union> SerializeTransaction True ` set ts)"
    by (rule inj_on_subset [OF assms(9)]) (auto simp: block_witness_hashed_def vtx)
  have "map (\<lambda>x. x) ss = map (\<lambda>x. x) ts"
  proof (rule map_hash_inj [OF e i])
    show "x = y" if "x \<in> set ss" "y \<in> set ts" "SerializeTransaction True x = SerializeTransaction True y" for x y
      using that assms(2,3) by (intro tx_full.ser_inj) (simp_all add: list_all_iff vtx)
  qed
  then show ?thesis by (simp add: vtx)
qed

lemma demo_block_witness_root:
  "BlockWitnessMerkleRoot demo_hash demo_block
     = Some (node demo_hash 1 [uint256_null, GetWitnessHash demo_hash (demo_small_tx 2)], False)"
  "inj_on demo_hash (block_witness_hashed demo_hash demo_block)"
  by code_simp+

theorem block_witness_commits_witness: "tl (blk_vtx demo_block) = tl (blk_vtx demo_block)"
proof (rule block_witness_commits [OF demo_hash_length demo_block_ok(1,1)])
  show "inj_on demo_hash (block_witness_hashed demo_hash demo_block \<union> block_witness_hashed demo_hash demo_block)"
    by (simp add: demo_block_witness_root)
  show "BlockWitnessMerkleRoot demo_hash demo_block
     = Some (node demo_hash 1 [uint256_null, GetWitnessHash demo_hash (demo_small_tx 2)], False)"
    by (fact demo_block_witness_root(1))
  show "BlockWitnessMerkleRoot demo_hash demo_block
     = Some (node demo_hash 1 [uint256_null, GetWitnessHash demo_hash (demo_small_tx 2)], False)"
    by (fact demo_block_witness_root(1))
qed (simp_all add: demo_block_def)

end
