(* ===== verification/PartialMerkle.thy ===== *)
theory PartialMerkle
  imports Block
begin

text \<open>
  Partial Merkle trees (\<open>src/src/merkleblock.h\<close>, \<open>merkleblock.cpp\<close>): the encoding of a subset of the transactions of a
  block as a depth-first walk of the Merkle tree, its wire format, and the extraction of root and transactions from such
  an encoding. The hash function is an argument. Numbers of transactions and positions are natural numbers, with the
  reduction to 32 bits written out where the source shifts them.
\<close>

section \<open>Definitions\<close>

record CPartialMerkleTree =
  pmt_nTransactions :: nat
  pmt_vBits :: "bool list"
  pmt_vHash :: "bytes list"
  pmt_fBad :: bool

definition CalcTreeWidth :: "nat \<Rightarrow> nat \<Rightarrow> nat" where
  "CalcTreeWidth nTransactions height = (nTransactions + 2 ^ height - 1) mod 2 ^ 32 div 2 ^ height"

text \<open>The loop \<open>while (CalcTreeWidth(nHeight) > 1) nHeight++\<close>.\<close>

lemma CalcTreeWidth_height: "1 < CalcTreeWidth n h \<Longrightarrow> h < 31"
proof (rule ccontr)
  assume "1 < CalcTreeWidth n h" "\<not> h < 31"
  then have a: "2 \<le> (n + 2 ^ h - 1) mod 2 ^ 32 div 2 ^ h" by (simp add: CalcTreeWidth_def)
  have "2 * 2 ^ h \<le> (n + 2 ^ h - 1) mod 2 ^ 32 div 2 ^ h * 2 ^ h" using a by (rule mult_le_mono1)
  also have "\<dots> \<le> (n + 2 ^ h - 1) mod 2 ^ 32" by (rule div_times_less_eq_dividend)
  also have "\<dots> < 2 ^ 32" by simp
  finally have "2 ^ Suc h < (2 :: nat) ^ 32" by simp
  then have "Suc h < 32" by (rule power_less_imp_less_exp [rotated]) simp
  with \<open>\<not> h < 31\<close> show False by simp
qed

function height_loop :: "nat \<Rightarrow> nat \<Rightarrow> nat" where
  "height_loop nTransactions nHeight =
     (if CalcTreeWidth nTransactions nHeight > 1 then height_loop nTransactions (Suc nHeight) else nHeight)"
  by auto
termination
proof (relation "measure (\<lambda>(n, h). 31 - h)")
  fix n h assume "1 < CalcTreeWidth n h"
  from CalcTreeWidth_height [OF this] show "((n, Suc h), n, h) \<in> measure (\<lambda>(n, h). 31 - h)" by simp
qed simp

declare height_loop.simps [simp del]

primrec CalcHash :: "(bytes \<Rightarrow> bytes) \<Rightarrow> nat \<Rightarrow> bytes list \<Rightarrow> nat \<Rightarrow> nat \<Rightarrow> bytes" where
  "CalcHash H nTransactions vTxid 0 pos = vTxid ! pos"
| "CalcHash H nTransactions vTxid (Suc h) pos =
     (let left = CalcHash H nTransactions vTxid h (pos * 2);
          right = (if pos * 2 + 1 < CalcTreeWidth nTransactions h then CalcHash H nTransactions vTxid h (pos * 2 + 1)
                   else left)
      in H (left @ right))"

definition fParentOfMatch :: "nat \<Rightarrow> bool list \<Rightarrow> nat \<Rightarrow> nat \<Rightarrow> bool" where
  "fParentOfMatch nTransactions vMatch height pos =
     list_ex (\<lambda>p. vMatch ! p) [pos * 2 ^ height mod 2 ^ 32 ..< min ((pos + 1) * 2 ^ height mod 2 ^ 32) nTransactions]"

definition push_bit_hash :: "bool \<Rightarrow> bytes \<Rightarrow> CPartialMerkleTree \<Rightarrow> CPartialMerkleTree" where
  "push_bit_hash b h t = t\<lparr>pmt_vBits := pmt_vBits t @ [b], pmt_vHash := pmt_vHash t @ [h]\<rparr>"

primrec TraverseAndBuild ::
  "(bytes \<Rightarrow> bytes) \<Rightarrow> bytes list \<Rightarrow> bool list \<Rightarrow> nat \<Rightarrow> nat \<Rightarrow> CPartialMerkleTree \<Rightarrow> CPartialMerkleTree" where
  "TraverseAndBuild H vTxid vMatch 0 pos t =
     push_bit_hash (fParentOfMatch (pmt_nTransactions t) vMatch 0 pos) (CalcHash H (pmt_nTransactions t) vTxid 0 pos) t"
| "TraverseAndBuild H vTxid vMatch (Suc h) pos t =
     (let b = fParentOfMatch (pmt_nTransactions t) vMatch (Suc h) pos
      in if \<not> b then push_bit_hash b (CalcHash H (pmt_nTransactions t) vTxid (Suc h) pos) t
         else let t1 = TraverseAndBuild H vTxid vMatch h (pos * 2) (t\<lparr>pmt_vBits := pmt_vBits t @ [b]\<rparr>)
              in if pos * 2 + 1 < CalcTreeWidth (pmt_nTransactions t) h
                 then TraverseAndBuild H vTxid vMatch h (pos * 2 + 1) t1 else t1)"

definition CPartialMerkleTree_of :: "(bytes \<Rightarrow> bytes) \<Rightarrow> bytes list \<Rightarrow> bool list \<Rightarrow> CPartialMerkleTree" where
  "CPartialMerkleTree_of H vTxid vMatch =
     (let n = length vTxid mod 2 ^ 32
      in TraverseAndBuild H vTxid vMatch (height_loop n 0) 0
           \<lparr>pmt_nTransactions = n, pmt_vBits = [], pmt_vHash = [], pmt_fBad = False\<rparr>)"

definition CPartialMerkleTree_new :: CPartialMerkleTree where
  "CPartialMerkleTree_new = \<lparr>pmt_nTransactions = 0, pmt_vBits = [], pmt_vHash = [], pmt_fBad = True\<rparr>"

text \<open>What \<open>TraverseAndExtract\<close> changes: the flag \<open>fBad\<close>, the two counters and the two result vectors.\<close>

record extract_state =
  ex_fBad :: bool
  ex_nBitsUsed :: nat
  ex_nHashUsed :: nat
  ex_vMatch :: "bytes list"
  ex_vnIndex :: "nat list"

definition extract_leaf :: "CPartialMerkleTree \<Rightarrow> nat \<Rightarrow> nat \<Rightarrow> bool \<Rightarrow> extract_state \<Rightarrow> bytes \<times> extract_state" where
  "extract_leaf t height pos b s =
     (if ex_nHashUsed s \<ge> length (pmt_vHash t) then (uint256_null, s\<lparr>ex_fBad := True\<rparr>)
      else let hash = pmt_vHash t ! ex_nHashUsed s;
               s = s\<lparr>ex_nHashUsed := ex_nHashUsed s + 1\<rparr>
           in (hash, if height = 0 \<and> b
                     then s\<lparr>ex_vMatch := ex_vMatch s @ [hash], ex_vnIndex := ex_vnIndex s @ [pos]\<rparr> else s))"

primrec TraverseAndExtract ::
  "(bytes \<Rightarrow> bytes) \<Rightarrow> CPartialMerkleTree \<Rightarrow> nat \<Rightarrow> nat \<Rightarrow> extract_state \<Rightarrow> bytes \<times> extract_state" where
  "TraverseAndExtract H t 0 pos s =
     (if ex_nBitsUsed s \<ge> length (pmt_vBits t) then (uint256_null, s\<lparr>ex_fBad := True\<rparr>)
      else extract_leaf t 0 pos (pmt_vBits t ! ex_nBitsUsed s) (s\<lparr>ex_nBitsUsed := ex_nBitsUsed s + 1\<rparr>))"
| "TraverseAndExtract H t (Suc h) pos s =
     (if ex_nBitsUsed s \<ge> length (pmt_vBits t) then (uint256_null, s\<lparr>ex_fBad := True\<rparr>)
      else let b = pmt_vBits t ! ex_nBitsUsed s;
               s = s\<lparr>ex_nBitsUsed := ex_nBitsUsed s + 1\<rparr>
           in if \<not> b then extract_leaf t (Suc h) pos b s
              else let (left, s1) = TraverseAndExtract H t h (pos * 2) s
                   in if pos * 2 + 1 < CalcTreeWidth (pmt_nTransactions t) h
                      then let (right, s2) = TraverseAndExtract H t h (pos * 2 + 1) s1
                           in (H (left @ right), if right = left then s2\<lparr>ex_fBad := True\<rparr> else s2)
                      else (H (left @ left), s1))"

text \<open>
  The largest number of transactions \<open>GetMaxBlockWeight() / MIN_TRANSACTION_WEIGHT\<close> is an argument. The results are the
  root, or zero, the tree with its flag, and the two vectors; \<open>vnIndex\<close> is appended to.
\<close>

definition ExtractMatches ::
  "(bytes \<Rightarrow> bytes) \<Rightarrow> nat \<Rightarrow> CPartialMerkleTree \<Rightarrow> nat list \<Rightarrow> bytes \<times> CPartialMerkleTree \<times> bytes list \<times> nat list" where
  "ExtractMatches H maxtx t vnIndex =
     (if pmt_nTransactions t = 0 \<or> pmt_nTransactions t > maxtx \<or> length (pmt_vHash t) > pmt_nTransactions t
         \<or> length (pmt_vBits t) < length (pmt_vHash t)
      then (uint256_null, t, [], vnIndex)
      else let nHeight = height_loop (pmt_nTransactions t) 0;
               (hashMerkleRoot, s) = TraverseAndExtract H t nHeight 0
                 \<lparr>ex_fBad = pmt_fBad t, ex_nBitsUsed = 0, ex_nHashUsed = 0, ex_vMatch = [], ex_vnIndex = vnIndex\<rparr>;
               root = (if ex_fBad s then uint256_null
                       else if (ex_nBitsUsed s + 7) div 8 \<noteq> (length (pmt_vBits t) + 7) div 8 then uint256_null
                       else if ex_nHashUsed s \<noteq> length (pmt_vHash t) then uint256_null
                       else hashMerkleRoot)
           in (root, t\<lparr>pmt_fBad := ex_fBad s\<rparr>, ex_vMatch s, ex_vnIndex s))"

text \<open>The bits are packed eight to a byte, the least significant bit first.\<close>

definition pack_step :: "bool list \<Rightarrow> nat \<Rightarrow> bytes \<Rightarrow> bytes" where
  "pack_step vBits p vBytes =
     vBytes[p div 8 := (vBytes ! (p div 8)) OR push_bit (p mod 8) (of_bool (vBits ! p))]"

definition pack_bits :: "bool list \<Rightarrow> bytes" where
  "pack_bits vBits = fold (pack_step vBits) [0 ..< length vBits] (replicate ((length vBits + 7) div 8) 0)"

definition unpack_bits :: "bytes \<Rightarrow> bool list" where
  "unpack_bits vBytes = map (\<lambda>p. (vBytes ! (p div 8)) AND push_bit (p mod 8) 1 \<noteq> 0) [0 ..< length vBytes * 8]"

definition ser_CPartialMerkleTree :: "CPartialMerkleTree \<Rightarrow> bytes" where
  "ser_CPartialMerkleTree t =
     ser_writedata32 (word_of_nat (pmt_nTransactions t)) @ Serialize_vec ser_uint256 (pmt_vHash t)
     @ Serialize_bytes (pack_bits (pmt_vBits t))"

definition unser_CPartialMerkleTree :: "CPartialMerkleTree reader" where
  "unser_CPartialMerkleTree =
     rbind ser_readdata32 (\<lambda>n.
     rbind (Unserialize_vec 32 unser_uint256) (\<lambda>vHash.
     rbind Unserialize_bytes (\<lambda>vBytes.
       rret \<lparr>pmt_nTransactions = unat n, pmt_vBits = unpack_bits vBytes, pmt_vHash = vHash, pmt_fBad = False\<rparr>)))"

section \<open>The packing of the bits\<close>

definition packed :: "bool list \<Rightarrow> nat \<Rightarrow> bytes \<Rightarrow> bool" where
  "packed vBits k v \<longleftrightarrow> length v = (length vBits + 7) div 8
     \<and> (\<forall>j. j div 8 < length v \<longrightarrow> (bit (v ! (j div 8)) (j mod 8) \<longleftrightarrow> j < k \<and> vBits ! j))"

lemma packed_step:
  assumes "packed vBits k v" "k < length vBits"
  shows "packed vBits (Suc k) (pack_step vBits k v)"
proof -
  have len: "length v = (length vBits + 7) div 8"
    and bits: "\<And>j. j div 8 < length v \<Longrightarrow> bit (v ! (j div 8)) (j mod 8) \<longleftrightarrow> j < k \<and> vBits ! j"
    using assms(1) by (auto simp: packed_def)
  have k: "k div 8 < length v" using assms(2) len by linarith
  have "bit (pack_step vBits k v ! (j div 8)) (j mod 8) \<longleftrightarrow> j < Suc k \<and> vBits ! j" if "j div 8 < length v" for j
  proof (cases "j div 8 = k div 8")
    case True
    have "bit (pack_step vBits k v ! (j div 8)) (j mod 8)
        \<longleftrightarrow> bit (v ! (j div 8)) (j mod 8) \<or> (j mod 8 = k mod 8 \<and> vBits ! k)"
      using k True by (auto simp: pack_step_def bit_or_iff bit_push_bit_iff bit_1_iff of_bool_def)
    moreover have "j mod 8 = k mod 8 \<longleftrightarrow> j = k" using True by (metis div_mult_mod_eq)
    ultimately show ?thesis using bits [OF that] by (auto simp: less_Suc_eq)
  next
    case False
    then have "j \<noteq> k" by auto
    then show ?thesis using bits [OF that] False by (auto simp: pack_step_def less_Suc_eq)
  qed
  then show ?thesis using len by (simp add: packed_def pack_step_def)
qed

lemma packed_fold: "k \<le> length v \<Longrightarrow> packed v k (fold (pack_step v) [0 ..< k] (replicate ((length v + 7) div 8) 0))"
proof (induction k)
  case 0
  then show ?case by (simp add: packed_def)
next
  case (Suc k)
  then show ?case using packed_step by simp
qed

lemma unpack_pack: "unpack_bits (pack_bits v) = v @ replicate ((length v + 7) div 8 * 8 - length v) False"
proof (rule nth_equalityI)
  have p: "packed v (length v) (pack_bits v)" using packed_fold [of "length v" v] by (simp add: pack_bits_def)
  then have len: "length (pack_bits v) = (length v + 7) div 8" by (simp add: packed_def)
  show "length (unpack_bits (pack_bits v)) = length (v @ replicate ((length v + 7) div 8 * 8 - length v) False)"
    by (simp add: unpack_bits_def len)
  fix i assume "i < length (unpack_bits (pack_bits v))"
  then have i: "i < length (pack_bits v) * 8" by (simp add: unpack_bits_def)
  then have "i div 8 < length (pack_bits v)" by linarith
  then have "bit (pack_bits v ! (i div 8)) (i mod 8) \<longleftrightarrow> i < length v \<and> v ! i" using p by (simp add: packed_def)
  then show "unpack_bits (pack_bits v) ! i = (v @ replicate ((length v + 7) div 8 * 8 - length v) False) ! i"
    using i len by (auto simp: unpack_bits_def and_exp_eq_0_iff_not_bit nth_append)
qed

lemma pack_padding: "(length v + 7) div 8 * 8 - length v < 8"
  by linarith

section \<open>The shape of the tree\<close>

lemma round_up_iff: "0 < m \<Longrightarrow> m + q \<le> n + m - 1 \<longleftrightarrow> q < n" for m :: nat
  by arith

lemma CalcTreeWidth_less_iff:
  assumes "n \<le> 2 ^ 31" "h \<le> 31"
  shows "p < CalcTreeWidth n h \<longleftrightarrow> p * 2 ^ h < n"
proof -
  have "(2 :: nat) ^ h \<le> 2 ^ 31" using assms(2) by (rule power_increasing) simp
  then have "n + 2 ^ h - 1 < 2 ^ 32" using assms(1) by simp
  then have "p < CalcTreeWidth n h \<longleftrightarrow> Suc p \<le> (n + 2 ^ h - 1) div 2 ^ h" by (simp add: CalcTreeWidth_def Suc_le_eq)
  also have "\<dots> \<longleftrightarrow> Suc p * 2 ^ h \<le> n + 2 ^ h - 1" by (rule less_eq_div_iff_mult_less_eq) simp
  also have "\<dots> \<longleftrightarrow> p * 2 ^ h < n" unfolding mult_Suc by (rule round_up_iff) simp
  finally show ?thesis .
qed

lemma height_loop_eq: "n \<le> 2 ^ 31 \<Longrightarrow> h \<le> tree_height n \<Longrightarrow> height_loop n h = tree_height n"
proof (induction n h rule: height_loop.induct)
  case (1 n h)
  have h: "h \<le> 31" using 1(2,3) tree_height_le [of n 31] by linarith
  have w: "1 < CalcTreeWidth n h \<longleftrightarrow> 2 ^ h < n" using CalcTreeWidth_less_iff [OF 1(2) h, of 1] by simp
  show ?case
  proof (cases "2 ^ h < n")
    case True
    then have "h \<noteq> tree_height n" using tree_height_bounds [of n] by auto
    then show ?thesis using 1 w True by (subst height_loop.simps) simp
  next
    case False
    then have "tree_height n \<le> h" by (intro tree_height_le) simp
    then show ?thesis using 1 w False by (subst height_loop.simps) simp
  qed
qed

lemma seg_halves: "take (2 ^ h) (seg xs a (Suc h)) = seg xs a h" "drop (2 ^ h) (seg xs a (Suc h)) = seg xs (a + 2 ^ h) h"
  by (simp_all add: seg_def drop_take min_def add.commute)

lemma seg_short: "length xs \<le> a + 2 ^ h \<Longrightarrow> seg xs a (Suc h) = seg xs a h"
  by (simp add: seg_def)

lemma length_seg: "length (seg xs a h) = min (2 ^ h) (length xs - a)"
  by (simp add: seg_def min_def)

lemma hd_seg: "a < length xs \<Longrightarrow> hd (seg xs a h) = xs ! a"
  by (simp add: seg_def hd_drop_conv_nth)

lemma node_seg_Suc:
  assumes "a < length xs"
  shows "node H (Suc h) (seg xs a (Suc h)) =
    H (node H h (seg xs a h) @ (if a + 2 ^ h < length xs then node H h (seg xs (a + 2 ^ h) h) else node H h (seg xs a h)))"
proof (cases "a + 2 ^ h < length xs")
  case True
  then have "\<not> length (seg xs a (Suc h)) \<le> 2 ^ h" by (auto simp: length_seg min_def)
  then show ?thesis using True by (simp add: seg_halves)
next
  case False
  then have "length (seg xs a h) \<le> 2 ^ h" "seg xs a (Suc h) = seg xs a h" by (simp_all add: length_seg seg_short)
  then show ?thesis using False by simp
qed

lemma hashed_seg_Suc:
  assumes "a < length xs"
  shows "hashed H (Suc h) (seg xs a (Suc h)) =
    (if a + 2 ^ h < length xs
     then insert (node H h (seg xs a h) @ node H h (seg xs (a + 2 ^ h) h)) (hashed H h (seg xs a h) \<union> hashed H h (seg xs (a + 2 ^ h) h))
     else insert (node H h (seg xs a h) @ node H h (seg xs a h)) (hashed H h (seg xs a h)))"
proof (cases "a + 2 ^ h < length xs")
  case True
  then have "\<not> length (seg xs a (Suc h)) \<le> 2 ^ h" by (auto simp: length_seg min_def)
  then show ?thesis using True by (simp add: seg_halves)
next
  case False
  then have "length (seg xs a h) \<le> 2 ^ h" "seg xs a (Suc h) = seg xs a h" by (simp_all add: length_seg seg_short)
  then show ?thesis using False by simp
qed

lemma CalcHash_eq:
  assumes "length xs \<le> 2 ^ 31" "h \<le> 31" "pos * 2 ^ h < length xs"
  shows "CalcHash H (length xs) xs h pos = node H h (seg xs (pos * 2 ^ h) h)"
  using assms(2,3)
proof (induction h arbitrary: pos)
  case 0
  then show ?case by (simp add: hd_seg)
next
  case (Suc h)
  have a: "pos * 2 ^ Suc h = pos * 2 * 2 ^ h" "pos * 2 ^ Suc h + 2 ^ h = (pos * 2 + 1) * 2 ^ h" by (simp_all add: algebra_simps)
  have w: "pos * 2 + 1 < CalcTreeWidth (length xs) h \<longleftrightarrow> (pos * 2 + 1) * 2 ^ h < length xs"
    using Suc.prems by (intro CalcTreeWidth_less_iff assms(1)) simp
  have l: "pos * 2 * 2 ^ h < length xs" using Suc.prems(2) unfolding a(1) .
  have "node H (Suc h) (seg xs (pos * 2 ^ Suc h) (Suc h)) =
     H (node H h (seg xs (pos * 2 * 2 ^ h) h)
        @ (if (pos * 2 + 1) * 2 ^ h < length xs then node H h (seg xs ((pos * 2 + 1) * 2 ^ h) h)
           else node H h (seg xs (pos * 2 * 2 ^ h) h)))"
    using node_seg_Suc [OF Suc.prems(2), of H h] unfolding a(2) unfolding a(1) .
  then show ?case using Suc.IH [OF _ l] Suc.IH [of "pos * 2 + 1"] Suc.prems(1) w by (simp add: Let_def)
qed

section \<open>Extracting what was built\<close>

text \<open>The positions of the matched transactions under a node.\<close>

definition matched :: "nat \<Rightarrow> bool list \<Rightarrow> nat \<Rightarrow> nat \<Rightarrow> nat list" where
  "matched n vMatch h pos = filter (\<lambda>p. vMatch ! p) [pos * 2 ^ h ..< min ((pos + 1) * 2 ^ h) n]"

lemma node_end:
  assumes "n \<le> 2 ^ 31" "h \<le> 31" "pos * 2 ^ h < n"
  shows "(pos + 1) * 2 ^ h \<le> (2 :: nat) ^ 31"
proof -
  have "(2 :: nat) ^ h dvd pos * 2 ^ h" "(2 :: nat) ^ h dvd 2 ^ 31" using assms(2) by (simp, rule le_imp_power_dvd)
  then have "pos * 2 ^ h + 2 ^ h \<le> (2 :: nat) ^ 31" using assms(1,3) by (intro dvd_less_add) linarith+
  then show ?thesis by simp
qed

lemma fParentOfMatch_eq:
  assumes "n \<le> 2 ^ 31" "h \<le> 31" "pos * 2 ^ h < n"
  shows "fParentOfMatch n m h pos \<longleftrightarrow> matched n m h pos \<noteq> []"
proof -
  have "(pos + 1) * 2 ^ h < (2 :: nat) ^ 32" "pos * 2 ^ h < (2 :: nat) ^ 32"
    using node_end [OF assms] by (simp_all add: algebra_simps)
  then show ?thesis by (simp add: fParentOfMatch_def matched_def filter_empty_conv list_ex_iff)
qed

lemma matched_Suc:
  assumes "pos * 2 ^ Suc h < n"
  shows "matched n m (Suc h) pos =
    matched n m h (pos * 2) @ (if (pos * 2 + 1) * 2 ^ h < n then matched n m h (pos * 2 + 1) else [])"
proof -
  let ?a = "pos * 2 * 2 ^ h" and ?b = "(pos * 2 + 1) * 2 ^ h" and ?c = "(pos * 2 + 2) * 2 ^ h"
  have u: "[?a ..< min ?c n] = [?a ..< min ?b n] @ (if ?b < n then [?b ..< min ?c n] else [])"
  proof (cases "?b < n")
    case True
    then have "?a \<le> ?b" "?b \<le> min ?c n" by simp_all
    then have "[?a ..< min ?c n] = [?a ..< ?b] @ [?b ..< min ?c n]" by (metis le_Suc_ex upt_add_eq_append)
    then show ?thesis using True by (simp add: min_def)
  next
    case False
    then have "min ?c n = n" "min ?b n = n" by (simp_all add: min_def)
    then show ?thesis using False by simp
  qed
  have "pos * 2 ^ Suc h = ?a" "(pos + 1) * 2 ^ Suc h = ?c" "pos * 2 + 1 + 1 = pos * 2 + 2" by (simp_all add: algebra_simps)
  then show ?thesis unfolding matched_def by (simp only: u filter_append if_distrib [of "filter _"] filter.simps)
qed

text \<open>The bits and hashes of the walk below a node.\<close>

primrec walk :: "(bytes \<Rightarrow> bytes) \<Rightarrow> bytes list \<Rightarrow> bool list \<Rightarrow> nat \<Rightarrow> nat \<Rightarrow> bool list \<times> bytes list" where
  "walk H xs m 0 pos = ([matched (length xs) m 0 pos \<noteq> []], [xs ! pos])"
| "walk H xs m (Suc h) pos =
     (if matched (length xs) m (Suc h) pos = [] then ([False], [CalcHash H (length xs) xs (Suc h) pos])
      else let l = walk H xs m h (pos * 2); r = walk H xs m h (pos * 2 + 1)
           in if (pos * 2 + 1) * 2 ^ h < length xs then (True # fst l @ fst r, snd l @ snd r) else (True # fst l, snd l))"

lemma TraverseAndBuild_eq:
  assumes "length xs \<le> 2 ^ 31" "h \<le> 31" "pos * 2 ^ h < length xs" "pmt_nTransactions t = length xs"
  shows "TraverseAndBuild H xs m h pos t =
    t\<lparr>pmt_vBits := pmt_vBits t @ fst (walk H xs m h pos), pmt_vHash := pmt_vHash t @ snd (walk H xs m h pos)\<rparr>"
  using assms(2-4)
proof (induction h arbitrary: pos t)
  case 0
  then show ?case using fParentOfMatch_eq [OF assms(1), of 0 pos m] by (simp add: push_bit_hash_def)
next
  case (Suc h)
  have w: "pos * 2 + 1 < CalcTreeWidth (length xs) h \<longleftrightarrow> (pos * 2 + 1) * 2 ^ h < length xs"
    using Suc.prems by (intro CalcTreeWidth_less_iff assms(1)) simp
  have l: "pos * 2 * 2 ^ h < length xs" using Suc.prems(2) by (simp add: algebra_simps)
  note f = fParentOfMatch_eq [OF assms(1) Suc.prems(1,2), of m]
  show ?case
    using Suc.IH [OF _ l] Suc.IH [of "pos * 2 + 1"] Suc.prems w f
    by (simp add: push_bit_hash_def Let_def)
qed

lemma walk_counts:
  "pos * 2 ^ h < length xs \<Longrightarrow>
   length (snd (walk H xs m h pos)) \<le> length (fst (walk H xs m h pos))
   \<and> length (snd (walk H xs m h pos)) + pos * 2 ^ h \<le> min ((pos + 1) * 2 ^ h) (length xs)"
proof (induction h arbitrary: pos)
  case 0
  then show ?case by simp
next
  case (Suc h)
  let ?b = "(pos * 2 + 1) * 2 ^ h"
  have a: "pos * 2 ^ Suc h = pos * 2 * 2 ^ h" "(pos + 1) * 2 ^ Suc h = (pos * 2 + 1 + 1) * 2 ^ h" by (simp_all add: algebra_simps)
  have l: "pos * 2 * 2 ^ h < length xs" using Suc.prems unfolding a(1) .
  have c: "?b \<le> (pos * 2 + 1 + 1) * 2 ^ h" "pos * 2 * 2 ^ h < (pos * 2 + 1 + 1) * 2 ^ h" by simp_all
  show ?case
  proof (cases "matched (length xs) m (Suc h) pos = []")
    case True
    then show ?thesis using l c(2) unfolding a by simp
  next
    case False
    then show ?thesis
      using Suc.IH [OF l] Suc.IH [of "pos * 2 + 1"] c(1) unfolding a by (auto simp: Let_def min_def split: if_splits)
  qed
qed

lemma node_hd_eq:
  assumes len: "\<And>x. length (H x) = 32"
  shows "node H l xs = node H l ys \<Longrightarrow> xs \<noteq> [] \<Longrightarrow> ys \<noteq> [] \<Longrightarrow> \<forall>x\<in>set xs \<union> set ys. length x = 32 \<Longrightarrow>
    inj_on H (hashed H l xs \<union> hashed H l ys) \<Longrightarrow> hd xs = hd ys"
proof (induction l arbitrary: xs ys)
  case (Suc l)
  let ?lx = "left_half l xs" and ?rx = "right_half l xs" and ?ly = "left_half l ys" and ?ry = "right_half l ys"
  have half: "left_half l zs \<noteq> [] \<and> set (left_half l zs) \<subseteq> set zs \<and> hd (left_half l zs) = hd zs" if "zs \<noteq> []" for zs
    using that set_take_subset [of "2 ^ l" zs] by (auto simp: left_half_def hd_take)
  have app: "node H l ?lx @ node H l ?rx = node H l ?ly @ node H l ?ry"
    by (rule inj_onD [OF Suc.prems(5)]) (use Suc.prems(1) in \<open>simp_all only: halves_node Un_iff insert_iff simp_thms\<close>)
  have "length (node H l ?lx) = 32" "length (node H l ?ly) = 32"
    using node_length [of H ?lx l] node_length [of H ?ly l] len half [OF Suc.prems(2)] half [OF Suc.prems(3)] Suc.prems(4) by blast+
  then have eq: "node H l ?lx = node H l ?ly" using app append_eq_append_conv by auto
  have "hd ?lx = hd ?ly"
  proof (rule Suc.IH [OF eq])
    show "inj_on H (hashed H l ?lx \<union> hashed H l ?ly)" by (rule inj_on_subset [OF Suc.prems(5)]) (auto simp only: halves_node)
    show "\<forall>x\<in>set ?lx \<union> set ?ly. length x = 32" using half [OF Suc.prems(2)] half [OF Suc.prems(3)] Suc.prems(4) by blast
  qed (use half [OF Suc.prems(2)] half [OF Suc.prems(3)] in simp_all)
  then show ?case using half [OF Suc.prems(2)] half [OF Suc.prems(3)] by simp
qed simp

text \<open>The list of leaves: distinct hashes, few enough for 32-bit positions.\<close>

definition leaves_ok :: "bytes list \<Rightarrow> bool" where
  "leaves_ok xs \<longleftrightarrow> length xs \<le> 2 ^ 31 \<and> distinct xs \<and> (\<forall>x\<in>set xs. length x = 32)"

lemma siblings_differ:
  assumes "\<And>x. length (H x) = 32" "leaves_ok xs" "a + 2 ^ h < length xs"
    "inj_on H (hashed H (Suc h) (seg xs a (Suc h)))"
  shows "node H h (seg xs (a + 2 ^ h) h) \<noteq> node H h (seg xs a h)"
proof
  assume e: "node H h (seg xs (a + 2 ^ h) h) = node H h (seg xs a h)"
  have sub: "set (seg xs b h) \<subseteq> set xs" for b
    unfolding seg_def by (meson order_trans set_drop_subset set_take_subset)
  have "hd (seg xs (a + 2 ^ h) h) = hd (seg xs a h)"
  proof (rule node_hd_eq [OF assms(1) e])
    show "inj_on H (hashed H h (seg xs (a + 2 ^ h) h) \<union> hashed H h (seg xs a h))"
      by (rule inj_on_subset [OF assms(4)]) (use assms(3) hashed_seg_Suc [of a xs H h] in auto)
    show "\<forall>x\<in>set (seg xs (a + 2 ^ h) h) \<union> set (seg xs a h). length x = 32"
      using sub assms(2) by (auto simp: leaves_ok_def)
  qed (use assms(3) in \<open>auto simp: seg_def\<close>)
  then have "xs ! (a + 2 ^ h) = xs ! a" using assms(3) by (simp add: hd_seg)
  then show False using assms(2,3) by (simp add: leaves_ok_def nth_eq_iff_index_eq)
qed

lemma extract_walk:
  assumes H: "\<And>x. length (H x) = 32" and xs: "leaves_ok xs" and n: "pmt_nTransactions t = length xs"
  shows "h \<le> 31 \<Longrightarrow> pos * 2 ^ h < length xs \<Longrightarrow> inj_on H (hashed H h (seg xs (pos * 2 ^ h) h)) \<Longrightarrow>
    pmt_vBits t = bpre @ fst (walk H xs m h pos) @ bpost \<Longrightarrow> ex_nBitsUsed s = length bpre \<Longrightarrow>
    pmt_vHash t = hpre @ snd (walk H xs m h pos) @ hpost \<Longrightarrow> ex_nHashUsed s = length hpre \<Longrightarrow>
    TraverseAndExtract H t h pos s =
      (node H h (seg xs (pos * 2 ^ h) h),
       s\<lparr>ex_nBitsUsed := length bpre + length (fst (walk H xs m h pos)),
         ex_nHashUsed := length hpre + length (snd (walk H xs m h pos)),
         ex_vMatch := ex_vMatch s @ map ((!) xs) (matched (length xs) m h pos),
         ex_vnIndex := ex_vnIndex s @ matched (length xs) m h pos\<rparr>)"
proof (induction h arbitrary: pos s bpre bpost hpre hpost)
  case 0
  then have p: "pos < length xs" by simp
  then have "matched (length xs) m 0 pos = (if m ! pos then [pos] else [])" by (simp add: matched_def)
  then show ?case using 0 p by (auto simp: extract_leaf_def nth_append hd_seg Let_def)
next
  case (Suc h)
  have n31: "length xs \<le> 2 ^ 31" using xs by (simp add: leaves_ok_def)
  let ?a = "pos * 2 * 2 ^ h" and ?b = "(pos * 2 + 1) * 2 ^ h"
  have a: "pos * 2 ^ Suc h = ?a" "?a + 2 ^ h = ?b" by (simp_all add: algebra_simps)
  have l: "?a < length xs" using Suc.prems(2) unfolding a(1) .
  have w: "pos * 2 + 1 < CalcTreeWidth (length xs) h \<longleftrightarrow> ?b < length xs"
    using Suc.prems(1) by (intro CalcTreeWidth_less_iff n31) simp
  note hsub = hashed_seg_Suc [OF l, of H h, unfolded a(2)]
  show ?case
  proof (cases "matched (length xs) m (Suc h) pos = []")
    case True
    then show ?thesis using Suc.prems n CalcHash_eq [OF n31 Suc.prems(1,2), of H] by (simp add: extract_leaf_def nth_append)
  next
    case m: False
    let ?W = "walk H xs m h (pos * 2)" and ?V = "walk H xs m h (pos * 2 + 1)"
    have il: "inj_on H (hashed H h (seg xs ?a h))"
      by (rule inj_on_subset [OF Suc.prems(3)]) (unfold a hsub, auto)
    have mt: "matched (length xs) m (Suc h) pos =
        matched (length xs) m h (pos * 2) @ (if ?b < length xs then matched (length xs) m h (pos * 2 + 1) else [])"
      by (rule matched_Suc [OF Suc.prems(2)])
    show ?thesis
    proof (cases "?b < length xs")
      case b: False
      have bits: "pmt_vBits t = (bpre @ [True]) @ fst ?W @ bpost" "pmt_vHash t = hpre @ snd ?W @ hpost"
        using Suc.prems(4,6) m b by (simp_all add: Let_def)
      note L = Suc.IH [OF _ l il bits(1) _ bits(2), of "s\<lparr>ex_nBitsUsed := Suc (length bpre)\<rparr>"]
      have nd: "node H (Suc h) (seg xs (pos * 2 ^ Suc h) (Suc h)) = H (node H h (seg xs ?a h) @ node H h (seg xs ?a h))"
        using node_seg_Suc [OF l, of H h] b unfolding a by simp
      show ?thesis unfolding nd using L Suc.prems m b w n mt by (simp add: nth_append Let_def)
    next
      case b: True
      have bits: "pmt_vBits t = (bpre @ [True]) @ fst ?W @ (fst ?V @ bpost)" "pmt_vHash t = hpre @ snd ?W @ (snd ?V @ hpost)"
        "pmt_vBits t = (bpre @ [True] @ fst ?W) @ fst ?V @ bpost" "pmt_vHash t = (hpre @ snd ?W) @ snd ?V @ hpost"
        using Suc.prems(4,6) m b by (simp_all add: Let_def)
      have ir: "inj_on H (hashed H h (seg xs ?b h))"
        by (rule inj_on_subset [OF Suc.prems(3)]) (unfold a hsub, use b in auto)
      note L = Suc.IH [OF _ l il bits(1) _ bits(2), of "s\<lparr>ex_nBitsUsed := Suc (length bpre)\<rparr>"]
      note R = Suc.IH [OF _ b ir bits(3) _ bits(4)]
      have nd: "node H (Suc h) (seg xs (pos * 2 ^ Suc h) (Suc h)) = H (node H h (seg xs ?a h) @ node H h (seg xs ?b h))"
        using node_seg_Suc [OF l, of H h] b unfolding a by simp
      have ne: "node H h (seg xs ?b h) \<noteq> node H h (seg xs ?a h)"
        using siblings_differ [OF H xs, of ?a h] b Suc.prems(3) unfolding a by simp
      show ?thesis unfolding nd using L R ne Suc.prems(1,5,7) bits(1,2) m b w n mt by (auto simp: nth_append Let_def add.assoc)
    qed
  qed
qed

lemma top_node:
  assumes "length xs \<le> 2 ^ h"
  shows "seg xs 0 h = xs" "matched (length xs) m h 0 = filter (\<lambda>p. m ! p) [0 ..< length xs]"
  using assms by (simp_all add: seg_def matched_def min_def)

lemma extract_built:
  assumes "\<And>x. length (H x) = 32" "leaves_ok xs" "xs \<noteq> []" "length xs \<le> maxtx"
    "inj_on H (hashed H (tree_height (length xs)) xs)"
    "(length (pmt_vBits (CPartialMerkleTree_of H xs m) @ replicate k False) + 7) div 8
       = (length (pmt_vBits (CPartialMerkleTree_of H xs m)) + 7) div 8"
  shows "ExtractMatches H maxtx (CPartialMerkleTree_of H xs m
             \<lparr>pmt_vBits := pmt_vBits (CPartialMerkleTree_of H xs m) @ replicate k False\<rparr>) ix =
           (merkle_root H xs,
            CPartialMerkleTree_of H xs m\<lparr>pmt_vBits := pmt_vBits (CPartialMerkleTree_of H xs m) @ replicate k False\<rparr>,
            map ((!) xs) (filter (\<lambda>p. m ! p) [0 ..< length xs]), ix @ filter (\<lambda>p. m ! p) [0 ..< length xs])"
proof -
  let ?h = "tree_height (length xs)" and ?n = "length xs"
  let ?W = "walk H xs m ?h 0"
  have n: "?n \<le> 2 ^ 31" using assms(2) by (simp add: leaves_ok_def)
  then have h: "?h \<le> 31" by (rule tree_height_le)
  have top: "?n \<le> 2 ^ ?h" using tree_height_bounds [of ?n] by simp
  have pos: "0 * 2 ^ ?h < ?n" using assms(3) by simp
  have loop: "height_loop ?n 0 = ?h" by (rule height_loop_eq [OF n]) simp
  have "?n < 2 ^ 32" using n by simp
  then have t: "CPartialMerkleTree_of H xs m = \<lparr>pmt_nTransactions = ?n, pmt_vBits = fst ?W, pmt_vHash = snd ?W, pmt_fBad = False\<rparr>"
    using TraverseAndBuild_eq [OF n h pos] loop by (simp add: CPartialMerkleTree_of_def Let_def)
  let ?t = "CPartialMerkleTree_of H xs m\<lparr>pmt_vBits := pmt_vBits (CPartialMerkleTree_of H xs m) @ replicate k False\<rparr>"
  have inj: "inj_on H (hashed H ?h (seg xs (0 * 2 ^ ?h) ?h))" using assms(5) top_node(1) [OF top] by simp
  have E: "TraverseAndExtract H ?t ?h 0 s = (merkle_root H xs,
       s\<lparr>ex_nBitsUsed := length (fst ?W), ex_nHashUsed := length (snd ?W),
         ex_vMatch := ex_vMatch s @ map ((!) xs) (filter (\<lambda>p. m ! p) [0 ..< ?n]),
         ex_vnIndex := ex_vnIndex s @ filter (\<lambda>p. m ! p) [0 ..< ?n]\<rparr>)"
    if "ex_nBitsUsed s = 0" "ex_nHashUsed s = 0" for s
    using extract_walk [OF assms(1,2) _ h pos inj, of ?t "[]" m "replicate k False" s "[]" "[]"] that top_node [OF top]
    by (simp add: t merkle_root_def)
  have c: "length (snd ?W) \<le> length (fst ?W)" "length (snd ?W) \<le> ?n"
    using walk_counts [OF pos, of H m] top by auto
  show ?thesis
    unfolding ExtractMatches_def using E assms(3,4,6) c loop by (simp add: t)
qed

lemma walk_bits: "length (fst (walk H xs m h pos)) < 2 ^ Suc h"
proof (induction h arbitrary: pos)
  case (Suc h)
  have "(1 :: nat) \<le> 2 ^ h" by simp
  then show ?case using Suc.IH [of "pos * 2"] Suc.IH [of "pos * 2 + 1"] unfolding power_Suc walk.simps Let_def
    by (cases "matched (length xs) m (Suc h) pos = []"; cases "(pos * 2 + 1) * 2 ^ h < length xs"; simp)
qed simp

lemma walk_hashes:
  assumes "\<And>x. length (H x) = 32" "\<forall>x\<in>set xs. length x = 32"
  shows "pos * 2 ^ h < length xs \<Longrightarrow> list_all (\<lambda>x. length x = 32) (snd (walk H xs m h pos))"
proof (induction h arbitrary: pos)
  case 0
  then show ?case using assms(2) by simp
next
  case (Suc h)
  have "pos * 2 * 2 ^ h < length xs" using Suc.prems by (simp add: algebra_simps)
  then show ?case using Suc.IH [of "pos * 2"] Suc.IH [of "pos * 2 + 1"] by (auto simp: Let_def assms(1))
qed

lemma unser_ser_tree:
  assumes "pmt_nTransactions t < 2 ^ 32" "length (pmt_vHash t) \<le> MAX_SIZE" "list_all (\<lambda>h. length h = 32) (pmt_vHash t)"
    "(length (pmt_vBits t) + 7) div 8 \<le> MAX_SIZE"
  shows "unser_CPartialMerkleTree (ser_CPartialMerkleTree t @ rest) =
    Some (\<lparr>pmt_nTransactions = pmt_nTransactions t,
           pmt_vBits = pmt_vBits t @ replicate ((length (pmt_vBits t) + 7) div 8 * 8 - length (pmt_vBits t)) False,
           pmt_vHash = pmt_vHash t, pmt_fBad = False\<rparr>, rest)"
proof -
  have "length (pack_bits (pmt_vBits t)) = (length (pmt_vBits t) + 7) div 8"
    using packed_fold [of "length (pmt_vBits t)" "pmt_vBits t"] by (simp add: pack_bits_def packed_def)
  then have "length (pack_bits (pmt_vBits t)) \<le> MAX_SIZE" using assms(4) by simp
  moreover have "unat (word_of_nat (pmt_nTransactions t) :: u32) = pmt_nTransactions t"
    using assms(1) by (intro unat_u32_of_nat) simp
  ultimately show ?thesis
    using assms(2,3)
    by (simp add: unser_CPartialMerkleTree_def ser_CPartialMerkleTree_def rbind_def u32.unser_ser hashes.unser_ser
        byte_vector.unser_ser unpack_pack)
qed

section \<open>Soundness of the extraction\<close>

text \<open>The strings that the extraction hashes below a node.\<close>

primrec extract_hashed :: "(bytes \<Rightarrow> bytes) \<Rightarrow> CPartialMerkleTree \<Rightarrow> nat \<Rightarrow> nat \<Rightarrow> extract_state \<Rightarrow> bytes set" where
  "extract_hashed H t 0 pos s = {}"
| "extract_hashed H t (Suc h) pos s =
     (if ex_nBitsUsed s \<ge> length (pmt_vBits t) \<or> \<not> pmt_vBits t ! ex_nBitsUsed s then {} else
      let s = s\<lparr>ex_nBitsUsed := ex_nBitsUsed s + 1\<rparr>;
          (left, s1) = TraverseAndExtract H t h (pos * 2) s;
          (right, s2) = TraverseAndExtract H t h (pos * 2 + 1) s1
      in if pos * 2 + 1 < CalcTreeWidth (pmt_nTransactions t) h
         then insert (left @ right) (extract_hashed H t h (pos * 2) s \<union> extract_hashed H t h (pos * 2 + 1) s1)
         else insert (left @ left) (extract_hashed H t h (pos * 2) s))"

lemma extract_bad: "ex_fBad s \<Longrightarrow> ex_fBad (snd (TraverseAndExtract H t h pos s))"
proof (induction h arbitrary: pos s)
  case 0
  then show ?case by (simp add: extract_leaf_def Let_def)
next
  case (Suc h)
  show ?case
    using Suc.IH [of "s\<lparr>ex_nBitsUsed := Suc (ex_nBitsUsed s)\<rparr>" "pos * 2"] Suc.prems
      Suc.IH [of "snd (TraverseAndExtract H t h (pos * 2) (s\<lparr>ex_nBitsUsed := Suc (ex_nBitsUsed s)\<rparr>))" "Suc (pos * 2)"]
    by (auto simp: Let_def extract_leaf_def split: prod.splits)
qed

lemma extract_length:
  assumes "\<And>x. length (H x) = 32" "list_all (\<lambda>x. length x = 32) (pmt_vHash t)"
  shows "length (fst (TraverseAndExtract H t h pos s)) = 32"
  using assms by (cases h) (auto simp: Let_def extract_leaf_def uint256_null_def list_all_length split: prod.splits)

text \<open>The transactions that one walk adds to the results: each with the position where it is in the list.\<close>

definition found_in :: "bytes list \<Rightarrow> nat \<Rightarrow> nat \<Rightarrow> extract_state \<Rightarrow> extract_state \<Rightarrow> bool" where
  "found_in xs a b s s' \<longleftrightarrow> (\<exists>is. sorted_wrt (<) is \<and> (\<forall>i\<in>set is. a \<le> i \<and> i < b \<and> i < length xs)
     \<and> ex_vnIndex s' = ex_vnIndex s @ is \<and> ex_vMatch s' = ex_vMatch s @ map ((!) xs) is)"

lemma found_in_none: "ex_vnIndex s' = ex_vnIndex s \<Longrightarrow> ex_vMatch s' = ex_vMatch s \<Longrightarrow> found_in xs a b s s'"
  unfolding found_in_def by (rule exI [of _ "[]"]) simp

lemma found_in_wider: "found_in xs a b s s' \<Longrightarrow> a' \<le> a \<Longrightarrow> b \<le> b' \<Longrightarrow> found_in xs a' b' s s'"
  unfolding found_in_def by (meson order_trans less_le_trans)

lemma found_in_trans: "found_in xs a b s s1 \<Longrightarrow> found_in xs b c s1 s2 \<Longrightarrow> found_in xs (min a b) (max b c) s s2"
proof -
  assume "found_in xs a b s s1" "found_in xs b c s1 s2"
  then obtain i1 i2 where i: "sorted_wrt (<) i1" "\<forall>i\<in>set i1. a \<le> i \<and> i < b \<and> i < length xs"
      "ex_vnIndex s1 = ex_vnIndex s @ i1" "ex_vMatch s1 = ex_vMatch s @ map ((!) xs) i1"
      "sorted_wrt (<) i2" "\<forall>i\<in>set i2. b \<le> i \<and> i < c \<and> i < length xs"
      "ex_vnIndex s2 = ex_vnIndex s1 @ i2" "ex_vMatch s2 = ex_vMatch s1 @ map ((!) xs) i2"
    unfolding found_in_def by blast
  then show ?thesis unfolding found_in_def
    by (intro exI [of _ "i1 @ i2"]) (fastforce simp: sorted_wrt_append)
qed

lemma extract_sound:
  assumes H: "\<And>x. length (H x) = 32" and t: "list_all (\<lambda>x. length x = 32) (pmt_vHash t)"
    and xs: "\<forall>x\<in>set xs. length x = 32" and n: "length xs \<le> 2 ^ 31" "pmt_nTransactions t = length xs"
  shows "h \<le> 31 \<Longrightarrow> pos * 2 ^ h < length xs \<Longrightarrow> TraverseAndExtract H t h pos s = (node H h (seg xs (pos * 2 ^ h) h), s') \<Longrightarrow>
    \<not> ex_fBad s' \<Longrightarrow> inj_on H (hashed H h (seg xs (pos * 2 ^ h) h) \<union> extract_hashed H t h pos s) \<Longrightarrow>
    found_in xs (pos * 2 ^ h) ((pos + 1) * 2 ^ h) s s'"
proof (induction h arbitrary: pos s s')
  case 0
  let ?b = "pmt_vBits t ! ex_nBitsUsed s"
  have s': "ex_nBitsUsed s < length (pmt_vBits t)" "ex_nHashUsed s < length (pmt_vHash t)"
      "pmt_vHash t ! ex_nHashUsed s = xs ! pos"
      "ex_vMatch s' = ex_vMatch s @ (if ?b then [xs ! pos] else [])" "ex_vnIndex s' = ex_vnIndex s @ (if ?b then [pos] else [])"
    using 0 by (auto simp: extract_leaf_def hd_seg Let_def split: if_splits)
  show ?case unfolding found_in_def using s'(4,5) 0(2) by (intro exI [of _ "if ?b then [pos] else []"]) simp
next
  case (Suc h)
  let ?a = "pos * 2 * 2 ^ h" and ?b = "(pos * 2 + 1) * 2 ^ h" and ?c = "(pos * 2 + 1 + 1) * 2 ^ h"
  let ?s0 = "s\<lparr>ex_nBitsUsed := ex_nBitsUsed s + 1\<rparr>"
  have a: "pos * 2 ^ Suc h = ?a" "?a + 2 ^ h = ?b" "(pos + 1) * 2 ^ Suc h = ?c" by (simp_all add: algebra_simps)
  have l: "?a < length xs" using Suc.prems(2) unfolding a(1) .
  have w: "pos * 2 + 1 < CalcTreeWidth (length xs) h \<longleftrightarrow> ?b < length xs"
    using Suc.prems(1) by (intro CalcTreeWidth_less_iff n(1)) simp
  have ab: "?a \<le> ?b" "?b \<le> ?c" by simp_all
  have nlen: "length (node H h (seg xs b h)) = 32" if "b < length xs" for b
    using that xs by (intro node_length H) (auto simp: seg_def dest: in_set_takeD in_set_dropD)
  show ?case
  proof (cases "ex_nBitsUsed s < length (pmt_vBits t) \<and> pmt_vBits t ! ex_nBitsUsed s")
    case False
    then have "ex_vnIndex s' = ex_vnIndex s \<and> ex_vMatch s' = ex_vMatch s"
      using Suc.prems(3,4) by (auto simp: extract_leaf_def Let_def split: if_splits)
    then show ?thesis by (intro found_in_none) simp_all
  next
    case bit: True
    obtain left s1 where L: "TraverseAndExtract H t h (pos * 2) ?s0 = (left, s1)" by (rule prod.exhaust)
    have llen: "length left = 32" using extract_length [of H t h "pos * 2" ?s0, OF H t] by (simp only: L fst_conv)
    show ?thesis
    proof (cases "?b < length xs")
      case b: False
      then have e: "H (left @ left) = H (node H h (seg xs ?a h) @ node H h (seg xs ?a h))" and s1: "s1 = s'"
        using Suc.prems(3) bit L w n(2) node_seg_Suc [OF l, of H h] unfolding a by (simp_all add: Let_def)
      have hs: "hashed H (Suc h) (seg xs ?a (Suc h)) = insert (node H h (seg xs ?a h) @ node H h (seg xs ?a h)) (hashed H h (seg xs ?a h))"
        using hashed_seg_Suc [OF l, of H h] b unfolding a by simp
      have xh: "extract_hashed H t (Suc h) pos s = insert (left @ left) (extract_hashed H t h (pos * 2) ?s0)"
        using bit L w b n(2) by (auto simp: Let_def split: prod.splits)
      note inj = Suc.prems(5) [unfolded a hs xh]
      have "left @ left = node H h (seg xs ?a h) @ node H h (seg xs ?a h)" by (rule inj_onD [OF inj e]) simp_all
      then have "left = node H h (seg xs ?a h)" using llen nlen [OF l] by simp
      then have "found_in xs ?a ((pos * 2 + 1) * 2 ^ h) ?s0 s'"
        using Suc.prems(1,4) L s1 by (intro Suc.IH [OF _ l] inj_on_subset [OF inj]) auto
      then have "found_in xs ?a ?b s s'" by (simp add: found_in_def)
      then show ?thesis unfolding a using ab by (rule_tac found_in_wider) auto
    next
      case b: True
      obtain right s2 where R: "TraverseAndExtract H t h (pos * 2 + 1) s1 = (right, s2)" by (rule prod.exhaust)
      have rlen: "length right = 32" using extract_length [of H t h "pos * 2 + 1" s1, OF H t] by (simp only: R fst_conv)
      have e: "H (left @ right) = H (node H h (seg xs ?a h) @ node H h (seg xs ?b h))" and s2: "s2 = s'"
        using Suc.prems(3,4) bit L R w b n(2) node_seg_Suc [OF l, of H h] unfolding a by (auto simp: Let_def split: if_splits)
      have hs: "hashed H (Suc h) (seg xs ?a (Suc h)) = insert (node H h (seg xs ?a h) @ node H h (seg xs ?b h))
          (hashed H h (seg xs ?a h) \<union> hashed H h (seg xs ?b h))"
        using hashed_seg_Suc [OF l, of H h] b unfolding a by simp
      have xh: "extract_hashed H t (Suc h) pos s = insert (left @ right)
          (extract_hashed H t h (pos * 2) ?s0 \<union> extract_hashed H t h (pos * 2 + 1) s1)"
        using bit L R w b n(2) by (auto simp: Let_def split: prod.splits)
      note inj = Suc.prems(5) [unfolded a hs xh]
      have "left @ right = node H h (seg xs ?a h) @ node H h (seg xs ?b h)" by (rule inj_onD [OF inj e]) simp_all
      then have eq: "left = node H h (seg xs ?a h)" "right = node H h (seg xs ?b h)" using llen nlen [OF l] by simp_all
      have bad: "\<not> ex_fBad s1" using extract_bad [of s1 H t h "pos * 2 + 1"] R s2 Suc.prems(4) by auto
      have "found_in xs ?a ?b ?s0 s1"
        using Suc.prems(1) L eq bad by (intro Suc.IH [OF _ l] inj_on_subset [OF inj]) auto
      moreover have "found_in xs ?b ?c s1 s'"
        using Suc.prems(1,4) R eq s2 by (intro Suc.IH [OF _ b] inj_on_subset [OF inj]) auto
      ultimately have "found_in xs (min ?a ?b) (max ?b ?c) ?s0 s'" by (rule found_in_trans)
      then show ?thesis unfolding a using ab by (simp add: found_in_def min_def max_def)
    qed
  qed
qed

section \<open>Properties\<close>

text \<open>A partial Merkle tree carries its transactions over the network. For distinct transaction ids, up to the limits
  of the format, the tree that is built for a selection of them is read back from what is written for it, and the
  extraction then returns the Merkle root of the block and exactly the selected ids with their positions. The hash must
  not collide on the strings that are hashed for the root.\<close>

theorem partial_merkle_roundtrip:
  assumes "\<And>x. length (H x) = 32" and "leaves_ok xs" and "xs \<noteq> []" and "length xs \<le> maxtx" and "length xs \<le> MAX_SIZE"
    and "inj_on H (hashed H (tree_height (length xs)) xs)"
  shows "\<exists>t. unser_CPartialMerkleTree (ser_CPartialMerkleTree (CPartialMerkleTree_of H xs m) @ rest) = Some (t, rest)
    \<and> ExtractMatches H maxtx t [] = (merkle_root H xs, t, map ((!) xs) (filter (\<lambda>p. m ! p) [0 ..< length xs]),
         filter (\<lambda>p. m ! p) [0 ..< length xs])"
proof -
  let ?h = "tree_height (length xs)" and ?n = "length xs"
  let ?t = "CPartialMerkleTree_of H xs m" and ?W = "walk H xs m ?h 0"
  have n: "?n \<le> 2 ^ 31" using assms(2) by (simp add: leaves_ok_def)
  have pos: "0 * 2 ^ ?h < ?n" using assms(3) by simp
  have n25: "?n \<le> 2 ^ 25" using assms(5) by (simp add: MAX_SIZE_def)
  then have h: "?h \<le> 25" by (rule tree_height_le)
  then have "TraverseAndBuild H xs m ?h 0 s = s\<lparr>pmt_vBits := pmt_vBits s @ fst ?W, pmt_vHash := pmt_vHash s @ snd ?W\<rparr>"
    if "pmt_nTransactions s = ?n" for s using that by (intro TraverseAndBuild_eq n pos) simp_all
  then have t: "?t = \<lparr>pmt_nTransactions = ?n, pmt_vBits = fst ?W, pmt_vHash = snd ?W, pmt_fBad = False\<rparr>"
    using height_loop_eq [OF n, of 0] n by (simp add: CPartialMerkleTree_of_def Let_def)
  have "(2 :: nat) ^ Suc ?h \<le> 2 ^ 26" using h by (intro power_increasing) simp_all
  then have b: "length (fst ?W) < 2 ^ 26" using walk_bits [of H xs m ?h 0] by linarith
  let ?k = "(length (fst ?W) + 7) div 8 * 8 - length (fst ?W)"
  have "unser_CPartialMerkleTree (ser_CPartialMerkleTree ?t @ rest) = Some (?t\<lparr>pmt_vBits := pmt_vBits ?t @ replicate ?k False\<rparr>, rest)"
    using unser_ser_tree [of ?t rest] walk_counts [OF pos, of H m] walk_hashes [of H xs 0 ?h m, OF assms(1) _ pos] assms(2,5) n b
    by (simp add: t leaves_ok_def MAX_SIZE_def)
  moreover have "(length (pmt_vBits ?t @ replicate ?k False) + 7) div 8 = (length (pmt_vBits ?t) + 7) div 8"
    using pack_padding [of "fst ?W"] by (simp add: t)
  ultimately show ?thesis using extract_built [OF assms(1-4,6), of m ?k "[]"] by (intro exI conjI) auto
qed

theorem partial_merkle_roundtrip_witness:
  "\<exists>t. unser_CPartialMerkleTree (ser_CPartialMerkleTree (CPartialMerkleTree_of demo_hash demo_leaves [False, True, True]) @ [7]) = Some (t, [7])
    \<and> ExtractMatches demo_hash 100 t [] = (merkle_root demo_hash demo_leaves, t, tl demo_leaves, [1, 2])"
proof -
  have "filter (\<lambda>p. [False, True, True] ! p) [0 ..< length demo_leaves] = [1, 2]" "map ((!) demo_leaves) [1, 2] = tl demo_leaves"
    by (simp_all add: demo_leaves_facts(2) upt_rec) (simp add: demo_leaves_def)
  moreover have "leaves_ok demo_leaves" by (simp add: leaves_ok_def demo_leaves_def replicate_eq_replicate)
  moreover have "inj_on demo_hash (hashed demo_hash (tree_height (length demo_leaves)) demo_leaves)"
    unfolding demo_leaves_facts(2,4) by code_simp
  ultimately show ?thesis
    using partial_merkle_roundtrip [of demo_hash demo_leaves 100 "[False, True, True]" "[7]", OF demo_hash_length]
    by (simp add: demo_leaves_facts MAX_SIZE_def)
qed

text \<open>C20: A partial Merkle tree from an untrusted peer proves what it claims. If the extraction returns the Merkle root of
  a list of transaction ids of the length the tree states, then every extracted id is the one at the position that is
  returned with it, and the positions are increasing, unless the hash collides on the strings hashed for the root or by
  the extraction. The root must not be zero, which stands for a failure.\<close>

theorem partial_merkle_sound:
  assumes "\<And>x. length (H x) = 32" and "\<forall>x\<in>set xs. length x = 32" and "list_all (\<lambda>x. length x = 32) (pmt_vHash t)"
    and "pmt_nTransactions t = length xs" and "length xs \<le> 2 ^ 31"
    and "ExtractMatches H maxtx t [] = (merkle_root H xs, t', vMatch, vnIndex)" and "merkle_root H xs \<noteq> uint256_null"
    and "inj_on H (hashed H (tree_height (length xs)) xs \<union> extract_hashed H t (tree_height (length xs)) 0
           \<lparr>ex_fBad = pmt_fBad t, ex_nBitsUsed = 0, ex_nHashUsed = 0, ex_vMatch = [], ex_vnIndex = []\<rparr>)"
  shows "sorted_wrt (<) vnIndex \<and> (\<forall>i\<in>set vnIndex. i < length xs) \<and> vMatch = map ((!) xs) vnIndex"
proof -
  let ?h = "tree_height (length xs)"
  let ?s = "\<lparr>ex_fBad = pmt_fBad t, ex_nBitsUsed = 0, ex_nHashUsed = 0, ex_vMatch = [], ex_vnIndex = []\<rparr>"
  have pos: "0 * 2 ^ ?h < length xs" using assms(4,6,7) by (auto simp: ExtractMatches_def)
  have top: "length xs \<le> 2 ^ ?h" using tree_height_bounds [of "length xs"] by simp
  have h: "?h \<le> 31" using assms(5) by (rule tree_height_le)
  obtain v s' where E: "TraverseAndExtract H t ?h 0 ?s = (v, s')" by (rule prod.exhaust)
  have "height_loop (length xs) 0 = ?h" by (rule height_loop_eq [OF assms(5)]) simp
  then have r: "v = merkle_root H xs" "\<not> ex_fBad s'" "vMatch = ex_vMatch s'" "vnIndex = ex_vnIndex s'"
    using assms(4,6,7) E by (auto simp: ExtractMatches_def Let_def split: if_splits)
  have "found_in xs (0 * 2 ^ ?h) ((0 + 1) * 2 ^ ?h) ?s s'"
    using E r(1,2) assms(8) top_node(1) [OF top]
    by (intro extract_sound [OF assms(1,3,2,5,4) h pos]) (simp_all add: merkle_root_def)
  then show ?thesis by (auto simp: found_in_def r(3,4))
qed

definition demo_pmt :: CPartialMerkleTree where
  "demo_pmt = \<lparr>pmt_nTransactions = 3, pmt_vBits = [True, True, False, True, False],
     pmt_vHash = [replicate 32 1, replicate 32 2, demo_hash (replicate 32 3 @ replicate 32 3)], pmt_fBad = False\<rparr>"

lemma demo_height: "height_loop 3 0 = Suc (Suc 0)" "tree_height 3 = Suc (Suc 0)"
  using height_loop_eq [of 3 0] by (simp_all add: demo_leaves_facts)

lemma demo_width: "CalcTreeWidth 3 0 = 3" "CalcTreeWidth 3 (Suc 0) = 2"
  by (simp_all add: CalcTreeWidth_def)

lemma demo_siblings: "demo_hash (replicate 32 3 @ replicate 32 3) \<noteq> demo_hash (replicate 32 1 @ replicate 32 2)"
  by code_simp

lemma demo_extract:
  "ExtractMatches demo_hash 100 demo_pmt [] = (merkle_root demo_hash demo_leaves, demo_pmt, [demo_leaves ! 1], [1])"
  "extract_hashed demo_hash demo_pmt (tree_height (length demo_leaves)) 0
      \<lparr>ex_fBad = pmt_fBad demo_pmt, ex_nBitsUsed = 0, ex_nHashUsed = 0, ex_vMatch = [], ex_vnIndex = []\<rparr>
    \<subseteq> hashed demo_hash (tree_height (length demo_leaves)) demo_leaves"
  by (simp_all add: ExtractMatches_def demo_pmt_def demo_height demo_width extract_leaf_def merkle_root_def demo_leaves_facts(2) Let_def
        demo_siblings) (simp_all add: demo_leaves_def)

theorem partial_merkle_sound_witness: "sorted_wrt (<) [1 :: nat] \<and> [demo_leaves ! 1] = map ((!) demo_leaves) [1]"
proof -
  let ?s = "\<lparr>ex_fBad = pmt_fBad demo_pmt, ex_nBitsUsed = 0, ex_nHashUsed = 0, ex_vMatch = [], ex_vnIndex = []\<rparr>"
  have root: "merkle_root demo_hash demo_leaves \<noteq> uint256_null"
    unfolding merkle_root_def demo_leaves_facts(2) demo_height by code_simp
  have "inj_on demo_hash (hashed demo_hash (tree_height (length demo_leaves)) demo_leaves)"
    unfolding demo_leaves_facts(2) demo_height by code_simp
  then have "inj_on demo_hash (hashed demo_hash (tree_height (length demo_leaves)) demo_leaves
      \<union> extract_hashed demo_hash demo_pmt (tree_height (length demo_leaves)) 0 ?s)"
    using demo_extract(2) by (simp add: sup_absorb1)
  from partial_merkle_sound [OF demo_hash_length _ _ _ _ demo_extract(1) root this] show ?thesis
    by (simp add: demo_leaves_def demo_pmt_def demo_hash_length)
qed

end
