(* ===== verification/Compressor.thy ===== *)
theory Compressor
  imports Transaction
begin

text \<open>
  The compact formats of the coin database and of the undo data (\<open>src/src/compressor.h\<close>, \<open>compressor.cpp\<close>, the class
  \<open>Coin\<close> of \<open>coins.h\<close>, \<open>undo.h\<close>): amounts, scripts, transaction outputs, coins, and the coins an input or a transaction
  has spent. The validity and the decompression of an uncompressed public key, which the elliptic curve library decides,
  are arguments.
\<close>

section \<open>Amounts\<close>

function compress_loop :: "u64 \<Rightarrow> nat \<Rightarrow> u64 \<times> nat" where
  "compress_loop n e = (if n mod 10 = 0 \<and> e < 9 then compress_loop (n div 10) (e + 1) else (n, e))"
  by auto
termination
  by (relation "measure (\<lambda>(n, e). 9 - e)") auto

declare compress_loop.simps [simp del]

definition CompressAmount :: "u64 \<Rightarrow> u64" where
  "CompressAmount n =
     (if n = 0 then 0
      else let (n, e) = compress_loop n 0
           in if e < 9 then let d = n mod 10; n = n div 10 in 1 + (n * 9 + d - 1) * 10 + word_of_nat e
              else 1 + (n - 1) * 10 + 9)"

primrec times_ten :: "nat \<Rightarrow> u64 \<Rightarrow> u64" where
  "times_ten 0 n = n"
| "times_ten (Suc e) n = times_ten e (n * 10)"

definition DecompressAmount :: "u64 \<Rightarrow> u64" where
  "DecompressAmount x =
     (if x = 0 then 0
      else let x = x - 1; e = unat (x mod 10); x = x div 10;
               n = (if e < 9 then let d = x mod 9 + 1; x = x div 9 in x * 10 + d else x + 1)
           in times_ten e n)"

section \<open>Scripts\<close>

definition nSpecialScripts :: nat where "nSpecialScripts = 6"

definition IsToKeyID :: "bytes \<Rightarrow> bytes option" where
  "IsToKeyID script =
     (if length script = 25 \<and> script ! 0 = OP_DUP \<and> script ! 1 = OP_HASH160 \<and> script ! 2 = 20
         \<and> script ! 23 = OP_EQUALVERIFY \<and> script ! 24 = OP_CHECKSIG
      then Some (take 20 (drop 3 script)) else None)"

definition IsToScriptID :: "bytes \<Rightarrow> bytes option" where
  "IsToScriptID script =
     (if length script = 23 \<and> script ! 0 = OP_HASH160 \<and> script ! 1 = 20 \<and> script ! 22 = OP_EQUAL
      then Some (take 20 (drop 2 script)) else None)"

definition IsToPubKey :: "(bytes \<Rightarrow> bool) \<Rightarrow> bytes \<Rightarrow> bytes option" where
  "IsToPubKey IsFullyValid script =
     (if length script = 35 \<and> script ! 0 = 33 \<and> script ! 34 = OP_CHECKSIG \<and> (script ! 1 = 0x02 \<or> script ! 1 = 0x03)
      then Some (take 33 (drop 1 script))
      else if length script = 67 \<and> script ! 0 = 65 \<and> script ! 66 = OP_CHECKSIG \<and> script ! 1 = 0x04
      then let pubkey = take 65 (drop 1 script) in if IsFullyValid pubkey then Some pubkey else None
      else None)"

definition Compress :: "(bytes \<Rightarrow> bool) \<Rightarrow> bytes \<Rightarrow> bytes option" where
  "Compress IsFullyValid script =
     (case IsToKeyID script of
        Some keyID \<Rightarrow> Some (0x00 # keyID)
      | None \<Rightarrow>
          (case IsToScriptID script of
             Some scriptID \<Rightarrow> Some (0x01 # scriptID)
           | None \<Rightarrow>
               (case IsToPubKey IsFullyValid script of
                  Some pubkey \<Rightarrow>
                    let x = take 32 (drop 1 pubkey)
                    in if pubkey ! 0 = 0x02 \<or> pubkey ! 0 = 0x03 then Some (pubkey ! 0 # x)
                       else if pubkey ! 0 = 0x04 then Some ((0x04 OR (pubkey ! 64 AND 0x01)) # x)
                       else None
                | None \<Rightarrow> None)))"

definition GetSpecialSize :: "nat \<Rightarrow> nat" where
  "GetSpecialSize nSize = (if nSize = 0 \<or> nSize = 1 then 20 else if nSize \<in> {2, 3, 4, 5} then 32 else 0)"

text \<open>\<open>Decompress\<close> leaves the script as it is when it returns false.\<close>

definition Decompress :: "(bytes \<Rightarrow> bytes option) \<Rightarrow> nat \<Rightarrow> bytes \<Rightarrow> bytes option" where
  "Decompress DecompressKey nSize data =
     (if nSize = 0 then Some ([OP_DUP, OP_HASH160, 20] @ data @ [OP_EQUALVERIFY, OP_CHECKSIG])
      else if nSize = 1 then Some ([OP_HASH160, 20] @ data @ [OP_EQUAL])
      else if nSize = 2 \<or> nSize = 3 then Some ([33, word_of_nat nSize] @ data @ [OP_CHECKSIG])
      else if nSize = 4 \<or> nSize = 5 then
        (case DecompressKey (word_of_nat (nSize - 2) # data) of
           None \<Rightarrow> None
         | Some pubkey \<Rightarrow> Some ([65] @ pubkey @ [OP_CHECKSIG]))
      else None)"

definition ser_CScriptCompressor :: "(bytes \<Rightarrow> bool) \<Rightarrow> bytes \<Rightarrow> bytes" where
  "ser_CScriptCompressor IsFullyValid script =
     (case Compress IsFullyValid script of
        Some compr \<Rightarrow> compr
      | None \<Rightarrow> WriteVarInt (length script + nSpecialScripts) @ script)"

text \<open>The script that is read into is empty before.\<close>

definition unser_CScriptCompressor :: "(bytes \<Rightarrow> bytes option) \<Rightarrow> bytes reader" where
  "unser_CScriptCompressor DecompressKey =
     rbind (ReadVarInt 32) (\<lambda>nSize.
       if nSize < nSpecialScripts
       then rbind (stream_read (GetSpecialSize nSize)) (\<lambda>vch.
              rret (case Decompress DecompressKey nSize vch of None \<Rightarrow> [] | Some script \<Rightarrow> script))
       else let nSize = nSize - nSpecialScripts
            in if nSize > MAX_SCRIPT_SIZE then rbind (stream_read nSize) (\<lambda>_. rret [OP_RETURN])
               else stream_read nSize)"

section \<open>Outputs, coins and undo data\<close>

definition ser_CTxOutCompressor :: "(bytes \<Rightarrow> bool) \<Rightarrow> CTxOut \<Rightarrow> bytes" where
  "ser_CTxOutCompressor IsFullyValid txout =
     WriteVarInt (unat (CompressAmount (word_of_int (txo_nValue txout))))
     @ ser_CScriptCompressor IsFullyValid (txo_scriptPubKey txout)"

definition unser_CTxOutCompressor :: "(bytes \<Rightarrow> bytes option) \<Rightarrow> CTxOut reader" where
  "unser_CTxOutCompressor DecompressKey =
     rbind (ReadVarInt 64) (\<lambda>nVal.
     rbind (unser_CScriptCompressor DecompressKey) (\<lambda>script.
       rret \<lparr>txo_nValue = sint (DecompressAmount (word_of_nat nVal)), txo_scriptPubKey = script\<rparr>))"

text \<open>The height is a field of 31 bits.\<close>

record Coin =
  coin_out :: CTxOut
  coin_fCoinBase :: bool
  coin_nHeight :: "31 word"

definition CTxOut_null :: CTxOut where "CTxOut_null = \<lparr>txo_nValue = - 1, txo_scriptPubKey = []\<rparr>"
definition CTxOut_IsNull :: "CTxOut \<Rightarrow> bool" where "CTxOut_IsNull txout \<longleftrightarrow> txo_nValue txout = - 1"

definition coinEmpty :: Coin where "coinEmpty = \<lparr>coin_out = CTxOut_null, coin_fCoinBase = False, coin_nHeight = 0\<rparr>"
definition Coin_Clear :: "Coin \<Rightarrow> Coin" where
  "Coin_Clear c = c\<lparr>coin_out := CTxOut_null, coin_fCoinBase := False, coin_nHeight := 0\<rparr>"
definition IsSpent :: "Coin \<Rightarrow> bool" where "IsSpent c \<longleftrightarrow> CTxOut_IsNull (coin_out c)"

definition coin_code :: "Coin \<Rightarrow> nat" where
  "coin_code c = unat (coin_nHeight c) * 2 + (if coin_fCoinBase c then 1 else 0)"

text \<open>Writing a spent coin fails the assertion.\<close>

definition ser_Coin :: "(bytes \<Rightarrow> bool) \<Rightarrow> Coin \<Rightarrow> bytes option" where
  "ser_Coin IsFullyValid c =
     (if IsSpent c then None
      else Some (WriteVarInt (coin_code c) @ ser_CTxOutCompressor IsFullyValid (coin_out c)))"

definition unser_Coin :: "(bytes \<Rightarrow> bytes option) \<Rightarrow> Coin reader" where
  "unser_Coin DecompressKey =
     rbind (ReadVarInt 32) (\<lambda>code.
     rbind (unser_CTxOutCompressor DecompressKey) (\<lambda>out.
       rret \<lparr>coin_out = out, coin_fCoinBase = odd code, coin_nHeight = word_of_nat (code div 2)\<rparr>))"

definition ser_TxInUndo :: "(bytes \<Rightarrow> bool) \<Rightarrow> Coin \<Rightarrow> bytes" where
  "ser_TxInUndo IsFullyValid c =
     WriteVarInt (coin_code c) @ (if coin_nHeight c > 0 then [0] else []) @ ser_CTxOutCompressor IsFullyValid (coin_out c)"

definition unser_TxInUndo :: "(bytes \<Rightarrow> bytes option) \<Rightarrow> Coin reader" where
  "unser_TxInUndo DecompressKey =
     rbind (ReadVarInt 32) (\<lambda>nCode.
     rbind (if (word_of_nat (nCode div 2) :: 31 word) > 0 then rbind (ReadVarInt 31) (\<lambda>nVersionDummy. rret ()) else rret ()) (\<lambda>_.
     rbind (unser_CTxOutCompressor DecompressKey) (\<lambda>out.
       rret \<lparr>coin_out = out, coin_fCoinBase = odd nCode, coin_nHeight = word_of_nat (nCode div 2)\<rparr>)))"

text \<open>The weight of the smallest input, an outpoint, an empty script and the sequence number, and the two block weights.\<close>

definition MIN_TRANSACTION_INPUT_WEIGHT :: nat where "MIN_TRANSACTION_INPUT_WEIGHT = 4 * 41"
definition MAX_BLOCK_WEIGHT :: nat where "MAX_BLOCK_WEIGHT = 4000000"
definition MAX_BLOCK_WEIGHT_HIP2 :: nat where "MAX_BLOCK_WEIGHT_HIP2 = 8000000"

definition max_undo_count :: "bool \<Rightarrow> nat" where
  "max_undo_count fAssetsIsActive =
     (if fAssetsIsActive then MAX_BLOCK_WEIGHT_HIP2 div MIN_TRANSACTION_INPUT_WEIGHT
      else MAX_BLOCK_WEIGHT div MIN_TRANSACTION_INPUT_WEIGHT)"

definition ser_CTxUndo :: "(bytes \<Rightarrow> bool) \<Rightarrow> Coin list \<Rightarrow> bytes" where
  "ser_CTxUndo IsFullyValid vprevout =
     WriteCompactSize (length vprevout) @ concat (map (ser_TxInUndo IsFullyValid) vprevout)"

definition unser_CTxUndo :: "(bytes \<Rightarrow> bytes option) \<Rightarrow> bool \<Rightarrow> Coin list reader" where
  "unser_CTxUndo DecompressKey fAssetsIsActive =
     rbind ReadCompactSize (\<lambda>count.
       if count > max_undo_count fAssetsIsActive then rfail else unser_n (unser_TxInUndo DecompressKey) count)"

text \<open>The size of a \<open>CTxUndo\<close>, a vector, in memory is 24 bytes.\<close>

definition ser_CBlockUndo :: "(bytes \<Rightarrow> bool) \<Rightarrow> Coin list list \<Rightarrow> bytes" where
  "ser_CBlockUndo IsFullyValid vtxundo = Serialize_vec (ser_CTxUndo IsFullyValid) vtxundo"

definition unser_CBlockUndo :: "(bytes \<Rightarrow> bytes option) \<Rightarrow> bool \<Rightarrow> Coin list list reader" where
  "unser_CBlockUndo DecompressKey fAssetsIsActive = Unserialize_vec 24 (unser_CTxUndo DecompressKey fAssetsIsActive)"

section \<open>The amounts come back\<close>

lemma u64_eqI: "unat a = unat b \<Longrightarrow> a = b" for a b :: u64
  by (simp add: word_unat_eq_iff)

lemma unat_u64_of_nat: "y < 2 ^ 64 \<Longrightarrow> unat (word_of_nat y :: u64) = y"
  by (simp add: unat_of_nat)

lemma u64_div_mod:
  assumes "y < 2 ^ 64" "0 < k" "k < 2 ^ 64"
  shows "(word_of_nat y :: u64) div word_of_nat k = word_of_nat (y div k)" "(word_of_nat y :: u64) mod word_of_nat k = word_of_nat (y mod k)"
proof -
  have "y div k \<le> y" "y mod k \<le> y" by simp_all
  then have "y div k < 2 ^ 64" "y mod k < 2 ^ 64" using assms(1) by linarith+
  then show "(word_of_nat y :: u64) div word_of_nat k = word_of_nat (y div k)"
    "(word_of_nat y :: u64) mod word_of_nat k = word_of_nat (y mod k)"
    by (intro u64_eqI; simp only: unat_div unat_mod unat_u64_of_nat assms)+
qed

lemma unat_u64_10: "unat (n div 10 :: u64) = unat n div 10" "unat (n mod 10 :: u64) = unat n mod 10"
  by (simp_all add: unat_div unat_mod)

lemma u64_mod10: "n mod 10 = (0 :: u64) \<longleftrightarrow> unat n mod 10 = 0"
  by (metis unat_u64_10(2) unat_eq_zero)

lemma compress_loop_spec:
  "compress_loop n e = (m, e') \<Longrightarrow> n \<noteq> 0 \<Longrightarrow> e \<le> 9 \<Longrightarrow>
   unat n * 10 ^ e = unat m * 10 ^ e' \<and> m \<noteq> 0 \<and> e' \<le> 9 \<and> (e' < 9 \<longrightarrow> unat m mod 10 \<noteq> 0)"
proof (induction n e rule: compress_loop.induct)
  case (1 n e)
  show ?case
  proof (cases "n mod 10 = 0 \<and> e < 9")
    case True
    then have m: "unat n mod 10 = 0" by (simp add: u64_mod10)
    then have d: "unat n = unat (n div 10) * 10" by (simp add: unat_u64_10) presburger
    then have nz: "n div 10 \<noteq> 0" using 1(3) by (auto simp: unat_eq_zero)
    have "compress_loop (n div 10) (e + 1) = (m, e')" using 1(2) True by (subst (asm) compress_loop.simps) simp
    from 1(1) [OF True this nz] True have IH: "unat (n div 10) * 10 ^ (e + 1) = unat m * 10 ^ e' \<and> m \<noteq> 0 \<and> e' \<le> 9
        \<and> (e' < 9 \<longrightarrow> unat m mod 10 \<noteq> 0)" by simp
    then show ?thesis using d by simp
  next
    case False
    then have "m = n" "e' = e" using 1(2) by (subst (asm) compress_loop.simps; auto)+
    then show ?thesis using False 1(3,4) by (auto simp: u64_mod10)
  qed
qed

text \<open>The encoding and the decoding over the natural numbers.\<close>

definition enc_amount :: "nat \<Rightarrow> nat \<Rightarrow> nat" where
  "enc_amount m e = (if e < 9 then 1 + (m div 10 * 9 + (m mod 10 - 1)) * 10 + e else 1 + (m - 1) * 10 + 9)"

definition dec_amount :: "nat \<Rightarrow> nat" where
  "dec_amount x = (let e = (x - 1) mod 10; y = (x - 1) div 10
     in (if e < 9 then y div 9 * 10 + (y mod 9 + 1) else y + 1) * 10 ^ e)"

lemma amount_digits: "e < 10 \<Longrightarrow> (1 + y * 10 + e - 1) mod 10 = e" "e < 10 \<Longrightarrow> (1 + y * 10 + e - 1) div 10 = y" for e y :: nat
  by simp_all

lemma dec_enc:
  assumes "0 < m" "e \<le> 9" "e < 9 \<longrightarrow> m mod 10 \<noteq> 0"
  shows "dec_amount (enc_amount m e) = m * 10 ^ e"
proof (cases "e < 9")
  case True
  let ?y = "m div 10 * 9 + (m mod 10 - 1)"
  have r: "m mod 10 - 1 < 9" by (simp add: less_diff_conv2)
  have "(enc_amount m e - 1) mod 10 = e" "(enc_amount m e - 1) div 10 = ?y" using True amount_digits [of e ?y] by (simp_all only: enc_amount_def if_True simp_thms)
  moreover have "?y div 9 = m div 10" "?y mod 9 = m mod 10 - 1" using r by simp_all
  moreover have "m div 10 * 10 + (m mod 10 - 1 + 1) = m" using assms(3) True by simp
  ultimately show ?thesis using True by (simp add: dec_amount_def Let_def)
next
  case False
  then have "e = 9" using assms(2) by simp
  then show ?thesis using assms(1) by (simp add: dec_amount_def enc_amount_def Let_def)
qed

lemma times_ten_eq: "times_ten e n = n * 10 ^ e"
  by (induction e arbitrary: n) (simp_all add: mult_ac)

lemma DecompressAmount_eq:
  assumes "0 < x" "x < 2 ^ 64"
  shows "DecompressAmount (word_of_nat x) = word_of_nat (dec_amount x)"
proof -
  have nz: "(word_of_nat x :: u64) \<noteq> 0" using unat_u64_of_nat [OF assms(2)] assms(1) by auto
  have m1: "(word_of_nat x :: u64) - 1 = word_of_nat (x - 1)" using assms(1) by (simp add: of_nat_diff)
  have x: "x - 1 < 2 ^ 64" "(x - 1) div 10 < 2 ^ 64" using assms(2) by simp_all
  have dv: "(word_of_nat (x - 1) :: u64) div 10 = word_of_nat ((x - 1) div 10)" "unat ((word_of_nat (x - 1) :: u64) mod 10) = (x - 1) mod 10"
    using u64_div_mod [OF x(1), of 10] unat_u64_10(2) [of "word_of_nat (x - 1)"] unat_u64_of_nat [OF x(1)] by simp_all
  have d9: "(word_of_nat ((x - 1) div 10) :: u64) div 9 = word_of_nat ((x - 1) div 10 div 9)"
    "(word_of_nat ((x - 1) div 10) :: u64) mod 9 = word_of_nat ((x - 1) div 10 mod 9)"
    using u64_div_mod [OF x(2), of 9] by simp_all
  show ?thesis
    using nz unfolding DecompressAmount_def Let_def m1 dv d9 times_ten_eq dec_amount_def by (simp add: add_ac)
qed

lemma CompressAmount_eq:
  assumes "compress_loop n 0 = (m, e)" "n \<noteq> 0"
  shows "CompressAmount n = word_of_nat (enc_amount (unat m) e)"
proof -
  have spec: "m \<noteq> 0" "e < 9 \<longrightarrow> unat m mod 10 \<noteq> 0" using compress_loop_spec [OF assms] by simp_all
  have m: "m = word_of_nat (unat m)" by simp
  have dv: "m div 10 = word_of_nat (unat m div 10)" "m mod 10 = word_of_nat (unat m mod 10)"
    using u64_div_mod [of "unat m" 10] by (simp_all add: unsigned_less [of m, simplified])
  show ?thesis
  proof (cases "e < 9")
    case True
    then have "(word_of_nat (unat m mod 10 - 1) :: u64) = word_of_nat (unat m mod 10) - 1" using spec(2) by (subst of_nat_diff) auto
    then have "word_of_nat (enc_amount (unat m) e) = 1 + (m div 10 * 9 + (m mod 10 - 1)) * 10 + word_of_nat e"
      using True by (simp only: enc_amount_def if_True dv of_nat_add of_nat_mult of_nat_1 of_nat_numeral)
    then show ?thesis using assms True by (simp add: CompressAmount_def Let_def algebra_simps)
  next
    case False
    have "(word_of_nat (unat m - 1) :: u64) = m - 1" using spec(1) by (subst of_nat_diff) (auto simp: unat_gt_0 Suc_le_eq)
    then have "word_of_nat (enc_amount (unat m) e) = 1 + (m - 1) * 10 + 9"
      using False by (simp only: enc_amount_def if_False of_nat_add of_nat_mult of_nat_1 of_nat_numeral)
    then show ?thesis using assms False by (simp add: CompressAmount_def)
  qed
qed

lemma amount_top:
  assumes "10 * q + s < (2049638230412172402 :: nat)" "s < 9"
  shows "1 + (q * 9 + s) * 10 < 18446744073709551616"
proof (cases "q \<le> 204963823041217239")
  case True
  then show ?thesis using assms(2) by simp
next
  case False
  then have "q = 204963823041217240" using assms(1) by simp
  then show ?thesis using assms(1) by simp
qed

lemma enc_amount_bound:
  assumes "m * 10 ^ e \<le> 2049638230412172402"
  shows "enc_amount m e < 2 ^ 64"
proof (cases e)
  case 0
  let ?q = "m div 10" and ?r = "m mod 10"
  have m: "10 * ?q + ?r \<le> 2049638230412172402" "?r < 10" using assms 0 by simp_all
  show ?thesis
  proof (cases "?r = 0")
    case True
    then have "?q \<le> 204963823041217240" using m(1) by linarith
    then show ?thesis using 0 True by (simp add: enc_amount_def)
  next
    case False
    then have "10 * ?q + (?r - 1) < 2049638230412172402" "?r - 1 < 9" using m by simp_all
    from amount_top [OF this] show ?thesis using 0 by (simp only: enc_amount_def) simp
  qed
next
  case (Suc k)
  have "m * 10 \<le> m * 10 ^ e" using Suc by simp
  then have "m * 10 \<le> 2049638230412172402" using assms by linarith
  moreover have "enc_amount m e \<le> 10 * m + 100" by (auto simp: enc_amount_def)
  ultimately show ?thesis by simp
qed

lemma amount_roundtrip:
  assumes "unat n \<le> 2049638230412172402"
  shows "DecompressAmount (CompressAmount n) = n"
proof (cases "n = 0")
  case False
  obtain m e where l: "compress_loop n 0 = (m, e)" by (rule prod.exhaust)
  have spec: "unat n = unat m * 10 ^ e" "m \<noteq> 0" "e \<le> 9" "e < 9 \<longrightarrow> unat m mod 10 \<noteq> 0"
    using compress_loop_spec [OF l False] by simp_all
  have b: "enc_amount (unat m) e < 2 ^ 64" using assms spec(1) by (intro enc_amount_bound) simp
  have p: "0 < enc_amount (unat m) e" by (simp add: enc_amount_def)
  have "dec_amount (enc_amount (unat m) e) = unat n" using spec by (simp add: dec_enc unat_gt_0)
  then show ?thesis by (simp add: CompressAmount_eq [OF l False] DecompressAmount_eq [OF p b])
qed (simp add: CompressAmount_def DecompressAmount_def)

lemma amount_overflow: "DecompressAmount (CompressAmount 2049638230412172403) = 10000"
  by (simp add: CompressAmount_def DecompressAmount_def compress_loop.simps times_ten_eq)

section \<open>The scripts come back\<close>

text \<open>
  What is relied on of the elliptic curve library: a public key of 65 bytes that it accepts is what it computes from the
  key's first coordinate and the parity of its second one.
\<close>

definition keys_ok :: "(bytes \<Rightarrow> bool) \<Rightarrow> (bytes \<Rightarrow> bytes option) \<Rightarrow> bool" where
  "keys_ok IsFullyValid DecompressKey \<longleftrightarrow>
     (\<forall>x y. length x = 32 \<and> length y = 32 \<and> IsFullyValid (0x04 # x @ y) \<longrightarrow>
        DecompressKey ((0x02 OR (last y AND 0x01)) # x) = Some (0x04 # x @ y))"

lemma IsToKeyID_Some:
  "IsToKeyID s = Some h \<Longrightarrow> length h = 20 \<and> s = [OP_DUP, OP_HASH160, 20] @ h @ [OP_EQUALVERIFY, OP_CHECKSIG]"
  using split3 [of 3 20 s] by (auto simp: IsToKeyID_def upt_conv_Cons numeral_2_eq_2 split: if_splits)

lemma IsToScriptID_Some: "IsToScriptID s = Some h \<Longrightarrow> length h = 20 \<and> s = [OP_HASH160, 20] @ h @ [OP_EQUAL]"
  using split3 [of 2 20 s] by (auto simp: IsToScriptID_def upt_conv_Cons split: if_splits)

lemma take_drop_Cons: "m < length s \<Longrightarrow> take (Suc n) (drop m s) = s ! m # take n (drop (Suc m) s)"
  by (simp add: Cons_nth_drop_Suc [symmetric])

lemma IsToPubKey_Some:
  assumes "IsToPubKey IsFullyValid s = Some k"
  shows "(\<exists>b x. length x = 32 \<and> (b = 2 \<or> b = 3) \<and> k = b # x \<and> s = [33] @ k @ [OP_CHECKSIG])
    \<or> (\<exists>x y. length x = 32 \<and> length y = 32 \<and> IsFullyValid k \<and> k = 4 # x @ y \<and> s = [65] @ k @ [OP_CHECKSIG])"
proof -
  consider "length s = 35" "s ! 0 = 33" "s ! 34 = OP_CHECKSIG" "s ! 1 = 2 \<or> s ! 1 = 3" "k = take 33 (drop 1 s)"
    | "length s = 67" "s ! 0 = 65" "s ! 66 = OP_CHECKSIG" "s ! 1 = 4" "IsFullyValid k" "k = take 65 (drop 1 s)"
    using assms by (auto simp: IsToPubKey_def Let_def split: if_splits)
  then show ?thesis
  proof cases
    case 1
    have "s = [33] @ k @ [OP_CHECKSIG]" using split3 [of 1 33 s] 1 by (simp add: upt_conv_Cons)
    moreover have "k = s ! 1 # take 32 (drop 2 s)" "length (take 32 (drop 2 s)) = 32"
      using 1(1,5) take_drop_Cons [of 1 s 32] by (simp_all add: numeral_2_eq_2)
    ultimately show ?thesis using 1(4) by blast
  next
    case 2
    have "s = [65] @ k @ [OP_CHECKSIG]" using split3 [of 1 65 s] 2 by (simp add: upt_conv_Cons)
    moreover have "k = 4 # take 64 (drop 2 s)" "length (take 64 (drop 2 s)) = 64"
      using 2(1,4,6) take_drop_Cons [of 1 s 64] by (simp_all add: numeral_2_eq_2)
    moreover have "take 64 (drop 2 s) = take 32 (drop 2 s) @ take 32 (drop 34 s)"
      using 2(1) take_add [of 32 32 "drop 2 s"] by simp
    ultimately show ?thesis using 2(1,5) by (intro disjI2 exI [of _ "take 32 (drop 2 s)"] exI [of _ "take 32 (drop 34 s)"]) simp
  qed
qed

lemma Compress_Some:
  assumes "keys_ok IsFullyValid DecompressKey" "Compress IsFullyValid s = Some compr"
  obtains b data where "compr = b # data" "unat b < nSpecialScripts" "length data = GetSpecialSize (unat b)"
    "Decompress DecompressKey (unat b) data = Some s" "length s \<le> 67"
proof -
  consider h where "IsToKeyID s = Some h" "compr = 0 # h" | h where "IsToScriptID s = Some h" "compr = 1 # h"
    | k where "IsToPubKey IsFullyValid s = Some k" "k ! 0 = 2 \<or> k ! 0 = 3" "compr = k ! 0 # take 32 (drop 1 k)"
    | k where "IsToPubKey IsFullyValid s = Some k" "k ! 0 = 4" "compr = (4 OR (k ! 64 AND 1)) # take 32 (drop 1 k)"
    using assms(2) by (auto simp: Compress_def Let_def split: option.splits if_splits)
  then show thesis
  proof cases
    case 1
    then show thesis using IsToKeyID_Some [OF 1(1)] by (intro that [of 0 h]) (simp_all add: nSpecialScripts_def GetSpecialSize_def Decompress_def)
  next
    case 2
    then show thesis using IsToScriptID_Some [OF 2(1)] by (intro that [of 1 h]) (simp_all add: nSpecialScripts_def GetSpecialSize_def Decompress_def)
  next
    case 3
    then obtain b x where "length x = 32" "b = 2 \<or> b = 3" "k = b # x" "s = [33] @ k @ [OP_CHECKSIG]"
      using IsToPubKey_Some [OF 3(1)] by auto
    then show thesis using 3(3) by (intro that [of b x]) (auto simp: nSpecialScripts_def GetSpecialSize_def Decompress_def)
  next
    case 4
    then obtain x y where k: "length x = 32" "length y = 32" "IsFullyValid k" "k = 4 # x @ y" "s = [65] @ k @ [OP_CHECKSIG]"
      using IsToPubKey_Some [OF 4(1)] by auto
    then have l: "k ! 64 = last y" by (cases "y = []") (simp_all add: nth_append last_conv_nth)
    have dk: "DecompressKey ((2 OR (last y AND 1)) # x) = Some k" using assms(1) k unfolding keys_ok_def by blast
    have "last y AND 1 = 0 \<or> last y AND 1 = 1" by (simp add: and_one_eq mod_2_eq_odd)
    then show thesis using 4(3) k dk l
      by (intro that [of "4 OR (last y AND 1)" x]) (auto simp: nSpecialScripts_def GetSpecialSize_def Decompress_def)
  qed
qed

lemma ReadVarInt_small: "unat b < 128 \<Longrightarrow> 7 \<le> w \<Longrightarrow> ReadVarInt w (b # rest) = Some (unat b, rest)"
  by (simp add: ReadVarInt_def)

lemma script_compressor_roundtrip:
  assumes "keys_ok IsFullyValid DecompressKey" "length script + nSpecialScripts < 2 ^ 32"
  shows "unser_CScriptCompressor DecompressKey (ser_CScriptCompressor IsFullyValid script @ rest)
    = Some (if length script \<le> MAX_SCRIPT_SIZE then script else [OP_RETURN], rest)"
proof (cases "Compress IsFullyValid script")
  case (Some compr)
  obtain b data where c: "compr = b # data" "unat b < nSpecialScripts" "length data = GetSpecialSize (unat b)"
    "Decompress DecompressKey (unat b) data = Some script" "length script \<le> 67" using Compress_Some [OF assms(1) Some] .
  then show ?thesis
    using Some by (simp add: ser_CScriptCompressor_def unser_CScriptCompressor_def rbind_def ReadVarInt_small nSpecialScripts_def)
next
  case None
  then show ?thesis
    using assms(2)
    by (simp add: ser_CScriptCompressor_def unser_CScriptCompressor_def rbind_def ReadVarInt_ser nSpecialScripts_def)
qed

section \<open>Outputs, coins and undo data come back\<close>

text \<open>
  A coin that the formats keep: its amount is one that compression keeps, its script is not too long to be spent, and
  its height is below \<open>2 ^ 30\<close>, so that the source does not overflow when it doubles it.
\<close>

definition coin_ok :: "Coin \<Rightarrow> bool" where
  "coin_ok c \<longleftrightarrow> 0 \<le> txo_nValue (coin_out c) \<and> txo_nValue (coin_out c) \<le> 2049638230412172402
     \<and> length (txo_scriptPubKey (coin_out c)) \<le> MAX_SCRIPT_SIZE \<and> unat (coin_nHeight c) < 2 ^ 30"

lemma coin_code_bits:
  "odd (coin_code c) = coin_fCoinBase c" "word_of_nat (coin_code c div 2) = coin_nHeight c" "coin_code c < 2 ^ 32"
proof -
  have "unat (coin_nHeight c) < 2 ^ 31" using unsigned_less [of "coin_nHeight c"] by simp
  then show "odd (coin_code c) = coin_fCoinBase c" "word_of_nat (coin_code c div 2) = coin_nHeight c" "coin_code c < 2 ^ 32"
    by (auto simp: coin_code_def)
qed

lemma txout_compressor_roundtrip:
  assumes "keys_ok IsFullyValid DecompressKey" "coin_ok c"
  shows "unser_CTxOutCompressor DecompressKey (ser_CTxOutCompressor IsFullyValid (coin_out c) @ rest) = Some (coin_out c, rest)"
proof -
  let ?v = "txo_nValue (coin_out c)"
  have v: "0 \<le> ?v" "?v \<le> 2049638230412172402" using assms(2) by (simp_all add: coin_ok_def)
  then have "unat (word_of_int ?v :: u64) = nat ?v" by (simp add: unat_eq_nat_uint uint_word_of_int)
  then have d: "DecompressAmount (CompressAmount (word_of_int ?v)) = word_of_int ?v" using v by (intro amount_roundtrip) simp
  have "sint (word_of_int ?v :: u64) = ?v" using v by (simp add: signed_take_bit_int_eq_self sint_sbintrunc')
  moreover have "unat (CompressAmount (word_of_int ?v)) < 2 ^ 64" by simp
  ultimately show ?thesis
    using d assms script_compressor_roundtrip [OF assms(1), of "txo_scriptPubKey (coin_out c)"]
    by (simp add: ser_CTxOutCompressor_def unser_CTxOutCompressor_def rbind_def ReadVarInt_ser coin_ok_def nSpecialScripts_def)
qed

lemma txin_undo_codec:
  assumes "keys_ok IsFullyValid DecompressKey"
  shows "codec (ser_TxInUndo IsFullyValid) (unser_TxInUndo DecompressKey) coin_ok"
proof
  fix c rest assume c: "coin_ok c"
  have "ReadVarInt 31 (0 # bs) = Some (0, bs)" for bs using ReadVarInt_small [of 0 31 bs] by simp
  then show "unser_TxInUndo DecompressKey (ser_TxInUndo IsFullyValid c @ rest) = Some (c, rest)"
    using txout_compressor_roundtrip [OF assms c] coin_code_bits [of c]
    by (simp add: ser_TxInUndo_def unser_TxInUndo_def rbind_def ReadVarInt_ser)
qed

lemma tx_undo_codec:
  assumes "keys_ok IsFullyValid DecompressKey"
  shows "codec (ser_CTxUndo IsFullyValid) (unser_CTxUndo DecompressKey act) (\<lambda>u. length u \<le> max_undo_count act \<and> list_all coin_ok u)"
proof
  fix u rest assume u: "length u \<le> max_undo_count act \<and> list_all coin_ok u"
  have "max_undo_count act \<le> MAX_SIZE"
    by (simp add: max_undo_count_def MAX_BLOCK_WEIGHT_HIP2_def MAX_BLOCK_WEIGHT_def MIN_TRANSACTION_INPUT_WEIGHT_def MAX_SIZE_def)
  then show "unser_CTxUndo DecompressKey act (ser_CTxUndo IsFullyValid u @ rest) = Some (u, rest)"
    using u codec.unser_n_ser [OF txin_undo_codec [OF assms], of u rest]
    by (simp add: ser_CTxUndo_def unser_CTxUndo_def rbind_def compact.unser_ser list_all_iff)
qed

lemma block_undo_codec:
  assumes "keys_ok IsFullyValid DecompressKey"
  shows "codec (ser_CBlockUndo IsFullyValid) (unser_CBlockUndo DecompressKey act)
    (\<lambda>v. length v \<le> MAX_SIZE \<and> list_all (\<lambda>u. length u \<le> max_undo_count act \<and> list_all coin_ok u) v)"
  unfolding ser_CBlockUndo_def [abs_def] unser_CBlockUndo_def
  by (rule codec.vec_codec [OF tx_undo_codec [OF assms]]) simp_all

section \<open>Properties\<close>

text \<open>Keys for evaluation: the second coordinate is zero, or one, by the parity.\<close>

definition demo_valid :: "bytes \<Rightarrow> bool" where
  "demo_valid k \<longleftrightarrow> drop 33 k = replicate 31 0 @ [last k AND 1]"

definition demo_decompress :: "bytes \<Rightarrow> bytes option" where
  "demo_decompress k = Some (4 # tl k @ replicate 31 0 @ [hd k AND 1])"

lemma demo_keys_ok: "keys_ok demo_valid demo_decompress"
proof -
  have "demo_decompress ((2 OR (last y AND 1)) # x) = Some (4 # x @ y)"
    if "length x = 32" "length y = 32" "demo_valid (4 # x @ y)" for x y :: bytes
  proof -
    have "last (4 # x @ y) = last y" using that(2) by (cases y) auto
    then have y: "y = replicate 31 0 @ [last y AND 1]" using that by (simp add: demo_valid_def)
    have "b AND 1 = 0 \<or> b AND 1 = 1" for b :: u8 by (simp add: and_one_eq mod_2_eq_odd)
    then have "(2 OR (b AND 1)) AND 1 = b AND 1" for b :: u8 by (rule disjE [of "b AND 1 = 0" "b AND 1 = 1"]) simp_all
    then show ?thesis using y by (simp add: demo_decompress_def)
  qed
  then show ?thesis by (simp add: keys_ok_def)
qed

definition demo_coin :: Coin where
  "demo_coin = \<lparr>coin_out = \<lparr>txo_nValue = 5000 * COIN, txo_scriptPubKey = [65, 4] @ replicate 32 7 @ replicate 31 0 @ [1, OP_CHECKSIG]\<rparr>,
     coin_fCoinBase = True, coin_nHeight = 77\<rparr>"

lemma demo_coin_ok: "coin_ok demo_coin" "\<not> IsSpent demo_coin"
  by (simp_all add: demo_coin_def coin_ok_def COIN_def IsSpent_def CTxOut_IsNull_def)

text \<open>A coin that is not spent is read back from what the coin database stores for it, whatever the kind of its
  script, for amounts up to 2049638230412172402 and scripts that are not too long to be spent.\<close>

theorem coin_roundtrip:
  assumes "keys_ok IsFullyValid DecompressKey" and "coin_ok c" and "\<not> IsSpent c"
  shows "\<exists>bs. ser_Coin IsFullyValid c = Some bs \<and> unser_Coin DecompressKey (bs @ rest) = Some (c, rest)"
  using assms(3) txout_compressor_roundtrip [OF assms(1,2)] coin_code_bits [of c]
  by (simp add: ser_Coin_def unser_Coin_def rbind_def ReadVarInt_ser)

theorem coin_roundtrip_witness:
  "\<exists>bs. ser_Coin demo_valid demo_coin = Some bs \<and> unser_Coin demo_decompress (bs @ [1]) = Some (demo_coin, [1])"
  by (rule coin_roundtrip [OF demo_keys_ok demo_coin_ok])

text \<open>The undo data of a block are read back from what is written for them: for every transaction the coins its inputs
  have spent.\<close>

theorem block_undo_roundtrip:
  assumes "keys_ok IsFullyValid DecompressKey" and "length v \<le> MAX_SIZE"
    and "list_all (\<lambda>u. length u \<le> max_undo_count act \<and> list_all coin_ok u) v"
  shows "unser_CBlockUndo DecompressKey act (ser_CBlockUndo IsFullyValid v @ rest) = Some (v, rest)"
  using codec.unser_ser [OF block_undo_codec [OF assms(1)]] assms(2,3) by blast

theorem block_undo_roundtrip_witness:
  "unser_CBlockUndo demo_decompress True (ser_CBlockUndo demo_valid [[demo_coin], []] @ [9]) = Some ([[demo_coin], []], [9])"
  by (rule block_undo_roundtrip [OF demo_keys_ok])
    (simp_all add: demo_coin_ok MAX_SIZE_def max_undo_count_def MAX_BLOCK_WEIGHT_HIP2_def MIN_TRANSACTION_INPUT_WEIGHT_def)

text \<open>C40: Amount compression is exact up to 2049638230412172402, and not for the next amount: the code of this one, though
  within the range of money, does not fit in 64 bits, and reads back as 10000.\<close>

theorem CompressAmount_limit:
  "(\<forall>n \<le> 2049638230412172402. DecompressAmount (CompressAmount n) = n)
   \<and> MoneyRange 2049638230412172403 \<and> DecompressAmount (CompressAmount (word_of_int 2049638230412172403)) = 10000"
proof -
  have "DecompressAmount (CompressAmount n) = n" if "n \<le> 2049638230412172402" for n
    using that by (intro amount_roundtrip) (simp add: word_le_nat_alt)
  moreover have "MoneyRange 2049638230412172403" by (simp add: MoneyRange_def MAX_MONEY_def COIN_def)
  ultimately show ?thesis using amount_overflow by simp
qed

theorem CompressAmount_limit_witness: "DecompressAmount (CompressAmount 500000000000) = 500000000000"
  using CompressAmount_limit by simp

end
