(* ===== verification/AssetTypes.thy ===== *)
theory AssetTypes
  imports Transaction
begin

text \<open>
  The data of asset operations (\<open>src/src/assets/assettypes.h\<close>, \<open>assettypes.cpp\<close>, \<open>assets.h\<close>, parts of \<open>assets.cpp\<close> and
  \<open>script/script.cpp\<close>): the kinds of assets, the records of an issue, a transfer, a reissue, a tag and a verifier, their
  wire formats, the scripts that carry them, and the amounts read from those scripts, which decide whether an output
  can be spent. A \<open>std::string\<close> is a byte string and an \<open>int8_t\<close> a byte.
\<close>

section \<open>Kinds and constants\<close>

datatype AssetType =
    ROOT | SUB | UNIQUE | MSGCHANNEL | QUALIFIER | SUB_QUALIFIER | RESTRICTED | VOTE | REISSUE | OWNER
  | NULL_ADD_QUALIFIER | INVALID

datatype QualifierType = REMOVE_QUALIFIER | ADD_QUALIFIER
datatype RestrictedType = UNFREEZE_ADDRESS | FREEZE_ADDRESS | GLOBAL_UNFREEZE | GLOBAL_FREEZE

definition IntFromAssetType :: "AssetType \<Rightarrow> int" where
  "IntFromAssetType t = (case t of ROOT \<Rightarrow> 0 | SUB \<Rightarrow> 1 | UNIQUE \<Rightarrow> 2 | MSGCHANNEL \<Rightarrow> 3 | QUALIFIER \<Rightarrow> 4 | SUB_QUALIFIER \<Rightarrow> 5
     | RESTRICTED \<Rightarrow> 6 | VOTE \<Rightarrow> 7 | REISSUE \<Rightarrow> 8 | OWNER \<Rightarrow> 9 | NULL_ADD_QUALIFIER \<Rightarrow> 10 | INVALID \<Rightarrow> 11)"

text \<open>The literals of the source as byte strings.\<close>

definition str :: "string \<Rightarrow> bytes" where "str = map of_char"

definition MAX_UNIT :: u8 where "MAX_UNIT = 8"
definition MIN_UNIT :: u8 where "MIN_UNIT = 0"
definition MIN_ASSET_LENGTH :: nat where "MIN_ASSET_LENGTH = 3"
definition OWNER_TAG :: bytes where "OWNER_TAG = str ''!''"
definition OWNER_LENGTH :: nat where "OWNER_LENGTH = 1"
definition OWNER_ASSET_AMOUNT :: int where "OWNER_ASSET_AMOUNT = 1 * COIN"
definition UNIQUE_ASSET_AMOUNT :: int where "UNIQUE_ASSET_AMOUNT = 1 * COIN"
definition QUALIFIER_ASSET_MIN_AMOUNT :: int where "QUALIFIER_ASSET_MIN_AMOUNT = 1 * COIN"
definition QUALIFIER_ASSET_MAX_AMOUNT :: int where "QUALIFIER_ASSET_MAX_AMOUNT = 10 * COIN"

definition IPFS_SHA2_256 :: u8 where "IPFS_SHA2_256 = 0x12"
definition TXID_NOTIFIER :: u8 where "TXID_NOTIFIER = 0x54"
definition IPFS_SHA2_256_LEN :: u8 where "IPFS_SHA2_256_LEN = 0x20"

section \<open>Hashes attached to assets\<close>

text \<open>\<open>ReadWriteAssetHash\<close>, for writing and for reading. The flag is its result; a hash of another length is not written.\<close>

definition write_AssetHash :: "bytes \<Rightarrow> bytes \<times> bool" where
  "write_AssetHash strIPFSHash =
     (if length strIPFSHash = 34 then (ser_writedata8 IPFS_SHA2_256 @ Serialize_bytes (drop 2 strIPFSHash), True)
      else if length strIPFSHash = 32 then (ser_writedata8 TXID_NOTIFIER @ Serialize_bytes strIPFSHash, True)
      else ([], False))"

definition read_AssetHash :: "(bytes \<times> bool) reader" where
  "read_AssetHash s =
     (if s \<noteq> [] \<and> length s \<ge> 33
      then rbind ser_readdata8 (\<lambda>sha2_256.
           rbind Unserialize_string (\<lambda>hash.
             rret ((if sha2_256 = IPFS_SHA2_256 then [IPFS_SHA2_256, IPFS_SHA2_256_LEN] else []) @ take 32 hash, True))) s
      else Some (([], False), s))"

section \<open>The records and their formats\<close>

record CNewAsset =
  na_strName :: bytes
  na_nAmount :: int
  na_units :: u8
  na_nReissuable :: u8
  na_nHasIPFS :: u8
  na_strIPFSHash :: bytes

definition CNewAsset_null :: CNewAsset where
  "CNewAsset_null = \<lparr>na_strName = [], na_nAmount = 0, na_units = MAX_UNIT, na_nReissuable = 0, na_nHasIPFS = 0, na_strIPFSHash = []\<rparr>"

definition CNewAsset_IsNull :: "CNewAsset \<Rightarrow> bool" where
  "CNewAsset_IsNull a \<longleftrightarrow> na_strName a = []"

definition ser_CNewAsset :: "CNewAsset \<Rightarrow> bytes" where
  "ser_CNewAsset a =
     Serialize_bytes (na_strName a) @ ser_int64 (na_nAmount a) @ ser_writedata8 (na_units a)
     @ ser_writedata8 (na_nReissuable a) @ ser_writedata8 (na_nHasIPFS a)
     @ (if na_nHasIPFS a = 1 then fst (write_AssetHash (na_strIPFSHash a)) else [])"

definition unser_CNewAsset :: "CNewAsset reader" where
  "unser_CNewAsset =
     rbind Unserialize_string (\<lambda>strName.
     rbind unser_int64 (\<lambda>nAmount.
     rbind ser_readdata8 (\<lambda>units.
     rbind ser_readdata8 (\<lambda>nReissuable.
     rbind ser_readdata8 (\<lambda>nHasIPFS.
     rbind (if nHasIPFS = 1 then rbind read_AssetHash (\<lambda>(h, _). rret h) else rret []) (\<lambda>strIPFSHash.
       rret \<lparr>na_strName = strName, na_nAmount = nAmount, na_units = units, na_nReissuable = nReissuable,
             na_nHasIPFS = nHasIPFS, na_strIPFSHash = strIPFSHash\<rparr>))))))"

record CAssetTransfer =
  at_strName :: bytes
  at_nAmount :: int
  at_message :: bytes
  at_nExpireTime :: int

definition CAssetTransfer_new :: "bytes \<Rightarrow> int \<Rightarrow> bytes \<Rightarrow> int \<Rightarrow> CAssetTransfer" where
  "CAssetTransfer_new strAssetName nAmount message nExpireTime =
     \<lparr>at_strName = strAssetName, at_nAmount = nAmount, at_message = message,
      at_nExpireTime = (if message \<noteq> [] then nExpireTime else 0)\<rparr>"

definition ser_CAssetTransfer :: "CAssetTransfer \<Rightarrow> bytes" where
  "ser_CAssetTransfer t =
     Serialize_bytes (at_strName t) @ ser_int64 (at_nAmount t)
     @ (let (m, validIPFS) = write_AssetHash (at_message t)
        in m @ (if validIPFS \<and> at_nExpireTime t \<noteq> 0 then ser_int64 (at_nExpireTime t) else []))"

definition unser_CAssetTransfer :: "CAssetTransfer reader" where
  "unser_CAssetTransfer =
     rbind Unserialize_string (\<lambda>strName.
     rbind unser_int64 (\<lambda>nAmount.
     rbind read_AssetHash (\<lambda>(message, validIPFS).
     rbind (\<lambda>s. if validIPFS \<and> s \<noteq> [] \<and> length s \<ge> 8 then unser_int64 s else Some (0, s)) (\<lambda>nExpireTime.
       rret \<lparr>at_strName = strName, at_nAmount = nAmount, at_message = message, at_nExpireTime = nExpireTime\<rparr>))))"

record CReissueAsset =
  ra_strName :: bytes
  ra_nAmount :: int
  ra_nUnits :: u8
  ra_nReissuable :: u8
  ra_strIPFSHash :: bytes

definition CReissueAsset_IsNull :: "CReissueAsset \<Rightarrow> bool" where
  "CReissueAsset_IsNull r \<longleftrightarrow> ra_strName r = [] \<or> ra_nAmount r < 0"

definition ser_CReissueAsset :: "CReissueAsset \<Rightarrow> bytes" where
  "ser_CReissueAsset r =
     Serialize_bytes (ra_strName r) @ ser_int64 (ra_nAmount r) @ ser_writedata8 (ra_nUnits r)
     @ ser_writedata8 (ra_nReissuable r) @ fst (write_AssetHash (ra_strIPFSHash r))"

definition unser_CReissueAsset :: "CReissueAsset reader" where
  "unser_CReissueAsset =
     rbind Unserialize_string (\<lambda>strName.
     rbind unser_int64 (\<lambda>nAmount.
     rbind ser_readdata8 (\<lambda>nUnits.
     rbind ser_readdata8 (\<lambda>nReissuable.
     rbind read_AssetHash (\<lambda>(strIPFSHash, _).
       rret \<lparr>ra_strName = strName, ra_nAmount = nAmount, ra_nUnits = nUnits, ra_nReissuable = nReissuable,
             ra_strIPFSHash = strIPFSHash\<rparr>)))))"

record CNullAssetTxData =
  nd_asset_name :: bytes
  nd_flag :: u8

definition ser_CNullAssetTxData :: "CNullAssetTxData \<Rightarrow> bytes" where
  "ser_CNullAssetTxData d = Serialize_bytes (nd_asset_name d) @ ser_writedata8 (nd_flag d)"

definition unser_CNullAssetTxData :: "CNullAssetTxData reader" where
  "unser_CNullAssetTxData =
     rbind Unserialize_string (\<lambda>asset_name. rbind ser_readdata8 (\<lambda>flag. rret \<lparr>nd_asset_name = asset_name, nd_flag = flag\<rparr>))"

text \<open>The only field of a \<open>CNullAssetTxVerifierString\<close> is the string.\<close>

definition ser_CNullAssetTxVerifierString :: "bytes \<Rightarrow> bytes" where
  "ser_CNullAssetTxVerifierString verifier_string = Serialize_bytes verifier_string"

definition unser_CNullAssetTxVerifierString :: "bytes reader" where
  "unser_CNullAssetTxVerifierString = Unserialize_string"

section \<open>The scripts that carry them\<close>

definition append_asset :: "bytes \<Rightarrow> bytes \<Rightarrow> bytes" where
  "append_asset vchMessage script = script @ [OP_HVN_ASSET] @ push_data vchMessage @ [OP_DROP]"

definition ConstructTransaction_new :: "CNewAsset \<Rightarrow> bytes \<Rightarrow> bytes" where
  "ConstructTransaction_new a script = append_asset ([HVN_H, HVN_V, HVN_N, HVN_Q] @ ser_CNewAsset a) script"

definition ConstructOwnerTransaction :: "CNewAsset \<Rightarrow> bytes \<Rightarrow> bytes" where
  "ConstructOwnerTransaction a script =
     append_asset ([HVN_H, HVN_V, HVN_N, HVN_O] @ Serialize_bytes (na_strName a @ OWNER_TAG)) script"

definition ConstructTransaction_transfer :: "CAssetTransfer \<Rightarrow> bytes \<Rightarrow> bytes" where
  "ConstructTransaction_transfer t script = append_asset ([HVN_H, HVN_V, HVN_N, HVN_T] @ ser_CAssetTransfer t) script"

definition ConstructTransaction_reissue :: "CReissueAsset \<Rightarrow> bytes \<Rightarrow> bytes" where
  "ConstructTransaction_reissue r script = append_asset ([HVN_H, HVN_V, HVN_N, HVN_H] @ ser_CReissueAsset r) script"

section \<open>Amounts\<close>

text \<open>The readers take the rest of the script from the starting index on, the final \<open>OP_DROP\<close> included.\<close>

definition AmountFromNewAssetScript :: "bytes \<Rightarrow> int option" where
  "AmountFromNewAssetScript scriptPubKey =
     (case ScriptNewAsset scriptPubKey of
        None \<Rightarrow> None
      | Some nStartingIndex \<Rightarrow>
          (case unser_CNewAsset (drop nStartingIndex scriptPubKey) of
             None \<Rightarrow> None
           | Some (assetNew, _) \<Rightarrow> Some (na_nAmount assetNew)))"

definition AmountFromTransferScript :: "bytes \<Rightarrow> int option" where
  "AmountFromTransferScript scriptPubKey =
     (case ScriptTransferAsset scriptPubKey of
        None \<Rightarrow> None
      | Some nStartingIndex \<Rightarrow>
          (case unser_CAssetTransfer (drop nStartingIndex scriptPubKey) of
             None \<Rightarrow> None
           | Some (asset, _) \<Rightarrow> Some (at_nAmount asset)))"

definition AmountFromReissueScript :: "bytes \<Rightarrow> int option" where
  "AmountFromReissueScript scriptPubKey =
     (case ScriptReissueAsset scriptPubKey of
        None \<Rightarrow> None
      | Some nStartingIndex \<Rightarrow>
          (case unser_CReissueAsset (drop nStartingIndex scriptPubKey) of
             None \<Rightarrow> None
           | Some (asset, _) \<Rightarrow> Some (ra_nAmount asset)))"

definition GetAssetAmountFromScript :: "bytes \<Rightarrow> int option" where
  "GetAssetAmountFromScript script =
     (case IsAssetScript script of
        None \<Rightarrow> None
      | Some (type, fIsOwner, _) \<Rightarrow>
          if type = TX_NEW_ASSET \<and> \<not> fIsOwner then AmountFromNewAssetScript script
          else if type = TX_TRANSFER_ASSET then AmountFromTransferScript script
          else if type = TX_NEW_ASSET \<and> fIsOwner then Some OWNER_ASSET_AMOUNT
          else if type = TX_REISSUE_ASSET then AmountFromReissueScript script
          else None)"

definition IsUnspendable :: "bytes \<Rightarrow> bool" where
  "IsUnspendable script \<longleftrightarrow>
     length script > 0 \<and> script ! 0 = OP_RETURN \<or> length script > 0 \<and> script ! 0 = OP_HVN_ASSET
     \<or> length script > MAX_SCRIPT_SIZE \<or> GetAssetAmountFromScript script = Some 0"

section \<open>The formats come back\<close>

definition hash_ok :: "bytes \<Rightarrow> bool" where
  "hash_ok h \<longleftrightarrow> h = [] \<or> length h = 32 \<or> length h = 34 \<and> take 2 h = [IPFS_SHA2_256, IPFS_SHA2_256_LEN]"

lemma asset_string_roundtrip: "length x \<le> MAX_SIZE \<Longrightarrow> Unserialize_string (Serialize_bytes x @ rest) = Some (x, rest)"
  using byte_vector.unser_ser [of x rest] by (simp add: Unserialize_bytes_eq_string)

lemma asset_hash_roundtrip:
  assumes "hash_ok h" "h = [] \<Longrightarrow> length rest < 33"
  shows "read_AssetHash (fst (write_AssetHash h) @ rest) = Some ((h, h \<noteq> []), rest)" "snd (write_AssetHash h) \<longleftrightarrow> h \<noteq> []"
proof -
  have short: "length x \<le> MAX_SIZE" if "length x = 32" for x :: bytes using that by (simp add: MAX_SIZE_def)
  have len: "length (Serialize_bytes x) = 33" if "length x = 32" for x
    using that by (auto simp: Serialize_bytes_def length_WriteCompactSize GetSizeOfCompactSize_def)
  consider "h = []" | "length h = 32" | "length h = 34" "take 2 h = [IPFS_SHA2_256, IPFS_SHA2_256_LEN]"
    using assms(1) by (auto simp: hash_ok_def)
  then have "read_AssetHash (fst (write_AssetHash h) @ rest) = Some ((h, h \<noteq> []), rest) \<and> (snd (write_AssetHash h) \<longleftrightarrow> h \<noteq> [])"
  proof cases
    case 1
    then show ?thesis using assms(2) by (simp add: write_AssetHash_def read_AssetHash_def)
  next
    case 2
    then have "h \<noteq> []" by auto
    then show ?thesis using 2 len [OF 2] asset_string_roundtrip [OF short [OF 2]]
      by (auto simp: write_AssetHash_def read_AssetHash_def rbind_def u8.unser_ser TXID_NOTIFIER_def IPFS_SHA2_256_def)
  next
    case 3
    have d: "length (drop 2 h) = 32" using 3(1) by simp
    have "h = [IPFS_SHA2_256, IPFS_SHA2_256_LEN] @ drop 2 h" using 3(2) append_take_drop_id [of 2 h] by simp
    then show ?thesis using 3(1) len [OF d] asset_string_roundtrip [OF short [OF d]]
      by (auto simp: write_AssetHash_def read_AssetHash_def rbind_def u8.unser_ser)
  qed
  then show "read_AssetHash (fst (write_AssetHash h) @ rest) = Some ((h, h \<noteq> []), rest)" "snd (write_AssetHash h) \<longleftrightarrow> h \<noteq> []"
    by simp_all
qed

text \<open>
  The formats end with an optional part that is read when enough bytes are left, so a record is only read back when
  few bytes follow it, as in a script, where \<open>OP_DROP\<close> does.
\<close>

locale tail_codec =
  fixes ser :: "'a \<Rightarrow> bytes" and unser :: "'a reader" and ok :: "'a \<Rightarrow> bool"
  assumes unser_ser_tail: "ok x \<Longrightarrow> length rest < 8 \<Longrightarrow> unser (ser x @ rest) = Some (x, rest)"
begin

lemma tail_inj: "ok x \<Longrightarrow> ok y \<Longrightarrow> ser x = ser y \<Longrightarrow> x = y"
  using unser_ser_tail [of x "[]"] unser_ser_tail [of y "[]"] by simp

text \<open>A script of 25 bytes, as a payment to a key hash has, followed by the record.\<close>

lemma script_tail:
  assumes "length p = 25" "ok x" "length (ser x) < 110"
  shows "\<exists>i. asset_marker_index (append_asset ([HVN_H, HVN_V, HVN_N, k] @ ser x) p) = Some i
    \<and> append_asset ([HVN_H, HVN_V, HVN_N, k] @ ser x) p ! i = k
    \<and> append_asset ([HVN_H, HVN_V, HVN_N, k] @ ser x) p ! 25 = OP_HVN_ASSET
    \<and> length (append_asset ([HVN_H, HVN_V, HVN_N, k] @ ser x) p) > 31 + length (ser x)
    \<and> unser (drop (i + 1) (append_asset ([HVN_H, HVN_V, HVN_N, k] @ ser x) p)) = Some (x, [OP_DROP])"
proof -
  have u: "unser (ser x @ [OP_DROP]) = Some (x, [OP_DROP])" using unser_ser_tail [OF assms(2), of "[OP_DROP]"] by simp
  show ?thesis
  proof (cases "length (ser x) + 4 < 76")
    case True
    then have "push_data ([HVN_H, HVN_V, HVN_N, k] @ ser x) = word_of_nat (length (ser x) + 4) # [HVN_H, HVN_V, HVN_N, k] @ ser x"
      by (simp add: push_data_def)
    then show ?thesis using assms(1) u by (intro exI [of _ 30]) (auto simp: append_asset_def asset_marker_index_def nth_append)
  next
    case False
    then have "push_data ([HVN_H, HVN_V, HVN_N, k] @ ser x) = OP_PUSHDATA1 # word_of_nat (length (ser x) + 4) # [HVN_H, HVN_V, HVN_N, k] @ ser x"
      using assms(3) by (simp add: push_data_def)
    moreover have "(word_of_nat (length (ser x) + 4) :: u8) \<noteq> HVN_H"
      using assms(3) by (simp add: word_unat_eq_iff unat_of_nat del: of_nat_add)
    ultimately show ?thesis using assms(1) u by (intro exI [of _ 31]) (auto simp: append_asset_def asset_marker_index_def nth_append)
  qed
qed

end

definition new_asset_ok :: "CNewAsset \<Rightarrow> bool" where
  "new_asset_ok a \<longleftrightarrow> length (na_strName a) \<le> 40 \<and> - (2 ^ 63) \<le> na_nAmount a \<and> na_nAmount a < 2 ^ 63
     \<and> hash_ok (na_strIPFSHash a) \<and> (na_nHasIPFS a = 1 \<or> na_strIPFSHash a = [])"

definition transfer_ok :: "CAssetTransfer \<Rightarrow> bool" where
  "transfer_ok t \<longleftrightarrow> length (at_strName t) \<le> 40 \<and> - (2 ^ 63) \<le> at_nAmount t \<and> at_nAmount t < 2 ^ 63
     \<and> hash_ok (at_message t) \<and> - (2 ^ 63) \<le> at_nExpireTime t \<and> at_nExpireTime t < 2 ^ 63
     \<and> (at_message t = [] \<longrightarrow> at_nExpireTime t = 0)"

definition reissue_ok :: "CReissueAsset \<Rightarrow> bool" where
  "reissue_ok r \<longleftrightarrow> length (ra_strName r) \<le> 40 \<and> - (2 ^ 63) \<le> ra_nAmount r \<and> ra_nAmount r < 2 ^ 63 \<and> hash_ok (ra_strIPFSHash r)"

lemma name_size: "length n \<le> 40 \<Longrightarrow> length n \<le> MAX_SIZE"
  by (simp add: MAX_SIZE_def)

lemmas asset_codecs = rbind_def asset_string_roundtrip name_size int64.unser_ser u8.unser_ser

interpretation new_asset: tail_codec ser_CNewAsset unser_CNewAsset new_asset_ok
proof
  fix a rest assume "new_asset_ok a" "length (rest :: bytes) < 8"
  then show "unser_CNewAsset (ser_CNewAsset a @ rest) = Some (a, rest)"
    using asset_hash_roundtrip(1) [of "na_strIPFSHash a" rest]
    by (cases a) (auto simp: ser_CNewAsset_def unser_CNewAsset_def new_asset_ok_def asset_codecs)
qed

interpretation transfer: tail_codec ser_CAssetTransfer unser_CAssetTransfer transfer_ok
proof
  fix t rest assume t: "transfer_ok t" and r: "length (rest :: bytes) < 8"
  obtain m v where w: "write_AssetHash (at_message t) = (m, v)" by (rule prod.exhaust)
  let ?e = "if v \<and> at_nExpireTime t \<noteq> 0 then ser_int64 (at_nExpireTime t) else []"
  have v: "v \<longleftrightarrow> at_message t \<noteq> []" "read_AssetHash (m @ ?e @ rest) = Some ((at_message t, at_message t \<noteq> []), ?e @ rest)"
    using asset_hash_roundtrip [of "at_message t" "?e @ rest"] t r w by (auto simp: transfer_ok_def)
  have "length (ser_int64 (at_nExpireTime t)) = 8" by (simp add: ser_int64_def)
  then show "unser_CAssetTransfer (ser_CAssetTransfer t @ rest) = Some (t, rest)"
    using t r v w int64.unser_ser [of "at_nExpireTime t" rest]
    by (cases t) (auto simp: ser_CAssetTransfer_def unser_CAssetTransfer_def transfer_ok_def asset_codecs)
qed

interpretation reissue: tail_codec ser_CReissueAsset unser_CReissueAsset reissue_ok
proof
  fix a rest assume "reissue_ok a" "length (rest :: bytes) < 8"
  then show "unser_CReissueAsset (ser_CReissueAsset a @ rest) = Some (a, rest)"
    using asset_hash_roundtrip(1) [of "ra_strIPFSHash a" rest]
    by (cases a) (auto simp: ser_CReissueAsset_def unser_CReissueAsset_def reissue_ok_def asset_codecs)
qed

interpretation null_data: codec ser_CNullAssetTxData unser_CNullAssetTxData "\<lambda>d. length (nd_asset_name d) \<le> MAX_SIZE"
  by unfold_locales (simp add: ser_CNullAssetTxData_def unser_CNullAssetTxData_def asset_codecs)

section \<open>Records in scripts\<close>

lemma length_name: "length n \<le> 40 \<Longrightarrow> length (Serialize_bytes n) = length n + 1"
  by (simp add: Serialize_bytes_def length_WriteCompactSize GetSizeOfCompactSize_def)

lemma length_hash: "length (fst (write_AssetHash h)) \<le> 34"
  by (auto simp: write_AssetHash_def Serialize_bytes_def length_WriteCompactSize GetSizeOfCompactSize_def)

lemma length_int64: "length (ser_int64 v) = 8"
  by (simp add: ser_int64_def)

lemma new_asset_length:
  assumes "new_asset_ok a"
  shows "12 \<le> length (ser_CNewAsset a)" "length (ser_CNewAsset a) < 110"
  using assms length_name [of "na_strName a"] length_hash [of "na_strIPFSHash a"]
  by (auto simp: ser_CNewAsset_def new_asset_ok_def length_int64)

lemma transfer_length: "transfer_ok t \<Longrightarrow> length (ser_CAssetTransfer t) < 110"
  using length_name [of "at_strName t"] length_hash [of "at_message t"]
  by (auto simp: ser_CAssetTransfer_def transfer_ok_def length_int64 split: prod.splits)

lemma reissue_length: "reissue_ok r \<Longrightarrow> length (ser_CReissueAsset r) < 110"
  using length_name [of "ra_strName r"] length_hash [of "ra_strIPFSHash r"]
  by (auto simp: ser_CReissueAsset_def reissue_ok_def length_int64)

lemma new_asset_script:
  assumes "length p = 25" "new_asset_ok a"
  shows "\<exists>i. IsAssetScript (ConstructTransaction_new a p) = Some (TX_NEW_ASSET, False, i)
    \<and> unser_CNewAsset (drop i (ConstructTransaction_new a p)) = Some (a, [OP_DROP])"
  using new_asset.script_tail [OF assms new_asset_length(2) [OF assms(2)], of HVN_Q] new_asset_length(1) [OF assms(2)]
  by (auto simp: ConstructTransaction_new_def IsAssetScript_def)

lemma transfer_script:
  assumes "length p = 25" "transfer_ok t"
  shows "\<exists>i. IsAssetScript (ConstructTransaction_transfer t p) = Some (TX_TRANSFER_ASSET, False, i)
    \<and> unser_CAssetTransfer (drop i (ConstructTransaction_transfer t p)) = Some (t, [OP_DROP])"
  using transfer.script_tail [OF assms transfer_length [OF assms(2)], of HVN_T]
  by (auto simp: ConstructTransaction_transfer_def IsAssetScript_def)

lemma reissue_script:
  assumes "length p = 25" "reissue_ok r"
  shows "\<exists>i. IsAssetScript (ConstructTransaction_reissue r p) = Some (TX_REISSUE_ASSET, False, i)
    \<and> unser_CReissueAsset (drop i (ConstructTransaction_reissue r p)) = Some (r, [OP_DROP])"
  using reissue.script_tail [OF assms reissue_length [OF assms(2)], of HVN_H]
  by (auto simp: ConstructTransaction_reissue_def IsAssetScript_def)

lemma script_amounts:
  assumes "length p = 25"
  shows "new_asset_ok a \<Longrightarrow> GetAssetAmountFromScript (ConstructTransaction_new a p) = Some (na_nAmount a)"
    and "transfer_ok t \<Longrightarrow> GetAssetAmountFromScript (ConstructTransaction_transfer t p) = Some (at_nAmount t)"
    and "reissue_ok r \<Longrightarrow> GetAssetAmountFromScript (ConstructTransaction_reissue r p) = Some (ra_nAmount r)"
  using new_asset_script [OF assms, of a] transfer_script [OF assms, of t] reissue_script [OF assms, of r]
  by (auto simp: GetAssetAmountFromScript_def AmountFromNewAssetScript_def ScriptNewAsset_def AmountFromTransferScript_def
      ScriptTransferAsset_def AmountFromReissueScript_def ScriptReissueAsset_def)

lemma append_asset_length: "length m < 114 \<Longrightarrow> length (append_asset m p) < length p + 120"
  by (simp add: append_asset_def push_data_def)

section \<open>Properties\<close>

definition demo_p2pkh :: bytes where
  "demo_p2pkh = [OP_DUP, OP_HASH160, 20] @ replicate 20 7 @ [OP_EQUALVERIFY, OP_CHECKSIG]"

definition demo_asset :: CNewAsset where
  "demo_asset = \<lparr>na_strName = str ''HONEY'', na_nAmount = 5, na_units = 0, na_nReissuable = 1, na_nHasIPFS = 1,
     na_strIPFSHash = [0x12, 0x20] @ replicate 32 9\<rparr>"

definition demo_transfer :: CAssetTransfer where
  "demo_transfer = \<lparr>at_strName = str ''HONEY'', at_nAmount = 3, at_message = replicate 32 8, at_nExpireTime = 77\<rparr>"

definition demo_reissue :: CReissueAsset where
  "demo_reissue = \<lparr>ra_strName = str ''HONEY'', ra_nAmount = 1, ra_nUnits = 0, ra_nReissuable = 0, ra_strIPFSHash = []\<rparr>"

lemma demo_records_ok: "new_asset_ok demo_asset" "transfer_ok demo_transfer" "reissue_ok demo_reissue" "length demo_p2pkh = 25"
  by (simp_all add: demo_asset_def demo_transfer_def demo_reissue_def demo_p2pkh_def new_asset_ok_def transfer_ok_def
      reissue_ok_def hash_ok_def str_def IPFS_SHA2_256_def IPFS_SHA2_256_LEN_def)

text \<open>An asset record that is appended to a payment script of 25 bytes is recognised for what it is, and read back from
  the script unchanged: an issue, a transfer with its message and expiry time, and a reissue, for names of at most 40
  bytes, amounts and times of 64 bits and hashes of the two known kinds.\<close>

theorem asset_script_roundtrip:
  assumes "length p = 25" and "new_asset_ok a" and "transfer_ok t" and "reissue_ok r"
  shows "(\<exists>i. IsAssetScript (ConstructTransaction_new a p) = Some (TX_NEW_ASSET, False, i)
      \<and> unser_CNewAsset (drop i (ConstructTransaction_new a p)) = Some (a, [OP_DROP]))
    \<and> (\<exists>i. IsAssetScript (ConstructTransaction_transfer t p) = Some (TX_TRANSFER_ASSET, False, i)
      \<and> unser_CAssetTransfer (drop i (ConstructTransaction_transfer t p)) = Some (t, [OP_DROP]))
    \<and> (\<exists>i. IsAssetScript (ConstructTransaction_reissue r p) = Some (TX_REISSUE_ASSET, False, i)
      \<and> unser_CReissueAsset (drop i (ConstructTransaction_reissue r p)) = Some (r, [OP_DROP]))"
  using new_asset_script [OF assms(1,2)] transfer_script [OF assms(1,3)] reissue_script [OF assms(1,4)] by blast

theorem asset_script_roundtrip_witness:
  "(\<exists>i. IsAssetScript (ConstructTransaction_new demo_asset demo_p2pkh) = Some (TX_NEW_ASSET, False, i)
      \<and> unser_CNewAsset (drop i (ConstructTransaction_new demo_asset demo_p2pkh)) = Some (demo_asset, [OP_DROP]))
    \<and> (\<exists>i. IsAssetScript (ConstructTransaction_transfer demo_transfer demo_p2pkh) = Some (TX_TRANSFER_ASSET, False, i)
      \<and> unser_CAssetTransfer (drop i (ConstructTransaction_transfer demo_transfer demo_p2pkh)) = Some (demo_transfer, [OP_DROP]))
    \<and> (\<exists>i. IsAssetScript (ConstructTransaction_reissue demo_reissue demo_p2pkh) = Some (TX_REISSUE_ASSET, False, i)
      \<and> unser_CReissueAsset (drop i (ConstructTransaction_reissue demo_reissue demo_p2pkh)) = Some (demo_reissue, [OP_DROP]))"
  by (rule asset_script_roundtrip [OF demo_records_ok(4,1,2,3)])

text \<open>A transfer output to a key hash cannot be spent exactly when it moves nothing: with an amount of zero it never
  enters the set of unspent outputs, with any other amount its script is not unspendable.\<close>

theorem transfer_unspendable:
  assumes "IsPayToPublicKeyHash p" and "transfer_ok t"
  shows "IsUnspendable (ConstructTransaction_transfer t p) \<longleftrightarrow> at_nAmount t = 0"
proof -
  have p: "length p = 25" "p ! 0 = OP_DUP" using assms(1) by (simp_all add: IsPayToPublicKeyHash_def)
  have "length ([HVN_H, HVN_V, HVN_N, HVN_T] @ ser_CAssetTransfer t) < 114" using transfer_length [OF assms(2)] by simp
  from append_asset_length [OF this, of p] have "length (ConstructTransaction_transfer t p) < 145"
    using p(1) by (simp add: ConstructTransaction_transfer_def)
  moreover have "ConstructTransaction_transfer t p ! 0 = OP_DUP"
    using p by (simp add: ConstructTransaction_transfer_def append_asset_def nth_append)
  ultimately show ?thesis using script_amounts(2) [OF p(1) assms(2)] by (simp add: IsUnspendable_def)
qed

theorem transfer_unspendable_witness:
  "IsUnspendable (ConstructTransaction_transfer demo_transfer demo_p2pkh) \<longleftrightarrow> at_nAmount demo_transfer = 0"
  by (rule transfer_unspendable [OF _ demo_records_ok(2)]) (simp add: IsPayToPublicKeyHash_def demo_p2pkh_def nth_append)

end
