(* ===== verification/Coins.thy ===== *)
theory Coins
  imports Compressor AssetTypes Block "HOL-Library.AList"
begin

text \<open>
  The set of unspent outputs (\<open>src/src/coins.h\<close>, \<open>coins.cpp\<close>, and \<open>CCoinsViewDB\<close> of \<open>txdb.cpp\<close>): a database of coins under
  any number of caches, each of which answers for its base and sends its changes down when it is flushed. A map of
  coins is an association list, in the order in which it is iterated. The operations of the base of a cache are
  arguments of the operations of the cache, as its methods are virtual in the source.
\<close>

section \<open>Caches\<close>

record CCoinsCacheEntry =
  ce_coin :: Coin
  ce_flags :: u8

definition DIRTY :: u8 where "DIRTY = 1"
definition FRESH :: u8 where "FRESH = 2"

definition ce_has :: "u8 \<Rightarrow> CCoinsCacheEntry \<Rightarrow> bool" where
  "ce_has f e \<longleftrightarrow> ce_flags e AND f \<noteq> 0"

type_synonym CCoinsMap = "(COutPoint \<times> CCoinsCacheEntry) list"

record 'b CCoinsViewCache =
  cv_base :: 'b
  cv_hashBlock :: bytes
  cv_cacheCoins :: CCoinsMap

text \<open>An operation that does not return throws \<open>std::logic_error\<close> or fails an assertion.\<close>

datatype 'a coins_res = Done 'a | LogicError | AssertFailed

type_synonym 'b get_coin = "'b \<Rightarrow> COutPoint \<Rightarrow> Coin option \<times> 'b"

definition CCoinsViewCache_new :: "'b \<Rightarrow> 'b CCoinsViewCache" where
  "CCoinsViewCache_new baseIn = \<lparr>cv_base = baseIn, cv_hashBlock = uint256_null, cv_cacheCoins = []\<rparr>"

definition FetchCoin :: "'b get_coin \<Rightarrow> 'b CCoinsViewCache \<Rightarrow> COutPoint \<Rightarrow> CCoinsCacheEntry option \<times> 'b CCoinsViewCache" where
  "FetchCoin base_GetCoin c outpoint =
     (case map_of (cv_cacheCoins c) outpoint of
        Some e \<Rightarrow> (Some e, c)
      | None \<Rightarrow>
          (case base_GetCoin (cv_base c) outpoint of
             (None, b) \<Rightarrow> (None, c\<lparr>cv_base := b\<rparr>)
           | (Some tmp, b) \<Rightarrow>
               let e = \<lparr>ce_coin = tmp, ce_flags = (if IsSpent tmp then FRESH else 0)\<rparr>
               in (Some e, c\<lparr>cv_base := b, cv_cacheCoins := AList.update outpoint e (cv_cacheCoins c)\<rparr>)))"

definition GetCoin :: "'b get_coin \<Rightarrow> ('b CCoinsViewCache) get_coin" where
  "GetCoin base_GetCoin c outpoint =
     (case FetchCoin base_GetCoin c outpoint of
        (Some e, c) \<Rightarrow> (if IsSpent (ce_coin e) then None else Some (ce_coin e), c)
      | (None, c) \<Rightarrow> (None, c))"

definition AddCoin :: "'b CCoinsViewCache \<Rightarrow> COutPoint \<Rightarrow> Coin \<Rightarrow> bool \<Rightarrow> 'b CCoinsViewCache coins_res" where
  "AddCoin c outpoint coin possible_overwrite =
     (if IsSpent coin then AssertFailed
      else if IsUnspendable (txo_scriptPubKey (coin_out coin)) then Done c
      else let e = (case map_of (cv_cacheCoins c) outpoint of
                      Some e \<Rightarrow> e | None \<Rightarrow> \<lparr>ce_coin = coinEmpty, ce_flags = 0\<rparr>)
           in if \<not> possible_overwrite \<and> \<not> IsSpent (ce_coin e) then LogicError
              else let fresh = (\<not> possible_overwrite \<and> \<not> ce_has DIRTY e);
                       e' = \<lparr>ce_coin = coin, ce_flags = ce_flags e OR DIRTY OR (if fresh then FRESH else 0)\<rparr>
                   in Done (c\<lparr>cv_cacheCoins := AList.update outpoint e' (cv_cacheCoins c)\<rparr>))"

text \<open>
  The asset cache, when assets are deployed and one is given, has the last word in \<open>SpendCoin\<close>: its method
  \<open>TrySpendCoin\<close>, which also changes it, is an argument. The coin that is moved out is returned too.
\<close>

definition SpendCoin ::
  "'b get_coin \<Rightarrow> (COutPoint \<Rightarrow> CTxOut \<Rightarrow> 'a \<Rightarrow> bool \<times> 'a) option \<Rightarrow> 'b CCoinsViewCache \<Rightarrow> COutPoint \<Rightarrow> 'a
     \<Rightarrow> bool \<times> Coin \<times> 'b CCoinsViewCache \<times> 'a" where
  "SpendCoin base_GetCoin TrySpendCoin c outpoint assetsCache =
     (case FetchCoin base_GetCoin c outpoint of
        (None, c) \<Rightarrow> (False, coinEmpty, c, assetsCache)
      | (Some e, c) \<Rightarrow>
          let m = (if ce_has FRESH e then AList.delete outpoint (cv_cacheCoins c)
                   else AList.update outpoint \<lparr>ce_coin = Coin_Clear (ce_coin e), ce_flags = ce_flags e OR DIRTY\<rparr> (cv_cacheCoins c))
          in case (case TrySpendCoin of None \<Rightarrow> (True, assetsCache) | Some try \<Rightarrow> try outpoint (coin_out (ce_coin e)) assetsCache) of
               (ret, assetsCache) \<Rightarrow> (ret, ce_coin e, c\<lparr>cv_cacheCoins := m\<rparr>, assetsCache))"

definition AccessCoin :: "'b get_coin \<Rightarrow> 'b CCoinsViewCache \<Rightarrow> COutPoint \<Rightarrow> Coin \<times> 'b CCoinsViewCache" where
  "AccessCoin base_GetCoin c outpoint =
     (case FetchCoin base_GetCoin c outpoint of (None, c) \<Rightarrow> (coinEmpty, c) | (Some e, c) \<Rightarrow> (ce_coin e, c))"

definition HaveCoin :: "'b get_coin \<Rightarrow> 'b CCoinsViewCache \<Rightarrow> COutPoint \<Rightarrow> bool \<times> 'b CCoinsViewCache" where
  "HaveCoin base_GetCoin c outpoint =
     (case FetchCoin base_GetCoin c outpoint of (None, c) \<Rightarrow> (False, c) | (Some e, c) \<Rightarrow> (\<not> IsSpent (ce_coin e), c))"

definition HaveCoinInCache :: "'b CCoinsViewCache \<Rightarrow> COutPoint \<Rightarrow> bool" where
  "HaveCoinInCache c outpoint =
     (case map_of (cv_cacheCoins c) outpoint of None \<Rightarrow> False | Some e \<Rightarrow> \<not> IsSpent (ce_coin e))"

definition GetBestBlock :: "('b \<Rightarrow> bytes \<times> 'b) \<Rightarrow> 'b CCoinsViewCache \<Rightarrow> bytes \<times> 'b CCoinsViewCache" where
  "GetBestBlock base_GetBestBlock c =
     (if cv_hashBlock c = uint256_null
      then (case base_GetBestBlock (cv_base c) of (h, b) \<Rightarrow> (h, c\<lparr>cv_base := b, cv_hashBlock := h\<rparr>))
      else (cv_hashBlock c, c))"

definition SetBestBlock :: "'b CCoinsViewCache \<Rightarrow> bytes \<Rightarrow> 'b CCoinsViewCache" where
  "SetBestBlock c hashBlockIn = c\<lparr>cv_hashBlock := hashBlockIn\<rparr>"

text \<open>One entry of the map that is written into a cache.\<close>

definition write_entry :: "COutPoint \<times> CCoinsCacheEntry \<Rightarrow> CCoinsMap \<Rightarrow> CCoinsMap coins_res" where
  "write_entry it cacheCoins =
     (case it of (outpoint, e) \<Rightarrow>
        if \<not> ce_has DIRTY e then Done cacheCoins
        else case map_of cacheCoins outpoint of
               None \<Rightarrow>
                 if ce_has FRESH e \<and> IsSpent (ce_coin e) then Done cacheCoins
                 else Done (AList.update outpoint
                        \<lparr>ce_coin = ce_coin e, ce_flags = (if ce_has FRESH e then DIRTY OR FRESH else DIRTY)\<rparr> cacheCoins)
             | Some us \<Rightarrow>
                 if ce_has FRESH e \<and> \<not> IsSpent (ce_coin us) then LogicError
                 else if ce_has FRESH us \<and> IsSpent (ce_coin e) then Done (AList.delete outpoint cacheCoins)
                 else Done (AList.update outpoint \<lparr>ce_coin = ce_coin e, ce_flags = ce_flags us OR DIRTY\<rparr> cacheCoins))"

primrec write_entries :: "CCoinsMap \<Rightarrow> CCoinsMap \<Rightarrow> CCoinsMap coins_res" where
  "write_entries [] cacheCoins = Done cacheCoins"
| "write_entries (it # mapCoins) cacheCoins =
     (case write_entry it cacheCoins of
        Done m \<Rightarrow> write_entries mapCoins m | LogicError \<Rightarrow> LogicError | AssertFailed \<Rightarrow> AssertFailed)"

definition BatchWrite :: "CCoinsMap \<Rightarrow> bytes \<Rightarrow> 'b CCoinsViewCache \<Rightarrow> 'b CCoinsViewCache coins_res" where
  "BatchWrite mapCoins hashBlockIn c =
     (case write_entries mapCoins (cv_cacheCoins c) of
        Done m \<Rightarrow> Done (c\<lparr>cv_cacheCoins := m, cv_hashBlock := hashBlockIn\<rparr>)
      | LogicError \<Rightarrow> LogicError | AssertFailed \<Rightarrow> AssertFailed)"

definition Flush :: "(CCoinsMap \<Rightarrow> bytes \<Rightarrow> 'b \<Rightarrow> 'b coins_res) \<Rightarrow> 'b CCoinsViewCache \<Rightarrow> 'b CCoinsViewCache coins_res" where
  "Flush base_BatchWrite c =
     (case base_BatchWrite (cv_cacheCoins c) (cv_hashBlock c) (cv_base c) of
        Done b \<Rightarrow> Done (c\<lparr>cv_base := b, cv_cacheCoins := []\<rparr>)
      | LogicError \<Rightarrow> LogicError | AssertFailed \<Rightarrow> AssertFailed)"

definition Uncache :: "'b CCoinsViewCache \<Rightarrow> COutPoint \<Rightarrow> 'b CCoinsViewCache" where
  "Uncache c outpoint =
     (case map_of (cv_cacheCoins c) outpoint of
        None \<Rightarrow> c
      | Some e \<Rightarrow> if ce_flags e = 0 then c\<lparr>cv_cacheCoins := AList.delete outpoint (cv_cacheCoins c)\<rparr> else c)"

definition GetCacheSize :: "'b CCoinsViewCache \<Rightarrow> nat" where
  "GetCacheSize c = length (cv_cacheCoins c)"

primrec value_in_loop :: "'b get_coin \<Rightarrow> CTxIn list \<Rightarrow> int \<Rightarrow> 'b CCoinsViewCache \<Rightarrow> int \<times> 'b CCoinsViewCache" where
  "value_in_loop base_GetCoin [] nResult c = (nResult, c)"
| "value_in_loop base_GetCoin (txin # vin) nResult c =
     (case AccessCoin base_GetCoin c (txin_prevout txin) of
        (coin, c) \<Rightarrow> value_in_loop base_GetCoin vin (nResult + txo_nValue (coin_out coin)) c)"

definition GetValueIn :: "'b get_coin \<Rightarrow> 'b CCoinsViewCache \<Rightarrow> CTransaction \<Rightarrow> int \<times> 'b CCoinsViewCache" where
  "GetValueIn base_GetCoin c tx =
     (if IsCoinBase tx then (0, c) else value_in_loop base_GetCoin (tx_vin tx) 0 c)"

primrec have_inputs_loop :: "'b get_coin \<Rightarrow> CTxIn list \<Rightarrow> 'b CCoinsViewCache \<Rightarrow> bool \<times> 'b CCoinsViewCache" where
  "have_inputs_loop base_GetCoin [] c = (True, c)"
| "have_inputs_loop base_GetCoin (txin # vin) c =
     (case HaveCoin base_GetCoin c (txin_prevout txin) of
        (b, c) \<Rightarrow> if \<not> b then (False, c) else have_inputs_loop base_GetCoin vin c)"

definition HaveInputs :: "'b get_coin \<Rightarrow> 'b CCoinsViewCache \<Rightarrow> CTransaction \<Rightarrow> bool \<times> 'b CCoinsViewCache" where
  "HaveInputs base_GetCoin c tx =
     (if \<not> IsCoinBase tx then have_inputs_loop base_GetCoin (tx_vin tx) c else (True, c))"

text \<open>The loop over the output numbers, with the number of outputs still to be tried.\<close>

primrec access_by_txid_loop :: "'b get_coin \<Rightarrow> bytes \<Rightarrow> nat \<Rightarrow> u32 \<Rightarrow> 'b CCoinsViewCache \<Rightarrow> Coin \<times> 'b CCoinsViewCache" where
  "access_by_txid_loop base_GetCoin txid 0 n c = (coinEmpty, c)"
| "access_by_txid_loop base_GetCoin txid (Suc k) n c =
     (case AccessCoin base_GetCoin c \<lparr>outp_hash = txid, outp_n = n\<rparr> of
        (alternate, c) \<Rightarrow>
          if \<not> IsSpent alternate then (alternate, c) else access_by_txid_loop base_GetCoin txid k (n + 1) c)"

text \<open>An empty output has a weight of 36, four times its nine bytes.\<close>

definition MIN_TRANSACTION_OUTPUT_WEIGHT :: nat where "MIN_TRANSACTION_OUTPUT_WEIGHT = 4 * 9"
definition GetMaxBlockWeight :: nat where "GetMaxBlockWeight = MAX_BLOCK_WEIGHT_HIP2"

definition AccessByTxid :: "'b get_coin \<Rightarrow> 'b CCoinsViewCache \<Rightarrow> bytes \<Rightarrow> Coin \<times> 'b CCoinsViewCache" where
  "AccessByTxid base_GetCoin c txid =
     access_by_txid_loop base_GetCoin txid (GetMaxBlockWeight div MIN_TRANSACTION_OUTPUT_WEIGHT) 0 c"

section \<open>The database\<close>

text \<open>The coins, the best block and the two blocks between which a write was interrupted.\<close>

record CCoinsViewDB =
  db_coins :: "COutPoint \<rightharpoonup> Coin"
  db_best_block :: "bytes option"
  db_head_blocks :: "bytes list option"

definition db_GetCoin :: "CCoinsViewDB get_coin" where
  "db_GetCoin db outpoint = (db_coins db outpoint, db)"

definition db_HaveCoin :: "CCoinsViewDB \<Rightarrow> COutPoint \<Rightarrow> bool" where
  "db_HaveCoin db outpoint \<longleftrightarrow> db_coins db outpoint \<noteq> None"

definition db_GetBestBlock :: "CCoinsViewDB \<Rightarrow> bytes \<times> CCoinsViewDB" where
  "db_GetBestBlock db = ((case db_best_block db of None \<Rightarrow> uint256_null | Some h \<Rightarrow> h), db)"

definition db_GetHeadBlocks :: "CCoinsViewDB \<Rightarrow> bytes list" where
  "db_GetHeadBlocks db = (case db_head_blocks db of None \<Rightarrow> [] | Some hs \<Rightarrow> hs)"

text \<open>What is put into a batch. The database applies a batch as a whole or not at all.\<close>

datatype db_op = EraseCoin COutPoint | WriteCoin COutPoint Coin | EraseBestBlock | WriteBestBlock bytes
  | EraseHeadBlocks | WriteHeadBlocks "bytes list"

fun db_apply :: "db_op \<Rightarrow> CCoinsViewDB \<Rightarrow> CCoinsViewDB" where
  "db_apply (EraseCoin o') db = db\<lparr>db_coins := (db_coins db)(o' := None)\<rparr>"
| "db_apply (WriteCoin o' c) db = db\<lparr>db_coins := (db_coins db)(o' \<mapsto> c)\<rparr>"
| "db_apply EraseBestBlock db = db\<lparr>db_best_block := None\<rparr>"
| "db_apply (WriteBestBlock h) db = db\<lparr>db_best_block := Some h\<rparr>"
| "db_apply EraseHeadBlocks db = db\<lparr>db_head_blocks := None\<rparr>"
| "db_apply (WriteHeadBlocks hs) db = db\<lparr>db_head_blocks := Some hs\<rparr>"

definition WriteBatch :: "db_op list \<Rightarrow> CCoinsViewDB \<Rightarrow> CCoinsViewDB" where
  "WriteBatch batch db = fold db_apply batch db"

definition entry_ops :: "COutPoint \<times> CCoinsCacheEntry \<Rightarrow> db_op list" where
  "entry_ops it =
     (case it of (outpoint, e) \<Rightarrow>
        if ce_has DIRTY e then [if IsSpent (ce_coin e) then EraseCoin outpoint else WriteCoin outpoint (ce_coin e)] else [])"

text \<open>
  The batches that are written, the first of them begun with \<open>batch\<close>. Whether the estimated size of a batch is above the
  limit is an argument.
\<close>

primrec db_batches :: "(db_op list \<Rightarrow> bool) \<Rightarrow> bytes \<Rightarrow> db_op list \<Rightarrow> CCoinsMap \<Rightarrow> db_op list list" where
  "db_batches too_big hashBlock batch [] = [batch @ [EraseHeadBlocks, WriteBestBlock hashBlock]]"
| "db_batches too_big hashBlock batch (it # mapCoins) =
     (let batch = batch @ entry_ops it
      in if too_big batch then batch # db_batches too_big hashBlock [] mapCoins
         else db_batches too_big hashBlock batch mapCoins)"

definition db_old_tip :: "CCoinsViewDB \<Rightarrow> bytes" where
  "db_old_tip db =
     (if fst (db_GetBestBlock db) = uint256_null \<and> length (db_GetHeadBlocks db) = 2 then db_GetHeadBlocks db ! 1
      else fst (db_GetBestBlock db))"

definition db_write_batches :: "(db_op list \<Rightarrow> bool) \<Rightarrow> CCoinsMap \<Rightarrow> bytes \<Rightarrow> CCoinsViewDB \<Rightarrow> db_op list list coins_res" where
  "db_write_batches too_big mapCoins hashBlock db =
     (if hashBlock = uint256_null then AssertFailed
      else if fst (db_GetBestBlock db) = uint256_null \<and> length (db_GetHeadBlocks db) = 2
              \<and> db_GetHeadBlocks db ! 0 \<noteq> hashBlock then AssertFailed
      else Done (db_batches too_big hashBlock [EraseBestBlock, WriteHeadBlocks [hashBlock, db_old_tip db]] mapCoins))"

definition db_BatchWrite :: "(db_op list \<Rightarrow> bool) \<Rightarrow> CCoinsMap \<Rightarrow> bytes \<Rightarrow> CCoinsViewDB \<Rightarrow> CCoinsViewDB coins_res" where
  "db_BatchWrite too_big mapCoins hashBlock db =
     (case db_write_batches too_big mapCoins hashBlock db of
        Done batches \<Rightarrow> Done (fold WriteBatch batches db) | LogicError \<Rightarrow> LogicError | AssertFailed \<Rightarrow> AssertFailed)"

section \<open>What a view promises\<close>

text \<open>What a map of entries does to a set of unspent outputs, and when it may be written to a view with that set.\<close>

definition unspent :: "Coin \<Rightarrow> Coin option" where
  "unspent c = (if IsSpent c then None else Some c)"

definition written :: "CCoinsMap \<Rightarrow> (COutPoint \<rightharpoonup> Coin) \<Rightarrow> (COutPoint \<rightharpoonup> Coin)" where
  "written m u o' = (case map_of m o' of
     None \<Rightarrow> u o' | Some e \<Rightarrow> if ce_has DIRTY e then unspent (ce_coin e) else u o')"

definition fresh_ok :: "(COutPoint \<rightharpoonup> Coin) \<Rightarrow> CCoinsMap \<Rightarrow> bool" where
  "fresh_ok u m \<longleftrightarrow> distinct (map fst m) \<and> (\<forall>(o', e) \<in> set m. ce_has FRESH e \<longrightarrow> u o' = None)"

text \<open>
  The set that a cache stands for, by the set of its base, and what holds of its entries: an entry that is fresh is
  unspent nowhere in the base, and one that is not dirty says what the base says.
\<close>

definition entry_ok :: "Coin option \<Rightarrow> CCoinsCacheEntry \<Rightarrow> bool" where
  "entry_ok u e \<longleftrightarrow> (ce_has FRESH e \<longrightarrow> u = None) \<and> (\<not> ce_has DIRTY e \<longrightarrow> u = unspent (ce_coin e))"

definition entries_ok :: "(COutPoint \<rightharpoonup> Coin) \<Rightarrow> CCoinsMap \<Rightarrow> bool" where
  "entries_ok u m \<longleftrightarrow> distinct (map fst m) \<and> (\<forall>o' e. map_of m o' = Some e \<longrightarrow> entry_ok (u o') e)"

definition overlay :: "CCoinsMap \<Rightarrow> (COutPoint \<rightharpoonup> Coin) \<Rightarrow> (COutPoint \<rightharpoonup> Coin)" where
  "overlay m u o' = (case map_of m o' of None \<Rightarrow> u o' | Some e \<Rightarrow> unspent (ce_coin e))"

lemma ce_has_bit: "ce_has DIRTY e \<longleftrightarrow> bit (ce_flags e) 0" "ce_has FRESH e \<longleftrightarrow> bit (ce_flags e) 1"
  using and_exp_eq_0_iff_not_bit [of "ce_flags e" 0] and_exp_eq_0_iff_not_bit [of "ce_flags e" 1]
  by (auto simp: ce_has_def DIRTY_def FRESH_def)

lemma flag_bits [simp]:
  "ce_has DIRTY \<lparr>ce_coin = c, ce_flags = 0\<rparr> = False" "ce_has FRESH \<lparr>ce_coin = c, ce_flags = 0\<rparr> = False"
  "ce_has DIRTY \<lparr>ce_coin = c, ce_flags = FRESH\<rparr> = False" "ce_has FRESH \<lparr>ce_coin = c, ce_flags = FRESH\<rparr> = True"
  "ce_has DIRTY \<lparr>ce_coin = c, ce_flags = DIRTY\<rparr> = True" "ce_has FRESH \<lparr>ce_coin = c, ce_flags = DIRTY\<rparr> = False"
  "ce_has DIRTY \<lparr>ce_coin = c, ce_flags = DIRTY OR FRESH\<rparr> = True" "ce_has FRESH \<lparr>ce_coin = c, ce_flags = DIRTY OR FRESH\<rparr> = True"
  by (simp_all add: ce_has_def DIRTY_def FRESH_def)

lemma flag_or [simp]:
  "ce_has DIRTY \<lparr>ce_coin = c, ce_flags = f OR DIRTY\<rparr> = True"
  "ce_has FRESH \<lparr>ce_coin = c, ce_flags = ce_flags e OR DIRTY\<rparr> = ce_has FRESH e"
  "ce_has DIRTY \<lparr>ce_coin = c, ce_flags = f OR DIRTY OR FRESH\<rparr> = True"
  "ce_has FRESH \<lparr>ce_coin = c, ce_flags = f OR DIRTY OR FRESH\<rparr> = True"
  "ce_has DIRTY \<lparr>ce_coin = c, ce_flags = f OR DIRTY OR 0\<rparr> = True"
  "ce_has FRESH \<lparr>ce_coin = c, ce_flags = ce_flags e OR DIRTY OR 0\<rparr> = ce_has FRESH e"
  by (simp_all add: ce_has_bit bit_simps) (simp_all add: DIRTY_def FRESH_def bit_simps)

lemma unspent_empty [simp]: "unspent coinEmpty = None" "unspent (Coin_Clear c) = None" "IsSpent coinEmpty" "IsSpent (Coin_Clear c)"
  by (simp_all add: unspent_def coinEmpty_def Coin_Clear_def IsSpent_def CTxOut_IsNull_def CTxOut_null_def)

lemma entries_update:
  assumes "entries_ok u m" "entry_ok (u o') e"
  shows "entries_ok u (AList.update o' e m)" "overlay (AList.update o' e m) u = (overlay m u)(o' := unspent (ce_coin e))"
  using assms by (auto simp: entries_ok_def overlay_def update_conv' distinct_update fun_eq_iff split: if_splits)

lemma entries_delete:
  assumes "entries_ok u m"
  shows "entries_ok u (AList.delete o' m)" "overlay (AList.delete o' m) u = (overlay m u)(o' := u o')"
  using assms by (auto simp: entries_ok_def overlay_def delete_conv' distinct_delete fun_eq_iff split: if_splits)

lemma overlay_clean: "entries_ok u m \<Longrightarrow> written m u = overlay m u"
  by (rule ext) (auto simp: written_def overlay_def entries_ok_def entry_ok_def split: option.splits)

lemma entries_fresh: "entries_ok u m \<Longrightarrow> fresh_ok u m"
  by (auto simp: entries_ok_def fresh_ok_def entry_ok_def dest: map_of_is_SomeI)

lemma write_entry_law:
  assumes "entries_ok u m" "ce_has FRESH e \<Longrightarrow> overlay m u o' = None"
  shows "\<exists>m'. write_entry (o', e) m = Done m' \<and> entries_ok u m'
    \<and> overlay m' u = (if ce_has DIRTY e then (overlay m u)(o' := unspent (ce_coin e)) else overlay m u)"
proof (cases "map_of m o'")
  case None
  let ?e = "\<lparr>ce_coin = ce_coin e, ce_flags = (if ce_has FRESH e then DIRTY OR FRESH else DIRTY)\<rparr>"
  have "entry_ok (u o') ?e" using assms(2) None by (auto simp: entry_ok_def overlay_def)
  from entries_update [OF assms(1) this] None assms show ?thesis
    by (auto simp: write_entry_def unspent_def overlay_def fun_eq_iff)
next
  case (Some us)
  have us: "entry_ok (u o') us" "overlay m u o' = unspent (ce_coin us)"
    using assms(1) Some by (auto simp: entries_ok_def overlay_def)
  let ?e = "\<lparr>ce_coin = ce_coin e, ce_flags = ce_flags us OR DIRTY\<rparr>"
  have "entry_ok (u o') ?e" using us(1) by (simp add: entry_ok_def)
  note upd = entries_update [OF assms(1) this]
  have "ce_has FRESH e \<Longrightarrow> IsSpent (ce_coin us)" using assms(2) us(2) by (auto simp: unspent_def split: if_splits)
  moreover have "ce_has FRESH us \<Longrightarrow> u o' = None" using us(1) by (simp add: entry_ok_def)
  ultimately show ?thesis using upd entries_delete [OF assms(1), of o'] Some assms(1)
    by (auto simp: write_entry_def unspent_def)
qed

lemma written_Cons:
  assumes "o' \<notin> fst ` set m"
  shows "written ((o', e) # m) u = written m (if ce_has DIRTY e then u(o' := unspent (ce_coin e)) else u)"
proof -
  have "map_of m o' = None" using assms by (simp add: map_of_eq_None_iff)
  then show ?thesis by (auto simp: written_def fun_eq_iff split: option.splits)
qed

lemma write_entries_law:
  assumes "entries_ok u m" "fresh_ok (overlay m u) ms"
  shows "\<exists>m'. write_entries ms m = Done m' \<and> entries_ok u m' \<and> overlay m' u = written ms (overlay m u)"
  using assms
proof (induction ms arbitrary: m)
  case Nil
  then show ?case by (simp add: written_def fun_eq_iff)
next
  case (Cons it ms)
  obtain o' e where it: "it = (o', e)" by fastforce
  have "ce_has FRESH e \<Longrightarrow> overlay m u o' = None" using Cons.prems(2) it by (auto simp: fresh_ok_def)
  from write_entry_law [OF Cons.prems(1) this] obtain m' where m': "write_entry it m = Done m'" "entries_ok u m'"
    "overlay m' u = (if ce_has DIRTY e then (overlay m u)(o' := unspent (ce_coin e)) else overlay m u)" by (auto simp: it)
  have new: "o' \<notin> fst ` set ms" using Cons.prems(2) it by (simp add: fresh_ok_def)
  have "k \<noteq> o'" if "(k, x) \<in> set ms" for k x using new that by force
  then have "fresh_ok (overlay m' u) ms" using Cons.prems(2) it by (auto simp: fresh_ok_def m'(3))
  from Cons.IH [OF m'(2) this] show ?case using m' it written_Cons [OF new] by auto
qed

lemma entry_ops_law: "fold db_apply (entry_ops (o', e)) db =
    db\<lparr>db_coins := if ce_has DIRTY e then (db_coins db)(o' := unspent (ce_coin e)) else db_coins db\<rparr>"
  by (simp add: entry_ops_def unspent_def)

lemma db_write_law:
  assumes "distinct (map fst ms)"
  shows "fold db_apply (concat (map entry_ops ms)) db = db\<lparr>db_coins := written ms (db_coins db)\<rparr>"
  using assms
proof (induction ms arbitrary: db)
  case Nil
  show ?case by (simp add: written_def [abs_def])
next
  case (Cons it ms)
  obtain o' e where it: "it = (o', e)" by fastforce
  then have "o' \<notin> fst ` set ms" "distinct (map fst ms)" using Cons.prems by auto
  then show ?case using Cons.IH it by (simp add: written_Cons entry_ops_law)
qed

lemma db_batches_concat:
  "concat (db_batches too_big h batch ms) = batch @ concat (map entry_ops ms) @ [EraseHeadBlocks, WriteBestBlock h]"
  by (induction ms arbitrary: batch) (simp_all add: Let_def)

lemma db_batches_prefix:
  assumes "j < length (db_batches too_big h batch ms)" "0 < j"
  shows "\<exists>i. concat (take j (db_batches too_big h batch ms)) = batch @ concat (map entry_ops (take i ms))"
  using assms
proof (induction ms arbitrary: batch j)
  case (Cons it ms)
  have step: ?case if "concat (take j (db_batches too_big h batch (it # ms))) = batch @ entry_ops it @ concat (map entry_ops (take i ms))" for i
    using that by (intro exI [of _ "Suc i"]) simp
  obtain k where k: "j = Suc k" using Cons.prems(2) by (cases j) auto
  show ?case
  proof (cases "too_big (batch @ entry_ops it)")
    case True
    show ?thesis
    proof (cases k)
      case 0
      then show ?thesis using True k by (intro step [of 0]) (simp add: Let_def)
    next
      case (Suc l)
      then obtain i where "concat (take k (db_batches too_big h [] ms)) = concat (map entry_ops (take i ms))"
        using True k Cons.prems Cons.IH [of k "[]"] by (auto simp: Let_def)
      then show ?thesis using True k by (intro step [of i]) (simp add: Let_def)
    qed
  next
    case False
    then obtain i where "concat (take j (db_batches too_big h (batch @ entry_ops it) ms)) = (batch @ entry_ops it) @ concat (map entry_ops (take i ms))"
      using Cons.prems Cons.IH [of j "batch @ entry_ops it"] by (auto simp: Let_def)
    then show ?thesis using False by (intro step [of i]) (simp add: Let_def)
  qed
qed simp

lemma fold_batches: "fold WriteBatch batches db = fold db_apply (concat batches) db"
  by (induction batches arbitrary: db) (simp_all add: WriteBatch_def)

definition cache_utxo :: "('b \<Rightarrow> COutPoint \<rightharpoonup> Coin) \<Rightarrow> 'b CCoinsViewCache \<Rightarrow> COutPoint \<rightharpoonup> Coin" where
  "cache_utxo utxo c = overlay (cv_cacheCoins c) (utxo (cv_base c))"

definition cache_ok :: "('b \<Rightarrow> COutPoint \<rightharpoonup> Coin) \<Rightarrow> ('b \<Rightarrow> bool) \<Rightarrow> 'b CCoinsViewCache \<Rightarrow> bool" where
  "cache_ok utxo ok c \<longleftrightarrow> ok (cv_base c) \<and> entries_ok (utxo (cv_base c)) (cv_cacheCoins c)"

definition cache_tip :: "('b \<Rightarrow> bytes) \<Rightarrow> 'b CCoinsViewCache \<Rightarrow> bytes" where
  "cache_tip tip c = (if cv_hashBlock c = uint256_null then tip (cv_base c) else cv_hashBlock c)"

text \<open>Sequences of operations on a cache, and what they mean for the set of unspent outputs.\<close>

datatype coins_op = OpGet COutPoint | OpSpend COutPoint | OpAdd COutPoint Coin bool | OpUncache COutPoint

fun cache_step :: "'b get_coin \<Rightarrow> coins_op \<Rightarrow> 'b CCoinsViewCache \<Rightarrow> 'b CCoinsViewCache coins_res" where
  "cache_step get (OpGet o') c = Done (snd (GetCoin get c o'))"
| "cache_step get (OpSpend o') c = Done (fst (snd (snd (SpendCoin get None c o' ()))))"
| "cache_step get (OpAdd o' coin overwrite) c = AddCoin c o' coin overwrite"
| "cache_step get (OpUncache o') c = Done (Uncache c o')"

primrec cache_run :: "'b get_coin \<Rightarrow> coins_op list \<Rightarrow> 'b CCoinsViewCache \<Rightarrow> 'b CCoinsViewCache coins_res" where
  "cache_run get [] c = Done c"
| "cache_run get (op # ops) c =
     (case cache_step get op c of Done c \<Rightarrow> cache_run get ops c | LogicError \<Rightarrow> LogicError | AssertFailed \<Rightarrow> AssertFailed)"

text \<open>None stands for a use that the interface forbids: a spent coin, or one that is added over another unannounced.\<close>

fun spec_step :: "coins_op \<Rightarrow> (COutPoint \<rightharpoonup> Coin) \<Rightarrow> (COutPoint \<rightharpoonup> Coin) option" where
  "spec_step (OpGet o') u = Some u"
| "spec_step (OpSpend o') u = Some (u(o' := None))"
| "spec_step (OpAdd o' coin overwrite) u =
     (if IsSpent coin \<or> \<not> overwrite \<and> u o' \<noteq> None then None
      else Some (if IsUnspendable (txo_scriptPubKey (coin_out coin)) then u else u(o' \<mapsto> coin)))"
| "spec_step (OpUncache o') u = Some u"

primrec spec_run :: "coins_op list \<Rightarrow> (COutPoint \<rightharpoonup> Coin) \<Rightarrow> (COutPoint \<rightharpoonup> Coin) option" where
  "spec_run [] u = Some u"
| "spec_run (op # ops) u = (case spec_step op u of None \<Rightarrow> None | Some u \<Rightarrow> spec_run ops u)"

text \<open>
  The contract of a view, by the set of unspent outputs and the best block that it stands for. The lemmas of the
  locale are those of a cache over any view that keeps it, the last one that the cache keeps it in turn.
\<close>

locale coins_view =
  fixes get :: "'b get_coin" and best :: "'b \<Rightarrow> bytes \<times> 'b" and batch :: "CCoinsMap \<Rightarrow> bytes \<Rightarrow> 'b \<Rightarrow> 'b coins_res"
    and utxo :: "'b \<Rightarrow> COutPoint \<rightharpoonup> Coin" and tip :: "'b \<Rightarrow> bytes" and ok :: "'b \<Rightarrow> bool"
  assumes get_law: "ok b \<Longrightarrow> \<exists>b'. get b o' = (utxo b o', b') \<and> ok b' \<and> utxo b' = utxo b \<and> tip b' = tip b"
    and best_law: "ok b \<Longrightarrow> \<exists>b'. best b = (tip b, b') \<and> ok b' \<and> utxo b' = utxo b \<and> tip b' = tip b"
    and write_law: "ok b \<Longrightarrow> fresh_ok (utxo b) m \<Longrightarrow> h \<noteq> uint256_null \<Longrightarrow>
      \<exists>b'. batch m h b = Done b' \<and> ok b' \<and> utxo b' = written m (utxo b) \<and> tip b' = h"
    and utxo_unspent: "ok b \<Longrightarrow> utxo b o' = Some c \<Longrightarrow> \<not> IsSpent c"
begin

lemma cache_new: "ok b \<Longrightarrow> cache_ok utxo ok (CCoinsViewCache_new b) \<and> cache_utxo utxo (CCoinsViewCache_new b) = utxo b
    \<and> cache_tip tip (CCoinsViewCache_new b) = tip b"
  by (simp add: cache_ok_def cache_utxo_def cache_tip_def CCoinsViewCache_new_def entries_ok_def overlay_def fun_eq_iff)

lemma FetchCoin_law:
  assumes "cache_ok utxo ok c"
  obtains r c' where "FetchCoin get c o' = (r, c')" "cache_ok utxo ok c'" "cache_utxo utxo c' = cache_utxo utxo c" "cache_tip tip c' = cache_tip tip c"
    "map_of (cv_cacheCoins c') o' = r" "cache_utxo utxo c o' = (case r of None \<Rightarrow> None | Some e \<Rightarrow> unspent (ce_coin e))"
    "utxo (cv_base c') = utxo (cv_base c)"
proof (cases "map_of (cv_cacheCoins c) o'")
  case (Some e)
  then show thesis using assms by (intro that [of "Some e" c]) (simp_all add: FetchCoin_def cache_utxo_def overlay_def)
next
  case None
  have okb: "ok (cv_base c)" and ents: "entries_ok (utxo (cv_base c)) (cv_cacheCoins c)" using assms by (simp_all add: cache_ok_def)
  from get_law [OF okb, of o'] obtain b where b: "get (cv_base c) o' = (utxo (cv_base c) o', b)" "ok b"
    "utxo b = utxo (cv_base c)" "tip b = tip (cv_base c)" by blast
  show thesis
  proof (cases "utxo (cv_base c) o'")
    case u: None
    then show thesis using None b ents
      by (intro that [of None "c\<lparr>cv_base := b\<rparr>"])
        (simp_all add: FetchCoin_def cache_ok_def cache_utxo_def cache_tip_def overlay_def)
  next
    case u: (Some coin)
    let ?e = "\<lparr>ce_coin = coin, ce_flags = 0\<rparr>"
    have sp: "\<not> IsSpent coin" using utxo_unspent [OF okb u] .
    then have e: "entry_ok (utxo (cv_base c) o') ?e" using u by (simp add: entry_ok_def unspent_def)
    have "overlay (AList.update o' ?e (cv_cacheCoins c)) (utxo (cv_base c)) = overlay (cv_cacheCoins c) (utxo (cv_base c))"
      using entries_update(2) [OF ents e] None u sp by (simp add: overlay_def unspent_def fun_eq_iff)
    then show thesis using None b u sp entries_update(1) [OF ents e]
      by (intro that [of "Some ?e" "c\<lparr>cv_base := b, cv_cacheCoins := AList.update o' ?e (cv_cacheCoins c)\<rparr>"])
        (simp_all add: FetchCoin_def cache_ok_def cache_utxo_def cache_tip_def update_conv' overlay_def unspent_def Let_def)
  qed
qed

lemma GetCoin_law:
  assumes "cache_ok utxo ok c"
  shows "\<exists>c'. GetCoin get c o' = (cache_utxo utxo c o', c') \<and> cache_ok utxo ok c' \<and> cache_utxo utxo c' = cache_utxo utxo c \<and> cache_tip tip c' = cache_tip tip c"
  by (rule FetchCoin_law [OF assms, of o']) (auto simp: GetCoin_def unspent_def split: option.splits)

lemma HaveCoin_law:
  assumes "cache_ok utxo ok c"
  shows "\<exists>c'. HaveCoin get c o' = (cache_utxo utxo c o' \<noteq> None, c') \<and> cache_ok utxo ok c' \<and> cache_utxo utxo c' = cache_utxo utxo c \<and> cache_tip tip c' = cache_tip tip c"
  by (rule FetchCoin_law [OF assms, of o']) (auto simp: HaveCoin_def unspent_def split: option.splits)

lemma AccessCoin_law:
  assumes "cache_ok utxo ok c"
  shows "\<exists>c' coin. AccessCoin get c o' = (coin, c') \<and> unspent coin = cache_utxo utxo c o' \<and> cache_ok utxo ok c'
    \<and> cache_utxo utxo c' = cache_utxo utxo c \<and> cache_tip tip c' = cache_tip tip c"
  by (rule FetchCoin_law [OF assms, of o'])
    (auto simp: AccessCoin_def split: option.splits)

lemma SpendCoin_law:
  assumes "cache_ok utxo ok c"
  shows "\<exists>ret coin c' a'. SpendCoin get try c o' a = (ret, coin, c', a') \<and> cache_ok utxo ok c' \<and> cache_utxo utxo c' = (cache_utxo utxo c)(o' := None)
    \<and> cache_tip tip c' = cache_tip tip c \<and> unspent coin = cache_utxo utxo c o'
    \<and> (cache_utxo utxo c o' \<noteq> None \<longrightarrow> (ret, a') = (case try of None \<Rightarrow> (True, a) | Some t \<Rightarrow> t o' (coin_out coin) a))"
proof (rule FetchCoin_law [OF assms, of o'])
  fix r c'
  assume f: "FetchCoin get c o' = (r, c')" "cache_ok utxo ok c'" "cache_utxo utxo c' = cache_utxo utxo c" "cache_tip tip c' = cache_tip tip c"
    "map_of (cv_cacheCoins c') o' = r" "cache_utxo utxo c o' = (case r of None \<Rightarrow> None | Some e \<Rightarrow> unspent (ce_coin e))"
  have ents: "entries_ok (utxo (cv_base c')) (cv_cacheCoins c')" using f(2) by (simp add: cache_ok_def)
  show ?thesis
  proof (cases r)
    case None
    have "(cache_utxo utxo c)(o' := None) = cache_utxo utxo c" using f(6) None by auto
    then show ?thesis using f None
      by (auto simp: SpendCoin_def)
  next
    case (Some e)
    have e: "entry_ok (utxo (cv_base c') o') e" using ents f(5) Some by (simp add: entries_ok_def)
    let ?e = "\<lparr>ce_coin = Coin_Clear (ce_coin e), ce_flags = ce_flags e OR DIRTY\<rparr>"
    let ?r = "case try of None \<Rightarrow> (True, a) | Some t \<Rightarrow> t o' (coin_out (ce_coin e)) a"
    have e': "entry_ok (utxo (cv_base c') o') ?e" "unspent (ce_coin ?e) = None"
      using e by (simp_all add: entry_ok_def)
    show ?thesis
    proof (cases "ce_has FRESH e")
      case True
      then have u: "utxo (cv_base c') o' = None" using e by (simp add: entry_ok_def)
      have "overlay (AList.delete o' (cv_cacheCoins c')) (utxo (cv_base c')) = (cache_utxo utxo c)(o' := None)"
        using entries_delete(2) [OF ents, of o'] u f(3) by (simp add: cache_utxo_def)
      moreover have "SpendCoin get try c o' a = (fst ?r, ce_coin e, c'\<lparr>cv_cacheCoins := AList.delete o' (cv_cacheCoins c')\<rparr>, snd ?r)"
        using f(1) Some True by (simp add: SpendCoin_def split_beta)
      ultimately show ?thesis using f Some entries_delete(1) [OF ents, of o']
        by (simp add: cache_ok_def cache_utxo_def cache_tip_def split: if_splits)
    next
      case False
      have "overlay (AList.update o' ?e (cv_cacheCoins c')) (utxo (cv_base c')) = (cache_utxo utxo c)(o' := None)"
        using entries_update(2) [OF ents e'(1)] e'(2) f(3) by (simp add: cache_utxo_def)
      moreover have "SpendCoin get try c o' a = (fst ?r, ce_coin e, c'\<lparr>cv_cacheCoins := AList.update o' ?e (cv_cacheCoins c')\<rparr>, snd ?r)"
        using f(1) Some False by (simp add: SpendCoin_def split_beta)
      ultimately show ?thesis using f Some entries_update(1) [OF ents e'(1)]
        by (simp add: cache_ok_def cache_utxo_def cache_tip_def split: if_splits)
    qed
  qed
qed

lemma AddCoin_law:
  assumes "cache_ok utxo ok c" "\<not> IsSpent coin" "overwrite \<or> cache_utxo utxo c o' = None"
  shows "\<exists>c'. AddCoin c o' coin overwrite = Done c' \<and> cache_ok utxo ok c' \<and> cache_tip tip c' = cache_tip tip c
    \<and> cache_utxo utxo c' = (if IsUnspendable (txo_scriptPubKey (coin_out coin)) then cache_utxo utxo c else (cache_utxo utxo c)(o' \<mapsto> coin))"
proof (cases "IsUnspendable (txo_scriptPubKey (coin_out coin))")
  case True
  then show ?thesis using assms by (simp add: AddCoin_def)
next
  case False
  let ?e = "case map_of (cv_cacheCoins c) o' of Some e \<Rightarrow> e | None \<Rightarrow> \<lparr>ce_coin = coinEmpty, ce_flags = 0\<rparr>"
  let ?f = "\<not> overwrite \<and> \<not> ce_has DIRTY ?e"
  let ?e' = "\<lparr>ce_coin = coin, ce_flags = ce_flags ?e OR DIRTY OR (if ?f then FRESH else 0)\<rparr>"
  have ents: "entries_ok (utxo (cv_base c)) (cv_cacheCoins c)" using assms(1) by (simp add: cache_ok_def)
  have "map_of (cv_cacheCoins c) o' = Some e \<Longrightarrow> entry_ok (utxo (cv_base c) o') e" for e
    using ents by (simp add: entries_ok_def)
  then have e: "entry_ok (utxo (cv_base c) o') ?e'" "overwrite \<or> IsSpent (ce_coin ?e)"
    using assms(3) by (auto simp: entry_ok_def cache_utxo_def overlay_def unspent_def split: option.splits if_splits)
  have "overlay (AList.update o' ?e' (cv_cacheCoins c)) (utxo (cv_base c)) = (cache_utxo utxo c)(o' \<mapsto> coin)"
    using entries_update(2) [OF ents e(1)] assms(2) by (simp add: cache_utxo_def unspent_def)
  moreover have "AddCoin c o' coin overwrite = Done (c\<lparr>cv_cacheCoins := AList.update o' ?e' (cv_cacheCoins c)\<rparr>)"
    using False assms(2) e(2) by (simp add: AddCoin_def Let_def)
  ultimately show ?thesis using False assms(1) entries_update(1) [OF ents e(1)]
    by (simp add: cache_ok_def cache_utxo_def cache_tip_def)
qed

lemma Uncache_law:
  assumes "cache_ok utxo ok c"
  shows "cache_ok utxo ok (Uncache c o') \<and> cache_utxo utxo (Uncache c o') = cache_utxo utxo c \<and> cache_tip tip (Uncache c o') = cache_tip tip c"
proof (cases "\<exists>e. map_of (cv_cacheCoins c) o' = Some e \<and> ce_flags e = 0")
  case True
  then obtain e where e: "map_of (cv_cacheCoins c) o' = Some e" "ce_flags e = 0" by blast
  have ents: "entries_ok (utxo (cv_base c)) (cv_cacheCoins c)" using assms by (simp add: cache_ok_def)
  have "utxo (cv_base c) o' = cache_utxo utxo c o'"
    using ents e by (simp add: entries_ok_def entry_ok_def ce_has_def cache_utxo_def overlay_def)
  then have "overlay (AList.delete o' (cv_cacheCoins c)) (utxo (cv_base c)) = cache_utxo utxo c"
    using entries_delete(2) [OF ents, of o'] by (simp add: cache_utxo_def fun_eq_iff)
  then show ?thesis using e assms entries_delete(1) [OF ents, of o']
    by (simp add: Uncache_def cache_ok_def cache_utxo_def cache_tip_def)
next
  case False
  then have "Uncache c o' = c" by (auto simp: Uncache_def split: option.splits)
  then show ?thesis using assms by simp
qed

lemma GetBestBlock_law:
  assumes "cache_ok utxo ok c"
  shows "\<exists>c'. GetBestBlock best c = (cache_tip tip c, c') \<and> cache_ok utxo ok c' \<and> cache_utxo utxo c' = cache_utxo utxo c \<and> cache_tip tip c' = cache_tip tip c"
  using best_law [of "cv_base c"] assms
  by (auto simp: GetBestBlock_def cache_tip_def cache_ok_def cache_utxo_def)

lemma SetBestBlock_law:
  assumes "cache_ok utxo ok c" "h \<noteq> uint256_null"
  shows "cache_ok utxo ok (SetBestBlock c h) \<and> cache_utxo utxo (SetBestBlock c h) = cache_utxo utxo c \<and> cache_tip tip (SetBestBlock c h) = h"
  using assms by (simp add: SetBestBlock_def cache_ok_def cache_utxo_def cache_tip_def)

lemma Flush_law:
  assumes "cache_ok utxo ok c" "cv_hashBlock c \<noteq> uint256_null"
  shows "\<exists>c'. Flush batch c = Done c' \<and> cache_ok utxo ok c' \<and> cache_utxo utxo c' = cache_utxo utxo c \<and> cache_tip tip c' = cache_tip tip c
    \<and> utxo (cv_base c') = cache_utxo utxo c \<and> tip (cv_base c') = cache_tip tip c \<and> GetCacheSize c' = 0"
proof -
  have ents: "entries_ok (utxo (cv_base c)) (cv_cacheCoins c)" and okb: "ok (cv_base c)"
    using assms(1) by (simp_all add: cache_ok_def)
  from write_law [OF okb entries_fresh [OF ents] assms(2)] obtain b where
    "batch (cv_cacheCoins c) (cv_hashBlock c) (cv_base c) = Done b" "ok b"
    "utxo b = cache_utxo utxo c" "tip b = cv_hashBlock c"
    by (auto simp: overlay_clean [OF ents] cache_utxo_def)
  then show ?thesis using assms(2)
    by (simp add: Flush_def cache_ok_def cache_utxo_def cache_tip_def entries_ok_def overlay_def GetCacheSize_def fun_eq_iff)
qed

lemma HaveCoinInCache_law: "cache_ok utxo ok c \<Longrightarrow> HaveCoinInCache c o' \<Longrightarrow> cache_utxo utxo c o' \<noteq> None"
  by (auto simp: HaveCoinInCache_def cache_utxo_def overlay_def unspent_def split: option.splits)

lemma BatchWrite_law:
  assumes "cache_ok utxo ok c" "fresh_ok (cache_utxo utxo c) m" "h \<noteq> uint256_null"
  shows "\<exists>c'. BatchWrite m h c = Done c' \<and> cache_ok utxo ok c' \<and> cache_utxo utxo c' = written m (cache_utxo utxo c)
    \<and> cache_tip tip c' = h"
  using write_entries_law [of "utxo (cv_base c)" "cv_cacheCoins c" m] assms
  by (auto simp: BatchWrite_def cache_ok_def cache_utxo_def cache_tip_def)

lemma cache_unspent: "cache_ok utxo ok c \<Longrightarrow> cache_utxo utxo c o' = Some coin \<Longrightarrow> \<not> IsSpent coin"
  by (auto simp: cache_ok_def cache_utxo_def overlay_def unspent_def dest: utxo_unspent split: option.splits if_splits)

lemma cache_view: "coins_view (GetCoin get) (GetBestBlock best) BatchWrite (cache_utxo utxo) (cache_tip tip) (cache_ok utxo ok)"
  by unfold_locales (use GetCoin_law GetBestBlock_law BatchWrite_law cache_unspent in blast)+

lemma cache_run_law:
  assumes "cache_ok utxo ok c" "spec_run ops (cache_utxo utxo c) = Some u"
  shows "\<exists>c'. cache_run get ops c = Done c' \<and> cache_ok utxo ok c' \<and> cache_utxo utxo c' = u"
  using assms
proof (induction ops arbitrary: c)
  case (Cons op ops)
  have "\<exists>c'. cache_step get op c = Done c' \<and> cache_ok utxo ok c' \<and> spec_step op (cache_utxo utxo c) = Some (cache_utxo utxo c')"
  proof (cases op)
    case (OpGet o')
    then show ?thesis using GetCoin_law [OF Cons.prems(1), of o'] by auto
  next
    case (OpSpend o')
    then show ?thesis using SpendCoin_law [OF Cons.prems(1), of None o' "()"] by auto
  next
    case (OpAdd o' coin overwrite)
    then show ?thesis using AddCoin_law [OF Cons.prems(1), of coin overwrite o'] Cons.prems(2) by (auto split: if_splits)
  next
    case (OpUncache o')
    then show ?thesis using Uncache_law [OF Cons.prems(1), of o'] by simp
  qed
  then show ?case using Cons by (auto split: option.splits)
qed simp

end

section \<open>The views of a node\<close>

lemma Flush_base: "Flush base_BatchWrite c = Done c' \<Longrightarrow> base_BatchWrite (cv_cacheCoins c) (cv_hashBlock c) (cv_base c) = Done (cv_base c')"
  by (auto simp: Flush_def split: coins_res.splits)

lemma BatchWrite_hash: "BatchWrite m h c = Done c' \<Longrightarrow> cv_hashBlock c' = h"
  by (auto simp: BatchWrite_def split: coins_res.splits)

definition db_tip :: "CCoinsViewDB \<Rightarrow> bytes" where "db_tip db = fst (db_GetBestBlock db)"

text \<open>A database that was not left in the middle of a write.\<close>

definition db_ok :: "CCoinsViewDB \<Rightarrow> bool" where
  "db_ok db \<longleftrightarrow> (\<forall>o' c. db_coins db o' = Some c \<longrightarrow> \<not> IsSpent c) \<and> (db_tip db = uint256_null \<longrightarrow> length (db_GetHeadBlocks db) \<noteq> 2)"

lemma db_BatchWrite_Done:
  assumes "db_write_batches too_big m h db = Done batches" "distinct (map fst m)"
  shows "db_BatchWrite too_big m h db = Done \<lparr>db_coins = written m (db_coins db), db_best_block = Some h, db_head_blocks = None\<rparr>"
  using assms
  by (auto simp: db_BatchWrite_def db_write_batches_def fold_batches db_batches_concat db_write_law split: if_splits)

lemma db_view: "coins_view db_GetCoin db_GetBestBlock (db_BatchWrite too_big) db_coins db_tip db_ok"
proof
  fix b :: CCoinsViewDB and m :: CCoinsMap and h
  assume *: "db_ok b" "fresh_ok (db_coins b) m" "h \<noteq> uint256_null"
  then have "\<exists>batches. db_write_batches too_big m h b = Done batches" by (auto simp: db_write_batches_def db_ok_def db_tip_def)
  then obtain batches where "db_write_batches too_big m h b = Done batches" by blast
  from db_BatchWrite_Done [OF this] have "db_BatchWrite too_big m h b =
    Done \<lparr>db_coins = written m (db_coins b), db_best_block = Some h, db_head_blocks = None\<rparr>" (is "_ = Done ?b")
    using *(2) by (simp add: fresh_ok_def)
  moreover have "db_ok ?b" using *(1,3)
    by (auto simp: db_ok_def db_tip_def db_GetBestBlock_def written_def unspent_def split: option.splits if_splits)
  ultimately show "\<exists>b'. db_BatchWrite too_big m h b = Done b' \<and> db_ok b' \<and> db_coins b' = written m (db_coins b) \<and> db_tip b' = h"
    by (simp add: db_tip_def db_GetBestBlock_def)
qed (simp_all add: db_GetCoin_def db_GetBestBlock_def db_tip_def db_ok_def)

interpretation db: coins_view db_GetCoin db_GetBestBlock "db_BatchWrite too_big" db_coins db_tip db_ok
  for too_big :: "db_op list \<Rightarrow> bool"
  by (rule db_view)

interpretation tip_cache: coins_view "GetCoin db_GetCoin" "GetBestBlock db_GetBestBlock" BatchWrite
  "cache_utxo db_coins" "cache_tip db_tip" "cache_ok db_coins db_ok"
  by (rule db.cache_view)

lemma written_twice: "written m (written (take i m) u) = written m u"
proof
  fix o'
  have "map_of m o' = Some e" if "map_of (take i m) o' = Some e" for e
    using that map_of_append [of "take i m" "drop i m"] by (simp add: map_add_Some_iff)
  then show "written m (written (take i m) u) o' = written m u o'"
    by (auto simp: written_def split: option.splits)
qed

section \<open>Properties\<close>

text \<open>C16: A view over the cache of the tip over the database does what its operations mean: any allowed sequence of them
  on the view, after which the view and then the cache are flushed with a new best block, leaves in the database the
  set of unspent outputs that the sequence makes of the one it held.
\<close>

theorem view_refines_utxo:
  assumes "db_ok db" "spec_run ops (db_coins db) = Some u" "h \<noteq> uint256_null"
  shows "\<exists>view view' tipcache.
    cache_run (GetCoin db_GetCoin) ops (CCoinsViewCache_new (CCoinsViewCache_new db)) = Done view
    \<and> Flush BatchWrite (SetBestBlock view h) = Done view'
    \<and> Flush (db_BatchWrite too_big) (cv_base view') = Done tipcache
    \<and> db_coins (cv_base tipcache) = u \<and> db_tip (cv_base tipcache) = h \<and> db_ok (cv_base tipcache)"
proof -
  let ?v0 = "CCoinsViewCache_new (CCoinsViewCache_new db)"
  have "cache_ok (cache_utxo db_coins) (cache_ok db_coins db_ok) ?v0 \<and> cache_utxo (cache_utxo db_coins) ?v0 = db_coins db"
    using tip_cache.cache_new db.cache_new assms(1) by simp
  then obtain view where view: "cache_run (GetCoin db_GetCoin) ops ?v0 = Done view"
    "cache_ok (cache_utxo db_coins) (cache_ok db_coins db_ok) view" "cache_utxo (cache_utxo db_coins) view = u"
    using tip_cache.cache_run_law assms(2) by metis
  note set = tip_cache.SetBestBlock_law [OF view(2) assms(3)]
  have "cv_hashBlock (SetBestBlock view h) \<noteq> uint256_null" using assms(3) by (simp add: SetBestBlock_def)
  with tip_cache.Flush_law [of "SetBestBlock view h"] set obtain view' where view':
    "Flush BatchWrite (SetBestBlock view h) = Done view'" "cache_ok (cache_utxo db_coins) (cache_ok db_coins db_ok) view'"
    "cache_utxo db_coins (cv_base view') = u" "cache_tip db_tip (cv_base view') = h" using view(3) by metis
  have "cv_hashBlock (cv_base view') = h"
    using BatchWrite_hash [OF Flush_base [OF view'(1)]] by (simp add: SetBestBlock_def)
  then have t: "cache_ok db_coins db_ok (cv_base view')" "cv_hashBlock (cv_base view') \<noteq> uint256_null"
    using view'(2) assms(3) by (simp_all add: cache_ok_def)
  from db.Flush_law [OF t] view'(3,4) obtain tipcache where "Flush (db_BatchWrite too_big) (cv_base view') = Done tipcache"
    "cache_ok db_coins db_ok tipcache" "db_coins (cv_base tipcache) = u" "db_tip (cv_base tipcache) = h" by metis
  then show ?thesis using view(1) view'(1) by (auto simp: cache_ok_def [of db_coins])
qed

text \<open>C17: A write of a cache to the database that stops between two batches can be recognised and repeated: the database
  has no best block, its head blocks are the new and the old one, every coin is as before or as it is to be, and the
  same write brings it to the state that the uninterrupted write reaches.
\<close>

theorem db_crash_safe:
  assumes "db_ok db" "distinct (map fst m)" "db_write_batches too_big m h db = Done batches"
    "0 < j" "j < length batches" "crashed = fold WriteBatch (take j batches) db"
  shows "db_tip crashed = uint256_null \<and> db_GetHeadBlocks crashed = [h, db_tip db]
    \<and> (\<forall>o'. db_coins crashed o' = db_coins db o' \<or> db_coins crashed o' = written m (db_coins db) o')
    \<and> db_BatchWrite too_big' m h crashed = db_BatchWrite too_big m h db"
proof -
  have h: "h \<noteq> uint256_null" and b: "batches = db_batches too_big h [EraseBestBlock, WriteHeadBlocks [h, db_old_tip db]] m"
    using assms(3) by (auto simp: db_write_batches_def split: if_splits)
  obtain i where i: "concat (take j batches) = [EraseBestBlock, WriteHeadBlocks [h, db_old_tip db]] @ concat (map entry_ops (take i m))"
    using db_batches_prefix assms(4,5) unfolding b by blast
  have "distinct (map fst (take i m))" using assms(2) by (metis distinct_take take_map)
  then have c: "crashed = \<lparr>db_coins = written (take i m) (db_coins db), db_best_block = None, db_head_blocks = Some [h, db_old_tip db]\<rparr>"
    using i by (simp add: assms(6) fold_batches db_write_law)
  have "db_old_tip db = db_tip db" using assms(1) by (auto simp: db_old_tip_def db_ok_def db_tip_def)
  moreover have "db_write_batches too_big' m h crashed = Done (db_batches too_big' h [EraseBestBlock, WriteHeadBlocks [h, db_old_tip db]] m)"
    using h by (simp add: c db_write_batches_def db_GetBestBlock_def db_GetHeadBlocks_def)
      (simp add: db_old_tip_def db_GetBestBlock_def db_GetHeadBlocks_def)
  moreover have "map_of (take i m) o' = Some e \<Longrightarrow> map_of m o' = Some e" for o' e
    using map_of_append [of "take i m" "drop i m"] by (simp add: map_add_Some_iff)
  then have "written (take i m) u o' = u o' \<or> written (take i m) u o' = written m u o'" for u o'
    by (auto simp: written_def split: option.splits)
  ultimately show ?thesis using db_BatchWrite_Done [OF _ assms(2)] assms(3)
    by (simp add: c written_twice db_tip_def db_GetBestBlock_def db_GetHeadBlocks_def)
qed

section \<open>Witnesses\<close>

definition demo_out :: CTxOut where "demo_out = \<lparr>txo_nValue = 5, txo_scriptPubKey = [0x51]\<rparr>"
definition demo_point :: "u32 \<Rightarrow> COutPoint" where "demo_point n = \<lparr>outp_hash = replicate 32 1, outp_n = n\<rparr>"
definition demo_utxo_coin :: Coin where "demo_utxo_coin = \<lparr>coin_out = demo_out, coin_fCoinBase = False, coin_nHeight = 7\<rparr>"
definition demo_db :: CCoinsViewDB where
  "demo_db = \<lparr>db_coins = [demo_point 0 \<mapsto> demo_utxo_coin], db_best_block = Some (replicate 32 2), db_head_blocks = None\<rparr>"
definition demo_ops :: "coins_op list" where
  "demo_ops = [OpGet (demo_point 0), OpAdd (demo_point 1) demo_utxo_coin False, OpSpend (demo_point 0), OpUncache (demo_point 1)]"

lemma demo_coin_facts [simp]: "\<not> IsSpent demo_utxo_coin" "\<not> IsUnspendable (txo_scriptPubKey (coin_out demo_utxo_coin))"
  by (simp_all add: demo_utxo_coin_def demo_out_def IsSpent_def CTxOut_IsNull_def) code_simp

lemma demo_points [simp]: "demo_point 0 \<noteq> demo_point 1" "demo_point 1 \<noteq> demo_point 0"
  by (simp_all add: demo_point_def)

lemma demo_hash [simp]: "replicate 32 (3 :: u8) \<noteq> uint256_null" "replicate 32 (2 :: u8) \<noteq> uint256_null"
  by (simp_all add: uint256_null_def replicate_eq_replicate)

lemma demo_db_ok: "db_ok demo_db"
  by (simp add: db_ok_def demo_db_def db_tip_def db_GetBestBlock_def)

theorem view_refines_utxo_witness:
  "\<exists>view view' tipcache.
    cache_run (GetCoin db_GetCoin) demo_ops (CCoinsViewCache_new (CCoinsViewCache_new demo_db)) = Done view
    \<and> Flush BatchWrite (SetBestBlock view (replicate 32 3)) = Done view'
    \<and> Flush (db_BatchWrite (\<lambda>_. True)) (cv_base view') = Done tipcache
    \<and> db_coins (cv_base tipcache) = [demo_point 1 \<mapsto> demo_utxo_coin]"
proof -
  have "spec_run demo_ops (db_coins demo_db) = Some [demo_point 1 \<mapsto> demo_utxo_coin]"
    by (simp add: demo_ops_def demo_db_def fun_upd_twist fun_eq_iff)
  from view_refines_utxo [OF demo_db_ok this demo_hash(1)] show ?thesis by blast
qed

theorem db_crash_safe_witness:
  "\<exists>crashed. db_tip crashed = uint256_null \<and> db_GetHeadBlocks crashed = [replicate 32 3, replicate 32 2]
    \<and> db_BatchWrite (\<lambda>_. False) [(demo_point 1, \<lparr>ce_coin = demo_utxo_coin, ce_flags = DIRTY\<rparr>)] (replicate 32 3) crashed
      = db_BatchWrite (\<lambda>_. True) [(demo_point 1, \<lparr>ce_coin = demo_utxo_coin, ce_flags = DIRTY\<rparr>)] (replicate 32 3) demo_db"
proof -
  let ?m = "[(demo_point 1, \<lparr>ce_coin = demo_utxo_coin, ce_flags = DIRTY\<rparr>)]"
  have b: "db_write_batches (\<lambda>_. True) ?m (replicate 32 3) demo_db =
    Done [[EraseBestBlock, WriteHeadBlocks [replicate 32 3, replicate 32 2], WriteCoin (demo_point 1) demo_utxo_coin],
      [EraseHeadBlocks, WriteBestBlock (replicate 32 3)]]"
    by (simp add: db_write_batches_def demo_db_def db_GetBestBlock_def db_old_tip_def entry_ops_def)
  have t: "db_tip demo_db = replicate 32 2" by (simp add: db_tip_def demo_db_def db_GetBestBlock_def)
  have d: "distinct (map fst ?m)" by simp
  show ?thesis using db_crash_safe [OF demo_db_ok d b, of 1, OF _ _ refl, of "\<lambda>_. False"] unfolding t by force
qed

end
