(* ===== verification/Base58.thy ===== *)
theory Base58
  imports Prelude
begin

text \<open>
  Base 58 (\<open>src/src/base58.cpp\<close>): the conversion between bytes and the text of addresses and keys, in which a number is
  converted between bases digit by digit in a buffer of fixed size, and the variant with a checksum. A digit vector is
  kept with the last digit first, the order in which the loops run through it. \<^term>\<open>None\<close> as the outer result is a failed
  assertion.
\<close>

section \<open>Conversion of bases\<close>

text \<open>The loop \<open>b = b * M + carry\<close> on the digits in base \<open>B\<close>: the digits, the carry that is left and the number of steps.\<close>

primrec mul_add :: "nat \<Rightarrow> nat \<Rightarrow> nat \<Rightarrow> nat \<Rightarrow> nat \<Rightarrow> nat list \<Rightarrow> nat list \<times> nat \<times> nat" where
  "mul_add M B len carry i [] = ([], carry, i)"
| "mul_add M B len carry i (d # ds) =
     (if carry \<noteq> 0 \<or> i < len
      then case mul_add M B len ((carry + M * d) div B) (i + 1) ds of (ds', c, i') \<Rightarrow> ((carry + M * d) mod B # ds', c, i')
      else (d # ds, carry, i))"

primrec convert_loop :: "nat \<Rightarrow> nat \<Rightarrow> nat list \<Rightarrow> nat list \<Rightarrow> nat \<Rightarrow> (nat list \<times> nat) option" where
  "convert_loop M B [] b len = Some (b, len)"
| "convert_loop M B (c # cs) b len =
     (case mul_add M B len c 0 b of (b', carry, i) \<Rightarrow> if carry \<noteq> 0 then None else convert_loop M B cs b' i)"

text \<open>The digits that are used, the first one first, without leading zeros.\<close>

definition used_digits :: "nat list \<Rightarrow> nat \<Rightarrow> nat list" where
  "used_digits b len = dropWhile (\<lambda>d. d = 0) (rev (take len b))"

definition pszBase58 :: bytes where
  "pszBase58 = map of_char ''123456789ABCDEFGHJKLMNPQRSTUVWXYZabcdefghijkmnopqrstuvwxyz''"

definition EncodeBase58 :: "bytes \<Rightarrow> bytes option" where
  "EncodeBase58 vch =
     (let zeroes = length (takeWhile (\<lambda>c. c = 0) vch);
          rest = dropWhile (\<lambda>c. c = 0) vch;
          size = length rest * 138 div 100 + 1
      in case convert_loop 256 58 (map unat rest) (replicate size 0) 0 of
           None \<Rightarrow> None
         | Some (b58, len) \<Rightarrow> Some (replicate zeroes (pszBase58 ! 0) @ map ((!) pszBase58) (used_digits b58 len)))"

text \<open>\<open>isspace\<close> in the C locale.\<close>

definition isspace :: "u8 \<Rightarrow> bool" where
  "isspace c \<longleftrightarrow> c = 32 \<or> 9 \<le> c \<and> c \<le> 13"

primrec find_index :: "u8 \<Rightarrow> bytes \<Rightarrow> nat option" where
  "find_index c [] = None"
| "find_index c (x # xs) = (if x = c then Some 0 else map_option Suc (find_index c xs))"

text \<open>
  The loop of the decoder stops at a character that is not in the alphabet, with the result false. The inner option is
  the result, the outer one the assertion.
\<close>

primrec decode_loop :: "bytes \<Rightarrow> nat list \<Rightarrow> nat \<Rightarrow> (nat list \<times> nat) option option" where
  "decode_loop [] b len = Some (Some (b, len))"
| "decode_loop (p # psz) b len =
     (case find_index p pszBase58 of
        None \<Rightarrow> Some None
      | Some ch \<Rightarrow>
          (case mul_add 58 256 len ch 0 b of (b', carry, i) \<Rightarrow> if carry \<noteq> 0 then None else decode_loop psz b' i))"

definition DecodeBase58 :: "bytes \<Rightarrow> bytes option option" where
  "DecodeBase58 str =
     (let psz = dropWhile isspace (takeWhile (\<lambda>c. c \<noteq> 0) str);
          zeroes = length (takeWhile (\<lambda>c. c = pszBase58 ! 0) psz);
          psz = dropWhile (\<lambda>c. c = pszBase58 ! 0) psz;
          size = length psz * 733 div 1000 + 1
      in case decode_loop (takeWhile (\<lambda>c. \<not> isspace c) psz) (replicate size 0) 0 of
           None \<Rightarrow> None
         | Some None \<Rightarrow> Some None
         | Some (Some (b256, len)) \<Rightarrow>
             if dropWhile isspace (dropWhile (\<lambda>c. \<not> isspace c) psz) \<noteq> [] then Some None
             else Some (Some (replicate zeroes 0 @ map word_of_nat (used_digits b256 len))))"

section \<open>With a checksum\<close>

definition EncodeBase58Check :: "(bytes \<Rightarrow> bytes) \<Rightarrow> bytes \<Rightarrow> bytes option" where
  "EncodeBase58Check hash256 vchIn = EncodeBase58 (vchIn @ take 4 (hash256 vchIn))"

definition DecodeBase58Check :: "(bytes \<Rightarrow> bytes) \<Rightarrow> bytes \<Rightarrow> bytes option option" where
  "DecodeBase58Check hash256 psz =
     (case DecodeBase58 psz of
        None \<Rightarrow> None
      | Some None \<Rightarrow> Some None
      | Some (Some vch) \<Rightarrow>
          if length vch < 4 then Some None
          else let body = take (length vch - 4) vch
               in if take 4 (hash256 body) \<noteq> drop (length vch - 4) vch then Some None else Some (Some body))"

section \<open>Numbers and digits\<close>

primrec dval :: "nat \<Rightarrow> nat list \<Rightarrow> nat" where
  "dval B [] = 0"
| "dval B (d # ds) = d + B * dval B ds"

lemma dval_append: "dval B (xs @ ys) = dval B xs + B ^ length xs * dval B ys"
  by (induction xs) (simp_all add: algebra_simps)

lemma dval_zeros [simp]: "dval B (replicate n 0) = 0"
  by (induction n) simp_all

lemma dval_less: "list_all (\<lambda>d. d < B) ds \<Longrightarrow> dval B ds < B ^ length ds"
proof (induction ds)
  case (Cons d ds)
  then have "Suc (dval B ds) \<le> B ^ length ds" by simp
  then have "B * Suc (dval B ds) \<le> B * B ^ length ds" by (rule mult_le_mono2)
  then show ?case using Cons.prems by simp
qed simp

lemma dval_inj:
  assumes "list_all (\<lambda>d. d < B) xs" "list_all (\<lambda>d. d < B) ys" "length xs = length ys" "dval B xs = dval B ys"
  shows "xs = ys"
  using assms(3,1,2,4)
proof (induction xs ys rule: list_induct2)
  case (Cons x xs y ys)
  have "(x + B * dval B xs) mod B = (y + B * dval B ys) mod B" "(x + B * dval B xs) div B = (y + B * dval B ys) div B"
    using Cons.prems(3) by simp_all
  then show ?case using Cons by simp
qed simp

text \<open>A buffer whose digits from a position on are zero.\<close>

definition digits_ok :: "nat \<Rightarrow> nat list \<Rightarrow> nat \<Rightarrow> bool" where
  "digits_ok B b len \<longleftrightarrow> list_all (\<lambda>d. d < B) b \<and> list_all (\<lambda>d. d = 0) (drop len b) \<and> len \<le> length b"

lemma zero_digits: "list_all (\<lambda>d. d = 0) ds \<Longrightarrow> dval B ds = 0"
  by (induction ds) auto

lemma mul_add_law:
  assumes "mul_add M B len carry i ds = (ds', c, i')" "0 < B" "list_all (\<lambda>d. d < B) ds"
    "list_all (\<lambda>d. d = 0) (drop (len - i) ds)" "len - i \<le> length ds"
  shows "list_all (\<lambda>d. d < B) ds' \<and> length ds' = length ds \<and> dval B ds' + B ^ length ds * c = carry + M * dval B ds
    \<and> i \<le> i' \<and> i' \<le> i + length ds \<and> len \<le> i' \<and> list_all (\<lambda>d. d = 0) (drop (i' - i) ds')"
  using assms
proof (induction ds arbitrary: carry i ds' c i')
  case Nil
  then show ?case by simp
next
  case (Cons d ds)
  show ?case
  proof (cases "carry \<noteq> 0 \<or> i < len")
    case True
    obtain ds2 c2 i2 where r: "mul_add M B len ((carry + M * d) div B) (i + 1) ds = (ds2, c2, i2)" by (metis surj_pair)
    have eqs: "ds' = (carry + M * d) mod B # ds2" "c = c2" "i' = i2" using Cons.prems(1) True r by simp_all
    have "len - i = 0 \<and> len - (i + 1) = 0 \<or> len - i = Suc (len - (i + 1))" by linarith
    then have "list_all (\<lambda>d. d = 0) (drop (len - (i + 1)) ds)" "len - (i + 1) \<le> length ds"
      using Cons.prems(4,5) by auto
    then have IH: "list_all (\<lambda>d. d < B) ds2" "length ds2 = length ds"
      "dval B ds2 + B ^ length ds * c2 = (carry + M * d) div B + M * dval B ds" "i + 1 \<le> i2" "i2 \<le> i + 1 + length ds" "len \<le> i2"
      "list_all (\<lambda>d. d = 0) (drop (i2 - (i + 1)) ds2)"
      using Cons.IH [OF r Cons.prems(2)] Cons.prems(3) by simp_all
    have "B * (dval B ds2 + B ^ length ds * c2) = B * ((carry + M * d) div B) + B * (M * dval B ds)"
      unfolding IH(3) by (simp only: distrib_left)
    moreover have "(carry + M * d) mod B + B * ((carry + M * d) div B) = carry + M * d" by simp
    ultimately have "dval B ds' + B ^ length (d # ds) * c = carry + M * dval B (d # ds)" by (simp only: eqs dval.simps list.size add_0_right power_Suc add_Suc_right distrib_left mult.assoc mult.left_commute [of B])
    moreover have "drop (i' - i) ds' = drop (i2 - (i + 1)) ds2" using IH(4) by (simp add: eqs Suc_diff_le drop_Cons')
    ultimately show ?thesis using IH Cons.prems(2) by (simp add: eqs)
  next
    case False
    then have "ds' = d # ds" "c = 0" "i' = i" "carry = 0" "len \<le> i" using Cons.prems(1) by simp_all
    moreover have "list_all (\<lambda>d. d = 0) (d # ds)" using Cons.prems(4) \<open>len \<le> i\<close> by simp
    ultimately show ?thesis using Cons.prems(3) zero_digits [of "d # ds" B] by simp
  qed
qed

lemma convert_step_bound:
  fixes v :: nat
  assumes "(v + 1) * M ^ Suc k \<le> N" "c < M"
  shows "c + M * v < N" "(c + M * v + 1) * M ^ k \<le> N"
proof -
  have "c + M * v + 1 \<le> M * (v + 1)" using assms(2) by (simp add: algebra_simps)
  then have *: "(c + M * v + 1) * M ^ k \<le> (M * (v + 1)) * M ^ k" by (rule mult_le_mono1)
  then show le: "(c + M * v + 1) * M ^ k \<le> N" using assms(1) by (simp add: algebra_simps)
  have "1 \<le> M ^ k" using assms(2) by simp
  then have "(c + M * v + 1) * 1 \<le> (c + M * v + 1) * M ^ k" by (rule mult_le_mono2)
  from le_trans [OF this le] show "c + M * v < N" by simp
qed

lemma convert_loop_law:
  assumes "digits_ok B b len" "list_all (\<lambda>c. c < M) cs" "0 < B" "(dval B b + 1) * M ^ length cs \<le> B ^ length b"
  shows "\<exists>b' len'. convert_loop M B cs b len = Some (b', len') \<and> digits_ok B b' len' \<and> length b' = length b
    \<and> dval B b' = dval B b * M ^ length cs + dval M (rev cs)"
  using assms
proof (induction cs arbitrary: b len)
  case (Cons c cs)
  obtain b1 k i where m: "mul_add M B len c 0 b = (b1, k, i)" by (metis surj_pair)
  have law: "list_all (\<lambda>d. d < B) b1" "length b1 = length b" "dval B b1 + B ^ length b * k = c + M * dval B b"
    "i \<le> length b" "list_all (\<lambda>d. d = 0) (drop i b1)"
    using mul_add_law [OF m Cons.prems(3)] Cons.prems(1) by (simp_all add: digits_ok_def)
  have bnd: "c + M * dval B b < B ^ length b" "(c + M * dval B b + 1) * M ^ length cs \<le> B ^ length b"
    using convert_step_bound [of "dval B b" M "length cs" "B ^ length b" c] Cons.prems(2,4) by simp_all
  have "k = 0"
  proof (rule ccontr)
    assume "k \<noteq> 0"
    then have "B ^ length b * 1 \<le> B ^ length b * k" by (intro mult_le_mono2) simp
    then show False using law(3) bnd(1) by linarith
  qed
  then have v: "dval B b1 = c + M * dval B b" using law(3) by simp
  have "digits_ok B b1 i" using law by (simp add: digits_ok_def)
  from Cons.IH [OF this _ Cons.prems(3)] Cons.prems(2) bnd(2) law(2)
  obtain b' len' where "convert_loop M B cs b1 i = Some (b', len')" "digits_ok B b' len'" "length b' = length b"
    "dval B b' = (c + M * dval B b) * M ^ length cs + dval M (rev cs)" unfolding v by auto
  then show ?case using \<open>k = 0\<close> by (simp add: m dval_append algebra_simps)
qed simp

text \<open>A number written with the first digit first and without leading zeros.\<close>

definition normal_digits :: "nat \<Rightarrow> nat list \<Rightarrow> bool" where
  "normal_digits B ds \<longleftrightarrow> list_all (\<lambda>d. d < B) ds \<and> (ds \<noteq> [] \<longrightarrow> hd ds \<noteq> 0)"

lemma normal_lower: "normal_digits B (d # ds) \<Longrightarrow> B ^ length ds \<le> dval B (rev (d # ds))"
  by (cases d) (simp_all add: normal_digits_def dval_append)

lemma normal_upper: "normal_digits B ds \<Longrightarrow> dval B (rev ds) < B ^ length ds"
  using dval_less [of B "rev ds"] by (simp add: normal_digits_def)

lemma normal_length:
  assumes "normal_digits B xs" "normal_digits B ys" "dval B (rev xs) = dval B (rev ys)" "1 < B"
  shows "length xs \<le> length ys"
proof (cases xs)
  case (Cons d ds)
  then have "B ^ length ds < B ^ length ys"
    using normal_lower [of B d ds] normal_upper [of B ys] assms(1-3) by simp
  then show ?thesis using Cons assms(4) by simp
qed simp

lemma normal_unique:
  assumes "normal_digits B xs" "normal_digits B ys" "dval B (rev xs) = dval B (rev ys)" "1 < B"
  shows "xs = ys"
proof -
  have "length xs = length ys" using normal_length assms by (metis order_antisym)
  then have "rev xs = rev ys"
    using dval_inj [of B "rev xs" "rev ys"] assms by (simp add: normal_digits_def)
  then show ?thesis by simp
qed

lemma dval_dropWhile: "dval B (rev (dropWhile (\<lambda>d. d = 0) ds)) = dval B (rev ds)"
  by (induction ds) (simp_all add: dval_append)

lemma used_digits_law:
  assumes "digits_ok B b len"
  shows "normal_digits B (used_digits b len)" "dval B (rev (used_digits b len)) = dval B b"
proof -
  have "list_all (\<lambda>d. d < B) (used_digits b len)"
    using assms by (auto simp: digits_ok_def used_digits_def list_all_iff dest!: set_dropWhileD in_set_takeD)
  then show "normal_digits B (used_digits b len)"
    using hd_dropWhile [of "\<lambda>d. d = 0" "rev (take len b)"] unfolding normal_digits_def used_digits_def by blast
  have "dval B (take len b @ drop len b) = dval B (take len b)"
    using assms zero_digits [of "drop len b" B] by (simp only: dval_append digits_ok_def)
  then show "dval B (rev (used_digits b len)) = dval B b"
    unfolding used_digits_def dval_dropWhile by simp
qed

text \<open>The conversion in a buffer that is large enough: it does not fail, and gives the number in the other base.\<close>

lemma convert_digits:
  assumes "list_all (\<lambda>c. c < M) cs" "1 < B" "M ^ length cs \<le> B ^ n"
  shows "\<exists>b len. convert_loop M B cs (replicate n 0) 0 = Some (b, len) \<and> normal_digits B (used_digits b len)
    \<and> dval B (rev (used_digits b len)) = dval M (rev cs)"
proof -
  have "digits_ok B (replicate n 0) 0" using assms(2) by (simp add: digits_ok_def list_all_iff)
  from convert_loop_law [OF this assms(1)] assms(2,3) used_digits_law show ?thesis by fastforce
qed

lemma power_scale:
  fixes a b :: nat
  assumes "a ^ p \<le> b ^ q" "n * q \<le> m * p" "0 < p" "0 < b"
  shows "a ^ n \<le> b ^ m"
proof -
  have "(a ^ n) ^ p = (a ^ p) ^ n" by (simp add: power_mult [symmetric] mult.commute)
  also have "\<dots> \<le> (b ^ q) ^ n" using assms(1) by (rule power_mono) simp
  also have "\<dots> = b ^ (n * q)" by (simp add: power_mult [symmetric] mult.commute)
  also have "\<dots> \<le> b ^ (m * p)" using assms(2,4) by (intro power_increasing) simp_all
  also have "\<dots> = (b ^ m) ^ p" by (simp add: power_mult)
  finally have "(a ^ n) ^ p \<le> (b ^ m) ^ p" .
  then show ?thesis using assms(3) by (simp add: power_mono_iff)
qed

lemma encode_size: "(256 :: nat) ^ n \<le> 58 ^ (n * 138 div 100 + 1)"
proof (rule power_scale)
  show "(256 :: nat) ^ 100 \<le> 58 ^ 138" by simp
qed simp_all

lemma decode_size: "(58 :: nat) ^ n \<le> 256 ^ (n * 733 div 1000 + 1)"
proof (rule power_scale)
  show "(58 :: nat) ^ 71 \<le> 256 ^ 52" by simp
  have "n * 52 \<le> (q + 1) * 71" if "q * 1000 + r = n * 733" "r < 1000" for q r
  proof -
    have "733 * (n * 52) = 52 * (q * 1000 + r)" using that(1) by simp
    also have "\<dots> \<le> 52043 * q + 51948" using that(2) by simp
    also have "\<dots> \<le> 733 * ((q + 1) * 71)" by simp
    finally show ?thesis by simp
  qed
  then show "n * 52 \<le> (n * 733 div 1000 + 1) * 71" using div_mult_mod_eq [of "n * 733" 1000] by simp
qed simp_all

section \<open>The alphabet\<close>

lemma alphabet_length [simp]: "length pszBase58 = 58"
  by (simp add: pszBase58_def)

lemma alphabet_distinct: "distinct pszBase58"
  by code_simp

lemma alphabet_plain: "list_all (\<lambda>c. \<not> isspace c \<and> c \<noteq> 0) pszBase58"
  by code_simp

lemma find_index_Some: "find_index c xs = Some i \<Longrightarrow> i < length xs \<and> xs ! i = c"
  by (induction xs arbitrary: i) (auto split: if_splits)

lemma find_index_None: "find_index c xs = None \<longleftrightarrow> c \<notin> set xs"
  by (induction xs) auto

lemma find_index_nth: "distinct xs \<Longrightarrow> i < length xs \<Longrightarrow> find_index (xs ! i) xs = Some i"
  by (induction xs arbitrary: i) (auto simp: nth_Cons split: nat.splits)

abbreviation char_digit :: "u8 \<Rightarrow> nat" where
  "char_digit c \<equiv> the (find_index c pszBase58)"

lemma char_digit_law:
  assumes "c \<in> set pszBase58"
  shows "char_digit c < 58" "pszBase58 ! char_digit c = c"
  using assms find_index_None [of c pszBase58] find_index_Some [of c pszBase58] by auto

lemma char_digit_zero: "c \<in> set pszBase58 \<Longrightarrow> char_digit c = 0 \<longleftrightarrow> c = pszBase58 ! 0"
  using char_digit_law(2) [of c] find_index_nth [OF alphabet_distinct, of 0] by auto

lemma map_char_digit: "set cs \<subseteq> set pszBase58 \<Longrightarrow> map ((!) pszBase58) (map char_digit cs) = cs"
  by (induction cs) (simp_all add: char_digit_law)

lemma alphabet_no_space: "c \<in> set pszBase58 \<Longrightarrow> \<not> isspace c \<and> c \<noteq> 0"
  using alphabet_plain by (auto simp: list_all_iff)

section \<open>What the routines compute\<close>

lemma split_at: "\<exists>n rest. xs = replicate n a @ rest \<and> (rest \<noteq> [] \<longrightarrow> hd rest \<noteq> a)"
proof (induction xs)
  case (Cons x xs)
  then obtain n rest where r: "xs = replicate n a @ rest" "rest \<noteq> [] \<longrightarrow> hd rest \<noteq> a" by blast
  show ?case
  proof (cases "x = a")
    case True
    then have "x # xs = replicate (Suc n) a @ rest" using r(1) by simp
    then show ?thesis using r(2) by blast
  next
    case False
    then show ?thesis by (intro exI [of _ 0] exI [of _ "x # xs"]) simp
  qed
qed simp

lemma while_replicate:
  assumes "P a"
  shows "takeWhile P (replicate n a @ xs) = replicate n a @ takeWhile P xs" "dropWhile P (replicate n a @ xs) = dropWhile P xs"
  using assms by (induction n) simp_all

lemma strip_split:
  assumes "rest \<noteq> [] \<longrightarrow> hd rest \<noteq> a"
  shows "takeWhile (\<lambda>c. c = a) (replicate n a @ rest) = replicate n a" "dropWhile (\<lambda>c. c = a) (replicate n a @ rest) = rest"
  using assms by (cases rest; simp add: while_replicate)+

lemma EncodeBase58_law:
  assumes "rest \<noteq> [] \<longrightarrow> hd rest \<noteq> (0 :: u8)"
  shows "\<exists>ds. EncodeBase58 (replicate n 0 @ rest) = Some (replicate n (pszBase58 ! 0) @ map ((!) pszBase58) ds)
    \<and> normal_digits 58 ds \<and> dval 58 (rev ds) = dval 256 (rev (map unat rest))"
proof -
  have "list_all (\<lambda>c. c < 256) (map unat rest)"
    using unsigned_less [where 'b = 8 and 'a = nat] by (simp add: list_all_iff)
  then obtain b len where "convert_loop 256 58 (map unat rest) (replicate (length rest * 138 div 100 + 1) 0) 0 = Some (b, len)"
    "normal_digits 58 (used_digits b len)" "dval 58 (rev (used_digits b len)) = dval 256 (rev (map unat rest))"
    using convert_digits [of 256 "map unat rest" 58 "length rest * 138 div 100 + 1"] encode_size [of "length rest"] by auto
  then show ?thesis unfolding EncodeBase58_def Let_def strip_split [OF assms] by auto
qed

lemma decode_loop_convert:
  assumes "convert_loop 58 256 (map char_digit (takeWhile (\<lambda>c. c \<in> set pszBase58) psz)) b len = Some r"
  shows "decode_loop psz b len = Some (if set psz \<subseteq> set pszBase58 then Some r else None)"
  using assms
proof (induction psz arbitrary: b len)
  case (Cons p psz)
  show ?case
  proof (cases "find_index p pszBase58")
    case None
    then show ?thesis using find_index_None [of p pszBase58] by simp
  next
    case (Some i)
    then have "p \<in> set pszBase58" using find_index_None [of p pszBase58] by auto
    obtain b' k n where m: "mul_add 58 256 len i 0 b = (b', k, n)" by (metis surj_pair)
    have "k = 0" "convert_loop 58 256 (map char_digit (takeWhile (\<lambda>c. c \<in> set pszBase58) psz)) b' n = Some r"
      using Cons.prems \<open>p \<in> set pszBase58\<close> by (simp_all add: Some m split: if_splits)
    then show ?thesis using Cons.IH \<open>p \<in> set pszBase58\<close> by (simp add: Some m)
  qed
qed simp

text \<open>
  The text between the white space: it is decoded when all its characters are in the alphabet and only white space
  follows, and then it is the encoding of the result.
\<close>

definition decode_body :: "bytes \<Rightarrow> bytes" where
  "decode_body str = takeWhile (\<lambda>c. \<not> isspace c) (dropWhile isspace (takeWhile (\<lambda>c. c \<noteq> 0) str))"

definition decode_tail :: "bytes \<Rightarrow> bytes" where
  "decode_tail str = dropWhile (\<lambda>c. \<not> isspace c) (dropWhile isspace (takeWhile (\<lambda>c. c \<noteq> 0) str))"

lemma normal_text:
  assumes "set cs \<subseteq> set pszBase58" "cs \<noteq> [] \<longrightarrow> hd cs \<noteq> pszBase58 ! 0"
  shows "normal_digits 58 (map char_digit cs)"
  using assms char_digit_law(1) char_digit_zero
  by (cases cs) (auto simp: normal_digits_def list_all_iff)

lemma encode_decoded:
  assumes "normal_digits 256 ds" "dval 256 (rev ds) = dval 58 (rev (map char_digit cs))"
    "set cs \<subseteq> set pszBase58" "cs \<noteq> [] \<longrightarrow> hd cs \<noteq> pszBase58 ! 0"
  shows "EncodeBase58 (replicate z 0 @ map word_of_nat ds) = Some (replicate z (pszBase58 ! 0) @ cs)"
proof -
  have small: "list_all (\<lambda>d. d < 256) ds" using assms(1) by (simp add: normal_digits_def)
  then have id: "map unat (map (word_of_nat :: nat \<Rightarrow> u8) ds) = ds"
    by (induction ds) (simp_all add: unat_of_nat take_bit_nat_eq_self)
  then have "ds \<noteq> [] \<longrightarrow> hd (map word_of_nat ds) \<noteq> (0 :: u8)"
    using assms(1) by (cases ds) (auto simp: normal_digits_def)
  then obtain es where es: "EncodeBase58 (replicate z 0 @ map word_of_nat ds)
      = Some (replicate z (pszBase58 ! 0) @ map ((!) pszBase58) es)" "normal_digits 58 es" "dval 58 (rev es) = dval 256 (rev ds)"
    using EncodeBase58_law [of "map word_of_nat ds" z] unfolding id by auto
  then have "es = map char_digit cs"
    using normal_unique [OF es(2) normal_text [OF assms(3,4)]] assms(2) by simp
  then show ?thesis using es(1) map_char_digit [OF assms(3)] by simp
qed

lemma DecodeBase58_law:
  "\<exists>v. DecodeBase58 str = Some (if set (decode_body str) \<subseteq> set pszBase58 \<and> dropWhile isspace (decode_tail str) = [] then Some v else None)
    \<and> (set (decode_body str) \<subseteq> set pszBase58 \<longrightarrow> EncodeBase58 v = Some (decode_body str))"
proof -
  obtain z p where p: "dropWhile isspace (takeWhile (\<lambda>c. c \<noteq> 0) str) = replicate z (pszBase58 ! 0) @ p"
    "p \<noteq> [] \<longrightarrow> hd p \<noteq> pszBase58 ! 0" using split_at by metis
  define q where "q = takeWhile (\<lambda>c. \<not> isspace c) p"
  define v where "v = takeWhile (\<lambda>c. c \<in> set pszBase58) q"
  have one: "pszBase58 ! 0 \<in> set pszBase58" by simp
  then have bt: "decode_body str = replicate z (pszBase58 ! 0) @ q" "decode_tail str = dropWhile (\<lambda>c. \<not> isspace c) p"
    using alphabet_no_space [OF one] unfolding decode_body_def decode_tail_def p(1) q_def
    by (simp_all add: while_replicate)
  have "length v \<le> length p" unfolding v_def q_def using length_takeWhile_le le_trans by blast
  then have "(58 :: nat) ^ length v \<le> 58 ^ length p" by (rule power_increasing) simp
  from le_trans [OF this decode_size] have "(58 :: nat) ^ length v \<le> 256 ^ (length p * 733 div 1000 + 1)" .
  moreover have "list_all (\<lambda>c. c < 58) (map char_digit v)"
    using char_digit_law(1) by (auto simp: v_def list_all_iff dest: set_takeWhileD)
  ultimately obtain b len where c: "convert_loop 58 256 (map char_digit v) (replicate (length p * 733 div 1000 + 1) 0) 0 = Some (b, len)"
    "normal_digits 256 (used_digits b len)" "dval 256 (rev (used_digits b len)) = dval 58 (rev (map char_digit v))"
    using convert_digits [of 58 "map char_digit v" 256 "length p * 733 div 1000 + 1"] by auto
  have dl: "decode_loop q (replicate (length p * 733 div 1000 + 1) 0) 0 = Some (if set q \<subseteq> set pszBase58 then Some (b, len) else None)"
    by (rule decode_loop_convert [OF c(1) [unfolded v_def]])
  have "DecodeBase58 str = Some (if set q \<subseteq> set pszBase58 \<and> dropWhile isspace (decode_tail str) = []
      then Some (replicate z 0 @ map word_of_nat (used_digits b len)) else None)"
    unfolding DecodeBase58_def Let_def p(1) strip_split [OF p(2)] bt(2) q_def [symmetric] dl
    by (cases "set q \<subseteq> set pszBase58"; cases "dropWhile isspace (dropWhile (\<lambda>c. \<not> isspace c) p) = []";
        simp only: option.case prod.case length_replicate simp_thms if_True if_False)
  moreover have "set (decode_body str) \<subseteq> set pszBase58 \<longleftrightarrow> set q \<subseteq> set pszBase58" using one by (auto simp: bt(1))
  moreover have "EncodeBase58 (replicate z 0 @ map word_of_nat (used_digits b len)) = Some (decode_body str)"
    if "set q \<subseteq> set pszBase58"
  proof -
    have "v = q" using that by (auto simp: v_def takeWhile_eq_all_conv)
    moreover have "q \<noteq> [] \<longrightarrow> hd q \<noteq> pszBase58 ! 0" using p(2) by (cases p) (auto simp: q_def)
    ultimately show ?thesis using encode_decoded [OF c(2)] c(3) that bt(1) by simp
  qed
  ultimately show ?thesis by auto
qed

lemma EncodeBase58_text: "\<exists>cs. EncodeBase58 v = Some cs \<and> set cs \<subseteq> set pszBase58"
proof -
  obtain n rest where r: "v = replicate n 0 @ rest" "rest \<noteq> [] \<longrightarrow> hd rest \<noteq> 0" using split_at [of v 0] by blast
  obtain ds where "EncodeBase58 v = Some (replicate n (pszBase58 ! 0) @ map ((!) pszBase58) ds)" "normal_digits 58 ds"
    using EncodeBase58_law [OF r(2), of n] unfolding r(1) by blast
  moreover from this(2) have "set (map ((!) pszBase58) ds) \<subseteq> set pszBase58"
    by (auto simp: normal_digits_def list_all_iff intro!: nth_mem)
  ultimately show ?thesis using nth_mem [of 0 pszBase58] by (auto split: if_splits)
qed

lemma EncodeBase58_inj:
  assumes "EncodeBase58 v = EncodeBase58 w"
  shows "v = w"
proof -
  obtain m x where x: "v = replicate m 0 @ x" "x \<noteq> [] \<longrightarrow> hd x \<noteq> 0" using split_at [of v 0] by blast
  obtain n y where y: "w = replicate n 0 @ y" "y \<noteq> [] \<longrightarrow> hd y \<noteq> 0" using split_at [of w 0] by blast
  obtain ds where ds: "EncodeBase58 v = Some (replicate m (pszBase58 ! 0) @ map ((!) pszBase58) ds)" "normal_digits 58 ds"
    "dval 58 (rev ds) = dval 256 (rev (map unat x))" using EncodeBase58_law [OF x(2), of m] unfolding x(1) by blast
  obtain es where es: "EncodeBase58 w = Some (replicate n (pszBase58 ! 0) @ map ((!) pszBase58) es)" "normal_digits 58 es"
    "dval 58 (rev es) = dval 256 (rev (map unat y))" using EncodeBase58_law [OF y(2), of n] unfolding y(1) by blast
  have digit: "ks \<noteq> [] \<longrightarrow> hd (map ((!) pszBase58) ks) \<noteq> pszBase58 ! 0" if "normal_digits 58 ks" for ks
    using that alphabet_distinct by (cases ks) (auto simp: normal_digits_def nth_eq_iff_index_eq)
  have eq: "replicate m (pszBase58 ! 0) @ map ((!) pszBase58) ds = replicate n (pszBase58 ! 0) @ map ((!) pszBase58) es"
    using ds(1) es(1) assms by simp
  have "m = n" using arg_cong [OF eq, of "\<lambda>z. length (takeWhile (\<lambda>c. c = pszBase58 ! 0) z)"] digit [OF ds(2)] digit [OF es(2)]
    by (simp add: strip_split)
  have "inj_on ((!) pszBase58) (set ds \<union> set es)"
    using ds(2) es(2) alphabet_distinct by (auto simp: inj_on_def normal_digits_def list_all_iff nth_eq_iff_index_eq)
  then have "ds = es" using eq \<open>m = n\<close> map_inj_on by simp
  have norm: "normal_digits 256 (map unat z)" if "z \<noteq> [] \<longrightarrow> hd z \<noteq> (0 :: u8)" for z
    using that unsigned_less [where 'b = 8 and 'a = nat] by (cases z) (auto simp: normal_digits_def list_all_iff unat_eq_0)
  have "map unat x = map unat y"
    using normal_unique [OF norm [OF x(2)] norm [OF y(2)]] ds(3) es(3) \<open>ds = es\<close> by simp
  then have "x = y" by (rule map_injective) (simp add: inj_def unsigned_word_eqI)
  then show ?thesis using x(1) y(1) \<open>m = n\<close> by simp
qed

lemma spaced_text:
  assumes "takeWhile (\<lambda>c. c \<noteq> 0) str = pre @ cs @ post" "list_all isspace pre" "list_all isspace post" "set cs \<subseteq> set pszBase58"
  shows "decode_body str = cs" "dropWhile isspace (decode_tail str) = []"
proof -
  have plain: "\<forall>c \<in> set cs. \<not> isspace c" using assms(4) alphabet_no_space by blast
  have pre: "dropWhile isspace (pre @ cs @ post) = dropWhile isspace (cs @ post)"
    using assms(2) by (simp add: dropWhile_append2 list_all_iff)
  have post: "dropWhile isspace post = []" "takeWhile (\<lambda>c. \<not> isspace c) post = []"
    using assms(3) by (cases post; simp add: list_all_iff dropWhile_eq_Nil_conv)+
  have "decode_body str = cs \<and> dropWhile isspace (decode_tail str) = []"
  proof (cases cs)
    case Nil
    then show ?thesis unfolding decode_body_def decode_tail_def assms(1) pre by (simp only: append_Nil post) simp
  next
    case (Cons c rest)
    then have drop: "dropWhile isspace (cs @ post) = cs @ post" using plain by simp
    have "takeWhile (\<lambda>c. \<not> isspace c) (cs @ post) = cs" using plain post(2) by (simp add: takeWhile_append2)
    moreover have "dropWhile isspace (dropWhile (\<lambda>c. \<not> isspace c) (cs @ post)) = []"
      using plain assms(3) by (auto simp: dropWhile_append2 list_all_iff dest: set_dropWhileD)
    ultimately show ?thesis unfolding decode_body_def decode_tail_def assms(1) pre drop by (rule conjI)
  qed
  then show "decode_body str = cs" "dropWhile isspace (decode_tail str) = []" by simp_all
qed

lemma decodes_iff:
  "\<exists>cs r. EncodeBase58 v = Some cs \<and> DecodeBase58 str = Some r
    \<and> (r = Some v \<longleftrightarrow> (\<exists>pre post. takeWhile (\<lambda>c. c \<noteq> 0) str = pre @ cs @ post \<and> list_all isspace pre \<and> list_all isspace post))"
proof -
  obtain cs where cs: "EncodeBase58 v = Some cs" "set cs \<subseteq> set pszBase58" using EncodeBase58_text by blast
  obtain w where w: "DecodeBase58 str = Some (if set (decode_body str) \<subseteq> set pszBase58 \<and> dropWhile isspace (decode_tail str) = []
      then Some w else None)" "set (decode_body str) \<subseteq> set pszBase58 \<longrightarrow> EncodeBase58 w = Some (decode_body str)"
    using DecodeBase58_law by blast
  let ?t = "takeWhile (\<lambda>c. c \<noteq> 0) str"
  have "DecodeBase58 str = Some (Some v) \<longleftrightarrow> (\<exists>pre post. ?t = pre @ cs @ post \<and> list_all isspace pre \<and> list_all isspace post)"
    (is "?l \<longleftrightarrow> ?r")
  proof
    assume ?l
    then have "w = v" "set (decode_body str) \<subseteq> set pszBase58" "dropWhile isspace (decode_tail str) = []"
      using w(1) by (simp_all split: if_splits)
    then have "decode_body str = cs" "list_all isspace (decode_tail str)"
      using w(2) cs(1) by (simp_all add: list_all_iff dropWhile_eq_Nil_conv)
    moreover have "?t = takeWhile isspace ?t @ decode_body str @ decode_tail str" by (simp add: decode_body_def decode_tail_def)
    moreover have "list_all isspace (takeWhile isspace ?t)" by (auto simp: list_all_iff dest: set_takeWhileD)
    ultimately show ?r by metis
  next
    assume ?r
    then have "decode_body str = cs" "dropWhile isspace (decode_tail str) = []" using spaced_text cs(2) by blast+
    moreover from this have "w = v" using w(2) cs EncodeBase58_inj [of w v] by simp
    ultimately show ?l using w(1) cs(2) by simp
  qed
  then show ?thesis using cs(1) w(1) by auto
qed

lemma base58_roundtrip: "EncodeBase58 v = Some cs \<Longrightarrow> DecodeBase58 cs = Some (Some v)"
proof -
  assume "EncodeBase58 v = Some cs"
  moreover from this have "set cs \<subseteq> set pszBase58" using EncodeBase58_text [of v] by simp
  moreover from this have "takeWhile (\<lambda>c. c \<noteq> 0) cs = [] @ cs @ []" using alphabet_no_space by (auto simp: takeWhile_eq_all_conv)
  ultimately show ?thesis
    using spaced_text [of cs "[]" cs "[]"] DecodeBase58_law [of cs] EncodeBase58_inj by fastforce
qed

section \<open>Property\<close>

text \<open>Base 58, both routines against each other. The encoder and the decoder never run into their assertions (the
  buffer sizes 138/100 and 733/1000 are large enough for every input), and the decoder accepts a string with the result
  \<open>v\<close> exactly when, up to the first NUL, it is the encoding of \<open>v\<close> with white space before and after it. So encoding and
  decoding is the identity, and a value has one encoding.\<close>

theorem base58_decodes:
  "\<exists>cs r. EncodeBase58 v = Some cs \<and> DecodeBase58 str = Some r
    \<and> (r = Some v \<longleftrightarrow> (\<exists>pre post. takeWhile (\<lambda>c. c \<noteq> 0) str = pre @ cs @ post \<and> list_all isspace pre \<and> list_all isspace post))"
  by (rule decodes_iff)

end
