(* ===== verification/Standard.thy ===== *)
theory Standard
  imports AssetTypes
begin

text \<open>
  The standard scripts (\<open>src/src/script/standard.cpp\<close>, \<open>standard.h\<close>, the class \<open>CPubKey\<close> of \<open>pubkey.h\<close>): recognising
  the kind of a script and what it pays to, and building the script for a destination. The hash functions are
  arguments.
\<close>

section \<open>Public keys and destinations\<close>

text \<open>A public key is its serialization, empty when it is invalid.\<close>

definition GetLen :: "u8 \<Rightarrow> nat" where
  "GetLen chHeader =
     (if chHeader = 2 \<or> chHeader = 3 then 33 else if chHeader = 4 \<or> chHeader = 6 \<or> chHeader = 7 then 65 else 0)"

definition CPubKey :: "bytes \<Rightarrow> bytes" where
  "CPubKey vch =
     (let len = (if vch = [] then 0 else GetLen (hd vch)) in if len \<noteq> 0 \<and> len = length vch then vch else [])"

definition IsValid_pubkey :: "bytes \<Rightarrow> bool" where
  "IsValid_pubkey pubkey \<longleftrightarrow> length pubkey > 0"

datatype CTxDestination = CNoDestination | CKeyID bytes | CScriptID bytes

definition IsValidDestination :: "CTxDestination \<Rightarrow> bool" where
  "IsValidDestination dest \<longleftrightarrow> dest \<noteq> CNoDestination"

section \<open>Recognising a script\<close>

definition template_pubkey :: bytes where "template_pubkey = [OP_PUBKEY, OP_CHECKSIG]"

definition template_pubkeyhash :: bytes where
  "template_pubkeyhash = [OP_DUP, OP_HASH160, OP_PUBKEYHASH, OP_EQUALVERIFY, OP_CHECKSIG]"

definition template_multisig :: bytes where
  "template_multisig = [OP_SMALLINTEGER, OP_PUBKEYS, OP_SMALLINTEGER, OP_CHECKMULTISIG]"

text \<open>The loop for \<open>OP_PUBKEYS\<close>: the instruction of the script that is current afterwards, and the solutions.\<close>

function pubkeys_loop :: "getop \<Rightarrow> bytes list \<Rightarrow> getop \<times> bytes list" where
  "pubkeys_loop g1 vSolutions =
     (if 33 \<le> length (vchRet g1) \<and> length (vchRet g1) \<le> 65
      then let g = GetOp2 (op_pc g1); vSolutions = vSolutions @ [vchRet g1]
           in if op_ok g then pubkeys_loop g vSolutions else (g, vSolutions)
      else (g1, vSolutions))"
  by auto
termination
  by (relation "measure (\<lambda>(g, s). length (op_pc g))") (auto simp: GetOp2_decreases)

declare pubkeys_loop.simps [simp del]

lemma pubkeys_loop_length: "length (op_pc (fst (pubkeys_loop g s))) \<le> length (op_pc g)"
proof (induction g s rule: pubkeys_loop.induct)
  case (1 g s)
  have adv: "length (op_pc (GetOp2 (op_pc g))) \<le> length (op_pc g)"
    using GetOp2_advances [of "op_pc g"] by (cases "op_pc g = []") auto
  show ?case using 1 adv by (subst pubkeys_loop.simps) (auto simp: Let_def intro: le_trans)
qed

text \<open>Comparing a script with a template: \<^term>\<open>None\<close> is a mismatch.\<close>

function match_template :: "bytes \<Rightarrow> bytes \<Rightarrow> bytes list \<Rightarrow> bytes list option" where
  "match_template pc1 pc2 vSolutions =
     (if pc1 = [] \<and> pc2 = [] then Some vSolutions
      else
        let g1 = GetOp2 pc1; g2 = GetOp2 pc2
        in if \<not> op_ok g1 \<or> \<not> op_ok g2 then None
           else
             let (g1, vSolutions, g2) =
                   (if opcodeRet g2 = OP_PUBKEYS
                    then let (g, s) = pubkeys_loop g1 vSolutions in (g, s, GetOp2 (op_pc g2))
                    else (g1, vSolutions, g2))
             in if \<not> op_ok g2 then None
                else if opcodeRet g2 = OP_PUBKEY
                then if length (vchRet g1) < 33 \<or> length (vchRet g1) > 65 then None
                     else match_template (op_pc g1) (op_pc g2) (vSolutions @ [vchRet g1])
                else if opcodeRet g2 = OP_PUBKEYHASH
                then if length (vchRet g1) \<noteq> 20 then None
                     else match_template (op_pc g1) (op_pc g2) (vSolutions @ [vchRet g1])
                else if opcodeRet g2 = OP_SMALLINTEGER
                then if opcodeRet g1 = OP_0 \<or> OP_1 \<le> opcodeRet g1 \<and> opcodeRet g1 \<le> OP_16
                     then match_template (op_pc g1) (op_pc g2)
                            (vSolutions @ [[word_of_nat (the (DecodeOP_N (opcodeRet g1)))]])
                     else None
                else if opcodeRet g1 \<noteq> opcodeRet g2 \<or> vchRet g1 \<noteq> vchRet g2 then None
                else match_template (op_pc g1) (op_pc g2) vSolutions)"
  by pat_completeness auto
termination
proof (relation "measure (\<lambda>(pc1, pc2, s). length pc1)", goal_cases)
  case 1
  show ?case by simp
next
  case (2 pc1 pc2 s g1 g2 x g1' y s' g2')
  then show ?case using GetOp2_decreases [of pc1] pubkeys_loop_length [of "GetOp2 pc1" s]
    by (fastforce split: if_splits prod.splits)
next
  case (3 pc1 pc2 s g1 g2 x g1' y s' g2')
  then show ?case using GetOp2_decreases [of pc1] pubkeys_loop_length [of "GetOp2 pc1" s]
    by (fastforce split: if_splits prod.splits)
next
  case (4 pc1 pc2 s g1 g2 x g1' y s' g2')
  then show ?case using GetOp2_decreases [of pc1] pubkeys_loop_length [of "GetOp2 pc1" s]
    by (fastforce split: if_splits prod.splits)
next
  case (5 pc1 pc2 s g1 g2 x g1' y s' g2')
  then show ?case using GetOp2_decreases [of pc1] pubkeys_loop_length [of "GetOp2 pc1" s]
    by (fastforce split: if_splits prod.splits)
qed

declare match_template.simps [simp del]

text \<open>The loop over the templates, in the order of the multimap.\<close>

primrec scan_templates :: "bytes \<Rightarrow> (txnouttype \<times> bytes) list \<Rightarrow> bool \<times> txnouttype \<times> bytes list" where
  "scan_templates script1 [] = (False, TX_NONSTANDARD, [])"
| "scan_templates script1 (tplate # ts) =
     (case match_template script1 (snd tplate) [] of
        None \<Rightarrow> scan_templates script1 ts
      | Some vSolutions \<Rightarrow>
          if fst tplate = TX_MULTISIG
          then let m = hd (hd vSolutions); n = hd (last vSolutions)
               in (\<not> (m < 1 \<or> n < 1 \<or> m > n \<or> length vSolutions - 2 \<noteq> unat n), TX_MULTISIG, vSolutions)
          else (True, fst tplate, vSolutions))"

text \<open>
  The result, the type and the solutions. The type is left as the caller has it for a witness program of an unknown
  version or size.
\<close>

definition Solver :: "bytes \<Rightarrow> txnouttype \<Rightarrow> bool \<times> txnouttype \<times> bytes list" where
  "Solver scriptPubKey typeRet =
     (if IsPayToScriptHash scriptPubKey then (True, TX_SCRIPTHASH, [take 20 (drop 2 scriptPubKey)])
      else case IsAssetScript scriptPubKey of
        Some (nType, fIsOwner, _) \<Rightarrow> (True, nType, [take 20 (drop 3 scriptPubKey)])
      | None \<Rightarrow>
          (case IsWitnessProgram scriptPubKey of
             Some (witnessversion, witnessprogram) \<Rightarrow>
               if witnessversion = 0 \<and> length witnessprogram = 20 then (True, TX_WITNESS_V0_KEYHASH, [witnessprogram])
               else if witnessversion = 0 \<and> length witnessprogram = 32 then (True, TX_WITNESS_V0_SCRIPTHASH, [witnessprogram])
               else (False, typeRet, [])
           | None \<Rightarrow>
               if length scriptPubKey \<ge> 1 \<and> scriptPubKey ! 0 = OP_RETURN \<and> IsPushOnly (drop 1 scriptPubKey)
               then (True, TX_NULL_DATA, [])
               else if length scriptPubKey \<ge> 1 \<and> scriptPubKey ! 0 = OP_HVN_ASSET \<and> IsPushOnly (drop 1 scriptPubKey)
               then (True, TX_RESTRICTED_ASSET_DATA,
                     if length scriptPubKey \<ge> 23 \<and> scriptPubKey ! 1 \<noteq> OP_RESERVED then [take 20 (drop 2 scriptPubKey)] else [])
               else scan_templates scriptPubKey
                      [(TX_PUBKEY, template_pubkey), (TX_PUBKEYHASH, template_pubkeyhash), (TX_MULTISIG, template_multisig)]))"

definition ExtractDestination :: "(bytes \<Rightarrow> bytes) \<Rightarrow> bytes \<Rightarrow> CTxDestination option" where
  "ExtractDestination hash160 scriptPubKey =
     (case Solver scriptPubKey TX_NONSTANDARD of (ok, whichType, vSolutions) \<Rightarrow>
        if \<not> ok then None
        else if whichType = TX_PUBKEY
        then let pubKey = CPubKey (vSolutions ! 0) in if \<not> IsValid_pubkey pubKey then None else Some (CKeyID (hash160 pubKey))
        else if whichType = TX_PUBKEYHASH then Some (CKeyID (vSolutions ! 0))
        else if whichType = TX_SCRIPTHASH then Some (CScriptID (vSolutions ! 0))
        else if whichType = TX_NEW_ASSET \<or> whichType = TX_REISSUE_ASSET \<or> whichType = TX_TRANSFER_ASSET
        then Some (CKeyID (vSolutions ! 0))
        else if whichType = TX_RESTRICTED_ASSET_DATA
        then if length vSolutions \<noteq> 0 then Some (CKeyID (vSolutions ! 0)) else None
        else None)"

text \<open>The type, the addresses and the number of signatures that are required.\<close>

definition ExtractDestinations :: "(bytes \<Rightarrow> bytes) \<Rightarrow> bytes \<Rightarrow> (txnouttype \<times> CTxDestination list \<times> nat) option" where
  "ExtractDestinations hash160 scriptPubKey =
     (case Solver scriptPubKey TX_NONSTANDARD of (ok, typeRet, vSolutions) \<Rightarrow>
        if \<not> ok then None
        else if typeRet = TX_NULL_DATA then None
        else if typeRet = TX_MULTISIG
        then let nRequired = unat (hd (hd vSolutions));
                 addressRet = map (\<lambda>v. CKeyID (hash160 (CPubKey v)))
                                (filter (\<lambda>v. IsValid_pubkey (CPubKey v)) (take (length vSolutions - 2) (drop 1 vSolutions)))
             in if addressRet = [] then None else Some (typeRet, addressRet, nRequired)
        else case ExtractDestination hash160 scriptPubKey of
               None \<Rightarrow> None
             | Some address \<Rightarrow> Some (typeRet, [address], 1))"

section \<open>Building a script\<close>

definition GetScriptForDestination :: "CTxDestination \<Rightarrow> bytes" where
  "GetScriptForDestination dest =
     (case dest of
        CNoDestination \<Rightarrow> []
      | CKeyID keyID \<Rightarrow> [OP_DUP, OP_HASH160] @ push_data keyID @ [OP_EQUALVERIFY, OP_CHECKSIG]
      | CScriptID scriptID \<Rightarrow> [OP_HASH160] @ push_data scriptID @ [OP_EQUAL])"

definition GetScriptForNullAssetDataDestination :: "CTxDestination \<Rightarrow> bytes" where
  "GetScriptForNullAssetDataDestination dest =
     (case dest of
        CNoDestination \<Rightarrow> []
      | CKeyID keyID \<Rightarrow> [OP_HVN_ASSET] @ push_data keyID
      | CScriptID scriptID \<Rightarrow> [OP_HVN_ASSET] @ push_data scriptID)"

definition GetScriptForRawPubKey :: "bytes \<Rightarrow> bytes" where
  "GetScriptForRawPubKey pubKey = push_data pubKey @ [OP_CHECKSIG]"

text \<open>\<open>EncodeOP_N\<close> asserts that its argument is between 0 and 16.\<close>

definition GetScriptForMultisig :: "int \<Rightarrow> bytes list \<Rightarrow> bytes option" where
  "GetScriptForMultisig nRequired keys =
     (case (EncodeOP_N nRequired, EncodeOP_N (int (length keys))) of
        (Some m, Some n) \<Rightarrow> Some ([m] @ concat (map push_data keys) @ [n, OP_CHECKMULTISIG])
      | _ \<Rightarrow> None)"

definition GetScriptForWitness :: "(bytes \<Rightarrow> bytes) \<Rightarrow> (bytes \<Rightarrow> bytes) \<Rightarrow> bytes \<Rightarrow> bytes" where
  "GetScriptForWitness hash160 sha256 redeemscript =
     (case Solver redeemscript TX_NONSTANDARD of (ok, typ, vSolutions) \<Rightarrow>
        if ok \<and> typ = TX_PUBKEY then [OP_0] @ push_data (hash160 (vSolutions ! 0))
        else if ok \<and> typ = TX_PUBKEYHASH then [OP_0] @ push_data (vSolutions ! 0)
        else [OP_0] @ push_data (sha256 redeemscript))"

section \<open>Recognising what was built\<close>

lemma push_20: "length h = 20 \<Longrightarrow> push_data h = 20 # h"
  by (simp add: push_data_def)

lemma GetOp2_20: "length h = 20 \<Longrightarrow> GetOp2 (20 # h @ rest) = \<lparr>op_ok = True, opcodeRet = 20, vchRet = h, op_pc = rest\<rparr>"
  using GetOp2_push_data [of h rest] by (simp add: push_20 push_opcode_of_def)

lemma Solver_keyhash:
  assumes "length h = 20"
  shows "Solver ([OP_DUP, OP_HASH160, 20] @ h @ [OP_EQUALVERIFY, OP_CHECKSIG]) t = (True, TX_PUBKEYHASH, [h])"
proof -
  let ?s = "[OP_DUP, OP_HASH160, 20] @ h @ [OP_EQUALVERIFY, OP_CHECKSIG]"
  have "match_template ?s template_pubkey [] = None"
    by (subst match_template.simps) (simp add: template_pubkey_def GetOp2_single)
  moreover have "match_template ?s template_pubkeyhash [] = Some [h]"
    using assms by (simp add: template_pubkeyhash_def match_template.simps [of "_ # _"] match_template.simps [of "[]"] GetOp2_single GetOp2_20)
  ultimately show ?thesis
    using assms by (simp add: Solver_def IsPayToScriptHash_def IsAssetScript_def IsWitnessProgram_def)
qed

lemma Solver_scripthash:
  assumes "length h = 20"
  shows "Solver ([OP_HASH160, 20] @ h @ [OP_EQUAL]) t = (True, TX_SCRIPTHASH, [h])"
  using assms by (simp add: Solver_def IsPayToScriptHash_def nth_append)

text \<open>The destinations that have 20 bytes, as \<open>uint160\<close> has.\<close>

definition dest_ok :: "CTxDestination \<Rightarrow> bool" where
  "dest_ok dest = (case dest of CNoDestination \<Rightarrow> False | CKeyID h \<Rightarrow> length h = 20 | CScriptID h \<Rightarrow> length h = 20)"

lemma extract_destination: "dest_ok dest \<Longrightarrow> ExtractDestination hash160 (GetScriptForDestination dest) = Some dest"
  using Solver_keyhash Solver_scripthash
  by (auto simp: dest_ok_def ExtractDestination_def GetScriptForDestination_def push_20 split: CTxDestination.splits)

lemma pubkeys_loop_keys:
  assumes "list_all (\<lambda>k. 33 \<le> length k \<and> length k \<le> 65) keys" "op_ok (GetOp2 rest)" "length (vchRet (GetOp2 rest)) < 33"
  shows "pubkeys_loop (GetOp2 (concat (map push_data keys) @ rest)) s = (GetOp2 rest, s @ keys)"
  using assms(1)
proof (induction keys arbitrary: s)
  case Nil
  then show ?case using assms(3) by (subst pubkeys_loop.simps) simp
next
  case (Cons k keys)
  have k: "GetOp2 (concat (map push_data (k # keys)) @ rest)
      = \<lparr>op_ok = True, opcodeRet = push_opcode_of k, vchRet = k, op_pc = concat (map push_data keys) @ rest\<rparr>"
    using GetOp2_push_data [of k] Cons.prems by simp
  have "op_ok (GetOp2 (concat (map push_data keys) @ rest))"
    using assms(2) Cons.prems GetOp2_push_data by (cases keys) auto
  then show ?case using Cons unfolding k by (subst pubkeys_loop.simps) simp
qed

text \<open>The public keys of a script are well formed.\<close>

definition pubkeys_ok :: "bytes list \<Rightarrow> bool" where
  "pubkeys_ok keys \<longleftrightarrow> list_all (\<lambda>k. k \<noteq> [] \<and> length k = GetLen (hd k)) keys"

lemma pubkeys_ok_length: "pubkeys_ok keys \<Longrightarrow> list_all (\<lambda>k. 33 \<le> length k \<and> length k \<le> 65) keys"
  by (auto simp: pubkeys_ok_def list_all_iff GetLen_def split: if_splits)

lemma CPubKey_ok: "pubkeys_ok keys \<Longrightarrow> k \<in> set keys \<Longrightarrow> CPubKey k = k \<and> IsValid_pubkey k"
  using pubkeys_ok_length by (fastforce simp: pubkeys_ok_def list_all_iff CPubKey_def IsValid_pubkey_def Let_def)

lemma small_opcodes:
  "list_all (\<lambda>k. \<exists>opcode. EncodeOP_N (int k) = Some opcode \<and> OP_PUSHDATA4 < opcode
     \<and> opcode \<noteq> OP_HVN_ASSET \<and> OP_1 \<le> opcode \<and> opcode \<le> OP_16 \<and> DecodeOP_N opcode = Some k) [1..<17]"
  by (simp add: EncodeOP_N_def DecodeOP_N_def upt_rec)

lemma small_opcode:
  assumes "1 \<le> k" "k \<le> 16"
  shows "\<exists>opcode. EncodeOP_N (int k) = Some opcode \<and> OP_PUSHDATA4 < opcode
     \<and> opcode \<noteq> OP_HVN_ASSET \<and> OP_1 \<le> opcode \<and> opcode \<le> OP_16 \<and> DecodeOP_N opcode = Some k"
proof -
  have "k \<in> set [1..<17]" using assms by simp
  then show ?thesis by (rule bspec [OF small_opcodes [unfolded list_all_iff]])
qed

lemma Solver_multisig:
  assumes "pubkeys_ok keys" "1 \<le> m" "m \<le> length keys" "length keys \<le> 16" "GetScriptForMultisig (int m) keys = Some s" "IsAssetScript s = None"
  shows "Solver s t = (True, TX_MULTISIG, [[word_of_nat m]] @ keys @ [[word_of_nat (length keys)]])"
proof -
  obtain a where a: "EncodeOP_N (int m) = Some a" "OP_PUSHDATA4 < a" "a \<noteq> OP_HVN_ASSET" "OP_1 \<le> a" "a \<le> OP_16" "DecodeOP_N a = Some m"
    using small_opcode [OF assms(2) le_trans [OF assms(3,4)]] by blast
  obtain b where b: "EncodeOP_N (int (length keys)) = Some b" "OP_PUSHDATA4 < b" "b \<noteq> OP_HVN_ASSET" "OP_1 \<le> b" "b \<le> OP_16"
      "DecodeOP_N b = Some (length keys)"
    using small_opcode [OF le_trans [OF assms(2,3)] assms(4)] by blast
  obtain k ks where ks: "keys = k # ks" using assms(2,3) by (cases keys) auto
  then have ne: "keys \<noteq> []" by simp
  let ?body = "concat (map push_data keys) @ [b, OP_CHECKMULTISIG]"
  have s: "s = a # ?body" using assms(5) a(1) b(1) by (simp add: GetScriptForMultisig_def)
  have len: "33 \<le> length k" "length k \<le> 65" using pubkeys_ok_length [OF assms(1)] by (simp_all add: ks)
  then have body: "op_ok (GetOp2 ?body)" using GetOp2_push_data [of k] by (simp add: ks)
  have ops: "a \<noteq> OP_DUP" "a \<noteq> OP_RETURN" "a \<noteq> OP_HASH160" using a(5) by auto
  have "match_template s template_pubkey [] = None"
    by (subst match_template.simps) (simp add: s template_pubkey_def GetOp2_single a)
  moreover have "match_template s template_pubkeyhash [] = None"
    using ops by (subst match_template.simps) (simp add: s template_pubkeyhash_def GetOp2_single a)
  moreover have "match_template s template_multisig [] = Some ([[word_of_nat m]] @ keys @ [[word_of_nat (length keys)]])"
  proof -
    have last: "match_template [OP_CHECKMULTISIG] [OP_CHECKMULTISIG] v = Some v" for v
      by (subst match_template.simps) (simp add: GetOp2_single match_template.simps [of "[]"])
    have "match_template ?body [OP_PUBKEYS, OP_SMALLINTEGER, OP_CHECKMULTISIG] v = Some (v @ keys @ [[word_of_nat (length keys)]])" for v
      using pubkeys_loop_keys [OF pubkeys_ok_length [OF assms(1)], of "[b, OP_CHECKMULTISIG]" v] body b
      by (subst match_template.simps) (simp add: GetOp2_single last)
    then show ?thesis using a by (subst match_template.simps) (simp add: s template_multisig_def GetOp2_single)
  qed
  ultimately have "scan_templates s [(TX_PUBKEY, template_pubkey), (TX_PUBKEYHASH, template_pubkeyhash), (TX_MULTISIG, template_multisig)]
      = (True, TX_MULTISIG, [[word_of_nat m]] @ keys @ [[word_of_nat (length keys)]])"
    using assms(2-4) ne by (simp add: word_le_nat_alt word_less_nat_alt unat_of_nat not_less)
  moreover have "unat (word_of_nat (length k) :: u8) = length k" using len by (simp add: unat_of_nat)
  then have "IsWitnessProgram s = None" using len by (auto simp: IsWitnessProgram_def s ks push_data_def)
  moreover have "\<not> IsPayToScriptHash s" using ops by (simp add: IsPayToScriptHash_def s)
  ultimately show ?thesis using ops a(3) assms(6) by (simp add: Solver_def s)
qed

section \<open>Properties\<close>

definition demo_keys :: "bytes list" where
  "demo_keys = [2 # replicate 32 17, 4 # replicate 64 23, 3 # replicate 32 5]"

text \<open>C23: The script for a multisignature is recognised as what it was built from: for at most 16 well formed keys and
  at least one and at most all of them required, the script that \<open>GetScriptForMultisig\<close> builds is a multisignature whose
  destinations are the hashes of the keys, in order, with the number that is required; unless bytes of the keys at the
  place of an asset marker make the script an asset script.\<close>

theorem multisig_recognised:
  assumes "pubkeys_ok keys" and "1 \<le> m" and "m \<le> length keys" and "length keys \<le> 16"
  shows "\<exists>s. GetScriptForMultisig (int m) keys = Some s
    \<and> (IsAssetScript s = None \<longrightarrow> ExtractDestinations hash160 s = Some (TX_MULTISIG, map (\<lambda>k. CKeyID (hash160 k)) keys, m))"
proof -
  have "length keys \<ge> 1" "m \<le> 16" using assms(2-4) by simp_all
  then obtain s where s: "GetScriptForMultisig (int m) keys = Some s"
    using small_opcode [of m] small_opcode [of "length keys"] assms(2,4) by (auto simp: GetScriptForMultisig_def)
  let ?v = "[[word_of_nat m]] @ keys @ [[word_of_nat (length keys)]]" and ?a = "map (\<lambda>k. CKeyID (hash160 k)) keys"
  have "take (length ?v - 2) (drop 1 ?v) = keys" by simp
  moreover have "filter (\<lambda>v. IsValid_pubkey (CPubKey v)) keys = keys" "map (\<lambda>v. CKeyID (hash160 (CPubKey v))) keys = ?a"
    using CPubKey_ok [OF assms(1)] by (simp_all add: filter_id_conv)
  moreover have "?a \<noteq> []" using assms(2,3) by auto
  moreover have "unat (hd (hd ?v)) = m" using \<open>m \<le> 16\<close> by (simp add: unat_of_nat)
  ultimately have "ExtractDestinations hash160 s = Some (TX_MULTISIG, ?a, m)" if "IsAssetScript s = None"
    unfolding ExtractDestinations_def Solver_multisig [OF assms s that] by (simp only: prod.case txnouttype.simps Let_def simp_thms if_False if_True)
  with s show ?thesis by (intro exI [of _ s] conjI impI)
qed

theorem multisig_recognised_witness:
  "\<exists>s. GetScriptForMultisig 2 demo_keys = Some s \<and> IsAssetScript s = None
    \<and> ExtractDestinations (take 20) s = Some (TX_MULTISIG, map (\<lambda>k. CKeyID (take 20 k)) demo_keys, 2)"
proof -
  have *: "IsAssetScript (the (GetScriptForMultisig 2 demo_keys)) = None" "pubkeys_ok demo_keys" "length demo_keys = 3" by code_simp+
  then obtain s where "GetScriptForMultisig 2 demo_keys = Some s"
    "IsAssetScript s = None \<longrightarrow> ExtractDestinations (take 20) s = Some (TX_MULTISIG, map (\<lambda>k. CKeyID (take 20 k)) demo_keys, 2)"
    using multisig_recognised [of demo_keys 2 "take 20"] by auto
  then show ?thesis using *(1) by (intro exI [of _ s]) simp
qed

text \<open>A pay to public key script whose key has the bytes of an asset marker at the right place is taken for the transfer
  of an asset.\<close>

lemma pubkey_taken_for_asset:
  assumes "length x = 23" "length y = 3"
  shows "Solver (GetScriptForRawPubKey (2 # x @ [OP_HVN_ASSET, 0, HVN_H, HVN_V, HVN_N, HVN_T] @ y)) t
    = (True, TX_TRANSFER_ASSET, [take 20 (drop 1 x)])"
  using assms by (simp add: Solver_def GetScriptForRawPubKey_def push_data_def IsPayToScriptHash_def IsAssetScript_def
      asset_marker_index_def nth_append)

end
