(* ===== verification/Address.thy ===== *)
theory Address
  imports Base58 Standard
begin

text \<open>
  Addresses and exported private keys (the classes \<open>CBase58Data\<close>, \<open>CHiveAddress\<close> and \<open>CHiveSecret\<close> of
  \<open>src/src/base58.cpp\<close> and \<open>base58.h\<close>, \<open>CKey\<close> of \<open>key.h\<close>): a version and data in base 58 with a checksum. The double hash
  and the check of a private key, which the elliptic curve library makes, are arguments. \<^term>\<open>None\<close> is a failed assertion.
\<close>

section \<open>Versioned data\<close>

record CBase58Data =
  vchVersion :: bytes
  vchData :: bytes

text \<open>The prefixes of \<open>CChainParams::Base58Prefix\<close> that addresses and keys use.\<close>

record Base58Prefixes =
  PUBKEY_ADDRESS :: bytes
  SCRIPT_ADDRESS :: bytes
  SECRET_KEY :: bytes

definition main_prefixes :: Base58Prefixes where
  "main_prefixes = \<lparr>PUBKEY_ADDRESS = [40], SCRIPT_ADDRESS = [122], SECRET_KEY = [112]\<rparr>"

definition CBase58Data_empty :: CBase58Data where
  "CBase58Data_empty = \<lparr>vchVersion = [], vchData = []\<rparr>"

definition SetData :: "bytes \<Rightarrow> bytes \<Rightarrow> CBase58Data" where
  "SetData vchVersionIn pdata = \<lparr>vchVersion = vchVersionIn, vchData = pdata\<rparr>"

definition SetString :: "(bytes \<Rightarrow> bytes) \<Rightarrow> bytes \<Rightarrow> nat \<Rightarrow> (bool \<times> CBase58Data) option" where
  "SetString hash256 psz nVersionBytes =
     (case DecodeBase58Check hash256 psz of
        None \<Rightarrow> None
      | Some None \<Rightarrow> Some (False, CBase58Data_empty)
      | Some (Some vchTemp) \<Rightarrow>
          if length vchTemp < nVersionBytes then Some (False, CBase58Data_empty)
          else Some (True, \<lparr>vchVersion = take nVersionBytes vchTemp, vchData = drop nVersionBytes vchTemp\<rparr>))"

definition ToString :: "(bytes \<Rightarrow> bytes) \<Rightarrow> CBase58Data \<Rightarrow> bytes option" where
  "ToString hash256 d = EncodeBase58Check hash256 (vchVersion d @ vchData d)"

section \<open>Addresses\<close>

definition CHiveAddress_Set :: "Base58Prefixes \<Rightarrow> CTxDestination \<Rightarrow> CBase58Data" where
  "CHiveAddress_Set params dest =
     (case dest of
        CKeyID i \<Rightarrow> SetData (PUBKEY_ADDRESS params) i
      | CScriptID i \<Rightarrow> SetData (SCRIPT_ADDRESS params) i
      | CNoDestination \<Rightarrow> CBase58Data_empty)"

definition CHiveAddress_IsValid :: "Base58Prefixes \<Rightarrow> CBase58Data \<Rightarrow> bool" where
  "CHiveAddress_IsValid params a \<longleftrightarrow>
     length (vchData a) = 20 \<and> (vchVersion a = PUBKEY_ADDRESS params \<or> vchVersion a = SCRIPT_ADDRESS params)"

definition CHiveAddress_Get :: "Base58Prefixes \<Rightarrow> CBase58Data \<Rightarrow> CTxDestination" where
  "CHiveAddress_Get params a =
     (if \<not> CHiveAddress_IsValid params a then CNoDestination
      else if vchVersion a = PUBKEY_ADDRESS params then CKeyID (vchData a)
      else if vchVersion a = SCRIPT_ADDRESS params then CScriptID (vchData a)
      else CNoDestination)"

definition GetIndexKey :: "Base58Prefixes \<Rightarrow> CBase58Data \<Rightarrow> (bytes \<times> nat) option" where
  "GetIndexKey params a =
     (if \<not> CHiveAddress_IsValid params a then None
      else if vchVersion a = PUBKEY_ADDRESS params then Some (vchData a, 1)
      else if vchVersion a = SCRIPT_ADDRESS params then Some (vchData a, 2)
      else None)"

definition EncodeDestination :: "(bytes \<Rightarrow> bytes) \<Rightarrow> Base58Prefixes \<Rightarrow> CTxDestination \<Rightarrow> bytes option" where
  "EncodeDestination hash256 params dest =
     (let addr = CHiveAddress_Set params dest in if \<not> CHiveAddress_IsValid params addr then Some [] else ToString hash256 addr)"

definition DecodeDestination :: "(bytes \<Rightarrow> bytes) \<Rightarrow> Base58Prefixes \<Rightarrow> bytes \<Rightarrow> CTxDestination option" where
  "DecodeDestination hash256 params s = map_option (\<lambda>(_, a). CHiveAddress_Get params a) (SetString hash256 s 1)"

definition IsValidDestinationString :: "(bytes \<Rightarrow> bytes) \<Rightarrow> Base58Prefixes \<Rightarrow> bytes \<Rightarrow> bool option" where
  "IsValidDestinationString hash256 params s = map_option (\<lambda>(_, a). CHiveAddress_IsValid params a) (SetString hash256 s 1)"

section \<open>Private keys\<close>

record CKey =
  key_fValid :: bool
  key_fCompressed :: bool
  keydata :: bytes

definition CKey_invalid :: CKey where
  "CKey_invalid = \<lparr>key_fValid = False, key_fCompressed = False, keydata = replicate 32 0\<rparr>"

definition CKey_Set :: "(bytes \<Rightarrow> bool) \<Rightarrow> CKey \<Rightarrow> bytes \<Rightarrow> bool \<Rightarrow> CKey" where
  "CKey_Set Check key vch fCompressedIn =
     (if length vch \<noteq> length (keydata key) then key\<lparr>key_fValid := False\<rparr>
      else if Check vch then key\<lparr>keydata := vch, key_fValid := True, key_fCompressed := fCompressedIn\<rparr>
      else key\<lparr>key_fValid := False\<rparr>)"

definition CHiveSecret_SetKey :: "Base58Prefixes \<Rightarrow> CKey \<Rightarrow> CBase58Data option" where
  "CHiveSecret_SetKey params vchSecret =
     (if \<not> key_fValid vchSecret then None
      else Some (SetData (SECRET_KEY params) (keydata vchSecret @ (if key_fCompressed vchSecret then [1] else []))))"

definition CHiveSecret_GetKey :: "(bytes \<Rightarrow> bool) \<Rightarrow> CBase58Data \<Rightarrow> CKey option" where
  "CHiveSecret_GetKey Check d =
     (if length (vchData d) < 32 then None
      else Some (CKey_Set Check CKey_invalid (take 32 (vchData d)) (length (vchData d) > 32 \<and> vchData d ! 32 = 1)))"

definition CHiveSecret_IsValid :: "Base58Prefixes \<Rightarrow> CBase58Data \<Rightarrow> bool" where
  "CHiveSecret_IsValid params d \<longleftrightarrow>
     (length (vchData d) = 32 \<or> length (vchData d) = 33 \<and> vchData d ! 32 = 1) \<and> vchVersion d = SECRET_KEY params"

definition CHiveSecret_SetString :: "(bytes \<Rightarrow> bytes) \<Rightarrow> Base58Prefixes \<Rightarrow> bytes \<Rightarrow> (bool \<times> CBase58Data) option" where
  "CHiveSecret_SetString hash256 params pszSecret =
     map_option (\<lambda>(ok, d). (ok \<and> CHiveSecret_IsValid params d, d)) (SetString hash256 pszSecret 1)"

section \<open>The text of versioned data\<close>

lemma DecodeBase58Check_iff:
  assumes "\<And>x. length (hash256 x) \<ge> 4"
  shows "\<exists>cs r. EncodeBase58Check hash256 v = Some cs \<and> DecodeBase58Check hash256 psz = Some r
    \<and> (r = Some v \<longleftrightarrow> (\<exists>pre post. takeWhile (\<lambda>c. c \<noteq> 0) psz = pre @ cs @ post \<and> list_all isspace pre \<and> list_all isspace post))"
proof -
  let ?v = "v @ take 4 (hash256 v)"
  obtain cs r where d: "EncodeBase58 ?v = Some cs" "DecodeBase58 psz = Some r"
    "r = Some ?v \<longleftrightarrow> (\<exists>pre post. takeWhile (\<lambda>c. c \<noteq> 0) psz = pre @ cs @ post \<and> list_all isspace pre \<and> list_all isspace post)"
    using decodes_iff [of ?v psz] by blast
  have c: "DecodeBase58Check hash256 psz = Some (Some v) \<longleftrightarrow> r = Some ?v"
  proof (cases r)
    case None
    then show ?thesis by (simp add: DecodeBase58Check_def d(2))
  next
    case (Some w)
    have "w = take (length w - 4) w @ drop (length w - 4) w" by simp
    then show ?thesis using assms [of v] Some
      by (auto simp: DecodeBase58Check_def d(2) Let_def min_def split: if_splits)
  qed
  moreover have "\<exists>q. DecodeBase58Check hash256 psz = Some q"
    by (auto simp: DecodeBase58Check_def d(2) Let_def split: option.splits)
  ultimately show ?thesis using d(1,3) by (auto simp: EncodeBase58Check_def)
qed

lemma SetString_ToString:
  assumes "\<And>x. length (hash256 x) \<ge> 4" "ToString hash256 d = Some cs" "length (vchVersion d) = n"
  shows "SetString hash256 cs n = Some (True, d)"
proof -
  let ?v = "vchVersion d @ vchData d"
  have "DecodeBase58 cs = Some (Some (?v @ take 4 (hash256 ?v)))"
    using base58_roundtrip assms(2) by (simp add: ToString_def EncodeBase58Check_def)
  then have "DecodeBase58Check hash256 cs = Some (Some ?v)"
    using assms(1) [of ?v] by (simp add: DecodeBase58Check_def)
  then show ?thesis using assms(3) by (simp add: SetString_def)
qed

definition prefixes_ok :: "Base58Prefixes \<Rightarrow> bool" where
  "prefixes_ok params \<longleftrightarrow> length (PUBKEY_ADDRESS params) = 1 \<and> length (SCRIPT_ADDRESS params) = 1
     \<and> length (SECRET_KEY params) = 1 \<and> PUBKEY_ADDRESS params \<noteq> SCRIPT_ADDRESS params"

text \<open>The bytes of an address, version first.\<close>

lemma Get_iff:
  assumes "prefixes_ok params" "dest_ok d"
  shows "CHiveAddress_Get params a = d \<longleftrightarrow> a = CHiveAddress_Set params d"
  using assms
  by (cases d; cases a) (auto simp: CHiveAddress_Get_def CHiveAddress_IsValid_def CHiveAddress_Set_def SetData_def prefixes_ok_def dest_ok_def)

lemma Set_valid:
  assumes "prefixes_ok params" "dest_ok d"
  shows "CHiveAddress_IsValid params (CHiveAddress_Set params d)" "length (vchVersion (CHiveAddress_Set params d)) = 1"
  using assms by (cases d; simp add: CHiveAddress_IsValid_def CHiveAddress_Set_def SetData_def prefixes_ok_def dest_ok_def)+

lemma SetString_iff:
  assumes "length (vchVersion d) = 1"
  shows "(\<exists>ok. SetString hash256 psz 1 = Some (ok, d)) \<longleftrightarrow> DecodeBase58Check hash256 psz = Some (Some (vchVersion d @ vchData d))"
proof
  assume "\<exists>ok. SetString hash256 psz 1 = Some (ok, d)"
  then show "DecodeBase58Check hash256 psz = Some (Some (vchVersion d @ vchData d))"
    using assms by (auto simp: SetString_def CBase58Data_empty_def split: option.splits if_splits)
qed (use assms in \<open>auto simp: SetString_def\<close>)

lemma encode_decode_destination:
  assumes "\<And>x. length (hash256 x) \<ge> 4" "prefixes_ok params" "dest_ok d"
  shows "\<exists>addr. EncodeDestination hash256 params d = Some addr \<and> DecodeDestination hash256 params addr = Some d"
proof -
  let ?a = "CHiveAddress_Set params d"
  obtain cs where cs: "ToString hash256 ?a = Some cs"
    using EncodeBase58_text by (auto simp: ToString_def EncodeBase58Check_def)
  then have "SetString hash256 cs 1 = Some (True, ?a)"
    using SetString_ToString [OF assms(1) cs Set_valid(2) [OF assms(2,3)]] by simp
  then show ?thesis using cs Set_valid(1) [OF assms(2,3)] Get_iff [OF assms(2,3), of ?a]
    by (auto simp: EncodeDestination_def DecodeDestination_def)
qed

section \<open>Properties\<close>

text \<open>C21: Addresses are faithful. On a network whose one-byte prefixes for keys and scripts differ, every destination has
  an address, and a string decodes to that destination exactly when, up to the first NUL, it is that address with white
  space around it; so no two destinations share an address and a wrong character is never read as a different spelling.
  The script for the destination is recognised as paying to it.\<close>

theorem address_faithful:
  assumes "\<And>x. length (hash256 x) = 32" and "prefixes_ok params" and "dest_ok d"
  shows "\<exists>addr r. EncodeDestination hash256 params d = Some addr \<and> DecodeDestination hash256 params psz = Some r
    \<and> (r = d \<longleftrightarrow> (\<exists>pre post. takeWhile (\<lambda>c. c \<noteq> 0) psz = pre @ addr @ post \<and> list_all isspace pre \<and> list_all isspace post))
    \<and> ExtractDestination hash160 (GetScriptForDestination d) = Some d"
proof -
  let ?a = "CHiveAddress_Set params d"
  have h: "length (hash256 x) \<ge> 4" for x by (simp add: assms(1))
  from DecodeBase58Check_iff [of hash256 "vchVersion ?a @ vchData ?a" psz, OF h]
  obtain cs r where cs: "EncodeBase58Check hash256 (vchVersion ?a @ vchData ?a) = Some cs" "DecodeBase58Check hash256 psz = Some r"
    "r = Some (vchVersion ?a @ vchData ?a) \<longleftrightarrow>
      (\<exists>pre post. takeWhile (\<lambda>c. c \<noteq> 0) psz = pre @ cs @ post \<and> list_all isspace pre \<and> list_all isspace post)" by blast
  have "\<exists>ok a. SetString hash256 psz 1 = Some (ok, a)"
    using cs(2) by (auto simp: SetString_def split: option.splits)
  then obtain ok a where a: "SetString hash256 psz 1 = Some (ok, a)" by blast
  have "CHiveAddress_Get params a = d \<longleftrightarrow> r = Some (vchVersion ?a @ vchData ?a)"
    using SetString_iff [OF Set_valid(2) [OF assms(2,3)], of hash256 psz] Get_iff [OF assms(2,3), of a] cs(2) a by simp
  then show ?thesis using cs(1,3) a Set_valid(1) [OF assms(2,3)] extract_destination [OF assms(3)]
    by (simp add: EncodeDestination_def ToString_def DecodeDestination_def)
qed

theorem address_faithful_witness:
  "\<exists>addr r. EncodeDestination (\<lambda>x. take 32 (x @ replicate 32 0)) main_prefixes (CScriptID (replicate 20 9)) = Some addr
    \<and> DecodeDestination (\<lambda>x. take 32 (x @ replicate 32 0)) main_prefixes [] = Some r
    \<and> (r = CScriptID (replicate 20 9) \<longleftrightarrow>
        (\<exists>pre post. takeWhile (\<lambda>c. c \<noteq> 0) [] = pre @ addr @ post \<and> list_all isspace pre \<and> list_all isspace post))
    \<and> ExtractDestination (take 20) (GetScriptForDestination (CScriptID (replicate 20 9))) = Some (CScriptID (replicate 20 9))"
  by (rule address_faithful) (simp_all add: prefixes_ok_def main_prefixes_def dest_ok_def)

text \<open>An exported private key comes back: the text of a valid key is accepted by \<open>CHiveSecret\<close>, which gives the same key
  with the same flag for compression.\<close>

theorem secret_roundtrip:
  assumes "\<And>x. length (hash256 x) = 32" and "prefixes_ok params"
    and "key_fValid key" and "length (keydata key) = 32" and "Check (keydata key)"
  shows "\<exists>d cs. CHiveSecret_SetKey params key = Some d \<and> ToString hash256 d = Some cs
    \<and> CHiveSecret_SetString hash256 params cs = Some (True, d) \<and> CHiveSecret_GetKey Check d = Some key"
proof -
  let ?d = "SetData (SECRET_KEY params) (keydata key @ (if key_fCompressed key then [1] else []))"
  obtain cs where cs: "ToString hash256 ?d = Some cs"
    using EncodeBase58_text by (auto simp: ToString_def EncodeBase58Check_def)
  have "length (hash256 x) \<ge> 4" for x by (simp add: assms(1))
  moreover have "length (vchVersion ?d) = 1" using assms(2) by (simp add: prefixes_ok_def SetData_def)
  ultimately have "SetString hash256 cs 1 = Some (True, ?d)" using SetString_ToString cs by blast
  then have "CHiveSecret_SetString hash256 params cs = Some (True, ?d)"
    using assms(4) by (simp add: CHiveSecret_SetString_def CHiveSecret_IsValid_def SetData_def nth_append)
  moreover have "CHiveSecret_GetKey Check ?d = Some key"
    using assms(3-5) by (simp add: CHiveSecret_GetKey_def SetData_def CKey_Set_def CKey_invalid_def nth_append)
  ultimately show ?thesis using cs assms(3) by (simp add: CHiveSecret_SetKey_def)
qed

theorem secret_roundtrip_witness:
  "\<exists>d cs. CHiveSecret_SetKey main_prefixes \<lparr>key_fValid = True, key_fCompressed = True, keydata = replicate 32 7\<rparr> = Some d
    \<and> ToString (\<lambda>x. take 32 (x @ replicate 32 0)) d = Some cs
    \<and> CHiveSecret_SetString (\<lambda>x. take 32 (x @ replicate 32 0)) main_prefixes cs = Some (True, d)
    \<and> CHiveSecret_GetKey (\<lambda>k. k \<noteq> []) d = Some \<lparr>key_fValid = True, key_fCompressed = True, keydata = replicate 32 7\<rparr>"
  by (rule secret_roundtrip) (simp_all add: prefixes_ok_def main_prefixes_def)

end
