(* ===== verification/AssetNames.thy ===== *)
theory AssetNames
  imports AssetTypes
begin

text \<open>
  The names of assets (\<open>src/src/assets/assets.cpp\<close>): the regular expressions, the checks of the parts of a name, the type
  that a name gives its asset, and the names that are derived from others. A name is the list of its bytes.
\<close>

section \<open>Regular expressions\<close>

text \<open>
  \<open>std::regex_match\<close> with the ECMAScript grammar, as far as the patterns need it. The anchors at the two ends of a pattern
  have no effect when the whole of the text must match. A match is decided by derivatives.
\<close>

datatype regex = Nothing | Empty | One "u8 \<Rightarrow> bool" | Seq regex regex | Alt regex regex | Star regex

primrec nullable :: "regex \<Rightarrow> bool" where
  "nullable Nothing = False"
| "nullable Empty = True"
| "nullable (One p) = False"
| "nullable (Seq r s) \<longleftrightarrow> nullable r \<and> nullable s"
| "nullable (Alt r s) \<longleftrightarrow> nullable r \<or> nullable s"
| "nullable (Star r) = True"

definition seq_rx :: "regex \<Rightarrow> regex \<Rightarrow> regex" where
  "seq_rx r s = (case r of Nothing \<Rightarrow> Nothing | Empty \<Rightarrow> s | _ \<Rightarrow> Seq r s)"

definition alt_rx :: "regex \<Rightarrow> regex \<Rightarrow> regex" where
  "alt_rx r s = (case r of Nothing \<Rightarrow> s | _ \<Rightarrow> (case s of Nothing \<Rightarrow> r | _ \<Rightarrow> Alt r s))"

primrec deriv :: "u8 \<Rightarrow> regex \<Rightarrow> regex" where
  "deriv c Nothing = Nothing"
| "deriv c Empty = Nothing"
| "deriv c (One p) = (if p c then Empty else Nothing)"
| "deriv c (Seq r s) = (if nullable r then alt_rx (seq_rx (deriv c r) s) (deriv c s) else seq_rx (deriv c r) s)"
| "deriv c (Alt r s) = alt_rx (deriv c r) (deriv c s)"
| "deriv c (Star r) = seq_rx (deriv c r) (Star r)"

definition regex_match :: "bytes \<Rightarrow> regex \<Rightarrow> bool" where
  "regex_match s r \<longleftrightarrow> nullable (fold deriv s r)"

definition plus_rx :: "regex \<Rightarrow> regex" where "plus_rx r = Seq r (Star r)"
definition three_rx :: "regex \<Rightarrow> regex" where "three_rx r = Seq r (Seq r (Seq r (Star r)))"
definition two_rx :: "regex \<Rightarrow> regex" where "two_rx r = Seq r (Seq r (Star r))"

primrec lit_rx :: "bytes \<Rightarrow> regex" where
  "lit_rx [] = Empty"
| "lit_rx (c # cs) = Seq (One (\<lambda>x. x = c)) (lit_rx cs)"

primrec alts_rx :: "regex list \<Rightarrow> regex" where
  "alts_rx [] = Nothing"
| "alts_rx (r # rs) = Alt r (alts_rx rs)"

definition one_of :: "bytes \<Rightarrow> u8 \<Rightarrow> bool" where "one_of cs c \<longleftrightarrow> c \<in> set cs"
definition upper :: "u8 \<Rightarrow> bool" where "upper c \<longleftrightarrow> 65 \<le> c \<and> c \<le> 90"
definition lower :: "u8 \<Rightarrow> bool" where "lower c \<longleftrightarrow> 97 \<le> c \<and> c \<le> 122"
definition digit :: "u8 \<Rightarrow> bool" where "digit c \<longleftrightarrow> 48 \<le> c \<and> c \<le> 57"

text \<open>The dot of a pattern stands for any byte but a line terminator.\<close>

definition any_rx :: regex where "any_rx = Star (One (\<lambda>c. c \<noteq> 10 \<and> c \<noteq> 13))"

definition punct :: "u8 \<Rightarrow> bool" where "punct = one_of (str ''._'')"
definition name_char :: "u8 \<Rightarrow> bool" where "name_char c \<longleftrightarrow> upper c \<or> digit c \<or> punct c"
definition unique_char :: "u8 \<Rightarrow> bool" where
  "unique_char c \<longleftrightarrow> upper c \<or> lower c \<or> digit c \<or> one_of (str ''-@$%&*()[]{}_.?:'') c"
definition channel_char :: "u8 \<Rightarrow> bool" where
  "channel_char c \<longleftrightarrow> upper c \<or> lower c \<or> digit c \<or> one_of (str ''_'') c"

definition MAX_NAME_LENGTH :: nat where "MAX_NAME_LENGTH = 31"
definition MAX_CHANNEL_NAME_LENGTH :: nat where "MAX_CHANNEL_NAME_LENGTH = 12"

definition ROOT_NAME_CHARACTERS :: regex where "ROOT_NAME_CHARACTERS = three_rx (One name_char)"
definition SUB_NAME_CHARACTERS :: regex where "SUB_NAME_CHARACTERS = plus_rx (One name_char)"
definition UNIQUE_TAG_CHARACTERS :: regex where "UNIQUE_TAG_CHARACTERS = plus_rx (One unique_char)"
definition MSGCHANNEL_TAG_CHARACTERS :: regex where "MSGCHANNEL_TAG_CHARACTERS = plus_rx (One channel_char)"
definition VOTE_TAG_CHARACTERS :: regex where "VOTE_TAG_CHARACTERS = plus_rx (One name_char)"
definition QUALIFIER_NAME_CHARACTERS :: regex where "QUALIFIER_NAME_CHARACTERS = Seq (lit_rx (str ''#'')) (three_rx (One name_char))"
definition SUB_QUALIFIER_NAME_CHARACTERS :: regex where "SUB_QUALIFIER_NAME_CHARACTERS = Seq (lit_rx (str ''#'')) (plus_rx (One name_char))"
definition RESTRICTED_NAME_CHARACTERS :: regex where "RESTRICTED_NAME_CHARACTERS = Seq (lit_rx (str ''$'')) (three_rx (One name_char))"

definition DOUBLE_PUNCTUATION :: regex where "DOUBLE_PUNCTUATION = Seq any_rx (Seq (two_rx (One punct)) any_rx)"
definition LEADING_PUNCTUATION :: regex where "LEADING_PUNCTUATION = Seq (One punct) any_rx"
definition TRAILING_PUNCTUATION :: regex where "TRAILING_PUNCTUATION = Seq any_rx (One punct)"
definition QUALIFIER_LEADING_PUNCTUATION :: regex where
  "QUALIFIER_LEADING_PUNCTUATION = Seq (One (one_of (str ''#$''))) (Seq (One punct) any_rx)"

definition SUB_NAME_DELIMITER :: u8 where "SUB_NAME_DELIMITER = 47"
definition UNIQUE_TAG_DELIMITER :: u8 where "UNIQUE_TAG_DELIMITER = 35"
definition MSGCHANNEL_TAG_DELIMITER :: u8 where "MSGCHANNEL_TAG_DELIMITER = 126"
definition VOTE_TAG_DELIMITER :: u8 where "VOTE_TAG_DELIMITER = 94"

definition before_tag :: regex where "before_tag = plus_rx (One (\<lambda>c. \<not> one_of (str ''^~#!'') c))"
definition in_tag :: regex where "in_tag = plus_rx (One (\<lambda>c. \<not> one_of (str ''~#!/'') c))"

definition UNIQUE_INDICATOR :: regex where "UNIQUE_INDICATOR = Seq before_tag (Seq (lit_rx (str ''#'')) in_tag)"
definition MSGCHANNEL_INDICATOR :: regex where "MSGCHANNEL_INDICATOR = Seq before_tag (Seq (lit_rx (str ''~'')) in_tag)"
definition OWNER_INDICATOR :: regex where "OWNER_INDICATOR = Seq before_tag (lit_rx (str ''!''))"
definition VOTE_INDICATOR :: regex where "VOTE_INDICATOR = Seq before_tag (Seq (lit_rx (str ''^'')) in_tag)"

definition QUALIFIER_INDICATOR :: regex where "QUALIFIER_INDICATOR = Seq (lit_rx (str ''#'')) (three_rx (One name_char))"
definition SUB_QUALIFIER_INDICATOR :: regex where
  "SUB_QUALIFIER_INDICATOR = Seq (lit_rx (str ''#'')) (Seq (plus_rx (One name_char)) (Seq (lit_rx (str ''/#'')) (plus_rx (One name_char))))"
definition RESTRICTED_INDICATOR :: regex where "RESTRICTED_INDICATOR = Seq (lit_rx (str ''$'')) (three_rx (One name_char))"

definition reserved_names :: "bytes list" where
  "reserved_names = map str [''RVN'', ''RAVEN'', ''RAVENCOIN'', ''#RVN'', ''#RAVEN'', ''#RAVENCOIN'', ''HVQ'', ''HVN'', ''HIVE'',
     ''HIVECOIN'', ''#HVN'', ''#HIVE'', ''#HIVECOIN'']"
definition HIVE_NAMES :: regex where "HIVE_NAMES = alts_rx (map lit_rx reserved_names)"

section \<open>The parts of a name\<close>

definition IsRootNameValid :: "bytes \<Rightarrow> bool" where
  "IsRootNameValid name \<longleftrightarrow> regex_match name ROOT_NAME_CHARACTERS \<and> \<not> regex_match name DOUBLE_PUNCTUATION
     \<and> \<not> regex_match name LEADING_PUNCTUATION \<and> \<not> regex_match name TRAILING_PUNCTUATION \<and> \<not> regex_match name HIVE_NAMES"

definition IsQualifierNameValid :: "bytes \<Rightarrow> bool" where
  "IsQualifierNameValid name \<longleftrightarrow> regex_match name QUALIFIER_NAME_CHARACTERS \<and> \<not> regex_match name DOUBLE_PUNCTUATION
     \<and> \<not> regex_match name QUALIFIER_LEADING_PUNCTUATION \<and> \<not> regex_match name TRAILING_PUNCTUATION \<and> \<not> regex_match name HIVE_NAMES"

definition IsRestrictedNameValid :: "bytes \<Rightarrow> bool" where
  "IsRestrictedNameValid name \<longleftrightarrow> regex_match name RESTRICTED_NAME_CHARACTERS \<and> \<not> regex_match name DOUBLE_PUNCTUATION
     \<and> \<not> regex_match name LEADING_PUNCTUATION \<and> \<not> regex_match name TRAILING_PUNCTUATION \<and> \<not> regex_match name HIVE_NAMES"

definition IsSubQualifierNameValid :: "bytes \<Rightarrow> bool" where
  "IsSubQualifierNameValid name \<longleftrightarrow> regex_match name SUB_QUALIFIER_NAME_CHARACTERS \<and> \<not> regex_match name DOUBLE_PUNCTUATION
     \<and> \<not> regex_match name LEADING_PUNCTUATION \<and> \<not> regex_match name TRAILING_PUNCTUATION"

definition IsSubNameValid :: "bytes \<Rightarrow> bool" where
  "IsSubNameValid name \<longleftrightarrow> regex_match name SUB_NAME_CHARACTERS \<and> \<not> regex_match name DOUBLE_PUNCTUATION
     \<and> \<not> regex_match name LEADING_PUNCTUATION \<and> \<not> regex_match name TRAILING_PUNCTUATION"

definition IsUniqueTagValid :: "bytes \<Rightarrow> bool" where
  "IsUniqueTagValid tag \<longleftrightarrow> regex_match tag UNIQUE_TAG_CHARACTERS"

definition IsVoteTagValid :: "bytes \<Rightarrow> bool" where
  "IsVoteTagValid tag \<longleftrightarrow> regex_match tag VOTE_TAG_CHARACTERS"

definition IsMsgChannelTagValid :: "bytes \<Rightarrow> bool" where
  "IsMsgChannelTagValid tag \<longleftrightarrow> regex_match tag MSGCHANNEL_TAG_CHARACTERS \<and> \<not> regex_match tag DOUBLE_PUNCTUATION
     \<and> \<not> regex_match tag LEADING_PUNCTUATION \<and> \<not> regex_match tag TRAILING_PUNCTUATION"

text \<open>\<open>boost::split\<close> at one delimiter: there is always a first part, and parts may be empty.\<close>

primrec split :: "u8 \<Rightarrow> bytes \<Rightarrow> bytes list" where
  "split d [] = [[]]"
| "split d (c # s) = (if c = d then [] # split d s else (c # hd (split d s)) # tl (split d s))"

definition IsNameValidBeforeTag :: "bytes \<Rightarrow> bool" where
  "IsNameValidBeforeTag name =
     (let parts = split SUB_NAME_DELIMITER name
      in IsRootNameValid (hd parts) \<and> list_all IsSubNameValid (tl parts))"

definition IsQualifierNameValidBeforeTag :: "bytes \<Rightarrow> bool" where
  "IsQualifierNameValidBeforeTag name =
     (let parts = split SUB_NAME_DELIMITER name
      in if \<not> IsQualifierNameValid (hd parts) then False
         else if length parts > 2 then False
         else list_all IsSubQualifierNameValid (tl parts))"

definition IsAssetNameASubasset :: "bytes \<Rightarrow> bool" where
  "IsAssetNameASubasset name =
     (let parts = split SUB_NAME_DELIMITER name in if \<not> IsRootNameValid (hd parts) then False else length parts > 1)"

definition IsAssetNameASubQualifier :: "bytes \<Rightarrow> bool" where
  "IsAssetNameASubQualifier name =
     (let parts = split SUB_NAME_DELIMITER name in if \<not> IsQualifierNameValid (hd parts) then False else length parts > 1)"

section \<open>The type of a name\<close>

datatype name_error = NameTooLong nat | ChannelTooLong | NameTooShort nat | BadCharacters AssetType

text \<open>The check answers None for a valid name, and otherwise the reason that the error text gives.\<close>

definition IsTypeCheckNameValid :: "AssetType \<Rightarrow> bytes \<Rightarrow> name_error option" where
  "IsTypeCheckNameValid type name =
     (case type of
        UNIQUE \<Rightarrow>
          if length name > MAX_NAME_LENGTH then Some (NameTooLong MAX_NAME_LENGTH)
          else let parts = split UNIQUE_TAG_DELIMITER name
               in if \<not> (IsNameValidBeforeTag (hd parts) \<and> IsUniqueTagValid (last parts)) then Some (BadCharacters UNIQUE) else None
      | MSGCHANNEL \<Rightarrow>
          if length name > MAX_NAME_LENGTH then Some (NameTooLong MAX_NAME_LENGTH)
          else let parts = split MSGCHANNEL_TAG_DELIMITER name;
                   valid = IsNameValidBeforeTag (hd parts) \<and> IsMsgChannelTagValid (last parts)
               in if length (last parts) > MAX_CHANNEL_NAME_LENGTH then Some ChannelTooLong
                  else if \<not> valid then Some (BadCharacters MSGCHANNEL) else None
      | OWNER \<Rightarrow>
          if length name > MAX_NAME_LENGTH then Some (NameTooLong MAX_NAME_LENGTH)
          else if \<not> IsNameValidBeforeTag (take (length name - 1) name) then Some (BadCharacters OWNER) else None
      | VOTE \<Rightarrow>
          if length name > MAX_NAME_LENGTH then Some (NameTooLong MAX_NAME_LENGTH)
          else let parts = split VOTE_TAG_DELIMITER name
               in if \<not> (IsNameValidBeforeTag (hd parts) \<and> IsVoteTagValid (last parts)) then Some (BadCharacters VOTE) else None
      | QUALIFIER \<Rightarrow>
          if length name > MAX_NAME_LENGTH then Some (NameTooLong MAX_NAME_LENGTH)
          else if \<not> IsQualifierNameValidBeforeTag name then Some (BadCharacters QUALIFIER) else None
      | SUB_QUALIFIER \<Rightarrow>
          if length name > MAX_NAME_LENGTH then Some (NameTooLong MAX_NAME_LENGTH)
          else if \<not> IsQualifierNameValidBeforeTag name then Some (BadCharacters QUALIFIER) else None
      | RESTRICTED \<Rightarrow>
          if length name > MAX_NAME_LENGTH then Some (NameTooLong MAX_NAME_LENGTH)
          else if \<not> IsRestrictedNameValid name then Some (BadCharacters RESTRICTED) else None
      | _ \<Rightarrow>
          if length name > MAX_NAME_LENGTH - 1 then Some (NameTooLong (MAX_NAME_LENGTH - 1))
          else if \<not> IsAssetNameASubasset name \<and> length name < MIN_ASSET_LENGTH then Some (NameTooShort MIN_ASSET_LENGTH)
          else if \<not> IsNameValidBeforeTag name \<and> IsAssetNameASubasset name \<and> length name < 3 then Some (NameTooShort 3)
          else if \<not> IsNameValidBeforeTag name then Some (BadCharacters ROOT) else None)"

text \<open>
  The type is stored in a variable of the caller, whose value before is an argument: a name of more than 40 bytes
  leaves it as it is.
\<close>

definition IsAssetNameValid :: "bytes \<Rightarrow> AssetType \<Rightarrow> bool \<times> AssetType" where
  "IsAssetNameValid name assetType =
     (if length name > 40 then (False, assetType)
      else
        let check = (\<lambda>type assigned. let ret = (IsTypeCheckNameValid type name = None) in (ret, if ret then assigned else INVALID))
        in if regex_match name UNIQUE_INDICATOR then check UNIQUE UNIQUE
           else if regex_match name MSGCHANNEL_INDICATOR then check MSGCHANNEL MSGCHANNEL
           else if regex_match name OWNER_INDICATOR then check OWNER OWNER
           else if regex_match name VOTE_INDICATOR then check VOTE VOTE
           else if regex_match name QUALIFIER_INDICATOR
             then check QUALIFIER (if IsAssetNameASubQualifier name then SUB_QUALIFIER else QUALIFIER)
           else if regex_match name SUB_QUALIFIER_INDICATOR
             then check SUB_QUALIFIER (if IsAssetNameASubQualifier name then SUB_QUALIFIER else INVALID)
           else if regex_match name RESTRICTED_INDICATOR then check RESTRICTED RESTRICTED
           else let type = (if IsAssetNameASubasset name then SUB else ROOT) in check type type)"

definition asset_name_valid :: "bytes \<Rightarrow> bool" where
  "asset_name_valid name = fst (IsAssetNameValid name INVALID)"

definition IsAssetNameARoot :: "bytes \<Rightarrow> bool" where
  "IsAssetNameARoot name \<longleftrightarrow> IsAssetNameValid name INVALID = (True, ROOT)"

definition IsAssetNameAnOwner :: "bytes \<Rightarrow> bool" where
  "IsAssetNameAnOwner name \<longleftrightarrow> asset_name_valid name \<and> regex_match name OWNER_INDICATOR"

definition IsAssetNameAnRestricted :: "bytes \<Rightarrow> bool" where
  "IsAssetNameAnRestricted name \<longleftrightarrow> asset_name_valid name \<and> regex_match name RESTRICTED_INDICATOR"

definition IsAssetNameAQualifier :: "bytes \<Rightarrow> bool \<Rightarrow> bool" where
  "IsAssetNameAQualifier name fOnlyQualifiers =
     (if fOnlyQualifiers then asset_name_valid name \<and> regex_match name QUALIFIER_INDICATOR
      else asset_name_valid name \<and> (regex_match name QUALIFIER_INDICATOR \<or> regex_match name SUB_QUALIFIER_INDICATOR))"

definition IsAssetNameAnMsgChannel :: "bytes \<Rightarrow> bool" where
  "IsAssetNameAnMsgChannel name \<longleftrightarrow> asset_name_valid name \<and> regex_match name MSGCHANNEL_INDICATOR"

section \<open>Names derived from others\<close>

definition RestrictedNameToOwnerName :: "bytes \<Rightarrow> bytes" where
  "RestrictedNameToOwnerName name = (if \<not> IsAssetNameAnRestricted name then [] else drop 1 name @ OWNER_TAG)"

text \<open>The part of a name before the last place of a delimiter, or all of it.\<close>

definition before_last :: "u8 \<Rightarrow> bytes \<Rightarrow> bytes" where
  "before_last d s = (if d \<in> set s then rev (tl (dropWhile (\<lambda>c. c \<noteq> d) (rev s))) else s)"

definition GetParentName :: "bytes \<Rightarrow> bytes" where
  "GetParentName name =
     (case IsAssetNameValid name INVALID of
        (False, _) \<Rightarrow> []
      | (True, type) \<Rightarrow>
          (case type of
             SUB \<Rightarrow> before_last SUB_NAME_DELIMITER name
           | UNIQUE \<Rightarrow> before_last UNIQUE_TAG_DELIMITER name
           | MSGCHANNEL \<Rightarrow> before_last MSGCHANNEL_TAG_DELIMITER name
           | VOTE \<Rightarrow> before_last VOTE_TAG_DELIMITER name
           | SUB_QUALIFIER \<Rightarrow> before_last SUB_NAME_DELIMITER name
           | _ \<Rightarrow> name))"

definition GetUniqueAssetName :: "bytes \<Rightarrow> bytes \<Rightarrow> bytes" where
  "GetUniqueAssetName parent tag =
     (let unique = parent @ str ''#'' @ tag in if IsAssetNameValid unique INVALID \<noteq> (True, UNIQUE) then [] else unique)"

section \<open>What the patterns mean\<close>

inductive_set kleene :: "bytes set \<Rightarrow> bytes set" for A where
  kleene_Nil: "[] \<in> kleene A"
| kleene_step: "a \<in> A \<Longrightarrow> b \<in> kleene A \<Longrightarrow> a @ b \<in> kleene A"

primrec lang :: "regex \<Rightarrow> bytes set" where
  "lang Nothing = {}"
| "lang Empty = {[]}"
| "lang (One p) = {[c] | c. p c}"
| "lang (Seq r s) = {a @ b | a b. a \<in> lang r \<and> b \<in> lang s}"
| "lang (Alt r s) = lang r \<union> lang s"
| "lang (Star r) = kleene (lang r)"

lemma kleene_Cons: "c # s \<in> kleene A \<longleftrightarrow> (\<exists>a b. s = a @ b \<and> c # a \<in> A \<and> b \<in> kleene A)"
proof
  show "\<exists>a b. s = a @ b \<and> c # a \<in> A \<and> b \<in> kleene A" if "c # s \<in> kleene A"
    using that by (induction "c # s" arbitrary: c s rule: kleene.induct) (metis append_eq_Cons_conv append.left_neutral)
  show "c # s \<in> kleene A" if "\<exists>a b. s = a @ b \<and> c # a \<in> A \<and> b \<in> kleene A"
    using that kleene_step [of "c # _" A] by auto
qed

lemma nullable_lang: "nullable r \<longleftrightarrow> [] \<in> lang r"
  by (induction r) (auto intro: kleene_Nil)

lemma smart_lang [simp]: "lang (seq_rx r s) = lang (Seq r s)" "lang (alt_rx r s) = lang (Alt r s)"
  by (auto simp: seq_rx_def alt_rx_def split: regex.splits)

lemma deriv_lang: "s \<in> lang (deriv c r) \<longleftrightarrow> c # s \<in> lang r"
proof (induction r arbitrary: s)
  case (Seq r t)
  have "c # s \<in> lang (Seq r t) \<longleftrightarrow> (\<exists>a b. s = a @ b \<and> c # a \<in> lang r \<and> b \<in> lang t) \<or> ([] \<in> lang r \<and> c # s \<in> lang t)"
    by (auto simp: Cons_eq_append_conv)
  then show ?case using Seq by (auto simp: nullable_lang)
qed (auto simp: kleene_Cons)

lemma regex_match_lang: "regex_match s r \<longleftrightarrow> s \<in> lang r"
proof -
  have "nullable (fold deriv s r) \<longleftrightarrow> s \<in> lang r" by (induction s arbitrary: r) (simp_all add: nullable_lang deriv_lang)
  then show ?thesis by (simp add: regex_match_def)
qed

lemma star_one: "s \<in> kleene {[c] | c. p c} \<longleftrightarrow> list_all p s"
  by (induction s) (auto simp: kleene_Cons intro: kleene_Nil)

lemma lang_one: "s \<in> lang (Seq (One p) r) \<longleftrightarrow> (\<exists>c t. s = c # t \<and> p c \<and> t \<in> lang r)"
  by (auto intro: exI [of _ "[_]"])

lemma lang_plus: "s \<in> lang (plus_rx (One p)) \<longleftrightarrow> s \<noteq> [] \<and> list_all p s"
  unfolding plus_rx_def lang_one by (cases s) (auto simp: star_one)

lemma lang_three: "s \<in> lang (three_rx (One p)) \<longleftrightarrow> 3 \<le> length s \<and> list_all p s"
  unfolding three_rx_def lang_one by (auto simp: star_one numeral_eq_Suc Suc_le_length_iff)

lemma lang_lit: "s \<in> lang (Seq (lit_rx l) r) \<longleftrightarrow> (\<exists>t. s = l @ t \<and> t \<in> lang r)" "s \<in> lang (lit_rx l) \<longleftrightarrow> s = l"
proof -
  have l: "s \<in> lang (lit_rx l) \<longleftrightarrow> s = l" for s by (induction l arbitrary: s) auto
  then show "s \<in> lang (Seq (lit_rx l) r) \<longleftrightarrow> (\<exists>t. s = l @ t \<and> t \<in> lang r)" by auto
  show "s \<in> lang (lit_rx l) \<longleftrightarrow> s = l" by (rule l)
qed

lemma lang_alts: "s \<in> lang (alts_rx (map lit_rx ls)) \<longleftrightarrow> s \<in> set ls"
  by (induction ls) (auto simp: lang_lit)

text \<open>Texts without line terminators, which the dot may stand for.\<close>

definition line :: "bytes \<Rightarrow> bool" where "line = list_all (\<lambda>c. c \<noteq> 10 \<and> c \<noteq> 13)"

lemma lang_any: "s \<in> lang any_rx \<longleftrightarrow> line s"
  by (simp add: any_rx_def star_one line_def)

lemma name_chars_line: "list_all name_char s \<Longrightarrow> line s" "list_all unique_char s \<Longrightarrow> line s" "list_all channel_char s \<Longrightarrow> line s"
  unfolding line_def by (auto simp: list_all_iff name_char_def unique_char_def channel_char_def upper_def lower_def digit_def punct_def one_of_def str_def)

definition double_punct :: "bytes \<Rightarrow> bool" where
  "double_punct s \<longleftrightarrow> (\<exists>a x y b. s = a @ x # y # b \<and> punct x \<and> punct y)"

lemma punct_line: "punct c \<Longrightarrow> c \<noteq> 10 \<and> c \<noteq> 13"
  by (auto simp: punct_def one_of_def str_def)

lemma match_DOUBLE: "line s \<Longrightarrow> regex_match s DOUBLE_PUNCTUATION \<longleftrightarrow> double_punct s"
proof
  assume "regex_match s DOUBLE_PUNCTUATION"
  then obtain a m b where s: "s = a @ m @ b" "m \<in> lang (two_rx (One punct))"
    unfolding regex_match_lang DOUBLE_PUNCTUATION_def by auto
  from s(2) obtain x y t where "m = x # y # t" "punct x" "punct y" unfolding two_rx_def lang_one by blast
  then show "double_punct s" unfolding double_punct_def s(1) by auto
next
  assume l: "line s" and "double_punct s"
  then obtain a x y b where s: "s = a @ x # y # b" "punct x" "punct y" unfolding double_punct_def by blast
  have "[x, y] \<in> lang (two_rx (One punct))" unfolding two_rx_def lang_one using s by (auto intro: kleene_Nil)
  moreover have "line a" "line b" using l by (simp_all add: s(1) line_def)
  ultimately have "[x, y] @ b \<in> lang (Seq (two_rx (One punct)) any_rx)" "a \<in> lang any_rx"
    unfolding lang.simps(4) mem_Collect_eq
    by (intro exI [of _ "[x, y]"] exI [of _ b], simp add: lang_any) (simp add: lang_any \<open>line a\<close>)
  then show "regex_match s DOUBLE_PUNCTUATION"
    unfolding regex_match_lang DOUBLE_PUNCTUATION_def s(1) lang.simps(4) [of any_rx] by auto
qed

lemma match_LEADING: "line s \<Longrightarrow> regex_match s LEADING_PUNCTUATION \<longleftrightarrow> s \<noteq> [] \<and> punct (hd s)"
  unfolding regex_match_lang LEADING_PUNCTUATION_def lang_one lang_any by (cases s) (auto simp: line_def)

lemma match_TRAILING: "line s \<Longrightarrow> regex_match s TRAILING_PUNCTUATION \<longleftrightarrow> s \<noteq> [] \<and> punct (last s)"
proof -
  assume l: "line s"
  have "regex_match s TRAILING_PUNCTUATION \<longleftrightarrow> (\<exists>a c. s = a @ [c] \<and> line a \<and> punct c)"
    by (auto simp: regex_match_lang TRAILING_PUNCTUATION_def lang_any)
  also have "\<dots> \<longleftrightarrow> s \<noteq> [] \<and> punct (last s)"
    using l by (cases s rule: rev_cases) (auto simp: line_def)
  finally show ?thesis .
qed

lemma match_QUALIFIER_LEADING:
  "line q \<Longrightarrow> regex_match (35 # q) QUALIFIER_LEADING_PUNCTUATION \<longleftrightarrow> q \<noteq> [] \<and> punct (hd q)"
  unfolding regex_match_lang QUALIFIER_LEADING_PUNCTUATION_def lang_one lang_any
  by (cases q) (auto simp: line_def one_of_def str_def)

lemma match_HIVE_NAMES: "regex_match s HIVE_NAMES \<longleftrightarrow> s \<in> set reserved_names"
  by (simp add: regex_match_lang HIVE_NAMES_def lang_alts)

text \<open>A part of a name: some characters, without two marks of punctuation in a row or one at an end.\<close>

definition part_ok :: "bytes \<Rightarrow> bool" where
  "part_ok s \<longleftrightarrow> list_all name_char s \<and> \<not> double_punct s \<and> \<not> punct (hd s) \<and> \<not> punct (last s)"

lemma match_characters:
  "regex_match s ROOT_NAME_CHARACTERS \<longleftrightarrow> 3 \<le> length s \<and> list_all name_char s"
  "regex_match s SUB_NAME_CHARACTERS \<longleftrightarrow> s \<noteq> [] \<and> list_all name_char s"
  "regex_match s UNIQUE_TAG_CHARACTERS \<longleftrightarrow> s \<noteq> [] \<and> list_all unique_char s"
  "regex_match s MSGCHANNEL_TAG_CHARACTERS \<longleftrightarrow> s \<noteq> [] \<and> list_all channel_char s"
  "regex_match s VOTE_TAG_CHARACTERS \<longleftrightarrow> s \<noteq> [] \<and> list_all name_char s"
  "regex_match s QUALIFIER_NAME_CHARACTERS \<longleftrightarrow> (\<exists>q. s = str ''#'' @ q \<and> 3 \<le> length q \<and> list_all name_char q)"
  "regex_match s SUB_QUALIFIER_NAME_CHARACTERS \<longleftrightarrow> (\<exists>q. s = str ''#'' @ q \<and> q \<noteq> [] \<and> list_all name_char q)"
  "regex_match s RESTRICTED_NAME_CHARACTERS \<longleftrightarrow> (\<exists>q. s = str ''$'' @ q \<and> 3 \<le> length q \<and> list_all name_char q)"
  unfolding regex_match_lang ROOT_NAME_CHARACTERS_def SUB_NAME_CHARACTERS_def UNIQUE_TAG_CHARACTERS_def MSGCHANNEL_TAG_CHARACTERS_def
    VOTE_TAG_CHARACTERS_def QUALIFIER_NAME_CHARACTERS_def SUB_QUALIFIER_NAME_CHARACTERS_def RESTRICTED_NAME_CHARACTERS_def
    lang_lit lang_three lang_plus by (rule refl)+

lemmas match_ends = match_DOUBLE match_LEADING match_TRAILING match_QUALIFIER_LEADING match_HIVE_NAMES

lemma IsRootNameValid_iff: "IsRootNameValid s \<longleftrightarrow> 3 \<le> length s \<and> part_ok s \<and> s \<notin> set reserved_names"
  unfolding IsRootNameValid_def part_ok_def match_characters using name_chars_line(1) [of s] by (auto simp: match_ends)

lemma IsSubNameValid_iff: "IsSubNameValid s \<longleftrightarrow> s \<noteq> [] \<and> part_ok s"
  unfolding IsSubNameValid_def part_ok_def match_characters using name_chars_line(1) [of s] by (auto simp: match_ends)

lemma double_punct_Cons: "\<not> punct c \<Longrightarrow> double_punct (c # s) \<longleftrightarrow> double_punct s"
proof
  show "double_punct s" if "\<not> punct c" "double_punct (c # s)"
    using that unfolding double_punct_def by (auto simp: Cons_eq_append_conv)
  show "double_punct (c # s)" if "double_punct s"
    using that unfolding double_punct_def by (metis append_Cons)
qed

lemma sigils [simp]: "\<not> punct 35" "\<not> punct 36" "str ''#'' = [35]" "str ''$'' = [36]" "str ''!'' = [33]" "str ''~'' = [126]" "str ''^'' = [94]"
    "str ''/#'' = [47, 35]"
  by (simp_all add: punct_def one_of_def str_def)

lemma IsQualifierNameValid_iff:
  "IsQualifierNameValid s \<longleftrightarrow> (\<exists>q. s = str ''#'' @ q \<and> 3 \<le> length q \<and> part_ok q \<and> s \<notin> set reserved_names)"
proof -
  have "IsQualifierNameValid (35 # q) \<longleftrightarrow> part_ok q \<and> 35 # q \<notin> set reserved_names" if "3 \<le> length q" "list_all name_char q" for q
  proof -
    have "q \<noteq> []" "line q" "line (35 # q)" using that name_chars_line(1) [OF that(2)] by (auto simp: line_def)
    then show ?thesis using that
      by (simp add: IsQualifierNameValid_def part_ok_def match_characters match_ends double_punct_Cons)
  qed
  then show ?thesis by (auto simp: IsQualifierNameValid_def match_characters part_ok_def)
qed

text \<open>After the sign of a restricted name or of the second part of a qualifier, punctuation is accepted.\<close>

definition loose_part_ok :: "bytes \<Rightarrow> bool" where
  "loose_part_ok s \<longleftrightarrow> list_all name_char s \<and> \<not> double_punct s \<and> \<not> punct (last s)"

lemma IsSubQualifierNameValid_iff: "IsSubQualifierNameValid s \<longleftrightarrow> (\<exists>q. s = str ''#'' @ q \<and> q \<noteq> [] \<and> loose_part_ok q)"
proof -
  have "IsSubQualifierNameValid (35 # q) \<longleftrightarrow> loose_part_ok q" if "q \<noteq> []" "list_all name_char q" for q
  proof -
    have "line q" "line (35 # q)" using name_chars_line(1) [OF that(2)] by (auto simp: line_def)
    then show ?thesis using that
      by (simp add: IsSubQualifierNameValid_def loose_part_ok_def match_characters match_ends double_punct_Cons)
  qed
  then show ?thesis by (auto simp: IsSubQualifierNameValid_def match_characters loose_part_ok_def)
qed

lemma IsRestrictedNameValid_iff: "IsRestrictedNameValid s \<longleftrightarrow> (\<exists>q. s = str ''$'' @ q \<and> 3 \<le> length q \<and> loose_part_ok q)"
proof -
  have "36 # q \<notin> set reserved_names" for q by (simp add: reserved_names_def str_def)
  moreover have "IsRestrictedNameValid (36 # q) \<longleftrightarrow> loose_part_ok q \<and> 36 # q \<notin> set reserved_names"
    if "3 \<le> length q" "list_all name_char q" for q
  proof -
    have "q \<noteq> []" "line q" "line (36 # q)" using that name_chars_line(1) [OF that(2)] by (auto simp: line_def)
    then show ?thesis using that
      by (simp add: IsRestrictedNameValid_def loose_part_ok_def match_characters match_ends double_punct_Cons)
  qed
  ultimately show ?thesis by (auto simp: IsRestrictedNameValid_def match_characters loose_part_ok_def)
qed

definition channel_ok :: "bytes \<Rightarrow> bool" where
  "channel_ok s \<longleftrightarrow> s \<noteq> [] \<and> list_all channel_char s \<and> \<not> double_punct s \<and> \<not> punct (hd s) \<and> \<not> punct (last s)"

lemma IsMsgChannelTagValid_iff: "IsMsgChannelTagValid s \<longleftrightarrow> channel_ok s"
  unfolding IsMsgChannelTagValid_def channel_ok_def match_characters using name_chars_line(3) [of s] by (auto simp: match_ends)

section \<open>The parts are put together\<close>

fun join :: "u8 \<Rightarrow> bytes list \<Rightarrow> bytes" where
  "join d [] = []"
| "join d [p] = p"
| "join d (p # q # ps) = p @ d # join d (q # ps)"

lemma split_ne [simp]: "split d s \<noteq> []"
  by (cases s) auto

lemma split_one: "d \<notin> set s \<Longrightarrow> split d s = [s]"
  by (induction s) auto

lemma split_append: "split d (a @ d # b) = split d a @ split d b"
  by (induction a) auto

lemma split_first: "d \<notin> set a \<Longrightarrow> split d (a @ d # b) = a # split d b"
  by (simp add: split_append split_one)

lemma join_Cons: "join d ((c # a) # ps) = c # join d (a # ps)" "ps \<noteq> [] \<Longrightarrow> join d ([] # ps) = d # join d ps"
  by (cases ps; simp)+

lemma join_split: "join d (split d s) = s"
proof (induction s)
  case (Cons c s)
  then show ?case by (cases "split d s") (auto simp: join_Cons)
qed simp

lemma split_join: "ps \<noteq> [] \<Longrightarrow> \<forall>p \<in> set ps. d \<notin> set p \<Longrightarrow> split d (join d ps) = ps"
  by (induction d ps rule: join.induct) (auto simp: split_one split_first)

lemma split_parts: "p \<in> set (split d s) \<Longrightarrow> d \<notin> set p"
proof (induction s arbitrary: p)
  case (Cons c s)
  then show ?case by (cases "split d s") (auto split: if_splits)
qed simp

definition root_ok :: "bytes \<Rightarrow> bool" where "root_ok s \<longleftrightarrow> 3 \<le> length s \<and> part_ok s \<and> s \<notin> set reserved_names"
definition sub_ok :: "bytes \<Rightarrow> bool" where "sub_ok s \<longleftrightarrow> s \<noteq> [] \<and> part_ok s"

text \<open>The name of an asset with its parents: a root and any number of further parts.\<close>

definition path_ok :: "bytes \<Rightarrow> bool" where
  "path_ok s \<longleftrightarrow> (\<exists>r subs. s = join SUB_NAME_DELIMITER (r # subs) \<and> root_ok r \<and> list_all sub_ok subs)"

lemma name_char_not [simp]: "\<not> name_char 47" "\<not> name_char 35" "\<not> name_char 36" "\<not> name_char 33" "\<not> name_char 126" "\<not> name_char 94"
  by (simp_all add: name_char_def upper_def digit_def punct_def one_of_def str_def)

lemma part_ok_chars: "part_ok s \<Longrightarrow> c \<in> set s \<Longrightarrow> name_char c" "loose_part_ok s \<Longrightarrow> c \<in> set s \<Longrightarrow> name_char c"
  by (simp_all add: part_ok_def loose_part_ok_def list_all_iff)

lemma part_no_slash: "part_ok s \<Longrightarrow> 47 \<notin> set s" "loose_part_ok s \<Longrightarrow> 47 \<notin> set s"
  using part_ok_chars name_char_not(1) by blast+

lemma IsNameValidBeforeTag_iff: "IsNameValidBeforeTag s \<longleftrightarrow> path_ok s"
proof
  let ?ps = "split SUB_NAME_DELIMITER s"
  have s: "s = join SUB_NAME_DELIMITER (hd ?ps # tl ?ps)" by (simp add: join_split)
  assume "IsNameValidBeforeTag s"
  then have "root_ok (hd ?ps)" "list_all sub_ok (tl ?ps)"
    by (simp_all add: IsNameValidBeforeTag_def IsRootNameValid_iff IsSubNameValid_iff root_ok_def sub_ok_def Let_def list_all_iff)
  then show "path_ok s" unfolding path_ok_def using s by blast
next
  assume "path_ok s"
  then obtain r subs where s: "s = join SUB_NAME_DELIMITER (r # subs)" "root_ok r" "list_all sub_ok subs" unfolding path_ok_def by blast
  then have "\<forall>p \<in> set (r # subs). SUB_NAME_DELIMITER \<notin> set p"
    using part_no_slash by (auto simp: root_ok_def sub_ok_def list_all_iff SUB_NAME_DELIMITER_def)
  then have "split SUB_NAME_DELIMITER s = r # subs" unfolding s(1) by (intro split_join) simp
  then show "IsNameValidBeforeTag s" using s(2,3)
    by (simp add: IsNameValidBeforeTag_def IsRootNameValid_iff IsSubNameValid_iff root_ok_def sub_ok_def list_all_iff)
qed

lemma join_chars: "c \<in> set (join d ps) \<Longrightarrow> c = d \<or> (\<exists>p \<in> set ps. c \<in> set p)"
  by (induction d ps rule: join.induct) auto

lemma path_chars:
  assumes "path_ok s" "c \<in> set s"
  shows "name_char c \<or> c = 47"
proof -
  obtain r subs where s: "s = join SUB_NAME_DELIMITER (r # subs)" "root_ok r" "list_all sub_ok subs"
    using assms(1) unfolding path_ok_def by blast
  have "part_ok p" if "p \<in> set (r # subs)" for p using that s(2,3) by (auto simp: root_ok_def sub_ok_def list_all_iff)
  then show ?thesis using join_chars [of c SUB_NAME_DELIMITER "r # subs"] assms(2) part_ok_chars(1)
    unfolding s(1) SUB_NAME_DELIMITER_def by blast
qed

lemma path_hd: assumes "path_ok s" shows "s \<noteq> []" "name_char (hd s)"
proof -
  obtain r subs where s: "s = join SUB_NAME_DELIMITER (r # subs)" "root_ok r" using assms unfolding path_ok_def by blast
  have r: "r \<noteq> []" using s(2) by (auto simp: root_ok_def)
  then have "name_char (hd r)" using s(2) part_ok_chars(1) [of r "hd r"] by (simp add: root_ok_def)
  have "\<exists>t. s = r @ t" unfolding s(1) by (cases subs) auto
  then show "s \<noteq> []" "name_char (hd s)" using r \<open>name_char (hd r)\<close> by auto
qed

text \<open>The names of each type.\<close>

definition has_type :: "AssetType \<Rightarrow> bytes \<Rightarrow> bool" where
  "has_type t name =
     (case t of
        ROOT \<Rightarrow> length name \<le> 30 \<and> root_ok name
      | SUB \<Rightarrow> length name \<le> 30 \<and> path_ok name \<and> SUB_NAME_DELIMITER \<in> set name
      | OWNER \<Rightarrow> length name \<le> 31 \<and> (\<exists>p. name = p @ str ''!'' \<and> path_ok p)
      | UNIQUE \<Rightarrow> length name \<le> 31 \<and> (\<exists>p tag. name = p @ str ''#'' @ tag \<and> path_ok p \<and> tag \<noteq> [] \<and> list_all unique_char tag)
      | MSGCHANNEL \<Rightarrow> length name \<le> 31 \<and> (\<exists>p tag. name = p @ str ''~'' @ tag \<and> path_ok p \<and> channel_ok tag \<and> length tag \<le> 12)
      | VOTE \<Rightarrow> length name \<le> 31 \<and> (\<exists>p b. name = p @ str ''^'' @ b \<and> path_ok p \<and> list_all (\<lambda>c. \<not> one_of (str ''~#!/'') c) b
          \<and> last (split VOTE_TAG_DELIMITER b) \<noteq> [] \<and> list_all name_char (last (split VOTE_TAG_DELIMITER b)))
      | QUALIFIER \<Rightarrow> length name \<le> 31 \<and> (\<exists>q. name = str ''#'' @ q \<and> 3 \<le> length q \<and> part_ok q \<and> name \<notin> set reserved_names)
      | SUB_QUALIFIER \<Rightarrow> length name \<le> 31 \<and> (\<exists>q p. name = str ''#'' @ q @ str ''/#'' @ p \<and> 3 \<le> length q \<and> part_ok q
          \<and> str ''#'' @ q \<notin> set reserved_names \<and> p \<noteq> [] \<and> loose_part_ok p)
      | RESTRICTED \<Rightarrow> length name \<le> 31 \<and> (\<exists>q. name = str ''$'' @ q \<and> 3 \<le> length q \<and> loose_part_ok q)
      | _ \<Rightarrow> False)"

text \<open>The patterns that tell the types apart.\<close>

definition tagged :: "u8 \<Rightarrow> bytes \<Rightarrow> bytes \<Rightarrow> bytes \<Rightarrow> bool" where
  "tagged d s a b \<longleftrightarrow> s = a @ d # b \<and> a \<noteq> [] \<and> list_all (\<lambda>c. \<not> one_of (str ''^~#!'') c) a
     \<and> b \<noteq> [] \<and> list_all (\<lambda>c. \<not> one_of (str ''~#!/'') c) b"

lemma lang_tagged: "s \<in> lang (Seq before_tag (Seq (lit_rx [d]) in_tag)) \<longleftrightarrow> (\<exists>a b. tagged d s a b)"
proof -
  have "s \<in> lang (Seq before_tag (Seq (lit_rx [d]) in_tag)) \<longleftrightarrow>
      (\<exists>a b. s = a @ [d] @ b \<and> a \<in> lang before_tag \<and> b \<in> lang in_tag)"
    by (subst lang.simps(4)) (unfold lang_lit, blast)
  then show ?thesis unfolding tagged_def before_tag_def in_tag_def lang_plus by auto
qed

lemma match_indicators:
  "regex_match s UNIQUE_INDICATOR \<longleftrightarrow> (\<exists>a b. tagged 35 s a b)"
  "regex_match s MSGCHANNEL_INDICATOR \<longleftrightarrow> (\<exists>a b. tagged 126 s a b)"
  "regex_match s VOTE_INDICATOR \<longleftrightarrow> (\<exists>a b. tagged 94 s a b)"
  "regex_match s OWNER_INDICATOR \<longleftrightarrow> (\<exists>a. s = a @ [33] \<and> a \<noteq> [] \<and> list_all (\<lambda>c. \<not> one_of (str ''^~#!'') c) a)"
  "regex_match s QUALIFIER_INDICATOR \<longleftrightarrow> (\<exists>q. s = 35 # q \<and> 3 \<le> length q \<and> list_all name_char q)"
  "regex_match s RESTRICTED_INDICATOR \<longleftrightarrow> (\<exists>q. s = 36 # q \<and> 3 \<le> length q \<and> list_all name_char q)"
  unfolding regex_match_lang UNIQUE_INDICATOR_def MSGCHANNEL_INDICATOR_def VOTE_INDICATOR_def OWNER_INDICATOR_def
    QUALIFIER_INDICATOR_def RESTRICTED_INDICATOR_def sigils lang_tagged lang_lit lang_three
  by (auto simp: before_tag_def lang_plus lang_lit)

lemma match_SUB_QUALIFIER: "regex_match s SUB_QUALIFIER_INDICATOR \<longleftrightarrow>
    (\<exists>q p. s = 35 # q @ 47 # 35 # p \<and> q \<noteq> [] \<and> list_all name_char q \<and> p \<noteq> [] \<and> list_all name_char p)"
proof -
  have "s \<in> lang (Seq (plus_rx (One name_char)) (Seq (lit_rx [47, 35]) (plus_rx (One name_char)))) \<longleftrightarrow>
    (\<exists>q p. s = q @ 47 # 35 # p \<and> q \<noteq> [] \<and> list_all name_char q \<and> p \<noteq> [] \<and> list_all name_char p)" for s
    by (subst lang.simps(4)) (unfold lang_lit lang_plus, auto)
  then show ?thesis unfolding regex_match_lang SUB_QUALIFIER_INDICATOR_def sigils lang_lit by auto
qed

lemma first_tag: "d \<notin> set a \<Longrightarrow> d \<notin> set p \<Longrightarrow> a @ d # b = p @ d # t \<longleftrightarrow> a = p \<and> b = t"
proof (induction a arbitrary: p)
  case Nil
  then show ?case by (cases p) auto
next
  case (Cons c a)
  then show ?case by (cases p) auto
qed

lemma path_no_tag: "path_ok p \<Longrightarrow> 35 \<notin> set p \<and> 126 \<notin> set p \<and> 94 \<notin> set p \<and> 33 \<notin> set p"
  using path_chars by fastforce

lemma tagged_parts:
  assumes "tagged d s a b" "d \<in> {35, 126, 94}"
  shows "s = a @ d # b" "d \<notin> set a" "b \<noteq> []" "d \<noteq> 94 \<Longrightarrow> d \<notin> set b" "list_all (\<lambda>c. \<not> one_of (str ''~#!/'') c) b"
  using assms by (auto simp: tagged_def list_all_iff one_of_def str_def)

lemma check_UNIQUE:
  assumes "tagged 35 s a b"
  shows "IsTypeCheckNameValid UNIQUE s = None \<longleftrightarrow> has_type UNIQUE s"
proof -
  note t = tagged_parts [OF assms, simplified]
  have "(\<exists>p tag. s = p @ 35 # tag \<and> path_ok p \<and> tag \<noteq> [] \<and> list_all unique_char tag) \<longleftrightarrow> path_ok a \<and> list_all unique_char b"
    using t path_no_tag by (metis first_tag)
  moreover have "split 35 s = [a, b]" using t(2,4) unfolding t(1) by (simp add: split_first split_one)
  ultimately show ?thesis using t(3)
    by (auto simp: IsTypeCheckNameValid_def has_type_def UNIQUE_TAG_DELIMITER_def IsNameValidBeforeTag_iff IsUniqueTagValid_def
        match_characters MAX_NAME_LENGTH_def)
qed

lemma check_MSGCHANNEL:
  assumes "tagged 126 s a b"
  shows "IsTypeCheckNameValid MSGCHANNEL s = None \<longleftrightarrow> has_type MSGCHANNEL s"
proof -
  note t = tagged_parts [OF assms, simplified]
  have "(\<exists>p tag. s = p @ 126 # tag \<and> path_ok p \<and> channel_ok tag \<and> length tag \<le> 12) \<longleftrightarrow> path_ok a \<and> channel_ok b \<and> length b \<le> 12"
    using t path_no_tag by (metis first_tag)
  moreover have "split 126 s = [a, b]" using t(2,4) unfolding t(1) by (simp add: split_first split_one)
  ultimately show ?thesis using t(3)
    by (auto simp: IsTypeCheckNameValid_def has_type_def MSGCHANNEL_TAG_DELIMITER_def IsNameValidBeforeTag_iff IsMsgChannelTagValid_iff
        MAX_NAME_LENGTH_def MAX_CHANNEL_NAME_LENGTH_def Let_def)
qed

lemma check_VOTE:
  assumes "tagged 94 s a b"
  shows "IsTypeCheckNameValid VOTE s = None \<longleftrightarrow> has_type VOTE s"
proof -
  note t = tagged_parts [OF assms, simplified]
  let ?l = "\<lambda>b. last (split 94 b)"
  have "(\<exists>p b. s = p @ 94 # b \<and> path_ok p \<and> list_all (\<lambda>c. \<not> one_of (str ''~#!/'') c) b \<and> ?l b \<noteq> [] \<and> list_all name_char (?l b))
      \<longleftrightarrow> path_ok a \<and> ?l b \<noteq> [] \<and> list_all name_char (?l b)"
    using t path_no_tag by (metis first_tag)
  moreover have "split 94 s = a # split 94 b" using t(2) unfolding t(1) by (simp add: split_first)
  ultimately show ?thesis
    by (auto simp: IsTypeCheckNameValid_def has_type_def VOTE_TAG_DELIMITER_def IsNameValidBeforeTag_iff IsVoteTagValid_def
        match_characters MAX_NAME_LENGTH_def Let_def)
qed

lemma check_OWNER:
  assumes "s = a @ [33]"
  shows "IsTypeCheckNameValid OWNER s = None \<longleftrightarrow> has_type OWNER s"
  using assms by (simp add: IsTypeCheckNameValid_def has_type_def IsNameValidBeforeTag_iff MAX_NAME_LENGTH_def)

lemma check_QUALIFIER:
  assumes "s = 35 # q" "list_all name_char q"
  shows "IsTypeCheckNameValid QUALIFIER s = None \<longleftrightarrow> has_type QUALIFIER s" "\<not> IsAssetNameASubQualifier s"
proof -
  have "47 \<notin> set s" using assms by (auto simp: list_all_iff)
  then have "split SUB_NAME_DELIMITER s = [s]" by (simp add: split_one SUB_NAME_DELIMITER_def)
  then show "IsTypeCheckNameValid QUALIFIER s = None \<longleftrightarrow> has_type QUALIFIER s" "\<not> IsAssetNameASubQualifier s"
    using assms(1) by (auto simp: IsTypeCheckNameValid_def has_type_def IsQualifierNameValidBeforeTag_def IsQualifierNameValid_iff
        MAX_NAME_LENGTH_def IsAssetNameASubQualifier_def)
qed

lemma check_SUB_QUALIFIER:
  assumes "s = 35 # q @ 47 # 35 # p" "list_all name_char q" "list_all name_char p"
  shows "IsTypeCheckNameValid SUB_QUALIFIER s = None \<longleftrightarrow> has_type SUB_QUALIFIER s"
    "IsTypeCheckNameValid SUB_QUALIFIER s = None \<Longrightarrow> IsAssetNameASubQualifier s"
proof -
  have "47 \<notin> set (35 # q)" "47 \<notin> set (35 # p)" using assms(2,3) by (auto simp: list_all_iff)
  then have sp: "split SUB_NAME_DELIMITER s = [35 # q, 35 # p]"
    unfolding assms(1) SUB_NAME_DELIMITER_def using split_first [of 47 "35 # q" "35 # p"] by (simp add: split_one)
  have "s = 35 # q' @ 47 # 35 # p' \<longleftrightarrow> q = q' \<and> p = p'" if "part_ok q'" for q' p'
    using first_tag [of 47 q q' "35 # p" "35 # p'"] part_no_slash(1) [OF that] \<open>47 \<notin> set (35 # q)\<close> unfolding assms(1) by auto
  then have "(\<exists>q' p'. s = 35 # q' @ 47 # 35 # p' \<and> 3 \<le> length q' \<and> part_ok q' \<and> 35 # q' \<notin> set reserved_names
      \<and> p' \<noteq> [] \<and> loose_part_ok p') \<longleftrightarrow> 3 \<le> length q \<and> part_ok q \<and> 35 # q \<notin> set reserved_names \<and> p \<noteq> [] \<and> loose_part_ok p" by blast
  then have "has_type SUB_QUALIFIER s \<longleftrightarrow> length s \<le> 31 \<and> 3 \<le> length q \<and> part_ok q \<and> 35 # q \<notin> set reserved_names
      \<and> p \<noteq> [] \<and> loose_part_ok p" by (simp add: has_type_def)
  then show "IsTypeCheckNameValid SUB_QUALIFIER s = None \<longleftrightarrow> has_type SUB_QUALIFIER s"
    "IsTypeCheckNameValid SUB_QUALIFIER s = None \<Longrightarrow> IsAssetNameASubQualifier s"
    by (auto simp: sp IsTypeCheckNameValid_def IsQualifierNameValidBeforeTag_def IsQualifierNameValid_iff IsSubQualifierNameValid_iff
        MAX_NAME_LENGTH_def IsAssetNameASubQualifier_def split: if_splits)
qed

lemma check_RESTRICTED: "IsTypeCheckNameValid RESTRICTED s = None \<longleftrightarrow> has_type RESTRICTED s"
  by (auto simp: IsTypeCheckNameValid_def has_type_def IsRestrictedNameValid_iff MAX_NAME_LENGTH_def)

lemma split_two: "1 < length (split d s) \<longleftrightarrow> d \<in> set s"
proof
  show "d \<in> set s" if "1 < length (split d s)" using that split_one [of d s] by fastforce
  show "1 < length (split d s)" if "d \<in> set s"
    using that by (induction s) (auto simp: Suc_lessI neq_Nil_conv)
qed

lemma path_root: "path_ok s \<Longrightarrow> 47 \<notin> set s \<Longrightarrow> root_ok s"
  using IsNameValidBeforeTag_iff [of s] split_one [of 47 s]
  by (simp add: IsNameValidBeforeTag_def SUB_NAME_DELIMITER_def IsRootNameValid_iff root_ok_def)

lemma root_path: "root_ok s \<Longrightarrow> path_ok s \<and> 47 \<notin> set s"
proof
  assume r: "root_ok s"
  show "path_ok s" unfolding path_ok_def by (rule exI [of _ s], rule exI [of _ "[]"]) (simp add: r)
  show "47 \<notin> set s" using r part_no_slash(1) by (simp add: root_ok_def)
qed

lemma path_subasset: "path_ok s \<Longrightarrow> IsAssetNameASubasset s \<longleftrightarrow> 47 \<in> set s"
  using IsNameValidBeforeTag_iff [of s] split_two [of 47 s]
  by (simp add: IsNameValidBeforeTag_def IsAssetNameASubasset_def SUB_NAME_DELIMITER_def Let_def)

lemma check_plain:
  assumes "t = (if IsAssetNameASubasset s then SUB else ROOT)"
  shows "IsTypeCheckNameValid t s = None \<longleftrightarrow> has_type t s"
proof (cases "path_ok s")
  case True
  have "3 \<le> length s" if "47 \<notin> set s" using path_root [OF True that] by (simp add: root_ok_def)
  then show ?thesis using assms True path_subasset [OF True] path_root [OF True] root_path [of s]
    by (auto simp: IsTypeCheckNameValid_def has_type_def IsNameValidBeforeTag_iff MAX_NAME_LENGTH_def MIN_ASSET_LENGTH_def
        SUB_NAME_DELIMITER_def)
next
  case False
  then show ?thesis using assms root_path [of s]
    by (auto simp: IsTypeCheckNameValid_def has_type_def IsNameValidBeforeTag_iff split: if_splits)
qed

lemma has_type_sound:
  assumes "IsAssetNameValid s t0 = (True, t)"
  shows "has_type t s"
proof -
  consider (unique) "\<exists>a b. tagged 35 s a b" | (channel) "\<nexists>a b. tagged 35 s a b" "\<exists>a b. tagged 126 s a b"
    | (owner) "\<nexists>a b. tagged 35 s a b" "\<nexists>a b. tagged 126 s a b" "regex_match s OWNER_INDICATOR"
    | (other) "\<nexists>a b. tagged 35 s a b" "\<nexists>a b. tagged 126 s a b" "\<not> regex_match s OWNER_INDICATOR" by blast
  then show ?thesis
  proof cases
    case unique
    then show ?thesis using assms check_UNIQUE by (auto simp: IsAssetNameValid_def match_indicators Let_def split: if_splits)
  next
    case channel
    then show ?thesis using assms check_MSGCHANNEL by (auto simp: IsAssetNameValid_def match_indicators Let_def split: if_splits)
  next
    case owner
    then show ?thesis using assms check_OWNER
      by (auto simp: IsAssetNameValid_def match_indicators(1-3) Let_def match_indicators(4) split: if_splits)
  next
    case other
    then show ?thesis
      using assms check_VOTE [of s] check_QUALIFIER [of s] check_SUB_QUALIFIER [of s] check_RESTRICTED [of s] check_plain [of _ s]
      by (auto simp: IsAssetNameValid_def match_indicators(1-3,5,6) match_SUB_QUALIFIER Let_def split: if_splits)
  qed
qed

lemma tagged_char: "tagged d s a b \<Longrightarrow> d \<in> set s \<and> \<not> one_of (str ''^~#!'') (hd s)"
  by (cases a) (auto simp: tagged_def)

lemma owner_char: "regex_match s OWNER_INDICATOR \<Longrightarrow> 33 \<in> set s \<and> \<not> one_of (str ''^~#!'') (hd s)"
  unfolding match_indicators by (auto simp: neq_Nil_conv)

lemma path_before_tag: "path_ok p \<Longrightarrow> p \<noteq> [] \<and> list_all (\<lambda>c. \<not> one_of (str ''^~#!'') c) p"
  using path_no_tag [of p] path_hd(1) [of p] by (auto simp: list_all_iff one_of_def str_def)

lemma unique_chars: "list_all unique_char b \<Longrightarrow> list_all (\<lambda>c. \<not> one_of (str ''~#!/'') c) b"
  unfolding list_all_iff by (auto simp: one_of_def str_def unique_char_def upper_def lower_def digit_def)

lemma channel_chars: "channel_ok b \<Longrightarrow> list_all (\<lambda>c. \<not> one_of (str ''~#!/'') c) b \<and> 35 \<notin> set b"
  unfolding channel_ok_def list_all_iff by (auto simp: one_of_def str_def channel_char_def upper_def lower_def digit_def)

lemma part_no_tag: "list_all name_char s \<Longrightarrow> 35 \<notin> set s \<and> 126 \<notin> set s \<and> 94 \<notin> set s \<and> 33 \<notin> set s \<and> 47 \<notin> set s"
  by (auto simp: list_all_iff)

lemma complete_tagged:
  assumes "has_type t s" "t \<in> {UNIQUE, MSGCHANNEL, OWNER, VOTE}"
  shows "IsAssetNameValid s t0 = (True, t)"
proof -
  have len: "\<not> length s > 40" using assms by (auto simp: has_type_def)
  consider (unique) "t = UNIQUE" | (channel) "t = MSGCHANNEL" | (owner) "t = OWNER" | (vote) "t = VOTE" using assms(2) by auto
  then show ?thesis
  proof cases
    case unique
    then obtain p tag where "s = p @ 35 # tag" "path_ok p" "tag \<noteq> []" "list_all unique_char tag" using assms(1) by (auto simp: has_type_def)
    then have "tagged 35 s p tag" using path_before_tag unique_chars by (simp add: tagged_def)
    then show ?thesis using check_UNIQUE assms(1) len unique by (auto simp: IsAssetNameValid_def match_indicators)
  next
    case channel
    then obtain p tag where s: "s = p @ 126 # tag" "path_ok p" "channel_ok tag" using assms(1) by (auto simp: has_type_def)
    then have "tagged 126 s p tag" using path_before_tag channel_chars by (auto simp: tagged_def channel_ok_def)
    moreover have "35 \<notin> set s" using s path_no_tag channel_chars by auto
    then have "\<nexists>a b. tagged 35 s a b" using tagged_char by blast
    ultimately show ?thesis using check_MSGCHANNEL assms(1) len channel by (auto simp: IsAssetNameValid_def match_indicators)
  next
    case owner
    then obtain p where s: "s = p @ [33]" "path_ok p" using assms(1) by (auto simp: has_type_def)
    then have "regex_match s OWNER_INDICATOR" using path_before_tag by (simp add: match_indicators)
    moreover have "35 \<notin> set s" "126 \<notin> set s" using s path_no_tag by auto
    then have "\<nexists>a b. tagged 35 s a b" "\<nexists>a b. tagged 126 s a b" using tagged_char by blast+
    ultimately show ?thesis using check_OWNER [OF s(1)] assms(1) len owner by (simp add: IsAssetNameValid_def match_indicators(1,2))
  next
    case vote
    then obtain p b where s: "s = p @ 94 # b" "path_ok p" "list_all (\<lambda>c. \<not> one_of (str ''~#!/'') c) b" "last (split 94 b) \<noteq> []"
      using assms(1) by (auto simp: has_type_def VOTE_TAG_DELIMITER_def)
    have "b \<noteq> []" using s(4) by auto
    then have t: "tagged 94 s p b" using s path_before_tag by (simp add: tagged_def)
    have "35 \<notin> set s" "126 \<notin> set s" "33 \<notin> set s" using s path_no_tag by (auto simp: list_all_iff one_of_def str_def)
    then have "\<nexists>a b. tagged 35 s a b" "\<nexists>a b. tagged 126 s a b" "\<not> regex_match s OWNER_INDICATOR"
      using tagged_char owner_char by blast+
    then show ?thesis using t check_VOTE [OF t] assms(1) len vote by (auto simp: IsAssetNameValid_def match_indicators(1-3))
  qed
qed

lemma no_tags:
  assumes "35 \<notin> set s \<or> hd s = 35" "126 \<notin> set s" "94 \<notin> set s" "33 \<notin> set s"
  shows "\<not> regex_match s UNIQUE_INDICATOR" "\<not> regex_match s MSGCHANNEL_INDICATOR" "\<not> regex_match s OWNER_INDICATOR" "\<not> regex_match s VOTE_INDICATOR"
proof -
  have "one_of (str ''^~#!'') 35" by (simp add: one_of_def str_def)
  then show "\<not> regex_match s UNIQUE_INDICATOR" using assms(1) tagged_char [of 35 s] by (auto simp: match_indicators)
  show "\<not> regex_match s MSGCHANNEL_INDICATOR" "\<not> regex_match s OWNER_INDICATOR" "\<not> regex_match s VOTE_INDICATOR"
    using assms(2-4) tagged_char [of 126 s] tagged_char [of 94 s] owner_char [of s] by (auto simp: match_indicators(2,3))
qed

lemma complete_untagged:
  assumes "has_type t s" "t \<notin> {UNIQUE, MSGCHANNEL, OWNER, VOTE}"
  shows "IsAssetNameValid s t0 = (True, t)"
proof -
  have len: "\<not> length s > 40" using assms by (auto simp: has_type_def split: AssetType.splits)
  consider (path) "t = ROOT \<or> t = SUB" | (qual) "t = QUALIFIER" | (sub) "t = SUB_QUALIFIER" | (restr) "t = RESTRICTED"
    using assms by (cases t) (auto simp: has_type_def)
  then show ?thesis
  proof cases
    case path
    then have p: "path_ok s" "t = (if IsAssetNameASubasset s then SUB else ROOT)"
      using assms(1) root_path path_subasset by (auto simp: has_type_def SUB_NAME_DELIMITER_def)
    have "name_char (hd s)" "s \<noteq> []" using path_hd [OF p(1)] by auto
    then have "\<not> regex_match s QUALIFIER_INDICATOR" "\<not> regex_match s SUB_QUALIFIER_INDICATOR" "\<not> regex_match s RESTRICTED_INDICATOR"
      by (auto simp: match_indicators match_SUB_QUALIFIER)
    then show ?thesis using no_tags [of s] path_no_tag [OF p(1)] check_plain [OF p(2)] assms(1) p(2) len
      by (simp add: IsAssetNameValid_def Let_def)
  next
    case qual
    then obtain q where s: "s = 35 # q" "3 \<le> length q" "list_all name_char q" using assms(1) by (auto simp: has_type_def part_ok_def)
    have "regex_match s QUALIFIER_INDICATOR" using s by (simp add: match_indicators)
    then show ?thesis using no_tags [of s] part_no_tag [OF s(3)] check_QUALIFIER [OF s(1,3)] assms(1) qual len
      by (simp add: IsAssetNameValid_def s(1))
  next
    case sub
    then obtain q p where "s = 35 # q @ 47 # 35 # p" "3 \<le> length q" "part_ok q" "p \<noteq> []" "loose_part_ok p"
      using assms(1) by (simp add: has_type_def) blast
    then have s: "s = 35 # q @ 47 # 35 # p" "list_all name_char q" "list_all name_char p" "q \<noteq> []" "p \<noteq> []"
      by (auto simp: part_ok_def loose_part_ok_def)
    have "regex_match s SUB_QUALIFIER_INDICATOR" "\<not> regex_match s QUALIFIER_INDICATOR"
      using s by (auto simp: match_indicators match_SUB_QUALIFIER)
    then show ?thesis using no_tags [of s] part_no_tag [OF s(2)] part_no_tag [OF s(3)] check_SUB_QUALIFIER [OF s(1,2,3)] assms(1) sub len
      by (simp add: IsAssetNameValid_def s(1))
  next
    case restr
    then obtain q where s: "s = 36 # q" "3 \<le> length q" "list_all name_char q" using assms(1) by (auto simp: has_type_def loose_part_ok_def)
    have "regex_match s RESTRICTED_INDICATOR" "\<not> regex_match s QUALIFIER_INDICATOR" "\<not> regex_match s SUB_QUALIFIER_INDICATOR"
      using s by (auto simp: match_indicators match_SUB_QUALIFIER)
    then show ?thesis using no_tags [of s] part_no_tag [OF s(3)] check_RESTRICTED [of s] assms(1) restr len
      by (simp add: IsAssetNameValid_def s(1))
  qed
qed

lemma has_type_iff: "IsAssetNameValid s t0 = (True, t) \<longleftrightarrow> has_type t s"
  using has_type_sound complete_tagged complete_untagged by blast

lemma before_last_append: "d \<notin> set b \<Longrightarrow> before_last d (a @ d # b) = a"
proof -
  assume "d \<notin> set b"
  then have "dropWhile (\<lambda>c. c \<noteq> d) (rev b @ d # rev a) = d # rev a"
    by (subst dropWhile_append2) auto
  then show ?thesis by (simp add: before_last_def)
qed

lemma join_snoc: "join d (r # subs @ [q]) = join d (r # subs) @ d # q"
  by (induction subs arbitrary: r) auto

lemma path_last:
  assumes "path_ok s" "47 \<in> set s"
  obtains p q where "s = p @ 47 # q" "path_ok p" "sub_ok q"
proof -
  obtain r subs where s: "s = join 47 (r # subs)" "root_ok r" "list_all sub_ok subs"
    using assms(1) by (auto simp: path_ok_def SUB_NAME_DELIMITER_def)
  have "subs \<noteq> []" using assms(2) root_path [OF s(2)] s(1) by auto
  then obtain subs' q where q: "subs = subs' @ [q]" by (cases subs rule: rev_cases) auto
  have "path_ok (join 47 (r # subs'))" using s(2,3) q unfolding path_ok_def SUB_NAME_DELIMITER_def by auto
  then show thesis using that s(1,3) q by (simp add: join_snoc)
qed

lemma path_type: "path_ok p \<Longrightarrow> length p \<le> 30 \<Longrightarrow> has_type (if 47 \<in> set p then SUB else ROOT) p"
  using path_root by (simp add: has_type_def SUB_NAME_DELIMITER_def)

text \<open>Two names that the check lets through: the owner token of the one and the parent of the other have no valid name.\<close>

lemma name_check_gaps:
  "IsAssetNameValid (str ''$_BEE'') INVALID = (True, RESTRICTED)
   \<and> IsAssetNameValid (RestrictedNameToOwnerName (str ''$_BEE'')) INVALID = (False, INVALID)
   \<and> IsAssetNameValid (str ''BEE^x^Y'') INVALID = (True, VOTE)
   \<and> IsAssetNameValid (GetParentName (str ''BEE^x^Y'')) INVALID = (False, INVALID)"
proof -
  have r: "IsAssetNameValid (str ''$_BEE'') INVALID = (True, RESTRICTED)" by code_simp
  moreover have "regex_match (str ''$_BEE'') RESTRICTED_INDICATOR" by code_simp
  then have "RestrictedNameToOwnerName (str ''$_BEE'') = str ''_BEE!''" using r
    by (simp add: RestrictedNameToOwnerName_def IsAssetNameAnRestricted_def asset_name_valid_def) (simp add: OWNER_TAG_def str_def)
  moreover have "IsAssetNameValid (str ''_BEE!'') INVALID = (False, INVALID)" by code_simp
  moreover have v: "IsAssetNameValid (str ''BEE^x^Y'') INVALID = (True, VOTE)" by code_simp
  have "before_last VOTE_TAG_DELIMITER (str ''BEE^x^Y'') = str ''BEE^x''" by code_simp
  then have "GetParentName (str ''BEE^x^Y'') = str ''BEE^x''" using v by (simp add: GetParentName_def)
  moreover have "IsAssetNameValid (str ''BEE^x'') INVALID = (False, INVALID)" by code_simp
  ultimately show ?thesis using v by simp
qed

section \<open>Properties\<close>

text \<open>C18: The check of an asset name accepts a name with a type just when the name has the form of that type, so it has at most one.
  A part is not empty and consists of capitals, digits, dots and underscores, without two punctuation marks next to each other or one at either
  end; a loose part may begin with one. A root is a part of at least three characters that is not reserved, and a path is a
  root with any number of parts after slashes. A root asset is a root, and a sub asset a path with a slash, of at most thirty
  characters. The others have at most 31: an owner token is a path and an exclamation mark, a unique asset a path, a hash and
  one or more characters of its own set, a message channel a path, a tilde and a tag of at most twelve letters, digits and underscores
  with the rule of parts for these, a qualifier a hash and a part of at least three characters, not reserved with the hash, a
  sub qualifier that with a slash, a hash and a loose part, and a restricted asset a dollar and a loose part of at least three
  characters. A vote is a path, a caret and any text without tilde, hash, exclamation mark and slash, in which only what
  follows the last caret must be one or more capitals, digits and punctuation marks. So the check is wider than the comment on leading
  punctuation has it: \<open>$_BEE\<close> is a restricted name although its owner token cannot have a name, and \<open>BEE^x^Y\<close> is a vote
  although its parent is no name.\<close>

theorem asset_name_grammar:
  "(IsAssetNameValid name assetType = (True, type) \<longleftrightarrow> has_type type name)
   \<and> IsAssetNameValid (str ''$_BEE'') INVALID = (True, RESTRICTED)
   \<and> IsAssetNameValid (RestrictedNameToOwnerName (str ''$_BEE'')) INVALID = (False, INVALID)
   \<and> IsAssetNameValid (str ''BEE^x^Y'') INVALID = (True, VOTE)
   \<and> IsAssetNameValid (GetParentName (str ''BEE^x^Y'')) INVALID = (False, INVALID)"
  using has_type_iff name_check_gaps by blast

text \<open>The name of the owner token of an asset is valid just when the asset has a valid root or sub name: the limit of
  thirty characters for these leaves room for the owner tag.\<close>

theorem owner_name_valid:
  "IsAssetNameValid (name @ OWNER_TAG) assetType = (True, OWNER) \<longleftrightarrow>
     IsAssetNameValid name assetType = (True, ROOT) \<or> IsAssetNameValid name assetType = (True, SUB)"
proof -
  have "has_type OWNER (name @ OWNER_TAG) \<longleftrightarrow> length name \<le> 30 \<and> path_ok name"
    by (auto simp: has_type_def OWNER_TAG_def)
  also have "\<dots> \<longleftrightarrow> has_type ROOT name \<or> has_type SUB name"
    using path_type [of name] root_path [of name] by (auto simp: has_type_def split: if_splits)
  finally show ?thesis by (simp add: has_type_iff)
qed

text \<open>The parent that \<open>GetParentName\<close> gives is the name of an asset that can have been issued before: for a sub asset, a
  unique asset and a message channel a valid root or sub name, and for a sub qualifier a valid qualifier.\<close>

theorem parent_name_valid:
  assumes "IsAssetNameValid name assetType = (True, type)" "type \<in> {SUB, UNIQUE, MSGCHANNEL, SUB_QUALIFIER}"
  shows "\<exists>parent_type. IsAssetNameValid (GetParentName name) assetType = (True, parent_type)
    \<and> parent_type \<in> (if type = SUB_QUALIFIER then {QUALIFIER} else {ROOT, SUB}) \<and> length (GetParentName name) < length name"
proof -
  have t: "has_type type name" "IsAssetNameValid name INVALID = (True, type)" using assms(1) by (simp_all add: has_type_iff)
  have up: ?thesis if "GetParentName name = p" "path_ok p" "length p \<le> 30" "length p < length name" "type \<noteq> SUB_QUALIFIER" for p
    using path_type [OF that(2,3)] that(4) unfolding that(1) has_type_iff using that(5) by (cases "47 \<in> set p") auto
  consider "type = SUB" | "type = UNIQUE" | "type = MSGCHANNEL" | "type = SUB_QUALIFIER" using assms(2) by auto
  then show ?thesis
  proof cases
    case 1
    then have s: "path_ok name" "47 \<in> set name" "length name \<le> 30" using t(1) by (simp_all add: has_type_def SUB_NAME_DELIMITER_def)
    obtain p q where p: "name = p @ 47 # q" "path_ok p" "sub_ok q" by (rule path_last [OF s(1,2)])
    have "47 \<notin> set q" using p(3) part_no_slash(1) by (simp add: sub_ok_def)
    then show ?thesis using up [of p] t(2) 1 s(3) p by (simp add: GetParentName_def SUB_NAME_DELIMITER_def before_last_append)
  next
    case 2
    then obtain p tag where p: "name = p @ 35 # tag" "path_ok p" "list_all unique_char tag" "length name \<le> 31"
      using t(1) by (auto simp: has_type_def)
    have "35 \<notin> set tag" using unique_chars [OF p(3)] by (auto simp: list_all_iff one_of_def str_def)
    then show ?thesis using up [of p] t(2) 2 p by (simp add: GetParentName_def UNIQUE_TAG_DELIMITER_def before_last_append)
  next
    case 3
    then obtain p tag where p: "name = p @ 126 # tag" "path_ok p" "channel_ok tag" "length name \<le> 31"
      using t(1) by (auto simp: has_type_def)
    have "126 \<notin> set tag" using channel_chars [OF p(3)] by (auto simp: list_all_iff one_of_def str_def)
    then show ?thesis using up [of p] t(2) 3 p by (simp add: GetParentName_def MSGCHANNEL_TAG_DELIMITER_def before_last_append)
  next
    case 4
    have len: "length name \<le> 31" using t(1) 4 by (simp add: has_type_def)
    obtain q p where q: "name = 35 # q @ 47 # 35 # p" "3 \<le> length q" "part_ok q" "35 # q \<notin> set reserved_names" "loose_part_ok p"
      using t(1) 4 unfolding has_type_def by fastforce
    then have "47 \<notin> set (35 # p)" using part_no_slash(2) by simp
    then have "GetParentName name = 35 # q" using t(2) 4 before_last_append [of 47 "35 # p" "35 # q"]
      by (simp add: GetParentName_def SUB_NAME_DELIMITER_def q(1))
    moreover have "has_type QUALIFIER (35 # q)" using q len by (simp add: has_type_def)
    ultimately show ?thesis using 4 q(1) by (simp add: has_type_iff)
  qed
qed

theorem parent_name_valid_witness:
  "\<exists>parent_type. IsAssetNameValid (GetParentName (str ''HONEY/BEE'')) INVALID = (True, parent_type)"
proof -
  have "IsAssetNameValid (str ''HONEY/BEE'') INVALID = (True, SUB)" by code_simp
  from parent_name_valid [OF this] show ?thesis by auto
qed

end
