(* ===== verification/AssetScripts.thy ===== *)
theory AssetScripts
  imports Address AssetNames
begin

text \<open>
  Reading asset operations from scripts (\<open>src/src/assets/assets.cpp\<close>): what an output issues, transfers, reissues or
  tags and to which address, and the outputs that burn coins as a fee. What depends on the network or on the deployments
  active at the tip of the chain is a record of parameters.
\<close>

section \<open>The network\<close>

text \<open>The amounts and addresses of \<open>CChainParams\<close> for the fees, by the kind of asset they are for.\<close>

record burn_params =
  IssueAssetBurnAmount :: int
  ReissueAssetBurnAmount :: int
  IssueSubAssetBurnAmount :: int
  IssueUniqueAssetBurnAmount :: int
  IssueMsgChannelAssetBurnAmount :: int
  IssueQualifierAssetBurnAmount :: int
  IssueSubQualifierAssetBurnAmount :: int
  IssueRestrictedAssetBurnAmount :: int
  AddNullQualifierTagBurnAmount :: int
  IssueAssetBurnAddress :: bytes
  ReissueAssetBurnAddress :: bytes
  IssueSubAssetBurnAddress :: bytes
  IssueUniqueAssetBurnAddress :: bytes
  IssueMsgChannelAssetBurnAddress :: bytes
  IssueQualifierAssetBurnAddress :: bytes
  IssueSubQualifierAssetBurnAddress :: bytes
  IssueRestrictedAssetBurnAddress :: bytes
  AddNullQualifierTagBurnAddress :: bytes

definition main_burns :: burn_params where
  "main_burns = \<lparr>IssueAssetBurnAmount = 500 * COIN, ReissueAssetBurnAmount = 100 * COIN, IssueSubAssetBurnAmount = 100 * COIN,
     IssueUniqueAssetBurnAmount = 5 * COIN, IssueMsgChannelAssetBurnAmount = 100 * COIN, IssueQualifierAssetBurnAmount = 1000 * COIN,
     IssueSubQualifierAssetBurnAmount = 100 * COIN, IssueRestrictedAssetBurnAmount = 1500 * COIN,
     AddNullQualifierTagBurnAmount = COIN div 10,
     IssueAssetBurnAddress = str ''HABmUwjKZURs2ip6ygxSKUoUaDZUws4d9F'', ReissueAssetBurnAddress = str ''HRABYiKTBqTsb3q1EogedBcr4TfwSknbkt'',
     IssueSubAssetBurnAddress = str ''HSA5hDMFF3GVTQTspBG4V26X1q7GxKANFP'', IssueUniqueAssetBurnAddress = str ''HUA1Gcw7JGhDPUUp9SBdQ6KVivRbRxFt1X'',
     IssueMsgChannelAssetBurnAddress = str ''HMAczU4WrXadbEwvQMfWU7X69YH2bY7RTT'', IssueQualifierAssetBurnAddress = str ''HQA5wW7okLw5rbJqcjF2m1fXcurxKr8BfY'',
     IssueSubQualifierAssetBurnAddress = str ''HSQ9WKiuUzo7VCLufAUNQ8cWtDt2FkfAMR'', IssueRestrictedAssetBurnAddress = str ''HRA9BvF2PhjYJoTb2QWNs5PCHPEytQgV48'',
     AddNullQualifierTagBurnAddress = str ''HAQm4icqt9vBi3LG6mgQAJfxQczW7tAfCs''\<rparr>"

text \<open>The hash functions, the parameters of the network and which deployments are active.\<close>

record node_env =
  env_hash160 :: "bytes \<Rightarrow> bytes"
  env_hash256 :: "bytes \<Rightarrow> bytes"
  env_prefixes :: Base58Prefixes
  env_burns :: burn_params
  env_testnet :: bool
  AreAssetsDeployed :: bool
  AreMessagesDeployed :: bool
  AreRestrictedAssetsDeployed :: bool
  AreTransferScriptsSizeDeployed :: bool
  AreEnforcedValuesDeployed :: bool
  AreCoinbaseCheckAssetsDeployed :: bool

section \<open>Asset data of a script\<close>

text \<open>The address that the reader of a script returns: a destination that was not extracted is \<open>CNoDestination\<close>.\<close>

definition script_address :: "node_env \<Rightarrow> bytes \<Rightarrow> bytes" where
  "script_address env scriptPubKey =
     (let destination = (case ExtractDestination (env_hash160 env) scriptPubKey of Some d \<Rightarrow> d | None \<Rightarrow> CNoDestination)
      in the (EncodeDestination (env_hash256 env) (env_prefixes env) destination))"

definition TransferAssetFromScript :: "node_env \<Rightarrow> bytes \<Rightarrow> (CAssetTransfer \<times> bytes) option" where
  "TransferAssetFromScript env scriptPubKey =
     (case ScriptTransferAsset scriptPubKey of
        None \<Rightarrow> None
      | Some nStartingIndex \<Rightarrow>
          (case unser_CAssetTransfer (drop (if AreTransferScriptsSizeDeployed env then nStartingIndex else 31) scriptPubKey) of
             None \<Rightarrow> None
           | Some (assetTransfer, _) \<Rightarrow> Some (assetTransfer, script_address env scriptPubKey)))"

definition AssetFromScript :: "node_env \<Rightarrow> bytes \<Rightarrow> (CNewAsset \<times> bytes) option" where
  "AssetFromScript env scriptPubKey =
     (case ScriptNewAsset scriptPubKey of
        None \<Rightarrow> None
      | Some nStartingIndex \<Rightarrow>
          (case unser_CNewAsset (drop nStartingIndex scriptPubKey) of
             None \<Rightarrow> None
           | Some (assetNew, _) \<Rightarrow> Some (assetNew, script_address env scriptPubKey)))"

text \<open>
  The kind of the name of a newly issued asset, when the script issues one with a valid name. The four readers of the
  source that ask for one kind differ only in that kind; the index is the one of \<open>IsAssetScript\<close>.
\<close>

definition issued_type :: "node_env \<Rightarrow> bytes \<Rightarrow> (AssetType \<times> nat) option" where
  "issued_type env scriptPubKey =
     (case IsAssetScript scriptPubKey of
        None \<Rightarrow> None
      | Some (_, _, nStartingIndex) \<Rightarrow>
          (case AssetFromScript env scriptPubKey of
             None \<Rightarrow> None
           | Some (asset, _) \<Rightarrow>
               (case IsAssetNameValid (na_strName asset) INVALID of
                  (True, assetType) \<Rightarrow> Some (assetType, nStartingIndex)
                | (False, _) \<Rightarrow> None)))"

definition ScriptNewUniqueAsset :: "node_env \<Rightarrow> bytes \<Rightarrow> nat option" where
  "ScriptNewUniqueAsset env s = (case issued_type env s of Some (t, i) \<Rightarrow> if t = UNIQUE then Some i else None | None \<Rightarrow> None)"

definition ScriptNewMsgChannelAsset :: "node_env \<Rightarrow> bytes \<Rightarrow> nat option" where
  "ScriptNewMsgChannelAsset env s = (case issued_type env s of Some (t, i) \<Rightarrow> if t = MSGCHANNEL then Some i else None | None \<Rightarrow> None)"

definition ScriptNewQualifierAsset :: "node_env \<Rightarrow> bytes \<Rightarrow> nat option" where
  "ScriptNewQualifierAsset env s =
     (case issued_type env s of Some (t, i) \<Rightarrow> if t = QUALIFIER \<or> t = SUB_QUALIFIER then Some i else None | None \<Rightarrow> None)"

definition ScriptNewRestrictedAsset :: "node_env \<Rightarrow> bytes \<Rightarrow> nat option" where
  "ScriptNewRestrictedAsset env s = (case issued_type env s of Some (t, i) \<Rightarrow> if t = RESTRICTED then Some i else None | None \<Rightarrow> None)"

definition ScriptOwnerAsset :: "bytes \<Rightarrow> nat option" where
  "ScriptOwnerAsset scriptPubKey = (case IsAssetScript scriptPubKey of
     Some (nType, fIsOwner, nStartingIndex) \<Rightarrow> if nType = TX_NEW_ASSET \<and> fIsOwner then Some nStartingIndex else None
   | None \<Rightarrow> None)"

text \<open>Reading the record at an index that one of the tests has found.\<close>

definition read_new_asset :: "node_env \<Rightarrow> bytes \<Rightarrow> nat option \<Rightarrow> (CNewAsset \<times> bytes) option" where
  "read_new_asset env scriptPubKey idx =
     (case idx of
        None \<Rightarrow> None
      | Some nStartingIndex \<Rightarrow>
          (case unser_CNewAsset (drop nStartingIndex scriptPubKey) of
             None \<Rightarrow> None
           | Some (assetNew, _) \<Rightarrow> Some (assetNew, script_address env scriptPubKey)))"

definition MsgChannelAssetFromScript :: "node_env \<Rightarrow> bytes \<Rightarrow> (CNewAsset \<times> bytes) option" where
  "MsgChannelAssetFromScript env s = read_new_asset env s (ScriptNewMsgChannelAsset env s)"

definition QualifierAssetFromScript :: "node_env \<Rightarrow> bytes \<Rightarrow> (CNewAsset \<times> bytes) option" where
  "QualifierAssetFromScript env s = read_new_asset env s (ScriptNewQualifierAsset env s)"

definition RestrictedAssetFromScript :: "node_env \<Rightarrow> bytes \<Rightarrow> (CNewAsset \<times> bytes) option" where
  "RestrictedAssetFromScript env s = read_new_asset env s (ScriptNewRestrictedAsset env s)"

definition OwnerAssetFromScript :: "node_env \<Rightarrow> bytes \<Rightarrow> (bytes \<times> bytes) option" where
  "OwnerAssetFromScript env scriptPubKey =
     (case ScriptOwnerAsset scriptPubKey of
        None \<Rightarrow> None
      | Some nStartingIndex \<Rightarrow>
          (case Unserialize_string (drop nStartingIndex scriptPubKey) of
             None \<Rightarrow> None
           | Some (assetName, _) \<Rightarrow> Some (assetName, script_address env scriptPubKey)))"

definition ReissueAssetFromScript :: "node_env \<Rightarrow> bytes \<Rightarrow> (CReissueAsset \<times> bytes) option" where
  "ReissueAssetFromScript env scriptPubKey =
     (case ScriptReissueAsset scriptPubKey of
        None \<Rightarrow> None
      | Some nStartingIndex \<Rightarrow>
          (case unser_CReissueAsset (drop nStartingIndex scriptPubKey) of
             None \<Rightarrow> None
           | Some (reissue, _) \<Rightarrow> Some (reissue, script_address env scriptPubKey)))"

definition AssetNullDataFromScript :: "node_env \<Rightarrow> bytes \<Rightarrow> (CNullAssetTxData \<times> bytes) option" where
  "AssetNullDataFromScript env scriptPubKey =
     (if \<not> IsNullAssetTxDataScript scriptPubKey then None
      else case unser_CNullAssetTxData (drop 23 scriptPubKey) of
             None \<Rightarrow> None
           | Some (assetData, _) \<Rightarrow> Some (assetData, script_address env scriptPubKey))"

definition GlobalAssetNullDataFromScript :: "bytes \<Rightarrow> CNullAssetTxData option" where
  "GlobalAssetNullDataFromScript scriptPubKey =
     (if \<not> IsNullGlobalRestrictionAssetTxDataScript scriptPubKey then None
      else map_option fst (unser_CNullAssetTxData (drop 4 scriptPubKey)))"

definition AssetNullVerifierDataFromScript :: "bytes \<Rightarrow> bytes option" where
  "AssetNullVerifierDataFromScript scriptPubKey =
     (if \<not> IsNullAssetVerifierTxDataScript scriptPubKey then None
      else map_option fst (unser_CNullAssetTxVerifierString (drop 3 scriptPubKey)))"

text \<open>The part of a \<open>CAssetOutputEntry\<close> that the readers fill in. The caller's destination, message and time are null before.\<close>

record CAssetOutputEntry =
  aoe_type :: txnouttype
  aoe_assetName :: bytes
  aoe_destination :: CTxDestination
  aoe_nAmount :: int
  aoe_message :: bytes
  aoe_expireTime :: int

definition address_destination :: "node_env \<Rightarrow> bytes \<Rightarrow> CTxDestination" where
  "address_destination env address = the (DecodeDestination (env_hash256 env) (env_prefixes env) address)"

text \<open>
  The readers of the special kinds that \<open>GetAssetData\<close> tries after \<open>AssetFromScript\<close> has failed do not lead to a result.
\<close>

definition GetAssetData :: "node_env \<Rightarrow> bytes \<Rightarrow> CAssetOutputEntry option" where
  "GetAssetData env script =
     (case IsAssetScript script of
        None \<Rightarrow> None
      | Some (type, fIsOwner, _) \<Rightarrow>
          if type = TX_NEW_ASSET \<and> \<not> fIsOwner
          then (case AssetFromScript env script of
                  Some (asset, address) \<Rightarrow>
                    Some \<lparr>aoe_type = TX_NEW_ASSET, aoe_assetName = na_strName asset, aoe_destination = address_destination env address,
                          aoe_nAmount = na_nAmount asset, aoe_message = [], aoe_expireTime = 0\<rparr>
                | None \<Rightarrow> None)
          else if type = TX_TRANSFER_ASSET
          then (case TransferAssetFromScript env script of
                  Some (transfer, address) \<Rightarrow>
                    Some \<lparr>aoe_type = TX_TRANSFER_ASSET, aoe_assetName = at_strName transfer,
                          aoe_destination = address_destination env address, aoe_nAmount = at_nAmount transfer,
                          aoe_message = at_message transfer, aoe_expireTime = at_nExpireTime transfer\<rparr>
                | None \<Rightarrow> None)
          else if type = TX_NEW_ASSET \<and> fIsOwner
          then (case OwnerAssetFromScript env script of
                  Some (assetName, address) \<Rightarrow>
                    Some \<lparr>aoe_type = TX_NEW_ASSET, aoe_assetName = assetName, aoe_destination = address_destination env address,
                          aoe_nAmount = OWNER_ASSET_AMOUNT, aoe_message = [], aoe_expireTime = 0\<rparr>
                | None \<Rightarrow> None)
          else if type = TX_REISSUE_ASSET
          then (case ReissueAssetFromScript env script of
                  Some (reissue, address) \<Rightarrow>
                    Some \<lparr>aoe_type = TX_REISSUE_ASSET, aoe_assetName = ra_strName reissue,
                          aoe_destination = address_destination env address, aoe_nAmount = ra_nAmount reissue,
                          aoe_message = [], aoe_expireTime = 0\<rparr>
                | None \<Rightarrow> None)
          else None)"

definition GetAssetInfoFromScript :: "node_env \<Rightarrow> bytes \<Rightarrow> (bytes \<times> int) option" where
  "GetAssetInfoFromScript env scriptPubKey =
     map_option (\<lambda>data. (aoe_assetName data, aoe_nAmount data)) (GetAssetData env scriptPubKey)"

definition ParseAssetScript :: "node_env \<Rightarrow> bytes \<Rightarrow> (bytes \<times> bytes \<times> int) option" where
  "ParseAssetScript env scriptPubKey =
     (case (case IsAssetScript scriptPubKey of
              None \<Rightarrow> None
            | Some (nType, fIsOwner, _) \<Rightarrow>
                if nType = TX_NEW_ASSET
                then if fIsOwner then map_option (\<lambda>(assetName, _). (assetName, OWNER_ASSET_AMOUNT)) (OwnerAssetFromScript env scriptPubKey)
                     else map_option (\<lambda>(asset, _). (na_strName asset, na_nAmount asset)) (AssetFromScript env scriptPubKey)
                else if nType = TX_REISSUE_ASSET
                then map_option (\<lambda>(asset, _). (ra_strName asset, ra_nAmount asset)) (ReissueAssetFromScript env scriptPubKey)
                else if nType = TX_TRANSFER_ASSET
                then map_option (\<lambda>(asset, _). (at_strName asset, at_nAmount asset)) (TransferAssetFromScript env scriptPubKey)
                else None) of
        None \<Rightarrow> None
      | Some (assetName, assetAmount) \<Rightarrow> Some (take 20 (drop 3 scriptPubKey), assetName, assetAmount))"

text \<open>The numbers of issues, reissues, transfers and owner tokens among the outputs, added to the ones given.\<close>

primrec GetTxOutAssetTypes :: "CTxOut list \<Rightarrow> nat \<times> nat \<times> nat \<times> nat \<Rightarrow> nat \<times> nat \<times> nat \<times> nat" where
  "GetTxOutAssetTypes [] n = n"
| "GetTxOutAssetTypes (out # vout) n =
     (case n of (issues, reissues, transfers, owners) \<Rightarrow>
        GetTxOutAssetTypes vout
          (case IsAssetScript (txo_scriptPubKey out) of
             None \<Rightarrow> n
           | Some (type, fIsOwner, _) \<Rightarrow>
               if type = TX_NEW_ASSET \<and> \<not> fIsOwner then (issues + 1, reissues, transfers, owners)
               else if type = TX_NEW_ASSET \<and> fIsOwner then (issues, reissues, transfers, owners + 1)
               else if type = TX_TRANSFER_ASSET then (issues, reissues, transfers + 1, owners)
               else if type = TX_REISSUE_ASSET then (issues, reissues + 1, transfers, owners)
               else n))"

section \<open>Fees\<close>

definition GetBurnAmount :: "burn_params \<Rightarrow> AssetType \<Rightarrow> int" where
  "GetBurnAmount p type =
     (case type of
        ROOT \<Rightarrow> IssueAssetBurnAmount p | SUB \<Rightarrow> IssueSubAssetBurnAmount p | MSGCHANNEL \<Rightarrow> IssueMsgChannelAssetBurnAmount p
      | OWNER \<Rightarrow> 0 | UNIQUE \<Rightarrow> IssueUniqueAssetBurnAmount p | VOTE \<Rightarrow> 0 | REISSUE \<Rightarrow> ReissueAssetBurnAmount p
      | QUALIFIER \<Rightarrow> IssueQualifierAssetBurnAmount p | SUB_QUALIFIER \<Rightarrow> IssueSubQualifierAssetBurnAmount p
      | RESTRICTED \<Rightarrow> IssueRestrictedAssetBurnAmount p | NULL_ADD_QUALIFIER \<Rightarrow> AddNullQualifierTagBurnAmount p | INVALID \<Rightarrow> 0)"

definition GetBurnAddress :: "burn_params \<Rightarrow> AssetType \<Rightarrow> bytes" where
  "GetBurnAddress p type =
     (case type of
        ROOT \<Rightarrow> IssueAssetBurnAddress p | SUB \<Rightarrow> IssueSubAssetBurnAddress p | MSGCHANNEL \<Rightarrow> IssueMsgChannelAssetBurnAddress p
      | OWNER \<Rightarrow> [] | UNIQUE \<Rightarrow> IssueUniqueAssetBurnAddress p | VOTE \<Rightarrow> [] | REISSUE \<Rightarrow> ReissueAssetBurnAddress p
      | QUALIFIER \<Rightarrow> IssueQualifierAssetBurnAddress p | SUB_QUALIFIER \<Rightarrow> IssueSubQualifierAssetBurnAddress p
      | RESTRICTED \<Rightarrow> IssueRestrictedAssetBurnAddress p | NULL_ADD_QUALIFIER \<Rightarrow> AddNullQualifierTagBurnAddress p | INVALID \<Rightarrow> [])"

text \<open>An output that pays to an address.\<close>

definition pays_to_address :: "node_env \<Rightarrow> CTxOut \<Rightarrow> bytes \<Rightarrow> bool" where
  "pays_to_address env txOut address =
     (case ExtractDestination (env_hash160 env) (txo_scriptPubKey txOut) of
        None \<Rightarrow> False
      | Some destination \<Rightarrow>
          IsValidDestination destination \<and> the (EncodeDestination (env_hash256 env) (env_prefixes env) destination) = address)"

definition CheckIssueBurnTx :: "node_env \<Rightarrow> CTxOut \<Rightarrow> AssetType \<Rightarrow> int \<Rightarrow> bool" where
  "CheckIssueBurnTx env txOut type numberIssued =
     (if type = REISSUE \<or> type = VOTE \<or> type = OWNER \<or> type = INVALID then False
      else txo_nValue txOut = GetBurnAmount (env_burns env) type * numberIssued
           \<and> pays_to_address env txOut (GetBurnAddress (env_burns env) type))"

definition CheckReissueBurnTx :: "node_env \<Rightarrow> CTxOut \<Rightarrow> bool" where
  "CheckReissueBurnTx env txOut \<longleftrightarrow>
     txo_nValue txOut = ReissueAssetBurnAmount (env_burns env) \<and> pays_to_address env txOut (ReissueAssetBurnAddress (env_burns env))"

definition CheckIssueDataTx :: "CTxOut \<Rightarrow> bool" where
  "CheckIssueDataTx txOut \<longleftrightarrow> ScriptNewAsset (txo_scriptPubKey txOut) \<noteq> None"

definition CheckReissueDataTx :: "CTxOut \<Rightarrow> bool" where
  "CheckReissueDataTx txOut \<longleftrightarrow> ScriptReissueAsset (txo_scriptPubKey txOut) \<noteq> None"

definition CheckOwnerDataTx :: "CTxOut \<Rightarrow> bool" where
  "CheckOwnerDataTx txOut \<longleftrightarrow> ScriptOwnerAsset (txo_scriptPubKey txOut) \<noteq> None"

definition CheckTransferOwnerTx :: "CTxOut \<Rightarrow> bool" where
  "CheckTransferOwnerTx txOut \<longleftrightarrow> ScriptTransferAsset (txo_scriptPubKey txOut) \<noteq> None"

section \<open>What was built is read back\<close>

lemma dest_of_asset_script:
  assumes "length h = 20" "IsAssetScript (GetScriptForDestination (CKeyID h) @ tail) = Some (k, ow, i)"
  shows "ExtractDestination hash160 (GetScriptForDestination (CKeyID h) @ tail) = Some (CKeyID h)"
proof -
  let ?s = "GetScriptForDestination (CKeyID h) @ tail"
  have s: "?s = [OP_DUP, OP_HASH160, 20] @ h @ [OP_EQUALVERIFY, OP_CHECKSIG] @ tail"
    using assms(1) by (simp add: GetScriptForDestination_def push_20)
  have "length ?s > 31" "k = TX_NEW_ASSET \<or> k = TX_TRANSFER_ASSET \<or> k = TX_REISSUE_ASSET"
    using assms(2) by (auto simp: IsAssetScript_def Let_def split: if_splits option.splits)
  moreover from this have "\<not> IsPayToScriptHash ?s" by (simp add: IsPayToScriptHash_def)
  ultimately show ?thesis using assms by (auto simp: ExtractDestination_def Solver_def s)
qed

definition env_ok :: "node_env \<Rightarrow> bool" where
  "env_ok env \<longleftrightarrow> prefixes_ok (env_prefixes env) \<and> (\<forall>x. length (env_hash256 env x) \<ge> 4)"

text \<open>The address of a key.\<close>

definition key_address :: "node_env \<Rightarrow> bytes \<Rightarrow> bytes" where
  "key_address env h = the (EncodeDestination (env_hash256 env) (env_prefixes env) (CKeyID h))"

lemma asset_script_address:
  assumes "env_ok env" "length h = 20" "IsAssetScript (GetScriptForDestination (CKeyID h) @ tail) = Some (k, ow, i)"
  shows "script_address env (GetScriptForDestination (CKeyID h) @ tail) = key_address env h"
    "address_destination env (key_address env h) = CKeyID h"
proof -
  show "script_address env (GetScriptForDestination (CKeyID h) @ tail) = key_address env h"
    using dest_of_asset_script [OF assms(2,3)] by (simp add: script_address_def key_address_def)
  have "\<exists>addr. EncodeDestination (env_hash256 env) (env_prefixes env) (CKeyID h) = Some addr
      \<and> DecodeDestination (env_hash256 env) (env_prefixes env) addr = Some (CKeyID h)"
    using assms(1,2) by (intro encode_decode_destination) (auto simp: env_ok_def dest_ok_def)
  then show "address_destination env (key_address env h) = CKeyID h"
    by (auto simp: address_destination_def key_address_def)
qed

lemma key_script_length: "length h = 20 \<Longrightarrow> length (GetScriptForDestination (CKeyID h)) = 25"
  by (simp add: GetScriptForDestination_def push_20)

lemma owner_script:
  assumes "length p = 25" "length (na_strName a) < 40"
  shows "\<exists>i. IsAssetScript (ConstructOwnerTransaction a p) = Some (TX_NEW_ASSET, True, i)
    \<and> Unserialize_string (drop i (ConstructOwnerTransaction a p)) = Some (na_strName a @ OWNER_TAG, [OP_DROP])"
proof -
  let ?n = "na_strName a @ OWNER_TAG"
  have n: "length ?n \<le> 40" using assms(2) by (simp add: OWNER_TAG_def str_def)
  then have l: "length (Serialize_bytes ?n) = length ?n + 1" by (rule length_name)
  have "push_data ([HVN_H, HVN_V, HVN_N, HVN_O] @ Serialize_bytes ?n)
      = word_of_nat (length ?n + 5) # [HVN_H, HVN_V, HVN_N, HVN_O] @ Serialize_bytes ?n"
    using n l by (simp add: push_data_def)
  moreover have "Unserialize_string (Serialize_bytes ?n @ [OP_DROP]) = Some (?n, [OP_DROP])"
    by (rule asset_string_roundtrip [OF name_size [OF n]])
  ultimately show ?thesis using assms(1) l
    by (auto simp: ConstructOwnerTransaction_def append_asset_def IsAssetScript_def asset_marker_index_def nth_append)
qed

section \<open>Properties\<close>

definition demo_env :: node_env where
  "demo_env = \<lparr>env_hash160 = take 20, env_hash256 = (\<lambda>x. take 32 (x @ replicate 32 0)), env_prefixes = main_prefixes,
     env_burns = main_burns, env_testnet = False, AreAssetsDeployed = True, AreMessagesDeployed = True,
     AreRestrictedAssetsDeployed = True, AreTransferScriptsSizeDeployed = True, AreEnforcedValuesDeployed = True,
     AreCoinbaseCheckAssetsDeployed = True\<rparr>"

lemma demo_env_ok: "env_ok demo_env"
  by (simp add: env_ok_def demo_env_def prefixes_ok_def main_prefixes_def min_def)

lemma key_script_address:
  assumes "env_ok env" "length h = 20" "IsAssetScript (append_asset m (GetScriptForDestination (CKeyID h))) = Some k"
  shows "script_address env (append_asset m (GetScriptForDestination (CKeyID h))) = key_address env h"
    "address_destination env (key_address env h) = CKeyID h"
  using asset_script_address [OF assms(1,2), of "[OP_HVN_ASSET] @ push_data m @ [OP_DROP]"] assms(3)
  by (cases k; simp add: append_asset_def)+

lemma issue_read_back:
  assumes "env_ok env" "length h = 20" "new_asset_ok a"
  shows "\<exists>i. IsAssetScript (ConstructTransaction_new a (GetScriptForDestination (CKeyID h))) = Some (TX_NEW_ASSET, False, i)"
    and "AssetFromScript env (ConstructTransaction_new a (GetScriptForDestination (CKeyID h))) = Some (a, key_address env h)"
  using new_asset_script [OF key_script_length [OF assms(2)] assms(3)] key_script_address(1) [OF assms(1,2)]
  by (auto simp: AssetFromScript_def ScriptNewAsset_def ConstructTransaction_new_def)

lemma owner_read_back:
  assumes "env_ok env" "length h = 20" "length (na_strName a) < 40"
  shows "\<exists>i. IsAssetScript (ConstructOwnerTransaction a (GetScriptForDestination (CKeyID h))) = Some (TX_NEW_ASSET, True, i)"
    and "OwnerAssetFromScript env (ConstructOwnerTransaction a (GetScriptForDestination (CKeyID h))) = Some (na_strName a @ OWNER_TAG, key_address env h)"
  using owner_script [OF key_script_length [OF assms(2)] assms(3)] key_script_address(1) [OF assms(1,2)]
  by (auto simp: OwnerAssetFromScript_def ScriptOwnerAsset_def ConstructOwnerTransaction_def)

lemma reissue_read_back:
  assumes "env_ok env" "length h = 20" "reissue_ok r"
  shows "\<exists>i. IsAssetScript (ConstructTransaction_reissue r (GetScriptForDestination (CKeyID h))) = Some (TX_REISSUE_ASSET, False, i)"
    and "ReissueAssetFromScript env (ConstructTransaction_reissue r (GetScriptForDestination (CKeyID h))) = Some (r, key_address env h)"
  using reissue_script [OF key_script_length [OF assms(2)] assms(3)] key_script_address(1) [OF assms(1,2)]
  by (auto simp: ReissueAssetFromScript_def ScriptReissueAsset_def ConstructTransaction_reissue_def)

lemma transfer_read_back:
  assumes "env_ok env" "length h = 20" "transfer_ok t" "AreTransferScriptsSizeDeployed env"
  shows "\<exists>i. IsAssetScript (ConstructTransaction_transfer t (GetScriptForDestination (CKeyID h))) = Some (TX_TRANSFER_ASSET, False, i)"
    and "TransferAssetFromScript env (ConstructTransaction_transfer t (GetScriptForDestination (CKeyID h))) = Some (t, key_address env h)"
    and "GetAssetData env (ConstructTransaction_transfer t (GetScriptForDestination (CKeyID h)))
        = Some \<lparr>aoe_type = TX_TRANSFER_ASSET, aoe_assetName = at_strName t, aoe_destination = CKeyID h, aoe_nAmount = at_nAmount t,
               aoe_message = at_message t, aoe_expireTime = at_nExpireTime t\<rparr>"
proof -
  note t = transfer_script [OF key_script_length [OF assms(2)] assms(3)]
  show k: "\<exists>i. IsAssetScript (ConstructTransaction_transfer t (GetScriptForDestination (CKeyID h))) = Some (TX_TRANSFER_ASSET, False, i)"
    using t by auto
  show r: "TransferAssetFromScript env (ConstructTransaction_transfer t (GetScriptForDestination (CKeyID h))) = Some (t, key_address env h)"
    using t key_script_address(1) [OF assms(1,2)] assms(4)
    by (auto simp: TransferAssetFromScript_def ScriptTransferAsset_def ConstructTransaction_transfer_def)
  show "GetAssetData env (ConstructTransaction_transfer t (GetScriptForDestination (CKeyID h)))
        = Some \<lparr>aoe_type = TX_TRANSFER_ASSET, aoe_assetName = at_strName t, aoe_destination = CKeyID h, aoe_nAmount = at_nAmount t,
               aoe_message = at_message t, aoe_expireTime = at_nExpireTime t\<rparr>"
    using k r key_script_address(2) [OF assms(1,2)] by (auto simp: GetAssetData_def ConstructTransaction_transfer_def)
qed

text \<open>C13: Asset outputs say what they were built to say. An issue, a transfer and a reissue of well formed data, and the
  owner token of an issue, added to the script that pays to a key, are read back from the script with the kind, name and
  amount, and with the address of that key, from which the key's destination is recovered; once the corrected position
  of transfer data is deployed, for transfers of every size.\<close>

theorem asset_outputs_read_back:
  assumes "env_ok env" and "length h = 20" and "new_asset_ok a" and "length (na_strName a) < 40" and "transfer_ok t" and "reissue_ok r"
    and "AreTransferScriptsSizeDeployed env"
  shows "AssetFromScript env (ConstructTransaction_new a (GetScriptForDestination (CKeyID h))) = Some (a, key_address env h)
    \<and> OwnerAssetFromScript env (ConstructOwnerTransaction a (GetScriptForDestination (CKeyID h))) = Some (na_strName a @ OWNER_TAG, key_address env h)
    \<and> TransferAssetFromScript env (ConstructTransaction_transfer t (GetScriptForDestination (CKeyID h))) = Some (t, key_address env h)
    \<and> ReissueAssetFromScript env (ConstructTransaction_reissue r (GetScriptForDestination (CKeyID h))) = Some (r, key_address env h)
    \<and> GetAssetData env (ConstructTransaction_transfer t (GetScriptForDestination (CKeyID h)))
        = Some \<lparr>aoe_type = TX_TRANSFER_ASSET, aoe_assetName = at_strName t, aoe_destination = CKeyID h, aoe_nAmount = at_nAmount t,
               aoe_message = at_message t, aoe_expireTime = at_nExpireTime t\<rparr>"
  using issue_read_back(2) [OF assms(1-3)] owner_read_back(2) [OF assms(1,2,4)] transfer_read_back(2,3) [OF assms(1,2,5,7)]
    reissue_read_back(2) [OF assms(1,2,6)] by blast

theorem asset_outputs_read_back_witness:
  "TransferAssetFromScript demo_env (ConstructTransaction_transfer demo_transfer (GetScriptForDestination (CKeyID (replicate 20 7))))
    = Some (demo_transfer, key_address demo_env (replicate 20 7))"
  using asset_outputs_read_back [OF demo_env_ok, of "replicate 20 7" demo_asset demo_transfer demo_reissue] demo_records_ok
  by (simp add: demo_asset_def str_def demo_env_def)

end
