(* ===== verification/Verifier.thy ===== *)
theory Verifier
  imports AssetScripts
begin

text \<open>
  Verifier strings of restricted assets: the evaluator of propositional formulas (\<open>src/src/LibBoolEE.cpp\<close>) and the
  checks of a verifier string in \<open>src/src/assets/assets.cpp\<close>. A formula that does not parse throws \<open>std::runtime_error\<close>,
  here \<^term>\<open>None\<close>. What the asset cache knows about names and addresses is a record of functions.
\<close>

section \<open>The evaluator\<close>

abbreviation c_not :: u8 where "c_not \<equiv> 33"
abbreviation c_and :: u8 where "c_and \<equiv> 38"
abbreviation c_open :: u8 where "c_open \<equiv> 40"
abbreviation c_close :: u8 where "c_close \<equiv> 41"
abbreviation c_or :: u8 where "c_or \<equiv> 124"

definition belongsToName :: "u8 \<Rightarrow> bool" where
  "belongsToName ch \<longleftrightarrow> upper ch \<or> lower ch \<or> digit ch \<or> ch = 95 \<or> ch = 35 \<or> ch = 46"

definition removeWhitespaces :: "bytes \<Rightarrow> bytes" where
  "removeWhitespaces source = filter (\<lambda>c. \<not> isspace c) source"

definition removeCharacter :: "bytes \<Rightarrow> u8 \<Rightarrow> bytes" where
  "removeCharacter source ch = filter (\<lambda>c. c \<noteq> ch) source"

text \<open>
  The loop of \<open>singleParse\<close>. The part of the formula from \<open>start_pos\<close> to the current position is kept, \<^term>\<open>None\<close>
  while \<open>start_pos\<close> is -1.
\<close>

primrec parse_loop :: "u8 \<Rightarrow> bytes \<Rightarrow> bytes option \<Rightarrow> int \<Rightarrow> bytes list \<Rightarrow> bytes list option" where
  "parse_loop op [] cur parity_count subexpressions =
     (if parity_count \<noteq> 0 then None
      else Some (subexpressions @ (case cur of None \<Rightarrow> [] | Some x \<Rightarrow> [x])))"
| "parse_loop op (c # cs) cur parity_count subexpressions =
     (if c = c_close then parse_loop op cs (map_option (\<lambda>x. x @ [c]) cur) (parity_count - 1) subexpressions
      else if c = c_open
      then parse_loop op cs (Some ((case cur of None \<Rightarrow> [] | Some x \<Rightarrow> x) @ [c])) (parity_count + 1) subexpressions
      else if parity_count = 0
      then (case cur of
              None \<Rightarrow>
                if belongsToName c \<or> c = c_not then parse_loop op cs (Some [c]) parity_count subexpressions
                else parse_loop op cs None parity_count subexpressions
            | Some x \<Rightarrow>
                if \<not> (belongsToName c \<or> c = c_not)
                then if op = c then parse_loop op cs (Some []) parity_count (subexpressions @ [x])
                     else if c \<noteq> c_and \<and> c \<noteq> c_or then None
                     else parse_loop op cs (Some (x @ [c])) parity_count subexpressions
                else parse_loop op cs (Some (x @ [c])) parity_count subexpressions)
      else parse_loop op cs (map_option (\<lambda>x. x @ [c]) cur) parity_count subexpressions)"

definition singleParse :: "bytes \<Rightarrow> u8 \<Rightarrow> bytes list option" where
  "singleParse formula op = parse_loop op formula None 0 []"

text \<open>Two subexpressions are split at an operator, so each is shorter than the formula.\<close>

definition cur_length :: "bytes option \<Rightarrow> nat" where
  "cur_length cur = (case cur of None \<Rightarrow> 0 | Some x \<Rightarrow> length x)"

lemma parse_loop_length:
  "parse_loop op cs cur p subs = Some r \<Longrightarrow>
     sum_list (map length r) + length r \<le> sum_list (map length subs) + length subs + cur_length cur + length cs + 1"
proof (induction cs arbitrary: cur p subs)
  case Nil
  then show ?case by (auto simp: cur_length_def split: if_splits option.splits)
next
  case (Cons c cs)
  show ?case using Cons.prems Cons.IH [of "Some []" 0 "subs @ [the cur]"] by (auto simp: cur_length_def split: if_splits option.splits dest!: Cons.IH)
qed

lemma singleParse_shorter:
  assumes "singleParse s op = Some r" "length r \<ge> 2" "x \<in> set r"
  shows "length x < length s"
proof -
  have "sum_list (map length r) + length r \<le> length s + 1"
    using parse_loop_length [of op s None 0 "[]" r] assms(1) by (simp add: singleParse_def cur_length_def)
  moreover have "length x \<le> sum_list (map length r)" using assms(3) by (simp add: member_le_sum_list)
  ultimately show ?thesis using assms(2) by linarith
qed

lemma removeWhitespaces_length: "length (removeWhitespaces s) \<le> length s"
  by (simp add: removeWhitespaces_def)

function resolveRec :: "(bytes \<rightharpoonup> bool) \<Rightarrow> bytes \<Rightarrow> bool option" where
  "resolveRec valuation source =
     (if source = [] then None
      else
        case singleParse source c_or of
          None \<Rightarrow> None
        | Some ors \<Rightarrow>
            if length ors \<ge> 2
            then (case those (map (\<lambda>it. resolveRec valuation (removeWhitespaces it)) ors) of
                    None \<Rightarrow> None | Some bs \<Rightarrow> Some (True \<in> set bs))
            else if length ors = 0 then None
            else case singleParse source c_and of
              None \<Rightarrow> None
            | Some ands \<Rightarrow>
                if length ands \<ge> 2
                then (case those (map (\<lambda>it. resolveRec valuation (removeWhitespaces it)) ands) of
                        None \<Rightarrow> None | Some bs \<Rightarrow> Some (False \<notin> set bs))
                else if length ands = 0 then None
                else if hd source = c_not then map_option Not (resolveRec valuation (removeWhitespaces (drop 1 source)))
                else if hd source = c_open
                then resolveRec valuation (removeWhitespaces (take (length source - 2) (drop 1 source)))
                else if source = str ''1'' then Some True
                else if source = str ''0'' then Some False
                else valuation source)"
  by pat_completeness auto
termination
proof (relation "measure (\<lambda>(v, s). length s)", goal_cases)
  case (2 v s ors it)
  then show ?case using singleParse_shorter [of s _ _ it] le_less_trans [OF removeWhitespaces_length] by simp
next
  case (3 v s ors ands it)
  then show ?case using singleParse_shorter [of s _ _ it] le_less_trans [OF removeWhitespaces_length] by simp
next
  case (4 v s ors ands)
  then have "length (drop 1 s) < length s" by (cases s) simp_all
  then show ?case using le_less_trans [OF removeWhitespaces_length] by simp
next
  case (5 v s ors ands)
  then have "length (take (length s - 2) (drop 1 s)) < length s" by (cases s) simp_all
  then show ?case using le_less_trans [OF removeWhitespaces_length] by simp
qed simp

declare resolveRec.simps [simp del]

definition resolve :: "bytes \<Rightarrow> (bytes \<rightharpoonup> bool) \<Rightarrow> bool option" where
  "resolve source valuation = resolveRec valuation (removeWhitespaces source)"

section \<open>Verifier strings\<close>

text \<open>The maximal runs of the characters \<open>[A-Z0-9_.]\<close>, which the loop over \<open>regex_search\<close> collects.\<close>

fun qualifier_runs :: "bytes \<Rightarrow> bytes \<Rightarrow> bytes list" where
  "qualifier_runs [] run = (if run = [] then [] else [run])"
| "qualifier_runs (c # s) run =
     (if name_char c then qualifier_runs s (run @ [c])
      else (if run = [] then [] else [run]) @ qualifier_runs s [])"

definition ExtractVerifierStringQualifiers :: "bytes \<Rightarrow> bytes list" where
  "ExtractVerifierStringQualifiers verifier = remdups (qualifier_runs verifier [])"

definition QUALIFIER_CHAR :: u8 where "QUALIFIER_CHAR = 35"

definition GetStrippedVerifierString :: "bytes \<Rightarrow> bytes" where
  "GetStrippedVerifierString verifier = removeCharacter (removeWhitespaces verifier) QUALIFIER_CHAR"

text \<open>
  The checks without context: an error, or the qualifiers that were found. An error is given by the reason the source
  reports, without the name it may append.
\<close>

definition CheckVerifierString :: "bytes \<Rightarrow> string + bytes list" where
  "CheckVerifierString verifier =
     (if verifier = str ''true'' then Inr []
      else if verifier = [] then Inl ''bad-txns-null-verifier-empty''
      else
        let strippedVerifier = GetStrippedVerifierString verifier;
            setFoundQualifiers = ExtractVerifierStringQualifiers strippedVerifier
        in if length strippedVerifier > 80 then Inl ''bad-txns-null-verifier-length-greater-than-max-length''
           else if list_ex (\<lambda>qualifier. \<not> IsQualifierNameValid (QUALIFIER_CHAR # qualifier)) setFoundQualifiers
           then Inl ''bad-txns-null-verifier-invalid-asset-name-''
           else case resolve verifier (map_of (map (\<lambda>qualifier. (qualifier, True)) setFoundQualifiers)) of
                  None \<Rightarrow> Inl ''bad-txns-null-verifier-failed-syntax-check''
                | Some _ \<Rightarrow> Inr setFoundQualifiers)"

definition CheckVerifierAssetTxOut :: "CTxOut \<Rightarrow> string option" where
  "CheckVerifierAssetTxOut txout =
     (case AssetNullVerifierDataFromScript (txo_scriptPubKey txout) of
        None \<Rightarrow> Some ''bad-txns-null-verifier-data-serialization''
      | Some verifier_string \<Rightarrow>
          if 32 \<in> set verifier_string then Some ''bad-txns-null-verifier-data-contained-whitespaces''
          else if 35 \<in> set verifier_string then Some ''bad-txns-null-verifier-data-contained-qualifier-character-#''
          else case CheckVerifierString verifier_string of Inl e \<Rightarrow> Some e | Inr _ \<Rightarrow> None)"

text \<open>
  What the asset cache answers: the issued assets, their data and verifiers, and the marks on addresses and names. The
  flag is \<open>fSkipTempCache\<close>, where the callers differ in it.
\<close>

record asset_view =
  CheckIfAssetExists :: "bytes \<Rightarrow> bool"
  GetAssetMetaDataIfExists :: "bytes \<Rightarrow> CNewAsset option"
  GetAssetVerifierStringIfExists :: "bytes \<Rightarrow> bool \<Rightarrow> bytes option"
  CheckForAddressQualifier :: "bytes \<Rightarrow> bytes \<Rightarrow> bool"
  CheckForAddressRestriction :: "bytes \<Rightarrow> bytes \<Rightarrow> bool"
  CheckForGlobalRestriction :: "bytes \<Rightarrow> bool"

definition ContextualCheckVerifierString :: "asset_view \<Rightarrow> bytes \<Rightarrow> bytes \<Rightarrow> string option" where
  "ContextualCheckVerifierString cache verifier check_address =
     (if verifier = str ''true'' then None
      else case CheckVerifierString verifier of
        Inl e \<Rightarrow> Some e
      | Inr setFoundQualifiers \<Rightarrow>
          if list_ex (\<lambda>qualifier. \<not> CheckIfAssetExists cache (QUALIFIER_CHAR # qualifier)) setFoundQualifiers
          then Some ''bad-txns-null-verifier-contains-non-issued-qualifier''
          else if check_address = [] then None
          else
            let vals = map_of (map (\<lambda>qualifier. (qualifier, CheckForAddressQualifier cache (QUALIFIER_CHAR # qualifier) check_address)) setFoundQualifiers)
            in case resolve verifier vals of
                 None \<Rightarrow> Some ''bad-txns-null-verifier-failed-contexual-syntax-check''
               | Some ret \<Rightarrow> if \<not> ret then Some ''bad-txns-null-verifier-address-failed-verification'' else None)"

section \<open>Whether a formula parses does not depend on the values\<close>

lemma those_None: "those (map f xs) = None \<longleftrightarrow> (\<exists>x \<in> set xs. f x = None)"
  by (induction xs) (auto split: option.splits)

lemma those_Some: "those (map f xs) = Some ys \<longleftrightarrow> map f xs = map Some ys"
  by (induction xs arbitrary: ys) (auto split: option.splits)

lemma resolveRec_fail:
  "s = [] \<or> singleParse s c_or = None \<or> singleParse s c_or = Some [] \<Longrightarrow> resolveRec v s = None"
  by (subst resolveRec.simps) auto

lemma resolveRec_or:
  "s \<noteq> [] \<Longrightarrow> singleParse s c_or = Some ors \<Longrightarrow> 2 \<le> length ors \<Longrightarrow> resolveRec v s
    = (case those (map (\<lambda>it. resolveRec v (removeWhitespaces it)) ors) of None \<Rightarrow> None | Some bs \<Rightarrow> Some (True \<in> set bs))"
  by (subst resolveRec.simps) simp

lemma resolveRec_and_fail:
  "s \<noteq> [] \<Longrightarrow> singleParse s c_or = Some [x] \<Longrightarrow> singleParse s c_and = None \<or> singleParse s c_and = Some [] \<Longrightarrow> resolveRec v s = None"
  by (subst resolveRec.simps) auto

lemma resolveRec_and:
  "s \<noteq> [] \<Longrightarrow> singleParse s c_or = Some [x] \<Longrightarrow> singleParse s c_and = Some ands \<Longrightarrow> 2 \<le> length ands \<Longrightarrow> resolveRec v s
    = (case those (map (\<lambda>it. resolveRec v (removeWhitespaces it)) ands) of None \<Rightarrow> None | Some bs \<Rightarrow> Some (False \<notin> set bs))"
  by (subst resolveRec.simps) simp

lemma resolveRec_single:
  "s \<noteq> [] \<Longrightarrow> singleParse s c_or = Some [x] \<Longrightarrow> singleParse s c_and = Some [y] \<Longrightarrow> resolveRec v s
    = (if hd s = c_not then map_option Not (resolveRec v (removeWhitespaces (drop 1 s)))
       else if hd s = c_open then resolveRec v (removeWhitespaces (take (length s - 2) (drop 1 s)))
       else if s = str ''1'' then Some True else if s = str ''0'' then Some False else v s)"
  by (subst resolveRec.simps) simp

lemma single_cases: "xs = [] \<or> (\<exists>x. xs = [x]) \<or> 2 \<le> length xs"
  by (cases xs rule: remdups_adj.cases) auto

lemma resolveRec_dom:
  assumes "dom w = dom v"
  shows "resolveRec v s = None \<longleftrightarrow> resolveRec w s = None"
proof (induction "length s" arbitrary: s rule: less_induct)
  case less
  have IH: "resolveRec v (removeWhitespaces t) = None \<longleftrightarrow> resolveRec w (removeWhitespaces t) = None" if "length t < length s" for t
    using less le_less_trans [OF removeWhitespaces_length that] by blast
  have split: "those (map (\<lambda>it. resolveRec v (removeWhitespaces it)) xs) = None
      \<longleftrightarrow> those (map (\<lambda>it. resolveRec w (removeWhitespaces it)) xs) = None"
    if "singleParse s op = Some xs" "2 \<le> length xs" for op xs
    using IH singleParse_shorter [OF that] by (auto simp: those_None)
  have val: "v s = None \<longleftrightarrow> w s = None" using assms by blast
  consider "s = [] \<or> singleParse s c_or = None \<or> singleParse s c_or = Some []"
    | ors where "s \<noteq> []" "singleParse s c_or = Some ors" "2 \<le> length ors"
    | x where "s \<noteq> []" "singleParse s c_or = Some [x]"
    using single_cases [of "the (singleParse s c_or)"] by (cases "singleParse s c_or"; cases "s = []") auto
  then show ?case
  proof cases
    case 1
    then show ?thesis by (simp add: resolveRec_fail)
  next
    case 2
    then show ?thesis using split [OF 2(2,3)] by (auto simp: resolveRec_or [OF 2] split: option.splits)
  next
    case 3
    consider "singleParse s c_and = None \<or> singleParse s c_and = Some []"
      | ands where "singleParse s c_and = Some ands" "2 \<le> length ands" | y where "singleParse s c_and = Some [y]"
      using single_cases [of "the (singleParse s c_and)"] by (cases "singleParse s c_and") auto
    then show ?thesis
    proof cases
      case 1
      then show ?thesis using 3 by (simp add: resolveRec_and_fail)
    next
      case and2: 2
      then show ?thesis using split [OF and2] by (auto simp: resolveRec_and [OF 3 and2] split: option.splits)
    next
      case single: 3
      have "length (drop 1 s) < length s" "length (take (length s - 2) (drop 1 s)) < length s" using 3(1) by (cases s; simp)+
      then show ?thesis using IH val by (simp add: resolveRec_single [OF 3 single])
    qed
  qed
qed

section \<open>Formulas\<close>

text \<open>
  Formulas, their value, and their text with the precedence the evaluator gives the operators: a disjunction binds
  weaker than a conjunction and a conjunction weaker than a negation, and a formula stands in parentheses where it
  would bind weaker than its place.
\<close>

datatype formula = Name bytes | Neg formula | Conj "formula list" | Disj "formula list"

primrec formula_value :: "(bytes \<rightharpoonup> bool) \<Rightarrow> formula \<Rightarrow> bool" where
  "formula_value v (Name n) = the (v n)"
| "formula_value v (Neg f) = (\<not> formula_value v f)"
| "formula_value v (Conj fs) = list_all (\<lambda>b. b) (map (formula_value v) fs)"
| "formula_value v (Disj fs) = list_ex (\<lambda>b. b) (map (formula_value v) fs)"

primrec join :: "u8 \<Rightarrow> bytes list \<Rightarrow> bytes" where
  "join d [] = []"
| "join d (x # xs) = x @ (if xs = [] then [] else d # join d xs)"

definition parens :: "bytes \<Rightarrow> bytes" where
  "parens s = [c_open] @ s @ [c_close]"

text \<open>The text at a place: anywhere (0), within a disjunction (1), within a conjunction or a negation (2).\<close>

primrec ftext :: "formula \<Rightarrow> nat \<Rightarrow> bytes" where
  "ftext (Name n) k = n"
| "ftext (Neg f) k = c_not # ftext f 2"
| "ftext (Conj fs) k = (if k < 2 then join c_and (map (\<lambda>f. ftext f 2) fs) else parens (join c_and (map (\<lambda>f. ftext f 2) fs)))"
| "ftext (Disj fs) k = (if k = 0 then join c_or (map (\<lambda>f. ftext f 1) fs) else parens (join c_or (map (\<lambda>f. ftext f 1) fs)))"

primrec formula_ok :: "formula \<Rightarrow> bool" where
  "formula_ok (Name n) \<longleftrightarrow> n \<noteq> [] \<and> list_all belongsToName n \<and> n \<noteq> str ''0'' \<and> n \<noteq> str ''1''"
| "formula_ok (Neg f) \<longleftrightarrow> formula_ok f"
| "formula_ok (Conj fs) \<longleftrightarrow> 2 \<le> length fs \<and> list_all (\<lambda>b. b) (map formula_ok fs)"
| "formula_ok (Disj fs) \<longleftrightarrow> 2 \<le> length fs \<and> list_all (\<lambda>b. b) (map formula_ok fs)"

primrec formula_names :: "formula \<Rightarrow> bytes set" where
  "formula_names (Name n) = {n}"
| "formula_names (Neg f) = formula_names f"
| "formula_names (Conj fs) = \<Union> (set (map formula_names fs))"
| "formula_names (Disj fs) = \<Union> (set (map formula_names fs))"

text \<open>Text that the loop runs through inside parentheses, and text that is one operand outside of them.\<close>

definition inside :: "bytes \<Rightarrow> bool" where
  "inside s \<longleftrightarrow> (\<forall>op rest x p subs. 0 < p \<longrightarrow> parse_loop op (s @ rest) (Some x) p subs = parse_loop op rest (Some (x @ s)) p subs)"

definition operand :: "u8 \<Rightarrow> bytes \<Rightarrow> bool" where
  "operand op s \<longleftrightarrow> (\<forall>rest cur subs. parse_loop op (s @ rest) cur 0 subs
     = parse_loop op rest (Some ((case cur of None \<Rightarrow> [] | Some x \<Rightarrow> x) @ s)) 0 subs)"

lemma inside_Nil [simp]: "inside []"
  by (simp add: inside_def)

lemma inside_append: "inside a \<Longrightarrow> inside b \<Longrightarrow> inside (a @ b)"
  by (simp add: inside_def)

lemma inside_char: "c \<noteq> c_open \<Longrightarrow> c \<noteq> c_close \<Longrightarrow> inside [c]"
  by (simp add: inside_def)

lemma inside_Cons: "c \<noteq> c_open \<Longrightarrow> c \<noteq> c_close \<Longrightarrow> inside s \<Longrightarrow> inside (c # s)"
  using inside_append [OF inside_char] by fastforce

lemma inside_parens: "inside s \<Longrightarrow> inside (parens s)"
  by (simp add: inside_def parens_def)

lemma inside_join: "list_all inside ss \<Longrightarrow> c \<noteq> c_open \<Longrightarrow> c \<noteq> c_close \<Longrightarrow> inside (join c ss)"
  by (induction ss) (auto intro: inside_append inside_Cons)

lemma name_chars: "belongsToName c \<Longrightarrow> c \<noteq> c_open \<and> c \<noteq> c_close \<and> \<not> isspace c \<and> c \<noteq> c_not"
  by (auto simp: belongsToName_def upper_def lower_def digit_def isspace_def word_le_nat_alt word_unat_eq_iff)

lemma inside_name: "list_all belongsToName n \<Longrightarrow> inside n"
  by (induction n) (auto intro!: inside_Cons dest: name_chars)

lemma inside_ftext: "formula_ok f \<Longrightarrow> inside (ftext f k)"
proof (induction f arbitrary: k)
  case (Name n)
  then show ?case by (simp add: inside_name)
next
  case (Neg f)
  then show ?case by (simp add: inside_Cons)
next
  case (Conj fs)
  then have "inside (join c_and (map (\<lambda>f. ftext f 2) fs))" by (intro inside_join) (auto simp: list_all_iff)
  then show ?case by (simp add: inside_parens)
next
  case (Disj fs)
  then have "inside (join c_or (map (\<lambda>f. ftext f 1) fs))" by (intro inside_join) (auto simp: list_all_iff)
  then show ?case by (simp add: inside_parens)
qed

lemma operand_char: "belongsToName c \<or> c = c_not \<Longrightarrow> operand op [c]"
  by (auto simp: operand_def dest: name_chars split: option.splits)

lemma operand_append: "operand op a \<Longrightarrow> operand op b \<Longrightarrow> operand op (a @ b)"
  by (simp add: operand_def)

lemma operand_Cons: "belongsToName c \<or> c = c_not \<Longrightarrow> operand op s \<Longrightarrow> operand op (c # s)"
  using operand_append [OF operand_char] by fastforce

lemma operand_name: "n \<noteq> [] \<Longrightarrow> list_all belongsToName n \<Longrightarrow> operand op n"
proof (induction n)
  case (Cons c n)
  then show ?case by (cases "n = []") (auto intro: operand_char operand_Cons)
qed simp

lemma operand_parens: "inside s \<Longrightarrow> operand op (parens s)"
  by (auto simp: operand_def inside_def parens_def split: option.splits)

lemma operand_join:
  "ss \<noteq> [] \<Longrightarrow> list_all (operand c_or) ss \<Longrightarrow> operand c_or (join c_and ss)"
proof (induction ss)
  case (Cons s ss)
  show ?case
  proof (cases "ss = []")
    case True
    then show ?thesis using Cons.prems by simp
  next
    case False
    then have "operand c_or s" "operand c_or (join c_and ss)" using Cons by simp_all
    then show ?thesis using False by (simp add: operand_def belongsToName_def upper_def lower_def digit_def)
  qed
qed simp

lemma operand_ftext: "formula_ok f \<Longrightarrow> operand op (ftext f 2) \<and> operand c_or (ftext f 1)"
proof (induction f arbitrary: op)
  case (Name n)
  then show ?case by (simp add: operand_name)
next
  case (Neg f)
  then have "operand op' (c_not # ftext f 2)" for op' using operand_Cons [of c_not op' "ftext f 2"] by simp
  then show ?case by simp
next
  case (Conj fs)
  have "inside (join c_and (map (\<lambda>f. ftext f 2) fs))" using inside_ftext [OF Conj.prems, of 0] by simp
  moreover have "operand c_or (join c_and (map (\<lambda>f. ftext f 2) fs))"
  proof (rule operand_join)
    show "list_all (operand c_or) (map (\<lambda>f. ftext f 2) fs)" using Conj by (auto simp: list_all_iff)
  qed (use Conj.prems in auto)
  ultimately show ?case by (simp add: operand_parens)
next
  case (Disj fs)
  have "inside (join c_or (map (\<lambda>f. ftext f 1) fs))" using inside_ftext [OF Disj.prems, of 0] by simp
  then show ?case by (simp add: operand_parens)
qed

text \<open>An operand alone is one subexpression; operands joined by the operator are split there.\<close>

lemma parse_operand: "operand op s \<Longrightarrow> singleParse s op = Some [s]"
  unfolding singleParse_def operand_def by (drule spec [of _ "[]"], drule spec [of _ None]) simp

lemma parse_join:
  assumes "op = c_and \<or> op = c_or" "list_all (operand op) ss" "ss \<noteq> []" "cur = None \<or> cur = Some []"
  shows "parse_loop op (join op ss) cur 0 subs = Some (subs @ ss)"
  using assms(2-4)
proof (induction ss arbitrary: cur subs)
  case (Cons s ss)
  have s: "parse_loop op (s @ rest) cur 0 subs = parse_loop op rest (Some s) 0 subs" for rest
    using Cons.prems by (auto simp: operand_def)
  have "\<not> belongsToName op" "op \<noteq> c_not" "op \<noteq> c_open" "op \<noteq> c_close"
    using assms(1) by (auto simp: belongsToName_def upper_def lower_def digit_def)
  then show ?case using Cons s [of "[]"] s by (cases "ss = []") simp_all
qed simp

lemma list_all_join: "list_all (list_all P) ss \<Longrightarrow> P c \<Longrightarrow> list_all P (join c ss)"
  by (induction ss) simp_all

lemma ftext_no_space: "formula_ok f \<Longrightarrow> list_all (\<lambda>c. \<not> isspace c) (ftext f k)"
proof (induction f arbitrary: k)
  case (Name n)
  then show ?case using name_chars by (auto simp: list_all_iff)
next
  case (Neg f)
  then show ?case by (simp add: isspace_def)
next
  case (Conj fs)
  then have "list_all (\<lambda>c. \<not> isspace c) (join c_and (map (\<lambda>f. ftext f 2) fs))"
    by (intro list_all_join) (simp_all add: list_all_iff isspace_def)
  then show ?case by (simp add: parens_def isspace_def)
next
  case (Disj fs)
  then have "list_all (\<lambda>c. \<not> isspace c) (join c_or (map (\<lambda>f. ftext f 1) fs))"
    by (intro list_all_join) (simp_all add: list_all_iff isspace_def)
  then show ?case by (simp add: parens_def isspace_def)
qed

lemma removeWhitespaces_ftext [simp]: "formula_ok f \<Longrightarrow> removeWhitespaces (ftext f k) = ftext f k"
  using ftext_no_space [of f k] by (simp add: removeWhitespaces_def list_all_iff filter_id_conv)

lemma ftext_not_Nil: "formula_ok f \<Longrightarrow> ftext f k \<noteq> []"
proof (induction f arbitrary: k)
  case (Conj fs)
  then show ?case by (cases fs) (auto simp: parens_def)
next
  case (Disj fs)
  then show ?case by (cases fs) (auto simp: parens_def)
qed simp_all

lemma resolve_parens:
  assumes "inside s" "s \<noteq> []" "removeWhitespaces s = s"
  shows "resolveRec v (parens s) = resolveRec v s"
  using resolveRec_single [OF _ parse_operand [OF operand_parens [OF assms(1)]] parse_operand [OF operand_parens [OF assms(1)]], of v] assms(3)
  by (simp add: parens_def)

lemma those_values:
  assumes "\<And>f. f \<in> set fs \<Longrightarrow> resolveRec v (removeWhitespaces (ftext f k)) = Some (formula_value v f)"
  shows "those (map (\<lambda>it. resolveRec v (removeWhitespaces it)) (map (\<lambda>f. ftext f k) fs)) = Some (map (formula_value v) fs)"
  using assms by (simp add: those_Some)

lemma resolve_ftext:
  "formula_ok f \<Longrightarrow> formula_names f \<subseteq> dom v \<Longrightarrow> resolveRec v (ftext f k) = Some (formula_value v f)"
proof (induction f arbitrary: k)
  case (Name n)
  have "operand op n" for op using Name.prems by (simp add: operand_name)
  moreover have "hd n \<noteq> c_not" "hd n \<noteq> c_open" using Name.prems name_chars by (cases n; auto)+
  ultimately show ?case using Name.prems resolveRec_single [OF _ parse_operand parse_operand, of n v] by auto
next
  case (Neg f)
  have "operand op (ftext (Neg f) 2)" for op using operand_ftext [OF Neg.prems(1)] by blast
  then show ?case using resolveRec_single [OF _ parse_operand parse_operand, of "c_not # ftext f 2" v] Neg by simp
next
  case (Conj fs)
  let ?ss = "map (\<lambda>f. ftext f 2) fs"
  have ops: "list_all (operand op) ?ss" for op using Conj.prems operand_ftext by (auto simp: list_all_iff)
  have ne: "?ss \<noteq> []" "join c_and ?ss \<noteq> []" using Conj.prems ftext_not_Nil [OF Conj.prems(1), of 0] by auto
  have sub: "formula_ok f \<and> formula_names f \<subseteq> dom v" if "f \<in> set fs" for f using Conj.prems that by (auto simp: list_all_iff)
  have "those (map (\<lambda>it. resolveRec v (removeWhitespaces it)) ?ss) = Some (map (formula_value v) fs)"
    by (rule those_values) (use Conj.IH sub in auto)
  then have "resolveRec v (join c_and ?ss) = Some (formula_value v (Conj fs))"
    using resolveRec_and [OF ne(2) parse_operand [OF operand_join [OF ne(1) ops]], of ?ss v]
      parse_join [OF _ ops ne(1), of c_and None "[]"] Conj.prems
    by (auto simp: singleParse_def list_all_iff)
  then show ?case using resolve_parens [OF _ ne(2), of v] inside_ftext [OF Conj.prems(1), of 0] removeWhitespaces_ftext [OF Conj.prems(1), of 0]
    by simp
next
  case (Disj fs)
  let ?ss = "map (\<lambda>f. ftext f 1) fs"
  have ops: "list_all (operand c_or) ?ss" using Disj.prems operand_ftext by (auto simp: list_all_iff)
  have ne: "?ss \<noteq> []" "join c_or ?ss \<noteq> []" using Disj.prems ftext_not_Nil [OF Disj.prems(1), of 0] by auto
  have sub: "formula_ok f \<and> formula_names f \<subseteq> dom v" if "f \<in> set fs" for f using Disj.prems that by (auto simp: list_all_iff)
  have "those (map (\<lambda>it. resolveRec v (removeWhitespaces it)) ?ss) = Some (map (formula_value v) fs)"
    by (rule those_values) (use Disj.IH sub in auto)
  then have "resolveRec v (join c_or ?ss) = Some (formula_value v (Disj fs))"
    using resolveRec_or [OF ne(2), of ?ss v] parse_join [OF _ ops ne(1), of None "[]"] Disj.prems
    by (auto simp: singleParse_def list_ex_iff)
  then show ?case using resolve_parens [OF _ ne(2), of v] inside_ftext [OF Disj.prems(1), of 0] removeWhitespaces_ftext [OF Disj.prems(1), of 0]
    by simp
qed

section \<open>Properties\<close>

text \<open>C14: The evaluator computes propositional logic: the text of a formula whose names all have a value, with the
  precedence of the operators, parentheses where they are needed and white space anywhere, evaluates without an exception
  to the value of the formula. The names are nonempty, of the characters of names, and other than 0 and 1, which the
  evaluator takes for constants.\<close>

theorem verifier_evaluates:
  assumes "formula_ok f" and "formula_names f \<subseteq> dom valuation" and "removeWhitespaces source = ftext f 0"
  shows "resolve source valuation = Some (formula_value valuation f)"
  using resolve_ftext [OF assms(1,2), of 0] by (simp add: resolve_def assms(3))

theorem verifier_evaluates_witness:
  "resolve (str ''KYC & !( US | #MEX&CUB )'') (map_of [(str ''KYC'', True), (str ''US'', False), (str ''#MEX'', True), (str ''CUB'', False)])
     = Some True"
proof -
  let ?f = "Conj [Name (str ''KYC''), Neg (Disj [Name (str ''US''), Conj [Name (str ''#MEX''), Name (str ''CUB'')]])]"
  let ?v = "map_of [(str ''KYC'', True), (str ''US'', False), (str ''#MEX'', True), (str ''CUB'', False)]"
  have "formula_ok ?f" by code_simp
  moreover have "formula_names ?f \<subseteq> dom ?v" by (auto simp: str_def)
  moreover have "removeWhitespaces (str ''KYC & !( US | #MEX&CUB )'') = ftext ?f 0" by code_simp
  ultimately have "resolve (str ''KYC & !( US | #MEX&CUB )'') ?v = Some (formula_value ?v ?f)" by (rule verifier_evaluates)
  moreover have "formula_value ?v ?f" by code_simp
  ultimately show ?thesis by simp
qed

text \<open>C24: A verifier string that passes the check without context never fails to parse later. Whatever qualifiers an
  address has, the evaluation for that address does not throw, so the error for it is never reported.\<close>

theorem verifier_syntax_checked_once:
  "ContextualCheckVerifierString cache verifier check_address \<noteq> Some ''bad-txns-null-verifier-failed-contexual-syntax-check''"
proof -
  have ok: "resolve verifier (map_of (map (\<lambda>q. (q, g q)) qs)) \<noteq> None"
    if "CheckVerifierString verifier = Inr qs" "verifier \<noteq> str ''true''" for g qs
  proof -
    have True: "resolve verifier (map_of (map (\<lambda>q. (q, True)) qs)) \<noteq> None"
      using that by (auto simp: CheckVerifierString_def Let_def split: if_splits option.splits)
    have "dom (map_of (map (\<lambda>q. (q, g q)) qs)) = dom (map_of (map (\<lambda>q. (q, True)) qs))"
      by (simp add: dom_map_of_conv_image_fst image_image)
    from resolveRec_dom [OF this] have "resolve verifier (map_of (map (\<lambda>q. (q, True)) qs)) = None
        \<longleftrightarrow> resolve verifier (map_of (map (\<lambda>q. (q, g q)) qs)) = None" unfolding resolve_def .
    with True show ?thesis by simp
  qed
  show ?thesis
  proof (cases "CheckVerifierString verifier")
    case (Inl e)
    then have "e \<noteq> ''bad-txns-null-verifier-failed-contexual-syntax-check''"
      by (auto simp: CheckVerifierString_def Let_def split: if_splits option.splits)
    then show ?thesis by (simp add: ContextualCheckVerifierString_def Inl)
  next
    case (Inr qs)
    then show ?thesis
      using ok [OF Inr, where g = "\<lambda>q. CheckForAddressQualifier cache (QUALIFIER_CHAR # q) check_address"]
      by (auto simp: ContextualCheckVerifierString_def Let_def split: if_splits)
  qed
qed

text \<open>An operator or another character before the first operand is dropped, so this string passes as a disjunction.\<close>

lemma leading_operator_dropped:
  "CheckVerifierString (str ''&%KYC|AML'') = Inr [str ''KYC'', str ''AML'']"
  by code_simp

end
