(* ===== verification/AssetTx.thy ===== *)
theory AssetTx
  imports Verifier
begin

text \<open>
  The asset rules of transactions (\<open>src/src/assets/assets.cpp\<close>): which kind of asset transaction a transaction is, what
  a transaction of that kind must contain, the checks of issued and reissued data, and the checks against the assets that
  exist. A check that returns a flag and an error text is an optional error, \<^term>\<open>None\<close> when the check passes; a text that
  the source completes with names or numbers is given up to there.
\<close>

section \<open>Data of assets\<close>

definition HexStr :: "bytes \<Rightarrow> bytes" where
  "HexStr vch =
     (let hexmap = str ''0123456789abcdef'' in concat (map (\<lambda>c. [hexmap ! (unat c div 16), hexmap ! (unat c mod 16)]) vch))"

definition hex_digit :: "u8 \<Rightarrow> bool" where
  "hex_digit c \<longleftrightarrow> digit c \<or> 97 \<le> c \<and> c \<le> 102 \<or> 65 \<le> c \<and> c \<le> 70"

definition IsHex :: "bytes \<Rightarrow> bool" where
  "IsHex s \<longleftrightarrow> list_all hex_digit s \<and> length s > 0 \<and> length s mod 2 = 0"

definition EncodeAssetData :: "bytes \<Rightarrow> bytes" where
  "EncodeAssetData decoded =
     (if length decoded = 34 then the (EncodeBase58 decoded) else if length decoded = 32 then HexStr decoded else [])"

definition CheckEncoded :: "node_env \<Rightarrow> bytes \<Rightarrow> string option" where
  "CheckEncoded env hash =
     (let encodedStr = EncodeAssetData hash
      in if take 2 encodedStr = str ''Qm'' \<and> length encodedStr = 46 then None
         else if AreMessagesDeployed env \<and> IsHex encodedStr \<and> length encodedStr = 64 then None
         else Some ''Invalid parameter: ipfs_hash is not valid, or txid hash is not the right length'')"

text \<open>The units are between 0 and 8, as every caller has checked; a larger number would divide by zero.\<close>

definition CheckAmountWithUnits :: "int \<Rightarrow> u8 \<Rightarrow> bool" where
  "CheckAmountWithUnits nAmount nUnits \<longleftrightarrow> nAmount mod 10 ^ nat (8 - sint nUnits) = 0"

definition UNIQUE_ASSET_UNITS :: u8 where "UNIQUE_ASSET_UNITS = 0"
definition QUALIFIER_ASSET_UNITS :: u8 where "QUALIFIER_ASSET_UNITS = 0"

definition CheckNewAsset :: "CNewAsset \<Rightarrow> string option" where
  "CheckNewAsset asset =
     (case IsAssetNameValid (na_strName asset) INVALID of (valid, assetType) \<Rightarrow>
        if \<not> valid then Some ''Invalid parameter: asset_name must only consist of valid characters and have a size between 3 and 30 characters. See help for more details.''
        else if (assetType = UNIQUE \<or> assetType = MSGCHANNEL) \<and> na_units asset \<noteq> UNIQUE_ASSET_UNITS
          then Some ''Invalid parameter: units must be ''
        else if (assetType = UNIQUE \<or> assetType = MSGCHANNEL) \<and> na_nAmount asset \<noteq> UNIQUE_ASSET_AMOUNT
          then Some ''Invalid parameter: amount must be ''
        else if (assetType = UNIQUE \<or> assetType = MSGCHANNEL) \<and> na_nReissuable asset \<noteq> 0
          then Some ''Invalid parameter: reissuable must be 0''
        else if (assetType = QUALIFIER \<or> assetType = SUB_QUALIFIER) \<and> na_units asset \<noteq> QUALIFIER_ASSET_UNITS
          then Some ''Invalid parameter: units must be ''
        else if (assetType = QUALIFIER \<or> assetType = SUB_QUALIFIER)
             \<and> (na_nAmount asset < QUALIFIER_ASSET_MIN_AMOUNT \<or> na_nAmount asset > QUALIFIER_ASSET_MAX_AMOUNT)
          then Some ''Invalid parameter: amount must be between ''
        else if (assetType = QUALIFIER \<or> assetType = SUB_QUALIFIER) \<and> na_nReissuable asset \<noteq> 0
          then Some ''Invalid parameter: reissuable must be 0''
        else if IsAssetNameAnOwner (na_strName asset) then Some ''Invalid parameters: asset_name can't have a '!' at the end of it. See help for more details.''
        else if na_nAmount asset \<le> 0 then Some ''Invalid parameter: asset amount can't be equal to or less than zero.''
        else if na_nAmount asset > MAX_MONEY then Some ''Invalid parameter: asset amount greater than max money: ''
        else if sint (na_units asset) < 0 \<or> sint (na_units asset) > 8 then Some ''Invalid parameter: units must be between 0-8.''
        else if \<not> CheckAmountWithUnits (na_nAmount asset) (na_units asset)
          then Some ''Invalid parameter: amount must be divisible by the smaller unit assigned to the asset''
        else if na_nReissuable asset \<noteq> 0 \<and> na_nReissuable asset \<noteq> 1 then Some ''Invalid parameter: reissuable must be 0 or 1''
        else if na_nHasIPFS asset \<noteq> 0 \<and> na_nHasIPFS asset \<noteq> 1 then Some ''Invalid parameter: has_ipfs must be 0 or 1.''
        else None)"

definition CheckReissueAsset :: "node_env \<Rightarrow> CReissueAsset \<Rightarrow> string option" where
  "CheckReissueAsset env asset =
     (if ra_nAmount asset < 0 \<or> ra_nAmount asset \<ge> MAX_MONEY then Some ''Unable to reissue asset: amount must be 0 or larger''
      else if sint (ra_nUnits asset) > sint MAX_UNIT \<or> sint (ra_nUnits asset) < - 1
        then Some ''Unable to reissue asset: unit must be between 8 and -1''
      else
        let fSkip = (env_testnet env \<and> (ra_strName asset = str ''GAMINGWEB'' \<and> sint (ra_nReissuable asset) = 109
              \<or> ra_strName asset = str ''UINT8'' \<and> sint (ra_nReissuable asset) = - 47))
        in if \<not> fSkip \<and> ra_nReissuable asset \<noteq> 0 \<and> ra_nReissuable asset \<noteq> 1
           then Some ''Unable to reissue asset: reissuable must be 0 or 1'' else None)"

section \<open>Kinds of asset transactions\<close>

text \<open>Some output moves a token of the given name; some output pays the fee.\<close>

definition has_transfer :: "node_env \<Rightarrow> CTxOut list \<Rightarrow> bytes \<Rightarrow> bool" where
  "has_transfer env vout name \<longleftrightarrow>
     list_ex (\<lambda>out. case TransferAssetFromScript env (txo_scriptPubKey out) of
        Some (transfer, _) \<Rightarrow> name = at_strName transfer | None \<Rightarrow> False) vout"

definition has_issue_burn :: "node_env \<Rightarrow> CTxOut list \<Rightarrow> AssetType \<Rightarrow> int \<Rightarrow> bool" where
  "has_issue_burn env vout type n \<longleftrightarrow> list_ex (\<lambda>out. CheckIssueBurnTx env out type n) vout"

definition tx_IsNewAsset :: "node_env \<Rightarrow> CTransaction \<Rightarrow> bool" where
  "tx_IsNewAsset env tx =
     (let vout = tx_vout tx; n = length vout
      in n \<ge> 3 \<and> CheckIssueDataTx (vout ! (n - 1)) \<and> CheckOwnerDataTx (vout ! (n - 2))
         \<and> ScriptNewUniqueAsset env (txo_scriptPubKey (vout ! (n - 1))) = None
         \<and> ScriptNewRestrictedAsset env (txo_scriptPubKey (vout ! (n - 1))) = None)"

definition tx_IsNewUniqueAsset :: "node_env \<Rightarrow> CTransaction \<Rightarrow> bool" where
  "tx_IsNewUniqueAsset env tx \<longleftrightarrow>
     CheckIssueDataTx (last (tx_vout tx)) \<and> ScriptNewUniqueAsset env (txo_scriptPubKey (last (tx_vout tx))) \<noteq> None"

definition tx_IsNewMsgChannelAsset :: "node_env \<Rightarrow> CTransaction \<Rightarrow> bool" where
  "tx_IsNewMsgChannelAsset env tx \<longleftrightarrow>
     CheckIssueDataTx (last (tx_vout tx)) \<and> ScriptNewMsgChannelAsset env (txo_scriptPubKey (last (tx_vout tx))) \<noteq> None"

definition tx_IsNewQualifierAsset :: "node_env \<Rightarrow> CTransaction \<Rightarrow> bool" where
  "tx_IsNewQualifierAsset env tx \<longleftrightarrow>
     CheckIssueDataTx (last (tx_vout tx)) \<and> ScriptNewQualifierAsset env (txo_scriptPubKey (last (tx_vout tx))) \<noteq> None"

definition tx_IsNewRestrictedAsset :: "node_env \<Rightarrow> CTransaction \<Rightarrow> bool" where
  "tx_IsNewRestrictedAsset env tx \<longleftrightarrow>
     CheckIssueDataTx (last (tx_vout tx)) \<and> ScriptNewRestrictedAsset env (txo_scriptPubKey (last (tx_vout tx))) \<noteq> None"

definition tx_IsReissueAsset :: "CTransaction \<Rightarrow> bool" where
  "tx_IsReissueAsset tx \<longleftrightarrow> CheckReissueDataTx (last (tx_vout tx))"

section \<open>What the kinds must contain\<close>

text \<open>
  The loop over the outputs that issue unique assets: the name they have in common before the tag and the names so far,
  or an error.
\<close>

primrec unique_loop :: "node_env \<Rightarrow> CTxOut list \<Rightarrow> bytes \<Rightarrow> bytes list \<Rightarrow> string + bytes \<times> bytes list" where
  "unique_loop env [] assetRoot setUniqueAssets = Inr (assetRoot, setUniqueAssets)"
| "unique_loop env (out # vout) assetRoot setUniqueAssets =
     (if ScriptNewUniqueAsset env (txo_scriptPubKey out) = None then unique_loop env vout assetRoot setUniqueAssets
      else case AssetFromScript env (txo_scriptPubKey out) of
             None \<Rightarrow> Inl ''bad-txns-issue-unique-asset-from-script''
           | Some (asset, _) \<Rightarrow>
               let root = GetParentName (na_strName asset); assetRoot = (if assetRoot = [] then root else assetRoot)
               in if assetRoot \<noteq> root then Inl ''bad-txns-issue-unique-asset-compare-failed''
                  else if na_strName asset \<in> set setUniqueAssets then Inl ''bad-txns-issue-unique-duplicate-name-in-same-tx''
                  else unique_loop env vout assetRoot (na_strName asset # setUniqueAssets))"

definition VerifyNewUniqueAsset :: "node_env \<Rightarrow> CTransaction \<Rightarrow> string option" where
  "VerifyNewUniqueAsset env tx =
     (let vout = tx_vout tx
      in if length vout < 3 then Some ''bad-txns-unique-vout-size-to-small''
         else case unique_loop env vout [] [] of
           Inl e \<Rightarrow> Some e
         | Inr (assetRoot, setUniqueAssets) \<Rightarrow>
             let assetOutpointCount = length setUniqueAssets
             in if assetOutpointCount = 0 then Some ''bad-txns-issue-unique-asset-bad-outpoint-count''
                else if \<not> has_issue_burn env vout UNIQUE (int assetOutpointCount)
                  then Some ''bad-txns-issue-unique-asset-burn-outpoints-not-found''
                else if \<not> has_transfer env vout (assetRoot @ OWNER_TAG) then Some ''bad-txns-issue-unique-asset-missing-owner-asset''
                else case GetTxOutAssetTypes vout (0, 0, 0, 0) of (nIssues, nReissues, nTransfers, nOwners) \<Rightarrow>
                  if nOwners > 0 \<or> nReissues > 0 \<or> nIssues \<noteq> assetOutpointCount
                  then Some ''bad-txns-failed-unique-asset-formatting-check'' else None)"

definition VerifyNewAsset :: "node_env \<Rightarrow> CTransaction \<Rightarrow> string option" where
  "VerifyNewAsset env tx =
     (let vout = tx_vout tx; n = length vout
      in if n < 3 then Some ''bad-txns-issue-vout-size-to-small''
         else if \<not> CheckIssueDataTx (vout ! (n - 1)) then Some ''bad-txns-issue-data-not-found''
         else if \<not> CheckOwnerDataTx (vout ! (n - 2)) then Some ''bad-txns-issue-owner-data-not-found''
         else case AssetFromScript env (txo_scriptPubKey (vout ! (n - 1))) of
           None \<Rightarrow> Some ''bad-txns-issue-serialzation-failed''
         | Some (asset, _) \<Rightarrow>
             let assetType = snd (IsAssetNameValid (na_strName asset) INVALID)
             in case OwnerAssetFromScript env (txo_scriptPubKey (vout ! (n - 2))) of
                  None \<Rightarrow> Some ''bad-txns-issue-owner-serialzation-failed''
                | Some (strOwnerName, _) \<Rightarrow>
                    if strOwnerName \<noteq> na_strName asset @ OWNER_TAG then Some ''bad-txns-issue-owner-name-doesn't-match''
                    else if \<not> has_issue_burn env vout assetType 1 then Some ''bad-txns-issue-burn-not-found''
                    else if assetType = SUB \<and> \<not> has_transfer env vout (GetParentName (na_strName asset) @ OWNER_TAG)
                      then Some ''bad-txns-issue-new-asset-missing-owner-asset''
                    else case GetTxOutAssetTypes vout (0, 0, 0, 0) of (nIssues, nReissues, nTransfers, nOwners) \<Rightarrow>
                      if nOwners \<noteq> 1 \<or> nIssues \<noteq> 1 \<or> nReissues > 0
                      then Some ''bad-txns-failed-issue-asset-formatting-check'' else None)"

definition VerifyNewMsgChannelAsset :: "node_env \<Rightarrow> CTransaction \<Rightarrow> string option" where
  "VerifyNewMsgChannelAsset env tx =
     (let vout = tx_vout tx
      in if length vout < 3 then Some ''bad-txns-issue-msgchannel-vout-size-to-small''
         else if \<not> CheckIssueDataTx (last vout) then Some ''bad-txns-issue-data-not-found''
         else case MsgChannelAssetFromScript env (txo_scriptPubKey (last vout)) of
           None \<Rightarrow> Some ''bad-txns-issue-msgchannel-serialzation-failed''
         | Some (asset, _) \<Rightarrow>
             if \<not> has_issue_burn env vout MSGCHANNEL 1 then Some ''bad-txns-issue-msgchannel-burn-not-found''
             else if \<not> has_transfer env vout (GetParentName (na_strName asset) @ OWNER_TAG)
               then Some ''bad-txns-issue-msg-channel-asset-bad-owner-asset''
             else case GetTxOutAssetTypes vout (0, 0, 0, 0) of (nIssues, nReissues, nTransfers, nOwners) \<Rightarrow>
               if nOwners \<noteq> 0 \<or> nIssues \<noteq> 1 \<or> nReissues > 0
               then Some ''bad-txns-failed-issue-msgchannel-asset-formatting-check'' else None)"

definition VerifyNewQualfierAsset :: "node_env \<Rightarrow> CTransaction \<Rightarrow> string option" where
  "VerifyNewQualfierAsset env tx =
     (let vout = tx_vout tx
      in if length vout < 2 then Some ''bad-txns-issue-qualifier-vout-size-to-small''
         else if \<not> CheckIssueDataTx (last vout) then Some ''bad-txns-issue-qualifider-data-not-found''
         else case QualifierAssetFromScript env (txo_scriptPubKey (last vout)) of
           None \<Rightarrow> Some ''bad-txns-issue-qualifier-serialzation-failed''
         | Some (asset, _) \<Rightarrow>
             let assetType = snd (IsAssetNameValid (na_strName asset) INVALID)
             in if \<not> has_issue_burn env vout assetType 1 then Some ''bad-txns-issue-qualifier-burn-not-found''
                else if assetType = SUB_QUALIFIER \<and> \<not> has_transfer env vout (GetParentName (na_strName asset))
                  then Some ''bad-txns-issue-sub-qualifier-parent-outpoint-not-found''
                else case GetTxOutAssetTypes vout (0, 0, 0, 0) of (nIssues, nReissues, nTransfers, nOwners) \<Rightarrow>
                  if nOwners \<noteq> 0 \<or> nIssues \<noteq> 1 \<or> nReissues > 0
                  then Some ''bad-txns-failed-issue-asset-formatting-check'' else None)"

text \<open>The verifier string of a transaction, or an error and whether the reason is that there is none.\<close>

primrec verifier_loop :: "CTxOut list \<Rightarrow> bytes option \<Rightarrow> (string \<times> bool) + bytes" where
  "verifier_loop [] found = (case found of None \<Rightarrow> Inl (''Verifier string not found'', True) | Some v \<Rightarrow> Inr v)"
| "verifier_loop (out # vout) found =
     (if \<not> IsNullAssetVerifierTxDataScript (txo_scriptPubKey out) then verifier_loop vout found
      else if found \<noteq> None then Inl (''Multiple verifier strings found in transaction'', False)
      else case AssetNullVerifierDataFromScript (txo_scriptPubKey out) of
             None \<Rightarrow> Inl (''Failed to get verifier string from output: '', False)
           | Some v \<Rightarrow> verifier_loop vout (Some v))"

definition GetVerifierStringFromTx :: "CTransaction \<Rightarrow> (string \<times> bool) + bytes" where
  "GetVerifierStringFromTx tx = verifier_loop (tx_vout tx) None"

definition VerifyNewRestrictedAsset :: "node_env \<Rightarrow> CTransaction \<Rightarrow> string option" where
  "VerifyNewRestrictedAsset env tx =
     (let vout = tx_vout tx
      in if length vout < 4 then Some ''bad-txns-issue-restricted-vout-size-to-small''
         else if \<not> CheckIssueDataTx (last vout) then Some ''bad-txns-issue-restricted-data-not-found''
         else case RestrictedAssetFromScript env (txo_scriptPubKey (last vout)) of
           None \<Rightarrow> Some ''bad-txns-issue-restricted-serialization-failed''
         | Some (asset, _) \<Rightarrow>
             let assetType = snd (IsAssetNameValid (na_strName asset) INVALID);
                 strippedRoot = drop 1 (GetParentName (na_strName asset)) @ OWNER_TAG
             in if \<not> has_issue_burn env vout assetType 1 then Some ''bad-txns-issue-restricted-burn-not-found''
                else if \<not> has_transfer env vout strippedRoot
                  then Some ''bad-txns-issue-restricted-root-owner-token-outpoint-not-found''
                else case GetVerifierStringFromTx tx of
                       Inl (strError, _) \<Rightarrow> Some strError
                     | Inr _ \<Rightarrow>
                         (case GetTxOutAssetTypes vout (0, 0, 0, 0) of (nIssues, nReissues, nTransfers, nOwners) \<Rightarrow>
                            if nOwners \<noteq> 0 \<or> nIssues \<noteq> 1 \<or> nReissues > 0
                            then Some ''bad-txns-failed-issue-asset-formatting-check'' else None))"

definition VerifyReissueAsset :: "node_env \<Rightarrow> CTransaction \<Rightarrow> string option" where
  "VerifyReissueAsset env tx =
     (let vout = tx_vout tx
      in if length vout < 3 then Some ''bad-txns-vout-size-to-small''
         else if \<not> CheckReissueDataTx (last vout) then Some ''bad-txns-reissue-data-not-found''
         else case ReissueAssetFromScript env (txo_scriptPubKey (last vout)) of
           None \<Rightarrow> Some ''bad-txns-reissue-serialization-failed''
         | Some (reissue, _) \<Rightarrow>
             let asset_type = snd (IsAssetNameValid (ra_strName reissue) INVALID);
                 asset_name_to_check = (if asset_type = RESTRICTED then drop 1 (ra_strName reissue) else ra_strName reissue)
             in if \<not> has_transfer env vout (asset_name_to_check @ OWNER_TAG) then Some ''bad-txns-reissue-owner-outpoint-not-found''
                else if \<not> list_ex (CheckReissueBurnTx env) vout then Some ''bad-txns-reissue-burn-outpoint-not-found''
                else case GetTxOutAssetTypes vout (0, 0, 0, 0) of (nIssues, nReissues, nTransfers, nOwners) \<Rightarrow>
                  if nOwners > 0 \<or> nReissues \<noteq> 1 \<or> nIssues > 0
                  then Some ''bad-txns-failed-reissue-asset-formatting-check'' else None)"

definition CheckAddingTagBurnFee :: "node_env \<Rightarrow> CTransaction \<Rightarrow> int \<Rightarrow> bool" where
  "CheckAddingTagBurnFee env tx count \<longleftrightarrow> has_issue_burn env (tx_vout tx) NULL_ADD_QUALIFIER count"

section \<open>Data of a transaction\<close>

definition AssetFromTransaction :: "node_env \<Rightarrow> CTransaction \<Rightarrow> (CNewAsset \<times> bytes) option" where
  "AssetFromTransaction env tx =
     (if \<not> tx_IsNewAsset env tx then None else AssetFromScript env (txo_scriptPubKey (last (tx_vout tx))))"

definition MsgChannelAssetFromTransaction :: "node_env \<Rightarrow> CTransaction \<Rightarrow> (CNewAsset \<times> bytes) option" where
  "MsgChannelAssetFromTransaction env tx =
     (if \<not> tx_IsNewMsgChannelAsset env tx then None else MsgChannelAssetFromScript env (txo_scriptPubKey (last (tx_vout tx))))"

definition QualifierAssetFromTransaction :: "node_env \<Rightarrow> CTransaction \<Rightarrow> (CNewAsset \<times> bytes) option" where
  "QualifierAssetFromTransaction env tx =
     (if \<not> tx_IsNewQualifierAsset env tx then None else QualifierAssetFromScript env (txo_scriptPubKey (last (tx_vout tx))))"

definition RestrictedAssetFromTransaction :: "node_env \<Rightarrow> CTransaction \<Rightarrow> (CNewAsset \<times> bytes) option" where
  "RestrictedAssetFromTransaction env tx =
     (if \<not> tx_IsNewRestrictedAsset env tx then None else RestrictedAssetFromScript env (txo_scriptPubKey (last (tx_vout tx))))"

definition ReissueAssetFromTransaction :: "node_env \<Rightarrow> CTransaction \<Rightarrow> (CReissueAsset \<times> bytes) option" where
  "ReissueAssetFromTransaction env tx =
     (if \<not> tx_IsReissueAsset tx then None else ReissueAssetFromScript env (txo_scriptPubKey (last (tx_vout tx))))"

definition OwnerFromTransaction :: "node_env \<Rightarrow> CTransaction \<Rightarrow> (bytes \<times> bytes) option" where
  "OwnerFromTransaction env tx =
     (if \<not> tx_IsNewAsset env tx then None
      else OwnerAssetFromScript env (txo_scriptPubKey (tx_vout tx ! (length (tx_vout tx) - 2))))"

definition IsNewOwnerTxValid :: "node_env \<Rightarrow> CTransaction \<Rightarrow> bytes \<Rightarrow> bytes \<Rightarrow> string option" where
  "IsNewOwnerTxValid env tx assetName address =
     (case OwnerFromTransaction env tx of
        None \<Rightarrow> Some ''bad-txns-bad-owner''
      | Some (ownerName, ownerAddress) \<Rightarrow>
          if ownerAddress \<noteq> address then Some ''bad-txns-owner-address-mismatch''
          else if length ownerName < OWNER_LENGTH + MIN_ASSET_LENGTH then Some ''bad-txns-owner-asset-length''
          else if ownerName \<noteq> assetName @ OWNER_TAG then Some ''bad-txns-owner-name-mismatch''
          else None)"

section \<open>Checks against the existing assets\<close>

definition VerifyNullAssetDataFlag :: "u8 \<Rightarrow> string option" where
  "VerifyNullAssetDataFlag flag = (if flag \<noteq> 0 \<and> flag \<noteq> 1 then Some ''bad-txns-null-data-flag-must-be-0-or-1'' else None)"

definition VerifyQualifierChange :: "asset_view \<Rightarrow> CNullAssetTxData \<Rightarrow> bytes \<Rightarrow> string option" where
  "VerifyQualifierChange cache data address =
     (case VerifyNullAssetDataFlag (nd_flag data) of
        Some e \<Rightarrow> Some e
      | None \<Rightarrow>
          let fHasQualifier = CheckForAddressQualifier cache (nd_asset_name data) address;
              type = (if nd_flag data \<noteq> 0 then ADD_QUALIFIER else REMOVE_QUALIFIER)
          in if type = ADD_QUALIFIER \<and> fHasQualifier then Some ''bad-txns-null-data-add-qualifier-when-already-assigned''
             else if type = REMOVE_QUALIFIER \<and> \<not> fHasQualifier then Some ''bad-txns-null-data-removing-qualifier-when-not-assigned''
             else None)"

definition VerifyRestrictedAddressChange :: "asset_view \<Rightarrow> CNullAssetTxData \<Rightarrow> bytes \<Rightarrow> string option" where
  "VerifyRestrictedAddressChange cache data address =
     (case VerifyNullAssetDataFlag (nd_flag data) of
        Some e \<Rightarrow> Some e
      | None \<Rightarrow>
          let fIsFrozen = CheckForAddressRestriction cache (nd_asset_name data) address;
              type = (if nd_flag data \<noteq> 0 then FREEZE_ADDRESS else UNFREEZE_ADDRESS)
          in if type = FREEZE_ADDRESS \<and> fIsFrozen then Some ''bad-txns-null-data-freeze-address-when-already-frozen''
             else if type = UNFREEZE_ADDRESS \<and> \<not> fIsFrozen then Some ''bad-txns-null-data-unfreeze-address-when-not-frozen''
             else None)"

definition VerifyGlobalRestrictedChange :: "asset_view \<Rightarrow> CNullAssetTxData \<Rightarrow> string option" where
  "VerifyGlobalRestrictedChange cache data =
     (case VerifyNullAssetDataFlag (nd_flag data) of
        Some e \<Rightarrow> Some e
      | None \<Rightarrow>
          let fIsGloballyFrozen = CheckForGlobalRestriction cache (nd_asset_name data);
              type = (if nd_flag data \<noteq> 0 then GLOBAL_FREEZE else GLOBAL_UNFREEZE)
          in if type = GLOBAL_FREEZE \<and> fIsGloballyFrozen then Some ''bad-txns-null-data-global-freeze-when-already-frozen''
             else if type = GLOBAL_UNFREEZE \<and> \<not> fIsGloballyFrozen then Some ''bad-txns-null-data-global-unfreeze-when-not-frozen''
             else None)"

definition ContextualCheckNullAssetTxOut :: "node_env \<Rightarrow> asset_view \<Rightarrow> CTxOut \<Rightarrow> string option" where
  "ContextualCheckNullAssetTxOut env cache txout =
     (case AssetNullDataFromScript env (txo_scriptPubKey txout) of
        None \<Rightarrow> Some ''bad-txns-null-asset-data-serialization''
      | Some (data, address) \<Rightarrow>
          if IsAssetNameAQualifier (nd_asset_name data) False then VerifyQualifierChange cache data address
          else if IsAssetNameAnRestricted (nd_asset_name data) then VerifyRestrictedAddressChange cache data address
          else Some ''bad-txns-null-asset-data-on-non-restricted-or-qualifier-asset'')"

definition ContextualCheckGlobalAssetTxOut :: "asset_view \<Rightarrow> CTxOut \<Rightarrow> string option" where
  "ContextualCheckGlobalAssetTxOut cache txout =
     (case GlobalAssetNullDataFromScript (txo_scriptPubKey txout) of
        None \<Rightarrow> Some ''bad-txns-null-global-asset-data-serialization''
      | Some data \<Rightarrow> VerifyGlobalRestrictedChange cache data)"

text \<open>The error text of the inner check is local to it: the caller sees the text it had before.\<close>

definition ContextualCheckVerifierAssetTxOut :: "asset_view \<Rightarrow> CTxOut \<Rightarrow> string \<Rightarrow> string option" where
  "ContextualCheckVerifierAssetTxOut cache txout strError =
     (case AssetNullVerifierDataFromScript (txo_scriptPubKey txout) of
        None \<Rightarrow> Some ''bad-txns-null-verifier-data-serialization''
      | Some verifier_string \<Rightarrow>
          (case ContextualCheckVerifierString cache verifier_string [] of None \<Rightarrow> None | Some _ \<Rightarrow> Some strError))"

definition ContextualCheckAgainstVerifyString :: "asset_view \<Rightarrow> CAssetTransfer \<Rightarrow> bytes \<Rightarrow> string option" where
  "ContextualCheckAgainstVerifyString cache transfer address =
     (case GetAssetVerifierStringIfExists cache (at_strName transfer) True of
        None \<Rightarrow> Some ''Verifier String doesn't exist for asset: ''
      | Some verifier_string \<Rightarrow> ContextualCheckVerifierString cache verifier_string address)"

text \<open>For a restricted asset that fails its verifier the text reported stays empty, as the source shadows the variable.\<close>

definition ContextualCheckTransferAsset :: "node_env \<Rightarrow> asset_view \<Rightarrow> CAssetTransfer \<Rightarrow> bytes \<Rightarrow> string option" where
  "ContextualCheckTransferAsset env cache transfer address =
     (case IsAssetNameValid (at_strName transfer) INVALID of (valid, assetType) \<Rightarrow>
        if \<not> valid then Some ''Invalid parameter: asset_name must only consist of valid characters and have a size between 3 and 30 characters. See help for more details.''
        else if at_nAmount transfer \<le> 0 then Some ''Invalid parameter: asset amount can't be equal to or less than zero.''
        else if AreMessagesDeployed env \<and> at_message transfer = [] \<and> at_nExpireTime transfer > 0
          then Some ''Invalid parameter: asset transfer expiration time requires a message to be attached to the transfer''
        else if AreMessagesDeployed env \<and> at_nExpireTime transfer < 0
          then Some ''Invalid parameter: expiration time must be a positive value''
        else case (if AreMessagesDeployed env \<and> at_message transfer \<noteq> [] then CheckEncoded env (at_message transfer) else None) of
          Some e \<Rightarrow> Some e
        | None \<Rightarrow>
            if assetType = MSGCHANNEL \<and> \<not> AreMessagesDeployed env then Some ''bad-txns-transfer-msgchannel-before-messaging-is-active''
            else if assetType = RESTRICTED \<and> \<not> AreRestrictedAssetsDeployed env
              then Some ''bad-txns-transfer-restricted-before-it-is-active''
            else if assetType = RESTRICTED \<and> CheckForGlobalRestriction cache (at_strName transfer)
              then Some ''bad-txns-transfer-restricted-asset-that-is-globally-restricted''
            else if assetType = RESTRICTED \<and> ContextualCheckAgainstVerifyString cache transfer address \<noteq> None then Some []
            else if (assetType = QUALIFIER \<or> assetType = SUB_QUALIFIER) \<and> \<not> AreRestrictedAssetsDeployed env
              then Some ''bad-txns-transfer-qualifier-before-it-is-active''
            else None)"

definition ContextualCheckNewAsset :: "node_env \<Rightarrow> asset_view \<Rightarrow> (bytes \<Rightarrow> bool) \<Rightarrow> CNewAsset \<Rightarrow> bool \<Rightarrow> string option" where
  "ContextualCheckNewAsset env cache mapAssetToHash asset fCheckMempool =
     (if \<not> AreAssetsDeployed env then Some ''bad-txns-new-asset-when-assets-is-not-active''
      else case CheckNewAsset asset of
        Some e \<Rightarrow> Some e
      | None \<Rightarrow>
          if CheckIfAssetExists cache (na_strName asset) then Some ''Invalid parameter: asset_name ''
          else if fCheckMempool \<and> mapAssetToHash (na_strName asset) then Some ''Asset with this name is already in the mempool''
          else if na_nHasIPFS asset \<noteq> 0 \<and> length (na_strIPFSHash asset) \<noteq> 34
               \<and> (\<not> AreMessagesDeployed env \<or> length (na_strIPFSHash asset) \<noteq> 32)
            then Some ''Invalid parameter: ipfs_hash must be 46 characters. Txid must be valid 64 character hash''
          else if na_nHasIPFS asset \<noteq> 0 then CheckEncoded env (na_strIPFSHash asset)
          else None)"

text \<open>
  The amount in circulation and the new amount are added as 64-bit integers in the code and without a bound here. The result is
  the same where it is at most the largest number of that width, so for every stored amount in the range of money, the check of
  the new amount being in the range before it.
\<close>

definition ContextualCheckReissueAsset :: "node_env \<Rightarrow> asset_view \<Rightarrow> CReissueAsset \<Rightarrow> CTransaction \<Rightarrow> string option" where
  "ContextualCheckReissueAsset env cache reissue_asset tx =
     (case ReissueAssetFromTransaction env tx of
        None \<Rightarrow> Some ''bad-txns-reissue-asset-contextual-check''
      | Some (_, strAddress) \<Rightarrow>
     (case CheckReissueAsset env reissue_asset of
        Some e \<Rightarrow> Some e
      | None \<Rightarrow>
     (case GetAssetMetaDataIfExists cache (ra_strName reissue_asset) of
        None \<Rightarrow> Some ''Unable to reissue asset: asset_name ''
      | Some prev_asset \<Rightarrow>
          if na_nReissuable prev_asset = 0 then Some ''Unable to reissue asset: reissuable is set to false''
          else if na_nAmount prev_asset + ra_nAmount reissue_asset > MAX_MONEY
            then Some ''Unable to reissue asset: asset_name ''
          else if \<not> CheckAmountWithUnits (ra_nAmount reissue_asset) (na_units prev_asset)
            then Some ''Unable to reissue asset: amount must be divisible by the smaller unit assigned to the asset''
          else if sint (ra_nUnits reissue_asset) < sint (na_units prev_asset) \<and> sint (ra_nUnits reissue_asset) \<noteq> - 1
            then Some ''Unable to reissue asset: unit must be larger than current unit selection''
          else if ra_strIPFSHash reissue_asset \<noteq> [] \<and> length (ra_strIPFSHash reissue_asset) \<noteq> 34
               \<and> (AreMessagesDeployed env \<and> length (ra_strIPFSHash reissue_asset) \<noteq> 32)
            then Some ''Invalid parameter: ipfs_hash must be 34 bytes, Txid must be 32 bytes''
          else case (if ra_strIPFSHash reissue_asset \<noteq> [] then CheckEncoded env (ra_strIPFSHash reissue_asset) else None) of
            Some e \<Rightarrow> Some e
          | None \<Rightarrow>
              if \<not> IsAssetNameAnRestricted (ra_strName reissue_asset) then None
              else case GetVerifierStringFromTx tx of
                Inl (strError, fNotFound) \<Rightarrow>
                  if \<not> fNotFound then Some strError
                  else if ra_nAmount reissue_asset > 0
                  then (case GetAssetVerifierStringIfExists cache (ra_strName reissue_asset) False of
                          Some verifier_string \<Rightarrow> ContextualCheckVerifierString cache verifier_string strAddress
                        | None \<Rightarrow> Some ''failed to get verifier string from a restricted asset, database is out of sync. Reindex required. Please report this is to development team'')
                  else None
              | Inr verifier_string \<Rightarrow>
                  if ra_nAmount reissue_asset > 0 then ContextualCheckVerifierString cache verifier_string strAddress else None)))"

primrec unique_check_loop :: "node_env \<Rightarrow> asset_view \<Rightarrow> (bytes \<Rightarrow> bool) \<Rightarrow> CTxOut list \<Rightarrow> string option" where
  "unique_check_loop env cache mempool [] = None"
| "unique_check_loop env cache mempool (out # vout) =
     (if ScriptNewUniqueAsset env (txo_scriptPubKey out) = None then unique_check_loop env cache mempool vout
      else case AssetFromScript env (txo_scriptPubKey out) of
             None \<Rightarrow> Some ''bad-txns-issue-unique-serialization-failed''
           | Some (asset, _) \<Rightarrow>
               (case ContextualCheckNewAsset env cache mempool asset False of
                  Some e \<Rightarrow> Some e
                | None \<Rightarrow> unique_check_loop env cache mempool vout))"

definition ContextualCheckUniqueAssetTx :: "node_env \<Rightarrow> asset_view \<Rightarrow> (bytes \<Rightarrow> bool) \<Rightarrow> CTransaction \<Rightarrow> string option" where
  "ContextualCheckUniqueAssetTx env cache mempool tx = unique_check_loop env cache mempool (tx_vout tx)"

section \<open>Lemmas\<close>

lemma GetTxOutAssetTypes_counts:
  "GetTxOutAssetTypes vout (a, b, c, d) =
     (a + length (filter CheckIssueDataTx vout), b + length (filter CheckReissueDataTx vout),
      c + length (filter CheckTransferOwnerTx vout), d + length (filter CheckOwnerDataTx vout))"
proof (induction vout arbitrary: a b c d)
  case (Cons out vout)
  note defs = CheckIssueDataTx_def CheckReissueDataTx_def CheckTransferOwnerTx_def CheckOwnerDataTx_def ScriptNewAsset_def
    ScriptReissueAsset_def ScriptTransferAsset_def ScriptOwnerAsset_def
  show ?case
  proof (cases "IsAssetScript (txo_scriptPubKey out)")
    case None
    then show ?thesis using Cons by (simp add: defs)
  next
    case (Some k)
    obtain type own i where k: "k = (type, own, i)" by (cases k) auto
    show ?thesis using Some k Cons by (cases own) (auto simp: defs)
  qed
qed simp

lemma filter_one: "length (filter P xs) = 1 \<Longrightarrow> x \<in> set xs \<Longrightarrow> P x \<Longrightarrow> y \<in> set xs \<Longrightarrow> P y \<Longrightarrow> x = y"
  by (auto simp: length_Suc_conv filter_eq_Cons_iff One_nat_def) (metis UnE filter_empty_conv set_ConsD)+

lemma AssetFromScript_issue: "AssetFromScript env (txo_scriptPubKey out) = Some x \<Longrightarrow> CheckIssueDataTx out"
  by (auto simp: AssetFromScript_def CheckIssueDataTx_def split: option.splits)

lemma ReissueAssetFromScript_reissue: "ReissueAssetFromScript env (txo_scriptPubKey out) = Some x \<Longrightarrow> CheckReissueDataTx out"
  by (auto simp: ReissueAssetFromScript_def CheckReissueDataTx_def split: option.splits)

lemma issued_type_Some:
  "issued_type env s = Some (t, i) \<longleftrightarrow>
     ScriptNewAsset s = Some i \<and> (\<exists>asset a. AssetFromScript env s = Some (asset, a) \<and> IsAssetNameValid (na_strName asset) INVALID = (True, t))"
  by (auto simp: issued_type_def AssetFromScript_def ScriptNewAsset_def split: option.splits if_splits prod.splits bool.splits)

lemma read_new_asset_same:
  assumes "idx \<noteq> None" "idx = (case issued_type env s of Some (t, i) \<Rightarrow> if P t then Some i else None | None \<Rightarrow> None)"
  shows "\<exists>asset a t. read_new_asset env s idx = Some (asset, a) \<and> AssetFromScript env s = Some (asset, a)
    \<and> IsAssetNameValid (na_strName asset) INVALID = (True, t) \<and> P t"
proof -
  obtain t i where t: "issued_type env s = Some (t, i)" "P t" "idx = Some i" using assms by (auto split: option.splits if_splits)
  then show ?thesis by (auto simp: issued_type_Some read_new_asset_def AssetFromScript_def split: option.splits)
qed

lemma unique_parent:
  assumes "IsAssetNameValid name INVALID = (True, UNIQUE)"
  shows "GetParentName name \<noteq> []"
proof -
  obtain p tag where p: "name = p @ 35 # tag" "path_ok p" "list_all unique_char tag"
    using assms by (auto simp: has_type_iff has_type_def)
  have "35 \<notin> set tag" using unique_chars [OF p(3)] by (auto simp: list_all_iff one_of_def str_def)
  then have "GetParentName name = p" using assms p by (simp add: GetParentName_def UNIQUE_TAG_DELIMITER_def before_last_append)
  moreover have "p \<noteq> []"
  proof
    assume "p = []"
    then obtain r subs where "[] = AssetNames.join SUB_NAME_DELIMITER (r # subs)" "root_ok r" using p(2) by (auto simp: path_ok_def)
    then show False by (cases subs) (auto simp: root_ok_def)
  qed
  ultimately show ?thesis by simp
qed

text \<open>The token that an issuer has to move: the owner token of the parent, or the parent for a qualifier below another.\<close>

definition authority :: "bytes \<Rightarrow> bytes option" where
  "authority name =
     (case snd (IsAssetNameValid name INVALID) of
        SUB \<Rightarrow> Some (GetParentName name @ OWNER_TAG) | UNIQUE \<Rightarrow> Some (GetParentName name @ OWNER_TAG)
      | MSGCHANNEL \<Rightarrow> Some (GetParentName name @ OWNER_TAG) | SUB_QUALIFIER \<Rightarrow> Some (GetParentName name)
      | RESTRICTED \<Rightarrow> Some (drop 1 (GetParentName name) @ OWNER_TAG) | _ \<Rightarrow> None)"

lemma unique_loop_Inr:
  "unique_loop env vout assetRoot ns = Inr (root, ns') \<Longrightarrow>
     length ns' = length ns + length (filter (\<lambda>out. ScriptNewUniqueAsset env (txo_scriptPubKey out) \<noteq> None) vout)
     \<and> (assetRoot \<noteq> [] \<longrightarrow> root = assetRoot)
     \<and> (\<forall>out \<in> set vout. ScriptNewUniqueAsset env (txo_scriptPubKey out) \<noteq> None \<longrightarrow>
          (\<exists>asset a. AssetFromScript env (txo_scriptPubKey out) = Some (asset, a) \<and> GetParentName (na_strName asset) = root))"
proof (induction vout arbitrary: assetRoot ns)
  case (Cons out vout)
  show ?case
  proof (cases "ScriptNewUniqueAsset env (txo_scriptPubKey out) = None")
    case False
    then obtain asset a where asset: "AssetFromScript env (txo_scriptPubKey out) = Some (asset, a)"
      "IsAssetNameValid (na_strName asset) INVALID = (True, UNIQUE)"
      by (auto simp: ScriptNewUniqueAsset_def issued_type_Some split: option.splits if_splits)
    note p = unique_parent [OF asset(2)]
    have "(assetRoot = [] \<or> assetRoot = GetParentName (na_strName asset))
        \<and> unique_loop env vout (GetParentName (na_strName asset)) (na_strName asset # ns) = Inr (root, ns')"
      using Cons.prems False asset(1) p by (auto simp: Let_def split: if_splits)
    then show ?thesis using Cons.IH [of "GetParentName (na_strName asset)" "na_strName asset # ns"] False asset(1) p by auto
  qed (use Cons in auto)
qed simp

lemma filter_same: "length (filter P xs) = length (filter Q xs) \<Longrightarrow> (\<And>x. P x \<Longrightarrow> Q x) \<Longrightarrow> x \<in> set xs \<Longrightarrow> Q x \<Longrightarrow> P x"
proof (induction xs)
  case (Cons y xs)
  have "length (filter P xs) \<le> length (filter Q xs)" using Cons.prems(2) by (induction xs) auto
  then show ?case using Cons by (auto split: if_splits)
qed simp

lemma new_unique_authority:
  assumes "VerifyNewUniqueAsset env tx = None" "out \<in> set (tx_vout tx)" "AssetFromScript env (txo_scriptPubKey out) = Some (asset, a)"
  shows "IsAssetNameValid (na_strName asset) INVALID = (True, UNIQUE) \<and> has_transfer env (tx_vout tx) (GetParentName (na_strName asset) @ OWNER_TAG)"
proof -
  let ?u = "\<lambda>out. ScriptNewUniqueAsset env (txo_scriptPubKey out) \<noteq> None"
  obtain root ns where l: "unique_loop env (tx_vout tx) [] [] = Inr (root, ns)" "has_transfer env (tx_vout tx) (root @ OWNER_TAG)"
    "length (filter CheckIssueDataTx (tx_vout tx)) = length ns"
    using assms(1) by (auto simp: VerifyNewUniqueAsset_def Let_def GetTxOutAssetTypes_counts split: if_splits sum.splits)
  have u: "CheckIssueDataTx x" if "?u x" for x
    using that by (auto simp: ScriptNewUniqueAsset_def issued_type_Some CheckIssueDataTx_def split: option.splits)
  have "?u out" using filter_same [of ?u "tx_vout tx" CheckIssueDataTx, OF _ u assms(2) AssetFromScript_issue [OF assms(3)]]
      unique_loop_Inr [OF l(1)] l(3) by simp
  then show ?thesis using unique_loop_Inr [OF l(1)] l(2) assms(2,3)
    by (auto simp: ScriptNewUniqueAsset_def issued_type_Some split: option.splits if_splits)
qed

lemma new_asset_authority:
  assumes "VerifyNewAsset env tx = None" "out \<in> set (tx_vout tx)" "AssetFromScript env (txo_scriptPubKey out) = Some (asset, a)"
  shows "snd (IsAssetNameValid (na_strName asset) INVALID) = SUB \<longrightarrow> has_transfer env (tx_vout tx) (GetParentName (na_strName asset) @ OWNER_TAG)"
proof -
  let ?last = "tx_vout tx ! (length (tx_vout tx) - 1)"
  obtain asset' a' where l: "AssetFromScript env (txo_scriptPubKey ?last) = Some (asset', a')"
    "snd (IsAssetNameValid (na_strName asset') INVALID) = SUB \<longrightarrow> has_transfer env (tx_vout tx) (GetParentName (na_strName asset') @ OWNER_TAG)"
    "length (filter CheckIssueDataTx (tx_vout tx)) = 1"
    using assms(1) by (auto simp: VerifyNewAsset_def Let_def GetTxOutAssetTypes_counts split: if_splits option.splits)
  have "tx_vout tx \<noteq> []" using assms(2) by auto
  then have "?last \<in> set (tx_vout tx)" by (simp add: last_conv_nth [symmetric])
  from filter_one [OF l(3) assms(2) AssetFromScript_issue [OF assms(3)] this AssetFromScript_issue [OF l(1)]]
  show ?thesis using l assms(3) by simp
qed

lemma single_kind_authority:
  assumes kind: "AssetFromScript env (txo_scriptPubKey (last (tx_vout tx))) = Some (asset', a')"
    and one: "length (filter CheckIssueDataTx (tx_vout tx)) = 1"
    and out: "out \<in> set (tx_vout tx)" "AssetFromScript env (txo_scriptPubKey out) = Some (asset, a)"
  shows "asset = asset'"
proof -
  have "last (tx_vout tx) \<in> set (tx_vout tx)" using out(1) by (cases "tx_vout tx") auto
  from filter_one [OF one out(1) AssetFromScript_issue [OF out(2)] this AssetFromScript_issue [OF kind]]
  show ?thesis using kind out(2) by simp
qed

lemma new_msgchannel_authority:
  assumes "VerifyNewMsgChannelAsset env tx = None" "out \<in> set (tx_vout tx)" "AssetFromScript env (txo_scriptPubKey out) = Some (asset, a)"
  shows "IsAssetNameValid (na_strName asset) INVALID = (True, MSGCHANNEL) \<and> has_transfer env (tx_vout tx) (GetParentName (na_strName asset) @ OWNER_TAG)"
proof -
  let ?s = "txo_scriptPubKey (last (tx_vout tx))"
  obtain asset' a' where l: "MsgChannelAssetFromScript env ?s = Some (asset', a')"
    "has_transfer env (tx_vout tx) (GetParentName (na_strName asset') @ OWNER_TAG)" "length (filter CheckIssueDataTx (tx_vout tx)) = 1"
    using assms(1) by (auto simp: VerifyNewMsgChannelAsset_def Let_def GetTxOutAssetTypes_counts split: if_splits option.splits)
  have "ScriptNewMsgChannelAsset env ?s \<noteq> None" using l(1) by (auto simp: MsgChannelAssetFromScript_def read_new_asset_def split: option.splits)
  from read_new_asset_same [OF this ScriptNewMsgChannelAsset_def [of env ?s]]
  have "AssetFromScript env ?s = Some (asset', a') \<and> IsAssetNameValid (na_strName asset') INVALID = (True, MSGCHANNEL)"
    using l(1) by (auto simp: MsgChannelAssetFromScript_def)
  then show ?thesis using single_kind_authority [OF _ l(3) assms(2,3)] l(2) by auto
qed

lemma new_qualifier_authority:
  assumes "VerifyNewQualfierAsset env tx = None" "out \<in> set (tx_vout tx)" "AssetFromScript env (txo_scriptPubKey out) = Some (asset, a)"
  shows "\<exists>t. IsAssetNameValid (na_strName asset) INVALID = (True, t) \<and> (t = QUALIFIER \<or> t = SUB_QUALIFIER)
    \<and> (t = SUB_QUALIFIER \<longrightarrow> has_transfer env (tx_vout tx) (GetParentName (na_strName asset)))"
proof -
  let ?s = "txo_scriptPubKey (last (tx_vout tx))"
  obtain asset' a' where l: "QualifierAssetFromScript env ?s = Some (asset', a')"
    "snd (IsAssetNameValid (na_strName asset') INVALID) = SUB_QUALIFIER \<longrightarrow> has_transfer env (tx_vout tx) (GetParentName (na_strName asset'))"
    "length (filter CheckIssueDataTx (tx_vout tx)) = 1"
    using assms(1) by (auto simp: VerifyNewQualfierAsset_def Let_def GetTxOutAssetTypes_counts split: if_splits option.splits)
  have "ScriptNewQualifierAsset env ?s \<noteq> None" using l(1) by (auto simp: QualifierAssetFromScript_def read_new_asset_def split: option.splits)
  from read_new_asset_same [OF this ScriptNewQualifierAsset_def [of env ?s]]
  have "AssetFromScript env ?s = Some (asset', a')
      \<and> (\<exists>t. IsAssetNameValid (na_strName asset') INVALID = (True, t) \<and> (t = QUALIFIER \<or> t = SUB_QUALIFIER))"
    using l(1) by (auto simp: QualifierAssetFromScript_def)
  then show ?thesis using single_kind_authority [OF _ l(3) assms(2,3)] l(2) by auto
qed

lemma new_restricted_authority:
  assumes "VerifyNewRestrictedAsset env tx = None" "out \<in> set (tx_vout tx)" "AssetFromScript env (txo_scriptPubKey out) = Some (asset, a)"
  shows "IsAssetNameValid (na_strName asset) INVALID = (True, RESTRICTED) \<and> has_transfer env (tx_vout tx) (drop 1 (GetParentName (na_strName asset)) @ OWNER_TAG)"
proof -
  let ?s = "txo_scriptPubKey (last (tx_vout tx))"
  obtain asset' a' where l: "RestrictedAssetFromScript env ?s = Some (asset', a')"
    "has_transfer env (tx_vout tx) (drop 1 (GetParentName (na_strName asset')) @ OWNER_TAG)" "length (filter CheckIssueDataTx (tx_vout tx)) = 1"
    using assms(1) by (auto simp: VerifyNewRestrictedAsset_def Let_def GetTxOutAssetTypes_counts split: if_splits option.splits sum.splits prod.splits)
  have "ScriptNewRestrictedAsset env ?s \<noteq> None" using l(1) by (auto simp: RestrictedAssetFromScript_def read_new_asset_def split: option.splits)
  from read_new_asset_same [OF this ScriptNewRestrictedAsset_def [of env ?s]]
  have "AssetFromScript env ?s = Some (asset', a') \<and> IsAssetNameValid (na_strName asset') INVALID = (True, RESTRICTED)"
    using l(1) by (auto simp: RestrictedAssetFromScript_def)
  then show ?thesis using single_kind_authority [OF _ l(3) assms(2,3)] l(2) by auto
qed

lemma reissue_authority:
  assumes "VerifyReissueAsset env tx = None"
  shows "filter CheckIssueDataTx (tx_vout tx) = []"
    "out \<in> set (tx_vout tx) \<Longrightarrow> ReissueAssetFromScript env (txo_scriptPubKey out) = Some (r, a) \<Longrightarrow>
       out = last (tx_vout tx) \<and> has_transfer env (tx_vout tx)
         ((if snd (IsAssetNameValid (ra_strName r) INVALID) = RESTRICTED then drop 1 (ra_strName r) else ra_strName r) @ OWNER_TAG)"
proof -
  obtain r' a' where l: "ReissueAssetFromScript env (txo_scriptPubKey (last (tx_vout tx))) = Some (r', a')"
    "has_transfer env (tx_vout tx)
         ((if snd (IsAssetNameValid (ra_strName r') INVALID) = RESTRICTED then drop 1 (ra_strName r') else ra_strName r') @ OWNER_TAG)"
    "length (filter CheckReissueDataTx (tx_vout tx)) = 1" "length (filter CheckIssueDataTx (tx_vout tx)) = 0"
    using assms(1) by (auto simp: VerifyReissueAsset_def Let_def GetTxOutAssetTypes_counts split: if_splits option.splits)
  then show "filter CheckIssueDataTx (tx_vout tx) = []" by simp
  assume out: "out \<in> set (tx_vout tx)" "ReissueAssetFromScript env (txo_scriptPubKey out) = Some (r, a)"
  then have "last (tx_vout tx) \<in> set (tx_vout tx)" by (cases "tx_vout tx") auto
  from filter_one [OF l(3) out(1) ReissueAssetFromScript_reissue [OF out(2)] this ReissueAssetFromScript_reissue [OF l(1)]]
  show "out = last (tx_vout tx) \<and> has_transfer env (tx_vout tx)
         ((if snd (IsAssetNameValid (ra_strName r) INVALID) = RESTRICTED then drop 1 (ra_strName r) else ra_strName r) @ OWNER_TAG)"
    using l out(2) by auto
qed

end
