(* ===== verification/CoinsUpdate.thy ===== *)
theory CoinsUpdate
  imports Coins AssetTx
begin

text \<open>
  What a block does to the set of unspent outputs, and how it is undone (\<open>AddCoins\<close> of \<open>src/src/coins.cpp\<close>,
  \<open>UpdateCoins\<close>, \<open>ApplyTxInUndo\<close> and \<open>DisconnectBlock\<close> of \<open>validation.cpp\<close>). The methods of the asset cache that these
  functions call are arguments; every test of what the methods return is translated. Not translated are the optional
  address and spent indexes, which nothing here reads, and the lists of channels and messages of the wallet.
\<close>

section \<open>The asset cache\<close>

record CBlockAssetUndo =
  au_fChangedIPFS :: bool
  au_fChangedUnits :: bool
  au_strIPFS :: bytes
  au_nUnits :: u32
  au_version :: u8
  au_fChangedVerifierString :: bool
  au_verifierString :: bytes

text \<open>
  The methods of \<open>CAssetsCache\<close>, on caches of type \<open>'a\<close>: each returns whether it worked, and the cache it leaves. The
  calls that \<open>AddCoins\<close> makes for a transaction are taken as one, \<open>AddAssets\<close>: it ignores what they return, and they
  change nothing but the cache. A flag says whether a mark is set or taken away.
\<close>

record 'a asset_ops =
  AddAssets :: "CTransaction \<Rightarrow> int \<Rightarrow> bytes \<Rightarrow> 'a \<Rightarrow> 'a"
  TrySpendCoin :: "COutPoint \<Rightarrow> CTxOut \<Rightarrow> 'a \<Rightarrow> bool \<times> 'a"
  UndoAssetCoin :: "Coin \<Rightarrow> COutPoint \<Rightarrow> 'a \<Rightarrow> bool \<times> 'a"
  ContainsAsset :: "bytes \<Rightarrow> 'a \<Rightarrow> bool \<times> 'a"
  RemoveNewAsset :: "CNewAsset \<Rightarrow> bytes \<Rightarrow> 'a \<Rightarrow> bool \<times> 'a"
  RemoveOwnerAsset :: "bytes \<Rightarrow> bytes \<Rightarrow> 'a \<Rightarrow> bool \<times> 'a"
  RemoveReissueAsset :: "CReissueAsset \<Rightarrow> bytes \<Rightarrow> COutPoint \<Rightarrow> (bytes \<times> CBlockAssetUndo) list \<Rightarrow> 'a \<Rightarrow> bool \<times> 'a"
  RemoveRestrictedVerifier :: "bytes \<Rightarrow> bytes \<Rightarrow> 'a \<Rightarrow> bool \<times> 'a"
  RemoveTransfer :: "CAssetTransfer \<Rightarrow> bytes \<Rightarrow> COutPoint \<Rightarrow> 'a \<Rightarrow> bool \<times> 'a"
  RemoveQualifierAddress :: "bytes \<Rightarrow> bytes \<Rightarrow> bool \<Rightarrow> 'a \<Rightarrow> bool \<times> 'a"
  RemoveRestrictedAddress :: "bytes \<Rightarrow> bytes \<Rightarrow> bool \<Rightarrow> 'a \<Rightarrow> bool \<times> 'a"
  RemoveGlobalRestricted :: "bytes \<Rightarrow> bool \<Rightarrow> 'a \<Rightarrow> bool \<times> 'a"

definition try_spend :: "node_env \<Rightarrow> 'a asset_ops \<Rightarrow> (COutPoint \<Rightarrow> CTxOut \<Rightarrow> 'a \<Rightarrow> bool \<times> 'a) option" where
  "try_spend env ops = (if AreAssetsDeployed env then Some (TrySpendCoin ops) else None)"

section \<open>Connecting\<close>

definition Coin_new :: "CTxOut \<Rightarrow> int \<Rightarrow> bool \<Rightarrow> Coin" where
  "Coin_new outIn nHeightIn fCoinBaseIn = \<lparr>coin_out = outIn, coin_fCoinBase = fCoinBaseIn, coin_nHeight = word_of_int nHeightIn\<rparr>"

definition Coin_IsAsset :: "Coin \<Rightarrow> bool" where
  "Coin_IsAsset coin \<longleftrightarrow> IsAssetScript (txo_scriptPubKey (coin_out coin)) \<noteq> None"

definition out_point :: "bytes \<Rightarrow> nat \<Rightarrow> COutPoint" where
  "out_point txid i = \<lparr>outp_hash = txid, outp_n = word_of_nat i\<rparr>"

text \<open>The outputs from number \<open>i\<close> on.\<close>

primrec add_coins_loop ::
  "'b get_coin \<Rightarrow> bytes \<Rightarrow> bool \<Rightarrow> int \<Rightarrow> bool \<Rightarrow> nat \<Rightarrow> CTxOut list \<Rightarrow> 'b CCoinsViewCache \<Rightarrow> 'b CCoinsViewCache coins_res" where
  "add_coins_loop base_GetCoin txid fCoinbase nHeight check i [] cache = Done cache"
| "add_coins_loop base_GetCoin txid fCoinbase nHeight check i (txout # vout) cache =
     (case (if check then HaveCoin base_GetCoin cache (out_point txid i) else (fCoinbase, cache)) of
        (overwrite, cache) \<Rightarrow>
          case AddCoin cache (out_point txid i) (Coin_new txout nHeight fCoinbase) overwrite of
            Done cache \<Rightarrow> add_coins_loop base_GetCoin txid fCoinbase nHeight check (Suc i) vout cache
          | LogicError \<Rightarrow> LogicError | AssertFailed \<Rightarrow> AssertFailed)"

definition AddCoins ::
  "node_env \<Rightarrow> 'a asset_ops \<Rightarrow> (bytes \<Rightarrow> bytes) \<Rightarrow> 'b get_coin \<Rightarrow> 'b CCoinsViewCache \<Rightarrow> CTransaction \<Rightarrow> int \<Rightarrow> bytes \<Rightarrow> bool \<Rightarrow> 'a
     \<Rightarrow> ('b CCoinsViewCache \<times> 'a) coins_res" where
  "AddCoins env ops hash256 base_GetCoin cache tx nHeight blockHash check assetsCache =
     (case add_coins_loop base_GetCoin (ComputeHash hash256 tx) (IsCoinBase tx) nHeight check 0 (tx_vout tx) cache of
        Done cache \<Rightarrow> Done (cache, if AreAssetsDeployed env then AddAssets ops tx nHeight blockHash assetsCache else assetsCache)
      | LogicError \<Rightarrow> LogicError | AssertFailed \<Rightarrow> AssertFailed)"

primrec spend_inputs ::
  "node_env \<Rightarrow> 'a asset_ops \<Rightarrow> 'b get_coin \<Rightarrow> CTxIn list \<Rightarrow> Coin list \<Rightarrow> 'b CCoinsViewCache \<Rightarrow> 'a
     \<Rightarrow> (Coin list \<times> 'b CCoinsViewCache \<times> 'a) coins_res" where
  "spend_inputs env ops base_GetCoin [] vprevout inputs assetCache = Done (vprevout, inputs, assetCache)"
| "spend_inputs env ops base_GetCoin (txin # vin) vprevout inputs assetCache =
     (case SpendCoin base_GetCoin (try_spend env ops) inputs (txin_prevout txin) assetCache of
        (is_spent, moveout, inputs, assetCache) \<Rightarrow>
          if \<not> is_spent then AssertFailed else spend_inputs env ops base_GetCoin vin (vprevout @ [moveout]) inputs assetCache)"

definition UpdateCoins ::
  "node_env \<Rightarrow> 'a asset_ops \<Rightarrow> (bytes \<Rightarrow> bytes) \<Rightarrow> 'b get_coin \<Rightarrow> CTransaction \<Rightarrow> 'b CCoinsViewCache \<Rightarrow> int \<Rightarrow> bytes \<Rightarrow> 'a
     \<Rightarrow> (Coin list \<times> 'b CCoinsViewCache \<times> 'a) coins_res" where
  "UpdateCoins env ops hash256 base_GetCoin tx inputs nHeight blockHash assetCache =
     (case (if \<not> IsCoinBase tx then spend_inputs env ops base_GetCoin (tx_vin tx) [] inputs assetCache else Done ([], inputs, assetCache)) of
        Done (vprevout, inputs, assetCache) \<Rightarrow>
          (case AddCoins env ops hash256 base_GetCoin inputs tx nHeight blockHash False assetCache of
             Done (inputs, assetCache) \<Rightarrow> Done (vprevout, inputs, assetCache) | LogicError \<Rightarrow> LogicError | AssertFailed \<Rightarrow> AssertFailed)
      | LogicError \<Rightarrow> LogicError | AssertFailed \<Rightarrow> AssertFailed)"

text \<open>
  The transactions of a block from number \<open>i\<close> on, with the undo records so far: there is none for the first one.
\<close>

primrec connect_txs ::
  "node_env \<Rightarrow> 'a asset_ops \<Rightarrow> (bytes \<Rightarrow> bytes) \<Rightarrow> 'b get_coin \<Rightarrow> int \<Rightarrow> bytes \<Rightarrow> nat \<Rightarrow> CTransaction list \<Rightarrow> Coin list list
     \<Rightarrow> 'b CCoinsViewCache \<Rightarrow> 'a \<Rightarrow> (Coin list list \<times> 'b CCoinsViewCache \<times> 'a) coins_res" where
  "connect_txs env ops hash256 base_GetCoin nHeight blockHash i [] vtxundo view assetsCache = Done (vtxundo, view, assetsCache)"
| "connect_txs env ops hash256 base_GetCoin nHeight blockHash i (tx # vtx) vtxundo view assetsCache =
     (case UpdateCoins env ops hash256 base_GetCoin tx view nHeight blockHash assetsCache of
        Done (txundo, view, assetsCache) \<Rightarrow>
          connect_txs env ops hash256 base_GetCoin nHeight blockHash (Suc i) vtx (if i > 0 then vtxundo @ [txundo] else vtxundo) view assetsCache
      | LogicError \<Rightarrow> LogicError | AssertFailed \<Rightarrow> AssertFailed)"

section \<open>Disconnecting\<close>

datatype DisconnectResult = DISCONNECT_OK | DISCONNECT_UNCLEAN | DISCONNECT_FAILED

definition ApplyTxInUndo ::
  "node_env \<Rightarrow> 'a asset_ops \<Rightarrow> 'b get_coin \<Rightarrow> Coin \<Rightarrow> 'b CCoinsViewCache \<Rightarrow> COutPoint \<Rightarrow> 'a
     \<Rightarrow> (DisconnectResult \<times> 'b CCoinsViewCache \<times> 'a) coins_res" where
  "ApplyTxInUndo env ops base_GetCoin undo view out assetCache =
     (case HaveCoin base_GetCoin view out of
        (have, view) \<Rightarrow>
          let fClean = (\<not> have);
              undo_asset = (if AreAssetsDeployed env \<and> Coin_IsAsset undo then UndoAssetCoin ops undo out assetCache else (True, assetCache));
              add = (\<lambda>undo view. case AddCoin view out undo (\<not> fClean) of
                       Done view \<Rightarrow> (case undo_asset of (undone, assetCache) \<Rightarrow>
                         Done (if fClean \<and> undone then DISCONNECT_OK else DISCONNECT_UNCLEAN, view, assetCache))
                     | LogicError \<Rightarrow> LogicError | AssertFailed \<Rightarrow> AssertFailed)
          in if coin_nHeight undo = 0
             then (case AccessByTxid base_GetCoin view (outp_hash out) of
                     (alternate, view) \<Rightarrow>
                       if \<not> IsSpent alternate
                       then add (undo\<lparr>coin_nHeight := coin_nHeight alternate, coin_fCoinBase := coin_fCoinBase alternate\<rparr>) view
                       else Done (DISCONNECT_FAILED, view, assetCache))
             else add undo view)"

text \<open>
  The outputs of a transaction from number \<open>o'\<close> on, which must be there as they are in the block. They are spent with a
  copy of the asset cache.
\<close>

primrec remove_outputs ::
  "node_env \<Rightarrow> 'a asset_ops \<Rightarrow> 'b get_coin \<Rightarrow> bytes \<Rightarrow> bool \<Rightarrow> int \<Rightarrow> nat \<Rightarrow> CTxOut list \<Rightarrow> bool \<Rightarrow> 'b CCoinsViewCache \<Rightarrow> 'a
     \<Rightarrow> bool \<times> 'b CCoinsViewCache \<times> 'a" where
  "remove_outputs env ops base_GetCoin hash is_coinbase nHeight o' [] fClean view tempCache = (fClean, view, tempCache)"
| "remove_outputs env ops base_GetCoin hash is_coinbase nHeight o' (txout # vout) fClean view tempCache =
     (if \<not> IsUnspendable (txo_scriptPubKey txout)
      then (case SpendCoin base_GetCoin (try_spend env ops) view (out_point hash o') tempCache of
              (is_spent, coin, view, tempCache) \<Rightarrow>
                remove_outputs env ops base_GetCoin hash is_coinbase nHeight (Suc o') vout
                  (if \<not> is_spent \<or> txout \<noteq> coin_out coin \<or> nHeight \<noteq> uint (coin_nHeight coin) \<or> is_coinbase \<noteq> coin_fCoinBase coin
                   then False else fClean) view tempCache)
      else remove_outputs env ops base_GetCoin hash is_coinbase nHeight (Suc o') vout fClean view tempCache)"

text \<open>
  What is undone in the asset cache for a transaction; None stands for a failure. First the outputs of interest, with
  their numbers: the transfers, and among those that cannot be spent the one with the verifier string and the changes of
  marks.
\<close>

definition transfer_outs :: "CTxOut list \<Rightarrow> (nat \<times> CTxOut) list" where
  "transfer_outs vout = filter (\<lambda>(_, t). \<not> IsUnspendable (txo_scriptPubKey t) \<and> ScriptTransferAsset (txo_scriptPubKey t) \<noteq> None) (List.enumerate 0 vout)"

definition null_outs :: "node_env \<Rightarrow> bool \<Rightarrow> CTxOut list \<Rightarrow> (nat \<times> CTxOut) list" where
  "null_outs env verifier vout =
     (if \<not> AreRestrictedAssetsDeployed env then []
      else filter (\<lambda>(_, t). IsUnspendable (txo_scriptPubKey t) \<and> IsNullAsset (txo_scriptPubKey t)
             \<and> IsNullAssetVerifierTxDataScript (txo_scriptPubKey t) = verifier) (List.enumerate 0 vout))"

definition succeeds :: "bool \<times> 'a \<Rightarrow> 'a option" where
  "succeeds r = (if fst r then Some (snd r) else None)"

definition remove_asset :: "'a asset_ops \<Rightarrow> CNewAsset \<Rightarrow> bytes \<Rightarrow> 'a \<Rightarrow> 'a option" where
  "remove_asset ops asset strAddress assetsCache =
     (case ContainsAsset ops (na_strName asset) assetsCache of
        (contains, assetsCache) \<Rightarrow> if contains then succeeds (RemoveNewAsset ops asset strAddress assetsCache) else Some assetsCache)"

primrec undo_unique :: "node_env \<Rightarrow> 'a asset_ops \<Rightarrow> CTxOut list \<Rightarrow> 'a \<Rightarrow> 'a option" where
  "undo_unique env ops [] assetsCache = Some assetsCache"
| "undo_unique env ops (out # vout) assetsCache =
     (if ScriptNewUniqueAsset env (txo_scriptPubKey out) = None then undo_unique env ops vout assetsCache
      else case AssetFromScript env (txo_scriptPubKey out) of
             None \<Rightarrow> None
           | Some (asset, strAddress) \<Rightarrow> Option.bind (remove_asset ops asset strAddress assetsCache) (undo_unique env ops vout))"

definition undo_restricted :: "node_env \<Rightarrow> 'a asset_ops \<Rightarrow> CTransaction \<Rightarrow> 'a \<Rightarrow> 'a option" where
  "undo_restricted env ops tx assetsCache =
     (case RestrictedAssetFromTransaction env tx of
        None \<Rightarrow> None
      | Some (asset, strAddress) \<Rightarrow>
          Option.bind (remove_asset ops asset strAddress assetsCache) (\<lambda>assetsCache.
            if null_outs env True (tx_vout tx) = [] then None
            else case AssetNullVerifierDataFromScript (txo_scriptPubKey (snd (last (null_outs env True (tx_vout tx))))) of
                   None \<Rightarrow> None
                 | Some verifier \<Rightarrow> succeeds (RemoveRestrictedVerifier ops (na_strName asset) verifier assetsCache)))"

definition undo_kind ::
  "node_env \<Rightarrow> 'a asset_ops \<Rightarrow> (bytes \<times> CBlockAssetUndo) list \<Rightarrow> CTransaction \<Rightarrow> bytes \<Rightarrow> 'a \<Rightarrow> 'a option" where
  "undo_kind env ops vUndoData tx hash assetsCache =
     (let remove = (\<lambda>r. case r of None \<Rightarrow> None | Some (asset, strAddress) \<Rightarrow> remove_asset ops asset strAddress assetsCache)
      in if tx_IsNewAsset env tx
         then Option.bind (remove (AssetFromTransaction env tx)) (\<lambda>assetsCache.
                case OwnerFromTransaction env tx of
                  None \<Rightarrow> None
                | Some (ownerName, ownerAddress) \<Rightarrow> succeeds (RemoveOwnerAsset ops ownerName ownerAddress assetsCache))
         else if tx_IsReissueAsset tx
         then (case ReissueAssetFromTransaction env tx of
                 None \<Rightarrow> None
               | Some (reissue, strAddress) \<Rightarrow>
                   (case ContainsAsset ops (ra_strName reissue) assetsCache of
                      (contains, assetsCache) \<Rightarrow>
                        if contains
                        then succeeds (RemoveReissueAsset ops reissue strAddress (out_point hash (length (tx_vout tx) - 1)) vUndoData assetsCache)
                        else Some assetsCache))
         else if tx_IsNewUniqueAsset env tx then undo_unique env ops (tx_vout tx) assetsCache
         else if tx_IsNewMsgChannelAsset env tx then remove (MsgChannelAssetFromTransaction env tx)
         else if tx_IsNewQualifierAsset env tx then remove (QualifierAssetFromTransaction env tx)
         else if tx_IsNewRestrictedAsset env tx then undo_restricted env ops tx assetsCache
         else Some assetsCache)"

primrec undo_transfers :: "node_env \<Rightarrow> 'a asset_ops \<Rightarrow> bytes \<Rightarrow> (nat \<times> CTxOut) list \<Rightarrow> 'a \<Rightarrow> 'a option" where
  "undo_transfers env ops hash [] assetsCache = Some assetsCache"
| "undo_transfers env ops hash (out # outs) assetsCache =
     (case TransferAssetFromScript env (txo_scriptPubKey (snd out)) of
        None \<Rightarrow> None
      | Some (transfer, strAddress) \<Rightarrow>
          Option.bind (succeeds (RemoveTransfer ops transfer strAddress (out_point hash (fst out)) assetsCache)) (undo_transfers env ops hash outs))"

definition undo_null :: "node_env \<Rightarrow> 'a asset_ops \<Rightarrow> bytes \<Rightarrow> 'a \<Rightarrow> 'a option" where
  "undo_null env ops script assetsCache =
     (if IsNullAssetTxDataScript script
      then (case AssetNullDataFromScript env script of
              None \<Rightarrow> None
            | Some (data, address) \<Rightarrow>
                let type = snd (IsAssetNameValid (nd_asset_name data) INVALID)
                in if type = QUALIFIER \<or> type = SUB_QUALIFIER
                   then succeeds (RemoveQualifierAddress ops (nd_asset_name data) address (nd_flag data \<noteq> 0) assetsCache)
                   else if type = RESTRICTED
                   then succeeds (RemoveRestrictedAddress ops (nd_asset_name data) address (nd_flag data \<noteq> 0) assetsCache)
                   else Some assetsCache)
      else if IsNullGlobalRestrictionAssetTxDataScript script
      then (case GlobalAssetNullDataFromScript script of
              None \<Rightarrow> None
            | Some data \<Rightarrow> succeeds (RemoveGlobalRestricted ops (nd_asset_name data) (nd_flag data \<noteq> 0) assetsCache))
      else Some assetsCache)"

primrec undo_nulls :: "node_env \<Rightarrow> 'a asset_ops \<Rightarrow> (nat \<times> CTxOut) list \<Rightarrow> 'a \<Rightarrow> 'a option" where
  "undo_nulls env ops [] assetsCache = Some assetsCache"
| "undo_nulls env ops (out # outs) assetsCache =
     Option.bind (undo_null env ops (txo_scriptPubKey (snd out)) assetsCache) (undo_nulls env ops outs)"

definition undo_assets ::
  "node_env \<Rightarrow> 'a asset_ops \<Rightarrow> (bytes \<times> CBlockAssetUndo) list \<Rightarrow> CTransaction \<Rightarrow> bytes \<Rightarrow> 'a \<Rightarrow> 'a option" where
  "undo_assets env ops vUndoData tx hash assetsCache =
     (if \<not> AreAssetsDeployed env then Some assetsCache
      else Option.bind (undo_kind env ops vUndoData tx hash assetsCache) (\<lambda>assetsCache.
           Option.bind (undo_transfers env ops hash (transfer_outs (tx_vout tx)) assetsCache)
             (undo_nulls env ops (null_outs env False (tx_vout tx)))))"

text \<open>The inputs, from the last to the first, with the number still to be restored.\<close>

primrec restore_inputs ::
  "node_env \<Rightarrow> 'a asset_ops \<Rightarrow> 'b get_coin \<Rightarrow> CTxIn list \<Rightarrow> Coin list \<Rightarrow> nat \<Rightarrow> bool \<Rightarrow> 'b CCoinsViewCache \<Rightarrow> 'a
     \<Rightarrow> (bool option \<times> 'b CCoinsViewCache \<times> 'a) coins_res" where
  "restore_inputs env ops base_GetCoin vin vprevout 0 fClean view assetsCache = Done (Some fClean, view, assetsCache)"
| "restore_inputs env ops base_GetCoin vin vprevout (Suc j) fClean view assetsCache =
     (case ApplyTxInUndo env ops base_GetCoin (vprevout ! j) view (txin_prevout (vin ! j)) assetsCache of
        Done (res, view, assetsCache) \<Rightarrow>
          if res = DISCONNECT_FAILED then Done (None, view, assetsCache)
          else restore_inputs env ops base_GetCoin vin vprevout j (fClean \<and> res \<noteq> DISCONNECT_UNCLEAN) view assetsCache
      | LogicError \<Rightarrow> LogicError | AssertFailed \<Rightarrow> AssertFailed)"

text \<open>
  The transactions, from the last to the first, with the number still to be undone. None stands for a failure. The last
  argument is the copy of the asset cache.
\<close>

primrec disconnect_txs ::
  "node_env \<Rightarrow> 'a asset_ops \<Rightarrow> (bytes \<Rightarrow> bytes) \<Rightarrow> 'b get_coin \<Rightarrow> int \<Rightarrow> CTransaction list \<Rightarrow> Coin list list \<Rightarrow> (bytes \<times> CBlockAssetUndo) list
     \<Rightarrow> nat \<Rightarrow> bool \<Rightarrow> 'b CCoinsViewCache \<Rightarrow> 'a \<Rightarrow> 'a \<Rightarrow> (bool option \<times> 'b CCoinsViewCache \<times> 'a) coins_res" where
  "disconnect_txs env ops hash256 base_GetCoin nHeight vtx vtxundo vUndoData 0 fClean view assetsCache tempCache = Done (Some fClean, view, assetsCache)"
| "disconnect_txs env ops hash256 base_GetCoin nHeight vtx vtxundo vUndoData (Suc i) fClean view assetsCache tempCache =
     (let tx = vtx ! i; hash = ComputeHash hash256 tx
      in case remove_outputs env ops base_GetCoin hash (IsCoinBase tx) nHeight 0 (tx_vout tx) fClean view tempCache of
           (fClean, view, tempCache) \<Rightarrow>
             case undo_assets env ops vUndoData tx hash assetsCache of
               None \<Rightarrow> Done (None, view, assetsCache)
             | Some assetsCache \<Rightarrow>
                 if i > 0
                 then (if length (vtxundo ! (i - 1)) \<noteq> length (tx_vin tx) then Done (None, view, assetsCache)
                       else case restore_inputs env ops base_GetCoin (tx_vin tx) (vtxundo ! (i - 1)) (length (tx_vin tx)) fClean view assetsCache of
                              Done (Some fClean, view, assetsCache) \<Rightarrow>
                                disconnect_txs env ops hash256 base_GetCoin nHeight vtx vtxundo vUndoData i fClean view assetsCache tempCache
                            | Done (None, view, assetsCache) \<Rightarrow> Done (None, view, assetsCache)
                            | LogicError \<Rightarrow> LogicError | AssertFailed \<Rightarrow> AssertFailed)
                 else disconnect_txs env ops hash256 base_GetCoin nHeight vtx vtxundo vUndoData i fClean view assetsCache tempCache)"

text \<open>
  The undo data is what \<open>UndoReadFromDisk\<close> gives and the undo data of the assets what \<open>ReadBlockUndoAssetData\<close> gives,
  None if they fail; \<open>hashPrev\<close> is the hash of the block before. An asset cache is given, as every caller does: without
  one the copy would be of a null pointer.
\<close>

definition DisconnectBlock ::
  "node_env \<Rightarrow> 'a asset_ops \<Rightarrow> (bytes \<Rightarrow> bytes) \<Rightarrow> 'b get_coin \<Rightarrow> CTransaction list \<Rightarrow> int \<Rightarrow> bytes \<Rightarrow> Coin list list option
     \<Rightarrow> (bytes \<times> CBlockAssetUndo) list option \<Rightarrow> 'b CCoinsViewCache \<Rightarrow> 'a \<Rightarrow> (DisconnectResult \<times> 'b CCoinsViewCache \<times> 'a) coins_res" where
  "DisconnectBlock env ops hash256 base_GetCoin vtx nHeight hashPrev blockUndo assetUndo view assetsCache =
     (case blockUndo of
        None \<Rightarrow> Done (DISCONNECT_FAILED, view, assetsCache)
      | Some vtxundo \<Rightarrow>
          if length vtxundo + 1 \<noteq> length vtx then Done (DISCONNECT_FAILED, view, assetsCache)
          else case assetUndo of
            None \<Rightarrow> Done (DISCONNECT_FAILED, view, assetsCache)
          | Some vUndoData \<Rightarrow>
              (case disconnect_txs env ops hash256 base_GetCoin nHeight vtx vtxundo vUndoData (length vtx) True view assetsCache assetsCache of
                 Done (Some fClean, view, assetsCache) \<Rightarrow>
                   Done (if fClean then DISCONNECT_OK else DISCONNECT_UNCLEAN, SetBestBlock view hashPrev, assetsCache)
               | Done (None, view, assetsCache) \<Rightarrow> Done (DISCONNECT_FAILED, view, assetsCache)
               | LogicError \<Rightarrow> LogicError | AssertFailed \<Rightarrow> AssertFailed))"

section \<open>The meaning for the set of unspent outputs\<close>

definition prevouts :: "CTransaction \<Rightarrow> COutPoint list" where
  "prevouts tx = map txin_prevout (tx_vin tx)"

primrec outs_map :: "bytes \<Rightarrow> bool \<Rightarrow> int \<Rightarrow> nat \<Rightarrow> CTxOut list \<Rightarrow> COutPoint \<rightharpoonup> Coin" where
  "outs_map txid cb h i [] = Map.empty"
| "outs_map txid cb h i (txout # vout) =
     (if IsUnspendable (txo_scriptPubKey txout) then outs_map txid cb h (Suc i) vout
      else (outs_map txid cb h (Suc i) vout)(out_point txid i \<mapsto> Coin_new txout h cb))"

definition new_coins :: "(bytes \<Rightarrow> bytes) \<Rightarrow> int \<Rightarrow> CTransaction \<Rightarrow> COutPoint \<rightharpoonup> Coin" where
  "new_coins hash256 h tx = outs_map (ComputeHash hash256 tx) (IsCoinBase tx) h 0 (tx_vout tx)"

definition apply_tx :: "(bytes \<Rightarrow> bytes) \<Rightarrow> int \<Rightarrow> CTransaction \<Rightarrow> (COutPoint \<rightharpoonup> Coin) \<Rightarrow> (COutPoint \<rightharpoonup> Coin)" where
  "apply_tx hash256 h tx u = (if IsCoinBase tx then u else u |` (- set (prevouts tx))) ++ new_coins hash256 h tx"

text \<open>
  What the checks on a block make sure of before its coins are updated: the inputs of a transaction are unspent and
  are spent once, and no output of its identifier is unspent.
\<close>

definition tx_fits :: "(bytes \<Rightarrow> bytes) \<Rightarrow> (COutPoint \<rightharpoonup> Coin) \<Rightarrow> CTransaction \<Rightarrow> bool" where
  "tx_fits hash256 u tx \<longleftrightarrow>
     (\<not> IsCoinBase tx \<longrightarrow> distinct (prevouts tx) \<and> (\<forall>p \<in> set (prevouts tx). u p \<noteq> None))
     \<and> length (tx_vout tx) \<le> 2 ^ 32 \<and> (\<forall>txout \<in> set (tx_vout tx). 0 \<le> txo_nValue txout)
     \<and> (\<forall>i < length (tx_vout tx). u (out_point (ComputeHash hash256 tx) i) = None)"

primrec txs_fit :: "(bytes \<Rightarrow> bytes) \<Rightarrow> int \<Rightarrow> (COutPoint \<rightharpoonup> Coin) \<Rightarrow> CTransaction list \<Rightarrow> bool" where
  "txs_fit hash256 h u [] = True"
| "txs_fit hash256 h u (tx # txs) \<longleftrightarrow> tx_fits hash256 u tx \<and> txs_fit hash256 h (apply_tx hash256 h tx u) txs"

text \<open>Coins that can be restored from their undo record: they have a height, and a script that is not dropped.\<close>

definition restorable :: "(COutPoint \<rightharpoonup> Coin) \<Rightarrow> bool" where
  "restorable u \<longleftrightarrow> (\<forall>c \<in> ran u. coin_nHeight c \<noteq> 0 \<and> \<not> IsUnspendable (txo_scriptPubKey (coin_out c)) \<and> \<not> IsSpent c)"

lemma out_point_inj: "i < 2 ^ 32 \<Longrightarrow> j < 2 ^ 32 \<Longrightarrow> out_point txid i = out_point txid j \<longleftrightarrow> i = j"
  by (auto simp: out_point_def word_unat_eq_iff unsigned_of_nat take_bit_nat_eq_self)

lemma outs_map_dom: "outs_map txid cb h i vout p = Some c \<Longrightarrow> \<exists>k < length vout. p = out_point txid (i + k) \<and> c = Coin_new (vout ! k) h cb
    \<and> \<not> IsUnspendable (txo_scriptPubKey (vout ! k))"
proof (induction vout arbitrary: i)
  case (Cons txout vout)
  show ?case
  proof (cases "outs_map txid cb h (Suc i) vout p = Some c \<and> \<not> (p = out_point txid i \<and> \<not> IsUnspendable (txo_scriptPubKey txout))")
    case True
    with Cons.IH [of "Suc i"] obtain k where "k < length vout" "p = out_point txid (Suc i + k)" "c = Coin_new (vout ! k) h cb"
      "\<not> IsUnspendable (txo_scriptPubKey (vout ! k))" by blast
    then show ?thesis by (intro exI [of _ "Suc k"]) simp
  next
    case False
    then show ?thesis using Cons.prems by (intro exI [of _ 0]) (auto split: if_splits)
  qed
qed simp

lemma outs_map_fresh: "i < j \<Longrightarrow> j + length vout \<le> 2 ^ 32 \<Longrightarrow> outs_map txid cb h j vout (out_point txid i) = None"
  using outs_map_dom [of txid cb h j vout "out_point txid i"] out_point_inj
  by (cases "outs_map txid cb h j vout (out_point txid i)") fastforce+

definition undo_of :: "(COutPoint \<rightharpoonup> Coin) \<Rightarrow> CTransaction \<Rightarrow> Coin list" where
  "undo_of u tx = map (\<lambda>txin. the (u (txin_prevout txin))) (tx_vin tx)"

primrec undos :: "(bytes \<Rightarrow> bytes) \<Rightarrow> int \<Rightarrow> (COutPoint \<rightharpoonup> Coin) \<Rightarrow> CTransaction list \<Rightarrow> Coin list list" where
  "undos hash256 h u [] = []"
| "undos hash256 h u (tx # txs) = undo_of u tx # undos hash256 h (apply_tx hash256 h tx u) txs"

lemma undos_nth: "i < length txs \<Longrightarrow> undos hash256 h u txs ! i = undo_of (fold (apply_tx hash256 h) (take i txs) u) (txs ! i)"
  by (induction txs arbitrary: u i) (simp_all add: nth_Cons' take_Cons')

lemma undos_length [simp]: "length (undos hash256 h u txs) = length txs"
  by (induction txs arbitrary: u) simp_all

lemma txs_fit_nth: "txs_fit hash256 h u txs \<Longrightarrow> i < length txs \<Longrightarrow> tx_fits hash256 (fold (apply_tx hash256 h) (take i txs) u) (txs ! i)"
  by (induction txs arbitrary: u i) (simp_all add: nth_Cons' take_Cons')

lemma map_add_remove: "dom m \<inter> dom u = {} \<Longrightarrow> (u ++ m) |` (- dom m) = u"
proof
  fix p assume "dom m \<inter> dom u = {}"
  then show "((u ++ m) |` (- dom m)) p = u p"
    by (cases "m p"; cases "u p") (auto simp: restrict_map_def map_add_def)
qed

lemma new_coins_disjoint: "tx_fits hash256 u tx \<Longrightarrow> dom (new_coins hash256 h tx) \<inter> dom u = {}"
  by (fastforce simp: tx_fits_def new_coins_def dest: outs_map_dom)

lemma restorable_apply:
  assumes "restorable u" "tx_fits hash256 u tx" "0 < h" "h < 2 ^ 31"
  shows "restorable (apply_tx hash256 h tx u)"
proof -
  have h: "(word_of_int h :: 31 word) \<noteq> 0" using assms(3,4) by (simp add: word_of_int_eq_0_iff zdvd_not_zless)
  have "coin_nHeight c \<noteq> 0 \<and> \<not> IsUnspendable (txo_scriptPubKey (coin_out c)) \<and> \<not> IsSpent c"
    if nc: "new_coins hash256 h tx p = Some c" for c p
  proof -
    obtain k where k: "k < length (tx_vout tx)" "c = Coin_new (tx_vout tx ! k) h (IsCoinBase tx)"
      "\<not> IsUnspendable (txo_scriptPubKey (tx_vout tx ! k))"
      using outs_map_dom [OF nc [unfolded new_coins_def]] by blast
    have "0 \<le> txo_nValue (tx_vout tx ! k)" using assms(2) k(1) nth_mem unfolding tx_fits_def by blast
    then show ?thesis using k(3) h by (simp add: k(2) Coin_new_def IsSpent_def CTxOut_IsNull_def)
  qed
  then show ?thesis using assms(1)
    by (auto simp: restorable_def apply_tx_def ran_def restrict_map_def map_add_Some_iff split: if_splits)
qed

lemma restorable_prefix:
  assumes "restorable u" "txs_fit hash256 h u txs" "0 < h" "h < 2 ^ 31"
  shows "restorable (fold (apply_tx hash256 h) (take i txs) u)"
  using assms(1,2)
proof (induction txs arbitrary: u i)
  case (Cons tx txs)
  then show ?case using restorable_apply [of u hash256 tx h] assms(3,4) by (cases i) simp_all
qed simp

section \<open>Blocks without assets\<close>

text \<open>
  The asset cache can make the updates fail. Its only say when connecting is that it may refuse to let a coin of an asset
  be spent. A plain transaction neither spends nor makes an output of the kinds that concern it; the cache does not refuse
  plain outputs.
\<close>

definition plain_out :: "CTxOut \<Rightarrow> bool" where
  "plain_out txout \<longleftrightarrow> IsAssetScript (txo_scriptPubKey txout) = None \<and> \<not> IsNullAsset (txo_scriptPubKey txout)"

definition spends_plain :: "node_env \<Rightarrow> 'a asset_ops \<Rightarrow> bool" where
  "spends_plain env ops \<longleftrightarrow> (AreAssetsDeployed env \<longrightarrow>
     (\<forall>p txout assetsCache. IsAssetScript (txo_scriptPubKey txout) = None \<longrightarrow> fst (TrySpendCoin ops p txout assetsCache)))"

definition refuses :: "node_env \<Rightarrow> 'a asset_ops \<Rightarrow> COutPoint \<Rightarrow> CTxOut \<Rightarrow> bool" where
  "refuses env ops p txout \<longleftrightarrow> AreAssetsDeployed env \<and> (\<exists>assetsCache. \<not> fst (TrySpendCoin ops p txout assetsCache))"

definition tx_plain :: "(COutPoint \<rightharpoonup> Coin) \<Rightarrow> CTransaction \<Rightarrow> bool" where
  "tx_plain u tx \<longleftrightarrow> tx_vout tx \<noteq> [] \<and> (\<forall>txout \<in> set (tx_vout tx). plain_out txout)
     \<and> (\<not> IsCoinBase tx \<longrightarrow> (\<forall>p \<in> set (prevouts tx). \<forall>coin. u p = Some coin \<longrightarrow> \<not> Coin_IsAsset coin))"

primrec txs_plain :: "(bytes \<Rightarrow> bytes) \<Rightarrow> int \<Rightarrow> (COutPoint \<rightharpoonup> Coin) \<Rightarrow> CTransaction list \<Rightarrow> bool" where
  "txs_plain hash256 h u [] = True"
| "txs_plain hash256 h u (tx # txs) \<longleftrightarrow> tx_plain u tx \<and> txs_plain hash256 h (apply_tx hash256 h tx u) txs"

primrec txs_refused :: "node_env \<Rightarrow> 'a asset_ops \<Rightarrow> (bytes \<Rightarrow> bytes) \<Rightarrow> int \<Rightarrow> (COutPoint \<rightharpoonup> Coin) \<Rightarrow> CTransaction list \<Rightarrow> bool" where
  "txs_refused env ops hash256 h u [] = False"
| "txs_refused env ops hash256 h u (tx # txs) \<longleftrightarrow>
     \<not> IsCoinBase tx \<and> (\<exists>p \<in> set (prevouts tx). \<exists>coin. u p = Some coin \<and> refuses env ops p (coin_out coin))
     \<or> txs_refused env ops hash256 h (apply_tx hash256 h tx u) txs"

lemma txs_plain_nth: "txs_plain hash256 h u txs \<Longrightarrow> i < length txs \<Longrightarrow> tx_plain (fold (apply_tx hash256 h) (take i txs) u) (txs ! i)"
  by (induction txs arbitrary: u i) (simp_all add: nth_Cons' take_Cons')

lemma not_refuses: "spends_plain env ops \<Longrightarrow> \<not> Coin_IsAsset coin \<Longrightarrow> \<not> refuses env ops p (coin_out coin)"
  unfolding spends_plain_def refuses_def Coin_IsAsset_def by blast

lemma plain_not_refused: "spends_plain env ops \<Longrightarrow> txs_plain hash256 h u txs \<Longrightarrow> \<not> txs_refused env ops hash256 h u txs"
  by (induction txs arbitrary: u) (auto simp: tx_plain_def not_refuses)

lemma try_spend_refuses:
  "(r, a') = (case try_spend env ops of None \<Rightarrow> (True, a) | Some t \<Rightarrow> t p txout a) \<Longrightarrow> r \<or> refuses env ops p txout"
  by (auto simp: try_spend_def refuses_def split: if_splits) (metis fst_conv)

lemma plain_undo_assets:
  assumes "tx_vout tx \<noteq> []" "\<forall>txout \<in> set (tx_vout tx). plain_out txout"
  shows "undo_assets env ops vUndoData tx hash a = Some a"
proof -
  have last: "plain_out (last (tx_vout tx))" "length (tx_vout tx) \<ge> 1 \<Longrightarrow> tx_vout tx ! (length (tx_vout tx) - 1) = last (tx_vout tx)"
    using assms by (auto simp: last_conv_nth)
  have k: "\<not> CheckIssueDataTx (last (tx_vout tx))" "\<not> CheckReissueDataTx (last (tx_vout tx))"
    using last(1) by (simp_all add: plain_out_def CheckIssueDataTx_def CheckReissueDataTx_def ScriptNewAsset_def ScriptReissueAsset_def)
  then have kind: "\<not> tx_IsNewAsset env tx" "\<not> tx_IsReissueAsset tx" "\<not> tx_IsNewUniqueAsset env tx" "\<not> tx_IsNewMsgChannelAsset env tx"
    "\<not> tx_IsNewQualifierAsset env tx" "\<not> tx_IsNewRestrictedAsset env tx"
    using last(2) by (auto simp: tx_IsNewAsset_def tx_IsReissueAsset_def tx_IsNewUniqueAsset_def tx_IsNewMsgChannelAsset_def
        tx_IsNewQualifierAsset_def tx_IsNewRestrictedAsset_def Let_def)
  have "t \<in> set (tx_vout tx)" if "(k, t) \<in> set (List.enumerate 0 (tx_vout tx))" for k t
    using that by (auto simp: in_set_enumerate_eq)
  then have "transfer_outs (tx_vout tx) = []" "null_outs env False (tx_vout tx) = []"
    using assms(2) by (fastforce simp: transfer_outs_def null_outs_def plain_out_def ScriptTransferAsset_def filter_empty_conv)+
  then show ?thesis using kind by (simp add: undo_assets_def undo_kind_def)
qed

context coins_view
begin

lemma spend_inputs_law:
  assumes "cache_ok utxo ok c" "distinct (map txin_prevout vin)" "\<forall>p \<in> set (map txin_prevout vin). cache_utxo utxo c p \<noteq> None"
  shows "spend_inputs env ops get vin acc c a = AssertFailed
      \<and> (\<exists>p \<in> set (map txin_prevout vin). \<exists>coin. cache_utxo utxo c p = Some coin \<and> refuses env ops p (coin_out coin))
    \<or> (\<exists>c' a'. spend_inputs env ops get vin acc c a = Done (acc @ map (\<lambda>txin. the (cache_utxo utxo c (txin_prevout txin))) vin, c', a')
      \<and> cache_ok utxo ok c' \<and> cache_tip tip c' = cache_tip tip c \<and> cache_utxo utxo c' = cache_utxo utxo c |` (- set (map txin_prevout vin)))"
  using assms
proof (induction vin arbitrary: acc c a)
  case Nil
  then show ?case by simp
next
  case (Cons txin vin)
  let ?p = "txin_prevout txin"
  from SpendCoin_law [OF Cons.prems(1), of "try_spend env ops" ?p a] obtain ret coin c1 a1 where
    s: "SpendCoin get (try_spend env ops) c ?p a = (ret, coin, c1, a1)"
    "cache_ok utxo ok c1" "cache_utxo utxo c1 = (cache_utxo utxo c)(?p := None)" "cache_tip tip c1 = cache_tip tip c"
    "unspent coin = cache_utxo utxo c ?p"
    "cache_utxo utxo c ?p \<noteq> None \<longrightarrow> (ret, a1) = (case try_spend env ops of None \<Rightarrow> (True, a) | Some t \<Rightarrow> t ?p (coin_out coin) a)" by metis
  have "cache_utxo utxo c ?p \<noteq> None" using Cons.prems(3) by simp
  then have coin: "cache_utxo utxo c ?p = Some coin" "ret \<or> refuses env ops ?p (coin_out coin)"
    using s(5,6) by (auto simp: unspent_def split: if_splits dest: try_spend_refuses)
  show ?case
  proof (cases ret)
    case False
    then show ?thesis using s(1) coin by auto
  next
    case True
    have same: "map (\<lambda>txin. the (cache_utxo utxo c1 (txin_prevout txin))) vin = map (\<lambda>txin. the (cache_utxo utxo c (txin_prevout txin))) vin"
      "p \<in> set (map txin_prevout vin) \<Longrightarrow> cache_utxo utxo c1 p = cache_utxo utxo c p" for p
      using Cons.prems(2) s(3) by (auto simp: image_iff)
    have "distinct (map txin_prevout vin)" "\<forall>p \<in> set (map txin_prevout vin). cache_utxo utxo c1 p \<noteq> None"
      using Cons.prems(2,3) same(2) by auto
    from Cons.IH [OF s(2) this, of "acc @ [coin]" a1] show ?thesis
    proof (elim disjE exE conjE, goal_cases)
      case 1
      then show ?case using s(1) True same(2) by auto
    next
      case (2 c' a')
      then show ?case using s coin(1) True unfolding same by (auto simp: restrict_map_def fun_eq_iff)
    qed
  qed
qed

lemma add_coins_law:
  assumes "cache_ok utxo ok c" "i + length vout \<le> 2 ^ 32" "\<forall>txout \<in> set vout. 0 \<le> txo_nValue txout"
    "\<forall>k < length vout. cache_utxo utxo c (out_point txid (i + k)) = None"
  shows "\<exists>c'. add_coins_loop get txid cb h False i vout c = Done c' \<and> cache_ok utxo ok c' \<and> cache_tip tip c' = cache_tip tip c
    \<and> cache_utxo utxo c' = cache_utxo utxo c ++ outs_map txid cb h i vout"
  using assms
proof (induction vout arbitrary: i c)
  case (Cons txout vout)
  let ?p = "out_point txid i" and ?coin = "Coin_new txout h cb"
  have "\<not> IsSpent ?coin" using Cons.prems(3) by (auto simp: IsSpent_def CTxOut_IsNull_def Coin_new_def)
  moreover have "cache_utxo utxo c ?p = None" using Cons.prems(4) by force
  ultimately obtain c1 where c1: "AddCoin c ?p ?coin cb = Done c1" "cache_ok utxo ok c1" "cache_tip tip c1 = cache_tip tip c"
    "cache_utxo utxo c1 = (if IsUnspendable (txo_scriptPubKey txout) then cache_utxo utxo c else (cache_utxo utxo c)(?p \<mapsto> ?coin))"
    using AddCoin_law [OF Cons.prems(1), of ?coin cb ?p] by (auto simp: Coin_new_def)
  have "\<forall>k < length vout. cache_utxo utxo c1 (out_point txid (Suc i + k)) = None"
    using Cons.prems(2,4) by (auto simp: c1(4) out_point_inj)
  from Cons.IH [OF c1(2) _ _ this] obtain c' where "add_coins_loop get txid cb h False (Suc i) vout c1 = Done c'" "cache_ok utxo ok c'"
    "cache_tip tip c' = cache_tip tip c1" "cache_utxo utxo c' = cache_utxo utxo c1 ++ outs_map txid cb h (Suc i) vout"
    using Cons.prems(2,3) by auto
  then show ?case using c1 outs_map_fresh [of i "Suc i" vout txid cb h] Cons.prems(2) by (simp add: map_add_upd_left domIff)
qed simp

lemma remove_outputs_law:
  assumes "cache_ok utxo ok c" "i + length vout \<le> 2 ^ 32" "0 \<le> h" "h < 2 ^ 31" "outs_map txid cb h i vout \<subseteq>\<^sub>m cache_utxo utxo c"
  shows "\<exists>fClean' c' t'. remove_outputs env ops get txid cb h i vout fClean c t = (fClean', c', t') \<and> cache_ok utxo ok c'
    \<and> cache_tip tip c' = cache_tip tip c \<and> cache_utxo utxo c' = cache_utxo utxo c |` (- dom (outs_map txid cb h i vout))
    \<and> (spends_plain env ops \<and> (\<forall>txout \<in> set vout. plain_out txout) \<longrightarrow> fClean' = fClean)"
  using assms
proof (induction vout arbitrary: i c fClean t)
  case (Cons txout vout)
  let ?p = "out_point txid i" and ?m = "outs_map txid cb h (Suc i) vout"
  have new: "?m ?p = None" using outs_map_fresh [of i "Suc i" vout] Cons.prems(2) by simp
  show ?case
  proof (cases "IsUnspendable (txo_scriptPubKey txout)")
    case True
    then show ?thesis using Cons.IH [of c "Suc i" fClean t] Cons.prems by auto
  next
    case False
    then have le: "?m(?p \<mapsto> Coin_new txout h cb) \<subseteq>\<^sub>m cache_utxo utxo c" using Cons.prems(5) by (simp add: fun_upd_def)
    have p: "cache_utxo utxo c ?p = Some (Coin_new txout h cb)" using le by (simp add: map_le_def)
    have m: "?m \<subseteq>\<^sub>m cache_utxo utxo c" using le new unfolding map_le_def by (metis domIff fun_upd_other fun_upd_same option.discI)
    from SpendCoin_law [OF Cons.prems(1), of "try_spend env ops" ?p t] p obtain ret coin c1 t1 where
      s: "SpendCoin get (try_spend env ops) c ?p t = (ret, coin, c1, t1)"
      "cache_ok utxo ok c1" "cache_utxo utxo c1 = (cache_utxo utxo c)(?p := None)" "cache_tip tip c1 = cache_tip tip c"
      "unspent coin = cache_utxo utxo c ?p"
      "(ret, t1) = (case try_spend env ops of None \<Rightarrow> (True, t) | Some f \<Rightarrow> f ?p (coin_out coin) t)" by (metis option.discI)
    have coin: "coin = Coin_new txout h cb" using s(5) p by (simp add: unspent_def split: if_splits)
    have ret: "plain_out txout \<Longrightarrow> spends_plain env ops \<Longrightarrow> ret"
      using try_spend_refuses [OF s(6)] not_refuses [of env ops coin ?p] by (auto simp: coin Coin_new_def Coin_IsAsset_def plain_out_def)
    have "?m \<subseteq>\<^sub>m cache_utxo utxo c1" using m new s(3) by (auto simp: map_le_def)
    from Cons.IH [OF s(2) _ _ _ this, of "ret \<and> fClean" t1] Cons.prems(2,3,4) obtain f' c' t' where r:
      "remove_outputs env ops get txid cb h (Suc i) vout (ret \<and> fClean) c1 t1 = (f', c', t')" "cache_ok utxo ok c'"
      "cache_tip tip c' = cache_tip tip c" "cache_utxo utxo c' = cache_utxo utxo c1 |` (- dom ?m)"
      "spends_plain env ops \<and> (\<forall>txout \<in> set vout. plain_out txout) \<longrightarrow> f' = (ret \<and> fClean)"
      using s(4) by auto
    have "uint (word_of_int h :: 31 word) = h" using Cons.prems(3,4) by (simp add: unsigned_of_int take_bit_int_eq_self)
    then have "remove_outputs env ops get txid cb h i (txout # vout) fClean c t = (f', c', t')"
      using False s(1) r(1) by (cases ret) (simp_all add: coin Coin_new_def)
    moreover have "cache_utxo utxo c1 |` (- dom ?m) = cache_utxo utxo c |` (- dom (outs_map txid cb h i (txout # vout)))"
      using False s(3) by (auto simp: restrict_map_def fun_eq_iff)
    ultimately show ?thesis using r ret by auto
  qed
qed (simp add: restrict_map_def)

lemma ApplyTxInUndo_law:
  assumes "cache_ok utxo ok c" "cache_utxo utxo c p = None" "\<not> IsSpent undo" "coin_nHeight undo \<noteq> 0"
    "\<not> IsUnspendable (txo_scriptPubKey (coin_out undo))"
  shows "\<exists>r c' a'. ApplyTxInUndo env ops get undo c p a = Done (r, c', a') \<and> r \<noteq> DISCONNECT_FAILED \<and> cache_ok utxo ok c'
    \<and> cache_tip tip c' = cache_tip tip c \<and> cache_utxo utxo c' = (cache_utxo utxo c)(p \<mapsto> undo) \<and> (\<not> Coin_IsAsset undo \<longrightarrow> r = DISCONNECT_OK)"
proof -
  from HaveCoin_law [OF assms(1), of p] obtain c1 where c1: "HaveCoin get c p = (False, c1)" "cache_ok utxo ok c1"
    "cache_utxo utxo c1 = cache_utxo utxo c" "cache_tip tip c1 = cache_tip tip c" using assms(2) by auto
  obtain undone a' where u: "(if AreAssetsDeployed env \<and> Coin_IsAsset undo then UndoAssetCoin ops undo p a else (True, a)) = (undone, a')"
    by fastforce
  from AddCoin_law [OF c1(2) assms(3), of False p] u show ?thesis using assms c1 by (auto simp: ApplyTxInUndo_def split: if_splits)
qed

lemma restore_inputs_law:
  assumes "cache_ok utxo ok c" "distinct (map txin_prevout vin)" "restorable u" "\<forall>p \<in> set (map txin_prevout vin). u p \<noteq> None"
    "j \<le> length vin" "\<forall>k < j. cache_utxo utxo c (txin_prevout (vin ! k)) = None"
  shows "\<exists>fClean' c' a'. restore_inputs env ops get vin (map (\<lambda>txin. the (u (txin_prevout txin))) vin) j fClean c a = Done (Some fClean', c', a')
    \<and> cache_ok utxo ok c' \<and> cache_tip tip c' = cache_tip tip c
    \<and> cache_utxo utxo c' = (\<lambda>p. if p \<in> txin_prevout ` set (take j vin) then u p else cache_utxo utxo c p)
    \<and> ((\<forall>p \<in> set (map txin_prevout vin). \<forall>coin. u p = Some coin \<longrightarrow> \<not> Coin_IsAsset coin) \<longrightarrow> fClean' = fClean)"
  using assms(1,5,6)
proof (induction j arbitrary: c fClean a)
  case (Suc j)
  let ?p = "txin_prevout (vin ! j)"
  have pin: "?p \<in> set (map txin_prevout vin)" using Suc.prems(2) by simp
  then obtain undo where undo: "u ?p = Some undo" using assms(4) by blast
  then have "coin_nHeight undo \<noteq> 0 \<and> \<not> IsUnspendable (txo_scriptPubKey (coin_out undo)) \<and> \<not> IsSpent undo"
    using assms(3) by (auto simp: restorable_def ran_def)
  then obtain r c1 a1 where c1: "ApplyTxInUndo env ops get undo c ?p a = Done (r, c1, a1)" "r \<noteq> DISCONNECT_FAILED" "cache_ok utxo ok c1"
    "cache_tip tip c1 = cache_tip tip c" "cache_utxo utxo c1 = (cache_utxo utxo c)(?p \<mapsto> undo)" "\<not> Coin_IsAsset undo \<longrightarrow> r = DISCONNECT_OK"
    using ApplyTxInUndo_law [OF Suc.prems(1), of ?p undo env ops a] Suc.prems(3) by auto
  have "txin_prevout (vin ! k) \<noteq> ?p" if "k < j" for k
    using assms(2) Suc.prems(2) that nth_eq_iff_index_eq [of "map txin_prevout vin" k j] by simp
  then have "\<forall>k < j. cache_utxo utxo c1 (txin_prevout (vin ! k)) = None" using Suc.prems(3) by (simp add: c1(5))
  from Suc.IH [OF c1(3) _ this, of "fClean \<and> r \<noteq> DISCONNECT_UNCLEAN" a1] Suc_leD [OF Suc.prems(2)] obtain f' c' a' where r:
    "restore_inputs env ops get vin (map (\<lambda>txin. the (u (txin_prevout txin))) vin) j (fClean \<and> r \<noteq> DISCONNECT_UNCLEAN) c1 a1 = Done (Some f', c', a')"
    "cache_ok utxo ok c'" "cache_tip tip c' = cache_tip tip c1"
    "cache_utxo utxo c' = (\<lambda>p. if p \<in> txin_prevout ` set (take j vin) then u p else cache_utxo utxo c1 p)"
    "(\<forall>p \<in> set (map txin_prevout vin). \<forall>coin. u p = Some coin \<longrightarrow> \<not> Coin_IsAsset coin) \<longrightarrow> f' = (fClean \<and> r \<noteq> DISCONNECT_UNCLEAN)"
    by blast
  have "restore_inputs env ops get vin (map (\<lambda>txin. the (u (txin_prevout txin))) vin) (Suc j) fClean c a = Done (Some f', c', a')"
    using c1(1,2) r(1) undo Suc.prems(2) by simp
  moreover have "cache_utxo utxo c' = (\<lambda>p. if p \<in> txin_prevout ` set (take (Suc j) vin) then u p else cache_utxo utxo c p)"
    using r(4) c1(5) undo Suc.prems(2) by (auto simp: take_Suc_conv_app_nth fun_eq_iff)
  ultimately show ?case using r(2,3,5) c1(4,6) pin undo by (metis DisconnectResult.distinct(1))
qed simp

lemma UpdateCoins_law:
  assumes "cache_ok utxo ok c" "tx_fits hash256 (cache_utxo utxo c) tx"
  shows "UpdateCoins env ops hash256 get tx c h bh a = AssertFailed \<and> txs_refused env ops hash256 h (cache_utxo utxo c) [tx]
    \<or> (\<exists>c' a'. UpdateCoins env ops hash256 get tx c h bh a = Done (if IsCoinBase tx then [] else undo_of (cache_utxo utxo c) tx, c', a')
      \<and> cache_ok utxo ok c' \<and> cache_tip tip c' = cache_tip tip c \<and> cache_utxo utxo c' = apply_tx hash256 h tx (cache_utxo utxo c))"
proof -
  let ?u = "if IsCoinBase tx then cache_utxo utxo c else cache_utxo utxo c |` (- set (prevouts tx))"
  let ?r = "if \<not> IsCoinBase tx then spend_inputs env ops get (tx_vin tx) [] c a else Done ([], c, a)"
  from spend_inputs_law [OF assms(1), of "tx_vin tx" env ops "[]" a] assms
  consider (refused) "?r = AssertFailed" "txs_refused env ops hash256 h (cache_utxo utxo c) [tx]"
    | (spent) c1 a1 where "?r = Done (if IsCoinBase tx then [] else undo_of (cache_utxo utxo c) tx, c1, a1)" "cache_ok utxo ok c1"
      "cache_tip tip c1 = cache_tip tip c" "cache_utxo utxo c1 = ?u"
    by (cases "IsCoinBase tx") (auto simp: tx_fits_def prevouts_def undo_of_def)
  then show ?thesis
  proof cases
    case refused
    then show ?thesis by (simp add: UpdateCoins_def)
  next
    case spent
    have "\<forall>k < length (tx_vout tx). cache_utxo utxo c1 (out_point (ComputeHash hash256 tx) k) = None"
      using assms(2) by (simp add: spent(4) tx_fits_def restrict_map_def)
    then obtain c' where "add_coins_loop get (ComputeHash hash256 tx) (IsCoinBase tx) h False 0 (tx_vout tx) c1 = Done c'" "cache_ok utxo ok c'"
      "cache_tip tip c' = cache_tip tip c" "cache_utxo utxo c' = ?u ++ new_coins hash256 h tx"
      using add_coins_law [OF spent(2), of 0 "tx_vout tx" "ComputeHash hash256 tx" "IsCoinBase tx" h] assms(2) spent(3)
      unfolding spent(4) [symmetric] new_coins_def by (auto simp: tx_fits_def)
    then show ?thesis using spent(1) by (auto simp: UpdateCoins_def AddCoins_def apply_tx_def)
  qed
qed

lemma connect_txs_law:
  assumes "cache_ok utxo ok c" "txs_fit hash256 h (cache_utxo utxo c) txs" "list_all (\<lambda>tx. \<not> IsCoinBase tx) txs" "0 < i"
  shows "connect_txs env ops hash256 get h bh i txs acc c a = AssertFailed \<and> txs_refused env ops hash256 h (cache_utxo utxo c) txs
    \<or> (\<exists>c' a'. connect_txs env ops hash256 get h bh i txs acc c a = Done (acc @ undos hash256 h (cache_utxo utxo c) txs, c', a')
      \<and> cache_ok utxo ok c' \<and> cache_tip tip c' = cache_tip tip c \<and> cache_utxo utxo c' = fold (apply_tx hash256 h) txs (cache_utxo utxo c))"
  using assms
proof (induction txs arbitrary: c i acc a)
  case (Cons tx txs)
  have fits: "tx_fits hash256 (cache_utxo utxo c) tx" "\<not> IsCoinBase tx" using Cons.prems(2,3) by simp_all
  from UpdateCoins_law [OF Cons.prems(1) fits(1), of env ops h bh a] show ?case
  proof (elim disjE exE conjE, goal_cases)
    case 1
    then show ?case by auto
  next
    case (2 c1 a1)
    then show ?case using Cons.IH [OF 2(2), of "Suc i" "acc @ [undo_of (cache_utxo utxo c) tx]" a1] Cons.prems by auto
  qed
qed simp

lemma undo_outputs:
  assumes "cache_ok utxo ok c" "tx_fits hash256 u tx" "cache_utxo utxo c = apply_tx hash256 h tx u" "0 < h" "h < 2 ^ 31"
  shows "\<exists>fClean' c' t'. remove_outputs env ops get (ComputeHash hash256 tx) (IsCoinBase tx) h 0 (tx_vout tx) fClean c t = (fClean', c', t')
    \<and> cache_ok utxo ok c' \<and> cache_tip tip c' = cache_tip tip c \<and> cache_utxo utxo c' = (if IsCoinBase tx then u else u |` (- set (prevouts tx)))
    \<and> (spends_plain env ops \<and> tx_plain u tx \<longrightarrow> fClean' = fClean)"
proof -
  let ?m = "new_coins hash256 h tx" and ?u = "if IsCoinBase tx then u else u |` (- set (prevouts tx))"
  have le: "?m \<subseteq>\<^sub>m cache_utxo utxo c" unfolding assms(3) apply_tx_def by (rule map_le_map_add)
  have "dom ?m \<inter> dom ?u = {}" using new_coins_disjoint [OF assms(2), of h] by auto
  then have "(?u ++ ?m) |` (- dom ?m) = ?u" by (rule map_add_remove)
  then show ?thesis
    using remove_outputs_law [OF assms(1) _ _ assms(5), of 0 "tx_vout tx" "ComputeHash hash256 tx" "IsCoinBase tx" env ops fClean t]
      assms(2,4) le unfolding assms(3) by (auto simp: tx_fits_def new_coins_def apply_tx_def tx_plain_def)
qed

text \<open>One transaction that is not the first.\<close>

lemma disconnect_tx:
  assumes "cache_ok utxo ok c" "tx_fits hash256 v tx" "\<not> IsCoinBase tx" "cache_utxo utxo c = apply_tx hash256 h tx v" "0 < h" "h < 2 ^ 31"
    "restorable v" "vtx ! Suc k = tx" "vtxundo ! k = undo_of v tx"
  shows "(\<exists>c' a'. disconnect_txs env ops hash256 get h vtx vtxundo vu (Suc (Suc k)) fClean c a t = Done (None, c', a')
        \<and> \<not> tx_plain v tx)
    \<or> (\<exists>fClean' c' a' t'. disconnect_txs env ops hash256 get h vtx vtxundo vu (Suc (Suc k)) fClean c a t
        = disconnect_txs env ops hash256 get h vtx vtxundo vu (Suc k) fClean' c' a' t'
      \<and> cache_ok utxo ok c' \<and> cache_tip tip c' = cache_tip tip c \<and> cache_utxo utxo c' = v
      \<and> (spends_plain env ops \<and> tx_plain v tx \<longrightarrow> fClean' = fClean))"
proof -
  from undo_outputs [OF assms(1,2,4,5,6), of env ops fClean t] assms(3) obtain f1 c1 t1 where c1:
    "remove_outputs env ops get (ComputeHash hash256 tx) False h 0 (tx_vout tx) fClean c t = (f1, c1, t1)" "cache_ok utxo ok c1"
    "cache_tip tip c1 = cache_tip tip c" "cache_utxo utxo c1 = v |` (- set (prevouts tx))"
    "spends_plain env ops \<and> tx_plain v tx \<longrightarrow> f1 = fClean" by auto
  show ?thesis
  proof (cases "undo_assets env ops vu tx (ComputeHash hash256 tx) a")
    case None
    then have "\<not> tx_plain v tx" using plain_undo_assets [of tx env ops vu] by (auto simp: tx_plain_def)
    then show ?thesis using None c1(1) assms(3,8) by (auto simp: Let_def)
  next
    case (Some a1)
    have "\<forall>k < length (tx_vin tx). cache_utxo utxo c1 (txin_prevout (tx_vin tx ! k)) = None"
      by (simp add: c1(4) prevouts_def restrict_map_def)
    from restore_inputs_law [OF c1(2) _ assms(7) _ order_refl this, of env ops f1 a1] assms(2,3) obtain f2 c2 a2 where c2:
      "restore_inputs env ops get (tx_vin tx) (undo_of v tx) (length (tx_vin tx)) f1 c1 a1 = Done (Some f2, c2, a2)"
      "cache_ok utxo ok c2" "cache_tip tip c2 = cache_tip tip c1"
      "cache_utxo utxo c2 = (\<lambda>p. if p \<in> txin_prevout ` set (tx_vin tx) then v p else cache_utxo utxo c1 p)"
      "tx_plain v tx \<longrightarrow> f2 = f1"
      by (fastforce simp: tx_fits_def prevouts_def undo_of_def tx_plain_def)
    have "cache_utxo utxo c2 = v" by (auto simp: c2(4) c1(4) prevouts_def restrict_map_def fun_eq_iff)
    moreover have "disconnect_txs env ops hash256 get h vtx vtxundo vu (Suc (Suc k)) fClean c a t
        = disconnect_txs env ops hash256 get h vtx vtxundo vu (Suc k) f2 c2 a2 t1"
      using Some c1(1) c2(1) assms(3,8,9) by (simp add: Let_def undo_of_def)
    ultimately show ?thesis using c1(3,5) c2(2,3,5)
      by (intro disjI2 exI [of _ f2] exI [of _ c2] exI [of _ a2] exI [of _ t1] conjI) (simp_all del: disconnect_txs.simps)
  qed
qed

lemma disconnect_txs_law:
  assumes "cache_ok utxo ok c" "restorable u" "txs_fit hash256 h u (cb # txs)" "0 < h" "h < 2 ^ 31"
    "IsCoinBase cb" "list_all (\<lambda>tx. \<not> IsCoinBase tx) txs" "k \<le> length txs"
    "cache_utxo utxo c = fold (apply_tx hash256 h) (take (Suc k) (cb # txs)) u"
  shows "\<exists>r c' a'. disconnect_txs env ops hash256 get h (cb # txs) (undos hash256 h (apply_tx hash256 h cb u) txs) vu (Suc k) fClean c a t = Done (r, c', a')
    \<and> (r \<noteq> None \<longrightarrow> cache_ok utxo ok c' \<and> cache_tip tip c' = cache_tip tip c \<and> cache_utxo utxo c' = u)
    \<and> (spends_plain env ops \<and> txs_plain hash256 h u (cb # txs) \<longrightarrow> r = Some fClean)"
  using assms(1,8,9)
proof (induction k arbitrary: c fClean a t)
  case 0
  have "cache_utxo utxo c = apply_tx hash256 h cb u" using 0(3) by simp
  from undo_outputs [OF 0(1) _ this assms(4,5), of env ops fClean t] assms(3,6) obtain f1 c1 t1 where c1:
    "remove_outputs env ops get (ComputeHash hash256 cb) True h 0 (tx_vout cb) fClean c t = (f1, c1, t1)" "cache_ok utxo ok c1"
    "cache_tip tip c1 = cache_tip tip c" "cache_utxo utxo c1 = u" "spends_plain env ops \<and> tx_plain u cb \<longrightarrow> f1 = fClean" by auto
  show ?case using c1 assms(6) plain_undo_assets [of cb env ops vu]
    by (cases "undo_assets env ops vu cb (ComputeHash hash256 cb) a") (auto simp: Let_def tx_plain_def)
next
  case (Suc k)
  let ?u1 = "apply_tx hash256 h cb u" and ?tx = "txs ! k"
  let ?v = "fold (apply_tx hash256 h) (take k txs) ?u1"
  have tx: "tx_fits hash256 ?v ?tx" "undos hash256 h ?u1 txs ! k = undo_of ?v ?tx" "\<not> IsCoinBase ?tx"
    using txs_fit_nth [of hash256 h ?u1 txs k] undos_nth [of k txs hash256 h ?u1] assms(3,7) Suc.prems(2) by (auto simp: list_all_length)
  have v: "cache_utxo utxo c = apply_tx hash256 h ?tx ?v" using Suc.prems(2,3) by (simp add: take_Suc_conv_app_nth)
  have r: "restorable ?v" using restorable_prefix [of ?u1 hash256 h txs k] restorable_apply [of u hash256 cb h] assms(2-5) by simp
  have plain: "txs_plain hash256 h u (cb # txs) \<Longrightarrow> tx_plain ?v ?tx" using txs_plain_nth [of hash256 h ?u1 txs k] Suc.prems(2) by simp
  have prefix: "fold (apply_tx hash256 h) (take (Suc k) (cb # txs)) u = ?v" by simp
  from disconnect_tx [OF Suc.prems(1) tx(1,3) v assms(4,5) r nth_Cons_Suc tx(2), of env ops cb vu fClean a t] show ?case
  proof (elim disjE exE conjE, goal_cases)
    case (1 c' a')
    then show ?case using plain by blast
  next
    case (2 f' c' a' t')
    from Suc.IH [OF 2(2) _ 2(4) [folded prefix], of f' a' t'] Suc.prems(2) obtain r c'' a'' where
      "disconnect_txs env ops hash256 get h (cb # txs) (undos hash256 h ?u1 txs) vu (Suc k) f' c' a' t' = Done (r, c'', a'')"
      "r \<noteq> None \<longrightarrow> cache_ok utxo ok c'' \<and> cache_tip tip c'' = cache_tip tip c' \<and> cache_utxo utxo c'' = u"
      "spends_plain env ops \<and> txs_plain hash256 h u (cb # txs) \<longrightarrow> r = Some f'" by (meson Suc_leD)
    then show ?case using 2 plain
      by (intro exI [of _ r] exI [of _ c''] exI [of _ a'']) (auto simp del: disconnect_txs.simps txs_plain.simps)
  qed
qed

lemma connect_disconnect:
  assumes "cache_ok utxo ok c" "restorable (cache_utxo utxo c)" "txs_fit hash256 h (cache_utxo utxo c) vtx" "0 < h" "h < 2 ^ 31"
    "vtx \<noteq> []" "IsCoinBase (hd vtx)" "list_all (\<lambda>tx. \<not> IsCoinBase tx) (tl vtx)" "hashPrev \<noteq> uint256_null"
  shows "connect_txs env ops hash256 get h bh 0 vtx [] c a = AssertFailed \<and> txs_refused env ops hash256 h (cache_utxo utxo c) vtx
    \<or> (\<exists>undo c1 a1. connect_txs env ops hash256 get h bh 0 vtx [] c a = Done (undo, c1, a1)
      \<and> cache_utxo utxo c1 = fold (apply_tx hash256 h) vtx (cache_utxo utxo c)
      \<and> (\<forall>assetUndo assets. \<exists>r c2 a2. DisconnectBlock env ops hash256 get vtx h hashPrev (Some undo) assetUndo c1 assets = Done (r, c2, a2)
        \<and> (r \<noteq> DISCONNECT_FAILED \<longrightarrow> cache_utxo utxo c2 = cache_utxo utxo c \<and> cache_tip tip c2 = hashPrev)
        \<and> (spends_plain env ops \<and> txs_plain hash256 h (cache_utxo utxo c) vtx \<and> assetUndo \<noteq> None \<longrightarrow> r = DISCONNECT_OK)))"
proof -
  obtain cb txs where vtx: "vtx = cb # txs" using assms(6) by (cases vtx) auto
  let ?u = "cache_utxo utxo c"
  from UpdateCoins_law [OF assms(1), of hash256 cb env ops h bh a] assms(3,7) vtx obtain c0 a0 where
    c0: "UpdateCoins env ops hash256 get cb c h bh a = Done ([], c0, a0)" "cache_ok utxo ok c0" "cache_utxo utxo c0 = apply_tx hash256 h cb ?u" by auto
  have "txs_fit hash256 h (cache_utxo utxo c0) txs" "list_all (\<lambda>tx. \<not> IsCoinBase tx) txs" using assms(3,8) vtx c0(3) by simp_all
  from connect_txs_law [OF c0(2) this zero_less_one, of env ops bh "[]" a0] show ?thesis
  proof (elim disjE exE conjE, goal_cases)
    case 1
    then show ?case using c0 vtx by auto
  next
    case (2 c1 a1)
    have c1: "cache_utxo utxo c1 = fold (apply_tx hash256 h) (take (Suc (length txs)) (cb # txs)) ?u" using 2(4) c0(3) by simp
    have "\<exists>r c2 a2. DisconnectBlock env ops hash256 get vtx h hashPrev (Some (undos hash256 h (apply_tx hash256 h cb ?u) txs)) assetUndo c1 assets = Done (r, c2, a2)
        \<and> (r \<noteq> DISCONNECT_FAILED \<longrightarrow> cache_utxo utxo c2 = ?u \<and> cache_tip tip c2 = hashPrev)
        \<and> (spends_plain env ops \<and> txs_plain hash256 h ?u vtx \<and> assetUndo \<noteq> None \<longrightarrow> r = DISCONNECT_OK)" for assetUndo assets
    proof (cases assetUndo)
      case None
      then show ?thesis using vtx by (simp add: DisconnectBlock_def)
    next
      case (Some vu)
      from disconnect_txs_law [OF 2(2) assms(2) _ assms(4,5) _ _ order_refl c1, of env ops vu True assets assets] assms(3,7,8) vtx obtain r c2 a2 where d:
        "disconnect_txs env ops hash256 get h vtx (undos hash256 h (apply_tx hash256 h cb ?u) txs) vu (length vtx) True c1 assets assets = Done (r, c2, a2)"
        "r \<noteq> None \<longrightarrow> cache_ok utxo ok c2 \<and> cache_utxo utxo c2 = ?u"
        "spends_plain env ops \<and> txs_plain hash256 h ?u vtx \<longrightarrow> r = Some True" by (auto simp del: disconnect_txs.simps)
      show ?thesis
      proof (cases r)
        case None
        then show ?thesis using d Some vtx by (simp add: DisconnectBlock_def del: disconnect_txs.simps)
      next
        case (Some f)
        then show ?thesis using d SetBestBlock_law [of c2 hashPrev] assms(9) \<open>assetUndo = Some vu\<close> vtx
          by (auto simp: DisconnectBlock_def simp del: disconnect_txs.simps)
      qed
    qed
    then show ?case using c0 2(1,4) vtx by auto
  qed
qed

end

section \<open>Properties\<close>

text \<open>C15: A block that is connected to a view over the cache of the tip and disconnected again with the undo data that
  connecting it gave leaves the set of unspent outputs as it was and the previous block as the best one, unless
  disconnecting is reported as failed. Connecting itself fails only by the assertion that the asset cache lets each coin
  be spent. A block that neither spends nor makes asset outputs is connected, and disconnecting it is reported as clean,
  provided that the asset cache does not refuse other coins and that its undo data can be read. It is asked that the first
  transaction and no other is a coinbase, that each input is unspent and spent once, that no unspent output has the place of a new one
  (the check of this is commented out in \<open>ConnectBlock\<close>), that values are not negative, and that the coins and the
  block have heights. The index of addresses is off.\<close>

theorem connect_then_disconnect:
  assumes "cache_ok (cache_utxo db_coins) (cache_ok db_coins db_ok) view" "u = cache_utxo (cache_utxo db_coins) view"
    "restorable u" "txs_fit hash256 h u vtx" "0 < h" "h < 2 ^ 31"
    "vtx \<noteq> []" "IsCoinBase (hd vtx)" "list_all (\<lambda>tx. \<not> IsCoinBase tx) (tl vtx)" "hashPrev \<noteq> uint256_null"
  shows "connect_txs env ops hash256 (GetCoin db_GetCoin) h blockHash 0 vtx [] view assets = AssertFailed
      \<and> txs_refused env ops hash256 h u vtx \<and> \<not> (spends_plain env ops \<and> txs_plain hash256 h u vtx)
    \<or> (\<exists>undo view1 assets1. connect_txs env ops hash256 (GetCoin db_GetCoin) h blockHash 0 vtx [] view assets = Done (undo, view1, assets1)
      \<and> cache_utxo (cache_utxo db_coins) view1 = fold (apply_tx hash256 h) vtx u
      \<and> (\<forall>assetUndo assets'. \<exists>r view2 assets2.
          DisconnectBlock env ops hash256 (GetCoin db_GetCoin) vtx h hashPrev (Some undo) assetUndo view1 assets' = Done (r, view2, assets2)
          \<and> (r \<noteq> DISCONNECT_FAILED \<longrightarrow> cache_utxo (cache_utxo db_coins) view2 = u \<and> cache_tip (cache_tip db_tip) view2 = hashPrev)
          \<and> (spends_plain env ops \<and> txs_plain hash256 h u vtx \<and> assetUndo \<noteq> None \<longrightarrow> r = DISCONNECT_OK)))"
  using tip_cache.connect_disconnect [OF assms(1) assms(3) [unfolded assms(2)] assms(4) [unfolded assms(2)] assms(5-10), of env ops blockHash assets]
    plain_not_refused [of env ops hash256 h u vtx] unfolding assms(2) [symmetric] by blast

definition demo_coinbase :: CTransaction where
  "demo_coinbase = \<lparr>tx_nVersion = 1, tx_vin = [\<lparr>txin_prevout = \<lparr>outp_hash = replicate 32 0, outp_n = - 1\<rparr>, txin_scriptSig = [1, 1],
     txin_nSequence = 0, txin_scriptWitness = []\<rparr>], tx_vout = [demo_out], tx_nLockTime = 0\<rparr>"

definition demo_spend :: CTransaction where
  "demo_spend = \<lparr>tx_nVersion = 2, tx_vin = [\<lparr>txin_prevout = demo_point 0, txin_scriptSig = [], txin_nSequence = 0,
     txin_scriptWitness = []\<rparr>], tx_vout = [demo_out], tx_nLockTime = 0\<rparr>"

text \<open>A stand-in for the hash that tells the two transactions apart by the first byte of their version.\<close>

definition demo_hash256 :: "bytes \<Rightarrow> bytes" where "demo_hash256 bs = replicate 32 (hd bs + 4)"

lemma demo_txids: "ComputeHash demo_hash256 demo_coinbase = replicate 32 5" "ComputeHash demo_hash256 demo_spend = replicate 32 6"
proof -
  have "ser_writedata32 1 = [1, 0, 0, 0]" "ser_writedata32 2 = [2, 0, 0, 0]" by code_simp+
  then show "ComputeHash demo_hash256 demo_coinbase = replicate 32 5" "ComputeHash demo_hash256 demo_spend = replicate 32 6"
    by (simp_all add: ComputeHash_def demo_hash256_def SerializeTransaction_def demo_coinbase_def demo_spend_def)
qed

text \<open>An asset cache that refuses every coin of an asset, and cannot undo anything.\<close>

definition demo_asset_ops :: "unit asset_ops" where
  "demo_asset_ops = \<lparr>AddAssets = (\<lambda>_ _ _ a. a), TrySpendCoin = (\<lambda>_ txout a. (IsAssetScript (txo_scriptPubKey txout) = None, a)),
     UndoAssetCoin = (\<lambda>_ _ a. (False, a)), ContainsAsset = (\<lambda>_ a. (False, a)), RemoveNewAsset = (\<lambda>_ _ a. (False, a)),
     RemoveOwnerAsset = (\<lambda>_ _ a. (False, a)), RemoveReissueAsset = (\<lambda>_ _ _ _ a. (False, a)), RemoveRestrictedVerifier = (\<lambda>_ _ a. (False, a)),
     RemoveTransfer = (\<lambda>_ _ _ a. (False, a)), RemoveQualifierAddress = (\<lambda>_ _ _ a. (False, a)), RemoveRestrictedAddress = (\<lambda>_ _ _ a. (False, a)),
     RemoveGlobalRestricted = (\<lambda>_ _ a. (False, a))\<rparr>"

theorem connect_then_disconnect_witness:
  "\<exists>undo view1 view2. connect_txs demo_env demo_asset_ops demo_hash256 (GetCoin db_GetCoin) 9 [] 0 [demo_coinbase, demo_spend] []
        (CCoinsViewCache_new (CCoinsViewCache_new demo_db)) () = Done (undo, view1, ())
    \<and> DisconnectBlock demo_env demo_asset_ops demo_hash256 (GetCoin db_GetCoin) [demo_coinbase, demo_spend] 9 (replicate 32 2) (Some undo) (Some [])
        view1 () = Done (DISCONNECT_OK, view2, ())
    \<and> cache_utxo (cache_utxo db_coins) view2 = [demo_point 0 \<mapsto> demo_utxo_coin]"
proof -
  let ?v = "CCoinsViewCache_new (CCoinsViewCache_new demo_db)" and ?u = "[demo_point 0 \<mapsto> demo_utxo_coin]"
  have v: "cache_ok (cache_utxo db_coins) (cache_ok db_coins db_ok) ?v" "?u = cache_utxo (cache_utxo db_coins) ?v"
    using tip_cache.cache_new db.cache_new demo_db_ok by (simp_all add: demo_db_def)
  have r: "restorable ?u" by (simp add: restorable_def) (simp add: demo_utxo_coin_def)
  have cb: "IsCoinBase demo_coinbase" "\<not> IsCoinBase demo_spend"
    by (simp_all add: IsCoinBase_def COutPoint_IsNull_def demo_coinbase_def demo_spend_def demo_point_def)
  have outs: "tx_vout demo_coinbase = [demo_out]" "tx_vout demo_spend = [demo_out]" "prevouts demo_spend = [demo_point 0]"
    by (simp_all add: demo_coinbase_def demo_spend_def prevouts_def)
  have points: "demo_point 0 \<noteq> out_point (replicate 32 5) 0" "demo_point 0 \<noteq> out_point (replicate 32 6) 0"
    "out_point (replicate 32 6) 0 \<noteq> out_point (replicate 32 5) 0" by (auto simp: demo_point_def out_point_def)
  have fit: "txs_fit demo_hash256 9 ?u [demo_coinbase, demo_spend]"
    using points cb by (auto simp: tx_fits_def apply_tx_def new_coins_def outs demo_txids demo_out_def restrict_map_def)
  have plain: "plain_out demo_out" "\<not> Coin_IsAsset demo_utxo_coin" by code_simp+
  then have "txs_plain demo_hash256 9 ?u [demo_coinbase, demo_spend]"
    using points cb by (auto simp: tx_plain_def apply_tx_def new_coins_def outs demo_txids split: if_splits)
  moreover have "spends_plain demo_env demo_asset_ops" by (simp add: spends_plain_def demo_asset_ops_def)
  ultimately show ?thesis
    using connect_then_disconnect [OF v r fit _ _ _ _ _ demo_hash(2), of demo_env demo_asset_ops "[]" "()"] cb by fastforce
qed

end
