(* ===== verification/InterpreterSafe.thy ===== *)
theory InterpreterSafe
  imports Interpreter
begin

unbundle bit_operations_syntax

text \<open>
  Safety of the stack machine. The predicate \<open>safe P m\<close> says of a piece \<open>m\<close> of the interpreter that no assertion
  of it fails, that no \<open>at\<close> or \<open>popstack\<close> throws, and that \<open>P\<close> holds of what it goes on with; the only
  exception left is the \<open>scriptnum_error\<close> of a badly encoded operand. Every group of opcodes is safe on stacks
  whose elements respect the size limit, so the whole loop is, for every checker that is safe itself.
\<close>

section \<open>Safe results\<close>

fun safe :: "('a \<Rightarrow> bool) \<Rightarrow> 'a res \<Rightarrow> bool" where
  "safe P (Ok x) = P x"
| "safe P (Err e) = True"
| "safe P (Throw e) = (e = ScriptNumError)"
| "safe P Abort = False"

named_theorems safe_intros

lemma safe_bnd [safe_intros]:
  "safe Q m \<Longrightarrow> (\<And>x. m = Ok x \<Longrightarrow> Q x \<Longrightarrow> safe P (f x)) \<Longrightarrow> safe P (bnd m f)"
  by (cases m) auto

lemma safe_mono: "safe P m \<Longrightarrow> (\<And>x. m = Ok x \<Longrightarrow> P x \<Longrightarrow> Q x) \<Longrightarrow> safe Q m"
  by (cases m) auto

lemma safe_if [safe_intros]: "(c \<Longrightarrow> safe P m) \<Longrightarrow> (\<not> c \<Longrightarrow> safe P m') \<Longrightarrow> safe P (if c then m else m')"
  by simp

lemma safe_OkD: "safe P m \<Longrightarrow> m = Ok x \<Longrightarrow> P x"
  by simp

lemma safe_num_arg4: "safe (\<lambda>n. \<bar>n\<bar> \<le> 2 ^ 31 - 1) (num_arg vch b nDefaultMaxNumSize)"
  using CScriptNum_range(1) [of vch b] by (auto simp: num_arg_def nDefaultMaxNumSize_def split: option.split)

lemma safe_num_arg: "safe (\<lambda>_. True) (num_arg vch b k)"
  by (auto simp: num_arg_def split: option.split)

lemma safe_stacktop: "1 \<le> k \<Longrightarrow> k \<le> length st \<Longrightarrow> safe (\<lambda>x. x \<in> set st \<and> x = st ! (k - 1)) (stacktop k st)"
  by (simp add: stacktop_def)

lemma safe_popstack: "st \<noteq> [] \<Longrightarrow> safe (\<lambda>st'. st' = tl st) (popstack st)"
  by (cases st) (simp_all add: popstack_def)

lemma safe_encodings:
  "safe (\<lambda>_. True) (CheckSignatureEncoding cr sig fl)" "safe (\<lambda>_. True) (CheckPubKeyEncoding pk fl sv)"
  by (simp_all add: CheckSignatureEncoding_def CheckPubKeyEncoding_def IsLowDERSignature_def)

section \<open>Stacks within the limits\<close>

definition elems_ok :: "bytes list \<Rightarrow> bool" where
  "elems_ok st \<longleftrightarrow> (\<forall>x\<in>set st. length x \<le> MAX_SCRIPT_ELEMENT_SIZE)"

definition stack_ok :: "nat \<Rightarrow> bytes list \<Rightarrow> bool" where
  "stack_ok n st \<longleftrightarrow> length st \<le> n \<and> elems_ok st"

lemma elems_ok_simps [simp]:
  "elems_ok []" "elems_ok (x # st) \<longleftrightarrow> length x \<le> MAX_SCRIPT_ELEMENT_SIZE \<and> elems_ok st"
  "elems_ok (st @ st') \<longleftrightarrow> elems_ok st \<and> elems_ok st'"
  by (auto simp: elems_ok_def)

lemma elems_ok_take_drop: "elems_ok st \<Longrightarrow> elems_ok (take n st)" "elems_ok st \<Longrightarrow> elems_ok (drop n st)"
  by (auto simp: elems_ok_def dest: in_set_takeD in_set_dropD)

lemma length_getvch_le: "\<bar>v\<bar> < 2 ^ 63 \<Longrightarrow> length (getvch v) \<le> MAX_SCRIPT_ELEMENT_SIZE"
  using length_serialize_num [of v 7] by (simp add: getvch_def)

lemma length_bool_vch [simp]: "length (bool_vch b) \<le> MAX_SCRIPT_ELEMENT_SIZE"
  by (simp add: bool_vch_def vchTrue_def vchFalse_def)

definition crypto_ok :: "crypto \<Rightarrow> bool" where
  "crypto_ok cr \<longleftrightarrow> (\<forall>b. length (RIPEMD160 cr b) = 20 \<and> length (SHA1 cr b) = 20 \<and> length (SHA256 cr b) = 32)"

definition checker_ok :: "BaseSignatureChecker \<Rightarrow> bool" where
  "checker_ok chk \<longleftrightarrow> (\<forall>sig pk code sv. safe (\<lambda>_. True) (CheckSig chk sig pk code sv))"

definition ctx_ok :: "evalctx \<Rightarrow> bool" where
  "ctx_ok c \<longleftrightarrow> crypto_ok (ctx_crypto c) \<and> checker_ok (ctx_checker c)"

section \<open>The operations\<close>

lemma safe_push_value: "elems_ok st \<Longrightarrow> safe (stack_ok (length st + 3)) (op_push_value opcode st)"
proof -
  have "\<bar>n - 80\<bar> < 2 ^ 63" if "0 \<le> n" "n < 256" for n :: int using that by (simp add: abs_if)
  then have "\<bar>uint opcode - 80\<bar> < 2 ^ 63" using uint_bounded [of opcode] by simp
  then show "elems_ok st \<Longrightarrow> ?thesis" by (simp add: op_push_value_def stack_ok_def length_getvch_le)
qed

lemma safe_locktime:
  "elems_ok st \<Longrightarrow> safe (stack_ok (length st + 3)) (upgradable_nop c st)"
  "elems_ok st \<Longrightarrow> safe (stack_ok (length st + 3)) (op_checklocktimeverify c st)"
  "elems_ok st \<Longrightarrow> safe (stack_ok (length st + 3)) (op_checksequenceverify c st)"
  by (auto simp: op_checklocktimeverify_def op_checksequenceverify_def upgradable_nop_def stack_ok_def
           split: list.split intro!: safe_bnd [OF safe_num_arg])

lemma safe_verify: "elems_ok st \<Longrightarrow> safe (stack_ok (length st + 3)) (op_verify st)"
  by (auto simp: op_verify_def stack_ok_def split: list.split)

lemma safe_2drop: "elems_ok st \<Longrightarrow> safe (stack_ok (length st + 3)) (op_2drop st)"
  by (cases st rule: op_2drop.cases) (auto simp: stack_ok_def)

lemma safe_2dup: "elems_ok st \<Longrightarrow> safe (stack_ok (length st + 3)) (op_2dup st)"
  by (cases st rule: op_2dup.cases) (auto simp: stack_ok_def)

lemma safe_3dup: "elems_ok st \<Longrightarrow> safe (stack_ok (length st + 3)) (op_3dup st)"
  by (cases st rule: op_3dup.cases) (auto simp: stack_ok_def)

lemma safe_2over: "elems_ok st \<Longrightarrow> safe (stack_ok (length st + 3)) (op_2over st)"
  by (cases st rule: op_2over.cases) (auto simp: stack_ok_def)

lemma safe_2rot: "elems_ok st \<Longrightarrow> safe (stack_ok (length st + 3)) (op_2rot st)"
  by (cases st rule: op_2rot.cases) (auto simp: stack_ok_def)

lemma safe_2swap: "elems_ok st \<Longrightarrow> safe (stack_ok (length st + 3)) (op_2swap st)"
  by (cases st rule: op_2swap.cases) (auto simp: stack_ok_def)

lemma safe_ifdup: "elems_ok st \<Longrightarrow> safe (stack_ok (length st + 3)) (op_ifdup st)"
  by (cases st rule: op_ifdup.cases) (auto simp: stack_ok_def)

lemma safe_drop: "elems_ok st \<Longrightarrow> safe (stack_ok (length st + 3)) (op_drop st)"
  by (cases st rule: op_drop.cases) (auto simp: stack_ok_def)

lemma safe_dup: "elems_ok st \<Longrightarrow> safe (stack_ok (length st + 3)) (op_dup st)"
  by (cases st rule: op_dup.cases) (auto simp: stack_ok_def)

lemma safe_nip: "elems_ok st \<Longrightarrow> safe (stack_ok (length st + 3)) (op_nip st)"
  by (cases st rule: op_nip.cases) (auto simp: stack_ok_def)

lemma safe_over: "elems_ok st \<Longrightarrow> safe (stack_ok (length st + 3)) (op_over st)"
  by (cases st rule: op_over.cases) (auto simp: stack_ok_def)

lemma safe_rot: "elems_ok st \<Longrightarrow> safe (stack_ok (length st + 3)) (op_rot st)"
  by (cases st rule: op_rot.cases) (auto simp: stack_ok_def)

lemma safe_swap: "elems_ok st \<Longrightarrow> safe (stack_ok (length st + 3)) (op_swap st)"
  by (cases st rule: op_swap.cases) (auto simp: stack_ok_def)

lemma safe_tuck: "elems_ok st \<Longrightarrow> safe (stack_ok (length st + 3)) (op_tuck st)"
  by (cases st rule: op_tuck.cases) (auto simp: stack_ok_def)

lemma safe_equal: "elems_ok st \<Longrightarrow> safe (stack_ok (length st + 3)) (op_equal opcode st)"
  by (cases "(opcode, st)" rule: op_equal.cases) (auto simp: stack_ok_def)

lemma safe_depth: "elems_ok st \<Longrightarrow> length st < 2 ^ 63 \<Longrightarrow> safe (stack_ok (length st + 3)) (op_depth st)"
  using length_getvch_le [of "int (length st)"] by (simp add: op_depth_def stack_ok_def)

lemma safe_size: "elems_ok st \<Longrightarrow> safe (stack_ok (length st + 3)) (op_size st)"
proof (cases st)
  case (Cons x st')
  assume "elems_ok st"
  with Cons have "\<bar>int (length x)\<bar> < 2 ^ 63" by simp
  from length_getvch_le [OF this] \<open>elems_ok st\<close> Cons show ?thesis by (simp add: stack_ok_def)
qed simp

lemma safe_pick_roll: "elems_ok st \<Longrightarrow> safe (stack_ok (length st + 3)) (op_pick_roll c opcode st)"
proof -
  assume st: "elems_ok st"
  have "safe (stack_ok (length st + 3))
          (bnd (popstack st) (\<lambda>st. if n < 0 \<or> n \<ge> int (length st) then ERR_STACK
             else bnd (stacktop (nat n + 1) st) (\<lambda>vch. Ok (vch # (if opcode = OP_ROLL then stack_erase (nat n) st else st)))))"
    if "2 \<le> length st" for n
  proof (rule safe_bnd [OF safe_popstack])
    show "st \<noteq> []" using that by auto
    fix st' assume st': "st' = tl st"
    then have ok: "elems_ok st'" "length st' \<le> length st" using st by (cases st; simp)+
    show "safe (stack_ok (length st + 3)) (if n < 0 \<or> n \<ge> int (length st') then ERR_STACK
             else bnd (stacktop (nat n + 1) st') (\<lambda>vch. Ok (vch # (if opcode = OP_ROLL then stack_erase (nat n) st' else st'))))"
      by (intro safe_if safe_bnd [OF safe_stacktop])
        (use ok in \<open>auto simp: stack_ok_def stack_erase_def elems_ok_take_drop elems_ok_def
            dest: in_set_takeD in_set_dropD\<close>)
  qed
  then show ?thesis
    unfolding op_pick_roll_def Let_def
    by (intro safe_if safe_bnd [OF safe_stacktop] safe_bnd [OF safe_num_arg]) auto
qed

lemma safe_unary_num:
  "\<bar>n\<bar> \<le> 2 ^ 31 - 1 \<Longrightarrow> opcode \<in> {OP_1ADD, OP_1SUB, OP_NEGATE, OP_ABS, OP_NOT, OP_0NOTEQUAL} \<Longrightarrow>
   safe (\<lambda>m. \<bar>m\<bar> < 2 ^ 63) (unary_num opcode n)"
  by (auto simp: unary_num_def num_ops_defined asserted_def int_of_bool_def)

lemma safe_unary:
  "elems_ok st \<Longrightarrow> opcode \<in> {OP_1ADD, OP_1SUB, OP_NEGATE, OP_ABS, OP_NOT, OP_0NOTEQUAL} \<Longrightarrow>
   safe (stack_ok (length st + 3)) (op_unary c opcode st)"
  by (cases st) (auto simp: op_unary_def stack_ok_def length_getvch_le
      intro!: safe_bnd [OF safe_num_arg4] safe_bnd [OF safe_unary_num])

lemma num_plus_minus_defined:
  "\<bar>n\<bar> \<le> 2 ^ 31 - 1 \<Longrightarrow> \<bar>m\<bar> \<le> 2 ^ 31 - 1 \<Longrightarrow> num_plus n m = Some (n + m)"
  "\<bar>n\<bar> \<le> 2 ^ 31 - 1 \<Longrightarrow> \<bar>m\<bar> \<le> 2 ^ 31 - 1 \<Longrightarrow> num_minus n m = Some (n - m)"
  by (auto simp: num_plus_def num_minus_def int64_ok_def abs_le_iff)

lemma safe_binary_num:
  "\<bar>n\<bar> \<le> 2 ^ 31 - 1 \<Longrightarrow> \<bar>m\<bar> \<le> 2 ^ 31 - 1 \<Longrightarrow>
   opcode \<in> {OP_ADD, OP_SUB, OP_BOOLAND, OP_BOOLOR, OP_NUMEQUAL, OP_NUMEQUALVERIFY, OP_NUMNOTEQUAL,
             OP_LESSTHAN, OP_GREATERTHAN, OP_LESSTHANOREQUAL, OP_GREATERTHANOREQUAL, OP_MIN, OP_MAX} \<Longrightarrow>
   safe (\<lambda>k. \<bar>k\<bar> < 2 ^ 63) (binary_num opcode n m)"
  by (auto simp: binary_num_def num_plus_minus_defined asserted_def int_of_bool_def)

lemma safe_binary:
  assumes "elems_ok st"
    and "opcode \<in> {OP_ADD, OP_SUB, OP_BOOLAND, OP_BOOLOR, OP_NUMEQUAL, OP_NUMEQUALVERIFY, OP_NUMNOTEQUAL,
             OP_LESSTHAN, OP_GREATERTHAN, OP_LESSTHANOREQUAL, OP_GREATERTHANOREQUAL, OP_MIN, OP_MAX}"
  shows "safe (stack_ok (length st + 3)) (op_binary c opcode st)"
proof (cases "(c, opcode, st)" rule: op_binary.cases)
  case (1 c opcode x2 x1 st')
  with assms show ?thesis
    by (simp only: op_binary.simps prod.inject)
      (intro safe_bnd [OF safe_num_arg4] safe_bnd [OF safe_binary_num] safe_if; simp add: stack_ok_def length_getvch_le)
qed auto

lemma safe_within: "elems_ok st \<Longrightarrow> safe (stack_ok (length st + 3)) (op_within c st)"
  by (cases "(c, st)" rule: op_within.cases)
    (auto simp: stack_ok_def intro!: safe_bnd [OF safe_num_arg])

lemma safe_hash:
  "elems_ok st \<Longrightarrow> crypto_ok (ctx_crypto c) \<Longrightarrow> safe (stack_ok (length st + 3)) (op_hash c opcode st)"
  by (cases st) (simp_all add: op_hash_def Let_def stack_ok_def crypto_ok_def Hash160_def Hash256_def)

lemmas safe_ops = safe_push_value safe_locktime safe_verify safe_2drop safe_2dup safe_3dup safe_2over safe_2rot
  safe_2swap safe_ifdup safe_drop safe_dup safe_nip safe_over safe_rot safe_swap safe_tuck safe_equal safe_depth
  safe_size safe_pick_roll safe_unary safe_binary safe_within safe_hash

lemma if_SomeE:
  "(if b then Some g else x) = Some f \<Longrightarrow> (b \<Longrightarrow> g = f \<Longrightarrow> P) \<Longrightarrow> (x = Some f \<Longrightarrow> P) \<Longrightarrow> P"
  by (simp split: if_splits)

lemma safe_keep: "elems_ok st \<Longrightarrow> safe (stack_ok (length st + 3)) (Ok st)"
  by (simp add: stack_ok_def)

lemma safe_switch1:
  "elems_ok st \<Longrightarrow> length st < 2 ^ 63 \<Longrightarrow> stack_switch1 c opcode = Some f \<Longrightarrow>
   safe (stack_ok (length st + 3)) (f st)"
  unfolding stack_switch1_def
  by (elim if_SomeE; (hypsubst, (rule safe_ops safe_keep; assumption))?) auto

lemma safe_switch2:
  "elems_ok st \<Longrightarrow> crypto_ok (ctx_crypto c) \<Longrightarrow> stack_switch2 c opcode = Some f \<Longrightarrow>
   safe (stack_ok (length st + 3)) (f st)"
  unfolding stack_switch2_def
  by (elim if_SomeE; (hypsubst, (rule safe_ops safe_keep; assumption))?) auto

section \<open>Signature checks\<close>

lemma safe_CheckSig: "ctx_ok c \<Longrightarrow> safe (\<lambda>_. True) (CheckSig (ctx_checker c) sig pk code sv)"
  by (simp add: ctx_ok_def checker_ok_def)

lemma safe_multisig_drop_sigs:
  "1 \<le> isig \<Longrightarrow> isig + n \<le> length st + 1 \<Longrightarrow> safe (\<lambda>_. True) (multisig_drop_sigs c st isig n code)"
proof (induction n arbitrary: isig code)
  case (Suc n)
  then show ?case by (auto intro!: safe_bnd [OF safe_stacktop])
qed simp

lemma safe_multisig_loop:
  "ctx_ok c \<Longrightarrow> 1 \<le> isig \<Longrightarrow> 1 \<le> ikey \<Longrightarrow> 0 \<le> nSigs \<Longrightarrow>
   int isig + nSigs \<le> int (length st) + 1 \<Longrightarrow> int ikey + nKeys \<le> int (length st) + 1 \<Longrightarrow>
   (b \<longrightarrow> nSigs \<le> nKeys) \<Longrightarrow> safe (\<lambda>_. True) (multisig_loop c st code isig ikey nSigs nKeys b)"
proof (induction c st code isig ikey nSigs nKeys b rule: multisig_loop.induct)
  case (1 c st code isig ikey nSigs nKeys b)
  show ?case
  proof (cases "b \<and> nSigs > 0")
    case True
    then have "nKeys > 0" using "1.prems" by simp
    have rec: "safe (\<lambda>_. True) (let isig' = (if fOk then isig + 1 else isig);
              nSigs' = (if fOk then nSigs - 1 else nSigs); ikey' = ikey + 1; nKeys' = nKeys - 1
          in multisig_loop c st code isig' ikey' nSigs' nKeys' (\<not> nSigs' > nKeys'))"
      if "stacktop isig st = Ok sig" "stacktop ikey st = Ok pk"
        "CheckSignatureEncoding (ctx_crypto c) sig (ctx_flags c) = Ok u"
        "CheckPubKeyEncoding pk (ctx_flags c) (ctx_sigversion c) = Ok v"
        "CheckSig (ctx_checker c) sig pk code (ctx_sigversion c) = Ok fOk" for sig pk u v fOk
      unfolding Let_def
      by (rule "1.IH" [OF True that refl refl refl refl]) (use True "1.prems" \<open>nKeys > 0\<close> in auto)
    have len: "isig \<le> length st" "ikey \<le> length st" using True "1.prems" \<open>nKeys > 0\<close> by simp_all
    show ?thesis
      unfolding multisig_loop.simps [of c st code isig ikey nSigs nKeys b] if_P [OF True]
      by (intro safe_bnd [OF safe_stacktop] safe_bnd [OF safe_encodings(1)] safe_bnd [OF safe_encodings(2)]
           safe_bnd [OF safe_CheckSig] rec; (assumption | rule "1.prems" len)?)
  qed (auto simp: multisig_loop.simps [of c st code isig ikey nSigs nKeys b])
qed

lemma safe_multisig_cleanup:
  "n \<le> length st \<Longrightarrow> safe (\<lambda>st'. st' = drop n st) (multisig_cleanup c b n k st)"
proof (induction n arbitrary: k st)
  case (Suc n)
  show ?case
    unfolding multisig_cleanup.simps
  proof (rule safe_bnd [where Q = "\<lambda>_. True"])
    show "safe (\<lambda>_. True) (if \<not> b \<and> flag c SCRIPT_VERIFY_NULLFAIL \<and> k = 0
        then bnd (stacktop 1 st) (\<lambda>vch. require (length vch = 0) SCRIPT_ERR_SIG_NULLFAIL) else Ok ())"
      using Suc.prems by (auto simp: require_def intro!: safe_bnd [OF safe_stacktop])
    fix x
    show "safe (\<lambda>st'. st' = drop (Suc n) st) (bnd (popstack st) (\<lambda>st. multisig_cleanup c b n (k - 1) st))"
    proof (rule safe_bnd [OF safe_popstack])
      show "st \<noteq> []" using Suc.prems by auto
      fix st' assume "st' = tl st"
      with Suc.prems Suc.IH [of st' "k - 1"]
      show "safe (\<lambda>st'. st' = drop (Suc n) st) (multisig_cleanup c b n (k - 1) st')"
        by (cases st) auto
    qed
  qed
qed simp

lemma safe_multisig_finish:
  "elems_ok st \<Longrightarrow> safe (stack_ok (length st)) (multisig_finish c opcode b st)"
  by (cases st) (auto simp: multisig_finish_def stack_ok_def)

definition state_ok :: "nat \<Rightarrow> evalstate \<Rightarrow> bool" where
  "state_ok n s \<longleftrightarrow> length (ev_stack s) + length (ev_altstack s) \<le> n \<and> elems_ok (ev_stack s)
     \<and> elems_ok (ev_altstack s) \<and> ev_nOpCount s \<le> MAX_OPS_PER_SCRIPT"

lemma safe_checkmultisig:
  assumes "ctx_ok c" "state_ok n s"
  shows "safe (state_ok n) (op_checkmultisig c opcode s)"
  unfolding op_checkmultisig_def Let_def
  using assms
  by (intro safe_if safe_bnd [OF safe_stacktop] safe_bnd [OF safe_num_arg]
        safe_bnd [OF safe_multisig_drop_sigs] safe_bnd [OF safe_multisig_loop] safe_bnd [OF safe_multisig_cleanup]
        safe_bnd [OF safe_multisig_finish])
    (auto simp: state_ok_def stack_ok_def elems_ok_take_drop Suc_le_eq)

lemma safe_checksig:
  "ctx_ok c \<Longrightarrow> state_ok n s \<Longrightarrow> safe (state_ok n) (op_checksig c opcode s)"
  unfolding op_checksig_def Let_def
  by (auto simp: state_ok_def split: list.split
      intro!: safe_bnd [OF safe_encodings(1)] safe_bnd [OF safe_encodings(2)] safe_bnd [OF safe_CheckSig])

lemma safe_control:
  "state_ok n s \<Longrightarrow> safe (state_ok n) (op_if c opcode b s)"
  "state_ok n s \<Longrightarrow> safe (state_ok n) (op_else s)"
  "state_ok n s \<Longrightarrow> safe (state_ok n) (op_endif s)"
  "state_ok n s \<Longrightarrow> safe (state_ok n) (op_toaltstack s)"
  "state_ok n s \<Longrightarrow> safe (state_ok n) (op_fromaltstack s)"
  by (auto simp: state_ok_def op_if_def op_else_def op_endif_def op_toaltstack_def op_fromaltstack_def
      split: list.split)

section \<open>The loop\<close>

lemma safe_with_stack:
  "safe (stack_ok (length (ev_stack s) + 3)) m \<Longrightarrow> state_ok n s \<Longrightarrow>
   safe (state_ok (n + 3)) (bnd m (\<lambda>st. Ok (with_stack s st)))"
  by (erule safe_bnd) (auto simp: state_ok_def stack_ok_def)

lemma state_ok_mono: "state_ok n s \<Longrightarrow> n \<le> m \<Longrightarrow> state_ok m s"
  by (auto simp: state_ok_def)

lemma safe_exec_op:
  assumes "ctx_ok c" "state_ok n s" "n < 2 ^ 63"
  shows "safe (state_ok (n + 3)) (exec_op c opcode pc b s)"
proof -
  have st: "elems_ok (ev_stack s)" "length (ev_stack s) < 2 ^ 63" and cr: "crypto_ok (ctx_crypto c)"
    using assms by (auto simp: state_ok_def ctx_ok_def)
  have up: "safe (state_ok (n + 3)) m" if "safe (state_ok n) m" for m
    using that by (rule safe_mono) (auto intro: state_ok_mono)
  show ?thesis
  proof (cases "stack_switch1 c opcode")
    case (Some f)
    then show ?thesis
      using safe_with_stack [OF safe_switch1 [OF st Some] assms(2)] by (simp add: exec_op_def)
  next
    case None1: None
    show ?thesis
    proof (cases "stack_switch2 c opcode")
      case (Some f)
      then show ?thesis
        using None1 safe_with_stack [OF safe_switch2 [OF st(1) cr Some] assms(2)] by (simp add: exec_op_def)
    next
      case None
      have "safe (state_ok n) (Ok (s\<lparr>ev_pbegincodehash := pc\<rparr>))" using assms(2) by (simp add: state_ok_def)
      then show ?thesis
        unfolding exec_op_def None1 None option.case
        by (intro up safe_if safe_control safe_checksig safe_checkmultisig assms(1,2)) simp_all
    qed
  qed
qed

lemma safe_eval_step:
  assumes "ctx_ok c" "state_ok n s" "n < 2 ^ 63"
  shows "safe (state_ok MAX_STACK_SIZE) (eval_step c pc s)"
proof -
  define s' where "s' = (if opcodeRet (GetOp2 pc) > OP_16 then s\<lparr>ev_nOpCount := ev_nOpCount s + 1\<rparr> else s)"
  have s': "state_ok n s'" if "\<not> (opcodeRet (GetOp2 pc) > OP_16 \<and> ev_nOpCount s' > MAX_OPS_PER_SCRIPT)"
    using assms(2) that by (auto simp: s'_def state_ok_def)
  have push: "safe (state_ok (n + 3)) (exec_push c opcode v s')"
    if "state_ok n s'" "length v \<le> MAX_SCRIPT_ELEMENT_SIZE" for opcode v
    using that by (auto simp: exec_push_def state_ok_def)
  have last: "safe (state_ok MAX_STACK_SIZE) (if length (ev_stack t) + length (ev_altstack t) > MAX_STACK_SIZE
      then Err SCRIPT_ERR_STACK_SIZE else Ok t)" if "state_ok (n + 3) t" for t
    using that by (auto simp: state_ok_def)
  show ?thesis
    unfolding eval_step_def Let_def s'_def [symmetric]
    by (intro safe_if safe_bnd [where Q = "state_ok (n + 3)"] last)
      (auto intro!: push safe_exec_op [OF assms(1) _ assms(3)] s' intro: state_ok_mono [of n])
qed

lemma safe_eval_loop:
  "ctx_ok c \<Longrightarrow> state_ok n s \<Longrightarrow> n < 2 ^ 63 \<Longrightarrow> safe (state_ok (max n MAX_STACK_SIZE)) (eval_loop c pc s)"
proof (induction c pc s arbitrary: n rule: eval_loop.induct)
  case (1 c pc s)
  show ?case
  proof (cases "pc = []")
    case False
    have "safe (state_ok (max n MAX_STACK_SIZE)) (eval_loop c (op_pc (GetOp2 pc)) t)"
      if "eval_step c pc s = Ok t" "state_ok MAX_STACK_SIZE t" for t
      using "1.IH" [OF False that(1) "1.prems"(1) that(2)] by (auto elim!: safe_mono intro: state_ok_mono)
    then show ?thesis
      using False by (simp add: eval_loop_step safe_bnd [OF safe_eval_step [OF "1.prems"]])
  qed (use "1.prems" in \<open>auto intro: state_ok_mono\<close>)
qed

end
