(* ===== verification/InterpreterFlags.thy ===== *)
theory InterpreterFlags
  imports Interpreter
begin

unbundle bit_operations_syntax

text \<open>
  The verification flags only restrict: a script that evaluates successfully under some flags evaluates to the
  same stack under any subset of them. This is the property the comments of \<open>src/src/script/interpreter.h\<close> call
  "softfork safe". The one exception is the pair of opcodes that replaced \<open>OP_NOP2\<close> and \<open>OP_NOP3\<close>: without their
  flag they are upgradable no-operations, which \<open>SCRIPT_VERIFY_DISCOURAGE_UPGRADABLE_NOPS\<close> rejects.
\<close>

section \<open>Fewer flags\<close>

definition flags_le :: "u32 \<Rightarrow> u32 \<Rightarrow> bool" where
  "flags_le fl fl' \<longleftrightarrow>
     (\<forall>f. has_flag fl f \<longrightarrow> has_flag fl' f)
     \<and> (has_flag fl SCRIPT_VERIFY_DISCOURAGE_UPGRADABLE_NOPS \<longrightarrow>
          has_flag fl SCRIPT_VERIFY_CHECKLOCKTIMEVERIFY = has_flag fl' SCRIPT_VERIFY_CHECKLOCKTIMEVERIFY
          \<and> has_flag fl SCRIPT_VERIFY_CHECKSEQUENCEVERIFY = has_flag fl' SCRIPT_VERIFY_CHECKSEQUENCEVERIFY)"

definition ctx_le :: "evalctx \<Rightarrow> evalctx \<Rightarrow> bool" where
  "ctx_le c c' \<longleftrightarrow> flags_le (ctx_flags c) (ctx_flags c') \<and> ctx_checker c = ctx_checker c'
     \<and> ctx_sigversion c = ctx_sigversion c' \<and> ctx_crypto c = ctx_crypto c'"

text \<open>\<open>m\<close> succeeds wherever \<open>m'\<close> does, with the same value.\<close>

definition res_le :: "'a res \<Rightarrow> 'a res \<Rightarrow> bool" where
  "res_le m m' \<longleftrightarrow> (\<forall>x. m' = Ok x \<longrightarrow> m = Ok x)"

named_theorems res_le_intros

lemma res_le_refl [res_le_intros]: "res_le m m"
  by (simp add: res_le_def)

lemma res_le_Err [simp]: "res_le m (Err e)"
  by (simp add: res_le_def)

lemma res_le_bnd [res_le_intros]:
  "res_le m m' \<Longrightarrow> (\<And>x. m' = Ok x \<Longrightarrow> res_le (f x) (f' x)) \<Longrightarrow> res_le (bnd m f) (bnd m' f')"
  by (cases m') (auto simp: res_le_def)

lemma res_le_if [res_le_intros]:
  "(b \<Longrightarrow> res_le m m') \<Longrightarrow> (\<not> b \<Longrightarrow> res_le n n') \<Longrightarrow> res_le (if b then m else n) (if b then m' else n')"
  by simp

lemma res_le_guard [res_le_intros]:
  "(b \<longrightarrow> b') \<Longrightarrow> (\<not> b \<Longrightarrow> \<not> b' \<Longrightarrow> res_le n n') \<Longrightarrow> res_le (if b then Err e else n) (if b' then Err e else n')"
  by (simp add: res_le_def)

lemma flag_mono: "ctx_le c c' \<Longrightarrow> flag c f \<Longrightarrow> flag c' f"
  by (simp add: ctx_le_def flags_le_def)

lemma num_arg_le:
  assumes "ctx_le c c'"
  shows "res_le (num_arg vch (fRequireMinimal c) k) (num_arg vch (fRequireMinimal c') k)"
  using flag_mono [OF assms, of SCRIPT_VERIFY_MINIMALDATA]
  by (auto simp: res_le_def num_arg_def CScriptNum_def split: option.splits if_splits)

section \<open>Each operation\<close>

lemma upgradable_nop_le: "ctx_le c c' \<Longrightarrow> res_le (upgradable_nop c st) (upgradable_nop c' st)"
  using flag_mono [of c c'] by (auto simp: upgradable_nop_def res_le_def)

lemma upgradable_nop_off:
  "ctx_le c c' \<Longrightarrow> \<not> flag c f \<Longrightarrow> flag c' f \<Longrightarrow>
   f = SCRIPT_VERIFY_CHECKLOCKTIMEVERIFY \<or> f = SCRIPT_VERIFY_CHECKSEQUENCEVERIFY \<Longrightarrow> upgradable_nop c st = Ok st"
  by (auto simp: upgradable_nop_def ctx_le_def flags_le_def)

lemma locktime_keeps:
  "op_checklocktimeverify c st = Ok x \<Longrightarrow> x = st" "op_checksequenceverify c st = Ok x \<Longrightarrow> x = st"
  by (cases st; auto simp: op_checklocktimeverify_def op_checksequenceverify_def upgradable_nop_def num_arg_def
      split: if_splits option.splits)+

lemma checklocktimeverify_le:
  assumes "ctx_le c c'"
  shows "res_le (op_checklocktimeverify c st) (op_checklocktimeverify c' st)"
proof (cases "flag c SCRIPT_VERIFY_CHECKLOCKTIMEVERIFY")
  case True
  then show ?thesis
    using assms flag_mono [OF assms True]
    by (cases st) (auto simp: op_checklocktimeverify_def ctx_le_def intro!: res_le_intros num_arg_le [OF assms])
next
  case False
  then have "op_checklocktimeverify c st = upgradable_nop c st" by (simp add: op_checklocktimeverify_def)
  then show ?thesis
    using upgradable_nop_off [OF assms False] upgradable_nop_le [OF assms, of st] locktime_keeps(1) [of c' st]
    by (cases "flag c' SCRIPT_VERIFY_CHECKLOCKTIMEVERIFY") (auto simp: res_le_def op_checklocktimeverify_def)
qed

lemma checksequenceverify_le:
  assumes "ctx_le c c'"
  shows "res_le (op_checksequenceverify c st) (op_checksequenceverify c' st)"
proof (cases "flag c SCRIPT_VERIFY_CHECKSEQUENCEVERIFY")
  case True
  then show ?thesis
    using assms flag_mono [OF assms True]
    by (cases st) (auto simp: op_checksequenceverify_def ctx_le_def intro!: res_le_intros num_arg_le [OF assms])
next
  case False
  then have "op_checksequenceverify c st = upgradable_nop c st" by (simp add: op_checksequenceverify_def)
  then show ?thesis
    using upgradable_nop_off [OF assms False] upgradable_nop_le [OF assms, of st] locktime_keeps(2) [of c' st]
    by (cases "flag c' SCRIPT_VERIFY_CHECKSEQUENCEVERIFY") (auto simp: res_le_def op_checksequenceverify_def)
qed

lemma pick_roll_le: "ctx_le c c' \<Longrightarrow> res_le (op_pick_roll c opcode st) (op_pick_roll c' opcode st)"
  unfolding op_pick_roll_def Let_def by (intro res_le_intros num_arg_le)

lemma unary_le: "ctx_le c c' \<Longrightarrow> res_le (op_unary c opcode st) (op_unary c' opcode st)"
  unfolding op_unary_def by (cases st) (auto intro!: res_le_intros num_arg_le)

lemma binary_le: "ctx_le c c' \<Longrightarrow> res_le (op_binary c opcode st) (op_binary c' opcode st)"
  by (cases "(c, opcode, st)" rule: op_binary.cases) (auto intro!: res_le_intros num_arg_le)

lemma within_le: "ctx_le c c' \<Longrightarrow> res_le (op_within c st) (op_within c' st)"
  by (cases "(c, st)" rule: op_within.cases) (auto intro!: res_le_intros num_arg_le)

lemma hash_le: "ctx_le c c' \<Longrightarrow> res_le (op_hash c opcode st) (op_hash c' opcode st)"
  by (cases st) (simp_all add: op_hash_def ctx_le_def res_le_def)

lemma encodings_le:
  assumes "ctx_le c c'"
  shows "res_le (CheckSignatureEncoding (ctx_crypto c) sig (ctx_flags c))
           (CheckSignatureEncoding (ctx_crypto c') sig (ctx_flags c'))"
    and "res_le (CheckPubKeyEncoding pk (ctx_flags c) sv) (CheckPubKeyEncoding pk (ctx_flags c') sv)"
proof -
  have cr: "ctx_crypto c' = ctx_crypto c" using assms by (simp add: ctx_le_def)
  show "res_le (CheckSignatureEncoding (ctx_crypto c) sig (ctx_flags c))
           (CheckSignatureEncoding (ctx_crypto c') sig (ctx_flags c'))"
    using flag_mono [OF assms]
    by (auto simp: res_le_def CheckSignatureEncoding_def cr split: if_splits)
  show "res_le (CheckPubKeyEncoding pk (ctx_flags c) sv) (CheckPubKeyEncoding pk (ctx_flags c') sv)"
    using flag_mono [OF assms] by (auto simp: res_le_def CheckPubKeyEncoding_def split: if_splits)
qed

lemmas ops_le = upgradable_nop_le checklocktimeverify_le checksequenceverify_le pick_roll_le unary_le binary_le
  within_le hash_le

lemma multisig_drop_sigs_le:
  "ctx_le c c' \<Longrightarrow> multisig_drop_sigs c st isig n code = multisig_drop_sigs c' st isig n code"
  by (induction n arbitrary: isig code) (simp_all add: ctx_le_def cong: bnd_cong)

lemma multisig_loop_le:
  "ctx_le c c' \<Longrightarrow>
   res_le (multisig_loop c st code isig ikey nSigs nKeys b) (multisig_loop c' st code isig ikey nSigs nKeys b)"
proof (induction c' st code isig ikey nSigs nKeys b rule: multisig_loop.induct)
  case (1 c' st code isig ikey nSigs nKeys b)
  have eq: "ctx_checker c = ctx_checker c'" "ctx_sigversion c = ctx_sigversion c'" "ctx_crypto c = ctx_crypto c'"
    using "1.prems" by (simp_all add: ctx_le_def)
  show ?case
  proof (cases "b \<and> nSigs > 0")
    case True
    show ?thesis
      unfolding multisig_loop.simps [of _ st code isig ikey nSigs nKeys b] if_P [OF True] eq Let_def
      by (intro res_le_bnd res_le_refl encodings_le(1) [OF "1.prems", unfolded eq] encodings_le(2) [OF "1.prems"]
            "1.IH" [OF True _ _ _ _ _ refl refl refl refl "1.prems"])
  qed (auto simp: multisig_loop.simps [of _ st code isig ikey nSigs nKeys b] res_le_refl)
qed

lemma multisig_cleanup_le:
  "ctx_le c c' \<Longrightarrow> res_le (multisig_cleanup c b n k st) (multisig_cleanup c' b n k st)"
proof (induction n arbitrary: k st)
  case (Suc n)
  have "res_le (if \<not> b \<and> flag c SCRIPT_VERIFY_NULLFAIL \<and> k = 0
          then bnd (stacktop 1 st) (\<lambda>vch. require (length vch = 0) SCRIPT_ERR_SIG_NULLFAIL) else Ok ())
        (if \<not> b \<and> flag c' SCRIPT_VERIFY_NULLFAIL \<and> k = 0
          then bnd (stacktop 1 st) (\<lambda>vch. require (length vch = 0) SCRIPT_ERR_SIG_NULLFAIL) else Ok ())"
    using flag_mono [OF Suc.prems] by (auto simp: res_le_def)
  with Suc show ?case unfolding multisig_cleanup.simps by (intro res_le_bnd) (auto simp: res_le_refl)
qed (simp add: res_le_refl)

lemma multisig_finish_le: "ctx_le c c' \<Longrightarrow> res_le (multisig_finish c opcode b st) (multisig_finish c' opcode b st)"
  using flag_mono [of c c'] by (cases st) (auto simp: multisig_finish_def intro!: res_le_intros)

lemma checksig_le: "ctx_le c c' \<Longrightarrow> res_le (op_checksig c opcode s) (op_checksig c' opcode s)"
proof -
  assume le: "ctx_le c c'"
  then have eq: "ctx_checker c = ctx_checker c'" "ctx_sigversion c = ctx_sigversion c'" by (simp_all add: ctx_le_def)
  show ?thesis
    unfolding op_checksig_def Let_def eq
    using flag_mono [OF le]
    by (auto split: list.split intro!: res_le_intros encodings_le [OF le])
qed

lemma checkmultisig_le: "ctx_le c c' \<Longrightarrow> res_le (op_checkmultisig c opcode s) (op_checkmultisig c' opcode s)"
  unfolding op_checkmultisig_def Let_def
  by (intro res_le_intros num_arg_le multisig_loop_le multisig_cleanup_le multisig_finish_le)
    (auto simp: multisig_drop_sigs_le res_le_refl)

section \<open>The interpreter\<close>

lemma if_le: "\<lbrakk>b \<Longrightarrow> res_le m m'; \<not> b \<Longrightarrow> res_le n n'\<rbrakk> \<Longrightarrow> res_le (if b then m else n) (if b then m' else n')"
  by simp

definition opt_le :: "(bytes list \<Rightarrow> bytes list res) option \<Rightarrow> (bytes list \<Rightarrow> bytes list res) option \<Rightarrow> bool" where
  "opt_le f f' = rel_option (\<lambda>f f'. \<forall>st. res_le (f st) (f' st)) f f'"

lemma opt_le_if:
  "(\<And>st. b \<Longrightarrow> res_le (f st) (f' st)) \<Longrightarrow> opt_le g g' \<Longrightarrow> opt_le (if b then Some f else g) (if b then Some f' else g')"
  by (simp add: opt_le_def)

lemma opt_le_refl: "opt_le f f"
  by (simp add: opt_le_def rel_option_iff res_le_refl split: option.split)

lemma switch_le:
  assumes "ctx_le c c'"
  shows "opt_le (stack_switch1 c opcode) (stack_switch1 c' opcode)"
    and "opt_le (stack_switch2 c opcode) (stack_switch2 c' opcode)"
  unfolding stack_switch1_def stack_switch2_def
  by (intro opt_le_if opt_le_refl res_le_refl ops_le assms)+

lemma if_op_le:
  assumes le: "ctx_le c c'"
  shows "res_le (op_if c opcode b s) (op_if c' opcode b s)"
proof -
  have "ctx_sigversion c = ctx_sigversion c'" using le by (simp add: ctx_le_def)
  then show ?thesis
    using flag_mono [OF le] unfolding op_if_def by (auto split: list.split intro!: res_le_intros)
qed

lemma exec_op_le:
  assumes le: "ctx_le c c'"
  shows "res_le (exec_op c opcode pc b s) (exec_op c' opcode pc b s)"
  using switch_le [OF le, of opcode] checksig_le [OF le, of opcode s] checkmultisig_le [OF le, of opcode s]
    if_op_le [OF le, of opcode b s]
  unfolding exec_op_def opt_le_def
  by (cases "stack_switch1 c opcode"; cases "stack_switch1 c' opcode"; cases "stack_switch2 c opcode";
      cases "stack_switch2 c' opcode"; simp add: res_le_bnd res_le_refl)

lemma exec_push_le: "ctx_le c c' \<Longrightarrow> res_le (exec_push c opcode v s) (exec_push c' opcode v s)"
  using flag_mono [of c c'] by (auto simp: exec_push_def intro!: res_le_intros)

lemma eval_step_le: "ctx_le c c' \<Longrightarrow> res_le (eval_step c pc s) (eval_step c' pc s)"
  unfolding eval_step_def Let_def
  by (intro if_le res_le_bnd res_le_refl exec_push_le exec_op_le)

lemma eval_loop_le: "ctx_le c c' \<Longrightarrow> res_le (eval_loop c pc s) (eval_loop c' pc s)"
proof (induction c' pc s rule: eval_loop.induct)
  case (1 c' pc s)
  show ?case
  proof (cases "pc = []")
    case False
    then show ?thesis by (simp add: eval_loop_step res_le_bnd eval_step_le 1)
  qed (simp add: res_le_refl)
qed

lemma EvalScript_le: "ctx_le c c' \<Longrightarrow> res_le (EvalScript c st script) (EvalScript c' st script)"
  using eval_loop_le [of c c' script "init_state st script"]
  by (auto simp: EvalScript_def res_le_def split: res.splits if_splits)

end
