(* ===== verification/VerifyScript.thy ===== *)
theory VerifyScript
  imports InterpreterSafe InterpreterFlags
begin

text \<open>
  \<open>VerifyScript\<close> and \<open>VerifyWitnessProgram\<close> of \<open>src/src/script/interpreter.cpp\<close>, which run a \<open>scriptSig\<close>, a
  \<open>scriptPubKey\<close> and, where they apply, the redeem script of a pay-to-script-hash output and the script of a
  witness program; and the count of witness signature operations. A \<open>CScriptWitness\<close> is its vector of items, the
  last of which is the top of the stack it initialises. A null witness pointer is the empty witness.
\<close>

section \<open>Definitions\<close>

definition mk_ctx :: "crypto \<Rightarrow> BaseSignatureChecker \<Rightarrow> u32 \<Rightarrow> SigVersion \<Rightarrow> evalctx" where
  "mk_ctx cr checker flags sigversion =
     \<lparr>ctx_flags = flags, ctx_checker = checker, ctx_sigversion = sigversion, ctx_crypto = cr\<rparr>"

definition run_witness :: "crypto \<Rightarrow> BaseSignatureChecker \<Rightarrow> u32 \<Rightarrow> bytes list \<Rightarrow> bytes \<Rightarrow> unit res" where
  "run_witness cr checker flags stack scriptPubKey =
     (if \<exists>x\<in>set stack. length x > MAX_SCRIPT_ELEMENT_SIZE then Err SCRIPT_ERR_PUSH_SIZE
      else bnd (EvalScript (mk_ctx cr checker flags SIGVERSION_WITNESS_V0) stack scriptPubKey) (\<lambda>stack.
        if length stack \<noteq> 1 then Err SCRIPT_ERR_EVAL_FALSE
        else if \<not> CastToBool (hd stack) then Err SCRIPT_ERR_EVAL_FALSE
        else Ok ()))"

definition VerifyWitnessProgram ::
  "crypto \<Rightarrow> BaseSignatureChecker \<Rightarrow> u32 \<Rightarrow> bytes list \<Rightarrow> nat \<Rightarrow> bytes \<Rightarrow> unit res" where
  "VerifyWitnessProgram cr checker flags witness witversion program =
     (if witversion = 0 then
        if length program = 32 then
          if witness = [] then Err SCRIPT_ERR_WITNESS_PROGRAM_WITNESS_EMPTY
          else if SHA256 cr (last witness) \<noteq> program then Err SCRIPT_ERR_WITNESS_PROGRAM_MISMATCH
          else run_witness cr checker flags (rev (butlast witness)) (last witness)
        else if length program = 20 then
          if length witness \<noteq> 2 then Err SCRIPT_ERR_WITNESS_PROGRAM_MISMATCH
          else run_witness cr checker flags (rev witness)
                 ([OP_DUP, OP_HASH160] @ push_data program @ [OP_EQUALVERIFY, OP_CHECKSIG])
        else Err SCRIPT_ERR_WITNESS_PROGRAM_WRONG_LENGTH
      else if has_flag flags SCRIPT_VERIFY_DISCOURAGE_UPGRADABLE_WITNESS_PROGRAM
        then Err SCRIPT_ERR_DISCOURAGE_UPGRADABLE_WITNESS_PROGRAM
      else Ok ())"

definition eval_true :: "bytes list \<Rightarrow> unit res" where
  "eval_true stack =
     (if stack = [] then Err SCRIPT_ERR_EVAL_FALSE
      else if \<not> CastToBool (hd stack) then Err SCRIPT_ERR_EVAL_FALSE
      else Ok ())"

text \<open>
  The three blocks of \<open>VerifyScript\<close> after the evaluation of the two scripts. Each goes on with the stack and
  \<open>hadWitness\<close>; \<open>stack.resize(1)\<close> keeps the bottom element.
\<close>

definition verify_bare_witness ::
  "crypto \<Rightarrow> BaseSignatureChecker \<Rightarrow> u32 \<Rightarrow> bytes list \<Rightarrow> bytes \<Rightarrow> bytes \<Rightarrow> bytes list \<Rightarrow> (bytes list \<times> bool) res" where
  "verify_bare_witness cr checker flags witness scriptSig scriptPubKey stack =
     (if has_flag flags SCRIPT_VERIFY_WITNESS then
        case IsWitnessProgram scriptPubKey of
          None \<Rightarrow> Ok (stack, False)
        | Some (witnessversion, witnessprogram) \<Rightarrow>
            if length scriptSig \<noteq> 0 then Err SCRIPT_ERR_WITNESS_MALLEATED
            else bnd (VerifyWitnessProgram cr checker flags witness witnessversion witnessprogram) (\<lambda>_.
                   Ok ([last stack], True))
      else Ok (stack, False))"

definition verify_p2sh ::
  "crypto \<Rightarrow> BaseSignatureChecker \<Rightarrow> u32 \<Rightarrow> bytes list \<Rightarrow> bytes \<Rightarrow> bytes \<Rightarrow> bytes list \<Rightarrow> bytes list \<times> bool \<Rightarrow>
   (bytes list \<times> bool) res" where
  "verify_p2sh cr checker flags witness scriptSig scriptPubKey stackCopy sh =
     (if has_flag flags SCRIPT_VERIFY_P2SH \<and> IsPayToScriptHash scriptPubKey then
        if \<not> IsPushOnly scriptSig then Err SCRIPT_ERR_SIG_PUSHONLY
        else case stackCopy of
          [] \<Rightarrow> Abort
        | pubKey2 # stack \<Rightarrow>
            bnd (EvalScript (mk_ctx cr checker flags SIGVERSION_BASE) stack pubKey2) (\<lambda>stack.
            bnd (eval_true stack) (\<lambda>_.
              if has_flag flags SCRIPT_VERIFY_WITNESS then
                case IsWitnessProgram pubKey2 of
                  None \<Rightarrow> Ok (stack, snd sh)
                | Some (witnessversion, witnessprogram) \<Rightarrow>
                    if scriptSig \<noteq> push_data pubKey2 then Err SCRIPT_ERR_WITNESS_MALLEATED_P2SH
                    else bnd (VerifyWitnessProgram cr checker flags witness witnessversion witnessprogram) (\<lambda>_.
                           Ok ([last stack], True))
              else Ok (stack, snd sh)))
      else Ok sh)"

definition verify_final :: "u32 \<Rightarrow> bytes list \<Rightarrow> bytes list \<times> bool \<Rightarrow> unit res" where
  "verify_final flags witness sh =
     bnd (if has_flag flags SCRIPT_VERIFY_CLEANSTACK then
            if \<not> has_flag flags SCRIPT_VERIFY_P2SH then Abort
            else if \<not> has_flag flags SCRIPT_VERIFY_WITNESS then Abort
            else require (length (fst sh) = 1) SCRIPT_ERR_CLEANSTACK
          else Ok ()) (\<lambda>_.
       if has_flag flags SCRIPT_VERIFY_WITNESS then
         if \<not> has_flag flags SCRIPT_VERIFY_P2SH then Abort
         else require (\<not> (\<not> snd sh \<and> witness \<noteq> [])) SCRIPT_ERR_WITNESS_UNEXPECTED
       else Ok ())"

definition VerifyScript ::
  "crypto \<Rightarrow> BaseSignatureChecker \<Rightarrow> u32 \<Rightarrow> bytes \<Rightarrow> bytes \<Rightarrow> bytes list \<Rightarrow> unit res" where
  "VerifyScript cr checker flags scriptSig scriptPubKey witness =
     (if has_flag flags SCRIPT_VERIFY_SIGPUSHONLY \<and> \<not> IsPushOnly scriptSig then Err SCRIPT_ERR_SIG_PUSHONLY
      else bnd (EvalScript (mk_ctx cr checker flags SIGVERSION_BASE) [] scriptSig) (\<lambda>stackCopy.
           bnd (EvalScript (mk_ctx cr checker flags SIGVERSION_BASE) stackCopy scriptPubKey) (\<lambda>stack.
           bnd (eval_true stack) (\<lambda>_.
           bnd (verify_bare_witness cr checker flags witness scriptSig scriptPubKey stack) (\<lambda>sh.
           bnd (verify_p2sh cr checker flags witness scriptSig scriptPubKey stackCopy sh) (\<lambda>sh.
             verify_final flags witness sh))))))"

definition WitnessSigOps :: "nat \<Rightarrow> bytes \<Rightarrow> bytes list \<Rightarrow> nat" where
  "WitnessSigOps witversion witprogram witness =
     (if witversion = 0 then
        if length witprogram = 20 then 1
        else if length witprogram = 32 \<and> length witness > 0 then GetSigOpCount (last witness) True
        else 0
      else 0)"

text \<open>The operand of the last instruction of a push-only script, as read without testing for failure.\<close>

function last_data_loop :: "bytes \<Rightarrow> bytes \<Rightarrow> bytes" where
  "last_data_loop pc vdata =
     (if pc = [] then vdata else last_data_loop (op_pc (GetOp2 pc)) (vchRet (GetOp2 pc)))"
  by pat_completeness auto
termination
  by (relation "measure (\<lambda>(pc, vdata). length pc)") (auto simp: GetOp2_advances)

declare last_data_loop.simps [simp del]

definition CountWitnessSigOps :: "u32 \<Rightarrow> bytes \<Rightarrow> bytes \<Rightarrow> bytes list \<Rightarrow> nat res" where
  "CountWitnessSigOps flags scriptSig scriptPubKey witness =
     (if \<not> has_flag flags SCRIPT_VERIFY_WITNESS then Ok 0
      else if \<not> has_flag flags SCRIPT_VERIFY_P2SH then Abort
      else case IsWitnessProgram scriptPubKey of
        Some (witnessversion, witnessprogram) \<Rightarrow> Ok (WitnessSigOps witnessversion witnessprogram witness)
      | None \<Rightarrow>
          if IsPayToScriptHash scriptPubKey \<and> IsPushOnly scriptSig then
            case IsWitnessProgram (last_data_loop scriptSig []) of
              Some (witnessversion, witnessprogram) \<Rightarrow> Ok (WitnessSigOps witnessversion witnessprogram witness)
            | None \<Rightarrow> Ok 0
          else Ok 0)"

section \<open>Safety\<close>

lemma safe_EvalScript:
  assumes "ctx_ok c" "elems_ok st" "length st < 2 ^ 63"
  shows "safe (stack_ok (max (length st) MAX_STACK_SIZE)) (EvalScript c st script)"
proof -
  have "state_ok (length st) (init_state st script)" using assms(2) by (simp add: init_state_def state_ok_def)
  from safe_eval_loop [OF assms(1) this assms(3), of script] show ?thesis
    by (auto simp: EvalScript_def state_ok_def stack_ok_def split: res.split)
qed

definition verify_ok :: "crypto \<Rightarrow> BaseSignatureChecker \<Rightarrow> bool" where
  "verify_ok cr checker \<longleftrightarrow> crypto_ok cr \<and> checker_ok checker"

lemma ctx_ok_mk_ctx [simp]: "ctx_ok (mk_ctx cr checker flags sv) = verify_ok cr checker"
  by (simp add: ctx_ok_def mk_ctx_def verify_ok_def)

lemma safe_eval_true: "safe (\<lambda>_. True) (eval_true st)"
  by (simp add: eval_true_def)

lemma safe_run_witness:
  "verify_ok cr checker \<Longrightarrow> length st < 2 ^ 63 \<Longrightarrow> safe (\<lambda>_. True) (run_witness cr checker flags st script)"
  unfolding run_witness_def
  by (intro safe_if safe_bnd [OF safe_EvalScript]) (auto simp: elems_ok_def not_less)

lemma safe_VerifyWitnessProgram:
  "verify_ok cr checker \<Longrightarrow> length witness < 2 ^ 63 \<Longrightarrow>
   safe (\<lambda>_. True) (VerifyWitnessProgram cr checker flags witness v program)"
  unfolding VerifyWitnessProgram_def
  by (intro safe_if safe_run_witness) auto

lemma safe_verify_bare_witness:
  "verify_ok cr checker \<Longrightarrow> length witness < 2 ^ 63 \<Longrightarrow>
   safe (\<lambda>_. True) (verify_bare_witness cr checker flags witness sig spk st)"
  unfolding verify_bare_witness_def
  by (auto split: option.split intro!: safe_bnd [OF safe_VerifyWitnessProgram])

lemma safe_verify_p2sh:
  assumes "verify_ok cr checker" "length witness < 2 ^ 63" "elems_ok stackCopy" "length stackCopy < 2 ^ 63"
    and "IsPayToScriptHash spk \<Longrightarrow> stackCopy \<noteq> []"
  shows "safe (\<lambda>_. True) (verify_p2sh cr checker flags witness sig spk stackCopy sh)"
  unfolding verify_p2sh_def
  by (cases stackCopy; intro safe_if)
    (use assms in \<open>auto split: option.split
      intro!: safe_bnd [OF safe_VerifyWitnessProgram] safe_bnd [OF safe_EvalScript] safe_bnd [OF safe_eval_true]\<close>)

text \<open>The assertion of the P2SH block: a P2SH script does not evaluate on an empty stack.\<close>

lemma P2SH_needs_stack:
  assumes "IsPayToScriptHash spk" "EvalScript c [] spk = Ok st"
  shows False
proof -
  obtain h where spk: "spk = OP_HASH160 # 0x14 # h @ [OP_EQUAL]"
    using assms(1) by (auto simp: IsPayToScriptHash_iff)
  have "eval_step c spk (init_state [] spk) = ERR_STACK"
    by (simp add: spk eval_step_def GetOp2_single init_state_def exec_op_def stack_switch1_def stack_switch2_def
        op_hash_def is_disabled_def)
  then have "eval_loop c spk (init_state [] spk) = ERR_STACK" by (simp add: eval_loop_step spk)
  with assms(2) show False by (simp add: EvalScript_def split: if_splits)
qed

definition flags_consistent :: "u32 \<Rightarrow> bool" where
  "flags_consistent flags \<longleftrightarrow>
     (has_flag flags SCRIPT_VERIFY_CLEANSTACK \<longrightarrow> has_flag flags SCRIPT_VERIFY_WITNESS)
     \<and> (has_flag flags SCRIPT_VERIFY_WITNESS \<longrightarrow> has_flag flags SCRIPT_VERIFY_P2SH)"

lemma safe_verify_final: "flags_consistent flags \<Longrightarrow> safe (\<lambda>_. True) (verify_final flags witness sh)"
  by (auto simp: verify_final_def flags_consistent_def require_def)

lemma safe_VerifyScript:
  assumes ok: "verify_ok cr checker" and fl: "flags_consistent flags" and w: "length witness < 2 ^ 63"
  shows "safe (\<lambda>_. True) (VerifyScript cr checker flags sig spk witness)"
proof -
  have ev: "safe (stack_ok MAX_STACK_SIZE) (EvalScript (mk_ctx cr checker flags SIGVERSION_BASE) st script)"
    if "stack_ok MAX_STACK_SIZE st" for st script
    using safe_EvalScript [of "mk_ctx cr checker flags SIGVERSION_BASE" st script] that ok
    by (simp add: stack_ok_def max_def)
  show ?thesis
    unfolding VerifyScript_def
    by (intro safe_if safe_bnd [OF ev] safe_bnd [OF safe_eval_true] safe_bnd [OF safe_verify_bare_witness [OF ok w]]
          safe_bnd [OF safe_verify_p2sh [OF ok w]] safe_verify_final fl)
      (auto simp: stack_ok_def dest: P2SH_needs_stack)
qed

section \<open>Fewer flags\<close>

lemma ctx_le_mk_ctx: "flags_le fl fl' \<Longrightarrow> ctx_le (mk_ctx cr checker fl sv) (mk_ctx cr checker fl' sv)"
  by (simp add: ctx_le_def mk_ctx_def)

lemma run_witness_le:
  "flags_le fl fl' \<Longrightarrow> res_le (run_witness cr checker fl st script) (run_witness cr checker fl' st script)"
  unfolding run_witness_def by (intro if_le res_le_bnd res_le_refl EvalScript_le ctx_le_mk_ctx)

lemma VerifyWitnessProgram_le:
  "flags_le fl fl' \<Longrightarrow>
   res_le (VerifyWitnessProgram cr checker fl witness v program) (VerifyWitnessProgram cr checker fl' witness v program)"
  unfolding VerifyWitnessProgram_def
  by (intro if_le res_le_guard res_le_refl run_witness_le) (auto simp: flags_le_def)

lemma bnd_Ok_E: "bnd m f = Ok y \<Longrightarrow> (\<And>x. m = Ok x \<Longrightarrow> f x = Ok y \<Longrightarrow> P) \<Longrightarrow> P"
  by (cases m) auto

text \<open>Under fewer flags the witness block is either run as before or skipped, with the stack left as it is.\<close>

lemma verify_bare_witness_le:
  assumes "flags_le fl fl'" "verify_bare_witness cr checker fl' witness sig spk st = Ok sh"
  shows "verify_bare_witness cr checker fl witness sig spk st =
           Ok (if has_flag fl SCRIPT_VERIFY_WITNESS then sh else (st, False))"
  using assms VerifyWitnessProgram_le [OF assms(1), of cr checker witness]
  by (auto simp: verify_bare_witness_def flags_le_def res_le_def elim!: bnd_Ok_E split: if_splits option.splits)

lemma verify_p2sh_le:
  assumes le: "flags_le fl fl'" and ok: "verify_p2sh cr checker fl' witness sig spk stackCopy sh' = Ok r"
    and sh: "has_flag fl SCRIPT_VERIFY_WITNESS \<longrightarrow> sh = sh'"
  shows "\<exists>r'. verify_p2sh cr checker fl witness sig spk stackCopy sh = Ok r'
    \<and> (has_flag fl SCRIPT_VERIFY_WITNESS \<and> has_flag fl SCRIPT_VERIFY_P2SH \<longrightarrow> r' = r)"
proof (cases "has_flag fl SCRIPT_VERIFY_P2SH \<and> IsPayToScriptHash spk")
  case True
  then have P: "has_flag fl' SCRIPT_VERIFY_P2SH" using le by (auto simp: flags_le_def)
  have W: "has_flag fl SCRIPT_VERIFY_WITNESS \<longrightarrow> has_flag fl' SCRIPT_VERIFY_WITNESS"
    using le by (auto simp: flags_le_def)
  obtain redeem st where sc: "stackCopy = redeem # st"
    using ok P True by (cases stackCopy) (auto simp: verify_p2sh_def split: if_splits)
  let ?E = "\<lambda>fl. EvalScript (mk_ctx cr checker fl SIGVERSION_BASE) st redeem"
  obtain st' where ev: "?E fl' = Ok st'" and tr: "eval_true st' = Ok ()" and push: "IsPushOnly sig"
    using ok P True by (auto simp: verify_p2sh_def sc elim!: bnd_Ok_E split: if_splits)
  have ev': "?E fl = Ok st'"
    using EvalScript_le [OF ctx_le_mk_ctx [OF le], of cr checker SIGVERSION_BASE st redeem] ev
    by (simp add: res_le_def)
  show ?thesis
    using ok P True ev ev' tr push sh VerifyWitnessProgram_le [OF le, of cr checker witness] W
    by (auto simp: verify_p2sh_def sc res_le_def ex_bool_eq elim!: bnd_Ok_E split: if_splits option.splits)
next
  case False
  then have "verify_p2sh cr checker fl witness sig spk stackCopy sh = Ok sh" by (auto simp: verify_p2sh_def)
  moreover have "r = sh'" if "has_flag fl SCRIPT_VERIFY_P2SH"
    using ok False that by (auto simp: verify_p2sh_def)
  ultimately show ?thesis using sh by auto
qed

lemma verify_final_le:
  "flags_le fl fl' \<Longrightarrow> flags_consistent fl \<Longrightarrow> verify_final fl' witness r = Ok () \<Longrightarrow>
   has_flag fl SCRIPT_VERIFY_WITNESS \<and> has_flag fl SCRIPT_VERIFY_P2SH \<longrightarrow> r' = r \<Longrightarrow> verify_final fl witness r' = Ok ()"
  by (auto simp: verify_final_def flags_consistent_def flags_le_def require_def elim!: bnd_Ok_E split: if_splits)

lemma VerifyScript_le:
  assumes le: "flags_le fl fl'" and con: "flags_consistent fl"
    and ok: "VerifyScript cr checker fl' sig spk witness = Ok ()"
  shows "VerifyScript cr checker fl sig spk witness = Ok ()"
proof -
  let ?E = "\<lambda>fl. EvalScript (mk_ctx cr checker fl SIGVERSION_BASE)"
  obtain sc st sh r where push: "has_flag fl' SCRIPT_VERIFY_SIGPUSHONLY \<longrightarrow> IsPushOnly sig"
    and e1: "?E fl' [] sig = Ok sc" and e2: "?E fl' sc spk = Ok st" and tr: "eval_true st = Ok ()"
    and bw: "verify_bare_witness cr checker fl' witness sig spk st = Ok sh"
    and p2: "verify_p2sh cr checker fl' witness sig spk sc sh = Ok r" and fin: "verify_final fl' witness r = Ok ()"
    using ok by (auto simp: VerifyScript_def elim!: bnd_Ok_E split: if_splits)
  have mono: "?E fl st script = Ok x" if "?E fl' st script = Ok x" for st script x
    using EvalScript_le [OF ctx_le_mk_ctx [OF le], of cr checker SIGVERSION_BASE st script] that
    by (simp add: res_le_def)
  let ?sh = "if has_flag fl SCRIPT_VERIFY_WITNESS then sh else (st, False)"
  have "has_flag fl SCRIPT_VERIFY_WITNESS \<longrightarrow> ?sh = sh" by simp
  from verify_p2sh_le [OF le p2 this] obtain r'
    where r': "verify_p2sh cr checker fl witness sig spk sc ?sh = Ok r'"
      and same: "has_flag fl SCRIPT_VERIFY_WITNESS \<and> has_flag fl SCRIPT_VERIFY_P2SH \<longrightarrow> r' = r" by blast
  have "has_flag fl SCRIPT_VERIFY_SIGPUSHONLY \<longrightarrow> IsPushOnly sig" using push le by (auto simp: flags_le_def)
  then show ?thesis
    using mono [OF e1] mono [OF e2] tr verify_bare_witness_le [OF le bw] r' verify_final_le [OF le con fin same]
    by (simp add: VerifyScript_def)
qed

section \<open>Running pushes and templates\<close>

definition pushable :: "evalctx \<Rightarrow> bytes \<Rightarrow> bool" where
  "pushable c b \<longleftrightarrow> length b \<le> MAX_SCRIPT_ELEMENT_SIZE
     \<and> (fRequireMinimal c \<longrightarrow> CheckMinimalPush b (push_opcode_of b))"

lemma not_disabled_push: "opcode \<le> OP_PUSHDATA4 \<Longrightarrow> \<not> is_disabled opcode"
  by (auto simp: is_disabled_def word_le_nat_alt)

lemma eval_loop_push:
  assumes "pushable c b" "False \<notin> set (ev_vfExec s)" "length (ev_stack s) + length (ev_altstack s) < MAX_STACK_SIZE"
  shows "eval_loop c (push_data b @ rest) s = eval_loop c rest (with_stack s (b # ev_stack s))"
proof -
  have b: "length b < 2 ^ 32" "length b \<le> 520" using assms(1) by (simp_all add: pushable_def)
  have "eval_step c (push_data b @ rest) s = Ok (with_stack s (b # ev_stack s))"
    using assms b push_opcode_of_not_gt [of b] not_disabled_push [OF push_opcode_of_le [of b]] push_opcode_of_le [of b]
    by (simp add: eval_step_def GetOp2_push_data exec_push_def pushable_def)
  then show ?thesis by (simp add: eval_loop_step GetOp2_push_data [OF b(1)])
qed

lemma eval_loop_pushes:
  assumes "\<forall>b\<in>set bs. pushable c b" "False \<notin> set (ev_vfExec s)"
    and "length bs + length (ev_stack s) + length (ev_altstack s) \<le> MAX_STACK_SIZE"
  shows "eval_loop c (concat (map push_data bs) @ rest) s = eval_loop c rest (with_stack s (rev bs @ ev_stack s))"
  using assms
proof (induction bs arbitrary: s)
  case (Cons b bs)
  then show ?case by (simp add: eval_loop_push)
qed simp

lemma EvalScript_pushes:
  assumes "\<forall>b\<in>set bs. pushable c b" "length bs + length st \<le> MAX_STACK_SIZE"
    and "length (concat (map push_data bs)) \<le> MAX_SCRIPT_SIZE"
  shows "EvalScript c st (concat (map push_data bs)) = Ok (rev bs @ st)"
  using eval_loop_pushes [OF assms(1), of "init_state st (concat (map push_data bs))" "[]"] assms(2,3)
  by (simp add: EvalScript_def init_state_def)

definition check_size :: "evalstate \<Rightarrow> evalstate res" where
  "check_size s =
     (if length (ev_stack s) + length (ev_altstack s) > MAX_STACK_SIZE then Err SCRIPT_ERR_STACK_SIZE else Ok s)"

lemma eval_loop_op:
  assumes "OP_16 < opcode" "opcode \<noteq> OP_HVN_ASSET" "\<not> is_disabled opcode" "False \<notin> set (ev_vfExec s)"
    and "ev_nOpCount s < MAX_OPS_PER_SCRIPT"
  shows "eval_loop c (opcode # rest) s =
    bnd (bnd (exec_op c opcode rest True (s\<lparr>ev_nOpCount := ev_nOpCount s + 1\<rparr>)) check_size) (\<lambda>s. eval_loop c rest s)"
proof -
  have "OP_PUSHDATA4 < opcode" using assms(1) by (auto simp: word_less_nat_alt)
  then have g: "GetOp2 (opcode # rest) = \<lparr>op_ok = True, opcodeRet = opcode, vchRet = [], op_pc = rest\<rparr>"
    using assms(2) by (rule GetOp2_single)
  have "eval_step c (opcode # rest) s =
    bnd (exec_op c opcode rest True (s\<lparr>ev_nOpCount := ev_nOpCount s + 1\<rparr>)) check_size"
    using assms \<open>OP_PUSHDATA4 < opcode\<close> by (simp add: eval_step_def g check_size_def [abs_def] Let_def not_le [symmetric])
  then show ?thesis by (simp add: eval_loop_step g)
qed

lemmas exec_simps = exec_op_def stack_switch1_def stack_switch2_def check_size_def is_disabled_def

definition p2pkh_script :: "bytes \<Rightarrow> bytes" where
  "p2pkh_script h = [OP_DUP, OP_HASH160] @ push_data h @ [OP_EQUALVERIFY, OP_CHECKSIG]"

lemma pushable_20: "length h = 20 \<Longrightarrow> pushable c h"
  by (simp add: pushable_def CheckMinimalPush_def push_opcode_of_def)

lemma IsPayToPublicKeyHash_p2pkh_script: "length h = 20 \<Longrightarrow> IsPayToPublicKeyHash (p2pkh_script h)"
  by (auto simp: IsPayToPublicKeyHash_iff p2pkh_script_def push_data_def)

text \<open>What remains of a P2PKH spend after the hash has been compared: the signature check.\<close>

definition sig_check :: "evalctx \<Rightarrow> bytes \<Rightarrow> bytes \<Rightarrow> bytes \<Rightarrow> bool res" where
  "sig_check c script sig pk =
     bnd (CheckSignatureEncoding (ctx_crypto c) sig (ctx_flags c)) (\<lambda>_.
     bnd (CheckPubKeyEncoding pk (ctx_flags c) (ctx_sigversion c)) (\<lambda>_.
     bnd (CheckSig (ctx_checker c) sig pk
            (if ctx_sigversion c = SIGVERSION_BASE then fst (FindAndDelete script (push_data sig)) else script)
            (ctx_sigversion c)) (\<lambda>b.
       if \<not> b \<and> flag c SCRIPT_VERIFY_NULLFAIL \<and> sig \<noteq> [] then Err SCRIPT_ERR_SIG_NULLFAIL else Ok b)))"

lemma op_checksig_sig_check:
  "ev_stack s = pk # sig # st \<Longrightarrow>
   op_checksig c OP_CHECKSIG s =
     bnd (sig_check c (ev_pbegincodehash s) sig pk) (\<lambda>b. Ok (with_stack s (bool_vch b # st)))"
  by (cases "CheckSignatureEncoding (ctx_crypto c) sig (ctx_flags c)";
      cases "CheckPubKeyEncoding pk (ctx_flags c) (ctx_sigversion c)"; 
      cases "CheckSig (ctx_checker c) sig pk
            (if ctx_sigversion c = SIGVERSION_BASE then fst (FindAndDelete (ev_pbegincodehash s) (push_data sig))
             else ev_pbegincodehash s) (ctx_sigversion c)")
    (simp_all add: op_checksig_def sig_check_def Let_def)

lemma EvalScript_p2pkh:
  assumes "length h = 20" "length st + 4 \<le> MAX_STACK_SIZE"
  shows "EvalScript c (pk # sig # st) (p2pkh_script h) =
     (if Hash160 (ctx_crypto c) pk \<noteq> h then Err SCRIPT_ERR_EQUALVERIFY
      else bnd (case sig_check c (p2pkh_script h) sig pk of Throw _ \<Rightarrow> Err SCRIPT_ERR_UNKNOWN_ERROR | r \<Rightarrow> r) (\<lambda>b.
        Ok (bool_vch b # st)))"
proof -
  have len: "length (p2pkh_script h) = 25" using assms(1) by (simp add: p2pkh_script_def push_data_def)
  have "eval_loop c (p2pkh_script h) (init_state (pk # sig # st) (p2pkh_script h)) =
     (if Hash160 (ctx_crypto c) pk \<noteq> h then Err SCRIPT_ERR_EQUALVERIFY
      else bnd (sig_check c (p2pkh_script h) sig pk) (\<lambda>b. Ok
        \<lparr>ev_stack = bool_vch b # st, ev_altstack = [], ev_vfExec = [], ev_pbegincodehash = p2pkh_script h,
         ev_nOpCount = Suc (Suc (Suc (Suc 0)))\<rparr>))"
    using assms
    by (simp add: p2pkh_script_def [of h] eval_loop_op eval_loop_push pushable_20 exec_simps init_state_def
        op_hash_def op_checksig_sig_check bnd_assoc)
  then show ?thesis
    by (cases "sig_check c (p2pkh_script h) sig pk") (auto simp: EvalScript_def len)
qed

definition p2sh_script :: "bytes \<Rightarrow> bytes" where
  "p2sh_script h = OP_HASH160 # push_data h @ [OP_EQUAL]"

lemma IsPayToScriptHash_p2sh_script: "length h = 20 \<Longrightarrow> IsPayToScriptHash (p2sh_script h)"
  by (auto simp: IsPayToScriptHash_iff p2sh_script_def push_data_def)

lemma EvalScript_p2sh:
  assumes "length h = 20" "length st + 2 \<le> MAX_STACK_SIZE"
  shows "EvalScript c (redeem # st) (p2sh_script h) = Ok (bool_vch (Hash160 (ctx_crypto c) redeem = h) # st)"
proof -
  have "length (p2sh_script h) = 23" using assms(1) by (simp add: p2sh_script_def push_data_def)
  moreover have "eval_loop c (p2sh_script h) (init_state (redeem # st) (p2sh_script h)) = Ok
      \<lparr>ev_stack = bool_vch (Hash160 (ctx_crypto c) redeem = h) # st, ev_altstack = [], ev_vfExec = [],
       ev_pbegincodehash = p2sh_script h, ev_nOpCount = Suc (Suc 0)\<rparr>"
    using assms
    by (simp add: p2sh_script_def [of h] eval_loop_op eval_loop_push pushable_20 exec_simps init_state_def
        op_hash_def)
  ultimately show ?thesis by (simp add: EvalScript_def)
qed

lemma CastToBool_bool_vch [simp]: "CastToBool (bool_vch b) = b"
  by (simp add: bool_vch_def vchTrue_def vchFalse_def CastToBool_def)

lemma IsWitnessProgram_templates:
  "length h = 20 \<Longrightarrow> IsWitnessProgram (p2sh_script h) = None"
  "length h = 20 \<Longrightarrow> IsWitnessProgram (p2pkh_script h) = None"
  by (simp_all add: IsWitnessProgram_def p2sh_script_def p2pkh_script_def push_data_def)

lemma IsPayToScriptHash_p2pkh_script: "length h = 20 \<Longrightarrow> \<not> IsPayToScriptHash (p2pkh_script h)"
  by (simp add: IsPayToScriptHash_def p2pkh_script_def push_data_def)

lemma IsPushOnly_pushes: "\<forall>b\<in>set bs. length b < 2 ^ 32 \<Longrightarrow> IsPushOnly (concat (map push_data bs))"
  by (induction bs) (auto simp: IsPushOnly_push_data)

lemma length_push_data: "length b \<le> MAX_SCRIPT_ELEMENT_SIZE \<Longrightarrow> length (push_data b) \<le> length b + 3"
  by (simp add: push_data_def length_le_bytes)

lemma ctx_mk_ctx [simp]:
  "ctx_crypto (mk_ctx cr chk fl sv) = cr" "ctx_flags (mk_ctx cr chk fl sv) = fl"
  "ctx_checker (mk_ctx cr chk fl sv) = chk" "ctx_sigversion (mk_ctx cr chk fl sv) = sv"
  by (simp_all add: mk_ctx_def)

section \<open>What a spend must satisfy\<close>

lemma VerifyScript_p2pkh_iff:
  assumes "verify_ok cr checker" "flags_consistent fl" "length h = 20"
    and "pushable (mk_ctx cr checker fl SIGVERSION_BASE) sig" "pushable (mk_ctx cr checker fl SIGVERSION_BASE) pk"
  shows "VerifyScript cr checker fl (push_data sig @ push_data pk) (p2pkh_script h) [] = Ok () \<longleftrightarrow>
    Hash160 cr pk = h
    \<and> sig_check (mk_ctx cr checker fl SIGVERSION_BASE) (p2pkh_script h) sig pk = Ok True"
proof -
  let ?c = "mk_ctx cr checker fl SIGVERSION_BASE"
  have len: "length sig \<le> 520" "length pk \<le> 520" using assms(4,5) by (simp_all add: pushable_def)
  have push: "IsPushOnly (push_data sig @ push_data pk)"
    using IsPushOnly_pushes [of "[sig, pk]"] len by simp
  have e1: "EvalScript ?c [] (push_data sig @ push_data pk) = Ok [pk, sig]"
    using EvalScript_pushes [of "[sig, pk]" ?c "[]"] assms(4,5) length_push_data [OF len(1)]
      length_push_data [OF len(2)] len by simp
  have fin: "verify_final fl [] ([bool_vch True], False) = Ok ()"
    using assms(2) by (auto simp: verify_final_def flags_consistent_def require_def)
  show ?thesis
    using push e1 fin assms(3)
    by (auto simp: VerifyScript_def EvalScript_p2pkh verify_bare_witness_def verify_p2sh_def
        IsWitnessProgram_templates IsPayToScriptHash_p2pkh_script eval_true_def elim!: bnd_Ok_E split: res.splits)
qed

lemma eval_true_iff: "eval_true st = Ok () \<longleftrightarrow> (\<exists>x st'. st = x # st' \<and> CastToBool x)"
  by (cases st) (auto simp: eval_true_def)

lemma VerifyScript_p2sh_iff:
  assumes "has_flag fl SCRIPT_VERIFY_P2SH" "\<not> has_flag fl SCRIPT_VERIFY_WITNESS"
    "\<not> has_flag fl SCRIPT_VERIFY_CLEANSTACK" "length h = 20"
    and push: "\<forall>b\<in>set (xs @ [redeem]). pushable (mk_ctx cr checker fl SIGVERSION_BASE) b"
    and size: "length xs + 3 \<le> MAX_STACK_SIZE" "length (concat (map push_data (xs @ [redeem]))) \<le> MAX_SCRIPT_SIZE"
  shows "VerifyScript cr checker fl (concat (map push_data (xs @ [redeem]))) (p2sh_script h) [] = Ok () \<longleftrightarrow>
    Hash160 cr redeem = h
    \<and> (\<exists>x st. EvalScript (mk_ctx cr checker fl SIGVERSION_BASE) (rev xs) redeem = Ok (x # st) \<and> CastToBool x)"
proof -
  let ?c = "mk_ctx cr checker fl SIGVERSION_BASE" and ?sig = "concat (map push_data (xs @ [redeem]))"
  have po: "IsPushOnly ?sig"
    by (rule IsPushOnly_pushes) (use push in \<open>auto simp: pushable_def\<close>)
  have e1: "EvalScript ?c [] ?sig = Ok (redeem # rev xs)"
    using EvalScript_pushes [OF push, of "[]"] size by simp
  have e2: "EvalScript ?c (redeem # rev xs) (p2sh_script h) = Ok (bool_vch (Hash160 cr redeem = h) # rev xs)"
    using EvalScript_p2sh [OF assms(4), of "rev xs" ?c redeem] size(1) by simp
  show ?thesis
    using assms(1-4) po unfolding VerifyScript_def e1 bnd.simps e2
    by (auto simp: verify_bare_witness_def verify_p2sh_def verify_final_def eval_true_iff eval_true_def [of "_ # _"]
        IsPayToScriptHash_p2sh_script elim!: bnd_Ok_E)
qed

definition witness_script :: "bytes \<Rightarrow> bytes" where
  "witness_script program = OP_0 # push_data program"

lemma witness_script_pushes: "witness_script program = concat (map push_data [[], program])"
  by (simp add: witness_script_def push_data_def)

lemma VerifyScript_witness_iff:
  assumes "has_flag fl SCRIPT_VERIFY_WITNESS" "flags_consistent fl" "length program = 20 \<or> length program = 32"
  shows "VerifyScript cr checker fl [] (witness_script program) witness = Ok () \<longleftrightarrow>
    CastToBool program \<and> VerifyWitnessProgram cr checker fl witness 0 program = Ok ()"
proof -
  let ?c = "mk_ctx cr checker fl SIGVERSION_BASE"
  have "\<forall>b\<in>set [[], program]. pushable ?c b"
    using assms(3) by (auto simp: pushable_def CheckMinimalPush_def push_opcode_of_def)
  then have e2: "EvalScript ?c [] (witness_script program) = Ok [program, []]"
    using EvalScript_pushes [of "[[], program]" ?c "[]"] assms(3)
    by (auto simp: witness_script_pushes push_data_def)
  have e1: "EvalScript ?c [] [] = Ok []" by (simp add: EvalScript_def init_state_def)
  have w: "IsWitnessProgram (witness_script program) = Some (0, program)"
    using assms(3) by (auto simp: IsWitnessProgram_Some_iff witness_script_def EncodeOP_N_def)
  have p: "\<not> IsPayToScriptHash (witness_script program)"
    using assms(3) by (auto simp: IsPayToScriptHash_def witness_script_def push_data_def)
  have f: "verify_final fl witness ([[]], True) = Ok ()"
    using assms(1,2) by (simp add: verify_final_def flags_consistent_def require_def)
  show ?thesis
    using assms(1,2) unfolding VerifyScript_def e1 bnd.simps e2
    by (auto simp: verify_bare_witness_def verify_p2sh_def w p f eval_true_def elim!: bnd_Ok_E)
qed

lemma VerifyWitnessProgram_p2wpkh_iff:
  assumes "verify_ok cr checker" "length program = 20" "length sig \<le> MAX_SCRIPT_ELEMENT_SIZE"
    "length pk \<le> MAX_SCRIPT_ELEMENT_SIZE"
  shows "VerifyWitnessProgram cr checker fl [sig, pk] 0 program = Ok () \<longleftrightarrow>
    Hash160 cr pk = program
    \<and> sig_check (mk_ctx cr checker fl SIGVERSION_WITNESS_V0) (p2pkh_script program) sig pk = Ok True"
  using assms EvalScript_p2pkh [OF assms(2), of "[]" "mk_ctx cr checker fl SIGVERSION_WITNESS_V0" pk sig]
  by (auto simp: VerifyWitnessProgram_def run_witness_def p2pkh_script_def elim!: bnd_Ok_E split: res.splits)

lemma VerifyWitnessProgram_p2wsh_iff:
  assumes "length program = 32"
  shows "VerifyWitnessProgram cr checker fl (xs @ [script]) 0 program = Ok () \<longleftrightarrow>
    SHA256 cr script = program \<and> (\<forall>x\<in>set xs. length x \<le> MAX_SCRIPT_ELEMENT_SIZE)
    \<and> (\<exists>x. EvalScript (mk_ctx cr checker fl SIGVERSION_WITNESS_V0) (rev xs) script = Ok [x] \<and> CastToBool x)"
proof -
  have "(\<exists>x\<in>set (rev xs). length x > MAX_SCRIPT_ELEMENT_SIZE) \<longleftrightarrow> \<not> (\<forall>x\<in>set xs. length x \<le> MAX_SCRIPT_ELEMENT_SIZE)"
    by (auto simp: not_le)
  then show ?thesis
    using assms
    by (simp add: VerifyWitnessProgram_def run_witness_def)
      (auto simp: length_Suc_conv elim!: bnd_Ok_E split: if_splits)
qed

section \<open>Properties\<close>

lemma EvalScript_no_throw: "EvalScript c st script \<noteq> Throw e"
  by (simp add: EvalScript_def split: res.split)

lemma eval_true_no_throw: "eval_true st \<noteq> Throw e"
  by (simp add: eval_true_def)

lemma bnd_Throw_E: "bnd m f = Throw e \<Longrightarrow> (m = Throw e \<Longrightarrow> P) \<Longrightarrow> (\<And>x. m = Ok x \<Longrightarrow> f x = Throw e \<Longrightarrow> P) \<Longrightarrow> P"
  by (cases m) auto

lemma VerifyWitnessProgram_no_throw: "VerifyWitnessProgram cr checker fl witness v program \<noteq> Throw e"
  by (auto simp: VerifyWitnessProgram_def run_witness_def EvalScript_no_throw elim!: bnd_Throw_E split: if_splits)

lemma VerifyScript_no_throw: "VerifyScript cr checker fl sig spk witness \<noteq> Throw e"
  by (auto simp: VerifyScript_def verify_bare_witness_def verify_p2sh_def verify_final_def require_def eval_true_no_throw
      EvalScript_no_throw VerifyWitnessProgram_no_throw elim!: bnd_Throw_E split: if_splits option.splits list.splits)

text \<open>Hash functions and a checker to evaluate the properties on.\<close>

definition demo_crypto :: crypto where
  "demo_crypto = \<lparr>RIPEMD160 = (\<lambda>b. replicate 20 (hd (b @ [7]))), SHA1 = (\<lambda>b. replicate 20 2),
     SHA256 = (\<lambda>b. replicate 32 (hd (b @ [7]))), CheckLowS = (\<lambda>_. True)\<rparr>"

definition demo_checker :: BaseSignatureChecker where
  "demo_checker = \<lparr>CheckSig = (\<lambda>sig pk code sv. Ok (sig = pk)), CheckLockTime = (\<lambda>_. True), CheckSequence = (\<lambda>_. True)\<rparr>"

lemma verify_ok_demo: "verify_ok demo_crypto demo_checker"
  by (simp add: verify_ok_def crypto_ok_def checker_ok_def demo_crypto_def demo_checker_def)

text \<open>C2: Script evaluation is memory safe and total. For every script and every initial stack of fewer than \<open>2 ^ 63\<close>
  elements within the size limit, the loop of \<open>EvalScript\<close> fails no assertion, accesses no element that the stack does not have and pops no
  empty stack: the only exception it throws is that of a badly encoded number. \<open>EvalScript\<close> itself throws none and
  returns, either with an error code, or with a stack of at most a thousand elements (or the number given, if that is
  more), each of at most 520 bytes. This is given that the hash functions return digests of their length and that
  the signature checker returns.\<close>

theorem EvalScript_returns:
  assumes "verify_ok cr checker" and "elems_ok st" and "length st < 2 ^ 63"
  shows "eval_loop (mk_ctx cr checker fl sv) script (init_state st script) \<notin> {Abort, Throw OutOfRange, Throw StackEmpty}
    \<and> ((\<exists>e. EvalScript (mk_ctx cr checker fl sv) st script = Err e)
      \<or> (\<exists>st'. EvalScript (mk_ctx cr checker fl sv) st script = Ok st' \<and> stack_ok (max (length st) MAX_STACK_SIZE) st'))"
proof
  have "state_ok (length st) (init_state st script)" using assms(2) by (simp add: init_state_def state_ok_def)
  then have "safe (state_ok (max (length st) MAX_STACK_SIZE)) (eval_loop (mk_ctx cr checker fl sv) script (init_state st script))"
    using safe_eval_loop [of "mk_ctx cr checker fl sv"] assms(1,3) by simp
  then show "eval_loop (mk_ctx cr checker fl sv) script (init_state st script) \<notin> {Abort, Throw OutOfRange, Throw StackEmpty}" by auto
  show "(\<exists>e. EvalScript (mk_ctx cr checker fl sv) st script = Err e)
      \<or> (\<exists>st'. EvalScript (mk_ctx cr checker fl sv) st script = Ok st' \<and> stack_ok (max (length st) MAX_STACK_SIZE) st')"
    using safe_EvalScript [of "mk_ctx cr checker fl sv" st script] EvalScript_no_throw [of "mk_ctx cr checker fl sv" st script]
      assms by (cases "EvalScript (mk_ctx cr checker fl sv) st script") auto
qed

theorem EvalScript_returns_witness:
  "eval_loop (mk_ctx demo_crypto demo_checker 0 SIGVERSION_BASE) [OP_DUP, OP_ROLL] (init_state [[1]] [OP_DUP, OP_ROLL])
      \<notin> {Abort, Throw OutOfRange, Throw StackEmpty}
    \<and> ((\<exists>e. EvalScript (mk_ctx demo_crypto demo_checker 0 SIGVERSION_BASE) [[1]] [OP_DUP, OP_ROLL] = Err e)
    \<or> (\<exists>st'. EvalScript (mk_ctx demo_crypto demo_checker 0 SIGVERSION_BASE) [[1]] [OP_DUP, OP_ROLL] = Ok st'
         \<and> stack_ok (max 1 MAX_STACK_SIZE) st'))"
  using EvalScript_returns [OF verify_ok_demo, of "[[1]]"] by simp

text \<open>C3: The verification flags are soft forks. A spend that verifies under some flags verifies under every
  consistent subset of them; the two opcodes that replaced no-operations must be treated alike where upgradable
  no-operations are rejected.\<close>

theorem VerifyScript_soft_fork:
  assumes "flags_le fl fl'" and "flags_consistent fl"
    and "VerifyScript cr checker fl' sig spk witness = Ok ()"
  shows "VerifyScript cr checker fl sig spk witness = Ok ()"
  using assms by (rule VerifyScript_le)

theorem VerifyScript_soft_fork_witness:
  "VerifyScript demo_crypto demo_checker 0 (push_data [5] @ push_data [5]) (p2pkh_script (replicate 20 5)) [] = Ok ()"
proof -
  have "Hash160 demo_crypto [5] = replicate 20 5"
    by (simp add: Hash160_def demo_crypto_def hd_append)
  moreover have "sig_check (mk_ctx demo_crypto demo_checker 0x21 SIGVERSION_BASE) s [5] [5] = Ok True" for s
    by (simp add: sig_check_def CheckSignatureEncoding_def CheckPubKeyEncoding_def has_flag_def demo_checker_def)
  moreover have fl: "flags_le 0 0x21" "flags_consistent 0" "flags_consistent 0x21"
    by (simp_all add: flags_le_def flags_consistent_def has_flag_def)
  ultimately have "VerifyScript demo_crypto demo_checker 0x21 (push_data [5] @ push_data [5])
      (p2pkh_script (replicate 20 5)) [] = Ok ()"
    using VerifyScript_p2pkh_iff [OF verify_ok_demo, of "0x21" "replicate 20 5" "[5]" "[5]"]
    by (simp add: has_flag_def pushable_def)
  with fl show ?thesis by (intro VerifyScript_soft_fork [of 0 "0x21"])
qed

text \<open>C4: What spending a pay-to-public-key-hash output takes. The spend of a canonical signature script verifies
  exactly when the key hashes to the hash of the output and the signature check accepts the signature for it.\<close>

theorem p2pkh_spend:
  assumes "verify_ok cr checker" and "flags_consistent fl" and "length h = 20"
    and "pushable (mk_ctx cr checker fl SIGVERSION_BASE) sig" and "pushable (mk_ctx cr checker fl SIGVERSION_BASE) pk"
  shows "VerifyScript cr checker fl (push_data sig @ push_data pk) (p2pkh_script h) [] = Ok () \<longleftrightarrow>
    Hash160 cr pk = h
    \<and> sig_check (mk_ctx cr checker fl SIGVERSION_BASE) (p2pkh_script h) sig pk = Ok True"
  using assms by (rule VerifyScript_p2pkh_iff)

theorem p2pkh_spend_witness:
  "VerifyScript demo_crypto demo_checker 0 (push_data [5] @ push_data [5]) (p2pkh_script (replicate 20 5)) [] = Ok ()"
proof -
  have "Hash160 demo_crypto [5] = replicate 20 5"
    by (simp add: Hash160_def demo_crypto_def hd_append)
  moreover have "sig_check (mk_ctx demo_crypto demo_checker 0 SIGVERSION_BASE) s [5] [5] = Ok True" for s
    by (simp add: sig_check_def CheckSignatureEncoding_def CheckPubKeyEncoding_def has_flag_def demo_checker_def)
  ultimately show ?thesis
    using p2pkh_spend [OF verify_ok_demo, of 0 "replicate 20 5" "[5]" "[5]"]
    by (simp add: flags_consistent_def has_flag_def pushable_def)
qed

text \<open>C28: What spending a pay-to-script-hash output takes, without witnesses: the pushed redeem script hashes to the
  hash of the output and leaves a true value when run on the other pushed elements.\<close>

theorem p2sh_spend:
  assumes "has_flag fl SCRIPT_VERIFY_P2SH" and "\<not> has_flag fl SCRIPT_VERIFY_WITNESS"
    and "\<not> has_flag fl SCRIPT_VERIFY_CLEANSTACK" and "length h = 20"
    and "\<forall>b\<in>set (xs @ [redeem]). pushable (mk_ctx cr checker fl SIGVERSION_BASE) b"
    and "length xs + 3 \<le> MAX_STACK_SIZE" and "length (concat (map push_data (xs @ [redeem]))) \<le> MAX_SCRIPT_SIZE"
  shows "VerifyScript cr checker fl (concat (map push_data (xs @ [redeem]))) (p2sh_script h) [] = Ok () \<longleftrightarrow>
    Hash160 cr redeem = h
    \<and> (\<exists>x st. EvalScript (mk_ctx cr checker fl SIGVERSION_BASE) (rev xs) redeem = Ok (x # st) \<and> CastToBool x)"
  using assms by (rule VerifyScript_p2sh_iff)

theorem p2sh_spend_witness:
  "VerifyScript demo_crypto demo_checker 1 (concat (map push_data ([] @ [[0x51]]))) (p2sh_script (replicate 20 0x51)) [] = Ok ()"
proof -
  have "Hash160 demo_crypto [0x51] = replicate 20 0x51"
    by (simp add: Hash160_def demo_crypto_def hd_append)
  moreover have "EvalScript (mk_ctx demo_crypto demo_checker 1 SIGVERSION_BASE) (rev []) [0x51] = Ok ([1] # [])"
    by (code_simp)
  moreover have "CastToBool [1]" by code_simp
  ultimately show ?thesis
    using p2sh_spend [of 1 "replicate 20 0x51" "[]" "[0x51]" demo_crypto demo_checker]
    by (simp add: has_flag_def pushable_def push_data_def)
qed

text \<open>What spending a native version-0 witness key hash takes, under the witness rule: the key of the witness
  hashes to the program and the signature check accepts, with the script code of a P2PKH output.\<close>

theorem p2wpkh_spend:
  assumes "has_flag fl SCRIPT_VERIFY_WITNESS" and "flags_consistent fl" and "verify_ok cr checker"
    and "length program = 20" and "length sig \<le> MAX_SCRIPT_ELEMENT_SIZE" and "length pk \<le> MAX_SCRIPT_ELEMENT_SIZE"
  shows "VerifyScript cr checker fl [] (witness_script program) [sig, pk] = Ok () \<longleftrightarrow>
    CastToBool program \<and> Hash160 cr pk = program
    \<and> sig_check (mk_ctx cr checker fl SIGVERSION_WITNESS_V0) (p2pkh_script program) sig pk = Ok True"
  using VerifyScript_witness_iff [OF assms(1,2), of program cr checker "[sig, pk]"]
    VerifyWitnessProgram_p2wpkh_iff [OF assms(3-6), of fl] assms(4) by simp

theorem p2wpkh_spend_witness:
  "VerifyScript demo_crypto demo_checker 0x801 [] (witness_script (replicate 20 5)) [[5], [5]] = Ok ()"
proof -
  have "Hash160 demo_crypto [5] = replicate 20 5"
    by (simp add: Hash160_def demo_crypto_def hd_append)
  moreover have "sig_check (mk_ctx demo_crypto demo_checker 0x801 SIGVERSION_WITNESS_V0) s [5] [5] = Ok True" for s
    by (simp add: sig_check_def CheckSignatureEncoding_def CheckPubKeyEncoding_def has_flag_def demo_checker_def)
  moreover have "CastToBool (replicate 20 5)" by code_simp
  ultimately show ?thesis
    using p2wpkh_spend [of "0x801" demo_crypto demo_checker "replicate 20 5" "[5]" "[5]"]
    by (simp add: flags_consistent_def has_flag_def verify_ok_demo)
qed

text \<open>C27: What spending a native version-0 witness script hash takes when witnesses are verified and the flags are consistent:
  the last witness item is the script, it hashes to the program, no other item exceeds the size limit and the script leaves
  exactly one element, which is true. The program, which is the top of the stack after the output script, has to be true as
  well, so a hash of only zeros could not be spent.\<close>

theorem p2wsh_spend:
  assumes "has_flag fl SCRIPT_VERIFY_WITNESS" and "flags_consistent fl" and "length program = 32"
  shows "VerifyScript cr checker fl [] (witness_script program) (xs @ [script]) = Ok () \<longleftrightarrow>
    CastToBool program \<and> SHA256 cr script = program \<and> (\<forall>x\<in>set xs. length x \<le> MAX_SCRIPT_ELEMENT_SIZE)
    \<and> (\<exists>x. EvalScript (mk_ctx cr checker fl SIGVERSION_WITNESS_V0) (rev xs) script = Ok [x] \<and> CastToBool x)"
  using VerifyScript_witness_iff [OF assms(1,2), of program cr checker "xs @ [script]"]
    VerifyWitnessProgram_p2wsh_iff [OF assms(3), of cr checker fl xs script] assms(3) by simp

theorem p2wsh_spend_witness:
  "VerifyScript demo_crypto demo_checker 0x801 [] (witness_script (replicate 32 0x51)) ([] @ [[0x51]]) = Ok ()"
proof -
  have "EvalScript (mk_ctx demo_crypto demo_checker 0x801 SIGVERSION_WITNESS_V0) (rev []) [0x51] = Ok [[1]]"
    by code_simp
  moreover have "CastToBool [1]" "CastToBool (replicate 32 0x51)" by code_simp+
  ultimately show ?thesis
    using p2wsh_spend [of "0x801" "replicate 32 0x51" demo_crypto demo_checker "[]" "[0x51]"]
    by (simp add: flags_consistent_def has_flag_def) (simp add: demo_crypto_def hd_append)
qed

end
