(* ===== verification/TxVerify.thy ===== *)
theory TxVerify
  imports VerifyScript SigHash Chain Coins
begin

unbundle bit_operations_syntax

text \<open>
  The checks of a transaction against the chain and the coins it spends (\<open>src/src/consensus/tx_verify.cpp\<close>): lock times,
  relative lock times, the cost of signature operations and the values of inputs and outputs; and the subsidy of a block
  (\<open>src/src/validation.cpp\<close>). The view of the coins is the map from outpoints to unspent coins that the caches answer from.
  A rejection is the pair of the score and the reason that \<open>CValidationState\<close> gets.
\<close>

type_synonym utxo = "COutPoint \<rightharpoonup> Coin"
type_synonym dos = "nat \<times> string"

section \<open>Lock times\<close>

definition IsFinalTx :: "CTransaction \<Rightarrow> int \<Rightarrow> int \<Rightarrow> bool" where
  "IsFinalTx tx nBlockHeight nBlockTime =
     (if tx_nLockTime tx = 0 then True
      else if uint (tx_nLockTime tx) < (if uint (tx_nLockTime tx) < LOCKTIME_THRESHOLD then nBlockHeight else nBlockTime) then True
      else list_all (\<lambda>txin. txin_nSequence txin = SEQUENCE_FINAL) (tx_vin tx))"

definition LOCKTIME_VERIFY_SEQUENCE :: u32 where "LOCKTIME_VERIFY_SEQUENCE = 1"
definition SEQUENCE_LOCKTIME_GRANULARITY :: nat where "SEQUENCE_LOCKTIME_GRANULARITY = 9"

text \<open>
  The loop over the inputs with the heights of the coins they spend: the heights, of which the irrelevant ones are set to
  zero, and the last height and time at which the transaction is not valid. \<^term>\<open>None\<close> is a missing ancestor.
\<close>

primrec seq_lock_loop :: "store \<Rightarrow> ptr \<Rightarrow> (CTxIn \<times> int) list \<Rightarrow> int \<Rightarrow> int \<Rightarrow> (int list \<times> int \<times> int) option" where
  "seq_lock_loop s block [] nMinHeight nMinTime = Some ([], nMinHeight, nMinTime)"
| "seq_lock_loop s block (p # ps) nMinHeight nMinTime =
     (case p of (txin, nCoinHeight) \<Rightarrow>
        let nSequence = uint (txin_nSequence txin)
        in if nSequence AND SEQUENCE_LOCKTIME_DISABLE_FLAG \<noteq> 0
           then map_option (\<lambda>(hs, r). (0 # hs, r)) (seq_lock_loop s block ps nMinHeight nMinTime)
           else if nSequence AND SEQUENCE_LOCKTIME_TYPE_FLAG \<noteq> 0
           then (case GetAncestor s block (max (nCoinHeight - 1) 0) of
                   Some (Some a) \<Rightarrow>
                     let nCoinTime = GetMedianTimePast s a
                     in map_option (\<lambda>(hs, r). (nCoinHeight # hs, r)) (seq_lock_loop s block ps nMinHeight
                          (max nMinTime (nCoinTime + push_bit SEQUENCE_LOCKTIME_GRANULARITY (nSequence AND SEQUENCE_LOCKTIME_MASK) - 1)))
                 | _ \<Rightarrow> None)
           else map_option (\<lambda>(hs, r). (nCoinHeight # hs, r)) (seq_lock_loop s block ps
                  (max nMinHeight (nCoinHeight + (nSequence AND SEQUENCE_LOCKTIME_MASK) - 1)) nMinTime))"

definition CalculateSequenceLocks :: "store \<Rightarrow> CTransaction \<Rightarrow> u32 \<Rightarrow> int list \<Rightarrow> ptr \<Rightarrow> (int list \<times> int \<times> int) option" where
  "CalculateSequenceLocks s tx flags prevHeights block =
     (if length prevHeights \<noteq> length (tx_vin tx) then None
      else if \<not> (tx_nVersion tx \<ge> 2 \<and> flags AND LOCKTIME_VERIFY_SEQUENCE \<noteq> 0) then Some (prevHeights, - 1, - 1)
      else seq_lock_loop s block (zip (tx_vin tx) prevHeights) (- 1) (- 1))"

definition EvaluateSequenceLocks :: "store \<Rightarrow> ptr \<Rightarrow> int \<times> int \<Rightarrow> bool option" where
  "EvaluateSequenceLocks s block lockPair =
     (case bi_pprev (s block) of
        None \<Rightarrow> None
      | Some pprev \<Rightarrow> Some (\<not> (fst lockPair \<ge> int (bi_nHeight (s block)) \<or> snd lockPair \<ge> GetMedianTimePast s pprev)))"

definition SequenceLocks :: "store \<Rightarrow> CTransaction \<Rightarrow> u32 \<Rightarrow> int list \<Rightarrow> ptr \<Rightarrow> bool option" where
  "SequenceLocks s tx flags prevHeights block =
     (case CalculateSequenceLocks s tx flags prevHeights block of
        None \<Rightarrow> None
      | Some (_, lockPair) \<Rightarrow> EvaluateSequenceLocks s block lockPair)"

section \<open>Signature operations\<close>

text \<open>
  The counts are natural numbers here. The 32-bit counters of the source do not wrap on a transaction within the size
  limit, which has fewer than \<open>2 ^ 23\<close> bytes of at most 20 operations each.
\<close>


definition WITNESS_SCALE_FACTOR :: nat where "WITNESS_SCALE_FACTOR = 4"

definition GetLegacySigOpCount :: "CTransaction \<Rightarrow> nat" where
  "GetLegacySigOpCount tx =
     sum_list (map (\<lambda>txin. GetSigOpCount (txin_scriptSig txin) False) (tx_vin tx))
     + sum_list (map (\<lambda>txout. GetSigOpCount (txo_scriptPubKey txout) False) (tx_vout tx))"

text \<open>\<^term>\<open>None\<close> is the assertion that the coin is unspent.\<close>

primrec p2sh_sigops_loop :: "utxo \<Rightarrow> CTxIn list \<Rightarrow> nat \<Rightarrow> nat option" where
  "p2sh_sigops_loop inputs [] nSigOps = Some nSigOps"
| "p2sh_sigops_loop inputs (txin # vin) nSigOps =
     (case inputs (txin_prevout txin) of
        None \<Rightarrow> None
      | Some coin \<Rightarrow>
          let spk = txo_scriptPubKey (coin_out coin)
          in p2sh_sigops_loop inputs vin
               (if IsPayToScriptHash spk then nSigOps + GetSigOpCount_P2SH spk (txin_scriptSig txin) else nSigOps))"

definition GetP2SHSigOpCount :: "CTransaction \<Rightarrow> utxo \<Rightarrow> nat option" where
  "GetP2SHSigOpCount tx inputs = (if IsCoinBase tx then Some 0 else p2sh_sigops_loop inputs (tx_vin tx) 0)"

primrec witness_sigops_loop :: "utxo \<Rightarrow> u32 \<Rightarrow> CTxIn list \<Rightarrow> nat \<Rightarrow> nat option" where
  "witness_sigops_loop inputs flags [] nSigOps = Some nSigOps"
| "witness_sigops_loop inputs flags (txin # vin) nSigOps =
     (case inputs (txin_prevout txin) of
        None \<Rightarrow> None
      | Some coin \<Rightarrow>
          (case CountWitnessSigOps flags (txin_scriptSig txin) (txo_scriptPubKey (coin_out coin)) (txin_scriptWitness txin) of
             Ok n \<Rightarrow> witness_sigops_loop inputs flags vin (nSigOps + n)
           | _ \<Rightarrow> None))"

definition GetTransactionSigOpCost :: "CTransaction \<Rightarrow> utxo \<Rightarrow> u32 \<Rightarrow> nat option" where
  "GetTransactionSigOpCost tx inputs flags =
     (let nSigOps = GetLegacySigOpCount tx * WITNESS_SCALE_FACTOR
      in if IsCoinBase tx then Some nSigOps
         else case (if has_flag flags SCRIPT_VERIFY_P2SH
                    then map_option (\<lambda>n. nSigOps + n * WITNESS_SCALE_FACTOR) (GetP2SHSigOpCount tx inputs) else Some nSigOps) of
                None \<Rightarrow> None
              | Some nSigOps \<Rightarrow> witness_sigops_loop inputs flags (tx_vin tx) nSigOps)"

section \<open>Values\<close>

definition COINBASE_MATURITY :: int where "COINBASE_MATURITY = 100"

definition HaveInputs_view :: "utxo \<Rightarrow> CTransaction \<Rightarrow> bool" where
  "HaveInputs_view inputs tx \<longleftrightarrow> IsCoinBase tx \<or> list_all (\<lambda>txin. inputs (txin_prevout txin) \<noteq> None) (tx_vin tx)"

text \<open>
  The loop over the inputs: the sum of their values, or a rejection; \<^term>\<open>None\<close> is the assertion that the coin is
  unspent. The sum is unbounded here: where the 64-bit addition of the source overflows, the value added is out of range
  already, and both reject.
\<close>

primrec value_loop :: "utxo \<Rightarrow> int \<Rightarrow> CTxIn list \<Rightarrow> int \<Rightarrow> (dos + int) option" where
  "value_loop inputs nSpendHeight [] nValueIn = Some (Inr nValueIn)"
| "value_loop inputs nSpendHeight (txin # vin) nValueIn =
     (case inputs (txin_prevout txin) of
        None \<Rightarrow> None
      | Some coin \<Rightarrow>
          if coin_fCoinBase coin \<and> nSpendHeight - uint (coin_nHeight coin) < COINBASE_MATURITY
          then Some (Inl (0, ''bad-txns-premature-spend-of-coinbase''))
          else
            let v = txo_nValue (coin_out coin); nValueIn = nValueIn + v
            in if \<not> MoneyRange v \<or> \<not> MoneyRange nValueIn then Some (Inl (100, ''bad-txns-inputvalues-outofrange''))
               else value_loop inputs nSpendHeight vin nValueIn)"

text \<open>
  The fee, or a rejection; \<^term>\<open>None\<close> is an assertion or the exception of \<open>GetValueOut\<close>. The flag is whether the value of
  asset outputs counts (\<open>AreEnforcedValuesDeployed\<close>).
\<close>

definition CheckTxInputs :: "CTransaction \<Rightarrow> utxo \<Rightarrow> int \<Rightarrow> bool \<Rightarrow> (dos + int) option" where
  "CheckTxInputs tx inputs nSpendHeight fEnforcedValues =
     (if \<not> HaveInputs_view inputs tx then Some (Inl (100, ''bad-txns-inputs-missingorspent''))
      else case value_loop inputs nSpendHeight (tx_vin tx) 0 of
        None \<Rightarrow> None
      | Some (Inl e) \<Rightarrow> Some (Inl e)
      | Some (Inr nValueIn) \<Rightarrow>
          (case GetValueOut tx fEnforcedValues of
             None \<Rightarrow> None
           | Some value_out \<Rightarrow>
               Some (if nValueIn < value_out then Inl (100, ''bad-txns-in-belowout'')
                     else let txfee_aux = nValueIn - value_out
                          in if \<not> MoneyRange txfee_aux then Inl (100, ''bad-txns-fee-out-of-range'') else Inr txfee_aux)))"

section \<open>The subsidy\<close>

definition GetBlockSubsidy :: "int \<Rightarrow> int \<Rightarrow> int" where
  "GetBlockSubsidy nHeight nSubsidyHalvingInterval =
     (let halvings = nHeight div nSubsidyHalvingInterval
      in if halvings \<ge> 64 then 0 else drop_bit (nat halvings) (5000 * COIN))"

section \<open>Lemmas\<close>

definition input_coins :: "utxo \<Rightarrow> CTransaction \<Rightarrow> Coin list" where
  "input_coins inputs tx = map (\<lambda>txin. the (inputs (txin_prevout txin))) (tx_vin tx)"

definition mature :: "int \<Rightarrow> Coin \<Rightarrow> bool" where
  "mature h coin \<longleftrightarrow> (coin_fCoinBase coin \<longrightarrow> uint (coin_nHeight coin) + 100 \<le> h)"

lemma money_sum_nonneg: "\<forall>x \<in> set xs. MoneyRange x \<Longrightarrow> 0 \<le> sum_list xs"
  by (induction xs) (auto simp: MoneyRange_def)

lemma value_loop_Inr:
  "MoneyRange acc \<Longrightarrow>
   value_loop inputs h vin acc = Some (Inr nValueIn) \<longleftrightarrow>
     (\<forall>txin \<in> set vin. inputs (txin_prevout txin) \<noteq> None)
     \<and> (\<forall>coin \<in> (\<lambda>txin. the (inputs (txin_prevout txin))) ` set vin. mature h coin \<and> MoneyRange (txo_nValue (coin_out coin)))
     \<and> nValueIn = acc + sum_list (map (\<lambda>txin. txo_nValue (coin_out (the (inputs (txin_prevout txin))))) vin) \<and> MoneyRange nValueIn"
proof (induction vin arbitrary: acc)
  case (Cons txin vin)
  show ?case
  proof (cases "inputs (txin_prevout txin)")
    case (Some coin)
    let ?v = "txo_nValue (coin_out coin)" and ?rest = "map (\<lambda>txin. txo_nValue (coin_out (the (inputs (txin_prevout txin))))) vin"
    have m: "(coin_fCoinBase coin \<and> h - uint (coin_nHeight coin) < COINBASE_MATURITY) = (\<not> mature h coin)"
      by (auto simp: mature_def COINBASE_MATURITY_def)
    show ?thesis
    proof (cases "MoneyRange ?v \<and> MoneyRange (acc + ?v)")
      case True
      then show ?thesis using Cons.IH [of "acc + ?v"] Some m by (auto simp: Let_def)
    next
      case False
      have "\<not> MoneyRange (acc + (?v + sum_list ?rest))" if "MoneyRange ?v" "\<forall>x \<in> set ?rest. MoneyRange x"
        using False that Cons.prems money_sum_nonneg [OF that(2)] by (auto simp: MoneyRange_def)
      then show ?thesis using False Some m by (auto simp: Let_def)
    qed
  qed simp
qed auto

lemma CheckTxInputs_Inr:
  "CheckTxInputs tx inputs h enforced = Some (Inr fee) \<longleftrightarrow>
     (\<forall>txin \<in> set (tx_vin tx). inputs (txin_prevout txin) \<noteq> None)
     \<and> (\<forall>coin \<in> set (input_coins inputs tx). mature h coin \<and> MoneyRange (txo_nValue (coin_out coin)))
     \<and> (\<forall>v \<in> set (counted_values enforced (tx_vout tx)). MoneyRange v)
     \<and> MoneyRange (sum_list (map (txo_nValue \<circ> coin_out) (input_coins inputs tx)))
     \<and> sum_list (map (txo_nValue \<circ> coin_out) (input_coins inputs tx)) = sum_list (counted_values enforced (tx_vout tx)) + fee \<and> 0 \<le> fee"
  (is "_ \<longleftrightarrow> ?present \<and> ?coins \<and> ?outs \<and> MoneyRange ?in \<and> ?in = ?out + fee \<and> 0 \<le> fee")
proof -
  have z: "MoneyRange 0" by (simp add: MoneyRange_def MAX_MONEY_def COIN_def)
  have ins: "value_loop inputs h (tx_vin tx) 0 = Some (Inr t) \<longleftrightarrow> ?present \<and> ?coins \<and> t = ?in \<and> MoneyRange t" for t
    using value_loop_Inr [OF z, of inputs h "tx_vin tx" t] by (auto simp: input_coins_def comp_def)
  have outs: "GetValueOut tx enforced = Some v \<longleftrightarrow> v = ?out \<and> ?outs \<and> MoneyRange v" for v
    using value_out_loop_Some_iff [OF z, of enforced "tx_vout tx" v] by (simp add: GetValueOut_def)
  have "CheckTxInputs tx inputs h enforced = Some (Inr fee) \<longleftrightarrow>
    ?present \<and> (\<exists>t v. value_loop inputs h (tx_vin tx) 0 = Some (Inr t) \<and> GetValueOut tx enforced = Some v \<and> v \<le> t \<and> fee = t - v \<and> MoneyRange fee)"
    unfolding CheckTxInputs_def
    by (cases "value_loop inputs h (tx_vin tx) 0"; cases "GetValueOut tx enforced")
      (auto simp: HaveInputs_view_def Let_def list_all_iff ins split: sum.splits if_splits)
  also have "\<dots> \<longleftrightarrow> ?present \<and> ?coins \<and> ?outs \<and> MoneyRange ?in \<and> ?in = ?out + fee \<and> 0 \<le> fee"
  proof -
    have "0 \<le> ?out" if ?outs using money_sum_nonneg [OF that] .
    then show ?thesis by (auto simp: ins outs MoneyRange_def)
  qed
  finally show ?thesis .
qed

text \<open>What a relative lock asks for: the sequence number counts blocks, or units of 512 seconds, from the coin on.\<close>

definition seq_lock_met :: "store \<Rightarrow> ptr \<Rightarrow> ptr \<Rightarrow> CTxIn \<times> int \<Rightarrow> bool" where
  "seq_lock_met s block pprev p =
     (case p of (txin, h) \<Rightarrow>
        let n = uint (txin_nSequence txin)
        in n AND SEQUENCE_LOCKTIME_DISABLE_FLAG \<noteq> 0
           \<or> (if n AND SEQUENCE_LOCKTIME_TYPE_FLAG \<noteq> 0
              then GetMedianTimePast s (the (prev_n (bi_nHeight (s block) - nat (h - 1)) s block)) + 512 * (n AND SEQUENCE_LOCKTIME_MASK)
                     \<le> GetMedianTimePast s pprev
              else h + (n AND SEQUENCE_LOCKTIME_MASK) \<le> int (bi_nHeight (s block))))"

lemma GetMedianTimePast_nonneg: "0 \<le> GetMedianTimePast s p"
proof -
  have t: "\<forall>x \<in> set (past_times n s q). 0 \<le> x" for n q
    by (induction n arbitrary: q) (auto simp: GetBlockTime_def split: option.splits)
  have "past_times nMedianTimeSpan s (Some p) \<noteq> []" by (simp add: nMedianTimeSpan_def numeral_eq_Suc)
  then have "GetMedianTimePast s p \<in> set (past_times nMedianTimeSpan s (Some p))"
    by (simp add: GetMedianTimePast_def Let_def) (metis div_less_dividend length_greater_0_conv length_sort nth_mem one_less_numeral_iff semiring_norm(76) set_sort)
  then show ?thesis using t by blast
qed

lemma seq_lock_loop_met:
  assumes ok: "index_ok s V" "block \<in> V"
  shows "list_all (\<lambda>p. snd p \<le> int (bi_nHeight (s block))) ps \<Longrightarrow>
    \<exists>hs mh mt. seq_lock_loop s block ps nMinHeight nMinTime = Some (hs, mh, mt)
      \<and> ((mh < int (bi_nHeight (s block)) \<and> mt < GetMedianTimePast s pprev)
         \<longleftrightarrow> nMinHeight < int (bi_nHeight (s block)) \<and> nMinTime < GetMedianTimePast s pprev \<and> list_all (seq_lock_met s block pprev) ps)"
proof (induction ps arbitrary: nMinHeight nMinTime)
  case (Cons p ps)
  obtain txin h where p: "p = (txin, h)" by force
  let ?n = "uint (txin_nSequence txin)" and ?H = "bi_nHeight (s block)"
  have h: "h \<le> int ?H" and rest: "list_all (\<lambda>p. snd p \<le> int ?H) ps" using Cons.prems p by simp_all
  note IH = Cons.IH [OF rest]
  consider "?n AND SEQUENCE_LOCKTIME_DISABLE_FLAG \<noteq> 0"
    | (time) "?n AND SEQUENCE_LOCKTIME_DISABLE_FLAG = 0" "?n AND SEQUENCE_LOCKTIME_TYPE_FLAG \<noteq> 0"
    | (height) "?n AND SEQUENCE_LOCKTIME_DISABLE_FLAG = 0" "?n AND SEQUENCE_LOCKTIME_TYPE_FLAG = 0" by blast
  then show ?case
  proof cases
    case 1
    then show ?thesis using IH [of nMinHeight nMinTime] by (fastforce simp: p seq_lock_met_def Let_def)
  next
    case time
    have nat: "nat (max (h - 1) 0) = nat (h - 1)" by simp
    have "?H - nat (h - 1) \<le> ?H" by simp
    then obtain a where a: "prev_n (?H - nat (h - 1)) s block = Some a" using prev_n_Some [OF ok] by blast
    have "GetAncestor s block (max (h - 1) 0) = Some (Some a)" using GetAncestor_prev_n [OF ok, of "max (h - 1) 0"] h a nat by auto
    then show ?thesis
      using time a IH [of nMinHeight "max nMinTime (GetMedianTimePast s a + push_bit SEQUENCE_LOCKTIME_GRANULARITY (?n AND SEQUENCE_LOCKTIME_MASK) - 1)"]
      by (fastforce simp: p seq_lock_met_def Let_def SEQUENCE_LOCKTIME_GRANULARITY_def push_bit_eq_mult)
  next
    case height
    then show ?thesis
      using IH [of "max nMinHeight (h + (?n AND SEQUENCE_LOCKTIME_MASK) - 1)" nMinTime] by (fastforce simp: p seq_lock_met_def Let_def)
  qed
qed simp

lemma subsidy_periods: "(\<Sum>h < I * m. f (h div I)) = int I * (\<Sum>k < m. f k)" for f :: "nat \<Rightarrow> int"
proof (induction m)
  case (Suc m)
  have "{..<I * Suc m} = {..<I * m} \<union> {I * m..<I * Suc m}" by auto
  then have "(\<Sum>h < I * Suc m. f (h div I)) = (\<Sum>h < I * m. f (h div I)) + (\<Sum>h \<in> {I * m..<I * Suc m}. f (h div I))"
    by (simp only: sum.union_disjoint [OF finite_lessThan finite_atLeastLessThan ivl_disj_int_one(2)])
  also have "(\<Sum>h \<in> {I * m..<I * Suc m}. f (h div I)) = (\<Sum>h \<in> {I * m..<I * Suc m}. f m)"
    by (rule sum.cong) (auto simp: div_nat_eqI mult.commute)
  finally show ?case using Suc by (simp add: distrib_left)
qed simp

lemma GetBlockSubsidy_nonneg: "0 \<le> GetBlockSubsidy h i"
  by (simp add: GetBlockSubsidy_def Let_def COIN_def)

lemma subsidy_le_max_money: "(\<Sum>h < n. GetBlockSubsidy (int h) 2100000) \<le> MAX_MONEY"
proof -
  define f where "f k = GetBlockSubsidy (int k * 2100000) 2100000" for k :: nat
  have f: "GetBlockSubsidy (int h) 2100000 = f (h div 2100000)" for h
    by (simp add: f_def GetBlockSubsidy_def Let_def zdiv_int)
  have z: "f k = 0" if "64 \<le> k" for k using that by (simp add: f_def GetBlockSubsidy_def)
  have nn: "0 \<le> f k" for k unfolding f_def by (rule GetBlockSubsidy_nonneg)
  have "(\<Sum>h < n. f (h div 2100000)) \<le> (\<Sum>h < 2100000 * (n + 64). f (h div 2100000))"
    by (rule sum_mono2) (auto simp: nn)
  also have "\<dots> = 2100000 * (\<Sum>k < n + 64. f k)" using subsidy_periods [of f 2100000 "n + 64"] by simp
  also have "(\<Sum>k < n + 64. f k) = (\<Sum>k < 64. f k)" by (rule sum.mono_neutral_right) (auto simp: z)
  also have "(\<Sum>k < 64. f k) = (\<Sum>k \<leftarrow> [0..<64]. 500000000000 div 2 ^ k)"
    by (simp add: sum_list_distinct_conv_sum_set atLeast0LessThan f_def GetBlockSubsidy_def COIN_def drop_bit_eq_div)
  also have "\<dots> = 999999999987" by code_simp
  finally show ?thesis by (simp add: f MAX_MONEY_def COIN_def)
qed

section \<open>Properties\<close>

text \<open>C8: Value is conserved. A transaction passes the check of its inputs with a fee exactly when every input spends an
  unspent coin, coins of coinbases among them are a hundred blocks old, all values are in the range of money, and the
  values spent are the values of the counted outputs and a fee that is not negative.\<close>

theorem fee_exact:
  "CheckTxInputs tx inputs h enforced = Some (Inr fee) \<longleftrightarrow>
     (\<forall>txin \<in> set (tx_vin tx). inputs (txin_prevout txin) \<noteq> None)
     \<and> (\<forall>coin \<in> set (input_coins inputs tx). mature h coin \<and> MoneyRange (txo_nValue (coin_out coin)))
     \<and> (\<forall>v \<in> set (counted_values enforced (tx_vout tx)). MoneyRange v)
     \<and> MoneyRange (sum_list (map (txo_nValue \<circ> coin_out) (input_coins inputs tx)))
     \<and> sum_list (map (txo_nValue \<circ> coin_out) (input_coins inputs tx)) = sum_list (counted_values enforced (tx_vout tx)) + fee \<and> 0 \<le> fee"
  by (rule CheckTxInputs_Inr)

definition demo_coins :: utxo where
  "demo_coins = [\<lparr>outp_hash = replicate 32 9, outp_n = 0\<rparr> \<mapsto>
     \<lparr>coin_out = \<lparr>txo_nValue = 12, txo_scriptPubKey = [0x51]\<rparr>, coin_fCoinBase = True, coin_nHeight = 1\<rparr>]"

theorem fee_exact_witness: "CheckTxInputs demo_tx demo_coins 101 True = Some (Inr 7)"
  using fee_exact [of demo_tx demo_coins 101 True 7]
  by (simp add: demo_tx_def demo_coins_def input_coins_def mature_def MoneyRange_def MAX_MONEY_def COIN_def)

text \<open>C22: Relative lock times are enforced. For a transaction of version 2 whose inputs were created at heights of the
  chain, the check on a block returns, and accepts exactly when every input that is not exempt is as many blocks, or as
  many units of 512 seconds of median time, older than the block as its sequence number says.\<close>

theorem sequence_locks_met:
  assumes "index_ok s V" and "block \<in> V" and "bi_pprev (s block) = Some pprev"
    and "2 \<le> tx_nVersion tx" and "flags AND LOCKTIME_VERIFY_SEQUENCE \<noteq> 0"
    and "length prevHeights = length (tx_vin tx)" and "list_all (\<lambda>h. h \<le> int (bi_nHeight (s block))) prevHeights"
  shows "SequenceLocks s tx flags prevHeights block = Some (list_all (seq_lock_met s block pprev) (zip (tx_vin tx) prevHeights))"
proof -
  have "list_all (\<lambda>p. snd p \<le> int (bi_nHeight (s block))) (zip (tx_vin tx) prevHeights)"
    using assms(7) by (auto simp: list_all_iff dest: set_zip_rightD)
  then obtain hs mh mt where loop: "seq_lock_loop s block (zip (tx_vin tx) prevHeights) (- 1) (- 1) = Some (hs, mh, mt)"
    "(mh < int (bi_nHeight (s block)) \<and> mt < GetMedianTimePast s pprev)
      \<longleftrightarrow> - 1 < int (bi_nHeight (s block)) \<and> - 1 < GetMedianTimePast s pprev \<and> list_all (seq_lock_met s block pprev) (zip (tx_vin tx) prevHeights)"
    using seq_lock_loop_met [OF assms(1,2), of "zip (tx_vin tx) prevHeights" "- 1" "- 1" pprev] by blast
  then show ?thesis using assms(3-6) GetMedianTimePast_nonneg [of s pprev]
    by (auto simp: SequenceLocks_def CalculateSequenceLocks_def EvaluateSequenceLocks_def)
qed

theorem sequence_locks_met_witness:
  "SequenceLocks demo_store (demo_tx\<lparr>tx_vin := [(hd (tx_vin demo_tx))\<lparr>txin_nSequence := 2\<rparr>]\<rparr>) 1 [1] 3 = Some True
   \<and> SequenceLocks demo_store (demo_tx\<lparr>tx_vin := [(hd (tx_vin demo_tx))\<lparr>txin_nSequence := 3\<rparr>]\<rparr>) 1 [1] 3 = Some False"
  using sequence_locks_met [OF demo_index_ok, of 3 2 "demo_tx\<lparr>tx_vin := [(hd (tx_vin demo_tx))\<lparr>txin_nSequence := 2\<rparr>]\<rparr>" 1 "[1]"]
    sequence_locks_met [OF demo_index_ok, of 3 2 "demo_tx\<lparr>tx_vin := [(hd (tx_vin demo_tx))\<lparr>txin_nSequence := 3\<rparr>]\<rparr>" 1 "[1]"]
  by (simp add: demo_store_def demo_tx_def LOCKTIME_VERIFY_SEQUENCE_def seq_lock_met_def SEQUENCE_LOCKTIME_DISABLE_FLAG_def
      SEQUENCE_LOCKTIME_TYPE_FLAG_def SEQUENCE_LOCKTIME_MASK_def)

end
