(* ===== verification/TxAssets.thy ===== *)
theory TxAssets
  imports AssetTx TxVerify "HOL-Library.List_Lexorder" "HOL-Library.Product_Lexorder" "HOL-Library.AList"
begin

text \<open>
  The check of a transaction by itself and the check of its assets against the coins it spends
  (\<open>CheckTransaction\<close> and \<open>Consensus::CheckTxAssets\<close> of \<open>src/src/consensus/tx_verify.cpp\<close>). A check accepts with a value, rejects
  with the score and the reason that \<open>CValidationState\<close> gets, or has no defined behaviour.
\<close>

datatype 'a outcome = Accept 'a | Reject dos | Undefined

primrec obind :: "'a outcome \<Rightarrow> ('a \<Rightarrow> 'b outcome) \<Rightarrow> 'b outcome" where
  "obind (Accept a) f = f a"
| "obind (Reject e) f = Reject e"
| "obind Undefined f = Undefined"

text \<open>The rejection of a check that gives an optional error text.\<close>

definition dos100 :: "string option \<Rightarrow> unit outcome" where
  "dos100 e = (case e of None \<Rightarrow> Accept () | Some strError \<Rightarrow> Reject (100, strError))"

definition from_option :: "'a option \<Rightarrow> string \<Rightarrow> 'a outcome" where
  "from_option v strError = (case v of None \<Rightarrow> Reject (100, strError) | Some a \<Rightarrow> Accept a)"

section \<open>The outputs\<close>

definition RESTRICTED_CHAR :: u8 where "RESTRICTED_CHAR = 36"

text \<open>What the loop over the outputs keeps.\<close>

record out_state =
  os_nValueOut :: int
  os_setAssetTransferNames :: "bytes list"
  os_mapNullDataTxCount :: "(bytes \<times> bytes) list"
  os_setNullGlobalAssetChanges :: "bytes list"
  os_fContainsNullAssetVerifierTx :: bool
  os_nCountAddTagOuts :: int

definition os_init :: out_state where
  "os_init = \<lparr>os_nValueOut = 0, os_setAssetTransferNames = [], os_mapNullDataTxCount = [], os_setNullGlobalAssetChanges = [],
     os_fContainsNullAssetVerifierTx = False, os_nCountAddTagOuts = 0\<rparr>"

definition check_value :: "CTxOut \<Rightarrow> out_state \<Rightarrow> out_state outcome" where
  "check_value txout s =
     (if txo_nValue txout < 0 then Reject (100, ''bad-txns-vout-negative'')
      else if txo_nValue txout > MAX_MONEY then Reject (100, ''bad-txns-vout-toolarge'')
      else let nValueOut = os_nValueOut s + txo_nValue txout
           in if \<not> MoneyRange nValueOut then Reject (100, ''bad-txns-txouttotal-toolarge'')
              else Accept (s\<lparr>os_nValueOut := nValueOut\<rparr>))"

text \<open>The count of a pair is 0 or 1, since a second change is rejected: the pairs counted are kept.\<close>

definition check_null_asset :: "node_env \<Rightarrow> CTxOut \<Rightarrow> out_state \<Rightarrow> out_state outcome" where
  "check_null_asset env txout s =
     (let spk = txo_scriptPubKey txout
      in if \<not> IsNullAsset spk then Accept s
         else if IsNullAssetTxDataScript spk
         then obind (from_option (AssetNullDataFromScript env spk) ''bad-txns-null-asset-data-serialization'') (\<lambda>(data, address).
              obind (dos100 (VerifyNullAssetDataFlag (nd_flag data))) (\<lambda>_.
                if (nd_asset_name data, address) \<in> set (os_mapNullDataTxCount s)
                then Reject (100, ''bad-txns-null-data-only-one-change-per-asset-address'')
                else Accept (s\<lparr>os_mapNullDataTxCount := (nd_asset_name data, address) # os_mapNullDataTxCount s,
                     os_nCountAddTagOuts := os_nCountAddTagOuts s
                       + (if IsAssetNameAQualifier (nd_asset_name data) False \<and> nd_flag data = 1 then 1 else 0)\<rparr>)))
         else if IsNullGlobalRestrictionAssetTxDataScript spk
         then obind (from_option (GlobalAssetNullDataFromScript spk) ''bad-txns-null-global-asset-data-serialization'') (\<lambda>data.
              obind (dos100 (VerifyNullAssetDataFlag (nd_flag data))) (\<lambda>_.
                if nd_asset_name data \<in> set (os_setNullGlobalAssetChanges s)
                then Reject (100, ''bad-txns-null-data-only-one-global-change-per-asset-name'')
                else Accept (s\<lparr>os_setNullGlobalAssetChanges := nd_asset_name data # os_setNullGlobalAssetChanges s\<rparr>)))
         else if IsNullAssetVerifierTxDataScript spk
         then obind (dos100 (CheckVerifierAssetTxOut txout)) (\<lambda>_.
                if os_fContainsNullAssetVerifierTx s then Reject (100, ''bad-txns-null-data-only-one-verifier-per-tx'')
                else Accept (s\<lparr>os_fContainsNullAssetVerifierTx := True\<rparr>))
         else Accept s)"

definition check_transfer :: "node_env \<Rightarrow> CTxOut \<Rightarrow> out_state \<Rightarrow> out_state outcome" where
  "check_transfer env txout s =
     obind (from_option (TransferAssetFromScript env (txo_scriptPubKey txout)) ''bad-txns-transfer-asset-bad-deserialize'') (\<lambda>(transfer, _).
       case IsAssetNameValid (at_strName transfer) INVALID of (valid, assetType) \<Rightarrow>
         if \<not> valid then Reject (100, ''bad-txns-transfer-asset-name-invalid'')
         else if IsAssetNameAnOwner (at_strName transfer) \<and> at_nAmount transfer \<noteq> OWNER_ASSET_AMOUNT
           then Reject (100, ''bad-txns-transfer-owner-amount-was-not-1'')
         else if assetType = UNIQUE \<and> at_nAmount transfer \<noteq> UNIQUE_ASSET_AMOUNT
           then Reject (100, ''bad-txns-transfer-unique-amount-was-not-1'')
         else if (assetType = QUALIFIER \<or> assetType = SUB_QUALIFIER)
              \<and> (at_nAmount transfer < QUALIFIER_ASSET_MIN_AMOUNT \<or> at_nAmount transfer > QUALIFIER_ASSET_MAX_AMOUNT)
           then Reject (100, ''bad-txns-transfer-qualifier-amount-must be between 1 - 100'')
         else if txo_nValue txout \<noteq> 0 then Reject (100, ''bad-txns-asset-transfer-amount-isn't-zero'')
         else Accept (s\<lparr>os_setAssetTransferNames := at_strName transfer # os_setAssetTransferNames s\<rparr>))"

definition check_asset :: "node_env \<Rightarrow> bool \<Rightarrow> bool \<Rightarrow> CTxOut \<Rightarrow> out_state \<Rightarrow> out_state outcome" where
  "check_asset env fMempoolCheck fBlockCheck txout s =
     (case IsAssetScript (txo_scriptPubKey txout) of
        None \<Rightarrow> Accept s
      | Some (nType, _) \<Rightarrow>
          if nType = TX_TRANSFER_ASSET then check_transfer env txout s
          else if nType = TX_NEW_ASSET
          then (if txo_nValue txout \<noteq> 0 then Reject (100, ''bad-txns-asset-issued-amount-isn't-zero'') else Accept s)
          else if nType = TX_REISSUE_ASSET
          then (if AreEnforcedValuesDeployed env \<and> fBlockCheck \<and> txo_nValue txout \<noteq> 0
                then Reject (0, ''bad-txns-asset-reissued-amount-isn't-zero'')
                else if fMempoolCheck \<and> txo_nValue txout \<noteq> 0 then Reject (0, ''bad-mempool-txns-asset-reissued-amount-isn't-zero'')
                else Accept s)
          else Reject (0, ''bad-asset-type-not-any-of-the-main-three''))"

primrec out_loop :: "node_env \<Rightarrow> bool \<Rightarrow> bool \<Rightarrow> CTxOut list \<Rightarrow> out_state \<Rightarrow> out_state outcome" where
  "out_loop env fMempoolCheck fBlockCheck [] s = Accept s"
| "out_loop env fMempoolCheck fBlockCheck (txout # vout) s =
     obind (check_value txout s) (\<lambda>s.
     obind (check_null_asset env txout s) (\<lambda>s.
     obind (check_asset env fMempoolCheck fBlockCheck txout s) (\<lambda>s.
       out_loop env fMempoolCheck fBlockCheck vout s)))"

text \<open>The owner tokens that changes of marks need; the first character of an empty name is not defined.\<close>

primrec null_data_loop :: "bytes list \<Rightarrow> (bytes \<times> bytes) list \<Rightarrow> unit outcome" where
  "null_data_loop transfers [] = Accept ()"
| "null_data_loop transfers (entry # entries) =
     (let name = fst entry
      in if name = [] then Undefined
         else if hd name = RESTRICTED_CHAR
         then (if tl name @ OWNER_TAG \<in> set transfers then null_data_loop transfers entries
               else Reject (100, ''bad-txns-tx-contains-restricted-asset-null-tx-without-asset-transfer''))
         else (if name \<in> set transfers then null_data_loop transfers entries
               else Reject (100, ''bad-txns-tx-contains-qualifier-asset-null-tx-without-asset-transfer'')))"

primrec null_global_loop :: "bytes list \<Rightarrow> bytes list \<Rightarrow> unit outcome" where
  "null_global_loop transfers [] = Accept ()"
| "null_global_loop transfers (name # names) =
     (if name = [] then Reject (100, ''bad-txns-tx-contains-global-asset-null-tx-with-null-asset-name'')
      else if tl name @ OWNER_TAG \<in> set transfers then null_global_loop transfers names
      else Reject (100, ''bad-txns-tx-contains-global-asset-null-tx-without-asset-transfer''))"

section \<open>The kinds of transactions\<close>

primrec unique_outs_loop :: "node_env \<Rightarrow> CTxOut list \<Rightarrow> unit outcome" where
  "unique_outs_loop env [] = Accept ()"
| "unique_outs_loop env (out # vout) =
     (if ScriptNewUniqueAsset env (txo_scriptPubKey out) = None then unique_outs_loop env vout
      else obind (from_option (AssetFromScript env (txo_scriptPubKey out)) ''bad-txns-check-transaction-issue-unique-asset-serialization'')
             (\<lambda>(asset, _). obind (dos100 (map_option (\<lambda>strError. ''bad-txns-issue-unique'' @ strError) (CheckNewAsset asset)))
                (\<lambda>_. unique_outs_loop env vout)))"

primrec plain_outs_loop :: "CTxOut list \<Rightarrow> unit outcome" where
  "plain_outs_loop [] = Accept ()"
| "plain_outs_loop (out # vout) =
     (let spk = txo_scriptPubKey out
      in case IsAssetScript spk of
           Some (nType, _) \<Rightarrow>
             if nType \<noteq> TX_TRANSFER_ASSET then Reject (100, ''bad-txns-bad-asset-transaction'') else plain_outs_loop vout
         | None \<Rightarrow>
             if Find spk OP_HVN_ASSET > 0 \<and> hd spk \<noteq> OP_HVN_ASSET
             then Reject (100, ''bad-txns-op-hvn-asset-not-in-right-script-location'') else plain_outs_loop vout)"

text \<open>Whether the transaction reissues and whether it issues a restricted asset.\<close>

definition check_kind :: "node_env \<Rightarrow> CTransaction \<Rightarrow> (bool \<times> bool) outcome" where
  "check_kind env tx =
     (if tx_IsNewAsset env tx
      then obind (dos100 (VerifyNewAsset env tx)) (\<lambda>_.
           obind (from_option (AssetFromTransaction env tx) ''bad-txns-issue-asset-from-transaction'') (\<lambda>(asset, strAddress).
           obind (dos100 (IsNewOwnerTxValid env tx (na_strName asset) strAddress)) (\<lambda>_.
           obind (dos100 (CheckNewAsset asset)) (\<lambda>_. Accept (False, False)))))
      else if tx_IsReissueAsset tx
      then obind (dos100 (VerifyReissueAsset env tx)) (\<lambda>_.
           obind (from_option (ReissueAssetFromTransaction env tx) ''bad-txns-reissue-asset'') (\<lambda>(reissue, _).
           obind (dos100 (CheckReissueAsset env reissue)) (\<lambda>_.
             if snd (IsAssetNameValid (ra_strName reissue) INVALID) = RESTRICTED
             then (case GetVerifierStringFromTx tx of
                     Inl (strError, fNotFound) \<Rightarrow>
                       if \<not> fNotFound then Reject (100, ''bad-txns-reissue-restricted-verifier-'' @ strError) else Accept (True, False)
                   | Inr _ \<Rightarrow> Accept (True, False))
             else Accept (False, False))))
      else if tx_IsNewUniqueAsset env tx
      then obind (dos100 (VerifyNewUniqueAsset env tx)) (\<lambda>_.
           obind (unique_outs_loop env (tx_vout tx)) (\<lambda>_. Accept (False, False)))
      else if tx_IsNewMsgChannelAsset env tx
      then obind (dos100 (VerifyNewMsgChannelAsset env tx)) (\<lambda>_.
           obind (from_option (MsgChannelAssetFromTransaction env tx) ''bad-txns-issue-msgchannel-from-transaction'') (\<lambda>(asset, _).
           obind (dos100 (map_option (\<lambda>strError. ''bad-txns-issue-msgchannel'' @ strError) (CheckNewAsset asset))) (\<lambda>_. Accept (False, False))))
      else if tx_IsNewQualifierAsset env tx
      then obind (dos100 (VerifyNewQualfierAsset env tx)) (\<lambda>_.
           obind (from_option (QualifierAssetFromTransaction env tx) ''bad-txns-issue-qualifier-from-transaction'') (\<lambda>(asset, _).
           obind (dos100 (map_option (\<lambda>strError. ''bad-txns-issue-qualfier'' @ strError) (CheckNewAsset asset))) (\<lambda>_. Accept (False, False))))
      else if tx_IsNewRestrictedAsset env tx
      then obind (dos100 (VerifyNewRestrictedAsset env tx)) (\<lambda>_.
           obind (from_option (RestrictedAssetFromTransaction env tx) ''bad-txns-issue-restricted-from-transaction'') (\<lambda>(asset, _).
           obind (dos100 (map_option (\<lambda>strError. ''bad-txns-issue-restricted'' @ strError) (CheckNewAsset asset))) (\<lambda>_.
             case GetVerifierStringFromTx tx of
               Inl (strError, _) \<Rightarrow> Reject (100, ''bad-txns-issue-restricted-verifier-search-'' @ strError)
             | Inr _ \<Rightarrow> Accept (False, True))))
      else obind (plain_outs_loop (tx_vout tx)) (\<lambda>_. Accept (False, False)))"

section \<open>CheckTransaction\<close>

definition check_inputs_form :: "node_env \<Rightarrow> CTransaction \<Rightarrow> unit outcome" where
  "check_inputs_form env tx =
     (if IsCoinBase tx
      then (let n = length (txin_scriptSig (hd (tx_vin tx)))
            in if n < 2 \<or> n > 100 then Reject (100, ''bad-cb-length'')
               else if AreCoinbaseCheckAssetsDeployed env
                  \<and> list_ex (\<lambda>out. IsAssetScript (txo_scriptPubKey out) \<noteq> None \<or> IsNullAsset (txo_scriptPubKey out)) (tx_vout tx)
               then Reject (0, ''bad-txns-coinbase-contains-asset-txes'') else Accept ())
      else if list_ex (\<lambda>txin. COutPoint_IsNull (txin_prevout txin)) (tx_vin tx) then Reject (10, ''bad-txns-prevout-null'')
      else Accept ())"

definition CheckTransaction :: "node_env \<Rightarrow> CTransaction \<Rightarrow> bool \<Rightarrow> bool \<Rightarrow> bool \<Rightarrow> unit outcome" where
  "CheckTransaction env tx fCheckDuplicateInputs fMempoolCheck fBlockCheck =
     (if tx_vin tx = [] then Reject (10, ''bad-txns-vin-empty'')
      else if tx_vout tx = [] then Reject (10, ''bad-txns-vout-empty'')
      else if length (SerializeTransaction False tx) * WITNESS_SCALE_FACTOR > GetMaxBlockWeight then Reject (100, ''bad-txns-oversize'')
      else
        obind (out_loop env fMempoolCheck fBlockCheck (tx_vout tx) os_init) (\<lambda>s.
        if os_nCountAddTagOuts s \<noteq> 0 \<and> \<not> CheckAddingTagBurnFee env tx (os_nCountAddTagOuts s)
        then Reject (100, ''bad-txns-tx-doesn't-contain-required-burn-fee-for-adding-tags'')
        else
        obind (null_data_loop (os_setAssetTransferNames s) (sort (os_mapNullDataTxCount s))) (\<lambda>_.
        obind (null_global_loop (os_setAssetTransferNames s) (sort (os_setNullGlobalAssetChanges s))) (\<lambda>_.
        if fCheckDuplicateInputs \<and> \<not> distinct (map txin_prevout (tx_vin tx)) then Reject (100, ''bad-txns-inputs-duplicate'')
        else
        obind (check_inputs_form env tx) (\<lambda>_.
        obind (check_kind env tx) (\<lambda>(fContainsRestrictedAssetReissue, fContainsNewRestrictedAsset).
        if os_fContainsNullAssetVerifierTx s \<and> \<not> fContainsRestrictedAssetReissue \<and> \<not> fContainsNewRestrictedAsset
        then Reject (100, ''bad-txns-tx-cointains-verifier-string-without-restricted-asset-issuance-or-reissuance'')
        else if fContainsNewRestrictedAsset \<and> \<not> os_fContainsNullAssetVerifierTx s
        then Reject (100, ''bad-txns-tx-cointains-restricted-asset-issuance-without-verifier'')
        else Accept ()))))))"

section \<open>CheckTxAssets\<close>

text \<open>
  Amounts are added as signed 64-bit integers. Their overflow is undefined in C++; it is modelled as the wrap-around in
  two's complement that the processors the program is built for have. The map from names to sums is an association list.
\<close>

definition wrap64 :: "int \<Rightarrow> int" where "wrap64 x = sint (word_of_int x :: 64 word)"

definition add_amount :: "(bytes \<times> int) list \<Rightarrow> bytes \<Rightarrow> int \<Rightarrow> (bytes \<times> int) list" where
  "add_amount totals name nAmount =
     (case map_of totals name of
        Some n \<Rightarrow> AList.update name (wrap64 (n + nAmount)) totals
      | None \<Rightarrow> totals @ [(name, nAmount)])"

text \<open>The loop over the inputs: the sums, and the address of the first coin of each name. \<^term>\<open>Undefined\<close> is the assertion.\<close>

primrec asset_in_loop ::
  "node_env \<Rightarrow> asset_view \<Rightarrow> utxo \<Rightarrow> CTxIn list \<Rightarrow> (bytes \<times> int) list \<Rightarrow> (bytes \<rightharpoonup> bytes)
     \<Rightarrow> ((bytes \<times> int) list \<times> (bytes \<rightharpoonup> bytes)) outcome" where
  "asset_in_loop env cache inputs [] totalInputs mapAddresses = Accept (totalInputs, mapAddresses)"
| "asset_in_loop env cache inputs (txin # vin) totalInputs mapAddresses =
     (case inputs (txin_prevout txin) of
        None \<Rightarrow> Undefined
      | Some coin \<Rightarrow>
          let spk = txo_scriptPubKey (coin_out coin)
          in if IsAssetScript spk = None then asset_in_loop env cache inputs vin totalInputs mapAddresses
             else obind (from_option (GetAssetData env spk) ''bad-txns-failed-to-get-asset-from-script'') (\<lambda>data.
               let totalInputs = add_amount totalInputs (aoe_assetName data) (aoe_nAmount data);
                   address = the (EncodeDestination (env_hash256 env) (env_prefixes env) (aoe_destination data));
                   mapAddresses = (if AreMessagesDeployed env \<and> mapAddresses (aoe_assetName data) = None
                                   then mapAddresses(aoe_assetName data \<mapsto> address) else mapAddresses)
               in if IsAssetNameAnRestricted (aoe_assetName data) \<and> CheckForAddressRestriction cache (aoe_assetName data) address
                  then Reject (100, ''bad-txns-restricted-asset-transfer-from-frozen-address'')
                  else asset_in_loop env cache inputs vin totalInputs mapAddresses))"

record CMessage =
  msg_out :: COutPoint
  msg_strName :: bytes
  msg_ipfsHash :: bytes
  msg_nExpiredTime :: int
  msg_time :: int

text \<open>
  The arguments of the check beside the transaction, the coins and the assets, and the globals it reads: \<open>setMessages\<close> is
  whether messages are collected, \<open>currentTime\<close> the clock.
\<close>

record check_ctx =
  cc_fCheckMempool :: bool
  cc_fRunningUnitTests :: bool
  cc_setMessages :: bool
  cc_nBlocktime :: int
  cc_fMessaging :: bool
  cc_currentTime :: int
  cc_mapAssetToHash :: "bytes \<Rightarrow> bool"
  cc_mapReissuedAssets :: "bytes \<rightharpoonup> bytes"

text \<open>What the loop over the outputs keeps: the sums, the reissues and the messages found.\<close>

record asset_out_state =
  ao_totalOutputs :: "(bytes \<times> int) list"
  ao_vPairReissueAssets :: "(bytes \<times> bytes) list"
  ao_setMessages :: "CMessage list"

definition check_null_ctx :: "node_env \<Rightarrow> asset_view \<Rightarrow> CTxOut \<Rightarrow> unit outcome" where
  "check_null_ctx env cache txout =
     (let spk = txo_scriptPubKey txout
      in if IsAssetScript spk \<noteq> None \<and> \<not> AreAssetsDeployed env then Reject (100, ''bad-txns-is-asset-and-asset-not-active'')
         else if \<not> IsNullAsset spk then Accept ()
         else if \<not> AreRestrictedAssetsDeployed env then Reject (100, ''bad-tx-null-asset-data-before-restricted-assets-activated'')
         else if IsNullAssetTxDataScript spk then dos100 (ContextualCheckNullAssetTxOut env cache txout)
         else if IsNullGlobalRestrictionAssetTxDataScript spk then dos100 (ContextualCheckGlobalAssetTxOut cache txout)
         else if IsNullAssetVerifierTxDataScript spk then dos100 (ContextualCheckVerifierAssetTxOut cache txout [])
         else Reject (100, ''bad-tx-null-asset-data-unknown-type''))"

definition check_transfer_units :: "asset_view \<Rightarrow> bool \<Rightarrow> CAssetTransfer \<Rightarrow> unit outcome" where
  "check_transfer_units cache fRunningUnitTests transfer =
     (if fRunningUnitTests then Accept ()
      else if IsAssetNameAnOwner (at_strName transfer)
      then (if at_nAmount transfer \<noteq> OWNER_ASSET_AMOUNT then Reject (100, ''bad-txns-transfer-owner-amount-was-not-1'') else Accept ())
      else obind (from_option (GetAssetMetaDataIfExists cache (at_strName transfer)) ''bad-txns-transfer-asset-not-exist'') (\<lambda>asset.
             if na_strName asset \<noteq> at_strName transfer then Reject (100, ''bad-txns-asset-database-corrupted'')
             else if \<not> CheckAmountWithUnits (at_nAmount transfer) (na_units asset)
             then Reject (100, ''bad-txns-transfer-asset-amount-not-match-units'')
             else Accept ()))"

definition transfer_message ::
  "node_env \<Rightarrow> check_ctx \<Rightarrow> CTransaction \<Rightarrow> (bytes \<rightharpoonup> bytes) \<Rightarrow> CAssetTransfer \<Rightarrow> bytes \<Rightarrow> nat \<Rightarrow> CMessage list" where
  "transfer_message env ctx tx mapAddresses transfer address index =
     (if AreMessagesDeployed env \<and> cc_fMessaging ctx \<and> cc_setMessages ctx
         \<and> (IsAssetNameAnOwner (at_strName transfer) \<or> IsAssetNameAnMsgChannel (at_strName transfer))
         \<and> at_message transfer \<noteq> []
         \<and> (at_nExpireTime transfer = 0 \<or> at_nExpireTime transfer > cc_currentTime ctx)
         \<and> mapAddresses (at_strName transfer) = Some address
      then [\<lparr>msg_out = \<lparr>outp_hash = ComputeHash (env_hash256 env) tx, outp_n = word_of_nat index\<rparr>, msg_strName = at_strName transfer,
             msg_ipfsHash = at_message transfer, msg_nExpiredTime = at_nExpireTime transfer, msg_time = cc_nBlocktime ctx\<rparr>]
      else [])"

primrec asset_out_loop ::
  "node_env \<Rightarrow> asset_view \<Rightarrow> check_ctx \<Rightarrow> CTransaction \<Rightarrow> (bytes \<rightharpoonup> bytes) \<Rightarrow> nat \<Rightarrow> CTxOut list \<Rightarrow> asset_out_state \<Rightarrow> asset_out_state outcome" where
  "asset_out_loop env cache ctx tx mapAddresses index [] s = Accept s"
| "asset_out_loop env cache ctx tx mapAddresses index (txout # vout) s =
     obind (check_null_ctx env cache txout) (\<lambda>_.
     obind (case IsAssetScript (txo_scriptPubKey txout) of
              None \<Rightarrow> Accept s
            | Some (nType, _) \<Rightarrow>
                if nType = TX_TRANSFER_ASSET
                then obind (from_option (TransferAssetFromScript env (txo_scriptPubKey txout)) ''bad-tx-asset-transfer-bad-deserialize'')
                       (\<lambda>(transfer, address).
                     obind (dos100 (ContextualCheckTransferAsset env cache transfer address)) (\<lambda>_.
                     obind (check_transfer_units cache (cc_fRunningUnitTests ctx) transfer) (\<lambda>_.
                       Accept (s\<lparr>ao_totalOutputs := add_amount (ao_totalOutputs s) (at_strName transfer) (at_nAmount transfer),
                         ao_setMessages := ao_setMessages s @ transfer_message env ctx tx mapAddresses transfer address index\<rparr>))))
                else if nType = TX_REISSUE_ASSET
                then obind (from_option (ReissueAssetFromScript env (txo_scriptPubKey txout)) ''bad-tx-asset-reissue-bad-deserialize'')
                       (\<lambda>(reissue, _).
                         case cc_mapReissuedAssets ctx (ra_strName reissue) of
                           Some txid \<Rightarrow>
                             if txid \<noteq> ComputeHash (env_hash256 env) tx then Reject (100, ''bad-tx-reissue-chaining-not-allowed'')
                             else Accept s
                         | None \<Rightarrow>
                             Accept (s\<lparr>ao_vPairReissueAssets := ao_vPairReissueAssets s @ [(ra_strName reissue, ComputeHash (env_hash256 env) tx)]\<rparr>))
                else Accept s) (\<lambda>s.
       asset_out_loop env cache ctx tx mapAddresses (Suc index) vout s))"

primrec plain_outs_ctx :: "node_env \<Rightarrow> CTxOut list \<Rightarrow> unit outcome" where
  "plain_outs_ctx env [] = Accept ()"
| "plain_outs_ctx env (out # vout) =
     (let spk = txo_scriptPubKey out
      in case IsAssetScript spk of
           Some (nType, _) \<Rightarrow>
             if nType \<noteq> TX_TRANSFER_ASSET then Reject (100, ''bad-txns-bad-asset-transaction'') else plain_outs_ctx env vout
         | None \<Rightarrow>
             if Find spk OP_HVN_ASSET > 0
             then (if AreRestrictedAssetsDeployed env
                   then (if hd spk \<noteq> OP_HVN_ASSET then Reject (100, ''bad-txns-op-hvn-asset-not-in-right-script-location'')
                         else plain_outs_ctx env vout)
                   else Reject (100, ''bad-txns-bad-asset-script''))
             else plain_outs_ctx env vout)"

text \<open>The error text with what the caller puts before it.\<close>

definition prefixed :: "string \<Rightarrow> string option \<Rightarrow> unit outcome" where
  "prefixed strBefore e = dos100 (map_option (\<lambda>strError. strBefore @ strError) e)"

definition check_kind_ctx :: "node_env \<Rightarrow> asset_view \<Rightarrow> check_ctx \<Rightarrow> CTransaction \<Rightarrow> unit outcome" where
  "check_kind_ctx env cache ctx tx =
     (let spk = txo_scriptPubKey (last (tx_vout tx));
          new_asset = (\<lambda>asset. ContextualCheckNewAsset env cache (cc_mapAssetToHash ctx) asset (cc_fCheckMempool ctx))
      in if tx_IsNewAsset env tx
         then obind (from_option (AssetFromScript env spk) ''bad-txns-issue-serialzation-failed'') (\<lambda>(asset, _). dos100 (new_asset asset))
         else if tx_IsReissueAsset tx
         then obind (from_option (ReissueAssetFromScript env spk) ''bad-txns-reissue-serialzation-failed'') (\<lambda>(reissue_asset, _).
                prefixed ''bad-txns-reissue-contextual-'' (ContextualCheckReissueAsset env cache reissue_asset tx))
         else if tx_IsNewUniqueAsset env tx
         then prefixed ''bad-txns-issue-unique-contextual-'' (ContextualCheckUniqueAssetTx env cache (cc_mapAssetToHash ctx) tx)
         else if tx_IsNewMsgChannelAsset env tx
         then (if \<not> AreMessagesDeployed env then Reject (100, ''bad-txns-issue-msgchannel-before-messaging-is-active'')
               else obind (from_option (MsgChannelAssetFromTransaction env tx) ''bad-txns-issue-msgchannel-serialzation-failed'') (\<lambda>(asset, _).
                 prefixed ''bad-txns-issue-msgchannel-contextual-'' (new_asset asset)))
         else if tx_IsNewQualifierAsset env tx
         then (if \<not> AreRestrictedAssetsDeployed env then Reject (100, ''bad-txns-issue-qualifier-before-it-is-active'')
               else obind (from_option (QualifierAssetFromTransaction env tx) ''bad-txns-issue-qualifier-serialzation-failed'') (\<lambda>(asset, _).
                 prefixed ''bad-txns-issue-qualfier-contextual'' (new_asset asset)))
         else if tx_IsNewRestrictedAsset env tx
         then (if \<not> AreRestrictedAssetsDeployed env then Reject (100, ''bad-txns-issue-restricted-before-it-is-active'')
               else obind (from_option (RestrictedAssetFromTransaction env tx) ''bad-txns-issue-restricted-serialzation-failed'') (\<lambda>(asset, strAddress).
                 obind (prefixed ''bad-txns-issue-restricted-contextual'' (new_asset asset)) (\<lambda>_.
                   case GetVerifierStringFromTx tx of
                     Inl (strError, _) \<Rightarrow> Reject (100, ''bad-txns-issue-restricted-verifier-search-'' @ strError)
                   | Inr verifier_string \<Rightarrow> dos100 (ContextualCheckVerifierString cache verifier_string strAddress))))
         else plain_outs_ctx env (tx_vout tx))"

text \<open>The comparison of the sums, in the order of the names.\<close>

primrec totals_loop :: "(bytes \<times> int) list \<Rightarrow> (bytes \<times> int) list \<Rightarrow> unit outcome" where
  "totals_loop totalInputs [] = Accept ()"
| "totals_loop totalInputs (outValue # outs) =
     (case map_of totalInputs (fst outValue) of
        None \<Rightarrow> Reject (100, ''bad-tx-inputs-outputs-mismatch Bad Transaction - Trying to create outpoint for asset that you don't have: '')
      | Some n \<Rightarrow>
          if n \<noteq> snd outValue then Reject (100, ''bad-tx-inputs-outputs-mismatch Bad Transaction - Assets would be burnt '')
          else totals_loop totalInputs outs)"

text \<open>
  The whole check, with a cache of the assets: the reissues of the transaction added to those given, and the messages it
  adds.
\<close>

definition CheckTxAssets ::
  "node_env \<Rightarrow> CTransaction \<Rightarrow> utxo \<Rightarrow> asset_view \<Rightarrow> check_ctx \<Rightarrow> (bytes \<times> bytes) list \<Rightarrow> ((bytes \<times> bytes) list \<times> CMessage list) outcome" where
  "CheckTxAssets env tx inputs cache ctx vPairReissueAssets =
     (if \<not> HaveInputs_view inputs tx then Reject (100, ''bad-txns-inputs-missing-or-spent'')
      else
        obind (asset_in_loop env cache inputs (tx_vin tx) [] Map.empty) (\<lambda>(totalInputs, mapAddresses).
        obind (asset_out_loop env cache ctx tx mapAddresses 0 (tx_vout tx)
                 \<lparr>ao_totalOutputs = [], ao_vPairReissueAssets = vPairReissueAssets, ao_setMessages = []\<rparr>) (\<lambda>s.
        obind (check_kind_ctx env cache ctx tx) (\<lambda>_.
        obind (totals_loop totalInputs (sort_key fst (ao_totalOutputs s))) (\<lambda>_.
        if length (ao_totalOutputs s) \<noteq> length totalInputs then Reject (100, ''bad-tx-asset-inputs-size-does-not-match-outputs-size'')
        else Accept (ao_vPairReissueAssets s, ao_setMessages s))))))"

section \<open>Lemmas\<close>

lemma obind_Accept [simp]: "obind m f = Accept b \<longleftrightarrow> (\<exists>a. m = Accept a \<and> f a = Accept b)"
  by (cases m) auto

lemma dos100_Accept [simp]: "dos100 e = Accept u \<longleftrightarrow> e = None"
  by (simp add: dos100_def split: option.split)

lemma from_option_Accept [simp]: "from_option v e = Accept a \<longleftrightarrow> v = Some a"
  by (simp add: from_option_def split: option.split)

lemma prefixed_Accept [simp]: "prefixed b e = Accept u \<longleftrightarrow> e = None"
  by (simp add: prefixed_def)

text \<open>The sums of a list of names with amounts.\<close>

definition tally :: "(bytes \<times> int) list \<Rightarrow> (bytes \<times> int) list \<Rightarrow> (bytes \<times> int) list" where
  "tally = foldl (\<lambda>t p. add_amount t (fst p) (snd p))"

definition amount_of :: "bytes \<Rightarrow> (bytes \<times> int) list \<Rightarrow> int" where
  "amount_of name ps = sum_list (map snd (filter (\<lambda>p. fst p = name) ps))"

lemma amount_of_simps [simp]:
  "amount_of name [] = 0"
  "amount_of name (p # ps) = (if fst p = name then snd p else 0) + amount_of name ps"
  by (simp_all add: amount_of_def)

lemma wrap64_mod: "wrap64 x mod 2 ^ 64 = x mod 2 ^ 64"
proof -
  have "take_bit 64 (signed_take_bit 63 x) = take_bit 64 x" by (rule take_bit_signed_take_bit) simp
  then show ?thesis by (simp add: wrap64_def signed_of_int take_bit_eq_mod)
qed

lemma map_of_add_amount:
  "map_of (add_amount t n a) m = (if m = n then Some (case map_of t n of Some k \<Rightarrow> wrap64 (k + a) | None \<Rightarrow> a) else map_of t m)"
  by (auto simp: add_amount_def update_conv' map_add_def split: option.splits)

lemma distinct_add_amount: "distinct (map fst t) \<Longrightarrow> distinct (map fst (add_amount t n a))"
  by (auto simp: add_amount_def map_of_eq_None_iff distinct_update split: option.split)

lemma map_of_tally:
  "(map_of (tally t ps) n \<noteq> None \<longleftrightarrow> map_of t n \<noteq> None \<or> n \<in> fst ` set ps)
   \<and> (\<forall>k. map_of (tally t ps) n = Some k \<longrightarrow>
        k mod 2 ^ 64 = ((case map_of t n of Some k \<Rightarrow> k | None \<Rightarrow> 0) + amount_of n ps) mod 2 ^ 64)"
proof (induction ps arbitrary: t)
  case (Cons p ps)
  have step: "tally t (p # ps) = tally (add_amount t (fst p) (snd p)) ps" by (simp add: tally_def)
  have w: "(wrap64 x + y) mod 2 ^ 64 = (x + y) mod 2 ^ 64" for x y using wrap64_mod [of x] by (rule mod_add_cong) simp
  have "(case map_of (add_amount t (fst p) (snd p)) n of Some k \<Rightarrow> k | None \<Rightarrow> 0) + amount_of n ps
      = (if n = fst p then (case map_of t n of Some k \<Rightarrow> wrap64 (k + snd p) | None \<Rightarrow> snd p)
         else (case map_of t n of Some k \<Rightarrow> k | None \<Rightarrow> 0)) + amount_of n ps"
    by (simp add: map_of_add_amount)
  also have "\<dots> mod 2 ^ 64 = ((case map_of t n of Some k \<Rightarrow> k | None \<Rightarrow> 0) + amount_of n (p # ps)) mod 2 ^ 64"
    using w by (cases "map_of t n") (auto simp: algebra_simps)
  finally show ?case using Cons.IH [of "add_amount t (fst p) (snd p)"] unfolding step by (auto simp: map_of_add_amount)
qed (auto simp: tally_def)

lemma distinct_tally: "distinct (map fst t) \<Longrightarrow> distinct (map fst (tally t ps))"
  by (induction ps arbitrary: t) (simp_all add: tally_def distinct_add_amount)

text \<open>The assets that a transaction spends and transfers.\<close>

primrec in_assets :: "node_env \<Rightarrow> utxo \<Rightarrow> CTxIn list \<Rightarrow> (bytes \<times> int) list" where
  "in_assets env inputs [] = []"
| "in_assets env inputs (txin # vin) =
     (case Option.bind (inputs (txin_prevout txin)) (\<lambda>coin. GetAssetData env (txo_scriptPubKey (coin_out coin))) of
        Some data \<Rightarrow> [(aoe_assetName data, aoe_nAmount data)] | None \<Rightarrow> []) @ in_assets env inputs vin"

primrec out_transfers :: "node_env \<Rightarrow> CTxOut list \<Rightarrow> (CAssetTransfer \<times> bytes) list" where
  "out_transfers env [] = []"
| "out_transfers env (txout # vout) =
     (case TransferAssetFromScript env (txo_scriptPubKey txout) of Some t \<Rightarrow> [t] | None \<Rightarrow> []) @ out_transfers env vout"

definition out_assets :: "node_env \<Rightarrow> CTxOut list \<Rightarrow> (bytes \<times> int) list" where
  "out_assets env vout = map (\<lambda>(transfer, _). (at_strName transfer, at_nAmount transfer)) (out_transfers env vout)"

lemma GetAssetData_asset: "GetAssetData env spk = Some data \<Longrightarrow> IsAssetScript spk \<noteq> None"
  by (auto simp: GetAssetData_def split: option.splits)

lemma asset_in_loop_tally:
  "asset_in_loop env cache inputs vin t m = Accept (t', m') \<Longrightarrow>
     t' = tally t (in_assets env inputs vin)
     \<and> (\<forall>txin \<in> set vin. \<forall>coin data. inputs (txin_prevout txin) = Some coin \<and> GetAssetData env (txo_scriptPubKey (coin_out coin)) = Some data
          \<and> IsAssetNameAnRestricted (aoe_assetName data)
          \<longrightarrow> \<not> CheckForAddressRestriction cache (aoe_assetName data) (the (EncodeDestination (env_hash256 env) (env_prefixes env) (aoe_destination data))))"
proof (induction vin arbitrary: t m)
  case (Cons txin vin)
  then obtain coin where coin: "inputs (txin_prevout txin) = Some coin" by (auto split: option.splits)
  show ?case
  proof (cases "IsAssetScript (txo_scriptPubKey (coin_out coin)) = None")
    case True
    then have "GetAssetData env (txo_scriptPubKey (coin_out coin)) = None" by (simp add: GetAssetData_def)
    then show ?thesis using Cons coin True by auto
  next
    case False
    then obtain data where data: "GetAssetData env (txo_scriptPubKey (coin_out coin)) = Some data"
      using Cons.prems coin by (auto simp: Let_def)
    show ?thesis using Cons.prems Cons.IH coin data False
      by (auto simp: Let_def tally_def split: if_splits)
  qed
qed (simp add: tally_def)

lemma TransferAssetFromScript_kind: "TransferAssetFromScript env spk = Some t \<Longrightarrow> \<exists>r. IsAssetScript spk = Some (TX_TRANSFER_ASSET, r)"
  by (auto simp: TransferAssetFromScript_def ScriptTransferAsset_def split: option.splits if_splits)

lemma asset_out_loop_tally:
  "asset_out_loop env cache ctx tx m i vout s = Accept s' \<Longrightarrow>
     ao_totalOutputs s' = tally (ao_totalOutputs s) (out_assets env vout)
     \<and> list_all (\<lambda>(transfer, address). ContextualCheckTransferAsset env cache transfer address = None
          \<and> check_transfer_units cache (cc_fRunningUnitTests ctx) transfer = Accept ()) (out_transfers env vout)"
proof (induction vout arbitrary: i s)
  case (Cons txout vout)
  show ?case
  proof (cases "TransferAssetFromScript env (txo_scriptPubKey txout)")
    case None
    then have "\<exists>s1. asset_out_loop env cache ctx tx m (Suc i) vout s1 = Accept s' \<and> ao_totalOutputs s1 = ao_totalOutputs s"
      using Cons.prems by (auto split: option.splits if_splits prod.splits)
    then show ?thesis using Cons.IH None by (auto simp: out_assets_def)
  next
    case (Some t)
    obtain transfer address where t: "t = (transfer, address)" by force
    obtain r where r: "IsAssetScript (txo_scriptPubKey txout) = Some (TX_TRANSFER_ASSET, r)" using TransferAssetFromScript_kind [OF Some] by blast
    have "\<exists>s1. asset_out_loop env cache ctx tx m (Suc i) vout s1 = Accept s'
        \<and> ao_totalOutputs s1 = add_amount (ao_totalOutputs s) (at_strName transfer) (at_nAmount transfer)
        \<and> ContextualCheckTransferAsset env cache transfer address = None
        \<and> check_transfer_units cache (cc_fRunningUnitTests ctx) transfer = Accept ()"
      using Cons.prems Some t r by auto
    then show ?thesis using Cons.IH Some t by (auto simp: out_assets_def tally_def)
  qed
qed (simp add: tally_def out_assets_def)

lemma totals_loop_Accept: "totals_loop t outs = Accept () \<longleftrightarrow> list_all (\<lambda>p. map_of t (fst p) = Some (snd p)) outs"
  by (induction outs) (auto split: option.splits)

lemma CheckTxAssets_Accept:
  assumes "CheckTxAssets env tx inputs cache ctx vpairs = Accept r"
  shows "\<exists>m s. asset_in_loop env cache inputs (tx_vin tx) [] Map.empty = Accept (tally [] (in_assets env inputs (tx_vin tx)), m)
      \<and> asset_out_loop env cache ctx tx m 0 (tx_vout tx) \<lparr>ao_totalOutputs = [], ao_vPairReissueAssets = vpairs, ao_setMessages = []\<rparr> = Accept s
      \<and> ao_totalOutputs s = tally [] (out_assets env (tx_vout tx))
      \<and> list_all (\<lambda>p. map_of (tally [] (in_assets env inputs (tx_vin tx))) (fst p) = Some (snd p)) (tally [] (out_assets env (tx_vout tx)))
      \<and> length (tally [] (out_assets env (tx_vout tx))) = length (tally [] (in_assets env inputs (tx_vin tx)))
      \<and> check_kind_ctx env cache ctx tx = Accept ()"
proof -
  obtain t m s where in_loop: "asset_in_loop env cache inputs (tx_vin tx) [] Map.empty = Accept (t, m)"
    and out_loop: "asset_out_loop env cache ctx tx m 0 (tx_vout tx) \<lparr>ao_totalOutputs = [], ao_vPairReissueAssets = vpairs, ao_setMessages = []\<rparr> = Accept s"
    and rest: "check_kind_ctx env cache ctx tx = Accept ()" "totals_loop t (sort_key fst (ao_totalOutputs s)) = Accept ()"
      "length (ao_totalOutputs s) = length t"
    using assms by (auto simp: CheckTxAssets_def split: if_splits)
  have "t = tally [] (in_assets env inputs (tx_vin tx))" using asset_in_loop_tally [OF in_loop] by simp
  moreover have "ao_totalOutputs s = tally [] (out_assets env (tx_vout tx))" using asset_out_loop_tally [OF out_loop] by simp
  ultimately show ?thesis using in_loop out_loop rest by (simp add: totals_loop_Accept list_all_iff)
qed

lemma same_length_keys:
  assumes "distinct (map fst a)" "distinct (map fst b)" "length a = length b" "\<And>p. p \<in> set a \<Longrightarrow> map_of b (fst p) = Some (snd p)"
  shows "fst ` set a = fst ` set b"
proof -
  have "fst ` set a \<subseteq> fst ` set b" using assms(4) by (force dest: map_of_SomeD)
  moreover have "card (fst ` set a) = card (fst ` set b)"
    using distinct_card [OF assms(1)] distinct_card [OF assms(2)] assms(3) by simp
  ultimately show ?thesis by (intro card_subset_eq) auto
qed

lemma CheckTxAssets_totals:
  assumes "CheckTxAssets env tx inputs cache ctx vpairs = Accept r"
  shows "name \<in> fst ` set (in_assets env inputs (tx_vin tx)) \<longleftrightarrow> name \<in> fst ` set (out_assets env (tx_vout tx))"
    and "amount_of name (out_assets env (tx_vout tx)) mod 2 ^ 64 = amount_of name (in_assets env inputs (tx_vin tx)) mod 2 ^ 64"
proof -
  let ?ins = "in_assets env inputs (tx_vin tx)" and ?outs = "out_assets env (tx_vout tx)"
  have out: "map_of (tally [] ?ins) (fst p) = Some (snd p)" if "p \<in> set (tally [] ?outs)" for p
    using CheckTxAssets_Accept [OF assms] that by (auto simp: list_all_iff)
  have d: "distinct (map fst (tally [] ?ins))" "distinct (map fst (tally [] ?outs))" by (simp_all add: distinct_tally)
  have "length (tally [] ?outs) = length (tally [] ?ins)" using CheckTxAssets_Accept [OF assms] by blast
  from same_length_keys [OF d(2,1) this out] have "fst ` set (tally [] ?outs) = fst ` set (tally [] ?ins)" by blast
  then have "map_of (tally [] ?ins) name = None \<longleftrightarrow> map_of (tally [] ?outs) name = None" by (simp add: map_of_eq_None_iff)
  then show names: "name \<in> fst ` set ?ins \<longleftrightarrow> name \<in> fst ` set ?outs"
    using map_of_tally [of "[]" ?ins name] map_of_tally [of "[]" ?outs name] by auto
  show "amount_of name ?outs mod 2 ^ 64 = amount_of name ?ins mod 2 ^ 64"
  proof (cases "map_of (tally [] ?outs) name")
    case None
    then have no: "name \<notin> fst ` set ?outs" using map_of_tally [of "[]" ?outs name] by auto
    have zero: "amount_of name ps = 0" if "name \<notin> fst ` set ps" for ps using that by (induction ps) auto
    show ?thesis using zero [OF no] zero [of ?ins] names no by auto
  next
    case (Some k)
    then have "map_of (tally [] ?ins) name = Some k" using out [OF map_of_SomeD [OF Some]] by simp
    then show ?thesis using Some map_of_tally [of "[]" ?ins name] map_of_tally [of "[]" ?outs name] by auto
  qed
qed

text \<open>The transaction spends a coin of the name.\<close>

definition spends :: "node_env \<Rightarrow> utxo \<Rightarrow> CTransaction \<Rightarrow> bytes \<Rightarrow> bool" where
  "spends env inputs tx name \<longleftrightarrow> name \<in> fst ` set (in_assets env inputs (tx_vin tx))"

lemma has_transfer_out: "has_transfer env vout name \<longleftrightarrow> name \<in> fst ` set (out_assets env vout)"
  by (induction vout) (auto simp: has_transfer_def out_assets_def split: option.splits)

lemma transfer_needs_coin:
  "CheckTxAssets env tx inputs cache ctx vpairs = Accept r \<Longrightarrow> has_transfer env (tx_vout tx) name \<Longrightarrow> spends env inputs tx name"
  using CheckTxAssets_totals(1) [of env tx inputs cache ctx vpairs r name] by (simp add: has_transfer_out spends_def)

lemma plain_outs_loop_transfers:
  "plain_outs_loop vout = Accept u \<Longrightarrow> out \<in> set vout \<Longrightarrow> IsAssetScript (txo_scriptPubKey out) = Some (t, k) \<Longrightarrow> t = TX_TRANSFER_ASSET"
  by (induction vout) (auto simp: Let_def split: option.splits if_splits)

lemma CheckTransaction_parts:
  assumes "CheckTransaction env tx d m b = Accept u"
  shows "tx_vin tx \<noteq> [] \<and> tx_vout tx \<noteq> [] \<and> length (SerializeTransaction False tx) * 4 \<le> GetMaxBlockWeight
    \<and> (d \<longrightarrow> distinct (map txin_prevout (tx_vin tx))) \<and> check_inputs_form env tx = Accept ()
    \<and> (\<exists>s f. out_loop env m b (tx_vout tx) os_init = Accept s
        \<and> check_kind env tx = Accept f
        \<and> null_data_loop (os_setAssetTransferNames s) (sort (os_mapNullDataTxCount s)) = Accept ()
        \<and> null_global_loop (os_setAssetTransferNames s) (sort (os_setNullGlobalAssetChanges s)) = Accept ())"
  using assms by (auto simp: CheckTransaction_def WITNESS_SCALE_FACTOR_def split: if_splits)

lemma new_asset_single:
  assumes "VerifyNewAsset env tx = None" "out \<in> set (tx_vout tx)" "CheckIssueDataTx out"
  shows "out = last (tx_vout tx)"
proof -
  have v: "tx_vout tx \<noteq> []" using assms(2) by auto
  have "length (filter CheckIssueDataTx (tx_vout tx)) = 1 \<and> CheckIssueDataTx (last (tx_vout tx))"
    using assms(1) v by (auto simp: VerifyNewAsset_def Let_def GetTxOutAssetTypes_counts last_conv_nth split: if_splits option.splits)
  then show ?thesis using filter_one [of CheckIssueDataTx "tx_vout tx" out "last (tx_vout tx)"] assms(2,3) v by auto
qed

lemma new_asset_type:
  assumes "tx_IsNewAsset env tx" "AssetFromTransaction env tx = Some (asset, a)" "CheckNewAsset asset = None"
  shows "IsAssetNameValid (na_strName asset) INVALID = (True, t) \<Longrightarrow> t \<noteq> UNIQUE \<and> t \<noteq> RESTRICTED"
    and "fst (IsAssetNameValid (na_strName asset) INVALID)"
proof -
  have v: "tx_vout tx \<noteq> []" using assms(1) by (auto simp: tx_IsNewAsset_def Let_def)
  have a: "AssetFromScript env (txo_scriptPubKey (last (tx_vout tx))) = Some (asset, a)" using assms(1,2) by (simp add: AssetFromTransaction_def)
  have none: "ScriptNewUniqueAsset env (txo_scriptPubKey (last (tx_vout tx))) = None"
    "ScriptNewRestrictedAsset env (txo_scriptPubKey (last (tx_vout tx))) = None"
    using assms(1) v by (auto simp: tx_IsNewAsset_def Let_def last_conv_nth)
  obtain i where i: "ScriptNewAsset (txo_scriptPubKey (last (tx_vout tx))) = Some i" using a by (auto simp: AssetFromScript_def split: option.splits)
  show "t \<noteq> UNIQUE \<and> t \<noteq> RESTRICTED" if "IsAssetNameValid (na_strName asset) INVALID = (True, t)"
  proof -
    have "issued_type env (txo_scriptPubKey (last (tx_vout tx))) = Some (t, i)" using a i that by (simp add: issued_type_Some)
    then show ?thesis using none by (auto simp: ScriptNewUniqueAsset_def ScriptNewRestrictedAsset_def split: if_splits)
  qed
  show "fst (IsAssetNameValid (na_strName asset) INVALID)" using assms(3) by (auto simp: CheckNewAsset_def split: prod.splits if_splits)
qed

lemma issue_in_kind:
  assumes "check_kind env tx = Accept f" "out \<in> set (tx_vout tx)" "AssetFromScript env (txo_scriptPubKey out) = Some (asset, a)"
    "authority (na_strName asset) = Some token"
    "tx_IsNewAsset env tx \<longrightarrow> snd (IsAssetNameValid (na_strName asset) INVALID) \<notin> {MSGCHANNEL, SUB_QUALIFIER}"
  shows "has_transfer env (tx_vout tx) token"
proof -
  let ?t = "snd (IsAssetNameValid (na_strName asset) INVALID)"
  have issue: "CheckIssueDataTx out" by (rule AssetFromScript_issue [OF assms(3)])
  consider a' asset' where "tx_IsNewAsset env tx" "VerifyNewAsset env tx = None" "AssetFromTransaction env tx = Some (asset', a')" "CheckNewAsset asset' = None" | "VerifyReissueAsset env tx = None" | "VerifyNewUniqueAsset env tx = None"
    | "VerifyNewMsgChannelAsset env tx = None" | "VerifyNewQualfierAsset env tx = None" | "VerifyNewRestrictedAsset env tx = None"
    | (plain) "plain_outs_loop (tx_vout tx) = Accept ()"
    using assms(1) by (auto simp: check_kind_def split: if_splits)
  then show ?thesis
  proof cases
    case 1
    have "asset' = asset" using new_asset_single [OF 1(2) assms(2) issue] 1(1,3) assms(3) by (simp add: AssetFromTransaction_def)
    then have "?t \<noteq> UNIQUE \<and> ?t \<noteq> RESTRICTED" using new_asset_type [OF 1(1,3,4)] by (cases "IsAssetNameValid (na_strName asset) INVALID") auto
    then show ?thesis using new_asset_authority [OF 1(2) assms(2,3)] assms(4,5) 1(1) by (auto simp: authority_def split: AssetType.splits)
  next
    case 2
    then show ?thesis using reissue_authority(1) [OF 2] assms(2) issue by (auto simp: filter_empty_conv)
  next
    case 3
    then show ?thesis using new_unique_authority [OF 3 assms(2,3)] assms(4) by (simp add: authority_def)
  next
    case 4
    then show ?thesis using new_msgchannel_authority [OF 4 assms(2,3)] assms(4) by (simp add: authority_def)
  next
    case 5
    then show ?thesis using new_qualifier_authority [OF 5 assms(2,3)] assms(4) by (auto simp: authority_def)
  next
    case 6
    then show ?thesis using new_restricted_authority [OF 6 assms(2,3)] assms(4) by (simp add: authority_def)
  next
    case plain
    then show ?thesis using plain_outs_loop_transfers [OF plain assms(2)] issue
      by (auto simp: CheckIssueDataTx_def ScriptNewAsset_def split: option.splits if_splits)
  qed
qed

lemma ContextualCheckNewAsset_fresh:
  "ContextualCheckNewAsset env cache mp asset f = None \<Longrightarrow> \<not> CheckIfAssetExists cache (na_strName asset) \<and> CheckNewAsset asset = None"
  by (auto simp: ContextualCheckNewAsset_def split: if_splits option.splits)

lemma unique_check_loop_fresh:
  "unique_check_loop env cache mp vout = None \<Longrightarrow> out \<in> set vout \<Longrightarrow> ScriptNewUniqueAsset env (txo_scriptPubKey out) \<noteq> None \<Longrightarrow>
   AssetFromScript env (txo_scriptPubKey out) = Some (asset, a) \<Longrightarrow> \<not> CheckIfAssetExists cache (na_strName asset)"
  by (induction vout) (auto split: if_splits option.splits dest: ContextualCheckNewAsset_fresh)

lemma kind_from_transaction:
  "MsgChannelAssetFromTransaction env tx = Some x \<Longrightarrow> AssetFromScript env (txo_scriptPubKey (last (tx_vout tx))) = Some x"
  "QualifierAssetFromTransaction env tx = Some x \<Longrightarrow> AssetFromScript env (txo_scriptPubKey (last (tx_vout tx))) = Some x"
  "RestrictedAssetFromTransaction env tx = Some x \<Longrightarrow> AssetFromScript env (txo_scriptPubKey (last (tx_vout tx))) = Some x"
proof -
  let ?s = "txo_scriptPubKey (last (tx_vout tx))"
  have r: "AssetFromScript env ?s = Some x"
    if "read_new_asset env ?s idx = Some x" "idx = (case issued_type env ?s of Some (t, i) \<Rightarrow> if P t then Some i else None | None \<Rightarrow> None)" for idx P
    using read_new_asset_same [OF _ that(2)] that(1) by (cases idx) (auto simp: read_new_asset_def)
  show "MsgChannelAssetFromTransaction env tx = Some x \<Longrightarrow> AssetFromScript env ?s = Some x"
    by (rule r [OF _ ScriptNewMsgChannelAsset_def]) (auto simp: MsgChannelAssetFromTransaction_def MsgChannelAssetFromScript_def split: if_splits)
  show "QualifierAssetFromTransaction env tx = Some x \<Longrightarrow> AssetFromScript env ?s = Some x"
    by (rule r [OF _ ScriptNewQualifierAsset_def]) (auto simp: QualifierAssetFromTransaction_def QualifierAssetFromScript_def split: if_splits)
  show "RestrictedAssetFromTransaction env tx = Some x \<Longrightarrow> AssetFromScript env ?s = Some x"
    by (rule r [OF _ ScriptNewRestrictedAsset_def]) (auto simp: RestrictedAssetFromTransaction_def RestrictedAssetFromScript_def split: if_splits)
qed

lemma kind_counts:
  "VerifyNewAsset env tx = None \<Longrightarrow> length (filter CheckIssueDataTx (tx_vout tx)) = 1 \<and> filter CheckReissueDataTx (tx_vout tx) = []"
  "VerifyNewMsgChannelAsset env tx = None \<Longrightarrow> length (filter CheckIssueDataTx (tx_vout tx)) = 1 \<and> filter CheckReissueDataTx (tx_vout tx) = []"
  "VerifyNewQualfierAsset env tx = None \<Longrightarrow> length (filter CheckIssueDataTx (tx_vout tx)) = 1 \<and> filter CheckReissueDataTx (tx_vout tx) = []"
  "VerifyNewRestrictedAsset env tx = None \<Longrightarrow> length (filter CheckIssueDataTx (tx_vout tx)) = 1 \<and> filter CheckReissueDataTx (tx_vout tx) = []"
  "VerifyNewUniqueAsset env tx = None \<Longrightarrow> filter CheckReissueDataTx (tx_vout tx) = []"
      apply (auto simp: VerifyNewAsset_def Let_def GetTxOutAssetTypes_counts split: if_splits option.splits)[1]
     apply (auto simp: VerifyNewMsgChannelAsset_def Let_def GetTxOutAssetTypes_counts split: if_splits option.splits)[1]
    apply (auto simp: VerifyNewQualfierAsset_def Let_def GetTxOutAssetTypes_counts split: if_splits option.splits)[1]
   apply (auto simp: VerifyNewRestrictedAsset_def Let_def GetTxOutAssetTypes_counts split: if_splits option.splits sum.splits prod.splits)[1]
  apply (auto simp: VerifyNewUniqueAsset_def Let_def GetTxOutAssetTypes_counts split: if_splits sum.splits prod.splits)[1]
  done

text \<open>How the two checks of the kind can have been passed.\<close>

lemma check_kind_cases:
  assumes "check_kind env tx = Accept f" "check_kind_ctx env cache ctx tx = Accept ()"
  shows "(\<exists>asset a. AssetFromScript env (txo_scriptPubKey (last (tx_vout tx))) = Some (asset, a) \<and> \<not> CheckIfAssetExists cache (na_strName asset)
        \<and> length (filter CheckIssueDataTx (tx_vout tx)) = 1 \<and> filter CheckReissueDataTx (tx_vout tx) = [])
    \<or> VerifyReissueAsset env tx = None \<and> (\<exists>r a. ReissueAssetFromScript env (txo_scriptPubKey (last (tx_vout tx))) = Some (r, a)
        \<and> ContextualCheckReissueAsset env cache r tx = None)
    \<or> VerifyNewUniqueAsset env tx = None \<and> ContextualCheckUniqueAssetTx env cache (cc_mapAssetToHash ctx) tx = None
    \<or> plain_outs_loop (tx_vout tx) = Accept ()" (is "?new \<or> ?reissue \<or> ?unique \<or> ?plain")
proof -
  let ?fresh = "\<lambda>x. \<exists>asset a. x = Some (asset, a) \<and> \<not> CheckIfAssetExists cache (na_strName asset)"
  have "tx_IsNewAsset env tx \<Longrightarrow> VerifyNewAsset env tx = None \<and> ?fresh (AssetFromScript env (txo_scriptPubKey (last (tx_vout tx))))"
    using assms by (auto simp: check_kind_def check_kind_ctx_def Let_def dest!: ContextualCheckNewAsset_fresh)
  then have 1: "tx_IsNewAsset env tx \<Longrightarrow> ?new" using kind_counts(1) [of env tx] by blast
  have 2: "\<not> tx_IsNewAsset env tx \<Longrightarrow> tx_IsReissueAsset tx \<Longrightarrow> ?reissue"
    using assms by (auto simp: check_kind_def check_kind_ctx_def Let_def)
  have 3: "\<not> tx_IsNewAsset env tx \<Longrightarrow> \<not> tx_IsReissueAsset tx \<Longrightarrow> tx_IsNewUniqueAsset env tx \<Longrightarrow> ?unique"
    using assms by (auto simp: check_kind_def check_kind_ctx_def Let_def)
  have "\<not> tx_IsNewAsset env tx \<Longrightarrow> \<not> tx_IsReissueAsset tx \<Longrightarrow> \<not> tx_IsNewUniqueAsset env tx \<Longrightarrow> tx_IsNewMsgChannelAsset env tx \<Longrightarrow>
      VerifyNewMsgChannelAsset env tx = None \<and> ?fresh (MsgChannelAssetFromTransaction env tx)"
    using assms by (auto simp: check_kind_def check_kind_ctx_def Let_def dest!: ContextualCheckNewAsset_fresh split: if_splits)
  then have 4: "\<not> tx_IsNewAsset env tx \<Longrightarrow> \<not> tx_IsReissueAsset tx \<Longrightarrow> \<not> tx_IsNewUniqueAsset env tx \<Longrightarrow> tx_IsNewMsgChannelAsset env tx \<Longrightarrow> ?new"
    using kind_counts(2) [of env tx] kind_from_transaction(1) [of env tx] by blast
  have "\<not> tx_IsNewAsset env tx \<Longrightarrow> \<not> tx_IsReissueAsset tx \<Longrightarrow> \<not> tx_IsNewUniqueAsset env tx \<Longrightarrow> \<not> tx_IsNewMsgChannelAsset env tx \<Longrightarrow>
      tx_IsNewQualifierAsset env tx \<Longrightarrow> VerifyNewQualfierAsset env tx = None \<and> ?fresh (QualifierAssetFromTransaction env tx)"
    using assms by (auto simp: check_kind_def check_kind_ctx_def Let_def dest!: ContextualCheckNewAsset_fresh split: if_splits)
  then have 5: "\<not> tx_IsNewAsset env tx \<Longrightarrow> \<not> tx_IsReissueAsset tx \<Longrightarrow> \<not> tx_IsNewUniqueAsset env tx \<Longrightarrow> \<not> tx_IsNewMsgChannelAsset env tx \<Longrightarrow>
      tx_IsNewQualifierAsset env tx \<Longrightarrow> ?new"
    using kind_counts(3) [of env tx] kind_from_transaction(2) [of env tx] by blast
  have "\<not> tx_IsNewAsset env tx \<Longrightarrow> \<not> tx_IsReissueAsset tx \<Longrightarrow> \<not> tx_IsNewUniqueAsset env tx \<Longrightarrow> \<not> tx_IsNewMsgChannelAsset env tx \<Longrightarrow>
      \<not> tx_IsNewQualifierAsset env tx \<Longrightarrow> tx_IsNewRestrictedAsset env tx \<Longrightarrow>
      VerifyNewRestrictedAsset env tx = None \<and> ?fresh (RestrictedAssetFromTransaction env tx)"
    using assms by (auto simp: check_kind_def check_kind_ctx_def Let_def dest!: ContextualCheckNewAsset_fresh split: if_splits)
  then have 6: "\<not> tx_IsNewAsset env tx \<Longrightarrow> \<not> tx_IsReissueAsset tx \<Longrightarrow> \<not> tx_IsNewUniqueAsset env tx \<Longrightarrow> \<not> tx_IsNewMsgChannelAsset env tx \<Longrightarrow>
      \<not> tx_IsNewQualifierAsset env tx \<Longrightarrow> tx_IsNewRestrictedAsset env tx \<Longrightarrow> ?new"
    using kind_counts(4) [of env tx] kind_from_transaction(3) [of env tx] by blast
  have 7: "\<not> tx_IsNewAsset env tx \<Longrightarrow> \<not> tx_IsReissueAsset tx \<Longrightarrow> \<not> tx_IsNewUniqueAsset env tx \<Longrightarrow> \<not> tx_IsNewMsgChannelAsset env tx \<Longrightarrow>
      \<not> tx_IsNewQualifierAsset env tx \<Longrightarrow> \<not> tx_IsNewRestrictedAsset env tx \<Longrightarrow> ?plain"
    using assms(1) by (simp add: check_kind_def)
  show ?thesis using 1 2 3 4 5 6 7 by argo
qed

lemma issue_fresh:
  assumes kind: "check_kind env tx = Accept f" and ctx: "check_kind_ctx env cache ctx tx = Accept ()"
    and out: "out \<in> set (tx_vout tx)" "AssetFromScript env (txo_scriptPubKey out) = Some (asset, a)"
  shows "\<not> CheckIfAssetExists cache (na_strName asset)"
proof -
  have issue: "CheckIssueDataTx out" by (rule AssetFromScript_issue [OF out(2)])
  from check_kind_cases [OF kind ctx] consider x b where "AssetFromScript env (txo_scriptPubKey (last (tx_vout tx))) = Some (x, b)"
      "length (filter CheckIssueDataTx (tx_vout tx)) = 1" "\<not> CheckIfAssetExists cache (na_strName x)"
    | "VerifyReissueAsset env tx = None"
    | "VerifyNewUniqueAsset env tx = None" "ContextualCheckUniqueAssetTx env cache (cc_mapAssetToHash ctx) tx = None"
    | (plain) "plain_outs_loop (tx_vout tx) = Accept ()"
    by (elim disjE exE conjE)
  then show ?thesis
  proof cases
    case 1
    then show ?thesis using single_kind_authority [OF 1(1,2) out] by simp
  next
    case 2
    then show ?thesis using reissue_authority(1) [OF 2] out(1) issue by (auto simp: filter_empty_conv)
  next
    case 3
    then have "IsAssetNameValid (na_strName asset) INVALID = (True, UNIQUE)" using new_unique_authority [OF 3(1) out] by blast
    moreover obtain i where "ScriptNewAsset (txo_scriptPubKey out) = Some i" using issue by (auto simp: CheckIssueDataTx_def)
    ultimately have "issued_type env (txo_scriptPubKey out) = Some (UNIQUE, i)" using out(2) by (simp add: issued_type_Some)
    then show ?thesis using unique_check_loop_fresh [OF _ out(1) _ out(2)] 3(2)
      by (simp add: ContextualCheckUniqueAssetTx_def ScriptNewUniqueAsset_def)
  next
    case plain
    then show ?thesis using plain_outs_loop_transfers [OF plain out(1)] issue
      by (auto simp: CheckIssueDataTx_def ScriptNewAsset_def split: option.splits if_splits)
  qed
qed

lemma reissue_in_kind:
  assumes kind: "check_kind env tx = Accept f" and ctx: "check_kind_ctx env cache ctx tx = Accept ()"
    and out: "out \<in> set (tx_vout tx)" "ReissueAssetFromScript env (txo_scriptPubKey out) = Some (r, a)"
  shows "VerifyReissueAsset env tx = None \<and> ContextualCheckReissueAsset env cache r tx = None"
proof -
  have reissue: "CheckReissueDataTx out" by (rule ReissueAssetFromScript_reissue [OF out(2)])
  from check_kind_cases [OF kind ctx] consider "filter CheckReissueDataTx (tx_vout tx) = []"
    | r' a' where "VerifyReissueAsset env tx = None" "ReissueAssetFromScript env (txo_scriptPubKey (last (tx_vout tx))) = Some (r', a')"
        "ContextualCheckReissueAsset env cache r' tx = None"
    | (plain) "plain_outs_loop (tx_vout tx) = Accept ()"
    using kind_counts(5) [of env tx] by blast
  then show ?thesis
  proof cases
    case 1
    then show ?thesis using out(1) reissue by (auto simp: filter_empty_conv)
  next
    case 2
    then show ?thesis using reissue_authority(2) [OF 2(1) out] out(2) by auto
  next
    case plain
    then show ?thesis using plain_outs_loop_transfers [OF plain out(1)] reissue
      by (auto simp: CheckReissueDataTx_def ScriptReissueAsset_def split: option.splits if_splits)
  qed
qed

end
