(* ===== verification/AssetRules.thy ===== *)
theory AssetRules
  imports TxAssets
begin

text \<open>
  What the checks of \<open>TxAssets\<close> guarantee of the assets a transaction issues and moves, and where they fall short, with
  concrete transactions to evaluate the properties on.
\<close>

section \<open>Transactions to evaluate on\<close>

text \<open>
  A node whose fees are paid to the address of one key, and the outputs to that key: a fee, a transfer, an issue with the
  token of its owner, and a reissue.
\<close>

definition demo_key_script :: bytes where "demo_key_script = GetScriptForDestination (CKeyID (replicate 20 7))"

definition demo_address :: bytes where "demo_address = key_address demo_env (replicate 20 7)"

definition demo_asset_env :: node_env where
  "demo_asset_env = demo_env\<lparr>env_burns := main_burns\<lparr>IssueMsgChannelAssetBurnAddress := demo_address,
     IssueSubAssetBurnAddress := demo_address, ReissueAssetBurnAddress := demo_address\<rparr>\<rparr>"

definition fee_out :: "int \<Rightarrow> CTxOut" where "fee_out v = \<lparr>txo_nValue = v, txo_scriptPubKey = demo_key_script\<rparr>"

definition moved :: "bytes \<Rightarrow> int \<Rightarrow> CAssetTransfer" where
  "moved name n = \<lparr>at_strName = name, at_nAmount = n, at_message = [], at_nExpireTime = 0\<rparr>"

definition issued :: "bytes \<Rightarrow> CNewAsset" where
  "issued name = \<lparr>na_strName = name, na_nAmount = COIN, na_units = 0, na_nReissuable = 0, na_nHasIPFS = 0, na_strIPFSHash = []\<rparr>"

definition transfer_out :: "bytes \<Rightarrow> int \<Rightarrow> CTxOut" where
  "transfer_out name n = \<lparr>txo_nValue = 0, txo_scriptPubKey = ConstructTransaction_transfer (moved name n) demo_key_script\<rparr>"

definition issue_out :: "bytes \<Rightarrow> CTxOut" where
  "issue_out name = \<lparr>txo_nValue = 0, txo_scriptPubKey = ConstructTransaction_new (issued name) demo_key_script\<rparr>"

definition owner_out :: "bytes \<Rightarrow> CTxOut" where
  "owner_out name = \<lparr>txo_nValue = 0, txo_scriptPubKey = ConstructOwnerTransaction (issued name) demo_key_script\<rparr>"

definition reissue_out :: "bytes \<Rightarrow> CTxOut" where
  "reissue_out name = \<lparr>txo_nValue = 0, txo_scriptPubKey = ConstructTransaction_reissue
     \<lparr>ra_strName = name, ra_nAmount = 5, ra_nUnits = 8, ra_nReissuable = 1, ra_strIPFSHash = []\<rparr> demo_key_script\<rparr>"

definition demo_asset_tx :: "CTxOut list \<Rightarrow> CTransaction" where
  "demo_asset_tx vout = demo_tx\<lparr>tx_vout := vout\<rparr>"

definition coin_of :: "CTxOut \<Rightarrow> utxo" where
  "coin_of out = [\<lparr>outp_hash = replicate 32 9, outp_n = 0\<rparr> \<mapsto> \<lparr>coin_out = out, coin_fCoinBase = False, coin_nHeight = 1\<rparr>]"

definition demo_asset_view :: asset_view where
  "demo_asset_view =
     \<lparr>CheckIfAssetExists = (\<lambda>n. n \<in> {str ''GOLD'', str ''$GOLD''}),
      GetAssetMetaDataIfExists = [str ''GOLD'' \<mapsto> (issued (str ''GOLD''))\<lparr>na_units := 8, na_nReissuable := 1\<rparr>, str ''$GOLD'' \<mapsto> (issued (str ''$GOLD''))\<lparr>na_units := 8\<rparr>],
      GetAssetVerifierStringIfExists = (\<lambda>n b. if n = str ''$GOLD'' then Some (str ''true'') else None),
      CheckForAddressQualifier = (\<lambda>n a. False), CheckForAddressRestriction = (\<lambda>n a. False), CheckForGlobalRestriction = (\<lambda>n. False)\<rparr>"

definition demo_ctx :: check_ctx where
  "demo_ctx = \<lparr>cc_fCheckMempool = False, cc_fRunningUnitTests = False, cc_setMessages = True, cc_nBlocktime = 0, cc_fMessaging = True,
     cc_currentTime = 0, cc_mapAssetToHash = (\<lambda>n. False), cc_mapReissuedAssets = Map.empty\<rparr>"

lemma demo_asset_env: "env_ok demo_asset_env" "key_address demo_asset_env (replicate 20 7) = demo_address"
  "AreTransferScriptsSizeDeployed demo_asset_env" "AreAssetsDeployed demo_asset_env" "AreMessagesDeployed demo_asset_env"
  "AreRestrictedAssetsDeployed demo_asset_env"
  using demo_env_ok by (simp_all add: demo_asset_env_def env_ok_def demo_address_def key_address_def) (simp_all add: demo_env_def)

lemma demo_transfer_out:
  assumes "length name \<le> 30" "- (2 ^ 63) \<le> n" "n < 2 ^ 63"
  shows "\<exists>i. IsAssetScript (txo_scriptPubKey (transfer_out name n)) = Some (TX_TRANSFER_ASSET, False, i)"
    "TransferAssetFromScript demo_asset_env (txo_scriptPubKey (transfer_out name n)) = Some (moved name n, demo_address)"
    "GetAssetData demo_asset_env (txo_scriptPubKey (transfer_out name n))
       = Some \<lparr>aoe_type = TX_TRANSFER_ASSET, aoe_assetName = name, aoe_destination = CKeyID (replicate 20 7), aoe_nAmount = n,
              aoe_message = [], aoe_expireTime = 0\<rparr>"
proof -
  have "transfer_ok (moved name n)" using assms by (simp add: transfer_ok_def moved_def hash_ok_def)
  note r = transfer_read_back [OF demo_asset_env(1) _ this demo_asset_env(3), of "replicate 20 7"]
  show "\<exists>i. IsAssetScript (txo_scriptPubKey (transfer_out name n)) = Some (TX_TRANSFER_ASSET, False, i)"
    using r(1) by (simp add: transfer_out_def demo_key_script_def)
  show "TransferAssetFromScript demo_asset_env (txo_scriptPubKey (transfer_out name n)) = Some (moved name n, demo_address)"
    using r(2) by (simp add: transfer_out_def demo_key_script_def demo_asset_env(2))
  show "GetAssetData demo_asset_env (txo_scriptPubKey (transfer_out name n))
       = Some \<lparr>aoe_type = TX_TRANSFER_ASSET, aoe_assetName = name, aoe_destination = CKeyID (replicate 20 7), aoe_nAmount = n,
              aoe_message = [], aoe_expireTime = 0\<rparr>"
    using r(3) by (simp add: transfer_out_def demo_key_script_def moved_def)
qed

lemma demo_issue_out:
  assumes "length name \<le> 30"
  shows "\<exists>i. IsAssetScript (txo_scriptPubKey (issue_out name)) = Some (TX_NEW_ASSET, False, i)"
    "AssetFromScript demo_asset_env (txo_scriptPubKey (issue_out name)) = Some (issued name, demo_address)"
    "\<exists>i. IsAssetScript (txo_scriptPubKey (owner_out name)) = Some (TX_NEW_ASSET, True, i)"
    "OwnerAssetFromScript demo_asset_env (txo_scriptPubKey (owner_out name)) = Some (name @ OWNER_TAG, demo_address)"
proof -
  have a: "new_asset_ok (issued name)" "length (na_strName (issued name)) < 40" using assms by (simp_all add: new_asset_ok_def issued_def hash_ok_def COIN_def)
  note i = issue_read_back [OF demo_asset_env(1) _ a(1), of "replicate 20 7"] and ow = owner_read_back [OF demo_asset_env(1) _ a(2), of "replicate 20 7"]
  show "\<exists>i. IsAssetScript (txo_scriptPubKey (issue_out name)) = Some (TX_NEW_ASSET, False, i)"
    "\<exists>i. IsAssetScript (txo_scriptPubKey (owner_out name)) = Some (TX_NEW_ASSET, True, i)"
    using i(1) ow(1) by (simp_all add: issue_out_def owner_out_def demo_key_script_def)
  show "AssetFromScript demo_asset_env (txo_scriptPubKey (issue_out name)) = Some (issued name, demo_address)"
    "OwnerAssetFromScript demo_asset_env (txo_scriptPubKey (owner_out name)) = Some (name @ OWNER_TAG, demo_address)"
    using i(2) ow(2) by (simp_all add: issue_out_def owner_out_def demo_key_script_def demo_asset_env(2)) (simp add: issued_def)
qed


lemma not_null_asset: "\<not> IsNullAsset (append_asset m demo_key_script)" "\<not> IsNullAsset demo_key_script"
  by (simp_all add: IsNullAsset_def IsNullAssetTxDataScript_def IsNullGlobalRestrictionAssetTxDataScript_def IsNullAssetVerifierTxDataScript_def
      append_asset_def demo_key_script_def GetScriptForDestination_def nth_append)

lemma demo_not_null:
  "\<not> IsNullAsset (txo_scriptPubKey (transfer_out name n))" "\<not> IsNullAsset (txo_scriptPubKey (issue_out name))"
  "\<not> IsNullAsset (txo_scriptPubKey (owner_out name))" "\<not> IsNullAsset (txo_scriptPubKey (fee_out v))"
  by (simp_all add: transfer_out_def issue_out_def owner_out_def fee_out_def not_null_asset ConstructTransaction_transfer_def
      ConstructTransaction_new_def ConstructOwnerTransaction_def)

lemma demo_fee_out:
  "IsAssetScript (txo_scriptPubKey (fee_out v)) = None" "Find (txo_scriptPubKey (fee_out v)) OP_HVN_ASSET = 0"
  "pays_to_address demo_asset_env (fee_out v) demo_address"
proof -
  have k: "IsAssetScript demo_key_script = None" "Find demo_key_script OP_HVN_ASSET = 0"
    "ExtractDestination (take 20) demo_key_script = Some (CKeyID (replicate 20 7))" by code_simp+
  then show "IsAssetScript (txo_scriptPubKey (fee_out v)) = None" "Find (txo_scriptPubKey (fee_out v)) OP_HVN_ASSET = 0"
    by (simp_all add: fee_out_def)
  show "pays_to_address demo_asset_env (fee_out v) demo_address"
    using k(3) by (simp add: pays_to_address_def fee_out_def demo_asset_env_def demo_env_def demo_address_def key_address_def IsValidDestination_def)
qed

lemma demo_values [simp]:
  "txo_nValue (fee_out v) = v" "txo_nValue (transfer_out name n) = 0" "txo_nValue (issue_out name) = 0" "txo_nValue (owner_out name) = 0"
  by (simp_all add: fee_out_def transfer_out_def issue_out_def owner_out_def)

lemma issue_kind:
  assumes "length name \<le> 30" "IsAssetNameValid name INVALID = (True, t)"
  shows "CheckIssueDataTx (issue_out name)" "CheckOwnerDataTx (owner_out name)" "\<not> CheckReissueDataTx (issue_out name)"
    "\<not> CheckIssueDataTx (owner_out name)" "\<not> CheckReissueDataTx (owner_out name)" "\<not> CheckOwnerDataTx (issue_out name)"
    "\<not> CheckTransferOwnerTx (owner_out name)" "\<not> CheckTransferOwnerTx (issue_out name)"
    "TransferAssetFromScript demo_asset_env (txo_scriptPubKey (issue_out name)) = None"
    "TransferAssetFromScript demo_asset_env (txo_scriptPubKey (owner_out name)) = None"
    "t \<noteq> UNIQUE \<Longrightarrow> ScriptNewUniqueAsset demo_asset_env (txo_scriptPubKey (issue_out name)) = None"
    "t \<noteq> RESTRICTED \<Longrightarrow> ScriptNewRestrictedAsset demo_asset_env (txo_scriptPubKey (issue_out name)) = None"
  using demo_issue_out [OF assms(1)] assms(2)
  by (auto simp: CheckIssueDataTx_def CheckOwnerDataTx_def CheckReissueDataTx_def CheckTransferOwnerTx_def ScriptNewAsset_def ScriptOwnerAsset_def
      ScriptReissueAsset_def ScriptTransferAsset_def TransferAssetFromScript_def ScriptNewUniqueAsset_def ScriptNewRestrictedAsset_def
      issued_type_def issued_def)

lemma fee_kind:
  "\<not> CheckIssueDataTx (fee_out v)" "\<not> CheckReissueDataTx (fee_out v)" "\<not> CheckOwnerDataTx (fee_out v)" "\<not> CheckTransferOwnerTx (fee_out v)"
  "TransferAssetFromScript demo_asset_env (txo_scriptPubKey (fee_out v)) = None"
  by (simp_all add: demo_fee_out CheckIssueDataTx_def CheckOwnerDataTx_def CheckReissueDataTx_def CheckTransferOwnerTx_def ScriptNewAsset_def ScriptOwnerAsset_def
      ScriptReissueAsset_def ScriptTransferAsset_def TransferAssetFromScript_def)


lemma demo_size:
  assumes "length vout \<le> 10" "\<forall>t \<in> set vout. length (txo_scriptPubKey t) \<le> 200"
  shows "length (SerializeTransaction False (demo_asset_tx vout)) * WITNESS_SCALE_FACTOR \<le> GetMaxBlockWeight"
proof -
  have size: "GetSizeOfCompactSize n \<le> 9" for n by (simp add: GetSizeOfCompactSize_def)
  have bytes: "length (Serialize_bytes v) \<le> length v + 9" for v
    using size [of "length v"] size [of 0] by (simp add: Serialize_bytes_def length_WriteCompactSize)
  have out: "length (ser_CTxOut t) \<le> 217" if "t \<in> set vout" for t
    using bytes [of "txo_scriptPubKey t"] assms(2) that by (fastforce simp: ser_CTxOut_def length_int64)
  have "length (concat (map ser_CTxOut vout)) \<le> 217 * length vout"
    using out by (induction vout) (simp_all, fastforce)
  then have "length (ser_vout vout) \<le> 2179" using size [of "length vout"] assms(1) by (simp add: Serialize_vec_def length_WriteCompactSize)
  moreover have "length (ser_vin (tx_vin demo_tx)) \<le> 100"
    using bytes [of "[0x51]"] size [of 1]
    by (simp add: demo_tx_def Serialize_vec_def length_WriteCompactSize ser_CTxIn_def ser_COutPoint_def ser_uint256_def)
  moreover have "length (SerializeTransaction False (demo_asset_tx vout)) = 8 + length (ser_vin (tx_vin demo_tx)) + length (ser_vout vout)"
    by (simp add: SerializeTransaction_def demo_asset_tx_def)
  ultimately show ?thesis by (simp add: WITNESS_SCALE_FACTOR_def GetMaxBlockWeight_def MAX_BLOCK_WEIGHT_HIP2_def)
qed

lemma demo_script_sizes:
  assumes "length name \<le> 30" "- (2 ^ 63) \<le> n" "n < 2 ^ 63"
  shows "length (txo_scriptPubKey (transfer_out name n)) \<le> 200" "length (txo_scriptPubKey (issue_out name)) \<le> 200"
    "length (txo_scriptPubKey (owner_out name)) \<le> 200" "length (txo_scriptPubKey (reissue_out name)) \<le> 200" "length (txo_scriptPubKey (fee_out v)) \<le> 200"
proof -
  have k: "length demo_key_script = 25" using key_script_length [of "replicate 20 7"] by (simp add: demo_key_script_def)
  have long: "length (append_asset m demo_key_script) \<le> 200" if "length m < 114" for m
    using append_asset_length [OF that, of demo_key_script] k by simp
  have "transfer_ok (moved name n)" using assms by (simp add: transfer_ok_def moved_def hash_ok_def)
  then show "length (txo_scriptPubKey (transfer_out name n)) \<le> 200"
    using long transfer_length by (simp add: transfer_out_def ConstructTransaction_transfer_def)
  have "new_asset_ok (issued name)" using assms by (simp add: new_asset_ok_def issued_def hash_ok_def COIN_def)
  then show "length (txo_scriptPubKey (issue_out name)) \<le> 200"
    using long new_asset_length(2) by (simp add: issue_out_def ConstructTransaction_new_def)
  have "length (Serialize_bytes (name @ OWNER_TAG)) = length (name @ OWNER_TAG) + 1" by (rule length_name) (use assms(1) in \<open>simp add: OWNER_TAG_def str_def\<close>)
  then show "length (txo_scriptPubKey (owner_out name)) \<le> 200"
    using long assms(1) by (simp add: owner_out_def ConstructOwnerTransaction_def issued_def OWNER_TAG_def str_def)
  have "reissue_ok \<lparr>ra_strName = name, ra_nAmount = 5, ra_nUnits = 8, ra_nReissuable = 1, ra_strIPFSHash = []\<rparr>"
    using assms by (simp add: reissue_ok_def hash_ok_def)
  then show "length (txo_scriptPubKey (reissue_out name)) \<le> 200"
    using long reissue_length by (simp add: reissue_out_def ConstructTransaction_reissue_def)
  show "length (txo_scriptPubKey (fee_out v)) \<le> 200" using k by (simp add: fee_out_def)
qed

text \<open>One round of the loops over the outputs.\<close>

lemma out_loop_demo:
  "0 \<le> v \<Longrightarrow> MoneyRange v \<Longrightarrow> MoneyRange (os_nValueOut s + v) \<Longrightarrow>
     out_loop demo_asset_env m b (fee_out v # vout) s = out_loop demo_asset_env m b vout (s\<lparr>os_nValueOut := os_nValueOut s + v\<rparr>)"
  "length name \<le> 30 \<Longrightarrow> MoneyRange (os_nValueOut s) \<Longrightarrow> out_loop demo_asset_env m b (issue_out name # vout) s = out_loop demo_asset_env m b vout s"
  "length name \<le> 30 \<Longrightarrow> MoneyRange (os_nValueOut s) \<Longrightarrow> out_loop demo_asset_env m b (owner_out name # vout) s = out_loop demo_asset_env m b vout s"
  by (simp add: check_value_def MoneyRange_def demo_not_null check_null_asset_def check_asset_def demo_fee_out Let_def)
    (use demo_issue_out(1,3) [of name] in \<open>auto simp: check_value_def MAX_MONEY_def COIN_def demo_not_null check_null_asset_def check_asset_def Let_def\<close>)

lemma out_loop_transfer:
  assumes "length name \<le> 30" "- (2 ^ 63) \<le> n" "n < 2 ^ 63" "IsAssetNameValid name INVALID = (True, t)"
    "IsAssetNameAnOwner name \<longrightarrow> n = OWNER_ASSET_AMOUNT" "t = ROOT \<or> t = OWNER \<or> t = RESTRICTED" "MoneyRange (os_nValueOut s)"
  shows "out_loop demo_asset_env m b (transfer_out name n # vout) s
    = out_loop demo_asset_env m b vout (s\<lparr>os_setAssetTransferNames := name # os_setAssetTransferNames s\<rparr>)"
  using demo_transfer_out [OF assms(1-3)] assms(4-7)
  by (auto simp: check_value_def MAX_MONEY_def COIN_def demo_not_null check_null_asset_def check_asset_def check_transfer_def from_option_def moved_def)

lemma asset_out_loop_demo:
  "asset_out_loop demo_asset_env cache ctx tx m i (fee_out v # vout) s = asset_out_loop demo_asset_env cache ctx tx m (Suc i) vout s"
  "length name \<le> 30 \<Longrightarrow> asset_out_loop demo_asset_env cache ctx tx m i (issue_out name # vout) s = asset_out_loop demo_asset_env cache ctx tx m (Suc i) vout s"
  "length name \<le> 30 \<Longrightarrow> asset_out_loop demo_asset_env cache ctx tx m i (owner_out name # vout) s = asset_out_loop demo_asset_env cache ctx tx m (Suc i) vout s"
  by (simp add: check_null_ctx_def demo_not_null demo_fee_out Let_def)
    (use demo_issue_out(1,3) [of name] in \<open>auto simp: check_null_ctx_def demo_not_null demo_asset_env Let_def\<close>)

lemma asset_out_loop_transfer:
  assumes "length name \<le> 30" "- (2 ^ 63) \<le> n" "n < 2 ^ 63" "ContextualCheckTransferAsset demo_asset_env cache (moved name n) demo_address = None"
    "check_transfer_units cache (cc_fRunningUnitTests ctx) (moved name n) = Accept ()"
  shows "asset_out_loop demo_asset_env cache ctx tx m i (transfer_out name n # vout) s
    = asset_out_loop demo_asset_env cache ctx tx m (Suc i) vout (s\<lparr>ao_totalOutputs := add_amount (ao_totalOutputs s) name n\<rparr>)"
proof -
  have "transfer_message demo_asset_env ctx tx m (moved name n) demo_address i = []" by (simp add: transfer_message_def moved_def)
  then show ?thesis
    using demo_transfer_out [OF assms(1-3)] assms(4,5)
    by (auto simp: check_null_ctx_def demo_not_null demo_asset_env Let_def from_option_def dos100_def moved_def)
qed

text \<open>The names.\<close>

lemma demo_names:
  "IsAssetNameValid (str ''GOLD'') INVALID = (True, ROOT)" "IsAssetNameValid (str ''GOLD!'') INVALID = (True, OWNER)"
  "IsAssetNameValid (str ''$GOLD'') INVALID = (True, RESTRICTED)" "IsAssetNameValid (str ''GOLD/BAR'') INVALID = (True, SUB)"
  "IsAssetNameValid (str ''GOLD~NEWS'') INVALID = (True, MSGCHANNEL)"
  by code_simp+

lemma demo_parents: "GetParentName (str ''GOLD/BAR'') = str ''GOLD''" "GetParentName (str ''GOLD~NEWS'') = str ''GOLD''"
proof -
  have "before_last SUB_NAME_DELIMITER (str ''GOLD/BAR'') = str ''GOLD''" "before_last MSGCHANNEL_TAG_DELIMITER (str ''GOLD~NEWS'') = str ''GOLD''"
    by code_simp+
  then show "GetParentName (str ''GOLD/BAR'') = str ''GOLD''" "GetParentName (str ''GOLD~NEWS'') = str ''GOLD''"
    by (simp_all add: GetParentName_def demo_names)
qed

lemma demo_owners:
  "\<not> IsAssetNameAnOwner (str ''GOLD'')" "IsAssetNameAnOwner (str ''GOLD!'')" "\<not> IsAssetNameAnOwner (str ''$GOLD'')"
  "\<not> IsAssetNameAnOwner (str ''GOLD/BAR'')" "\<not> IsAssetNameAnOwner (str ''GOLD~NEWS'')"
  "\<not> IsAssetNameAnRestricted (str ''GOLD'')" "\<not> IsAssetNameAnRestricted (str ''GOLD!'')"
proof -
  have "\<not> regex_match (str ''GOLD'') OWNER_INDICATOR" "regex_match (str ''GOLD!'') OWNER_INDICATOR" "\<not> regex_match (str ''$GOLD'') OWNER_INDICATOR"
    "\<not> regex_match (str ''GOLD/BAR'') OWNER_INDICATOR" "\<not> regex_match (str ''GOLD~NEWS'') OWNER_INDICATOR"
    "\<not> regex_match (str ''GOLD'') RESTRICTED_INDICATOR" "\<not> regex_match (str ''GOLD!'') RESTRICTED_INDICATOR"
    by code_simp+
  then show "\<not> IsAssetNameAnOwner (str ''GOLD'')" "IsAssetNameAnOwner (str ''GOLD!'')" "\<not> IsAssetNameAnOwner (str ''$GOLD'')"
    "\<not> IsAssetNameAnOwner (str ''GOLD/BAR'')" "\<not> IsAssetNameAnOwner (str ''GOLD~NEWS'')"
    "\<not> IsAssetNameAnRestricted (str ''GOLD'')" "\<not> IsAssetNameAnRestricted (str ''GOLD!'')"
    by (simp_all add: IsAssetNameAnOwner_def IsAssetNameAnRestricted_def asset_name_valid_def demo_names)
qed

lemma demo_lengths: "length (str ''GOLD'') \<le> 30" "length (str ''GOLD!'') \<le> 30" "length (str ''$GOLD'') \<le> 30" "length (str ''GOLD/BAR'') \<le> 30"
  "length (str ''GOLD~NEWS'') \<le> 30"
  by (simp_all add: str_def)

text \<open>An issue of a name below \<open>GOLD\<close>, with and without moving the owner token of \<open>GOLD\<close>.\<close>

definition issue_tx :: "CTxOut list \<Rightarrow> bytes \<Rightarrow> CTransaction" where
  "issue_tx ts name = demo_asset_tx (fee_out (100 * COIN) # ts @ [owner_out name, issue_out name])"

lemma owner_moved:
  "TransferAssetFromScript demo_asset_env (txo_scriptPubKey (transfer_out (str ''GOLD!'') COIN)) = Some (moved (str ''GOLD!'') COIN, demo_address)"
  "\<not> CheckIssueDataTx (transfer_out (str ''GOLD!'') COIN)" "\<not> CheckReissueDataTx (transfer_out (str ''GOLD!'') COIN)"
  "\<not> CheckOwnerDataTx (transfer_out (str ''GOLD!'') COIN)"
  using demo_transfer_out [OF demo_lengths(2), of COIN]
  by (auto simp: COIN_def CheckIssueDataTx_def CheckReissueDataTx_def CheckOwnerDataTx_def ScriptNewAsset_def ScriptReissueAsset_def ScriptOwnerAsset_def)

lemma issue_tx_kind:
  assumes name: "length name \<le> 30" "4 \<le> length name" "IsAssetNameValid name INVALID = (True, t)" "\<not> IsAssetNameAnOwner name"
    and t: "t = MSGCHANNEL \<or> t = SUB" "GetParentName name = str ''GOLD''"
    and ts: "ts = [] \<and> t = MSGCHANNEL \<or> ts = [transfer_out (str ''GOLD!'') COIN]"
  shows "tx_IsNewAsset demo_asset_env (issue_tx ts name)" "check_kind demo_asset_env (issue_tx ts name) = Accept (False, False)"
    "last (tx_vout (issue_tx ts name)) = issue_out name" "CheckNewAsset (issued name) = None"
proof -
  note k = issue_kind [OF name(1,3)] demo_issue_out(2,4) [OF name(1)] fee_kind owner_moved
  show last: "last (tx_vout (issue_tx ts name)) = issue_out name" by (simp add: issue_tx_def demo_asset_tx_def)
  show new: "tx_IsNewAsset demo_asset_env (issue_tx ts name)"
    using k t ts by (auto simp: tx_IsNewAsset_def issue_tx_def demo_asset_tx_def Let_def)
  have own: "str ''GOLD'' @ OWNER_TAG = str ''GOLD!''" by (simp add: str_def OWNER_TAG_def)
  have "CheckIssueBurnTx demo_asset_env (fee_out (100 * COIN)) t 1"
    using demo_fee_out(3) t by (auto simp: CheckIssueBurnTx_def GetBurnAmount_def GetBurnAddress_def demo_asset_env_def main_burns_def)
  then have burn: "has_issue_burn demo_asset_env (tx_vout (issue_tx ts name)) t 1" by (simp add: has_issue_burn_def issue_tx_def demo_asset_tx_def)
  have moved: "t = SUB \<longrightarrow> has_transfer demo_asset_env (tx_vout (issue_tx ts name)) (str ''GOLD!'')"
    using ts k by (auto simp: has_transfer_def issue_tx_def demo_asset_tx_def moved_def)
  have nth: "tx_vout (issue_tx ts name) ! (length (tx_vout (issue_tx ts name)) - 1) = issue_out name"
    "tx_vout (issue_tx ts name) ! (length (tx_vout (issue_tx ts name)) - 2) = owner_out name" "3 \<le> length (tx_vout (issue_tx ts name))"
    using ts by (auto simp: issue_tx_def demo_asset_tx_def)
  have counts: "GetTxOutAssetTypes (tx_vout (issue_tx ts name)) (0, 0, 0, 0) = (1, 0, length (filter CheckTransferOwnerTx ts), 1)"
    using ts k by (auto simp: GetTxOutAssetTypes_counts issue_tx_def demo_asset_tx_def)
  have "VerifyNewAsset demo_asset_env (issue_tx ts name) = None"
    using nth k(1,2) k(13,14) name(3) t burn moved counts unfolding VerifyNewAsset_def Let_def nth own
    by (auto simp: issued_def own)
  moreover have "AssetFromTransaction demo_asset_env (issue_tx ts name) = Some (issued name, demo_address)"
    using new k last by (simp add: AssetFromTransaction_def)
  moreover have "IsNewOwnerTxValid demo_asset_env (issue_tx ts name) name demo_address = None"
    using new k nth(2) name(2) by (simp add: IsNewOwnerTxValid_def OwnerFromTransaction_def OWNER_LENGTH_def MIN_ASSET_LENGTH_def OWNER_TAG_def str_def)
  moreover show check: "CheckNewAsset (issued name) = None"
    using name t by (auto simp: CheckNewAsset_def issued_def UNIQUE_ASSET_UNITS_def UNIQUE_ASSET_AMOUNT_def CheckAmountWithUnits_def COIN_def MAX_MONEY_def)
  ultimately show "check_kind demo_asset_env (issue_tx ts name) = Accept (False, False)"
    using new by (simp add: check_kind_def issued_def)
qed

lemma demo_tx_vin: "tx_vin (demo_asset_tx vout) = tx_vin demo_tx" "tx_vout (demo_asset_tx vout) = vout" "\<not> IsCoinBase (demo_asset_tx vout)"
  "tx_vin demo_tx = [\<lparr>txin_prevout = \<lparr>outp_hash = replicate 32 9, outp_n = 0\<rparr>, txin_scriptSig = [0x51],
                 txin_nSequence = 0xfffffffe, txin_scriptWitness = [[1], [2]]\<rparr>]"
  by (simp_all add: demo_asset_tx_def demo_tx_def IsCoinBase_def COutPoint_IsNull_def)

lemma CheckTransaction_acceptI:
  assumes "tx_vin tx \<noteq> []" "tx_vout tx \<noteq> []" "length (SerializeTransaction False tx) * WITNESS_SCALE_FACTOR \<le> GetMaxBlockWeight"
    "out_loop env m b (tx_vout tx) os_init = Accept s"
    "os_mapNullDataTxCount s = []" "os_setNullGlobalAssetChanges s = []" "\<not> os_fContainsNullAssetVerifierTx s" "os_nCountAddTagOuts s = 0"
    "distinct (map txin_prevout (tx_vin tx))" "check_inputs_form env tx = Accept ()" "check_kind env tx = Accept (f, False)"
  shows "CheckTransaction env tx d m b = Accept ()"
  using assms by (simp add: CheckTransaction_def del: obind_Accept)

lemma issue_tx_checked:
  assumes name: "length name \<le> 30" "4 \<le> length name" "IsAssetNameValid name INVALID = (True, t)" "\<not> IsAssetNameAnOwner name"
    and t: "t = MSGCHANNEL \<or> t = SUB" "GetParentName name = str ''GOLD''"
    and ts: "ts = [] \<and> t = MSGCHANNEL \<or> ts = [transfer_out (str ''GOLD!'') COIN]"
  shows "CheckTransaction demo_asset_env (issue_tx ts name) True False True = Accept ()"
proof -
  let ?vout = "fee_out (100 * COIN) # ts @ [owner_out name, issue_out name]"
  have big: "- (2 ^ 63) \<le> COIN" "COIN < 2 ^ 63" by (simp_all add: COIN_def)
  have "\<forall>t \<in> set ?vout. length (txo_scriptPubKey t) \<le> 200"
    using ts demo_script_sizes [OF name(1) big] demo_script_sizes(1) [OF demo_lengths(2) big] by auto
  then have size: "length (SerializeTransaction False (issue_tx ts name)) * WITNESS_SCALE_FACTOR \<le> GetMaxBlockWeight"
    unfolding issue_tx_def by (intro demo_size) (use ts in auto)
  have money: "MoneyRange (100 * COIN)" by (simp add: MoneyRange_def MAX_MONEY_def COIN_def)
  have vout: "tx_vout (issue_tx ts name) = ?vout" "tx_vin (issue_tx ts name) = tx_vin demo_tx" by (simp_all add: issue_tx_def demo_tx_vin)
  have loop: "\<exists>s'. out_loop demo_asset_env False True ?vout s = Accept s' \<and> os_mapNullDataTxCount s' = [] \<and> os_setNullGlobalAssetChanges s' = []
      \<and> \<not> os_fContainsNullAssetVerifierTx s' \<and> os_nCountAddTagOuts s' = 0"
    if "os_nValueOut s = 0" "os_mapNullDataTxCount s = []" "os_setNullGlobalAssetChanges s = []" "\<not> os_fContainsNullAssetVerifierTx s"
      "os_nCountAddTagOuts s = 0" for s
    using ts that money name(1) out_loop_transfer [OF demo_lengths(2) big demo_names(2)]
    by (auto simp: out_loop_demo OWNER_ASSET_AMOUNT_def COIN_def simp del: out_loop.simps(2))
  obtain s' where s': "out_loop demo_asset_env False True (tx_vout (issue_tx ts name)) os_init = Accept s'"
    "os_mapNullDataTxCount s' = []" "os_setNullGlobalAssetChanges s' = []" "\<not> os_fContainsNullAssetVerifierTx s'" "os_nCountAddTagOuts s' = 0"
    unfolding vout using loop [of os_init] by (auto simp: os_init_def)
  show ?thesis
    by (rule CheckTransaction_acceptI [OF _ _ size s' _ _ issue_tx_kind(2) [OF assms]])
      (simp_all add: vout demo_tx_vin(4) check_inputs_form_def, simp_all add: issue_tx_def demo_tx_vin COutPoint_IsNull_def)
qed

lemma demo_view [simp]:
  "CheckForAddressRestriction demo_asset_view n a = False" "CheckForGlobalRestriction demo_asset_view n = False"
  "CheckIfAssetExists demo_asset_view n \<longleftrightarrow> n \<in> {str ''GOLD'', str ''$GOLD''}"
  "GetAssetVerifierStringIfExists demo_asset_view n b = (if n = str ''$GOLD'' then Some (str ''true'') else None)"
  by (simp_all add: demo_asset_view_def)

lemma demo_ctx [simp]: "\<not> cc_fRunningUnitTests demo_ctx" "\<not> cc_fCheckMempool demo_ctx" "cc_mapReissuedAssets demo_ctx = Map.empty"
  by (simp_all add: demo_ctx_def)

lemma owner_transfer_ok:
  "ContextualCheckTransferAsset demo_asset_env demo_asset_view (moved (str ''GOLD!'') COIN) demo_address = None"
  "check_transfer_units demo_asset_view False (moved (str ''GOLD!'') COIN) = Accept ()"
  by (simp_all add: ContextualCheckTransferAsset_def check_transfer_units_def moved_def demo_names demo_owners demo_asset_env COIN_def OWNER_ASSET_AMOUNT_def)

lemma CheckTxAssets_acceptI:
  assumes "HaveInputs_view inputs tx" "asset_in_loop env cache inputs (tx_vin tx) [] Map.empty = Accept (t, m)"
    "asset_out_loop env cache ctx tx m 0 (tx_vout tx) \<lparr>ao_totalOutputs = [], ao_vPairReissueAssets = vpairs, ao_setMessages = []\<rparr> = Accept s"
    "check_kind_ctx env cache ctx tx = Accept ()" "list_all (\<lambda>p. map_of t (fst p) = Some (snd p)) (ao_totalOutputs s)"
    "length (ao_totalOutputs s) = length t"
  shows "CheckTxAssets env tx inputs cache ctx vpairs = Accept (ao_vPairReissueAssets s, ao_setMessages s)"
proof -
  have "totals_loop t (sort_key fst (ao_totalOutputs s)) = Accept ()" using assms(5) by (simp add: totals_loop_Accept list_all_iff)
  then show ?thesis using assms(1-4,6) by (simp add: CheckTxAssets_def del: obind_Accept)
qed

lemma issue_tx_assets:
  assumes name: "length name \<le> 30" "4 \<le> length name" "IsAssetNameValid name INVALID = (True, t)" "\<not> IsAssetNameAnOwner name"
    and t: "t = MSGCHANNEL \<or> t = SUB" "GetParentName name = str ''GOLD''"
    and ts: "ts = [] \<and> t = MSGCHANNEL \<and> inputs = coin_of (fee_out v) \<or> ts = [transfer_out (str ''GOLD!'') COIN] \<and> inputs = coin_of (transfer_out (str ''GOLD!'') COIN)"
  shows "CheckTxAssets demo_asset_env (issue_tx ts name) inputs demo_asset_view demo_ctx [] = Accept ([], [])"
proof -
  have big: "- (2 ^ 63) \<le> COIN" "COIN < 2 ^ 63" by (simp_all add: COIN_def)
  have ts': "ts = [] \<and> t = MSGCHANNEL \<or> ts = [transfer_out (str ''GOLD!'') COIN]" using ts by auto
  note k = issue_tx_kind [OF name t ts']
  have "name \<noteq> str ''GOLD'' \<and> name \<noteq> str ''$GOLD''" using name(3) t(1) demo_names(1,3) by auto
  then have kind: "check_kind_ctx demo_asset_env demo_asset_view demo_ctx (issue_tx ts name) = Accept ()"
    using k(1,3,4) demo_issue_out(2) [OF name(1)]
    by (auto simp: check_kind_ctx_def Let_def ContextualCheckNewAsset_def demo_asset_env issued_def)
  obtain i where i: "IsAssetScript (txo_scriptPubKey (transfer_out (str ''GOLD!'') COIN)) = Some (TX_TRANSFER_ASSET, False, i)"
    using demo_transfer_out(1) [OF demo_lengths(2) big] by blast
  have ins: "\<exists>m. asset_in_loop demo_asset_env demo_asset_view inputs (tx_vin demo_tx) [] Map.empty
      = Accept (map (\<lambda>_. (str ''GOLD!'', COIN)) ts, m)"
    using ts demo_transfer_out(3) [OF demo_lengths(2) big] i
    by (auto simp: demo_tx_vin(4) coin_of_def demo_fee_out add_amount_def from_option_def)
  have outs: "asset_out_loop demo_asset_env demo_asset_view demo_ctx (issue_tx ts name) m 0 (tx_vout (issue_tx ts name))
        \<lparr>ao_totalOutputs = [], ao_vPairReissueAssets = [], ao_setMessages = []\<rparr>
      = Accept \<lparr>ao_totalOutputs = map (\<lambda>_. (str ''GOLD!'', COIN)) ts, ao_vPairReissueAssets = [], ao_setMessages = []\<rparr>" for m
    using ts asset_out_loop_transfer [OF demo_lengths(2) big owner_transfer_ok(1), of demo_ctx] owner_transfer_ok(2)
    by (auto simp: issue_tx_def demo_tx_vin asset_out_loop_demo name(1) add_amount_def simp del: asset_out_loop.simps(2))
  have "HaveInputs_view inputs (issue_tx ts name)" using ts by (auto simp: HaveInputs_view_def issue_tx_def demo_tx_vin coin_of_def)
  moreover have "tx_vin (issue_tx ts name) = tx_vin demo_tx" by (simp add: issue_tx_def demo_tx_vin)
  moreover obtain m where "asset_in_loop demo_asset_env demo_asset_view inputs (tx_vin demo_tx) [] Map.empty
      = Accept (map (\<lambda>_. (str ''GOLD!'', COIN)) ts, m)" using ins by blast
  ultimately show ?thesis using CheckTxAssets_acceptI [OF _ _ outs kind] ts by auto
qed

text \<open>Transfers of one asset.\<close>

definition transfer_tx :: "bytes \<Rightarrow> int list \<Rightarrow> CTransaction" where
  "transfer_tx name ns = demo_asset_tx (map (transfer_out name) ns)"

lemma transfer_out_kind:
  assumes "length name \<le> 30" "- (2 ^ 63) \<le> n" "n < 2 ^ 63"
  shows "\<not> CheckIssueDataTx (transfer_out name n)" "\<not> CheckReissueDataTx (transfer_out name n)"
  using demo_transfer_out(1) [OF assms]
  by (auto simp: CheckIssueDataTx_def CheckReissueDataTx_def ScriptNewAsset_def ScriptReissueAsset_def)

lemma transfer_tx_kinds:
  assumes "length name \<le> 30" "ns \<noteq> []" "\<forall>n \<in> set ns. - (2 ^ 63) \<le> n \<and> n < 2 ^ 63"
  shows "check_kind demo_asset_env (transfer_tx name ns) = Accept (False, False)"
    "check_kind_ctx demo_asset_env cache ctx (transfer_tx name ns) = Accept ()"
proof -
  let ?vout = "map (transfer_out name) ns"
  have last: "last (tx_vout (transfer_tx name ns)) = transfer_out name (last ns)" "tx_vout (transfer_tx name ns) = ?vout"
    using assms(2) by (simp_all add: transfer_tx_def demo_tx_vin last_map)
  have k: "\<not> CheckIssueDataTx (transfer_out name (last ns))" "\<not> CheckReissueDataTx (transfer_out name (last ns))"
    using transfer_out_kind [OF assms(1), of "last ns"] assms(2,3) by simp_all
  have no: "\<not> tx_IsNewAsset demo_asset_env (transfer_tx name ns)"
  proof
    assume "tx_IsNewAsset demo_asset_env (transfer_tx name ns)"
    then have "CheckIssueDataTx (tx_vout (transfer_tx name ns) ! (length (tx_vout (transfer_tx name ns)) - 1))"
      by (simp add: tx_IsNewAsset_def Let_def)
    then show False using k(1) last assms(2) by (simp add: last_conv_nth)
  qed
  have kinds: "\<not> tx_IsReissueAsset (transfer_tx name ns)" "\<not> tx_IsNewUniqueAsset demo_asset_env (transfer_tx name ns)"
    "\<not> tx_IsNewMsgChannelAsset demo_asset_env (transfer_tx name ns)" "\<not> tx_IsNewQualifierAsset demo_asset_env (transfer_tx name ns)"
    "\<not> tx_IsNewRestrictedAsset demo_asset_env (transfer_tx name ns)"
    using k by (simp_all add: last(1) tx_IsReissueAsset_def tx_IsNewUniqueAsset_def tx_IsNewMsgChannelAsset_def tx_IsNewQualifierAsset_def tx_IsNewRestrictedAsset_def)
  have "plain_outs_loop ?vout = Accept ()" "plain_outs_ctx demo_asset_env ?vout = Accept ()"
    using assms(3) demo_transfer_out(1) [OF assms(1)] by (induction ns) (fastforce simp: Let_def)+
  then show "check_kind demo_asset_env (transfer_tx name ns) = Accept (False, False)"
    "check_kind_ctx demo_asset_env cache ctx (transfer_tx name ns) = Accept ()"
    using no kinds last(2) by (simp_all add: check_kind_def check_kind_ctx_def Let_def del: obind_Accept)
qed

lemma transfers_out_loop:
  assumes "length name \<le> 30" "\<And>n. n \<in> set ns \<Longrightarrow> - (2 ^ 63) \<le> n \<and> n < 2 ^ 63"
    "\<And>n. n \<in> set ns \<Longrightarrow> ContextualCheckTransferAsset demo_asset_env cache (moved name n) demo_address = None"
    "\<And>n. n \<in> set ns \<Longrightarrow> check_transfer_units cache (cc_fRunningUnitTests ctx) (moved name n) = Accept ()"
  shows "asset_out_loop demo_asset_env cache ctx tx m i (map (transfer_out name) ns) s
    = Accept (s\<lparr>ao_totalOutputs := tally (ao_totalOutputs s) (map (Pair name) ns)\<rparr>)"
  using assms(2-4)
proof (induction ns arbitrary: i s)
  case (Cons n ns)
  have "asset_out_loop demo_asset_env cache ctx tx m i (transfer_out name n # map (transfer_out name) ns) s
    = asset_out_loop demo_asset_env cache ctx tx m (Suc i) (map (transfer_out name) ns) (s\<lparr>ao_totalOutputs := add_amount (ao_totalOutputs s) name n\<rparr>)"
    by (rule asset_out_loop_transfer [OF assms(1)]) (use Cons.prems [of n] in simp_all)
  then show ?case using Cons by (simp add: tally_def del: asset_out_loop.simps(2))
qed (simp add: tally_def)

lemma transfer_tx_assets:
  assumes name: "length name \<le> 30" "IsAssetNameValid name INVALID = (True, t)" "t = ROOT \<or> t = RESTRICTED \<and> name = str ''$GOLD''"
      "\<not> IsAssetNameAnOwner name"
    and meta: "GetAssetMetaDataIfExists demo_asset_view name = Some a" "na_strName a = name" "na_units a = 8"
    and ns: "ns \<noteq> []" "\<And>n. n \<in> set ns \<Longrightarrow> 0 < n \<and> n < 2 ^ 63" "0 < k" "k < 2 ^ 63" "tally [] (map (Pair name) ns) = [(name, k)]"
  shows "CheckTxAssets demo_asset_env (transfer_tx name ns) (coin_of (transfer_out name k)) demo_asset_view demo_ctx [] = Accept ([], [])"
proof -
  have vout: "tx_vout (transfer_tx name ns) = map (transfer_out name) ns" "tx_vin (transfer_tx name ns) = tx_vin demo_tx"
    by (simp_all add: transfer_tx_def demo_tx_vin)
  have big: "- (2 ^ 63) \<le> n" "n < 2 ^ 63" if "n \<in> set ns" for n using ns(2) [OF that] by auto
  have v: "ContextualCheckVerifierString demo_asset_view (str ''true'') demo_address = None"
    by (simp add: ContextualCheckVerifierString_def)
  have ok: "ContextualCheckTransferAsset demo_asset_env demo_asset_view (moved name n) demo_address = None"
    "check_transfer_units demo_asset_view False (moved name n) = Accept ()" if "n \<in> set ns" for n
    using ns(2) [OF that] name meta v
    by (auto simp: ContextualCheckTransferAsset_def check_transfer_units_def moved_def demo_asset_env ContextualCheckAgainstVerifyString_def CheckAmountWithUnits_def)
  have out: "asset_out_loop demo_asset_env demo_asset_view demo_ctx (transfer_tx name ns) m 0 (tx_vout (transfer_tx name ns))
      \<lparr>ao_totalOutputs = [], ao_vPairReissueAssets = [], ao_setMessages = []\<rparr>
    = Accept \<lparr>ao_totalOutputs = [(name, k)], ao_vPairReissueAssets = [], ao_setMessages = []\<rparr>" for m
    unfolding vout using transfers_out_loop [OF name(1), of ns demo_asset_view demo_ctx] big ok ns(5) by simp
  have kr: "- (2 ^ 63) \<le> k" "k < 2 ^ 63" using ns(3,4) by auto
  obtain i where i: "IsAssetScript (txo_scriptPubKey (transfer_out name k)) = Some (TX_TRANSFER_ASSET, False, i)"
    using demo_transfer_out(1) [OF name(1) kr] by blast
  have "\<exists>m. asset_in_loop demo_asset_env demo_asset_view (coin_of (transfer_out name k)) (tx_vin (transfer_tx name ns)) [] Map.empty
      = Accept ([(name, k)], m)"
    using demo_transfer_out(3) [OF name(1) kr] i by (auto simp: vout demo_tx_vin(4) coin_of_def add_amount_def from_option_def)
  then obtain m where ins: "asset_in_loop demo_asset_env demo_asset_view (coin_of (transfer_out name k)) (tx_vin (transfer_tx name ns)) [] Map.empty
      = Accept ([(name, k)], m)" by blast
  have "HaveInputs_view (coin_of (transfer_out name k)) (transfer_tx name ns)" by (simp add: HaveInputs_view_def vout demo_tx_vin(4) coin_of_def)
  from CheckTxAssets_acceptI [OF this ins out transfer_tx_kinds(2) [OF name(1) ns(1)]] big show ?thesis by simp
qed

lemma transfer_tx_checked:
  assumes name: "length name \<le> 30" "IsAssetNameValid name INVALID = (True, ROOT)" "\<not> IsAssetNameAnOwner name"
    and ns: "ns \<noteq> []" "length ns \<le> 10" "\<And>n. n \<in> set ns \<Longrightarrow> - (2 ^ 63) \<le> n \<and> n < 2 ^ 63"
  shows "CheckTransaction demo_asset_env (transfer_tx name ns) d False True = Accept ()"
proof -
  have vout: "tx_vout (transfer_tx name ns) = map (transfer_out name) ns" "tx_vin (transfer_tx name ns) = tx_vin demo_tx"
    by (simp_all add: transfer_tx_def demo_tx_vin)
  have loop: "out_loop demo_asset_env False True (map (transfer_out name) ns') s
      = Accept (s\<lparr>os_setAssetTransferNames := map (\<lambda>_. name) ns' @ os_setAssetTransferNames s\<rparr>)"
    if "set ns' \<subseteq> set ns" "os_nValueOut s = 0" for ns' s
    using that
  proof (induction ns' arbitrary: s)
    case (Cons n ns')
    have m: "MoneyRange (os_nValueOut s)" using Cons.prems by (simp add: MoneyRange_def MAX_MONEY_def COIN_def)
    have "out_loop demo_asset_env False True (transfer_out name n # map (transfer_out name) ns') s
        = out_loop demo_asset_env False True (map (transfer_out name) ns') (s\<lparr>os_setAssetTransferNames := name # os_setAssetTransferNames s\<rparr>)"
      by (rule out_loop_transfer [OF name(1) _ _ name(2) _ _ m]) (use Cons.prems ns(3) [of n] name(3) in auto)
    moreover have "map (\<lambda>_. name) ns' @ name # os_setAssetTransferNames s = name # map (\<lambda>_. name) ns' @ os_setAssetTransferNames s"
      by (induction ns') simp_all
    ultimately show ?case using Cons by (simp del: out_loop.simps(2))
  qed simp
  have "length (SerializeTransaction False (transfer_tx name ns)) * WITNESS_SCALE_FACTOR \<le> GetMaxBlockWeight"
    unfolding transfer_tx_def by (rule demo_size) (use ns(2,3) demo_script_sizes(1) [OF name(1)] in auto)
  from CheckTransaction_acceptI [OF _ _ this, of demo_asset_env False True] show ?thesis
    using loop [of ns os_init] transfer_tx_kinds(1) [OF name(1) ns(1)] ns(1,3)
    by (simp add: vout demo_tx_vin(4) os_init_def check_inputs_form_def) (simp add: transfer_tx_def demo_tx_vin COutPoint_IsNull_def)
qed

text \<open>A reissue.\<close>

definition reissue_tx :: CTransaction where
  "reissue_tx = demo_asset_tx [fee_out (100 * COIN), transfer_out (str ''GOLD!'') COIN, reissue_out (str ''GOLD'')]"

definition reissued :: CReissueAsset where
  "reissued = \<lparr>ra_strName = str ''GOLD'', ra_nAmount = 5, ra_nUnits = 8, ra_nReissuable = 1, ra_strIPFSHash = []\<rparr>"

lemma demo_reissue_out:
  "\<exists>i. IsAssetScript (txo_scriptPubKey (reissue_out (str ''GOLD''))) = Some (TX_REISSUE_ASSET, False, i)"
  "ReissueAssetFromScript demo_asset_env (txo_scriptPubKey (reissue_out (str ''GOLD''))) = Some (reissued, demo_address)"
  "\<not> IsNullAsset (txo_scriptPubKey (reissue_out (str ''GOLD'')))" "txo_nValue (reissue_out (str ''GOLD'')) = 0"
proof -
  have r: "reissue_ok reissued" by (simp add: reissue_ok_def reissued_def hash_ok_def str_def)
  note b = reissue_read_back [OF demo_asset_env(1) _ r, of "replicate 20 7"]
  show "\<exists>i. IsAssetScript (txo_scriptPubKey (reissue_out (str ''GOLD''))) = Some (TX_REISSUE_ASSET, False, i)"
    "ReissueAssetFromScript demo_asset_env (txo_scriptPubKey (reissue_out (str ''GOLD''))) = Some (reissued, demo_address)"
    using b by (simp_all add: reissue_out_def demo_key_script_def reissued_def demo_asset_env(2))
  show "\<not> IsNullAsset (txo_scriptPubKey (reissue_out (str ''GOLD'')))" "txo_nValue (reissue_out (str ''GOLD'')) = 0"
    by (simp_all add: reissue_out_def ConstructTransaction_reissue_def not_null_asset)
qed

lemma reissue_kind:
  "CheckReissueDataTx (reissue_out (str ''GOLD''))" "\<not> CheckIssueDataTx (reissue_out (str ''GOLD''))" "\<not> CheckOwnerDataTx (reissue_out (str ''GOLD''))"
  "TransferAssetFromScript demo_asset_env (txo_scriptPubKey (reissue_out (str ''GOLD''))) = None"
  using demo_reissue_out(1)
  by (auto simp: CheckIssueDataTx_def CheckReissueDataTx_def CheckOwnerDataTx_def ScriptNewAsset_def ScriptReissueAsset_def ScriptOwnerAsset_def
      TransferAssetFromScript_def ScriptTransferAsset_def)

lemma reissue_tx_kinds:
  "check_kind demo_asset_env reissue_tx = Accept (False, False)" "check_kind_ctx demo_asset_env demo_asset_view demo_ctx reissue_tx = Accept ()"
proof -
  note k = reissue_kind demo_reissue_out(2) owner_moved fee_kind
  have vout: "tx_vout reissue_tx = [fee_out (100 * COIN), transfer_out (str ''GOLD!'') COIN, reissue_out (str ''GOLD'')]"
    by (simp add: reissue_tx_def demo_tx_vin)
  have kind: "\<not> tx_IsNewAsset demo_asset_env reissue_tx" "tx_IsReissueAsset reissue_tx"
    using k by (simp_all add: tx_IsNewAsset_def tx_IsReissueAsset_def vout Let_def)
  have own: "str ''GOLD'' @ OWNER_TAG = str ''GOLD!''" by (simp add: str_def OWNER_TAG_def)
  have "CheckReissueBurnTx demo_asset_env (fee_out (100 * COIN))"
    using demo_fee_out(3) by (simp add: CheckReissueBurnTx_def demo_asset_env_def main_burns_def)
  then have v: "VerifyReissueAsset demo_asset_env reissue_tx = None"
    using k demo_names(1) own by (simp add: VerifyReissueAsset_def vout Let_def has_transfer_def GetTxOutAssetTypes_counts moved_def reissued_def)
  have f: "ReissueAssetFromTransaction demo_asset_env reissue_tx = Some (reissued, demo_address)"
    using kind k by (simp add: ReissueAssetFromTransaction_def vout)
  have c: "CheckReissueAsset demo_asset_env reissued = None"
    by (simp add: CheckReissueAsset_def reissued_def MAX_MONEY_def COIN_def MAX_UNIT_def demo_asset_env_def demo_env_def)
  show "check_kind demo_asset_env reissue_tx = Accept (False, False)"
    using kind v f c demo_names(1) by (simp add: check_kind_def reissued_def)
  have ng: "str ''GOLD'' \<noteq> str ''$GOLD''" by (simp add: str_def)
  have "ContextualCheckReissueAsset demo_asset_env demo_asset_view reissued reissue_tx = None"
    unfolding ContextualCheckReissueAsset_def f option.case prod.case c
    using demo_owners(6) ng by (simp add: demo_asset_view_def reissued_def issued_def MAX_MONEY_def COIN_def CheckAmountWithUnits_def)
  then show "check_kind_ctx demo_asset_env demo_asset_view demo_ctx reissue_tx = Accept ()"
    using kind k by (simp add: check_kind_ctx_def Let_def vout)
qed

lemma reissue_tx_checked: "CheckTransaction demo_asset_env reissue_tx True False True = Accept ()"
proof -
  have big: "- (2 ^ 63) \<le> COIN" "COIN < 2 ^ 63" by (simp_all add: COIN_def)
  have vout: "tx_vout reissue_tx = [fee_out (100 * COIN), transfer_out (str ''GOLD!'') COIN, reissue_out (str ''GOLD'')]" "tx_vin reissue_tx = tx_vin demo_tx"
    by (simp_all add: reissue_tx_def demo_tx_vin)
  have size: "length (SerializeTransaction False reissue_tx) * WITNESS_SCALE_FACTOR \<le> GetMaxBlockWeight"
    unfolding reissue_tx_def by (rule demo_size) (use demo_script_sizes [OF demo_lengths(2) big] demo_script_sizes(4) [OF demo_lengths(1) big] in auto)
  have money: "MoneyRange (100 * COIN)" by (simp add: MoneyRange_def MAX_MONEY_def COIN_def)
  have pos: "0 \<le> COIN" by (simp add: COIN_def)
  have re: "out_loop demo_asset_env False True [reissue_out (str ''GOLD'')] s = Accept s" if "os_nValueOut s = 100 * COIN" for s
    using demo_reissue_out(1,3,4) that money
    by (auto simp: check_value_def check_null_asset_def check_asset_def MAX_MONEY_def COIN_def)
  have "out_loop demo_asset_env False True (tx_vout reissue_tx) os_init
      = Accept (os_init\<lparr>os_nValueOut := 100 * COIN, os_setAssetTransferNames := [str ''GOLD!'']\<rparr>)"
    unfolding vout using money re out_loop_transfer [OF demo_lengths(2) big demo_names(2)]
    by (simp add: out_loop_demo pos os_init_def OWNER_ASSET_AMOUNT_def del: out_loop.simps(2))
  then show ?thesis
    by (rule CheckTransaction_acceptI [OF _ _ size _ _ _ _ _ _ _ reissue_tx_kinds(1), rotated 2])
      (simp_all add: vout demo_tx_vin(4) os_init_def check_inputs_form_def, simp_all add: reissue_tx_def demo_tx_vin COutPoint_IsNull_def)
qed

lemma reissue_tx_assets:
  "\<exists>r. CheckTxAssets demo_asset_env reissue_tx (coin_of (transfer_out (str ''GOLD!'') COIN)) demo_asset_view demo_ctx [] = Accept r"
proof -
  have big: "- (2 ^ 63) \<le> COIN" "COIN < 2 ^ 63" by (simp_all add: COIN_def)
  let ?inputs = "coin_of (transfer_out (str ''GOLD!'') COIN)"
  have vout: "tx_vout reissue_tx = [fee_out (100 * COIN), transfer_out (str ''GOLD!'') COIN, reissue_out (str ''GOLD'')]" "tx_vin reissue_tx = tx_vin demo_tx"
    by (simp_all add: reissue_tx_def demo_tx_vin)
  obtain i where i: "IsAssetScript (txo_scriptPubKey (transfer_out (str ''GOLD!'') COIN)) = Some (TX_TRANSFER_ASSET, False, i)"
    using demo_transfer_out(1) [OF demo_lengths(2) big] by blast
  have "\<exists>m. asset_in_loop demo_asset_env demo_asset_view ?inputs (tx_vin reissue_tx) [] Map.empty = Accept ([(str ''GOLD!'', COIN)], m)"
    using demo_transfer_out(3) [OF demo_lengths(2) big] i by (auto simp: vout demo_tx_vin(4) coin_of_def add_amount_def from_option_def)
  then obtain m where ins: "asset_in_loop demo_asset_env demo_asset_view ?inputs (tx_vin reissue_tx) [] Map.empty = Accept ([(str ''GOLD!'', COIN)], m)"
    by blast
  have re: "\<exists>s'. asset_out_loop demo_asset_env demo_asset_view demo_ctx reissue_tx m k [reissue_out (str ''GOLD'')] s = Accept s'
      \<and> ao_totalOutputs s' = ao_totalOutputs s" for k s
    using demo_reissue_out(1-3) by (auto simp: check_null_ctx_def demo_asset_env Let_def)
  have "\<exists>s'. asset_out_loop demo_asset_env demo_asset_view demo_ctx reissue_tx m 0 (tx_vout reissue_tx)
        \<lparr>ao_totalOutputs = [], ao_vPairReissueAssets = [], ao_setMessages = []\<rparr> = Accept s' \<and> ao_totalOutputs s' = [(str ''GOLD!'', COIN)]"
    unfolding vout using asset_out_loop_transfer [OF demo_lengths(2) big owner_transfer_ok(1), of demo_ctx] owner_transfer_ok(2)
      re [of "Suc (Suc 0)" "\<lparr>ao_totalOutputs = [(str ''GOLD!'', COIN)], ao_vPairReissueAssets = [], ao_setMessages = []\<rparr>"]
    by (simp add: asset_out_loop_demo add_amount_def del: asset_out_loop.simps(2))
  then obtain s' where outs: "asset_out_loop demo_asset_env demo_asset_view demo_ctx reissue_tx m 0 (tx_vout reissue_tx)
        \<lparr>ao_totalOutputs = [], ao_vPairReissueAssets = [], ao_setMessages = []\<rparr> = Accept s'" "ao_totalOutputs s' = [(str ''GOLD!'', COIN)]" by blast
  have "HaveInputs_view ?inputs reissue_tx" by (simp add: HaveInputs_view_def vout demo_tx_vin(4) coin_of_def)
  from CheckTxAssets_acceptI [OF this ins outs(1) reissue_tx_kinds(2)] outs(2) show ?thesis by auto
qed

lemma gold_transfer_assets:
  assumes "ns \<noteq> []" "\<And>n. n \<in> set ns \<Longrightarrow> 0 < n \<and> n < 2 ^ 63" "tally [] (map (Pair (str ''GOLD'')) ns) = [(str ''GOLD'', 5)]"
  shows "CheckTxAssets demo_asset_env (transfer_tx (str ''GOLD'') ns) (coin_of (transfer_out (str ''GOLD'') 5)) demo_asset_view demo_ctx [] = Accept ([], [])"
proof -
  have meta: "GetAssetMetaDataIfExists demo_asset_view (str ''GOLD'') = Some ((issued (str ''GOLD''))\<lparr>na_units := 8, na_nReissuable := 1\<rparr>)"
    by (simp add: demo_asset_view_def) (simp add: str_def)
  show ?thesis
    by (rule transfer_tx_assets [OF demo_lengths(1) demo_names(1) _ demo_owners(1) meta]) (use assms in \<open>auto simp: issued_def\<close>)
qed

section \<open>Properties\<close>

text \<open>C9: Assets are conserved. A transaction that passes the check of its assets spends coins of exactly the assets it
  transfers, and for each of them the amounts transferred and spent are the same modulo \<open>2 ^ 64\<close>; they are the same when
  neither sum is negative or reaches \<open>2 ^ 64\<close>.\<close>

theorem assets_conserved:
  assumes "CheckTxAssets env tx inputs cache ctx vpairs = Accept r"
  shows "(name \<in> fst ` set (in_assets env inputs (tx_vin tx)) \<longleftrightarrow> name \<in> fst ` set (out_assets env (tx_vout tx)))
    \<and> amount_of name (out_assets env (tx_vout tx)) mod 2 ^ 64 = amount_of name (in_assets env inputs (tx_vin tx)) mod 2 ^ 64
    \<and> (amount_of name (out_assets env (tx_vout tx)) \<in> {0..<2 ^ 64} \<and> amount_of name (in_assets env inputs (tx_vin tx)) \<in> {0..<2 ^ 64}
       \<longrightarrow> amount_of name (out_assets env (tx_vout tx)) = amount_of name (in_assets env inputs (tx_vin tx)))"
  using CheckTxAssets_totals [OF assms, of name] by auto

theorem assets_conserved_witness:
  "amount_of (str ''GOLD'') (out_assets demo_asset_env (tx_vout (transfer_tx (str ''GOLD'') [2, 3])))
   = amount_of (str ''GOLD'') (in_assets demo_asset_env (coin_of (transfer_out (str ''GOLD'') 5)) (tx_vin demo_tx))"
proof -
  have "CheckTxAssets demo_asset_env (transfer_tx (str ''GOLD'') [2, 3]) (coin_of (transfer_out (str ''GOLD'') 5)) demo_asset_view demo_ctx [] = Accept ([], [])"
    by (rule gold_transfer_assets) (auto simp: tally_def add_amount_def wrap64_def)
  from assets_conserved [OF this, of "str ''GOLD''"] show ?thesis
    using demo_transfer_out(2) [OF demo_lengths(1)] demo_transfer_out(3) [OF demo_lengths(1), of 5]
    by (simp add: demo_tx_vin(4) coin_of_def transfer_tx_def demo_tx_vin(2) out_assets_def moved_def)
qed

text \<open>C10: Who issues an asset below another owns the other. In a transaction that passes both checks, every issue of a
  sub asset, a unique asset or a restricted asset, and of a message channel or sub qualifier that is not issued in the
  form of a root asset, comes with a spent coin of the owner token of its parent, or of the parent for a sub qualifier;
  and the name was free.\<close>

theorem issue_needs_authority:
  assumes "CheckTransaction env tx d m b = Accept ()" and "CheckTxAssets env tx inputs cache ctx vpairs = Accept r"
    and "out \<in> set (tx_vout tx)" and "AssetFromScript env (txo_scriptPubKey out) = Some (asset, a)"
  shows "\<not> CheckIfAssetExists cache (na_strName asset)
    \<and> (\<forall>token. authority (na_strName asset) = Some token
        \<and> (tx_IsNewAsset env tx \<longrightarrow> snd (IsAssetNameValid (na_strName asset) INVALID) \<notin> {MSGCHANNEL, SUB_QUALIFIER})
        \<longrightarrow> spends env inputs tx token)"
proof -
  obtain f where kind: "check_kind env tx = Accept f" using CheckTransaction_parts [OF assms(1)] by blast
  have ctx: "check_kind_ctx env cache ctx tx = Accept ()" using CheckTxAssets_Accept [OF assms(2)] by blast
  show ?thesis
    using issue_fresh [OF kind ctx assms(3,4)] issue_in_kind [OF kind assms(3,4)] transfer_needs_coin [OF assms(2)] by blast
qed

theorem issue_needs_authority_witness:
  "spends demo_asset_env (coin_of (transfer_out (str ''GOLD!'') COIN)) (issue_tx [transfer_out (str ''GOLD!'') COIN] (str ''GOLD/BAR'')) (str ''GOLD!'')"
proof -
  let ?n = "str ''GOLD/BAR''" and ?ts = "[transfer_out (str ''GOLD!'') COIN]"
  have name: "length ?n \<le> 30" "4 \<le> length ?n" "IsAssetNameValid ?n INVALID = (True, SUB)" "\<not> IsAssetNameAnOwner ?n"
    "SUB = MSGCHANNEL \<or> SUB = SUB" "GetParentName ?n = str ''GOLD''"
    using demo_names demo_owners demo_parents by (simp_all add: str_def)
  have checked: "CheckTransaction demo_asset_env (issue_tx ?ts ?n) True False True = Accept ()"
    "CheckTxAssets demo_asset_env (issue_tx ?ts ?n) (coin_of (transfer_out (str ''GOLD!'') COIN)) demo_asset_view demo_ctx [] = Accept ([], [])"
    using issue_tx_checked [OF name, of ?ts] issue_tx_assets [OF name, of ?ts] by simp_all
  have "authority ?n = Some (str ''GOLD!'')" using name(3,6) by (simp add: authority_def) (simp add: str_def OWNER_TAG_def)
  moreover have "issue_out ?n \<in> set (tx_vout (issue_tx ?ts ?n))" by (simp add: issue_tx_def demo_tx_vin)
  ultimately show ?thesis
    using issue_needs_authority [OF checked _ demo_issue_out(2) [OF name(1)]] name(3) by (simp add: issued_def)
qed

text \<open>C11: Only the owner reissues, and within the limits. In a transaction that passes both checks, a reissue comes with a
  spent coin of the owner token of the asset; the asset exists and may be reissued, and its amount with the new one is
  at most the limit of money.\<close>

theorem reissue_needs_owner:
  assumes "CheckTransaction env tx d m b = Accept ()" and "CheckTxAssets env tx inputs cache ctx vpairs = Accept r"
    and "out \<in> set (tx_vout tx)" and "ReissueAssetFromScript env (txo_scriptPubKey out) = Some (reissue, a)"
  shows "spends env inputs tx
      ((if snd (IsAssetNameValid (ra_strName reissue) INVALID) = RESTRICTED then drop 1 (ra_strName reissue) else ra_strName reissue) @ OWNER_TAG)
    \<and> (\<exists>prev. GetAssetMetaDataIfExists cache (ra_strName reissue) = Some prev \<and> na_nReissuable prev \<noteq> 0
        \<and> 0 \<le> ra_nAmount reissue \<and> na_nAmount prev + ra_nAmount reissue \<le> MAX_MONEY)"
proof -
  obtain f where kind: "check_kind env tx = Accept f" using CheckTransaction_parts [OF assms(1)] by blast
  have ctx: "check_kind_ctx env cache ctx tx = Accept ()" using CheckTxAssets_Accept [OF assms(2)] by blast
  note r = reissue_in_kind [OF kind ctx assms(3,4)]
  have "CheckReissueAsset env reissue = None \<and> (\<exists>prev. GetAssetMetaDataIfExists cache (ra_strName reissue) = Some prev \<and> na_nReissuable prev \<noteq> 0
      \<and> na_nAmount prev + ra_nAmount reissue \<le> MAX_MONEY)"
    using r by (cases "GetAssetMetaDataIfExists cache (ra_strName reissue)") (auto simp: ContextualCheckReissueAsset_def split: option.splits prod.splits if_splits)
  moreover have "CheckReissueAsset env reissue = None \<Longrightarrow> 0 \<le> ra_nAmount reissue" by (auto simp: CheckReissueAsset_def split: if_splits)
  moreover note transfer_needs_coin [OF assms(2) conjunct2 [OF reissue_authority(2) [OF conjunct1 [OF r] assms(3,4)]]]
  ultimately show ?thesis by simp
qed

theorem reissue_needs_owner_witness:
  "spends demo_asset_env (coin_of (transfer_out (str ''GOLD!'') COIN)) reissue_tx (str ''GOLD!'')"
proof -
  obtain r where r: "CheckTxAssets demo_asset_env reissue_tx (coin_of (transfer_out (str ''GOLD!'') COIN)) demo_asset_view demo_ctx [] = Accept r"
    using reissue_tx_assets by blast
  have "reissue_out (str ''GOLD'') \<in> set (tx_vout reissue_tx)" by (simp add: reissue_tx_def demo_tx_vin)
  moreover have "str ''GOLD'' @ OWNER_TAG = str ''GOLD!''" by (simp add: str_def OWNER_TAG_def)
  ultimately show ?thesis
    using reissue_needs_owner [OF reissue_tx_checked r _ demo_reissue_out(2)] demo_names(1) by (simp add: reissued_def)
qed

text \<open>C12: Restricted assets move only where they may. In a transaction that passes the check of its assets, no coin of a
  restricted asset is spent from a frozen address, and every transfer of one is of an asset that is not frozen, to an
  address that the verifier string of the asset admits.\<close>

theorem restricted_transfers_checked:
  assumes "CheckTxAssets env tx inputs cache ctx vpairs = Accept r"
  shows "(\<forall>txin \<in> set (tx_vin tx). \<forall>coin data. inputs (txin_prevout txin) = Some coin \<and> GetAssetData env (txo_scriptPubKey (coin_out coin)) = Some data
        \<and> IsAssetNameAnRestricted (aoe_assetName data)
        \<longrightarrow> \<not> CheckForAddressRestriction cache (aoe_assetName data) (the (EncodeDestination (env_hash256 env) (env_prefixes env) (aoe_destination data))))
    \<and> (\<forall>(transfer, address) \<in> set (out_transfers env (tx_vout tx)). snd (IsAssetNameValid (at_strName transfer) INVALID) = RESTRICTED
        \<longrightarrow> \<not> CheckForGlobalRestriction cache (at_strName transfer)
          \<and> (\<exists>v. GetAssetVerifierStringIfExists cache (at_strName transfer) True = Some v \<and> ContextualCheckVerifierString cache v address = None))"
proof -
  obtain mm s where ins: "asset_in_loop env cache inputs (tx_vin tx) [] Map.empty = Accept (tally [] (in_assets env inputs (tx_vin tx)), mm)"
    and outs: "asset_out_loop env cache ctx tx mm 0 (tx_vout tx) \<lparr>ao_totalOutputs = [], ao_vPairReissueAssets = vpairs, ao_setMessages = []\<rparr> = Accept s"
    using CheckTxAssets_Accept [OF assms] by blast
  have v: "\<not> CheckForGlobalRestriction cache (at_strName transfer) \<and> ContextualCheckAgainstVerifyString cache transfer address = None"
    if "ContextualCheckTransferAsset env cache transfer address = None" "snd (IsAssetNameValid (at_strName transfer) INVALID) = RESTRICTED" for transfer address
    using that by (auto simp: ContextualCheckTransferAsset_def split: prod.splits if_splits option.splits)
  have "ContextualCheckAgainstVerifyString cache transfer address = None \<Longrightarrow>
      \<exists>v. GetAssetVerifierStringIfExists cache (at_strName transfer) True = Some v \<and> ContextualCheckVerifierString cache v address = None" for transfer address
    by (auto simp: ContextualCheckAgainstVerifyString_def split: option.splits)
  then show ?thesis using asset_in_loop_tally [OF ins] asset_out_loop_tally [OF outs] v by (fastforce simp: list_all_iff)
qed

theorem restricted_transfers_checked_witness:
  "\<exists>v. GetAssetVerifierStringIfExists demo_asset_view (str ''$GOLD'') True = Some v \<and> ContextualCheckVerifierString demo_asset_view v demo_address = None"
proof -
  have meta: "GetAssetMetaDataIfExists demo_asset_view (str ''$GOLD'') = Some ((issued (str ''$GOLD''))\<lparr>na_units := 8\<rparr>)" by (simp add: demo_asset_view_def)
  have "CheckTxAssets demo_asset_env (transfer_tx (str ''$GOLD'') [5]) (coin_of (transfer_out (str ''$GOLD'') 5)) demo_asset_view demo_ctx [] = Accept ([], [])"
    by (rule transfer_tx_assets [OF demo_lengths(3) demo_names(3) _ demo_owners(3) meta]) (auto simp: issued_def tally_def add_amount_def)
  moreover have "(moved (str ''$GOLD'') 5, demo_address) \<in> set (out_transfers demo_asset_env (tx_vout (transfer_tx (str ''$GOLD'') [5])))"
    using demo_transfer_out(2) [OF demo_lengths(3), of 5] by (simp add: transfer_tx_def demo_tx_vin)
  ultimately show ?thesis
    using restricted_transfers_checked [of demo_asset_env "transfer_tx (str ''$GOLD'') [5]"] demo_names(3) by (fastforce simp: moved_def)
qed

text \<open>C25: A gap in the rules of issue. Without a coin of the owner token of \<open>GOLD\<close> one can issue the message channel
  \<open>GOLD~NEWS\<close>: a transaction that has the form of an issue of a root asset, with a token for the owner of the channel
  before the issue, passes both checks.\<close>

theorem channel_without_owner:
  "CheckTransaction demo_asset_env (issue_tx [] (str ''GOLD~NEWS'')) True False True = Accept ()
   \<and> CheckTxAssets demo_asset_env (issue_tx [] (str ''GOLD~NEWS'')) (coin_of (fee_out (200 * COIN))) demo_asset_view demo_ctx [] = Accept ([], [])
   \<and> AssetFromScript demo_asset_env (txo_scriptPubKey (last (tx_vout (issue_tx [] (str ''GOLD~NEWS''))))) = Some (issued (str ''GOLD~NEWS''), demo_address)
   \<and> authority (str ''GOLD~NEWS'') = Some (str ''GOLD!'')
   \<and> \<not> spends demo_asset_env (coin_of (fee_out (200 * COIN))) (issue_tx [] (str ''GOLD~NEWS'')) (str ''GOLD!'')"
proof -
  let ?n = "str ''GOLD~NEWS''"
  have name: "length ?n \<le> 30" "4 \<le> length ?n" "IsAssetNameValid ?n INVALID = (True, MSGCHANNEL)" "\<not> IsAssetNameAnOwner ?n"
    "MSGCHANNEL = MSGCHANNEL \<or> MSGCHANNEL = SUB" "GetParentName ?n = str ''GOLD''"
    using demo_names demo_owners demo_parents by (simp_all add: str_def)
  have "GetAssetData demo_asset_env (txo_scriptPubKey (fee_out v)) = None" for v by (simp add: GetAssetData_def demo_fee_out)
  then have "\<not> spends demo_asset_env (coin_of (fee_out (200 * COIN))) (issue_tx [] ?n) (str ''GOLD!'')"
    by (simp add: spends_def issue_tx_def demo_tx_vin coin_of_def)
  moreover have "authority ?n = Some (str ''GOLD!'')"
    using name(3,6) by (simp add: authority_def) (simp add: str_def OWNER_TAG_def)
  ultimately show ?thesis
    using issue_tx_checked [OF name, of "[]"] issue_tx_assets [OF name, of "[]"] issue_tx_kind(3) [OF name, of "[]"] demo_issue_out(2) [OF name(1)] by simp
qed

text \<open>C26: A gap in the sums. Amounts are added in 64 bits without a check of their range, so that a transaction which
  spends five units of an asset and transfers \<open>2 ^ 64\<close> units more passes both checks.\<close>

theorem asset_sums_wrap:
  "CheckTransaction demo_asset_env (transfer_tx (str ''GOLD'') [2 ^ 62, 2 ^ 62, 2 ^ 62, 2 ^ 62, 5]) True False True = Accept ()
   \<and> CheckTxAssets demo_asset_env (transfer_tx (str ''GOLD'') [2 ^ 62, 2 ^ 62, 2 ^ 62, 2 ^ 62, 5]) (coin_of (transfer_out (str ''GOLD'') 5))
       demo_asset_view demo_ctx [] = Accept ([], [])
   \<and> amount_of (str ''GOLD'') (in_assets demo_asset_env (coin_of (transfer_out (str ''GOLD'') 5)) (tx_vin demo_tx)) = 5
   \<and> amount_of (str ''GOLD'') (out_assets demo_asset_env (tx_vout (transfer_tx (str ''GOLD'') [2 ^ 62, 2 ^ 62, 2 ^ 62, 2 ^ 62, 5]))) = 2 ^ 64 + 5"
proof -
  let ?g = "str ''GOLD''" and ?ns = "[2 ^ 62, 2 ^ 62, 2 ^ 62, 2 ^ 62, 5] :: int list"
  have range: "0 < n \<and> n < 2 ^ 63" if "n \<in> set ?ns" for n using that by auto
  have "wrap64 9223372036854775808 = - 9223372036854775808" "wrap64 (- 4611686018427387904) = - 4611686018427387904" "wrap64 0 = 0" "wrap64 5 = 5"
    by (simp_all add: wrap64_def)
  then have "tally [] (map (Pair ?g) ?ns) = [(?g, 5)]" by (simp add: tally_def add_amount_def)
  then have "CheckTxAssets demo_asset_env (transfer_tx ?g ?ns) (coin_of (transfer_out ?g 5)) demo_asset_view demo_ctx [] = Accept ([], [])"
    by (intro gold_transfer_assets) (use range in force)+
  moreover have "CheckTransaction demo_asset_env (transfer_tx ?g ?ns) True False True = Accept ()"
    by (rule transfer_tx_checked [OF demo_lengths(1) demo_names(1) demo_owners(1)]) (use range in force)+
  moreover have "amount_of ?g (in_assets demo_asset_env (coin_of (transfer_out ?g 5)) (tx_vin demo_tx)) = 5"
    using demo_transfer_out(3) [OF demo_lengths(1), of 5] by (simp add: demo_tx_vin(4) coin_of_def)
  moreover have "amount_of ?g (out_assets demo_asset_env (tx_vout (transfer_tx ?g ?ns))) = 2 ^ 64 + 5"
    using demo_transfer_out(2) [OF demo_lengths(1)] by (simp add: transfer_tx_def demo_tx_vin out_assets_def moved_def)
  ultimately show ?thesis by blast
qed

end
