(* ===== verification/Spec2Isabelle.thy ===== *)
theory Spec2Isabelle
  imports Multisig Pow VersionBits PartialMerkle CoinsUpdate AssetRules
begin

text \<open>
  \<^bold>\<open>Verification of the consensus core of Hivecoin.\<close>

  Hivecoin is a node of a block chain of the Bitcoin family that also moves assets. This library models the parts of
  the node that decide what is valid, as functions on bytes, records and maps, and proves what they decide. Each
  definition has the name of the function, class or constant it translates, under \<^verbatim>\<open>src/src\<close>.

  \<^bold>\<open>The parts and their theories.\<close>

  \<^item> \<open>Prelude\<close>, \<open>Serialize\<close>: bytes, readers, the wire format of \<open>serialize.h\<close> and \<open>streams.h\<close>. The locales
    \<open>codec\<close> and \<open>canonical_codec\<close> say what a serialized type promises; every format of the later theories interprets
    them.
  \<^item> \<open>ScriptNum\<close>, \<open>Script\<close>, \<open>SigEncoding\<close>, \<open>Interpreter\<close>, \<open>VerifyScript\<close>, \<open>Multisig\<close>: \<open>script/script.h\<close>,
    \<open>script/script.cpp\<close> and \<open>script/interpreter.cpp\<close>, the scripts that guard an output, from the decoding of an
    instruction to \<open>VerifyScript\<close>. \<open>InterpreterSafe\<close> shows that no assertion fails, \<open>InterpreterFlags\<close> that the
    verification flags only restrict.
  \<^item> \<open>Transaction\<close>, \<open>SigHash\<close>: \<open>primitives/transaction.h\<close>, \<open>transaction.cpp\<close>, \<open>amount.h\<close>, and the hash a signature
    is made on.
  \<^item> \<open>ArithUint256\<close>, \<open>CompactTarget\<close>, \<open>Chain\<close>, \<open>Pow\<close>, \<open>VersionBits\<close>: \<open>arith_uint256.cpp\<close>, \<open>chain.h\<close>,
    \<open>chain.cpp\<close>, \<open>pow.cpp\<close>, \<open>versionbits.cpp\<close>: 256-bit integers as eight limbs, the block index as a store of
    entries, the difficulty rules and the deployment of soft forks.
  \<^item> \<open>Merkle\<close>, \<open>Block\<close>, \<open>PartialMerkle\<close>: \<open>consensus/merkle.cpp\<close>, \<open>primitives/block.h\<close>, \<open>block.cpp\<close>,
    \<open>merkleblock.cpp\<close>.
  \<^item> \<open>Compressor\<close>, \<open>Coins\<close>, \<open>CoinsUpdate\<close>: \<open>compressor.cpp\<close>, \<open>undo.h\<close>, \<open>coins.h\<close>, \<open>coins.cpp\<close>, \<open>txdb.cpp\<close>
    and the functions of \<open>validation.cpp\<close> that change the set of unspent outputs. The locale \<open>coins_view\<close> is the
    contract of a view; a cache over a view that keeps it keeps it too, and it is interpreted for the database and for
    a cache over it. In \<open>CoinsUpdate\<close> the methods of the asset cache are arguments, and what the code does with their
    answers is translated: a method that fails makes disconnecting unclean or failed.
  \<^item> \<open>AssetTypes\<close>, \<open>AssetNames\<close>: the records, scripts and names of assets (\<open>assets/assettypes.h\<close>, \<open>assets/assets.h\<close>,
    \<open>assets/assets.cpp\<close>).
  \<^item> \<open>Base58\<close>, \<open>Standard\<close>, \<open>Address\<close>: \<open>base58.cpp\<close>, \<open>script/standard.cpp\<close>, from bytes to the text of an address
    and from a script to the destinations it pays.
  \<^item> \<open>TxVerify\<close>: the lock times, signature operation costs and values of \<open>consensus/tx_verify.cpp\<close>.
  \<^item> \<open>AssetScripts\<close>, \<open>Verifier\<close>, \<open>AssetTx\<close>, \<open>TxAssets\<close>, \<open>AssetRules\<close>: what asset outputs say, the boolean
    expressions of \<open>LibBoolEE.cpp\<close>, and the rules for issuing, reissuing and transferring, up to \<open>CheckTransaction\<close> and
    \<open>CheckTxAssets\<close> of \<open>consensus/tx_verify.cpp\<close>. What depends on the network and the deployments is in the record
    \<open>node_env\<close>, what the asset cache answers in the record \<open>asset_view\<close>.

  \<^bold>\<open>How the code is translated.\<close> A class is a record and its methods take and return it. Machine integers are words
  where they wrap and unbounded integers or numbers where the code keeps them in range, which is then a lemma or a
  hypothesis. A vector or string of bytes is a list of 8-bit words. An exception, a failed assertion or an early return
  is a value of the result. Hash functions, the elliptic curve library, the clock and the databases of LevelDB are
  arguments; what is asked of them is a hypothesis of the theorem, such as that the hash has no collision among the
  inputs that occur.

  \<^bold>\<open>What the theorems show.\<close> Serialized data are read back, and where the format is canonical only from one encoding.
  Script evaluation never leaves its stack, and script verification under consistent flags, which are those its
  assertions ask for, ends with a verdict; the verdict is monotone in the flags; and for the standard templates it is that
  of the signature check. A signature hash commits to what it must, a Merkle root to its transactions, a
  partial tree only proves what is in the block. The retargeting stays within its bounds, except for the overflow that
  is shown. The states of a deployment are those of the specification, with the cache and without. Caches of coins
  behave as the set they stand for, across a crash too, and a block of transactions without asset outputs that is connected and disconnected leaves the
  coins as they were. The type of an asset name is given by a grammar.
  An address stands for one destination. A transaction that passes the checks pays for its outputs and conserves its assets,
  up to the wrap-around of the sums that is shown; it issues and reissues only with the owner token, up to the gap for
  message channels that is shown; and restricted assets go where their verifier admits.

  \<^bold>\<open>Bounds and fuel.\<close> The loops that recurse on a list or a number need none. \<open>EvalScript\<close> recurses on the bytes
  left; the walks over the block index have the height of the entry as fuel, which is enough for an index that is well
  formed; the Merkle computation loops over the bits of its counter, of which there are 32. \<open>AccessByTxid\<close> counts
  down from the bound in the source.

  \<^bold>\<open>Not modelled.\<close> Threads, locks and sockets; the wallet, the interfaces for users and remote calls and the
  databases behind them; the bundled libraries (LevelDB, secp256k1, UniValue) and the proof-of-work hash functions, which
  are table-driven third-party code that the consensus code only calls; conversions to text for logs. Of
  \<open>validation.cpp\<close> only the functions named above: the rest of it moves data between the disk, the memory pool and the
  network. The components and what is left out of each are listed in the manifest.
\<close>

section \<open>Spending with the transaction checker\<close>

text \<open>C1: Script verification of a transaction input fails no assertion under consistent flags, which are those where a
  clean stack is asked for only together with witnesses, and witnesses are checked only together with script hashes, as
  the assertions of \<open>VerifyScript\<close> demand. With the transaction checker of an input that exists, whatever the elliptic
  curve library answers, \<open>VerifyScript\<close> then returns success or an error code. The hash functions are asked to return
  digests of their length, and the witness to have fewer than \<open>2 ^ 63\<close> items.\<close>

theorem input_verification_returns:
  assumes "crypto_ok cr" and "flags_consistent fl" and "length witness < 2 ^ 63"
    and "chk_nIn chk < length (tx_vin (chk_txTo chk))"
  shows "VerifyScript cr (tx_checker h verify chk) fl sig spk witness = Ok ()
    \<or> (\<exists>e. VerifyScript cr (tx_checker h verify chk) fl sig spk witness = Err e)"
proof -
  have "checker_ok (tx_checker h verify chk)"
    unfolding checker_ok_def using tx_checker_CheckSig_returns [OF assms(4)] by (metis safe.simps(1))
  then have "verify_ok cr (tx_checker h verify chk)" using assms(1) by (simp add: verify_ok_def)
  from safe_VerifyScript [OF this assms(2,3), of sig spk] VerifyScript_no_throw [of cr "tx_checker h verify chk" fl sig spk witness]
  show ?thesis by (cases "VerifyScript cr (tx_checker h verify chk) fl sig spk witness") auto
qed

definition demo_chk :: TransactionSignatureChecker where
  "demo_chk = \<lparr>chk_txTo = demo_tx, chk_nIn = 0, chk_amount = 5, chk_txdata = None\<rparr>"

theorem input_verification_returns_witness:
  "VerifyScript demo_crypto (tx_checker (take 32) (\<lambda>_ _ _. True) demo_chk) 0 [] [OP_1] [] = Ok ()
    \<or> (\<exists>e. VerifyScript demo_crypto (tx_checker (take 32) (\<lambda>_ _ _. True) demo_chk) 0 [] [OP_1] [] = Err e)"
  using input_verification_returns [of demo_crypto 0 "[]" demo_chk] verify_ok_demo
  by (simp add: verify_ok_def flags_consistent_def has_flag_def demo_chk_def demo_tx_def)

end
